(* ===== verification/Prelude.thy ===== *)
theory Prelude
  imports Main "HOL-Library.Word" "HOL-Library.Char_ord" "HOL-Library.List_Lexorder"
    "HOL-Library.Product_Lexorder" "HOL-Library.Sublist"
begin

text \<open>
  What every component shares: the parts of the Rust standard library the
  sources use (byte strings, \<open>u32\<close> arithmetic), the relational operations a
  SQL statement performs on a table held as a list of rows, and the lemmas on
  them.

  A Rust \<open>String\<close> is its UTF-8 bytes, so a HOL \<open>string\<close> holds bytes; the order
  of \<open>HOL-Library.List_Lexorder\<close> on it is Rust's order on \<open>str\<close> and SQLite's
  \<open>BINARY\<close> collation. A time stamp is the text \<open>now_iso\<close> produces.
\<close>

named_theorems sql "the relational operations on tables, as rewrite rules"
named_theorems rust "the Rust library operations, as rewrite rules"

type_synonym row_id = nat
type_synonym stamp = string
type_synonym u32 = "32 word"

section \<open>Unsigned 32-bit numbers\<close>

definition u32_max :: u32 where
  "u32_max = 4294967295"

definition saturating_add :: "u32 \<Rightarrow> u32 \<Rightarrow> u32" where
  "saturating_add a b = (if unat a + unat b < 2 ^ 32 then a + b else u32_max)"

lemma unat_u32_max: "unat u32_max = 2 ^ 32 - 1"
  by (simp add: u32_max_def)

lemma unat_saturating_add: "unat (saturating_add a b) = min (unat a + unat b) (2 ^ 32 - 1)"
proof (cases "unat a + unat b < 2 ^ 32")
  case True
  then have "unat (a + b) = unat a + unat b"
    by (simp add: unat_word_ariths)
  with True show ?thesis by (simp add: saturating_add_def)
next
  case False
  then show ?thesis by (simp add: saturating_add_def u32_max_def)
qed

lemma saturating_add_max [simp]: "saturating_add u32_max 1 = u32_max"
  by (simp add: saturating_add_def u32_max_def)

lemma u32_less_max_iff: "a < u32_max \<longleftrightarrow> a \<noteq> u32_max"
proof -
  have "unat a < 2 ^ 32" using unsigned_less[of a] by simp
  then have "unat a < unat u32_max \<longleftrightarrow> unat a \<noteq> unat u32_max"
    by (auto simp: unat_u32_max)
  then show ?thesis
    by (simp add: word_less_nat_alt word_unat_eq_iff)
qed

lemma saturating_add_one_less: "a \<noteq> u32_max \<Longrightarrow> a < saturating_add a 1"
proof -
  assume "a \<noteq> u32_max"
  then have "unat a < unat u32_max"
    using u32_less_max_iff[of a] by (simp add: word_less_nat_alt)
  then show ?thesis
    by (simp add: word_less_nat_alt unat_saturating_add unat_u32_max)
qed

section \<open>Results\<close>

text \<open>\<open>Result::and_then\<close>, which the \<open>?\<close> operator performs, and \<open>map_err\<close>.\<close>

definition and_then :: "'e + 'a \<Rightarrow> ('a \<Rightarrow> 'e + 'b) \<Rightarrow> 'e + 'b" where
  "and_then r f = (case r of Inl e \<Rightarrow> Inl e | Inr a \<Rightarrow> f a)"

definition map_err :: "('e \<Rightarrow> 'f) \<Rightarrow> 'e + 'a \<Rightarrow> 'f + 'a" where
  "map_err f r = (case r of Inl e \<Rightarrow> Inl (f e) | Inr a \<Rightarrow> Inr a)"

lemma and_then_simps [simp]: "and_then (Inl e) f = Inl e" "and_then (Inr a) f = f a"
  by (simp_all add: and_then_def)

lemma map_err_simps [simp]: "map_err f (Inl e) = Inl (f e)" "map_err f (Inr a) = Inr a"
  by (simp_all add: map_err_def)

lemma and_then_Inr_iff [rust]: "and_then r f = Inr b \<longleftrightarrow> (\<exists>a. r = Inr a \<and> f a = Inr b)"
  by (cases r) simp_all

lemma map_err_Inr_iff [rust]: "map_err f r = Inr b \<longleftrightarrow> r = Inr b"
  by (cases r) simp_all

section \<open>Byte strings\<close>

definition strip_prefix :: "string \<Rightarrow> string \<Rightarrow> string option" where
  "strip_prefix p s = (if take (length p) s = p then Some (drop (length p) s) else None)"

definition starts_with :: "string \<Rightarrow> string \<Rightarrow> bool" where
  "starts_with p s \<longleftrightarrow> take (length p) s = p"

fun contains_str :: "string \<Rightarrow> string \<Rightarrow> bool" where
  "contains_str p [] = (p = [])"
| "contains_str p (x # xs) = (starts_with p (x # xs) \<or> contains_str p xs)"

fun split_char :: "char \<Rightarrow> string \<Rightarrow> string list" where
  "split_char c [] = [[]]"
| "split_char c (x # xs) =
     (if x = c then [] # split_char c xs
      else (case split_char c xs of [] \<Rightarrow> [[x]] | w # ws \<Rightarrow> (x # w) # ws))"

fun split_once :: "char \<Rightarrow> string \<Rightarrow> (string \<times> string) option" where
  "split_once c [] = None"
| "split_once c (x # xs) =
     (if x = c then Some ([], xs)
      else (case split_once c xs of None \<Rightarrow> None | Some (a, b) \<Rightarrow> Some (x # a, b)))"

definition rsplit_once :: "char \<Rightarrow> string \<Rightarrow> (string \<times> string) option" where
  "rsplit_once c s = (case split_once c (rev s) of None \<Rightarrow> None
                      | Some (a, b) \<Rightarrow> Some (rev b, rev a))"

fun join :: "string \<Rightarrow> string list \<Rightarrow> string" where
  "join sep [] = []"
| "join sep [w] = w"
| "join sep (w # ws) = w @ sep @ join sep ws"

function replace_str :: "string \<Rightarrow> string \<Rightarrow> string \<Rightarrow> string" where
  "replace_str p r [] = []"
| "replace_str p r (x # xs) =
     (if p \<noteq> [] \<and> starts_with p (x # xs) then r @ replace_str p r (drop (length p) (x # xs))
      else x # replace_str p r xs)"
  by pat_completeness auto
termination
  by (relation "measure (\<lambda>(p, r, s). length s)") auto

definition replace_char :: "char \<Rightarrow> string \<Rightarrow> string \<Rightarrow> string" where
  "replace_char c r s = concat (map (\<lambda>x. if x = c then r else [x]) s)"

lemma replace_char_free: "c \<notin> set r \<Longrightarrow> c \<notin> set (replace_char c r s)"
  by (auto simp: replace_char_def split: if_splits)

lemma replace_char_id: "c \<notin> set s \<Longrightarrow> replace_char c r s = s"
  by (induction s) (auto simp: replace_char_def)

lemma split_once_append: "split_once c s = Some (a, b) \<Longrightarrow> s = a @ c # b \<and> c \<notin> set a"
  by (induction s arbitrary: a) (auto split: if_splits option.splits)

lemma split_once_None: "split_once c s = None \<longleftrightarrow> c \<notin> set s"
  by (induction s) (auto split: option.splits)

lemma split_once_first: "c \<notin> set a \<Longrightarrow> split_once c (a @ c # b) = Some (a, b)"
  by (induction a) auto

lemma split_char_nonempty [simp]: "split_char c s \<noteq> []"
  by (induction s) (auto split: list.splits)

lemma split_char_join: "join [c] (split_char c s) = s"
proof (induction s)
  case (Cons x xs)
  then show ?case
    by (cases "split_char c xs"; cases "tl (split_char c xs)")
      (auto split: list.splits)
qed simp

lemma split_char_free: "c \<notin> set w \<Longrightarrow> split_char c w = [w]"
  by (induction w) auto

lemma split_char_sep: "c \<notin> set w \<Longrightarrow> split_char c (w @ c # s) = w # split_char c s"
  by (induction w) auto

subsection \<open>White space\<close>

text \<open>
  The code points with the Unicode property \<open>White_Space\<close>, each as its UTF-8
  bytes: \<open>str::trim\<close>, \<open>split_whitespace\<close> and \<open>char::is_whitespace\<close> use it.
\<close>

definition white_space :: "string list" where
  "white_space =
     [[CHR 0x09], [CHR 0x0A], [CHR 0x0B], [CHR 0x0C], [CHR 0x0D], [CHR 0x20],
      [CHR 0xC2, CHR 0x85], [CHR 0xC2, CHR 0xA0], [CHR 0xE1, CHR 0x9A, CHR 0x80],
      [CHR 0xE2, CHR 0x80, CHR 0x80], [CHR 0xE2, CHR 0x80, CHR 0x81],
      [CHR 0xE2, CHR 0x80, CHR 0x82], [CHR 0xE2, CHR 0x80, CHR 0x83],
      [CHR 0xE2, CHR 0x80, CHR 0x84], [CHR 0xE2, CHR 0x80, CHR 0x85],
      [CHR 0xE2, CHR 0x80, CHR 0x86], [CHR 0xE2, CHR 0x80, CHR 0x87],
      [CHR 0xE2, CHR 0x80, CHR 0x88], [CHR 0xE2, CHR 0x80, CHR 0x89],
      [CHR 0xE2, CHR 0x80, CHR 0x8A], [CHR 0xE2, CHR 0x80, CHR 0xA8],
      [CHR 0xE2, CHR 0x80, CHR 0xA9], [CHR 0xE2, CHR 0x80, CHR 0xAF],
      [CHR 0xE2, CHR 0x81, CHR 0x9F], [CHR 0xE3, CHR 0x80, CHR 0x80]]"

definition leading :: "string list \<Rightarrow> string \<Rightarrow> nat" where
  "leading ws s = (case find (\<lambda>w. w \<noteq> [] \<and> starts_with w s) ws of
                     None \<Rightarrow> 0 | Some w \<Rightarrow> length w)"

function strip_leading :: "string list \<Rightarrow> string \<Rightarrow> string" where
  "strip_leading ws s =
     (if s = [] \<or> leading ws s = 0 then s else strip_leading ws (drop (leading ws s) s))"
  by pat_completeness auto
termination
  by (relation "measure (\<lambda>(ws, s). length s)") auto

declare strip_leading.simps [simp del]

definition trim_start :: "string \<Rightarrow> string" where
  "trim_start s = strip_leading white_space s"

definition trim_end :: "string \<Rightarrow> string" where
  "trim_end s = rev (strip_leading (map rev white_space) (rev s))"

definition trim :: "string \<Rightarrow> string" where
  "trim s = trim_end (trim_start s)"

lemma strip_leading_idem: "strip_leading ws (strip_leading ws s) = strip_leading ws s"
proof (induction ws s rule: strip_leading.induct)
  case (1 ws s)
  show ?case
  proof (cases "s = [] \<or> leading ws s = 0")
    case True
    then show ?thesis by (simp add: strip_leading.simps[of ws s])
  next
    case False
    with "1.IH" show ?thesis by (simp add: strip_leading.simps[of ws s])
  qed
qed

lemma strip_leading_suffix: "suffix (strip_leading ws s) s"
proof (induction ws s rule: strip_leading.induct)
  case (1 ws s)
  show ?case
  proof (cases "s = [] \<or> leading ws s = 0")
    case True
    then show ?thesis by (simp add: strip_leading.simps[of ws s])
  next
    case False
    with "1.IH" have "suffix (strip_leading ws s) (drop (leading ws s) s)"
      by (simp add: strip_leading.simps[of ws s])
    then show ?thesis
      using suffix_drop suffix_order.trans by blast
  qed
qed

lemma trim_end_prefix: "prefix (trim_end s) s"
  using strip_leading_suffix[of "map rev white_space" "rev s"]
  by (simp add: trim_end_def suffix_to_prefix)

lemma trim_start_suffix: "suffix (trim_start s) s"
  by (simp add: trim_start_def strip_leading_suffix)

lemma trim_end_idem [simp]: "trim_end (trim_end s) = trim_end s"
  by (simp add: trim_end_def strip_leading_idem)

lemma leading_strip [simp]: "leading ws (strip_leading ws s) = 0"
proof (induction ws s rule: strip_leading.induct)
  case (1 ws s)
  have "leading ws [] = 0" by (auto simp: leading_def starts_with_def split: option.split dest!: find_Some_iff[THEN iffD1])
  with 1 show ?case by (cases "s = [] \<or> leading ws s = 0") (auto simp: strip_leading.simps[of ws s])
qed

lemma leading_zero: "leading ws s = 0 \<longleftrightarrow> (\<forall>w \<in> set ws. w = [] \<or> \<not> starts_with w s)"
  by (auto simp: leading_def find_None_iff find_Some_iff split: option.split)

lemma leading_prefix: "prefix p s \<Longrightarrow> leading ws s = 0 \<Longrightarrow> leading ws p = 0"
  unfolding leading_zero starts_with_def prefix_def
  by (metis append_eq_conv_conj append.assoc append_take_drop_id)

lemma trim_idem [simp]: "trim (trim s) = trim s"
proof -
  have "leading white_space (trim s) = 0"
    unfolding trim_def using trim_end_prefix by (rule leading_prefix) (simp add: trim_start_def)
  then have "trim_start (trim s) = trim s" by (simp add: trim_start_def strip_leading.simps[of _ "trim s"])
  then show ?thesis by (simp add: trim_def[of "trim s"]) (simp add: trim_def)
qed

function split_whitespace :: "string \<Rightarrow> string list" where
  "split_whitespace s =
     (case trim_start s of [] \<Rightarrow> []
      | t \<Rightarrow> (let n = length (takeWhile (\<lambda>i. leading white_space (drop i t) = 0) [0..<length t])
             in take n t # (if n = 0 then [] else split_whitespace (drop n t))))"
  by pat_completeness auto
termination
proof (relation "measure length", goal_cases)
  case (2 s a list n)
  then have "suffix (a # list) s"
    using trim_start_suffix[of s] by simp
  then have "length (a # list) \<le> length s"
    by (rule suffix_length_le)
  moreover have "length (drop n (a # list)) < length (a # list)"
    using 2 by (simp del: upt_Suc)
  ultimately show ?case by simp
qed simp

declare split_whitespace.simps [simp del]

subsection \<open>Characters\<close>

definition is_ascii_digit :: "char \<Rightarrow> bool" where
  "is_ascii_digit c \<longleftrightarrow> 48 \<le> (of_char c :: nat) \<and> (of_char c :: nat) \<le> 57"

definition is_ascii_upper :: "char \<Rightarrow> bool" where
  "is_ascii_upper c \<longleftrightarrow> 65 \<le> (of_char c :: nat) \<and> (of_char c :: nat) \<le> 90"

definition is_ascii_lower :: "char \<Rightarrow> bool" where
  "is_ascii_lower c \<longleftrightarrow> 97 \<le> (of_char c :: nat) \<and> (of_char c :: nat) \<le> 122"

definition is_ascii_alphanumeric :: "char \<Rightarrow> bool" where
  "is_ascii_alphanumeric c \<longleftrightarrow> is_ascii_digit c \<or> is_ascii_upper c \<or> is_ascii_lower c"

definition upper_char :: "char \<Rightarrow> char" where
  "upper_char c = (if is_ascii_lower c then char_of ((of_char c :: nat) - 32) else c)"

definition lower_char :: "char \<Rightarrow> char" where
  "lower_char c = (if is_ascii_upper c then char_of ((of_char c :: nat) + 32) else c)"

text \<open>
  Case mapping of ASCII letters; other code points are left alone. The source
  applies it to HTTP methods, channel operations and version suffixes.
\<close>

definition to_uppercase :: "string \<Rightarrow> string" where
  "to_uppercase s = map upper_char s"

definition to_lowercase :: "string \<Rightarrow> string" where
  "to_lowercase s = map lower_char s"

text \<open>
  \<open>chars()\<close> of a UTF-8 text: its code points, each the list of its bytes. A
  continuation byte belongs to the character before it.
\<close>

definition is_continuation :: "char \<Rightarrow> bool" where
  "is_continuation c \<longleftrightarrow> 128 \<le> (of_char c :: nat) \<and> (of_char c :: nat) < 192"

function chars :: "string \<Rightarrow> string list" where
  "chars [] = []"
| "chars (c # cs) =
     (c # takeWhile is_continuation cs) # chars (dropWhile is_continuation cs)"
  by pat_completeness auto
termination
  by (relation "measure length") (auto simp: le_imp_less_Suc length_dropWhile_le)

text \<open>\<open>chars().count()\<close>: the bytes that are not UTF-8 continuation bytes.\<close>

definition char_count :: "string \<Rightarrow> nat" where
  "char_count s = length (filter (\<lambda>c. \<not> (128 \<le> (of_char c :: nat) \<and> (of_char c :: nat) < 192)) s)"

lemma char_count_le: "char_count s \<le> length s"
  by (simp add: char_count_def)

lemma of_char_upper_char: "(of_char (upper_char c) :: nat) =
    (if is_ascii_lower c then of_char c - 32 else of_char c)"
  by (auto simp: upper_char_def is_ascii_lower_def)

lemma upper_char_idem: "upper_char (upper_char c) = upper_char c"
proof (cases "is_ascii_lower c")
  case True
  then have "(of_char (upper_char c) :: nat) \<le> 90"
    by (auto simp: of_char_upper_char is_ascii_lower_def)
  then have "\<not> is_ascii_lower (upper_char c)"
    by (simp add: is_ascii_lower_def)
  then show ?thesis by (simp add: upper_char_def[of "upper_char c"])
next
  case False
  then show ?thesis by (simp add: upper_char_def)
qed

lemma to_uppercase_idem [simp]: "to_uppercase (to_uppercase s) = to_uppercase s"
  by (simp add: to_uppercase_def upper_char_idem)

subsection \<open>Decimal numbers\<close>

definition digit :: "nat \<Rightarrow> char" where
  "digit n = char_of (48 + n)"

fun show_nat :: "nat \<Rightarrow> string" where
  "show_nat n = (if n < 10 then [digit n] else show_nat (n div 10) @ [digit (n mod 10)])"

declare show_nat.simps [simp del]

definition digit_value :: "char \<Rightarrow> nat" where
  "digit_value c = of_char c - 48"

definition parse_digits :: "string \<Rightarrow> nat option" where
  "parse_digits s =
     (if s \<noteq> [] \<and> list_all is_ascii_digit s then Some (foldl (\<lambda>n c. 10 * n + digit_value c) 0 s)
      else None)"

text \<open>
  \<open>u32::from_str\<close>: an optional leading \<open>+\<close>, at least one decimal digit, and a
  value below \<open>2 ^ 32\<close>.
\<close>

definition parse_u32 :: "string \<Rightarrow> u32 option" where
  "parse_u32 s =
     (case parse_digits (case s of c # r \<Rightarrow> if c = CHR ''+'' then r else s | [] \<Rightarrow> []) of
        None \<Rightarrow> None
      | Some n \<Rightarrow> if n < 2 ^ 32 then Some (word_of_nat n) else None)"

lemma of_char_digit: "n < 10 \<Longrightarrow> (of_char (digit n) :: nat) = 48 + n"
  by (simp add: digit_def)

lemma is_ascii_digit_digit: "n < 10 \<Longrightarrow> is_ascii_digit (digit n)"
  by (simp add: is_ascii_digit_def of_char_digit)

lemma digit_value_digit: "n < 10 \<Longrightarrow> digit_value (digit n) = n"
  by (simp add: digit_value_def of_char_digit)

lemma show_nat_digits: "list_all is_ascii_digit (show_nat n)"
proof (induction n rule: show_nat.induct)
  case (1 n)
  then show ?case
    by (subst show_nat.simps) (auto simp: is_ascii_digit_digit)
qed

lemma show_nat_nonempty [simp]: "show_nat n \<noteq> []"
  by (subst show_nat.simps) simp

lemma show_nat_value: "foldl (\<lambda>n c. 10 * n + digit_value c) 0 (show_nat n) = n"
proof (induction n rule: show_nat.induct)
  case (1 n)
  show ?case
  proof (cases "n < 10")
    case True
    then show ?thesis by (subst show_nat.simps) (simp add: digit_value_digit)
  next
    case False
    with 1 have "foldl (\<lambda>n c. 10 * n + digit_value c) 0 (show_nat (n div 10)) = n div 10"
      by simp
    with False show ?thesis
      by (subst show_nat.simps) (simp add: digit_value_digit)
  qed
qed

lemma parse_digits_show: "parse_digits (show_nat n) = Some n"
  by (simp add: parse_digits_def show_nat_digits show_nat_value)

lemma is_ascii_digit_not: "is_ascii_digit c \<Longrightarrow> c \<noteq> CHR ''+'' \<and> c \<noteq> CHR ''.''
    \<and> c \<noteq> CHR ''v'' \<and> c \<noteq> CHR ''V'' \<and> c \<noteq> CHR ''-''"
  by (auto simp: is_ascii_digit_def)

lemma show_nat_no_dot: "CHR ''.'' \<notin> set (show_nat n)"
  using show_nat_digits[of n] is_ascii_digit_not by (auto simp: list_all_iff)

lemma parse_u32_show: "parse_u32 (show_nat (unat w)) = Some w"
proof -
  obtain c r where s: "show_nat (unat w) = c # r"
    using show_nat_nonempty by (cases "show_nat (unat w)") auto
  with show_nat_digits[of "unat w"] have "c \<noteq> CHR ''+''"
    using is_ascii_digit_not by auto
  moreover have "unat w < 2 ^ 32" using unsigned_less[of w] by simp
  ultimately show ?thesis
    using parse_digits_show[of "unat w"] by (simp add: parse_u32_def s)
qed

section \<open>Tables\<close>

text \<open>
  A table is the list of its rows in insertion order. \<open>UPDATE \<dots> WHERE\<close>,
  \<open>DELETE \<dots> WHERE\<close> and the number of rows a statement affects:
\<close>

definition update_where :: "('r \<Rightarrow> bool) \<Rightarrow> ('r \<Rightarrow> 'r) \<Rightarrow> 'r list \<Rightarrow> 'r list" where
  "update_where p f rs = map (\<lambda>r. if p r then f r else r) rs"

definition delete_where :: "('r \<Rightarrow> bool) \<Rightarrow> 'r list \<Rightarrow> 'r list" where
  "delete_where p rs = filter (\<lambda>r. \<not> p r) rs"

definition exists_row :: "('r \<Rightarrow> bool) \<Rightarrow> 'r list \<Rightarrow> bool" where
  "exists_row p rs = list_ex p rs"

lemma exists_row_iff [sql]: "exists_row p rs \<longleftrightarrow> (\<exists>r \<in> set rs. p r)"
  by (simp add: exists_row_def list_ex_iff)

lemma set_delete_where [sql]: "set (delete_where p rs) = {r \<in> set rs. \<not> p r}"
  by (simp add: delete_where_def)

lemma update_where_Nil [sql]: "update_where p f [] = []"
  by (simp add: update_where_def)

lemma set_update_where [sql]:
  "set (update_where p f rs) = (\<lambda>r. if p r then f r else r) ` set rs"
  by (simp add: update_where_def)

lemma length_update_where [simp]: "length (update_where p f rs) = length rs"
  by (simp add: update_where_def)

lemma update_where_append [sql]:
  "update_where p f (rs @ qs) = update_where p f rs @ update_where p f qs"
  by (simp add: update_where_def)

lemma map_update_where: "(\<And>r. p r \<Longrightarrow> k (f r) = k r) \<Longrightarrow> map k (update_where p f rs) = map k rs"
  by (simp add: update_where_def)

lemma update_where_id: "(\<And>r. r \<in> set rs \<Longrightarrow> \<not> p r) \<Longrightarrow> update_where p f rs = rs"
  by (induction rs) (auto simp: update_where_def)

lemma delete_where_id: "(\<And>r. r \<in> set rs \<Longrightarrow> \<not> p r) \<Longrightarrow> delete_where p rs = rs"
  by (induction rs) (auto simp: delete_where_def)

lemma find_update_where:
  assumes "\<And>r. p r \<Longrightarrow> q (f r) = q r"
  shows "find q (update_where p f rs) =
    map_option (\<lambda>r. if p r then f r else r) (find q rs)"
  using assms by (induction rs) (auto simp: update_where_def)

lemma find_Some_in: "find p rs = Some r \<Longrightarrow> r \<in> set rs \<and> p r"
  by (induction rs) (auto split: if_splits)

lemma find_None_not: "find p rs = None \<longleftrightarrow> (\<forall>r \<in> set rs. \<not> p r)"
  by (induction rs) auto

lemma find_append: "find p (rs @ qs) = (case find p rs of None \<Rightarrow> find p qs | Some r \<Rightarrow> Some r)"
  by (induction rs) auto

lemma find_cong_set: "(\<And>r. r \<in> set rs \<Longrightarrow> p r = q r) \<Longrightarrow> find p rs = find q rs"
  by (induction rs) auto

lemma find_unique:
  assumes "distinct (map k rs)" and "r \<in> set rs" and "p r"
    and "\<And>x. x \<in> set rs \<Longrightarrow> p x \<Longrightarrow> k x = k r"
  shows "find p rs = Some r"
proof (cases "find p rs")
  case None
  with assms(2,3) show ?thesis by (auto simp: find_None_not)
next
  case (Some x)
  then have "x \<in> set rs" "p x" by (auto dest: find_Some_in)
  with assms have "k x = k r" by blast
  with assms(1,2) \<open>x \<in> set rs\<close> have "x = r"
    by (simp add: distinct_map inj_on_def)
  with Some show ?thesis by simp
qed

lemma distinct_map_filter_mono: "distinct (map k rs) \<Longrightarrow> distinct (map k (filter p rs))"
  by (induction rs) auto

lemma distinct_map_delete_where [intro]:
  "distinct (map k rs) \<Longrightarrow> distinct (map k (delete_where p rs))"
  by (simp add: delete_where_def distinct_map_filter_mono)

end
