(* ===== verification/Models.thy ===== *)
theory Models
  imports Prelude
begin

text \<open>
  The domain model of \<open>src/src/domain/models.rs\<close>: API types, semantic
  versions, stabilities, the error type, and the records the services and the
  repository exchange. Enumerations keep the source's constructors; a struct is
  a record whose fields carry a short prefix naming it.

  An error or audit text built by \<open>format!\<close> is a value of type \<open>message\<close>: a short
  name of the text and, in order, the values it interpolates.
\<close>

section \<open>Enumerations\<close>

datatype api_type = OpenApi | AsyncApi | Proto

fun api_type_as_str :: "api_type \<Rightarrow> string" where
  "api_type_as_str OpenApi = ''openapi''"
| "api_type_as_str AsyncApi = ''asyncapi''"
| "api_type_as_str Proto = ''proto''"

definition api_type_from_str :: "string \<Rightarrow> api_type option" where
  "api_type_from_str s =
     (let l = to_lowercase s in
      if l \<in> {''openapi'', ''rest''} then Some OpenApi
      else if l \<in> {''asyncapi'', ''kafka'', ''async''} then Some AsyncApi
      else if l \<in> {''proto'', ''grpc''} then Some Proto
      else None)"

datatype auth_mode = Disabled | Dev | Local | Ldap | Oidc

fun auth_mode_as_str :: "auth_mode \<Rightarrow> string" where
  "auth_mode_as_str Disabled = ''disabled''"
| "auth_mode_as_str Dev = ''dev''"
| "auth_mode_as_str Local = ''local''"
| "auth_mode_as_str Ldap = ''ldap''"
| "auth_mode_as_str Oidc = ''oidc''"

definition auth_mode_from_str :: "string \<Rightarrow> auth_mode option" where
  "auth_mode_from_str s =
     (if s \<in> {''disabled'', ''off'', ''maintenance''} then Some Disabled
      else if s = ''dev'' then Some Dev
      else if s = ''local'' then Some Local
      else if s = ''ldap'' then Some Ldap
      else if s = ''oidc'' then Some Oidc
      else None)"

datatype stability = Snapshot | Ga

fun stability_as_str :: "stability \<Rightarrow> string" where
  "stability_as_str Snapshot = ''snapshot''"
| "stability_as_str Ga = ''ga''"

definition stability_from_str :: "string \<Rightarrow> stability option" where
  "stability_from_str s =
     (let l = to_lowercase s in
      if l = ''snapshot'' then Some Snapshot
      else if l = ''ga'' then Some Ga
      else None)"

datatype impact = ImpactNone | Patch | Minor | Major

text \<open>The derived \<open>Ord\<close> of \<open>Impact\<close>: the order of its variants.\<close>

fun impact_rank :: "impact \<Rightarrow> nat" where
  "impact_rank ImpactNone = 0"
| "impact_rank Patch = 1"
| "impact_rank Minor = 2"
| "impact_rank Major = 3"

lemma impact_rank_inj: "impact_rank a = impact_rank b \<Longrightarrow> a = b"
  by (cases a; cases b) auto

instantiation impact :: linorder
begin

definition less_eq_impact :: "impact \<Rightarrow> impact \<Rightarrow> bool" where
  "less_eq_impact a b \<longleftrightarrow> impact_rank a \<le> impact_rank b"

definition less_impact :: "impact \<Rightarrow> impact \<Rightarrow> bool" where
  "less_impact a b \<longleftrightarrow> impact_rank a < impact_rank b"

instance
  by standard (auto simp: less_eq_impact_def less_impact_def intro: impact_rank_inj)

end

datatype api_token_scope = Full | ReadOnly

fun api_token_scope_as_str :: "api_token_scope \<Rightarrow> string" where
  "api_token_scope_as_str Full = ''full''"
| "api_token_scope_as_str ReadOnly = ''read_only''"

definition api_token_scope_parse :: "string \<Rightarrow> api_token_scope option" where
  "api_token_scope_parse s =
     (if s = ''full'' then Some Full else if s = ''read_only'' then Some ReadOnly else None)"

datatype group_source = NativeGroup | LdapGroup

fun group_source_as_str :: "group_source \<Rightarrow> string" where
  "group_source_as_str NativeGroup = ''native''"
| "group_source_as_str LdapGroup = ''ldap''"

definition group_source_parse :: "string \<Rightarrow> group_source option" where
  "group_source_parse s =
     (if s = ''native'' then Some NativeGroup else if s = ''ldap'' then Some LdapGroup else None)"

datatype sign_in_method = SignLocal | SignLdap | SignOidc

fun sign_in_method_as_str :: "sign_in_method \<Rightarrow> string" where
  "sign_in_method_as_str SignLocal = ''local''"
| "sign_in_method_as_str SignLdap = ''ldap''"
| "sign_in_method_as_str SignOidc = ''oidc''"

definition sign_in_method_parse :: "string \<Rightarrow> sign_in_method option" where
  "sign_in_method_parse s =
     (if s = ''local'' then Some SignLocal
      else if s = ''ldap'' then Some SignLdap
      else if s = ''oidc'' then Some SignOidc
      else None)"

section \<open>Semantic versions\<close>

datatype semver = SemVer (major: u32) (minor: u32) (patch: u32)

text \<open>The derived \<open>Ord\<close> of \<open>SemVer\<close>: field by field.\<close>

instantiation semver :: linorder
begin

definition less_eq_semver :: "semver \<Rightarrow> semver \<Rightarrow> bool" where
  "less_eq_semver a b \<longleftrightarrow> (major a, minor a, patch a) \<le> (major b, minor b, patch b)"

definition less_semver :: "semver \<Rightarrow> semver \<Rightarrow> bool" where
  "less_semver a b \<longleftrightarrow> (major a, minor a, patch a) < (major b, minor b, patch b)"

instance
proof
  fix a b c :: semver
  show "a < b \<longleftrightarrow> a \<le> b \<and> \<not> b \<le> a"
    unfolding less_eq_semver_def less_semver_def by (rule less_le_not_le)
  show "a \<le> a" unfolding less_eq_semver_def by (rule order_refl)
  show "a \<le> b \<Longrightarrow> b \<le> c \<Longrightarrow> a \<le> c"
    unfolding less_eq_semver_def by (rule order_trans)
  show "a \<le> b \<Longrightarrow> b \<le> a \<Longrightarrow> a = b"
    unfolding less_eq_semver_def by (cases a; cases b) (auto dest: antisym)
  show "a \<le> b \<or> b \<le> a" unfolding less_eq_semver_def by (rule linear)
qed

end

definition semver_initial :: semver where
  "semver_initial = SemVer 1 0 0"

fun increment :: "semver \<Rightarrow> impact \<Rightarrow> semver" where
  "increment (SemVer a b c) Major = SemVer (saturating_add a 1) 0 0"
| "increment (SemVer a b c) Minor = SemVer a (saturating_add b 1) 0"
| "increment (SemVer a b c) Patch = SemVer a b (saturating_add c 1)"
| "increment (SemVer a b c) ImpactNone = SemVer a b c"

fun semver_to_string :: "semver \<Rightarrow> string" where
  "semver_to_string (SemVer a b c) =
     show_nat (unat a) @ ''.'' @ show_nat (unat b) @ ''.'' @ show_nat (unat c)"

text \<open>
  \<open>SemVer::from_str\<close>: an optional leading \<open>v\<close> or \<open>V\<close>, then one to three
  dot-separated numbers; missing parts are zero.
\<close>

definition strip_v :: "string \<Rightarrow> string" where
  "strip_v s = (case s of c # r \<Rightarrow> if c = CHR ''v'' \<or> c = CHR ''V'' then r else s | [] \<Rightarrow> s)"

definition semver_from_str :: "string \<Rightarrow> semver option" where
  "semver_from_str s =
     (let parts = split_char CHR ''.'' (strip_v s) in
      if parts = [] \<or> length parts > 3 then None
      else case those (map parse_u32 parts) of
             None \<Rightarrow> None
           | Some ns \<Rightarrow> (case ns @ replicate (3 - length ns) 0 of
                           [a, b, c] \<Rightarrow> Some (SemVer a b c)
                         | _ \<Rightarrow> None))"

section \<open>Messages and errors\<close>

datatype message = Text string "text_arg list"
  and text_arg =
    S string
  | V semver
  | A api_type
  | N nat
  | B bool
  | M message
  | PairsArg "(string \<times> string) list"

text \<open>A text produced by a library, e.g. the message of the YAML parser.\<close>

definition external_text :: "string \<Rightarrow> message" where
  "external_text s = Text ''external'' [S s]"

datatype app_error =
    BadRequest message
  | Conflict message
  | NotFound message
  | Gone message
  | Unauthorized
  | Forbidden
  | ForbiddenWithReason message
  | Internal message
  | BreakingChange message
  | VersionConflict message semver

datatype repository_error = RepoNotFound | RepoConflict | RepoInternal string

fun app_error_from :: "repository_error \<Rightarrow> app_error" where
  "app_error_from RepoNotFound = NotFound (Text ''Not found'' [])"
| "app_error_from RepoConflict = Conflict (Text ''Conflict'' [])"
| "app_error_from (RepoInternal m) = Internal (external_text m)"

definition parse_spec_version :: "string \<Rightarrow> message + semver" where
  "parse_spec_version raw =
     (let t = trim raw in
      if t = [] then Inl (Text ''version is empty'' [])
      else if contains_str ''-SNAPSHOT'' (to_uppercase t) then
        Inl (Text ''snapshot status is declared by the stability flag''
               [S t, S (to_lowercase (replace_str ''-SNAPSHOT'' [] (to_uppercase t)))])
      else if CHR ''-'' \<in> set t \<or> CHR ''+'' \<in> set t then Inl (Text ''suffixes are not accepted'' [S t])
      else case semver_from_str t of
             None \<Rightarrow> Inl (Text ''expected numeric parts'' [S t])
           | Some v \<Rightarrow> Inr v)"

section \<open>Version lines and endpoints\<close>

record spec_version_meta =
  v_id :: row_id
  v_service_id :: row_id
  v_api_type :: api_type
  v_version :: semver
  v_stability :: stability
  v_content_hash :: string
  v_provided_by :: string
  v_created_at :: stamp
  v_updated_at :: stamp
  v_last_required_at :: "stamp option"
  v_trunk_provided_at :: "stamp option"

record endpoint_record =
  e_id :: "row_id option"
  e_api_type :: api_type
  e_path :: string
  e_normalized_path :: string
  e_method :: string
  e_yaml_content :: string
  e_deprecated :: bool

record provide_changes =
  inserts :: nat
  updates :: nat
  deletes :: nat

definition no_changes :: provide_changes where
  "no_changes = \<lparr>inserts = 0, updates = 0, deletes = 0\<rparr>"

definition changes_is_empty :: "provide_changes \<Rightarrow> bool" where
  "changes_is_empty c \<longleftrightarrow> inserts c = 0 \<and> updates c = 0 \<and> deletes c = 0"

datatype resolution_state = Served | Absent | Unknown

definition resolution_is_empty :: "resolution_state \<Rightarrow> bool" where
  "resolution_is_empty s \<longleftrightarrow> s \<in> {Absent, Unknown}"

section \<open>Origins\<close>

record version_origin =
  build_url :: "string option"
  change_url :: "string option"
  tickets :: "string list"
  origin_note :: "string option"
  trunk_build :: bool

definition empty_origin :: version_origin where
  "empty_origin = \<lparr>build_url = None, change_url = None, tickets = [], origin_note = None,
                   trunk_build = False\<rparr>"

definition origin_is_empty :: "version_origin \<Rightarrow> bool" where
  "origin_is_empty o' \<longleftrightarrow>
     build_url o' = None \<and> change_url o' = None \<and> tickets o' = [] \<and> origin_note o' = None"

definition has_whitespace :: "string \<Rightarrow> bool" where
  "has_whitespace s \<longleftrightarrow> list_ex (\<lambda>w. contains_str w s) white_space"

definition has_control :: "string \<Rightarrow> bool" where
  "has_control s \<longleftrightarrow>
     list_ex (\<lambda>c. (of_char c :: nat) < 32 \<or> (of_char c :: nat) = 127) s \<or>
     list_ex (\<lambda>b. contains_str [CHR 0xC2, char_of b] s) [128..<160]"

definition origin_url :: "string \<Rightarrow> string option \<Rightarrow> message + string option" where
  "origin_url field value =
     (case value of None \<Rightarrow> Inr None
      | Some v \<Rightarrow>
          (let raw = trim v in
           if raw = [] then Inr None
           else if char_count raw > 2048 then Inl (Text ''url too long'' [S field, N 2048])
           else if \<not> ((starts_with ''https://'' raw \<or> starts_with ''http://'' raw)
                      \<and> length raw > 8 \<and> \<not> (has_whitespace raw \<or> has_control raw))
             then Inl (Text ''url must be absolute'' [S field])
           else Inr (Some raw)))"

definition ticket_valid :: "string \<Rightarrow> bool" where
  "ticket_valid t \<longleftrightarrow> char_count t \<le> 64 \<and>
     list_all (\<lambda>c. is_ascii_alphanumeric c \<or> c \<in> {CHR ''-'', CHR ''_'', CHR ''.''}) t"

fun collect_tickets :: "string list \<Rightarrow> string list \<Rightarrow> message + string list" where
  "collect_tickets [] acc = Inr acc"
| "collect_tickets (raw # rest) acc =
     (let t = trim raw in
      if t = [] then collect_tickets rest acc
      else if \<not> ticket_valid t then Inl (Text ''ticket is not an id'' [S t, N 64])
      else collect_tickets rest (if t \<in> set acc then acc else acc @ [t]))"

definition normalized_note :: "string option \<Rightarrow> string option" where
  "normalized_note n =
     (case n of None \<Rightarrow> None
      | Some s \<Rightarrow> (let t = join '' '' (split_whitespace s) in if t = [] then None else Some t))"

definition origin_normalized :: "version_origin \<Rightarrow> message + version_origin" where
  "origin_normalized o' =
     (case collect_tickets (tickets o') [] of Inl e \<Rightarrow> Inl e
      | Inr ts \<Rightarrow>
          if length ts > 20 then Inl (Text ''at most tickets'' [N 20])
          else (let n = normalized_note (origin_note o') in
            if (case n of None \<Rightarrow> False | Some s \<Rightarrow> char_count s > 200) then Inl (Text ''note too long'' [N 200])
            else (case origin_url ''build_url'' (build_url o') of Inl e \<Rightarrow> Inl e
                  | Inr b \<Rightarrow>
                    (case origin_url ''change_url'' (change_url o') of Inl e \<Rightarrow> Inl e
                     | Inr c \<Rightarrow> Inr \<lparr>build_url = b, change_url = c, tickets = ts, origin_note = n,
                                     trunk_build = trunk_build o'\<rparr>))))"

section \<open>Streams, branches, pins and contracts\<close>

record branch_info =
  b_id :: row_id
  b_name :: string
  b_created_at :: stamp
  b_created_by :: string
  b_source :: string
  b_as_of :: stamp

record resolved_stream =
  st_trunk :: bool
  st_branch :: "branch_info option"
  st_warnings :: "message list"

definition stream_label :: "resolved_stream \<Rightarrow> string option" where
  "stream_label s = (if st_trunk s then Some ''trunk'' else map_option b_name (st_branch s))"

record trunk_pin_info =
  p_client :: string
  p_service :: string
  p_api_type :: api_type
  p_version :: semver
  p_path :: string
  p_normalized_path :: string
  p_method :: string
  p_valid_from :: stamp
  p_last_required_at :: stamp
  p_dangling :: bool

record channel_message_contract =
  c_channel :: string
  c_message_name :: string
  c_owner_service_id :: row_id
  c_payload_yaml :: string

record harvested_sub_input =
  hi_channel :: string
  hi_message_name :: string
  hi_owner_service_id :: "row_id option"
  hi_owner_name :: "string option"

record harvested_subscription_result =
  hr_channel :: string
  hr_message_name :: string
  hr_owner :: "string option"
  hr_drift :: "message option"

record harvested_subscription =
  hs_client :: string
  hs_channel :: string
  hs_message_name :: string
  hs_owner :: "string option"
  hs_trunk :: bool

record provide_response =
  pr_version :: semver
  pr_stability :: stability
  pr_content_hash :: string
  pr_changes :: provide_changes
  pr_promoted :: bool
  pr_harvested :: "harvested_subscription_result list"
  pr_stream :: resolved_stream

definition dev_mode_actor :: string where
  "dev_mode_actor = ''DevMode/Anonymous''"

section \<open>Webhooks\<close>

datatype webhook_scope = GlobalScope | ProducerScope string | ConsumerScope string

fun scope_kind :: "webhook_scope \<Rightarrow> string" where
  "scope_kind GlobalScope = ''global''"
| "scope_kind (ProducerScope n) = ''producer''"
| "scope_kind (ConsumerScope n) = ''consumer''"

fun scope_name :: "webhook_scope \<Rightarrow> string option" where
  "scope_name GlobalScope = None"
| "scope_name (ProducerScope n) = Some n"
| "scope_name (ConsumerScope n) = Some n"

definition scope_from_stored :: "string \<Rightarrow> string option \<Rightarrow> webhook_scope option" where
  "scope_from_stored kind nm =
     (if kind = ''global'' then Some GlobalScope
      else if kind = ''producer'' then map_option ProducerScope nm
      else if kind = ''consumer'' then map_option ConsumerScope nm
      else None)"

datatype webhook_format = JsonFormat | SlackFormat | TeamsFormat

fun webhook_format_as_str :: "webhook_format \<Rightarrow> string" where
  "webhook_format_as_str JsonFormat = ''json''"
| "webhook_format_as_str SlackFormat = ''slack''"
| "webhook_format_as_str TeamsFormat = ''teams''"

definition webhook_format_parse :: "string \<Rightarrow> webhook_format option" where
  "webhook_format_parse s =
     (if s = ''json'' then Some JsonFormat
      else if s = ''slack'' then Some SlackFormat
      else if s = ''teams'' then Some TeamsFormat
      else None)"

datatype webhook_event_type =
    VersionPublished | ProvideRejected | VersionDeprecated | DependencyRecorded
  | BranchCut | CatalogRecorded | TestEvent

fun event_type_as_str :: "webhook_event_type \<Rightarrow> string" where
  "event_type_as_str VersionPublished = ''version.published''"
| "event_type_as_str ProvideRejected = ''provide.rejected''"
| "event_type_as_str VersionDeprecated = ''version.deprecated''"
| "event_type_as_str DependencyRecorded = ''dependency.recorded''"
| "event_type_as_str BranchCut = ''branch.cut''"
| "event_type_as_str CatalogRecorded = ''catalog.recorded''"
| "event_type_as_str TestEvent = ''webhook.test''"

definition event_type_parse :: "string \<Rightarrow> webhook_event_type option" where
  "event_type_parse s =
     find (\<lambda>t. event_type_as_str t = s)
       [VersionPublished, ProvideRejected, VersionDeprecated, DependencyRecorded, BranchCut,
        CatalogRecorded, TestEvent]"

datatype webhook_delivery_status = Pending | Delivered | Failed | Dead

fun delivery_status_as_str :: "webhook_delivery_status \<Rightarrow> string" where
  "delivery_status_as_str Pending = ''pending''"
| "delivery_status_as_str Delivered = ''delivered''"
| "delivery_status_as_str Failed = ''failed''"
| "delivery_status_as_str Dead = ''dead''"

definition delivery_status_parse :: "string \<Rightarrow> webhook_delivery_status option" where
  "delivery_status_parse s =
     find (\<lambda>t. delivery_status_as_str t = s) [Pending, Delivered, Failed, Dead]"

text \<open>The envelope's \<open>data\<close> object, one constructor per event type.\<close>

datatype event_data =
    PublishedData string api_type semver stability bool string "string option"
      "(semver \<times> impact) option" version_origin
  | RejectedData string api_type semver string message "semver option" "string option"
  | DeprecatedData string api_type semver stability "(string \<times> string) list" bool
  | DependencyData string string api_type semver stability bool string "(string \<times> string) list"
  | BranchCutData string string stamp stamp string
  | CatalogData string bool bool "message option" nat
  | TestData row_id

record new_webhook_event =
  ev_id :: string
  ev_type :: webhook_event_type
  ev_producer :: "string option"
  ev_occurred_at :: stamp
  ev_data :: event_data
  ev_hook_ids :: "row_id list"

record webhook =
  h_id :: row_id
  h_scope :: webhook_scope
  h_url :: string
  h_format :: webhook_format
  h_event_types :: "webhook_event_type list"
  h_producer_glob :: "string option"
  h_secret_hint :: string
  h_paused :: bool
  h_allow_list_exempt :: bool
  h_created_by :: string
  h_created_at :: stamp
  h_secret :: string

record webhook_delivery =
  d_id :: row_id
  d_hook_id :: row_id
  d_event_id :: string
  d_status :: webhook_delivery_status
  d_attempts :: nat
  d_next_attempt_at :: stamp
  d_last_response_code :: "nat option"
  d_last_error :: "message option"
  d_delivered_at :: "stamp option"
  d_redelivered_at :: "stamp option"
  d_updated_at :: stamp

datatype webhook_attempt_outcome =
    OutDelivered nat
  | OutFailed "nat option" message stamp
  | OutDead "nat option" message
  | OutExpired message

section \<open>What a catalogue push says about a system\<close>

record system_owner =
  ow_kind :: string
  ow_name :: string

record system_link =
  ln_url :: string
  ln_title :: string
  ln_type :: "string option"
  ln_icon :: "string option"

record system_context =
  sc_owner :: "system_owner option"
  sc_description :: "string option"
  sc_source_location :: "string option"
  sc_links :: "system_link list"
  sc_tags :: "string list"

section \<open>Enumerations are read back as they are stored\<close>

lemma api_type_roundtrip [simp]: "api_type_from_str (api_type_as_str t) = Some t"
  by (cases t) (simp_all add: api_type_from_str_def to_lowercase_def lower_char_def
      is_ascii_upper_def)

lemma stability_roundtrip [simp]: "stability_from_str (stability_as_str t) = Some t"
  by (cases t) (simp_all add: stability_from_str_def to_lowercase_def lower_char_def
      is_ascii_upper_def)

lemma scope_roundtrip [simp]: "scope_from_stored (scope_kind sc) (scope_name sc) = Some sc"
  by (cases sc) (simp_all add: scope_from_stored_def)

lemma auth_mode_roundtrip [simp]: "auth_mode_from_str (auth_mode_as_str x) = Some x"
  by (cases x) (simp_all add: auth_mode_from_str_def)

lemma api_token_scope_roundtrip [simp]: "api_token_scope_parse (api_token_scope_as_str x) = Some x"
  by (cases x) (simp_all add: api_token_scope_parse_def)

lemma group_source_roundtrip [simp]: "group_source_parse (group_source_as_str x) = Some x"
  by (cases x) (simp_all add: group_source_parse_def)

lemma sign_in_method_roundtrip [simp]: "sign_in_method_parse (sign_in_method_as_str x) = Some x"
  by (cases x) (simp_all add: sign_in_method_parse_def)

lemma webhook_format_roundtrip [simp]: "webhook_format_parse (webhook_format_as_str x) = Some x"
  by (cases x) (simp_all add: webhook_format_parse_def)

lemma event_type_roundtrip [simp]: "event_type_parse (event_type_as_str x) = Some x"
  by (cases x) (simp_all add: event_type_parse_def)

lemma delivery_status_roundtrip [simp]: "delivery_status_parse (delivery_status_as_str x) = Some x"
  by (cases x) (simp_all add: delivery_status_parse_def)

section \<open>The order of versions and their increments\<close>

lemma semver_less_iff: "a < b \<longleftrightarrow> major a < major b \<or>
    major a = major b \<and> (minor a < minor b \<or> minor a = minor b \<and> patch a < patch b)"
  by (auto simp: less_semver_def less_prod_def less_eq_prod_def)

lemma increment_major_less: "major v \<noteq> u32_max \<Longrightarrow> v < increment v Major"
  by (cases v) (simp add: semver_less_iff saturating_add_one_less)

lemma increment_minor_less: "minor v \<noteq> u32_max \<Longrightarrow> v < increment v Minor"
  by (cases v) (simp add: semver_less_iff saturating_add_one_less)

lemma increment_patch_less: "patch v \<noteq> u32_max \<Longrightarrow> v < increment v Patch"
  by (cases v) (simp add: semver_less_iff saturating_add_one_less)

lemma increment_patch_max: "patch v = u32_max \<Longrightarrow> increment v Patch = v"
  by (cases v) simp

section \<open>Printing and reading versions\<close>

lemma strip_v_digit: "is_ascii_digit c \<Longrightarrow> strip_v (c # r) = c # r"
  using is_ascii_digit_not by (auto simp: strip_v_def)

lemma semver_string_shape:
  obtains c r where "semver_to_string v = c # r" and "is_ascii_digit c"
proof -
  obtain a b e where v: "v = SemVer a b e" by (cases v)
  obtain c r where "show_nat (unat a) = c # r"
    using show_nat_nonempty by (cases "show_nat (unat a)") auto
  with show_nat_digits[of "unat a"] v that show ?thesis by auto
qed

lemma semver_string_split:
  "split_char CHR ''.'' (semver_to_string (SemVer a b c)) =
     [show_nat (unat a), show_nat (unat b), show_nat (unat c)]"
  by (simp add: split_char_sep split_char_free show_nat_no_dot)

lemma semver_from_to_string: "semver_from_str (semver_to_string v) = Some v"
proof -
  obtain a b c where v: "v = SemVer a b c" by (cases v)
  have "strip_v (semver_to_string v) = semver_to_string v"
    by (rule semver_string_shape[of v]) (simp add: strip_v_digit)
  moreover have "split_char CHR ''.'' (semver_to_string v) =
      [show_nat (unat a), show_nat (unat b), show_nat (unat c)]"
    unfolding v by (rule semver_string_split)
  ultimately show ?thesis
    by (simp add: semver_from_str_def parse_u32_show v)
qed

lemma white_space_bytes:
  "\<forall>w \<in> set white_space. w \<noteq> [] \<and> \<not> is_ascii_digit (hd w) \<and> \<not> is_ascii_digit (last w)"
  by (simp add: white_space_def is_ascii_digit_def)

lemma leading_0:
  assumes "\<And>w. w \<in> set ws \<Longrightarrow> w \<noteq> [] \<Longrightarrow> hd w \<noteq> c"
  shows "leading ws (c # r) = 0"
proof -
  have "\<not> (w \<noteq> [] \<and> starts_with w (c # r))" if "w \<in> set ws" for w
    using assms[OF that] by (cases w) (auto simp: starts_with_def)
  then have "find (\<lambda>w. w \<noteq> [] \<and> starts_with w (c # r)) ws = None"
    by (simp add: find_None_not)
  then show ?thesis by (simp add: leading_def)
qed

lemma trim_digits:
  assumes "s \<noteq> []" and "is_ascii_digit (hd s)" and "is_ascii_digit (last s)"
  shows "trim s = s"
proof -
  obtain c r where s: "s = c # r" using assms(1) by (cases s) auto
  obtain d q where t: "rev s = d # q" using assms(1) by (cases "rev s") auto
  then have d: "is_ascii_digit d" using assms by (metis hd_rev list.sel(1))
  have "leading white_space s = 0" unfolding s
    by (rule leading_0) (use white_space_bytes assms(2) s in auto)
  moreover have "leading (map rev white_space) (rev s) = 0" unfolding t
    by (rule leading_0) (use white_space_bytes d in \<open>auto simp: hd_rev\<close>)
  ultimately show ?thesis
    by (simp add: trim_def trim_start_def trim_end_def strip_leading.simps)
qed

lemma semver_string_bytes:
  "c \<in> set (semver_to_string v) \<Longrightarrow> is_ascii_digit c \<or> c = CHR ''.''"
  using show_nat_digits by (cases v) (auto simp: list_all_iff)

lemma show_nat_last: "is_ascii_digit (last (show_nat n))"
  using show_nat_digits[of n] last_in_set[OF show_nat_nonempty, of n] by (auto simp: list_all_iff)

lemma semver_string_last: "is_ascii_digit (last (semver_to_string v))"
  by (cases v) (simp add: show_nat_last)

lemma contains_str_mem: "contains_str (p # ps) s \<Longrightarrow> p \<in> set s"
  by (induction s) (auto simp: starts_with_def)

lemma upper_char_dash: "is_ascii_digit c \<or> c = CHR ''.'' \<Longrightarrow> upper_char c \<noteq> CHR ''-''"
  by (auto simp: upper_char_def is_ascii_digit_def is_ascii_lower_def)

text \<open>
  the canonical form of a version is read back as that version, by \<open>SemVer::from_str\<close>
  and by the stricter \<open>parse_spec_version\<close> a Provide uses: printing and parsing round-trip
  for all 32-bit components.
\<close>

lemma semver_print_parse:
  "semver_from_str (semver_to_string v) = Some v \<and>
   parse_spec_version (semver_to_string v) = Inr v"
proof
  let ?s = "semver_to_string v"
  have ne: "?s \<noteq> []" and hd: "is_ascii_digit (hd ?s)"
    by (rule semver_string_shape[of v]; simp)+
  then have tr: "trim ?s = ?s" by (simp add: trim_digits semver_string_last)
  have "CHR ''-'' \<notin> set ?s" "CHR ''+'' \<notin> set ?s"
    using semver_string_bytes is_ascii_digit_not by fastforce+
  moreover have "CHR ''-'' \<notin> set (to_uppercase ?s)"
    using semver_string_bytes[of _ v] upper_char_dash by (force simp: to_uppercase_def)
  then have "\<not> contains_str ''-SNAPSHOT'' (to_uppercase ?s)"
    using contains_str_mem by blast
  ultimately show "parse_spec_version ?s = Inr v"
    using ne tr by (simp add: parse_spec_version_def semver_from_to_string)
qed (rule semver_from_to_string)

end
