(* ===== verification/Spec_Text.thy ===== *)
theory Spec_Text
  imports Models
begin

text \<open>
  Reading a submitted document: the text normalisation and the fingerprint of
  \<open>src/src/application/spec_service.rs\<close>, the path keys and version extraction of
  \<open>src/src/openapi.rs\<close> and \<open>src/src/proto.rs\<close>, the splitting into endpoints
  with its collision check, and the validator.

  What is computed by a third-party parser, hash or regular expression is a
  field of the parameter record \<open>spec_tools\<close>.
\<close>

section \<open>Endpoint specifications and document analysis\<close>

record endpoint_spec =
  s_path :: string
  s_normalized_path :: string
  s_method :: string
  s_yaml_content :: string
  s_deprecated :: bool

record asyncapi_spec =
  as_channel :: string
  as_operation :: string
  as_yaml_content :: string
  as_deprecated :: bool

record proto_spec =
  ps_service :: string
  ps_method :: string
  ps_content :: string
  ps_deprecated :: bool

record pub_message =
  m_channel :: string
  m_message_name :: string
  m_payload_yaml :: string
  m_deprecated :: bool

text \<open>
  The analyses of a document the services call: the hexadecimal SHA-256, the
  \<open>info.version\<close> a YAML parser reads, the captures of the proto version
  marker, the splitters, the compatibility checks and the AsyncAPI message
  analyses. A failure is the text of the analyser.
\<close>

record spec_tools =
  sha256_hex :: "string \<Rightarrow> string"
  yaml_info_version :: "string \<Rightarrow> message + string option"
  proto_version_markers :: "string \<Rightarrow> string list"
  split_openapi :: "string \<Rightarrow> message + endpoint_spec list"
  split_asyncapi :: "string \<Rightarrow> message + asyncapi_spec list"
  split_proto :: "string \<Rightarrow> message + proto_spec list"
  openapi_compatibility :: "string \<Rightarrow> string \<Rightarrow> message + unit"
  asyncapi_compatibility :: "string \<Rightarrow> string \<Rightarrow> message + unit"
  proto_compatibility :: "string \<Rightarrow> string \<Rightarrow> message + unit"
  openapi_analyze_impact :: "string \<Rightarrow> string \<Rightarrow> impact"
  extract_pub_messages :: "string \<Rightarrow> message + pub_message list"
  extract_sub_messages :: "string \<Rightarrow> message + pub_message list"
  check_payload_compatible :: "string \<Rightarrow> string \<Rightarrow> message + unit"
  check_expectation_satisfied :: "string \<Rightarrow> string \<Rightarrow> message + unit"
  payloads_equal :: "string \<Rightarrow> string \<Rightarrow> bool"
  to_openapi_schemas :: "string list \<Rightarrow> string \<Rightarrow> string \<Rightarrow> message + string"
  merge_endpoint_yamls :: "string list \<Rightarrow> message + string"

section \<open>Text normalisation and fingerprint\<close>

definition content_hash :: "spec_tools \<Rightarrow> string \<Rightarrow> string" where
  "content_hash T content = ''sha256:'' @ sha256_hex T content"

definition bom :: string where
  "bom = [CHR 0xEF, CHR 0xBB, CHR 0xBF]"

definition cr :: char where
  "cr = CHR 0x0D"

definition lf :: char where
  "lf = CHR 0x0A"

definition normalize_spec_text :: "string \<Rightarrow> string" where
  "normalize_spec_text content =
     (let without_bom = (case strip_prefix bom content of Some r \<Rightarrow> r | None \<Rightarrow> content) in
      if cr \<notin> set without_bom then without_bom
      else replace_char cr [lf] (replace_str [cr, lf] [lf] without_bom))"

section \<open>Path keys\<close>

fun collapse_slashes_from :: "bool \<Rightarrow> string \<Rightarrow> string" where
  "collapse_slashes_from prev [] = []"
| "collapse_slashes_from prev (c # r) =
     (if c = CHR ''/'' then (if prev then [] else [c]) @ collapse_slashes_from True r
      else c # collapse_slashes_from False r)"

definition collapse_slashes :: "string \<Rightarrow> string" where
  "collapse_slashes path = collapse_slashes_from False path"

function blank_path_variables :: "string \<Rightarrow> string" where
  "blank_path_variables rest =
     (case split_once CHR ''{'' rest of
        None \<Rightarrow> rest
      | Some (before, after_open) \<Rightarrow>
          before @
          (case split_once CHR ''}'' after_open of
             Some (name, after_close) \<Rightarrow>
               if name \<noteq> [] then ''{}'' @ blank_path_variables after_close
               else ''{'' @ blank_path_variables after_open
           | None \<Rightarrow> ''{'' @ blank_path_variables after_open))"
  by pat_completeness auto
termination
  by (relation "measure length") (auto dest!: split_once_append)

declare blank_path_variables.simps [simp del]

definition normalize_path :: "string \<Rightarrow> string" where
  "normalize_path path =
     (let p = blank_path_variables (collapse_slashes (trim path)) in
      if length p > 1 \<and> last p = CHR ''/'' then butlast p else p)"

definition lookup_path :: "api_type \<Rightarrow> string \<Rightarrow> string" where
  "lookup_path t path = (case t of OpenApi \<Rightarrow> normalize_path path | _ \<Rightarrow> path)"

definition method_for :: "api_type \<Rightarrow> string \<Rightarrow> string" where
  "method_for t m = (case t of Proto \<Rightarrow> m | _ \<Rightarrow> to_uppercase m)"

section \<open>The declared version\<close>

definition extract_info_version :: "spec_tools \<Rightarrow> string \<Rightarrow> message + semver" where
  "extract_info_version T yaml =
     (case yaml_info_version T yaml of
        Inl e \<Rightarrow> Inl (Text ''Failed to parse spec YAML'' [M e])
      | Inr None \<Rightarrow> Inl (Text ''spec has no info.version'' [])
      | Inr (Some raw) \<Rightarrow>
          (case parse_spec_version raw of
             Inl e \<Rightarrow> Inl (Text ''info.version'' [M e])
           | Inr v \<Rightarrow> Inr v))"

definition marker_version :: "string \<Rightarrow> message + semver" where
  "marker_version raw =
     (case parse_spec_version raw of
        Inl e \<Rightarrow> Inl (Text ''sanshain-version marker'' [M e])
      | Inr v \<Rightarrow> Inr v)"

definition extract_sanshain_version :: "spec_tools \<Rightarrow> string \<Rightarrow> message + semver" where
  "extract_sanshain_version T content =
     (case remdups_adj (proto_version_markers T content) of
        [] \<Rightarrow> Inl (Text ''proto file has no version marker'' [])
      | [single] \<Rightarrow> marker_version single
      | many \<Rightarrow>
          (case remdups (sort many) of
             [only] \<Rightarrow> marker_version only
           | unique \<Rightarrow> Inl (Text ''conflicting sanshain-version markers''
                             [N (length unique), S (join '', '' unique)])))"

definition extract_spec_version :: "spec_tools \<Rightarrow> api_type \<Rightarrow> string \<Rightarrow> app_error + semver" where
  "extract_spec_version T t content =
     (case (case t of Proto \<Rightarrow> extract_sanshain_version T content
                    | _ \<Rightarrow> extract_info_version T content) of
        Inl e \<Rightarrow> Inl (BadRequest e)
      | Inr v \<Rightarrow> Inr v)"

section \<open>Splitting into endpoints\<close>

fun reject_colliding_from ::
    "(string \<times> string \<rightharpoonup> string) \<Rightarrow> endpoint_spec list \<Rightarrow> app_error + unit" where
  "reject_colliding_from seen [] = Inr ()"
| "reject_colliding_from seen (e # es) =
     (let key = (s_normalized_path e, s_method e);
          seen' = seen(key \<mapsto> s_path e) in
      case seen key of
        Some first \<Rightarrow>
          if first \<noteq> s_path e
          then Inl (BadRequest (Text ''same endpoint'' [S first, S (s_path e), S (s_method e)]))
          else reject_colliding_from seen' es
      | None \<Rightarrow> reject_colliding_from seen' es)"

definition reject_colliding_endpoints :: "endpoint_spec list \<Rightarrow> app_error + unit" where
  "reject_colliding_endpoints es = reject_colliding_from Map.empty es"

definition endpoint_of_channel :: "asyncapi_spec \<Rightarrow> endpoint_spec" where
  "endpoint_of_channel s =
     \<lparr>s_path = as_channel s, s_normalized_path = as_channel s, s_method = as_operation s,
      s_yaml_content = as_yaml_content s, s_deprecated = as_deprecated s\<rparr>"

definition endpoint_of_rpc :: "proto_spec \<Rightarrow> endpoint_spec" where
  "endpoint_of_rpc s =
     \<lparr>s_path = ps_service s, s_normalized_path = ps_service s, s_method = ps_method s,
      s_yaml_content = ps_content s, s_deprecated = ps_deprecated s\<rparr>"

definition parse_spec_endpoints_inner ::
    "spec_tools \<Rightarrow> api_type \<Rightarrow> string \<Rightarrow> app_error + endpoint_spec list" where
  "parse_spec_endpoints_inner T t content =
     (case t of
        OpenApi \<Rightarrow> (case split_openapi T content of Inl e \<Rightarrow> Inl (BadRequest e) | Inr es \<Rightarrow> Inr es)
      | AsyncApi \<Rightarrow>
          (case split_asyncapi T content of Inl e \<Rightarrow> Inl (BadRequest e)
           | Inr ss \<Rightarrow> Inr (map endpoint_of_channel (filter (\<lambda>s. as_operation s = ''PUB'') ss)))
      | Proto \<Rightarrow>
          (case split_proto T content of Inl e \<Rightarrow> Inl (BadRequest e)
           | Inr ss \<Rightarrow> Inr (map endpoint_of_rpc ss)))"

definition parse_spec_endpoints ::
    "spec_tools \<Rightarrow> api_type \<Rightarrow> string \<Rightarrow> app_error + endpoint_spec list" where
  "parse_spec_endpoints T t content =
     (case parse_spec_endpoints_inner T t content of
        Inl e \<Rightarrow> Inl e
      | Inr es \<Rightarrow> (case reject_colliding_endpoints es of Inl e \<Rightarrow> Inl e | Inr _ \<Rightarrow> Inr es))"

section \<open>The validator\<close>

record validation_report =
  vr_valid :: bool
  vr_api_type :: api_type
  vr_version :: "semver option"
  vr_endpoint_count :: "nat option"
  vr_endpoints :: "string list"
  vr_error :: "message option"

text \<open>\<open>Display\<close> of \<open>AppError\<close>: the kind, then the text it carries.\<close>

fun app_error_to_string :: "app_error \<Rightarrow> message" where
  "app_error_to_string (BadRequest m) = Text ''Bad Request'' [M m]"
| "app_error_to_string (Conflict m) = Text ''Conflict'' [M m]"
| "app_error_to_string (NotFound m) = Text ''Not Found'' [M m]"
| "app_error_to_string (Gone m) = Text ''Gone'' [M m]"
| "app_error_to_string Unauthorized = Text ''Unauthorized'' []"
| "app_error_to_string Forbidden = Text ''Forbidden'' []"
| "app_error_to_string (ForbiddenWithReason m) = Text ''Forbidden'' [M m]"
| "app_error_to_string (Internal m) = Text ''Internal Error'' [M m]"
| "app_error_to_string (BreakingChange m) = Text ''Breaking Change'' [M m]"
| "app_error_to_string (VersionConflict m p) = Text ''Version Conflict'' [M m]"

definition split_error_text :: "app_error \<Rightarrow> message" where
  "split_error_text e = (case e of BadRequest m \<Rightarrow> m | _ \<Rightarrow> app_error_to_string e)"

definition validate_spec :: "spec_tools \<Rightarrow> api_type \<Rightarrow> string \<Rightarrow> validation_report" where
  "validate_spec T t raw =
     (let content = normalize_spec_text raw;
          version_result = (case t of Proto \<Rightarrow> extract_sanshain_version T content
                                    | _ \<Rightarrow> extract_info_version T content);
          split_result = parse_spec_endpoints T t content;
          error = (case version_result of Inl e \<Rightarrow> Some e
                   | Inr _ \<Rightarrow> (case split_result of Inl e \<Rightarrow> Some (split_error_text e) | Inr _ \<Rightarrow> None))
      in \<lparr>vr_valid = (error = None), vr_api_type = t,
          vr_version = (case version_result of Inl _ \<Rightarrow> None | Inr v \<Rightarrow> Some v),
          vr_endpoint_count = (case split_result of Inl _ \<Rightarrow> None | Inr es \<Rightarrow> Some (length es)),
          vr_endpoints = (case split_result of Inl _ \<Rightarrow> []
                          | Inr es \<Rightarrow> map (\<lambda>e. s_method e @ '' '' @ s_path e) (take 20 es)),
          vr_error = error\<rparr>)"

section \<open>Normalised text\<close>

text \<open>The reference: one pass that turns every line ending into a line feed.\<close>

function unify_newlines :: "string \<Rightarrow> string" where
  "unify_newlines [] = []"
| "unify_newlines (c # r) =
     (if c = cr then lf # unify_newlines (case r of d # q \<Rightarrow> if d = lf then q else r | [] \<Rightarrow> [])
      else c # unify_newlines r)"
  by pat_completeness auto
termination
  by (relation "measure length") (auto split: list.split)

definition drop_bom :: "string \<Rightarrow> string" where
  "drop_bom s = (if starts_with bom s then drop 3 s else s)"

lemma cr_lf [simp]: "cr \<noteq> lf" "lf \<noteq> cr"
  by (simp_all add: cr_def lf_def)

lemma replace_crlf_step:
  "replace_char cr [lf] (replace_str [cr, lf] [lf] (c # r)) =
   (if c = cr then lf # replace_char cr [lf] (replace_str [cr, lf] [lf]
         (case r of d # q \<Rightarrow> if d = lf then q else r | [] \<Rightarrow> []))
    else c # replace_char cr [lf] (replace_str [cr, lf] [lf] r))"
  by (cases r) (auto simp: replace_char_def starts_with_def)

lemma unify_newlines_replace:
  "replace_char cr [lf] (replace_str [cr, lf] [lf] s) = unify_newlines s"
proof (induction s rule: unify_newlines.induct)
  case 1
  then show ?case by (simp add: replace_char_def)
next
  case (2 c r)
  then show ?case by (simp only: replace_crlf_step) simp
qed

lemma unify_newlines_id: "cr \<notin> set s \<Longrightarrow> unify_newlines s = s"
  by (induction s rule: unify_newlines.induct) auto

lemma unify_newlines_no_cr: "cr \<notin> set (unify_newlines s)"
  by (induction s rule: unify_newlines.induct) auto

lemma strip_bom: "(case strip_prefix bom s of Some r \<Rightarrow> r | None \<Rightarrow> s) = drop_bom s"
  by (simp add: strip_prefix_def starts_with_def drop_bom_def bom_def numeral_3_eq_3)

lemma normalize_spec_text_unify: "normalize_spec_text s = unify_newlines (drop_bom s)"
  by (simp add: normalize_spec_text_def strip_bom unify_newlines_replace unify_newlines_id Let_def)

lemma unify_newlines_crlf:
  "cr \<notin> set s \<Longrightarrow> unify_newlines (replace_char lf [cr, lf] s) = s"
  by (induction s) (auto simp: replace_char_def)

lemma unify_newlines_lone_cr:
  "cr \<notin> set s \<Longrightarrow> unify_newlines (replace_char lf [cr] s) = s"
proof (induction s)
  case (Cons c s)
  have "\<exists>d q. replace_char lf [cr] s = d # q \<and> d \<noteq> lf" if "s \<noteq> []"
    using that by (cases s) (auto simp: replace_char_def)
  with Cons show ?case
    by (cases "s = []") (auto simp: replace_char_def)
qed (simp add: replace_char_def)

text \<open>
  normalisation is one pass that drops one leading byte order mark and turns CRLF and
  lone CR into LF; its result has no CR, so a document checked out with CRLF or CR line
  endings, with or without the mark, is the same text as its LF original.
\<close>

lemma normalize_spec_text_newlines:
  "normalize_spec_text s = unify_newlines (drop_bom s) \<and>
   cr \<notin> set (normalize_spec_text s) \<and>
   (cr \<notin> set t \<longrightarrow>
      normalize_spec_text (bom @ t) = t \<and>
      normalize_spec_text (bom @ replace_char lf [cr, lf] t) = t \<and>
      normalize_spec_text (bom @ replace_char lf [cr] t) = t)"
proof -
  have "drop_bom (bom @ u) = u" for u
    by (simp add: drop_bom_def starts_with_def bom_def)
  then show ?thesis
    by (simp add: normalize_spec_text_unify unify_newlines_no_cr unify_newlines_id
        unify_newlines_crlf unify_newlines_lone_cr)
qed

lemma normalize_spec_text_newlines_witness:
  "cr \<notin> set ''a'' \<and> normalize_spec_text (bom @ replace_char lf [cr, lf] ''a'') = ''a''"
  using normalize_spec_text_newlines[of "''a''" "''a''"] by (simp add: cr_def)

section \<open>Path keys and templates\<close>

text \<open>
  A templated path: literal segments of visible ASCII bytes and variables,
  each behind a slash. Its shape forgets the names of the variables.
\<close>

datatype seg = Lit string | Var string

definition visible :: "char \<Rightarrow> bool" where
  "visible c \<longleftrightarrow> 33 \<le> (of_char c :: nat) \<and> (of_char c :: nat) \<le> 126"

fun wf_seg :: "seg \<Rightarrow> bool" where
  "wf_seg (Lit l) \<longleftrightarrow> l \<noteq> [] \<and> list_all visible l \<and>
     CHR ''/'' \<notin> set l \<and> CHR ''{'' \<notin> set l \<and> CHR ''}'' \<notin> set l"
| "wf_seg (Var n) \<longleftrightarrow> n \<noteq> [] \<and> CHR ''/'' \<notin> set n \<and> CHR ''}'' \<notin> set n"

fun seg_text :: "seg \<Rightarrow> string" where
  "seg_text (Lit l) = l"
| "seg_text (Var n) = ''{'' @ n @ ''}''"

fun blank_seg :: "seg \<Rightarrow> seg" where
  "blank_seg (Lit l) = Lit l"
| "blank_seg (Var n) = Var []"

definition render :: "seg list \<Rightarrow> string" where
  "render ss = concat (map (\<lambda>s. CHR ''/'' # seg_text s) ss)"

lemma render_simps [simp]:
  "render [] = []" "render (s # ss) = CHR ''/'' # seg_text s @ render ss"
  by (simp_all add: render_def)

lemma collapse_from_skip:
  "CHR ''/'' \<notin> set l \<Longrightarrow>
   collapse_slashes_from b (l @ r) = l @ collapse_slashes_from (l = [] \<and> b) r"
  by (induction l arbitrary: b) auto

lemma seg_text_ne: "wf_seg s \<Longrightarrow> seg_text s \<noteq> [] \<and> CHR ''/'' \<notin> set (seg_text s)"
  by (cases s) auto

lemma collapse_render: "list_all wf_seg ss \<Longrightarrow> collapse_slashes_from False (render ss) = render ss"
  by (induction ss) (auto simp: collapse_from_skip seg_text_ne)

lemma collapse_render_slash:
  "list_all wf_seg ss \<Longrightarrow> collapse_slashes_from False (render ss @ ''/'') = render ss @ ''/''"
  by (induction ss) (auto simp: collapse_from_skip seg_text_ne)

lemma split_once_skip: "c \<notin> set l \<Longrightarrow>
    split_once c (l @ r) = map_option (\<lambda>(a, b). (l @ a, b)) (split_once c r)"
  by (induction l) (auto simp: option.map_comp comp_def option.map_id split: option.splits prod.splits)

lemma blank_skip:
  "CHR ''{'' \<notin> set l \<Longrightarrow> blank_path_variables (l @ r) = l @ blank_path_variables r"
  by (simp add: blank_path_variables.simps[of "l @ r"] blank_path_variables.simps[of r]
      split_once_skip split: option.split prod.split)

lemma blank_variable:
  "n \<noteq> [] \<Longrightarrow> CHR ''}'' \<notin> set n \<Longrightarrow>
   blank_path_variables (CHR ''{'' # n @ CHR ''}'' # r) = ''{}'' @ blank_path_variables r"
  by (simp add: blank_path_variables.simps[of "CHR ''{'' # n @ CHR ''}'' # r"] split_once_first)

lemma blank_Nil [simp]: "blank_path_variables [] = []"
  by (simp add: blank_path_variables.simps)

lemma blank_slash [simp]:
  "blank_path_variables (CHR ''/'' # r) = CHR ''/'' # blank_path_variables r"
  using blank_skip[of "''/''" r] by simp

lemma blank_seg_text:
  "wf_seg s \<Longrightarrow> blank_path_variables (seg_text s @ r) = seg_text (blank_seg s) @ blank_path_variables r"
  by (cases s) (simp_all add: blank_skip blank_variable)

lemma blank_render: "list_all wf_seg ss \<Longrightarrow>
    blank_path_variables (render ss @ r) = render (map blank_seg ss) @ blank_path_variables r"
  by (induction ss) (simp_all add: blank_seg_text)

lemma white_space_visible:
  "\<forall>w \<in> set white_space. w \<noteq> [] \<and> \<not> visible (hd w) \<and> \<not> visible (last w)"
  by (simp add: white_space_def visible_def)

lemma trim_visible:
  assumes "s \<noteq> []" and "visible (hd s)" and "visible (last s)"
  shows "trim s = s"
proof -
  obtain c r where s: "s = c # r" using assms(1) by (cases s) auto
  obtain d q where t: "rev s = d # q" using assms(1) by (cases "rev s") auto
  then have d: "visible d" using assms by (metis hd_rev list.sel(1))
  have "leading white_space s = 0" unfolding s
    by (rule leading_0) (use white_space_visible assms(2) s in auto)
  moreover have "leading (map rev white_space) (rev s) = 0" unfolding t
    by (rule leading_0) (use white_space_visible d in \<open>auto simp: hd_rev\<close>)
  ultimately show ?thesis
    by (simp add: trim_def trim_start_def trim_end_def strip_leading.simps)
qed

lemma seg_text_last: "wf_seg s \<Longrightarrow> visible (last (seg_text s)) \<and> last (seg_text s) \<noteq> CHR ''/''"
proof (cases s)
  case (Lit l)
  assume "wf_seg s"
  with Lit have "last l \<in> set l" "\<forall>c \<in> set l. visible c" "CHR ''/'' \<notin> set l"
    by (simp_all add: list_all_iff)
  with Lit show ?thesis by auto
qed (simp add: visible_def)

lemma render_last:
  "ss \<noteq> [] \<Longrightarrow> list_all wf_seg ss \<Longrightarrow>
   render ss \<noteq> [] \<and> visible (last (render ss)) \<and> last (render ss) \<noteq> CHR ''/''"
proof (induction ss)
  case (Cons s ss)
  then have "wf_seg s" by simp
  from seg_text_last[OF this] seg_text_ne[OF this] Cons show ?case
    by (cases "ss = []") auto
qed simp

lemma trim_render:
  assumes "ss \<noteq> []" and "list_all wf_seg ss"
  shows "trim (render ss) = render ss" and "trim (render ss @ ''/'') = render ss @ ''/''"
proof -
  obtain s r where ss: "ss = s # r" using assms(1) by (cases ss) auto
  have "visible CHR ''/''" by (simp add: visible_def)
  then show "trim (render ss) = render ss" "trim (render ss @ ''/'') = render ss @ ''/''"
    using render_last[OF assms] ss by (auto intro!: trim_visible)
qed

lemma render_blank_last:
  assumes "ss \<noteq> []" and "list_all wf_seg ss"
  shows "last (render (map blank_seg ss)) \<noteq> CHR ''/''"
  using assms
proof (induction ss)
  case (Cons s ss)
  then have "last (seg_text (blank_seg s)) \<noteq> CHR ''/'' \<and> seg_text (blank_seg s) \<noteq> []"
    using seg_text_last[of s] by (cases s) auto
  with Cons show ?case by (cases ss) auto
qed simp

lemma normalize_path_render:
  assumes "ss \<noteq> []" and "list_all wf_seg ss"
  shows "normalize_path (render ss) = render (map blank_seg ss)"
    and "normalize_path (render ss @ ''/'') = render (map blank_seg ss)"
proof -
  have ne: "render (map blank_seg ss) \<noteq> []" using assms(1) by (cases ss) auto
  have "blank_path_variables (render ss) = render (map blank_seg ss)"
    using blank_render[OF assms(2), of "[]"] by simp
  then show "normalize_path (render ss) = render (map blank_seg ss)"
    using render_blank_last[OF assms]
    by (simp add: normalize_path_def trim_render[OF assms] collapse_slashes_def
        collapse_render[OF assms(2)] Let_def)
  have "blank_path_variables (render ss @ ''/'') = render (map blank_seg ss) @ ''/''"
    using blank_render[OF assms(2), of "''/''"] by simp
  then show "normalize_path (render ss @ ''/'') = render (map blank_seg ss)"
    using ne by (simp add: normalize_path_def trim_render[OF assms] collapse_slashes_def
        collapse_render_slash[OF assms(2)] Let_def)
qed

lemma split_render:
  "\<forall>s \<in> set ss. CHR ''/'' \<notin> set (seg_text s) \<Longrightarrow>
   split_char CHR ''/'' (render ss) = [] # map seg_text ss"
proof (induction ss)
  case (Cons s ss)
  show ?case
  proof (cases ss)
    case Nil
    with Cons show ?thesis by (simp add: split_char_free)
  next
    case (Cons q qs)
    with Cons.IH Cons.prems show ?thesis by (simp add: split_char_sep)
  qed
qed simp

lemma blank_seg_text_inj:
  "wf_seg s \<Longrightarrow> wf_seg t \<Longrightarrow> seg_text (blank_seg s) = seg_text (blank_seg t) \<longleftrightarrow> blank_seg s = blank_seg t"
  by (cases s; cases t) auto

lemma blank_seg_no_slash: "wf_seg s \<Longrightarrow> CHR ''/'' \<notin> set (seg_text (blank_seg s))"
  by (cases s) auto

lemma map_blank_text_inj:
  "list_all wf_seg ss \<Longrightarrow> list_all wf_seg ts \<Longrightarrow>
   map (seg_text \<circ> blank_seg) ss = map (seg_text \<circ> blank_seg) ts \<longleftrightarrow> map blank_seg ss = map blank_seg ts"
proof (induction ss arbitrary: ts)
  case (Cons s ss)
  then show ?case by (cases ts) (auto simp: blank_seg_text_inj)
qed simp

text \<open>
  two templated paths get the same key exactly when they differ at most in the names of
  their variables, and a trailing slash changes nothing: no two different endpoints share a
  key, and no endpoint has two.
\<close>

lemma normalize_path_same_shape:
  assumes "ss \<noteq> []" and "ts \<noteq> []" and "list_all wf_seg ss" and "list_all wf_seg ts"
  shows "(normalize_path (render ss) = normalize_path (render ts) \<longleftrightarrow> map blank_seg ss = map blank_seg ts) \<and>
    normalize_path (render ss @ ''/'') = normalize_path (render ss)"
proof
  have "render (map blank_seg ss) = render (map blank_seg ts) \<longleftrightarrow> map blank_seg ss = map blank_seg ts"
    (is "?l = ?r")
  proof
    assume ?l
    then have "split_char CHR ''/'' (render (map blank_seg ss)) =
        split_char CHR ''/'' (render (map blank_seg ts))" by simp
    then have "map (seg_text \<circ> blank_seg) ss = map (seg_text \<circ> blank_seg) ts"
      using assms(3,4) by (simp add: split_render blank_seg_no_slash list_all_iff)
    then show ?r using assms(3,4) by (simp add: map_blank_text_inj)
  qed simp
  then show "normalize_path (render ss) = normalize_path (render ts) \<longleftrightarrow> map blank_seg ss = map blank_seg ts"
    using assms by (simp add: normalize_path_render)
  show "normalize_path (render ss @ ''/'') = normalize_path (render ss)"
    using assms by (simp add: normalize_path_render)
qed

section \<open>Endpoint collisions\<close>

definition endpoint_key :: "endpoint_spec \<Rightarrow> string \<times> string" where
  "endpoint_key e = (s_normalized_path e, s_method e)"

lemma reject_colliding_step:
  "reject_colliding_from seen (e # es) = Inr () \<longleftrightarrow>
   (seen (endpoint_key e) = None \<or> seen (endpoint_key e) = Some (s_path e)) \<and>
   reject_colliding_from (seen(endpoint_key e \<mapsto> s_path e)) es = Inr ()"
  by (cases "seen (endpoint_key e)") (simp_all add: endpoint_key_def Let_def)

definition agrees :: "(string \<times> string \<rightharpoonup> string) \<Rightarrow> endpoint_spec \<Rightarrow> bool" where
  "agrees seen e \<longleftrightarrow> seen (endpoint_key e) = None \<or> seen (endpoint_key e) = Some (s_path e)"

lemma agrees_upd:
  "agrees (seen(endpoint_key e \<mapsto> s_path e)) f \<longleftrightarrow>
   (if endpoint_key e = endpoint_key f then s_path e = s_path f else agrees seen f)"
  by (simp add: agrees_def)

lemma reject_colliding_from_iff:
  "reject_colliding_from seen es = Inr () \<longleftrightarrow>
   (\<forall>e \<in> set es. agrees seen e) \<and>
   (\<forall>e \<in> set es. \<forall>f \<in> set es. endpoint_key e = endpoint_key f \<longrightarrow> s_path e = s_path f)"
proof (induction es arbitrary: seen)
  case (Cons e es)
  have same: "agrees seen f" if "agrees seen e" "endpoint_key e = endpoint_key f" "s_path e = s_path f" for f
    using that by (simp add: agrees_def)
  have "(\<forall>f\<in>set es. agrees (seen(endpoint_key e \<mapsto> s_path e)) f) \<longleftrightarrow>
      (\<forall>f\<in>set es. agrees seen f) \<and> (\<forall>f\<in>set es. endpoint_key e = endpoint_key f \<longrightarrow> s_path e = s_path f)"
    if "agrees seen e"
    unfolding agrees_upd using same[OF that] by metis
  moreover have "(\<forall>x \<in> set (e # es). \<forall>f \<in> set (e # es). endpoint_key x = endpoint_key f \<longrightarrow> s_path x = s_path f)
      \<longleftrightarrow> (\<forall>f\<in>set es. endpoint_key e = endpoint_key f \<longrightarrow> s_path e = s_path f) \<and>
        (\<forall>x \<in> set es. \<forall>f \<in> set es. endpoint_key x = endpoint_key f \<longrightarrow> s_path x = s_path f)"
    by (simp only: list.set) (metis insert_iff)
  ultimately show ?case
    unfolding reject_colliding_step Cons.IH agrees_def[symmetric] by (cases "agrees seen e") simp_all
qed simp

text \<open>
  a set of endpoints is accepted exactly when no two of them share the key (normalised
  path, method) under different spellings of the path.
\<close>

lemma reject_colliding_endpoints_iff:
  "reject_colliding_endpoints es = Inr () \<longleftrightarrow>
   (\<forall>e \<in> set es. \<forall>f \<in> set es. endpoint_key e = endpoint_key f \<longrightarrow> s_path e = s_path f)"
  by (simp add: reject_colliding_endpoints_def reject_colliding_from_iff agrees_def)

text \<open>
  the validator's verdict is exactly the parsing phase of a Provide of the same document:
  valid when the version can be read and the endpoints can be split, and then it reports
  that version and that many endpoints.
\<close>

lemma validate_spec_verdict:
  "vr_valid (validate_spec T t raw) \<longleftrightarrow>
     (\<exists>v es. extract_spec_version T t (normalize_spec_text raw) = Inr v \<and>
             parse_spec_endpoints T t (normalize_spec_text raw) = Inr es \<and>
             vr_version (validate_spec T t raw) = Some v \<and>
             vr_endpoint_count (validate_spec T t raw) = Some (length es))"
proof -
  let ?c = "normalize_spec_text raw"
  let ?vr = "case t of Proto \<Rightarrow> extract_sanshain_version T ?c | _ \<Rightarrow> extract_info_version T ?c"
  show ?thesis
  proof (cases "?vr")
    case (Inl m)
    then show ?thesis by (simp add: validate_spec_def extract_spec_version_def Let_def)
  next
    case (Inr v)
    then show ?thesis
      by (cases "parse_spec_endpoints T t ?c")
        (simp_all add: validate_spec_def extract_spec_version_def Let_def)
  qed
qed

end
