(* ===== verification/Version_Rules.thy ===== *)
theory Version_Rules
  imports Spec_Text "HOL-Library.AList"
begin

text \<open>
  The version rules of \<open>src/src/application/version_rules.rs\<close>: the verdict on
  compatibility, the next free version a refusal proposes, the classification
  of a change, the endpoint diff and the GA entry a release is compared with.

  The two \<open>while\<close> loops that look for a free version need not end (their step
  saturates at \<open>u32::MAX\<close>), so they are \<open>partial_function (option)\<close>: not
  returning is \<open>None\<close>.
\<close>

section \<open>Definitions\<close>

definition check_compatibility ::
    "spec_tools \<Rightarrow> api_type \<Rightarrow> string \<Rightarrow> string \<Rightarrow> message + unit" where
  "check_compatibility T t old new =
     (case t of OpenApi \<Rightarrow> openapi_compatibility T old new
      | AsyncApi \<Rightarrow> asyncapi_compatibility T old new
      | Proto \<Rightarrow> proto_compatibility T old new)"

partial_function (option) bump_until_free :: "semver list \<Rightarrow> impact \<Rightarrow> semver \<Rightarrow> semver option" where
  [code]: "bump_until_free taken i proposal =
     (if proposal \<in> set taken then bump_until_free taken i (increment proposal i)
      else Some proposal)"

definition propose_free :: "spec_version_meta list \<Rightarrow> semver \<Rightarrow> semver option" where
  "propose_free line candidate = bump_until_free (map v_version line) Patch candidate"

definition propose_free_minor :: "spec_version_meta list \<Rightarrow> semver \<Rightarrow> semver option" where
  "propose_free_minor line version =
     bump_until_free (map v_version line) Minor (increment version Minor)"

definition classify_change ::
    "spec_tools \<Rightarrow> api_type \<Rightarrow> string \<Rightarrow> string \<Rightarrow> nat \<Rightarrow> impact" where
  "classify_change T t old new ins =
     (let by_inserts = (if ins > 0 then Minor else Patch) in
      case check_compatibility T t old new of
        Inl _ \<Rightarrow> Major
      | Inr _ \<Rightarrow> if t = OpenApi then max (openapi_analyze_impact T old new) by_inserts
                 else by_inserts)"

definition record_key :: "('a) endpoint_record_scheme \<Rightarrow> string \<times> string" where
  "record_key e = (e_normalized_path e, e_method e)"

definition endpoint_differs :: "('a) endpoint_record_scheme \<Rightarrow> endpoint_spec \<Rightarrow> bool" where
  "endpoint_differs old new \<longleftrightarrow>
     e_yaml_content old \<noteq> s_yaml_content new \<or> e_path old \<noteq> s_path new \<or>
     e_deprecated old \<noteq> s_deprecated new"

fun diff_against ::
    "((string \<times> string) \<times> ('a) endpoint_record_scheme) list \<Rightarrow> endpoint_spec list \<Rightarrow> provide_changes" where
  "diff_against old_map [] = \<lparr>inserts = 0, updates = 0, deletes = length old_map\<rparr>"
| "diff_against old_map (e # es) =
     (let rest = diff_against (AList.delete (endpoint_key e) old_map) es in
      case map_of old_map (endpoint_key e) of
        Some existing \<Rightarrow>
          if endpoint_differs existing e then rest\<lparr>updates := Suc (updates rest)\<rparr> else rest
      | None \<Rightarrow> rest\<lparr>inserts := Suc (inserts rest)\<rparr>)"

definition diff_endpoints ::
    "('a) endpoint_record_scheme list \<Rightarrow> endpoint_spec list \<Rightarrow> provide_changes" where
  "diff_endpoints old new =
     diff_against (foldl (\<lambda>m e. AList.update (record_key e) e m) [] old) new"

text \<open>\<open>Iterator::max_by_key\<close>: of equally large elements, the last.\<close>

fun max_by_version :: "spec_version_meta list \<Rightarrow> spec_version_meta option" where
  "max_by_version [] = None"
| "max_by_version (v # vs) =
     (case max_by_version vs of
        None \<Rightarrow> Some v
      | Some m \<Rightarrow> if v_version m < v_version v then Some v else Some m)"

definition ga_baseline :: "spec_version_meta list \<Rightarrow> semver \<Rightarrow> spec_version_meta option" where
  "ga_baseline line below =
     max_by_version (filter (\<lambda>v. v_stability v = Ga \<and> v_version v < below) line)"

section \<open>The loop that looks for a free version\<close>

abbreviation bump :: "impact \<Rightarrow> nat \<Rightarrow> semver \<Rightarrow> semver" where
  "bump i n \<equiv> (\<lambda>v. increment v i) ^^ n"

lemma bump_Suc: "bump i (Suc n) v = bump i n (increment v i)"
  by (simp add: funpow_Suc_right del: funpow.simps)

lemma bump_until_free_at:
  assumes "\<And>m. m < n \<Longrightarrow> bump i m v \<in> set taken" and "bump i n v \<notin> set taken"
  shows "bump_until_free taken i v = Some (bump i n v)"
  using assms
proof (induction n arbitrary: v)
  case 0
  then show ?case by (simp add: bump_until_free.simps)
next
  case (Suc n)
  have "v \<in> set taken" using Suc.prems(1)[of 0] by simp
  moreover have "bump i m (increment v i) \<in> set taken" if "m < n" for m
    using Suc.prems(1)[of "Suc m"] that by (simp only: bump_Suc Suc_less_eq)
  moreover have "bump i n (increment v i) \<notin> set taken"
    using Suc.prems(2) by (simp only: bump_Suc not_False_eq_True)
  ultimately have "bump_until_free taken i (increment v i) = Some (bump i n (increment v i))"
    using Suc.IH by blast
  then show ?case
    using \<open>v \<in> set taken\<close> by (simp only: bump_until_free.simps[of taken i v] bump_Suc if_True)
qed

lemma bump_until_free_SomeD:
  assumes "bump_until_free taken i v = Some p"
  shows "\<exists>n. p = bump i n v \<and> p \<notin> set taken"
proof (rule bump_until_free.raw_induct[OF _ assms])
  fix f taken i v p
  assume IH: "\<And>taken i v p. f taken i v = Some p \<Longrightarrow> \<exists>n. p = bump i n v \<and> p \<notin> set taken"
    and step: "(if v \<in> set taken then f taken i (increment v i) else Some v) = Some p"
  show "\<exists>n. p = bump i n v \<and> p \<notin> set taken"
  proof (cases "v \<in> set taken")
    case True
    with step IH obtain n where "p = bump i n (increment v i)" "p \<notin> set taken" by fastforce
    then show ?thesis by (metis bump_Suc)
  next
    case False
    with step show ?thesis by (auto intro: exI[of _ 0])
  qed
qed

lemma increment_funpow_patch:
  "unat (patch v) + n < 2 ^ 32 \<Longrightarrow>
   ((\<lambda>v. increment v Patch) ^^ n) v = SemVer (major v) (minor v) (patch v + word_of_nat n)"
proof (induction n)
  case (Suc n)
  have "unat (patch v + word_of_nat n) = unat (patch v) + n"
    using Suc.prems by (simp add: unat_word_ariths unat_of_nat)
  then have "saturating_add (patch v + word_of_nat n) 1 = patch v + word_of_nat n + 1"
    using Suc.prems by (simp add: saturating_add_def)
  with Suc show ?case by (simp add: algebra_simps)
qed (cases v, simp)

lemma increment_funpow_minor:
  "unat (minor v) + n < 2 ^ 32 \<Longrightarrow>
   ((\<lambda>v. increment v Minor) ^^ n) v =
     SemVer (major v) (minor v + word_of_nat n) (if n = 0 then patch v else 0)"
proof (induction n)
  case (Suc n)
  have "unat (minor v + word_of_nat n) = unat (minor v) + n"
    using Suc.prems by (simp add: unat_word_ariths unat_of_nat)
  then have "saturating_add (minor v + word_of_nat n) 1 = minor v + word_of_nat n + 1"
    using Suc.prems by (simp add: saturating_add_def)
  with Suc show ?case by (simp add: algebra_simps)
qed (cases v, simp)

lemma unat_add_of_nat: "unat (a :: u32) + n < 2 ^ 32 \<Longrightarrow> unat (a + word_of_nat n) = unat a + n"
  by (simp add: unat_word_ariths unat_of_nat)

lemma bump_inj:
  assumes "\<And>n. n \<le> k \<Longrightarrow> f n = (c :: u32) + word_of_nat n" and "unat c + k < 2 ^ 32"
  shows "inj_on f {..k}"
proof (rule inj_onI)
  fix m n assume *: "m \<in> {..k}" "n \<in> {..k}" "f m = f n"
  with assms have "unat (c + word_of_nat m) = unat (c + word_of_nat n)" by simp
  moreover have "unat c + m < 2 ^ 32" "unat c + n < 2 ^ 32" using * assms(2) by auto
  ultimately show "m = n" by (simp add: unat_add_of_nat)
qed

lemma pigeonhole_free:
  assumes "inj_on f {..length xs}"
  shows "\<exists>n \<le> length xs. f n \<notin> set xs \<and> (\<forall>m < n. f m \<in> set xs)"
proof -
  have "\<exists>n \<le> length xs. f n \<notin> set xs"
  proof (rule ccontr)
    assume "\<not> ?thesis"
    then have "f ` {..length xs} \<subseteq> set xs" by auto
    then have "card (f ` {..length xs}) \<le> card (set xs)" by (simp add: card_mono)
    with assms have "Suc (length xs) \<le> card (set xs)" by (simp add: card_image)
    with card_length[of xs] show False by simp
  qed
  then obtain n where n: "n \<le> length xs" "f n \<notin> set xs" by blast
  let ?n = "LEAST n. f n \<notin> set xs"
  have "f ?n \<notin> set xs" using n(2) by (rule LeastI)
  moreover have "?n \<le> length xs" using Least_le[of "\<lambda>n. f n \<notin> set xs", OF n(2)] n(1) by simp
  moreover have "\<forall>m < ?n. f m \<in> set xs" using not_less_Least by blast
  ultimately show ?thesis by blast
qed

lemma bump_patch_free:
  assumes "unat (patch v) + length taken < 2 ^ 32"
  shows "\<exists>n \<le> length taken. bump_until_free taken Patch v = Some (bump Patch n v) \<and>
           bump Patch n v \<notin> set taken \<and> (\<forall>m < n. bump Patch m v \<in> set taken)"
proof -
  have "patch (bump Patch n v) = patch v + word_of_nat n" if "n \<le> length taken" for n
    using increment_funpow_patch[of v n] that assms by simp
  then have "inj_on (\<lambda>n. patch (bump Patch n v)) {..length taken}"
    using assms by (rule bump_inj) 
  then have "inj_on (\<lambda>n. bump Patch n v) {..length taken}"
    by (auto simp: inj_on_def)
  from pigeonhole_free[OF this] show ?thesis
    using bump_until_free_at by blast
qed

lemma bump_minor_free:
  assumes "unat (minor v) + length taken < 2 ^ 32"
  shows "\<exists>n \<le> length taken. bump_until_free taken Minor v = Some (bump Minor n v) \<and>
           bump Minor n v \<notin> set taken \<and> (\<forall>m < n. bump Minor m v \<in> set taken)"
proof -
  have "minor (bump Minor n v) = minor v + word_of_nat n" if "n \<le> length taken" for n
    using increment_funpow_minor[of v n] that assms by simp
  then have "inj_on (\<lambda>n. minor (bump Minor n v)) {..length taken}"
    using assms by (rule bump_inj) 
  then have "inj_on (\<lambda>n. bump Minor n v) {..length taken}"
    by (auto simp: inj_on_def)
  from pigeonhole_free[OF this] show ?thesis
    using bump_until_free_at by blast
qed

lemma between_patches:
  assumes "v \<le> q" and "q < bump Patch n v" and "unat (patch v) + n < 2 ^ 32"
  shows "\<exists>m < n. q = bump Patch m v"
proof -
  have b: "bump Patch n v = SemVer (major v) (minor v) (patch v + word_of_nat n)"
    by (rule increment_funpow_patch[OF assms(3)])
  with assms(1,2) have eq: "major q = major v" "minor q = minor v"
    and lo: "patch v \<le> patch q" and hi: "patch q < patch v + word_of_nat n"
    by (auto simp: less_eq_semver_def less_semver_def less_eq_prod_def less_prod_def)
  define m where "m = unat (patch q) - unat (patch v)"
  have le: "unat (patch v) \<le> unat (patch q)" using lo by (simp add: word_le_nat_alt)
  have "unat (patch q) < unat (patch v) + n"
    using hi assms(3) by (simp add: word_less_nat_alt unat_add_of_nat)
  with le have "m < n" by (simp add: m_def)
  moreover have "patch q = patch v + word_of_nat m"
    using le by (simp add: m_def of_nat_diff)
  then have "q = bump Patch m v"
    using increment_funpow_patch[of v m] assms(3) \<open>m < n\<close> eq by (cases q) simp
  ultimately show ?thesis by blast
qed

text \<open>
  C34: the version a refusal proposes is the smallest version at or above the candidate that
  no entry of the line uses, and it is found, as long as the candidate's patch number is
  further from the largest \<open>u32\<close> than the line is long.
\<close>

theorem propose_free_smallest:
  assumes "unat (patch candidate) + length line < 2 ^ 32"
  shows "\<exists>p. propose_free line candidate = Some p \<and> candidate \<le> p \<and> p \<notin> v_version ` set line \<and>
           (\<forall>q. candidate \<le> q \<and> q < p \<longrightarrow> q \<in> v_version ` set line)"
proof -
  let ?taken = "map v_version line"
  obtain n where n: "n \<le> length ?taken" "bump_until_free ?taken Patch candidate = Some (bump Patch n candidate)"
      "bump Patch n candidate \<notin> set ?taken" "\<forall>m < n. bump Patch m candidate \<in> set ?taken"
    using bump_patch_free[of candidate ?taken] assms by auto
  then have small: "unat (patch candidate) + n < 2 ^ 32" using assms by simp
  have "candidate \<le> bump Patch n candidate"
    using increment_funpow_patch[OF small] small
    by (cases candidate) (simp add: less_eq_semver_def less_eq_prod_def word_le_nat_alt unat_add_of_nat)
  moreover have "\<forall>q. candidate \<le> q \<and> q < bump Patch n candidate \<longrightarrow> q \<in> v_version ` set line"
    using between_patches[OF _ _ small] n(4) by fastforce
  ultimately show ?thesis using n by (auto simp: propose_free_def)
qed

definition example_entry :: "semver \<Rightarrow> spec_version_meta" where
  "example_entry v = \<lparr>v_id = 1, v_service_id = 1, v_api_type = OpenApi, v_version = v,
      v_stability = Ga, v_content_hash = [], v_provided_by = [], v_created_at = [], v_updated_at = [],
      v_last_required_at = None, v_trunk_provided_at = None\<rparr>"

theorem propose_free_smallest_witness:
  "\<exists>p. propose_free [example_entry (SemVer 1 2 3)] (SemVer 1 2 3) = Some p \<and> SemVer 1 2 3 \<le> p \<and>
     p \<noteq> SemVer 1 2 3"
  using propose_free_smallest[of "SemVer 1 2 3" "[example_entry (SemVer 1 2 3)]"]
  by (auto simp: example_entry_def)

text \<open>
  the number proposed to a second line of work is a later minor of the same major, with
  patch zero, that no entry of the line uses, and every minor skipped on the way is in use.
\<close>

lemma propose_free_minor_next:
  assumes "unat (minor version) + 1 + length line < 2 ^ 32"
  shows "\<exists>n. propose_free_minor line version = Some (SemVer (major version) (minor version + 1 + word_of_nat n) 0) \<and>
           n \<le> length line \<and>
           SemVer (major version) (minor version + 1 + word_of_nat n) 0 \<notin> v_version ` set line \<and>
           (\<forall>m < n. SemVer (major version) (minor version + 1 + word_of_nat m) 0 \<in> v_version ` set line)"
proof -
  let ?taken = "map v_version line" and ?v = "increment version Minor"
  have v: "?v = SemVer (major version) (minor version + 1) 0"
    using assms by (cases version) (simp add: saturating_add_def)
  have u: "unat (minor version + 1) = unat (minor version) + 1"
    using unat_add_of_nat[of "minor version" 1] assms by simp
  have bump: "bump Minor n ?v = SemVer (major version) (minor version + 1 + word_of_nat n) 0"
    if "n \<le> length line" for n
    using increment_funpow_minor[of ?v n] that assms v u by simp
  obtain n where n: "n \<le> length ?taken" "bump_until_free ?taken Minor ?v = Some (bump Minor n ?v)"
      "bump Minor n ?v \<notin> set ?taken" "\<forall>m < n. bump Minor m ?v \<in> set ?taken"
    using bump_minor_free[of ?v ?taken] assms v u by auto
  show ?thesis
  proof (intro exI conjI allI impI)
    show "propose_free_minor line version = Some (SemVer (major version) (minor version + 1 + word_of_nat n) 0)"
      using n bump[of n] by (simp add: propose_free_minor_def)
    show "n \<le> length line" using n(1) by simp
    show "SemVer (major version) (minor version + 1 + word_of_nat n) 0 \<notin> v_version ` set line"
      using n bump[of n] by simp
    show "SemVer (major version) (minor version + 1 + word_of_nat m) 0 \<in> v_version ` set line"
      if "m < n" for m
      using n(1,4) bump[of m] that by fastforce
  qed
qed

text \<open>
  The numbers a search visits: from its start upwards, each once, and the largest
  \<open>u32\<close> for ever.
\<close>

lemma bump_until_free_None: "bump_until_free taken i v = None \<longleftrightarrow> (\<forall>n. bump i n v \<in> set taken)"
proof
  assume none: "bump_until_free taken i v = None"
  show "\<forall>n. bump i n v \<in> set taken"
  proof (rule ccontr)
    assume "\<not> (\<forall>n. bump i n v \<in> set taken)"
    then obtain n where "bump i n v \<notin> set taken" "\<And>m. m < n \<Longrightarrow> bump i m v \<in> set taken"
      using exists_least_iff[of "\<lambda>n. bump i n v \<notin> set taken"] by blast
    from bump_until_free_at[OF this(2,1)] none show False by simp
  qed
next
  assume "\<forall>n. bump i n v \<in> set taken"
  then show "bump_until_free taken i v = None"
    by (cases "bump_until_free taken i v") (auto dest: bump_until_free_SomeD)
qed

lemma u32_max_top: "u32_max \<le> p \<longleftrightarrow> p = u32_max" and u32_max_ge: "p \<le> u32_max"
  using unsigned_less[of p, where ?'a = nat] by (auto simp: word_le_nat_alt unat_u32_max word_unat_eq_iff)

lemma saturating_add_ge: "c \<le> saturating_add c 1"
  using saturating_add_one_less[of c] by (cases "c = u32_max") (simp_all add: saturating_add_def unat_u32_max order_less_imp_le)

lemma patches_visited: "range (\<lambda>n. bump Patch n (SemVer a b c)) = SemVer a b ` {c..}"
proof
  have "bump Patch n (SemVer a b c) \<in> SemVer a b ` {c..}" for n
    by (induction n) (auto intro: order_trans[OF _ saturating_add_ge])
  then show "range (\<lambda>n. bump Patch n (SemVer a b c)) \<subseteq> SemVer a b ` {c..}" by blast
  show "SemVer a b ` {c..} \<subseteq> range (\<lambda>n. bump Patch n (SemVer a b c))"
  proof clarify
    fix p assume "c \<le> p"
    then have le: "unat c \<le> unat p" by (simp add: word_le_nat_alt)
    define n where "n = unat p - unat c"
    have "unat c + n < 2 ^ 32" using le unsigned_less[of p] by (simp add: n_def)
    moreover have "c + word_of_nat n = p" using le by (simp add: n_def of_nat_diff)
    ultimately have "bump Patch n (SemVer a b c) = SemVer a b p" using increment_funpow_patch[of "SemVer a b c" n] by simp
    then show "SemVer a b p \<in> range (\<lambda>n. bump Patch n (SemVer a b c))" by (metis rangeI)
  qed
qed

lemma minors_visited: "range (\<lambda>n. bump Minor n (SemVer a b 0)) = (\<lambda>m. SemVer a m 0) ` {b..}"
proof
  have "bump Minor n (SemVer a b 0) \<in> (\<lambda>m. SemVer a m 0) ` {b..}" for n
    by (induction n) (auto intro: order_trans[OF _ saturating_add_ge])
  then show "range (\<lambda>n. bump Minor n (SemVer a b 0)) \<subseteq> (\<lambda>m. SemVer a m 0) ` {b..}" by blast
  show "(\<lambda>m. SemVer a m 0) ` {b..} \<subseteq> range (\<lambda>n. bump Minor n (SemVer a b 0))"
  proof clarify
    fix m assume "b \<le> m"
    then have le: "unat b \<le> unat m" by (simp add: word_le_nat_alt)
    define n where "n = unat m - unat b"
    have "unat b + n < 2 ^ 32" using le unsigned_less[of m] by (simp add: n_def)
    moreover have "b + word_of_nat n = m" using le by (simp add: n_def of_nat_diff)
    ultimately have "bump Minor n (SemVer a b 0) = SemVer a m 0" using increment_funpow_minor[of "SemVer a b 0" n] by simp
    then show "SemVer a m 0 \<in> range (\<lambda>n. bump Minor n (SemVer a b 0))" by (metis rangeI)
  qed
qed

text \<open>
  C35: the search for a free number does not return exactly when every number it can still
  reach is taken: the patches from the candidate's up to \<open>u32::MAX\<close>, or the minors with patch
  zero after the version's (after \<open>u32::MAX\<close>, that one again). For a search that starts at the
  last number this is one entry of the line: with \<open>x.y.4294967295\<close> taken the search from there
  never ends. One that starts earlier and meets a free number returns it.
\<close>

theorem propose_free_diverges:
  "(propose_free line (SemVer a b c) = None \<longleftrightarrow> (\<forall>p \<ge> c. SemVer a b p \<in> v_version ` set line)) \<and>
   (propose_free_minor line (SemVer a b c) = None \<longleftrightarrow> (\<forall>m \<ge> saturating_add b 1. SemVer a m 0 \<in> v_version ` set line)) \<and>
   (propose_free line (SemVer a b u32_max) = None \<longleftrightarrow> SemVer a b u32_max \<in> v_version ` set line) \<and>
   (propose_free_minor line (SemVer a u32_max c) = None \<longleftrightarrow> SemVer a u32_max 0 \<in> v_version ` set line)"
proof -
  have reach: "(\<forall>n. f n \<in> L) \<longleftrightarrow> range f \<subseteq> L" for f :: "nat \<Rightarrow> semver" and L by blast
  have patches: "propose_free line (SemVer a b c) = None \<longleftrightarrow> (\<forall>p \<ge> c. SemVer a b p \<in> v_version ` set line)" for c
    unfolding propose_free_def bump_until_free_None reach patches_visited by auto
  have minors: "propose_free_minor line (SemVer a b c) = None \<longleftrightarrow> (\<forall>m \<ge> saturating_add b 1. SemVer a m 0 \<in> v_version ` set line)" for b
    unfolding propose_free_minor_def increment.simps bump_until_free_None reach minors_visited by auto
  have "saturating_add u32_max 1 = u32_max" by (simp add: saturating_add_def unat_u32_max)
  with patches[of c] patches[of u32_max] minors[of b] minors[of u32_max] show ?thesis by (simp add: u32_max_top)
qed

theorem propose_free_diverges_witness:
  "propose_free [example_entry (SemVer 1 0 u32_max)] (SemVer 1 0 u32_max) = None \<and>
   propose_free [example_entry (SemVer 1 0 u32_max)] (SemVer 1 0 0) \<noteq> None"
proof -
  have "u32_max \<noteq> 0" by (simp add: u32_max_def)
  then have "\<not> (\<forall>p \<ge> 0. SemVer 1 0 p \<in> v_version ` set [example_entry (SemVer 1 0 u32_max)])"
    by (auto simp: example_entry_def intro!: exI[of _ 0])
  moreover have "SemVer 1 0 u32_max \<in> v_version ` set [example_entry (SemVer 1 0 u32_max)]" by (simp add: example_entry_def)
  ultimately show ?thesis using propose_free_diverges[of "[example_entry (SemVer 1 0 u32_max)]" 1 0 0] by blast
qed

section \<open>The endpoint diff\<close>

text \<open>
  The reference: with distinct keys on both sides, the counts are those of the
  new keys, of the common keys whose endpoint differs and of the lost keys.
\<close>

lemma fold_update_distinct:
  "distinct (map record_key (map snd m @ old)) \<Longrightarrow> \<forall>(k, e) \<in> set m. k = record_key e \<Longrightarrow>
   foldl (\<lambda>m e. AList.update (record_key e) e m) m old = m @ map (\<lambda>e. (record_key e, e)) old"
proof (induction old arbitrary: m)
  case (Cons e old)
  have "record_key e \<notin> fst ` set m"
  proof
    assume "record_key e \<in> fst ` set m"
    then obtain k x where x: "(k, x) \<in> set m" "record_key e = k" by auto
    then have "record_key e = record_key x" using Cons.prems(2) by blast
    with Cons.prems(1) x(1) show False by force
  qed
  then have "AList.update (record_key e) e m = m @ [(record_key e, e)]"
    by (induction m) auto
  then have "foldl (\<lambda>m e. AList.update (record_key e) e m) m (e # old) =
      foldl (\<lambda>m e. AList.update (record_key e) e m) (m @ [(record_key e, e)]) old" by simp
  also have "\<dots> = (m @ [(record_key e, e)]) @ map (\<lambda>e. (record_key e, e)) old"
    by (rule Cons.IH) (use Cons.prems in auto)
  finally show ?case by simp
qed simp

lemma delete_keyed:
  "AList.delete k (map (\<lambda>e. (record_key e, e)) old) =
   map (\<lambda>e. (record_key e, e)) (filter (\<lambda>e. record_key e \<noteq> k) old)"
  by (induction old) (auto simp: AList.delete_eq)

lemma map_of_keyed:
  "map_of (map (\<lambda>e. (record_key e, e)) old) k = find (\<lambda>e. record_key e = k) old"
  by (induction old) auto

definition diff_spec ::
    "('a) endpoint_record_scheme list \<Rightarrow> endpoint_spec list \<Rightarrow> provide_changes" where
  "diff_spec old new =
     \<lparr>inserts = length (filter (\<lambda>n. \<forall>o' \<in> set old. record_key o' \<noteq> endpoint_key n) new),
      updates = length (filter (\<lambda>n. \<exists>o' \<in> set old. record_key o' = endpoint_key n \<and> endpoint_differs o' n) new),
      deletes = length (filter (\<lambda>o'. \<forall>n \<in> set new. endpoint_key n \<noteq> record_key o') old)\<rparr>"

lemma diff_against_keyed:
  "distinct (map record_key old) \<Longrightarrow> distinct (map endpoint_key new) \<Longrightarrow>
   diff_against (map (\<lambda>e. (record_key e, e)) old) new = diff_spec old new"
proof (induction new arbitrary: old)
  case Nil
  then show ?case by (simp add: diff_spec_def)
next
  case (Cons n new)
  let ?k = "endpoint_key n"
  let ?old = "filter (\<lambda>e. record_key e \<noteq> ?k) old"
  have fresh: "?k \<notin> endpoint_key ` set new" and dn: "distinct (map endpoint_key new)"
    using Cons.prems by auto
  have "distinct (map record_key ?old)" using Cons.prems by (simp add: distinct_map_filter_mono)
  from Cons.IH[OF this dn]
  have IH: "diff_against (AList.delete ?k (map (\<lambda>e. (record_key e, e)) old)) new = diff_spec ?old new"
    by (simp add: delete_keyed)
  have ins: "filter (\<lambda>n. \<forall>o' \<in> set ?old. record_key o' \<noteq> endpoint_key n) new =
      filter (\<lambda>n. \<forall>o' \<in> set old. record_key o' \<noteq> endpoint_key n) new"
    using fresh by (intro filter_cong) auto
  have upd: "filter (\<lambda>n. \<exists>o' \<in> set ?old. record_key o' = endpoint_key n \<and> endpoint_differs o' n) new =
      filter (\<lambda>n. \<exists>o' \<in> set old. record_key o' = endpoint_key n \<and> endpoint_differs o' n) new"
    using fresh by (intro filter_cong) auto
  have del: "filter (\<lambda>o'. \<forall>n \<in> set new. endpoint_key n \<noteq> record_key o') ?old =
      filter (\<lambda>o'. \<forall>m \<in> set (n # new). endpoint_key m \<noteq> record_key o') old"
    by (auto intro: filter_cong)
  let ?P = "\<lambda>n. \<forall>o' \<in> set old. record_key o' \<noteq> endpoint_key n"
  let ?Q = "\<lambda>n. \<exists>o' \<in> set old. record_key o' = endpoint_key n \<and> endpoint_differs o' n"
  let ?D = "length (filter (\<lambda>o'. \<forall>m \<in> set (n # new). endpoint_key m \<noteq> record_key o') old)"
  have rest: "diff_spec ?old new =
      \<lparr>inserts = length (filter ?P new), updates = length (filter ?Q new), deletes = ?D\<rparr>"
    unfolding diff_spec_def ins upd del ..
  have all: "diff_spec old (n # new) =
      \<lparr>inserts = length (filter ?P (n # new)), updates = length (filter ?Q (n # new)), deletes = ?D\<rparr>"
    unfolding diff_spec_def ..
  show ?case
  proof (cases "find (\<lambda>e. record_key e = ?k) old")
    case None
    then have "?P n" "\<not> ?Q n" by (auto simp: find_None_not)
    then show ?thesis
      unfolding diff_against.simps Let_def map_of_keyed None IH rest all filter.simps by simp
  next
    case (Some x)
    then have x: "x \<in> set old" "record_key x = ?k" by (auto dest: find_Some_in)
    have "o' = x" if "o' \<in> set old" "record_key o' = ?k" for o'
      using that x Cons.prems(1) by (auto simp: distinct_map inj_on_def)
    then have "?Q n = endpoint_differs x n" using x by blast
    moreover have "\<not> ?P n" using x by blast
    ultimately show ?thesis
      unfolding diff_against.simps Let_def map_of_keyed Some IH rest all filter.simps by simp
  qed
qed

text \<open>
  the \<open>changes\<close> counts of a Provide are the numbers of endpoints added, changed in text,
  path spelling or deprecation, and dropped, when neither side has two endpoints of one key.
\<close>

lemma diff_endpoints_counts:
  assumes "distinct (map record_key old)" and "distinct (map endpoint_key new)"
  shows "diff_endpoints old new = diff_spec old new"
  using diff_against_keyed[OF assms] fold_update_distinct[of "[]" old] assms(1)
  by (simp add: diff_endpoints_def)

section \<open>The GA entry a release is compared with\<close>

lemma max_by_version_None: "max_by_version vs = None \<longleftrightarrow> vs = []"
  by (cases vs) (auto split: option.split)

lemma max_by_version_Some:
  "max_by_version vs = Some m \<Longrightarrow> m \<in> set vs \<and> (\<forall>v \<in> set vs. v_version v \<le> v_version m)"
proof (induction vs arbitrary: m)
  case (Cons v vs)
  show ?case
  proof (cases "max_by_version vs")
    case None
    with Cons.prems show ?thesis by (simp add: max_by_version_None)
  next
    case (Some x)
    with Cons.IH[OF Some] Cons.prems show ?thesis
      by (auto split: if_splits intro: order.trans order.strict_implies_order)
  qed
qed simp

text \<open>
  the baseline of a release is the highest GA entry of the line strictly below it, and
  there is none exactly when the line has no such entry.
\<close>

lemma ga_baseline_highest:
  "(ga_baseline line below = None \<longleftrightarrow> (\<forall>v \<in> set line. \<not> (v_stability v = Ga \<and> v_version v < below))) \<and>
   (\<forall>b. ga_baseline line below = Some b \<longrightarrow>
      b \<in> set line \<and> v_stability b = Ga \<and> v_version b < below \<and>
      (\<forall>v \<in> set line. v_stability v = Ga \<and> v_version v < below \<longrightarrow> v_version v \<le> v_version b))"
  by (auto simp: ga_baseline_def max_by_version_None filter_empty_conv dest!: max_by_version_Some)

end
