(* ===== verification/Store.thy ===== *)
theory Store
  imports Version_Rules
begin

text \<open>
  The repository's state and its catalogue operations:
  \<open>src/src/infrastructure/sqlite_repository.rs\<close> over the tables of
  \<open>infrastructure/migrations/sqlite\<close>. A table is the list of its rows in
  insertion order, an AUTOINCREMENT key has its counter. A read is a function
  of the state; a write answers the new state, or an error with the state as
  it was (the statement or transaction is rolled back). A statement that reads
  the clock takes the stamp as an argument. Failures of the driver and the
  disk are not modelled; violations of a unique index or a foreign key that a
  request can cause are.
\<close>

section \<open>Rows\<close>

record spec_version_row = spec_version_meta +
  v_content :: string

record endpoint_row = endpoint_record +
  e_spec_version_id :: row_id

record dependency_row =
  dep_client_id :: row_id
  dep_spec_version_id :: row_id
  dep_api_type :: api_type
  dep_path :: string
  dep_normalized_path :: string
  dep_method :: string
  dep_last_seen_at :: stamp

text \<open>Append-only history: a row is current while \<open>valid_to\<close> is \<open>NULL\<close>.\<close>

record temporal =
  valid_from :: stamp
  valid_to :: "stamp option"

record pin_row = temporal +
  k_client_id :: row_id
  k_client_name :: string
  k_service_id :: row_id
  k_service_name :: string
  k_api_type :: api_type
  k_path :: string
  k_normalized_path :: string
  k_method :: string
  k_version :: semver
  k_last_required_at :: stamp

record branch_pin_row = pin_row +
  k_branch_id :: row_id

record member_row = temporal +
  mv_service_id :: row_id
  mv_service_name :: string
  mv_api_type :: api_type
  mv_version :: semver

record trunk_member_row = member_row +
  mv_last_provided_at :: stamp

record branch_member_row = member_row +
  mv_branch_id :: row_id

record harvest_row = temporal +
  hv_client_id :: row_id
  hv_client_name :: string
  hv_channel :: string
  hv_message_name :: string
  hv_owner_service_id :: "row_id option"
  hv_owner_name :: "string option"
  hv_trunk :: bool

datatype periphery_track = DevTrack | TrunkTrack | BranchTrack row_id

record periphery_row = temporal +
  pe_track :: periphery_track
  pe_system :: string
  pe_resource :: string

record outbox_event =
  oe_id :: string
  oe_type :: webhook_event_type
  oe_producer :: "string option"
  oe_occurred_at :: stamp
  oe_data :: event_data

record audit_row =
  au_username :: string
  au_action :: string
  au_details :: message
  au_service :: "string option"
  au_version :: "string option"
  au_action_type :: "string option"

text \<open>The columns of a service row an administrator or a catalogue push sets.\<close>

record service_meta =
  sm_icon :: "string option"
  sm_domain :: "string option"
  sm_external :: bool

record db =
  services :: "(row_id \<times> string) list"
  next_service :: row_id
  service_tags :: "(row_id \<times> string) list"
  clients :: "(row_id \<times> string) list"
  next_client :: row_id
  spec_versions :: "spec_version_row list"
  next_spec_version :: row_id
  endpoints :: "endpoint_row list"
  next_endpoint :: row_id
  origins :: "(row_id \<times> version_origin) list"
  dependencies :: "dependency_row list"
  contracts :: "channel_message_contract list"
  branches :: "branch_info list"
  next_branch :: row_id
  trunk_deps :: "pin_row list"
  branch_deps :: "branch_pin_row list"
  trunk_members :: "trunk_member_row list"
  branch_members :: "branch_member_row list"
  harvested :: "harvest_row list"
  periphery :: "periphery_row list"
  webhooks :: "webhook list"
  next_webhook :: row_id
  outbox :: "outbox_event list"
  deliveries :: "webhook_delivery list"
  next_delivery :: row_id
  audit_log :: "audit_row list"
  settings :: "(string \<times> string) list"
  service_metas :: "(row_id \<times> service_meta) list"
  system_contexts :: "(string \<times> system_context) list"
  user_favorites :: "(nat \<times> string \<times> string) list"

definition empty_db :: db where
  "empty_db =
     \<lparr>services = [], next_service = 1, service_tags = [], clients = [], next_client = 1,
      spec_versions = [], next_spec_version = 1, endpoints = [], next_endpoint = 1, origins = [],
      dependencies = [], contracts = [], branches = [], next_branch = 1, trunk_deps = [],
      branch_deps = [], trunk_members = [], branch_members = [], harvested = [], periphery = [],
      webhooks = [], next_webhook = 1, outbox = [], deliveries = [], next_delivery = 1,
      audit_log = [], settings = [], service_metas = [], system_contexts = [], user_favorites = []\<rparr>"

section \<open>Producers and Consumers\<close>

definition find_service :: "db \<Rightarrow> string \<Rightarrow> row_id option" where
  "find_service db nm = map_option fst (find (\<lambda>s. snd s = nm) (services db))"

definition get_service_name_by_id :: "db \<Rightarrow> row_id \<Rightarrow> string option" where
  "get_service_name_by_id db sid = map_option snd (find (\<lambda>s. fst s = sid) (services db))"

definition ensure_service :: "string \<Rightarrow> db \<Rightarrow> row_id \<times> db" where
  "ensure_service nm db =
     (case find_service db nm of
        Some sid \<Rightarrow> (sid, db)
      | None \<Rightarrow> (next_service db,
          db\<lparr>services := services db @ [(next_service db, nm)], next_service := Suc (next_service db)\<rparr>))"

definition find_client :: "db \<Rightarrow> string \<Rightarrow> row_id option" where
  "find_client db nm = map_option fst (find (\<lambda>c. snd c = nm) (clients db))"

definition get_client_name :: "db \<Rightarrow> row_id \<Rightarrow> string option" where
  "get_client_name db cid = map_option snd (find (\<lambda>c. fst c = cid) (clients db))"

definition ensure_client :: "string \<Rightarrow> db \<Rightarrow> row_id \<times> db" where
  "ensure_client nm db =
     (case find_client db nm of
        Some cid \<Rightarrow> (cid, db)
      | None \<Rightarrow> (next_client db,
          db\<lparr>clients := clients db @ [(next_client db, nm)], next_client := Suc (next_client db)\<rparr>))"

definition add_service_tags :: "row_id \<Rightarrow> string list \<Rightarrow> db \<Rightarrow> db" where
  "add_service_tags sid tags db =
     db\<lparr>service_tags := foldl (\<lambda>t tag. if (sid, tag) \<in> set t then t else t @ [(sid, tag)])
                          (service_tags db) tags\<rparr>"

definition remove_service_tag :: "row_id \<Rightarrow> string \<Rightarrow> db \<Rightarrow> db" where
  "remove_service_tag sid tag db =
     db\<lparr>service_tags := delete_where (\<lambda>x. x = (sid, tag)) (service_tags db)\<rparr>"

section \<open>Version lines\<close>

definition version_key :: "('a) spec_version_meta_scheme \<Rightarrow> row_id \<times> api_type \<times> semver" where
  "version_key v = (v_service_id v, v_api_type v, v_version v)"

definition find_version_row :: "db \<Rightarrow> row_id \<Rightarrow> api_type \<Rightarrow> semver \<Rightarrow> spec_version_row option" where
  "find_version_row db sid t v = find (\<lambda>r. version_key r = (sid, t, v)) (spec_versions db)"

definition find_spec_version :: "db \<Rightarrow> row_id \<Rightarrow> api_type \<Rightarrow> semver \<Rightarrow> spec_version_meta option" where
  "find_spec_version db sid t v = map_option spec_version_meta.truncate (find_version_row db sid t v)"

definition list_spec_versions :: "db \<Rightarrow> row_id \<Rightarrow> spec_version_meta list" where
  "list_spec_versions db sid =
     sort_key (\<lambda>v. (api_type_as_str (v_api_type v), v_version v))
       (map spec_version_meta.truncate (filter (\<lambda>v. v_service_id v = sid) (spec_versions db)))"

definition endpoint_count :: "db \<Rightarrow> row_id \<Rightarrow> nat" where
  "endpoint_count db vid = length (filter (\<lambda>e. e_spec_version_id e = vid) (endpoints db))"

definition list_all_spec_versions :: "db \<Rightarrow> (string \<times> spec_version_meta \<times> nat) list" where
  "list_all_spec_versions db =
     sort_key (\<lambda>(nm, v, n). (nm, api_type_as_str (v_api_type v), v_version v))
       (List.map_filter (\<lambda>v. map_option (\<lambda>nm. (nm, spec_version_meta.truncate v, endpoint_count db (v_id v)))
            (get_service_name_by_id db (v_service_id v))) (spec_versions db))"

definition get_spec_content :: "db \<Rightarrow> row_id \<Rightarrow> string option" where
  "get_spec_content db vid = map_option v_content (find (\<lambda>v. v_id v = vid) (spec_versions db))"

definition get_endpoints_for_version :: "db \<Rightarrow> row_id \<Rightarrow> endpoint_record list" where
  "get_endpoints_for_version db vid =
     map endpoint_record.truncate (filter (\<lambda>e. e_spec_version_id e = vid) (endpoints db))"

definition find_endpoint ::
    "db \<Rightarrow> row_id \<Rightarrow> api_type \<Rightarrow> string \<Rightarrow> string \<Rightarrow> endpoint_row option" where
  "find_endpoint db vid t path meth =
     find (\<lambda>e. e_spec_version_id e = vid \<and> e_api_type e = t \<and>
               e_normalized_path e = lookup_path t path \<and> e_method e = meth) (endpoints db)"

text \<open>
  The bulk lookup keys its answer by what the caller asked for; of several
  stored rows with one key the last read wins.
\<close>

definition find_endpoints_bulk ::
    "db \<Rightarrow> row_id \<Rightarrow> api_type \<Rightarrow> (string \<times> string) list \<Rightarrow> (string \<times> string \<rightharpoonup> endpoint_row)" where
  "find_endpoints_bulk db vid t wanted = (\<lambda>(path, meth).
     if (path, meth) \<in> set wanted then
       find (\<lambda>e. e_spec_version_id e = vid \<and> e_api_type e = t \<and>
                 e_normalized_path e = lookup_path t path \<and> e_method e = meth) (rev (endpoints db))
     else None)"

section \<open>The outbox\<close>

definition insert_delivery :: "outbox_event \<Rightarrow> row_id \<Rightarrow> db \<Rightarrow> db" where
  "insert_delivery ev hid db =
     db\<lparr>deliveries := deliveries db @
          [\<lparr>d_id = next_delivery db, d_hook_id = hid, d_event_id = oe_id ev, d_status = Pending,
            d_attempts = 0, d_next_attempt_at = oe_occurred_at ev, d_last_response_code = None,
            d_last_error = None, d_delivered_at = None, d_redelivered_at = None,
            d_updated_at = oe_occurred_at ev\<rparr>],
        next_delivery := Suc (next_delivery db)\<rparr>"

definition event_row :: "new_webhook_event \<Rightarrow> outbox_event" where
  "event_row ev = \<lparr>oe_id = ev_id ev, oe_type = ev_type ev, oe_producer = ev_producer ev,
                   oe_occurred_at = ev_occurred_at ev, oe_data = ev_data ev\<rparr>"

definition write_event :: "new_webhook_event \<Rightarrow> db \<Rightarrow> db" where
  "write_event ev db =
     foldl (\<lambda>d hid. insert_delivery (event_row ev) hid d) (db\<lparr>outbox := outbox db @ [event_row ev]\<rparr>)
       (ev_hook_ids ev)"

definition write_outbox :: "new_webhook_event list \<Rightarrow> db \<Rightarrow> db" where
  "write_outbox evs db = foldl (\<lambda>d ev. write_event ev d) db evs"

definition insert_webhook_events :: "new_webhook_event list \<Rightarrow> db \<Rightarrow> db" where
  "insert_webhook_events evs db = (if evs = [] then db else write_outbox evs db)"

section \<open>Writing a version\<close>

record upsert_params =
  up_service_id :: row_id
  up_api_type :: api_type
  up_version :: semver
  up_stability :: stability
  up_content :: string
  up_content_hash :: string
  up_provided_by :: string
  up_expected_prior_hash :: "string option"
  up_now :: stamp
  up_endpoints :: "endpoint_record list"
  up_outbox :: "new_webhook_event list"

definition up_key :: "upsert_params \<Rightarrow> row_id \<times> api_type \<times> semver" where
  "up_key p = (up_service_id p, up_api_type p, up_version p)"

definition overwrite :: "upsert_params \<Rightarrow> spec_version_row \<Rightarrow> spec_version_row" where
  "overwrite p r = r\<lparr>v_stability := up_stability p, v_content := up_content p,
     v_content_hash := up_content_hash p, v_provided_by := up_provided_by p, v_updated_at := up_now p\<rparr>"

definition fresh_row :: "upsert_params \<Rightarrow> row_id \<Rightarrow> spec_version_row" where
  "fresh_row p i =
     \<lparr>v_id = i, v_service_id = up_service_id p, v_api_type = up_api_type p, v_version = up_version p,
      v_stability = up_stability p, v_content_hash = up_content_hash p,
      v_provided_by = up_provided_by p, v_created_at = up_now p, v_updated_at = up_now p,
      v_last_required_at = None, v_trunk_provided_at = None, v_content = up_content p\<rparr>"

text \<open>
  The conditional UPDATE of a compare-and-set caller, or the INSERT with its
  guarded ON CONFLICT: the rows written and the id of the entry, or the
  refusal.
\<close>

definition upsert_row :: "upsert_params \<Rightarrow> db \<Rightarrow> repository_error + row_id \<times> db" where
  "upsert_row p db =
     (case find (\<lambda>r. version_key r = up_key p) (spec_versions db) of
        Some r \<Rightarrow>
          if v_stability r \<noteq> Ga \<and>
             (case up_expected_prior_hash p of None \<Rightarrow> True | Some h \<Rightarrow> v_content_hash r = h)
          then Inr (v_id r,
                 db\<lparr>spec_versions := update_where (\<lambda>x. version_key x = up_key p) (overwrite p) (spec_versions db)\<rparr>)
          else Inl RepoConflict
      | None \<Rightarrow>
          if up_expected_prior_hash p \<noteq> None then Inl RepoConflict
          else if up_service_id p \<notin> fst ` set (services db)
          then Inl (RepoInternal ''FOREIGN KEY constraint failed'')
          else Inr (next_spec_version db,
                 db\<lparr>spec_versions := spec_versions db @ [fresh_row p (next_spec_version db)],
                    next_spec_version := Suc (next_spec_version db)\<rparr>))"

definition endpoint_rows :: "row_id \<Rightarrow> row_id \<Rightarrow> endpoint_record list \<Rightarrow> endpoint_row list" where
  "endpoint_rows vid from es =
     map (\<lambda>(i, e). endpoint_record.extend (e\<lparr>e_id := Some i\<rparr>) \<lparr>e_spec_version_id = vid\<rparr>)
       (zip [from..<from + length es] es)"

definition replace_endpoints :: "row_id \<Rightarrow> endpoint_record list \<Rightarrow> db \<Rightarrow> db" where
  "replace_endpoints vid es db =
     db\<lparr>endpoints := delete_where (\<lambda>e. e_spec_version_id e = vid) (endpoints db) @
          endpoint_rows vid (next_endpoint db) es,
        next_endpoint := next_endpoint db + length es\<rparr>"

definition upsert_spec_version :: "upsert_params \<Rightarrow> db \<Rightarrow> repository_error + row_id \<times> db" where
  "upsert_spec_version p db =
     and_then (upsert_row p db) (\<lambda>(vid, db1).
     if \<not> distinct (map (\<lambda>e. (e_api_type e, e_path e, e_method e)) (up_endpoints p))
     then Inl (RepoInternal ''UNIQUE constraint failed: endpoints'')
     else Inr (vid, write_outbox (up_outbox p) (replace_endpoints vid (up_endpoints p) db1)))"

definition rewrite_spec_text :: "row_id \<Rightarrow> string \<Rightarrow> string \<Rightarrow> (row_id \<times> string) list \<Rightarrow> db \<Rightarrow> db" where
  "rewrite_spec_text vid content hash texts db =
     (let db1 = db\<lparr>spec_versions := update_where (\<lambda>r. v_id r = vid)
                     (\<lambda>r. r\<lparr>v_content := content, v_content_hash := hash\<rparr>) (spec_versions db)\<rparr>
      in foldl (\<lambda>d (eid, text).
           d\<lparr>endpoints := update_where (\<lambda>e. e_id e = Some eid \<and> e_spec_version_id e = vid)
               (e_yaml_content_update (\<lambda>_. text)) (endpoints d)\<rparr>) db1 texts)"

definition touch_spec_version_required :: "row_id \<Rightarrow> stamp \<Rightarrow> db \<Rightarrow> db" where
  "touch_spec_version_required vid now db =
     db\<lparr>spec_versions := update_where (\<lambda>r. v_id r = vid)
          (v_last_required_at_update (\<lambda>_. Some now)) (spec_versions db)\<rparr>"

definition touch_spec_version_provided :: "row_id \<Rightarrow> stamp \<Rightarrow> db \<Rightarrow> db" where
  "touch_spec_version_provided vid now db =
     db\<lparr>spec_versions := update_where (\<lambda>r. v_id r = vid)
          (v_updated_at_update (\<lambda>_. now)) (spec_versions db)\<rparr>"

definition set_version_origin :: "row_id \<Rightarrow> version_origin \<Rightarrow> db \<Rightarrow> db" where
  "set_version_origin vid o' db =
     (let others = delete_where (\<lambda>x. fst x = vid) (origins db) in
      if origin_is_empty o' then db\<lparr>origins := others\<rparr>
      else db\<lparr>origins := others @ [(vid, o')]\<rparr>)"

definition get_version_origin :: "db \<Rightarrow> row_id \<Rightarrow> version_origin option" where
  "get_version_origin db vid = map_of (origins db) vid"

section \<open>The dev graph\<close>

definition dep_key :: "dependency_row \<Rightarrow> row_id \<times> row_id \<times> api_type \<times> string \<times> string" where
  "dep_key d = (dep_client_id d, dep_spec_version_id d, dep_api_type d, dep_path d, dep_method d)"

definition upsert_dependency :: "stamp \<Rightarrow> dependency_row list \<Rightarrow> dependency_row \<Rightarrow> dependency_row list" where
  "upsert_dependency now ds d =
     (if exists_row (\<lambda>x. dep_key x = dep_key d) ds
      then update_where (\<lambda>x. dep_key x = dep_key d) (dep_last_seen_at_update (\<lambda>_. now)) ds
      else ds @ [d\<lparr>dep_last_seen_at := now\<rparr>])"

definition record_dependencies_bulk ::
    "dependency_row list \<Rightarrow> new_webhook_event list \<Rightarrow> stamp \<Rightarrow> db \<Rightarrow> db" where
  "record_dependencies_bulk deps evs now db =
     (if deps = [] then insert_webhook_events evs db
      else write_outbox evs (db\<lparr>dependencies := foldl (upsert_dependency now) (dependencies db) deps\<rparr>))"

definition find_version_by_id :: "db \<Rightarrow> row_id \<Rightarrow> spec_version_row option" where
  "find_version_by_id db vid = find (\<lambda>v. v_id v = vid) (spec_versions db)"

record consumer_endpoint_info =
  ce_api_type :: api_type
  ce_service :: string
  ce_version :: semver
  ce_stability :: stability
  ce_path :: string
  ce_method :: string
  ce_yaml :: "string option"
  ce_deprecated :: bool

definition consumer_endpoint_rows :: "db \<Rightarrow> dependency_row \<Rightarrow> consumer_endpoint_info list" where
  "consumer_endpoint_rows db d =
     (case find_version_by_id db (dep_spec_version_id d) of None \<Rightarrow> []
      | Some v \<Rightarrow>
        (case get_service_name_by_id db (v_service_id v) of None \<Rightarrow> []
         | Some nm \<Rightarrow>
           (let base = (\<lambda>y dpr. \<lparr>ce_api_type = dep_api_type d, ce_service = nm, ce_version = v_version v,
                  ce_stability = v_stability v, ce_path = dep_path d, ce_method = dep_method d,
                  ce_yaml = y, ce_deprecated = dpr\<rparr>);
                hits = filter (\<lambda>e. e_spec_version_id e = v_id v \<and> e_api_type e = dep_api_type d \<and>
                  e_normalized_path e = dep_normalized_path d \<and> e_method e = dep_method d) (endpoints db)
            in if hits = [] then [base None False]
               else map (\<lambda>e. base (Some (e_yaml_content e)) (e_deprecated e)) hits)))"

definition list_consumer_endpoints :: "db \<Rightarrow> string \<Rightarrow> consumer_endpoint_info list" where
  "list_consumer_endpoints db client =
     sort_key (\<lambda>e. (ce_service e, ce_path e, ce_method e))
       (concat (map (consumer_endpoint_rows db)
         (filter (\<lambda>d. get_client_name db (dep_client_id d) = Some client) (dependencies db))))"

definition list_consumers :: "db \<Rightarrow> string list" where
  "list_consumers db =
     sort (remdups (List.map_filter (\<lambda>d. get_client_name db (dep_client_id d)) (dependencies db)))"

definition list_version_dependents :: "db \<Rightarrow> row_id \<Rightarrow> string list" where
  "list_version_dependents db vid =
     sort (remdups (List.map_filter (\<lambda>d. get_client_name db (dep_client_id d))
       (filter (\<lambda>d. dep_spec_version_id d = vid) (dependencies db))))"

definition list_current_consumers_of :: "db \<Rightarrow> row_id \<Rightarrow> string list" where
  "list_current_consumers_of db sid =
     sort (remdups
       (List.map_filter (\<lambda>d. get_client_name db (dep_client_id d))
          (filter (\<lambda>d. exists_row (\<lambda>v. v_id v = dep_spec_version_id d \<and> v_service_id v = sid) (spec_versions db))
            (dependencies db)) @
        map k_client_name (filter (\<lambda>t. k_service_id t = sid \<and> valid_to t = None) (trunk_deps db))))"

section \<open>Channel message contracts and the audit log\<close>

definition contract_key :: "channel_message_contract \<Rightarrow> string \<times> string" where
  "contract_key c = (c_channel c, c_message_name c)"

definition get_channel_message_contract :: "db \<Rightarrow> string \<Rightarrow> string \<Rightarrow> channel_message_contract option" where
  "get_channel_message_contract db ch m = find (\<lambda>c. contract_key c = (ch, m)) (contracts db)"

definition upsert_channel_message_contract :: "channel_message_contract \<Rightarrow> db \<Rightarrow> db" where
  "upsert_channel_message_contract c db =
     (if exists_row (\<lambda>x. contract_key x = contract_key c) (contracts db)
      then db\<lparr>contracts := update_where (\<lambda>x. contract_key x = contract_key c)
             (\<lambda>x. x\<lparr>c_owner_service_id := c_owner_service_id c, c_payload_yaml := c_payload_yaml c\<rparr>) (contracts db)\<rparr>
      else db\<lparr>contracts := contracts db @ [c]\<rparr>)"

definition delete_channel_message_contract :: "string \<Rightarrow> string \<Rightarrow> db \<Rightarrow> db" where
  "delete_channel_message_contract ch m db =
     db\<lparr>contracts := delete_where (\<lambda>x. contract_key x = (ch, m)) (contracts db)\<rparr>"

definition list_channel_message_contracts :: "db \<Rightarrow> channel_message_contract list" where
  "list_channel_message_contracts db = sort_key contract_key (contracts db)"

definition insert_audit_log :: "audit_row \<Rightarrow> db \<Rightarrow> db" where
  "insert_audit_log a db = db\<lparr>audit_log := audit_log db @ [a]\<rparr>"

section \<open>Interface: a store of version lines\<close>

text \<open>
  What the services rely on: a write is refused on a number that is GA, and
  otherwise it sets that number and nothing else.
\<close>

locale version_store =
  fixes lookup :: "'s \<Rightarrow> 'k \<Rightarrow> (stability \<times> 'c) option"
    and put :: "'p \<Rightarrow> 's \<Rightarrow> 's option"
    and key_of :: "'p \<Rightarrow> 'k"
    and entry_of :: "'p \<Rightarrow> stability \<times> 'c"
    and wf :: "'s \<Rightarrow> bool"
  assumes put_wf: "wf s \<Longrightarrow> put p s = Some s' \<Longrightarrow> wf s'"
    and put_ga: "wf s \<Longrightarrow> lookup s (key_of p) = Some (Ga, c) \<Longrightarrow> put p s = None"
    and lookup_put: "wf s \<Longrightarrow> put p s = Some s' \<Longrightarrow> lookup s' = (lookup s)(key_of p \<mapsto> entry_of p)"
begin

lemma ga_kept:
  assumes "wf s" and "put p s = Some s'" and "lookup s k = Some (Ga, c)"
  shows "lookup s' k = Some (Ga, c)"
proof (cases "k = key_of p")
  case True
  with assms put_ga show ?thesis by fastforce
next
  case False
  with assms show ?thesis by (simp add: lookup_put)
qed

text \<open>A sequence of writes, refused ones skipped.\<close>

definition put_all :: "'p list \<Rightarrow> 's \<Rightarrow> 's" where
  "put_all ps s = foldl (\<lambda>s p. case put p s of None \<Rightarrow> s | Some s' \<Rightarrow> s') s ps"

lemma put_all_ga:
  "wf s \<Longrightarrow> lookup s k = Some (Ga, c) \<Longrightarrow> lookup (put_all ps s) k = Some (Ga, c)"
proof (induction ps arbitrary: s)
  case (Cons p ps)
  then show ?case
    by (cases "put p s") (auto simp: put_all_def dest: put_wf ga_kept)
qed (simp add: put_all_def)

end

section \<open>Invariants of the catalogue\<close>

definition ids_ok :: "row_id \<Rightarrow> (row_id \<times> string) list \<Rightarrow> bool" where
  "ids_ok nxt rs \<longleftrightarrow> distinct (map fst rs) \<and> distinct (map snd rs) \<and> (\<forall>r \<in> set rs. 0 < fst r \<and> fst r < nxt) \<and> 0 < nxt"

definition versions_ok :: "db \<Rightarrow> bool" where
  "versions_ok db \<longleftrightarrow>
     distinct (map version_key (spec_versions db)) \<and> distinct (map v_id (spec_versions db)) \<and>
     (\<forall>v \<in> set (spec_versions db). v_id v < next_spec_version db \<and> v_service_id v \<in> fst ` set (services db))"

definition catalog_inv :: "db \<Rightarrow> bool" where
  "catalog_inv db \<longleftrightarrow> ids_ok (next_service db) (services db) \<and> ids_ok (next_client db) (clients db) \<and> versions_ok db"

lemma find_service_Some:
  "ids_ok (next_service db) (services db) \<Longrightarrow> find_service db nm = Some sid \<longleftrightarrow> (sid, nm) \<in> set (services db)"
proof -
  assume ok: "ids_ok (next_service db) (services db)"
  have "find (\<lambda>s. snd s = nm) (services db) = Some (sid, nm)" if "(sid, nm) \<in> set (services db)"
    using that ok by (intro find_unique[of snd]) (auto simp: ids_ok_def)
  then show ?thesis by (auto simp: find_service_def dest: find_Some_in)
qed

lemma insert_deliveries_shape:
  "\<exists>d n. foldl (\<lambda>d hid. insert_delivery e hid d) x hs = x\<lparr>deliveries := d, next_delivery := n\<rparr>"
proof (induction hs arbitrary: x)
  case Nil
  show ?case by (rule exI[of _ "deliveries x"], rule exI[of _ "next_delivery x"]) simp
next
  case (Cons h hs)
  from Cons[of "insert_delivery e h x"] show ?case by (auto simp: insert_delivery_def)
qed

lemma write_outbox_shape:
  "\<exists>d n o'. write_outbox evs db = db\<lparr>outbox := o', deliveries := d, next_delivery := n\<rparr>"
  unfolding write_outbox_def
proof (induction evs arbitrary: db)
  case Nil
  show ?case by (rule exI[of _ "deliveries db"], rule exI[of _ "next_delivery db"], rule exI[of _ "outbox db"]) simp
next
  case (Cons ev evs)
  from insert_deliveries_shape[of "event_row ev" "db\<lparr>outbox := outbox db @ [event_row ev]\<rparr>" "ev_hook_ids ev"]
  obtain d n where "write_event ev db = db\<lparr>outbox := outbox db @ [event_row ev], deliveries := d, next_delivery := n\<rparr>"
    by (auto simp: write_event_def)
  with Cons[of "write_event ev db"] show ?case by auto
qed

lemma write_outbox_frame [simp]:
  "services (write_outbox evs db) = services db" "next_service (write_outbox evs db) = next_service db"
  "clients (write_outbox evs db) = clients db" "next_client (write_outbox evs db) = next_client db"
  "spec_versions (write_outbox evs db) = spec_versions db"
  "next_spec_version (write_outbox evs db) = next_spec_version db"
  "endpoints (write_outbox evs db) = endpoints db" "next_endpoint (write_outbox evs db) = next_endpoint db"
  "dependencies (write_outbox evs db) = dependencies db" "origins (write_outbox evs db) = origins db"
  "contracts (write_outbox evs db) = contracts db" "service_tags (write_outbox evs db) = service_tags db"
  "branches (write_outbox evs db) = branches db" "next_branch (write_outbox evs db) = next_branch db"
  "trunk_deps (write_outbox evs db) = trunk_deps db" "branch_deps (write_outbox evs db) = branch_deps db"
  "trunk_members (write_outbox evs db) = trunk_members db"
  "branch_members (write_outbox evs db) = branch_members db"
  "harvested (write_outbox evs db) = harvested db" "periphery (write_outbox evs db) = periphery db"
  "webhooks (write_outbox evs db) = webhooks db" "next_webhook (write_outbox evs db) = next_webhook db"
  "audit_log (write_outbox evs db) = audit_log db" "settings (write_outbox evs db) = settings db"
  "service_metas (write_outbox evs db) = service_metas db" "system_contexts (write_outbox evs db) = system_contexts db"
  "user_favorites (write_outbox evs db) = user_favorites db"
  using write_outbox_shape[of evs db] by auto

text \<open>
  The abstract view of the catalogue: each number of each line with its
  stability and document.
\<close>

definition line_abs :: "db \<Rightarrow> row_id \<times> api_type \<times> semver \<Rightarrow> (stability \<times> string) option" where
  "line_abs db k = map_option (\<lambda>r. (v_stability r, v_content r))
                     (find (\<lambda>r. version_key r = k) (spec_versions db))"

definition upsert_put :: "upsert_params \<Rightarrow> db \<Rightarrow> db option" where
  "upsert_put p db = (case upsert_spec_version p db of Inl _ \<Rightarrow> None | Inr (_, db') \<Rightarrow> Some db')"

lemma version_key_overwrite [simp]: "version_key (overwrite p r) = version_key r"
  by (simp add: overwrite_def version_key_def)

lemma overwrite_fields [simp]:
  "v_id (overwrite p r) = v_id r" "v_service_id (overwrite p r) = v_service_id r"
  "v_stability (overwrite p r) = up_stability p" "v_content (overwrite p r) = up_content p"
  "v_content_hash (overwrite p r) = up_content_hash p" "v_provided_by (overwrite p r) = up_provided_by p"
  by (simp_all add: overwrite_def)

lemma fresh_row_fields [simp]:
  "v_id (fresh_row p i) = i" "v_service_id (fresh_row p i) = up_service_id p"
  "v_stability (fresh_row p i) = up_stability p" "v_content (fresh_row p i) = up_content p"
  "v_content_hash (fresh_row p i) = up_content_hash p" "v_provided_by (fresh_row p i) = up_provided_by p"
  by (simp_all add: fresh_row_def)

abbreviation overwritten :: "upsert_params \<Rightarrow> spec_version_row list \<Rightarrow> spec_version_row list" where
  "overwritten p vs \<equiv> update_where (\<lambda>x. version_key x = up_key p) (overwrite p) vs"

lemma find_overwritten:
  "find (\<lambda>r. version_key r = k) (overwritten p vs) =
   map_option (\<lambda>r. if version_key r = up_key p then overwrite p r else r) (find (\<lambda>r. version_key r = k) vs)"
  by (rule find_update_where) simp

lemma map_overwritten:
  "map version_key (overwritten p vs) = map version_key vs" "map v_id (overwritten p vs) = map v_id vs"
  by (rule map_update_where, simp)+

lemma overwritten_in: "r \<in> set (overwritten p vs) \<Longrightarrow> \<exists>x \<in> set vs. v_id r = v_id x \<and> v_service_id r = v_service_id x"
  by (auto simp: update_where_def split: if_splits)

lemma version_key_fresh [simp]: "version_key (fresh_row p i) = up_key p"
  by (simp add: fresh_row_def version_key_def up_key_def)

lemma replace_endpoints_frame [simp]:
  "spec_versions (replace_endpoints i es db) = spec_versions db"
  "next_spec_version (replace_endpoints i es db) = next_spec_version db"
  "services (replace_endpoints i es db) = services db" "next_service (replace_endpoints i es db) = next_service db"
  "clients (replace_endpoints i es db) = clients db" "next_client (replace_endpoints i es db) = next_client db"
  by (simp_all add: replace_endpoints_def)

lemma upsert_Inr:
  assumes "upsert_spec_version p db = Inr (vid, db')"
  obtains db1 where "upsert_row p db = Inr (vid, db1)"
    and "db' = write_outbox (up_outbox p) (replace_endpoints vid (up_endpoints p) db1)"
  using assms by (auto simp: upsert_spec_version_def and_then_Inr_iff split: if_splits)

text \<open>The two shapes of a successful write.\<close>

lemma upsert_row_Inr:
  assumes "upsert_row p db = Inr (vid, db1)"
  shows "(\<exists>r. find (\<lambda>x. version_key x = up_key p) (spec_versions db) = Some r \<and> v_stability r \<noteq> Ga \<and> vid = v_id r \<and>
            db1 = db\<lparr>spec_versions := update_where (\<lambda>x. version_key x = up_key p) (overwrite p) (spec_versions db)\<rparr>) \<or>
         (find (\<lambda>x. version_key x = up_key p) (spec_versions db) = None \<and> vid = next_spec_version db \<and>
            up_expected_prior_hash p = None \<and> up_service_id p \<in> fst ` set (services db) \<and>
            db1 = db\<lparr>spec_versions := spec_versions db @ [fresh_row p vid], next_spec_version := Suc vid\<rparr>)"
  using assms by (auto simp: upsert_row_def split: option.splits if_splits)

lemma upsert_line_abs:
  assumes "upsert_spec_version p db = Inr (vid, db')"
  shows "line_abs db' = (line_abs db)(up_key p \<mapsto> (up_stability p, up_content p))"
proof -
  from assms obtain db1 where row: "upsert_row p db = Inr (vid, db1)"
    and db': "spec_versions db' = spec_versions db1" by (auto elim: upsert_Inr)
  show ?thesis
  proof
    fix k
    from upsert_row_Inr[OF row] consider
      (old) r where "find (\<lambda>x. version_key x = up_key p) (spec_versions db) = Some r"
        "spec_versions db1 = update_where (\<lambda>x. version_key x = up_key p) (overwrite p) (spec_versions db)"
    | (new) "find (\<lambda>x. version_key x = up_key p) (spec_versions db) = None"
        "spec_versions db1 = spec_versions db @ [fresh_row p vid]"
      by auto
    then show "line_abs db' k = ((line_abs db)(up_key p \<mapsto> (up_stability p, up_content p))) k"
    proof cases
      case old
      then show ?thesis
        by (cases "find (\<lambda>x. version_key x = k) (spec_versions db)")
          (auto simp: line_abs_def db' find_overwritten dest: find_Some_in)
    next
      case new
      then show ?thesis
        by (cases "find (\<lambda>x. version_key x = k) (spec_versions db)")
          (auto simp: line_abs_def db' find_append)
    qed
  qed
qed

lemma upsert_refuses_ga: "line_abs db (up_key p) = Some (Ga, c) \<Longrightarrow> upsert_spec_version p db = Inl RepoConflict"
  by (auto simp: line_abs_def upsert_spec_version_def upsert_row_def)

lemma versions_ok_upsert:
  assumes "versions_ok db" and "upsert_spec_version p db = Inr (vid, db')"
  shows "versions_ok db'"
proof -
  from assms(2) obtain db1 where row: "upsert_row p db = Inr (vid, db1)"
    and db': "db' = write_outbox (up_outbox p) (replace_endpoints vid (up_endpoints p) db1)"
    by (rule upsert_Inr)
  from upsert_row_Inr[OF row] have "versions_ok db1"
  proof (elim disjE exE conjE)
    fix r
    assume "db1 = db\<lparr>spec_versions := update_where (\<lambda>x. version_key x = up_key p) (overwrite p) (spec_versions db)\<rparr>"
    then show ?thesis using assms(1)
      by (auto simp: versions_ok_def map_overwritten simp del: map_map dest!: overwritten_in)
  next
    assume none: "find (\<lambda>x. version_key x = up_key p) (spec_versions db) = None"
      and "vid = next_spec_version db" "up_service_id p \<in> fst ` set (services db)"
      and "db1 = db\<lparr>spec_versions := spec_versions db @ [fresh_row p vid], next_spec_version := Suc vid\<rparr>"
    then show ?thesis using assms(1)
      by (auto simp: versions_ok_def find_None_not less_Suc_eq)
  qed
  then show ?thesis by (simp add: db' versions_ok_def)
qed

lemma catalog_inv_upsert:
  assumes "catalog_inv db" and "upsert_spec_version p db = Inr (vid, db')"
  shows "catalog_inv db'"
proof -
  have "services db' = services db \<and> next_service db' = next_service db \<and>
      clients db' = clients db \<and> next_client db' = next_client db"
    using assms(2) by (auto elim!: upsert_Inr dest!: upsert_row_Inr)
  with assms versions_ok_upsert[of db p vid db'] show ?thesis by (simp add: catalog_inv_def)
qed

interpretation vs: version_store line_abs upsert_put up_key "\<lambda>p. (up_stability p, up_content p)" catalog_inv
  by unfold_locales
    (auto simp: upsert_put_def upsert_refuses_ga split: sum.splits dest: catalog_inv_upsert upsert_line_abs)

end
