(* ===== verification/Permissions.thy ===== *)
theory Permissions
  imports Models
begin

text \<open>
  Who may do what: \<open>src/src/domain/permissions.rs\<close>. Permissions, the fixed
  roles that bundle them, the configured root users and the resolved caller.
\<close>

section \<open>Permissions and roles\<close>

datatype permission =
    ManageUsers | ManageRoles | ManageProducers | ManageConsumers | ViewAudit
  | ManageSettings | ManageAuthConfig | ViewObservability | RunDestructiveOperations
  | ReleaseGa

definition all_permissions :: "permission list" where
  "all_permissions =
     [ManageUsers, ManageRoles, ManageProducers, ManageConsumers, ViewAudit, ManageSettings,
      ManageAuthConfig, ViewObservability, RunDestructiveOperations, ReleaseGa]"

fun permission_as_str :: "permission \<Rightarrow> string" where
  "permission_as_str ManageUsers = ''manage_users''"
| "permission_as_str ManageRoles = ''manage_roles''"
| "permission_as_str ManageProducers = ''manage_producers''"
| "permission_as_str ManageConsumers = ''manage_consumers''"
| "permission_as_str ViewAudit = ''view_audit''"
| "permission_as_str ManageSettings = ''manage_settings''"
| "permission_as_str ManageAuthConfig = ''manage_auth_config''"
| "permission_as_str ViewObservability = ''view_observability''"
| "permission_as_str RunDestructiveOperations = ''run_destructive_operations''"
| "permission_as_str ReleaseGa = ''release_ga''"

definition permission_parse :: "string \<Rightarrow> permission option" where
  "permission_parse s = find (\<lambda>p. permission_as_str p = s) all_permissions"

datatype role = Admin | UserManager | Viewer | Maintainer | Releaser

definition all_roles :: "role list" where
  "all_roles = [Admin, UserManager, Viewer, Maintainer, Releaser]"

definition globally_grantable :: "role list" where
  "globally_grantable = [Admin, UserManager, Viewer, Releaser]"

definition admin_guarded :: "role list" where
  "admin_guarded = [Admin, Releaser]"

fun role_as_str :: "role \<Rightarrow> string" where
  "role_as_str Admin = ''admin''"
| "role_as_str UserManager = ''user_manager''"
| "role_as_str Viewer = ''viewer''"
| "role_as_str Maintainer = ''maintainer''"
| "role_as_str Releaser = ''releaser''"

definition role_parse :: "string \<Rightarrow> role option" where
  "role_parse s = find (\<lambda>r. role_as_str r = s) all_roles"

fun role_permissions :: "role \<Rightarrow> permission list" where
  "role_permissions Admin = all_permissions"
| "role_permissions UserManager = [ManageUsers, ManageRoles]"
| "role_permissions Viewer = [ViewAudit, ViewObservability]"
| "role_permissions Maintainer = [ManageProducers]"
| "role_permissions Releaser = [ReleaseGa]"

definition grants :: "role \<Rightarrow> permission \<Rightarrow> bool" where
  "grants r p \<longleftrightarrow> p \<in> set (role_permissions r)"

text \<open>The derived \<open>Ord\<close> of \<open>Role\<close>: the order of its variants.\<close>

fun role_rank :: "role \<Rightarrow> nat" where
  "role_rank Admin = 0"
| "role_rank UserManager = 1"
| "role_rank Viewer = 2"
| "role_rank Maintainer = 3"
| "role_rank Releaser = 4"

lemma role_rank_inj: "role_rank a = role_rank b \<Longrightarrow> a = b"
  by (cases a; cases b) auto

instantiation role :: linorder
begin

definition less_eq_role :: "role \<Rightarrow> role \<Rightarrow> bool" where
  "less_eq_role a b \<longleftrightarrow> role_rank a \<le> role_rank b"

definition less_role :: "role \<Rightarrow> role \<Rightarrow> bool" where
  "less_role a b \<longleftrightarrow> role_rank a < role_rank b"

instance
  by standard (auto simp: less_eq_role_def less_role_def intro: role_rank_inj)

end

section \<open>Root users and actors\<close>

definition root_resolve :: "string option \<Rightarrow> string option \<Rightarrow> string set" where
  "root_resolve configured initial_admin =
     (let explicit = filter (\<lambda>s. s \<noteq> [])
            (map trim (split_char CHR '','' (case configured of None \<Rightarrow> [] | Some s \<Rightarrow> s))) in
      if explicit \<noteq> [] then set explicit
      else {case initial_admin of
              None \<Rightarrow> ''root''
            | Some a \<Rightarrow> if trim a = [] then ''root'' else trim a})"

record actor =
  a_user_id :: row_id
  a_username :: string
  a_is_root :: bool
  a_roles :: "role list"
  a_directory_groups :: "string list"

definition has_permission :: "actor \<Rightarrow> permission \<Rightarrow> bool" where
  "has_permission a p \<longleftrightarrow> a_is_root a \<or> list_ex (\<lambda>r. grants r p) (a_roles a)"

definition effective_permissions :: "actor \<Rightarrow> permission list" where
  "effective_permissions a = filter (has_permission a) all_permissions"

definition permission_names :: "actor \<Rightarrow> string list" where
  "permission_names a = map permission_as_str (effective_permissions a)"

definition require_permission :: "actor \<Rightarrow> permission \<Rightarrow> app_error + unit" where
  "require_permission a p = (if has_permission a p then Inr () else Inl Forbidden)"

section \<open>Lemmas\<close>

lemma all_permissions_complete [simp]: "p \<in> set all_permissions"
  by (cases p) (simp_all add: all_permissions_def)

lemma all_roles_complete [simp]: "r \<in> set all_roles"
  by (cases r) (simp_all add: all_roles_def)

lemma permission_roundtrip [simp]: "permission_parse (permission_as_str p) = Some p"
  by (cases p) (simp_all add: permission_parse_def all_permissions_def)

lemma role_roundtrip [simp]: "role_parse (role_as_str r) = Some r"
  by (cases r) (simp_all add: role_parse_def all_roles_def)

lemma role_parse_Some: "role_parse s = Some r \<longleftrightarrow> s = role_as_str r"
  by (auto simp: role_parse_def dest: find_Some_in) (simp flip: role_parse_def)

lemma role_as_str_inj [simp]: "role_as_str a = role_as_str b \<longleftrightarrow> a = b"
  by (metis option.inject role_roundtrip)

lemma release_only_by_role:
  "grants r ReleaseGa \<longleftrightarrow> r = Admin \<or> r = Releaser"
  by (cases r) (simp_all add: grants_def)

text \<open>
  who may release: exactly root, an administrator and a releaser hold the permission a GA
  publication needs; and root, like an administrator, holds every permission there is.
\<close>

lemma release_permission:
  "(has_permission a ReleaseGa \<longleftrightarrow> a_is_root a \<or> Admin \<in> set (a_roles a) \<or> Releaser \<in> set (a_roles a)) \<and>
   (a_is_root a \<or> Admin \<in> set (a_roles a) \<longrightarrow> effective_permissions a = all_permissions)"
proof
  show "has_permission a ReleaseGa \<longleftrightarrow> a_is_root a \<or> Admin \<in> set (a_roles a) \<or> Releaser \<in> set (a_roles a)"
    by (auto simp: has_permission_def list_ex_iff release_only_by_role)
  have "has_permission a p" if "a_is_root a \<or> Admin \<in> set (a_roles a)" for p
    using that by (auto simp: has_permission_def list_ex_iff grants_def intro: bexI[of _ Admin])
  then show "a_is_root a \<or> Admin \<in> set (a_roles a) \<longrightarrow> effective_permissions a = all_permissions"
    by (simp add: effective_permissions_def)
qed

lemma root_resolve_nonempty: "root_resolve c i \<noteq> {} \<and> [] \<notin> root_resolve c i"
  by (auto simp: root_resolve_def Let_def filter_empty_conv split: option.splits if_splits)

end
