(* ===== verification/Webhook_Events.thy ===== *)
theory Webhook_Events
  imports Store Permissions
begin

text \<open>
  The emitting half of the webhooks: \<open>application/webhook_service.rs\<close>, with
  the hook tables of \<open>sqlite_repository.rs\<close> and the stored spellings of
  \<open>infrastructure/webhook_rows.rs\<close>. Parsing a URL (crate \<open>url\<close>), the JSON
  spelling of the allow-list (\<open>serde_json\<close>) and the digest of a secret are
  parameters, the fields of \<open>webhook_tools\<close>; the clock, the identifiers
  drawn, the random secret and the process-wide emission switch are the fields
  of \<open>env\<close> (each call of the source has its own reading).
\<close>

section \<open>The surroundings of a request\<close>

record env =
  emission_enabled :: bool
  clock :: "nat \<Rightarrow> stamp"
  uuid :: "nat \<Rightarrow> string"
  new_secret :: string

record webhook_tools =
  url_parse :: "string \<Rightarrow> (string \<times> string option) option"
  json_decode_list :: "string \<Rightarrow> string list option"
  json_encode_list :: "string list \<Rightarrow> string"
  secret_digest_hex :: "string \<Rightarrow> string"

section \<open>Globs\<close>

definition get_index :: "'a list \<Rightarrow> nat \<Rightarrow> 'a option" where
  "get_index xs i = (if i < length xs then Some (xs ! i) else None)"

abbreviation star_char :: string where "star_char \<equiv> ''*''"
abbreviation any_char :: string where "any_char \<equiv> ''?''"

text \<open>
  The two-pointer loop: \<open>p\<close> in the pattern, \<open>t\<close> in the text, and the last
  \<open>*\<close> with the text position it was tried at. \<open>None\<close> would be a loop that
  does not end.
\<close>

partial_function (option) glob_loop ::
    "string list \<Rightarrow> string list \<Rightarrow> nat \<Rightarrow> nat \<Rightarrow> (nat \<times> nat) option \<Rightarrow> bool option" where
  "glob_loop pattern ts p t star =
     (case get_index ts t of
        None \<Rightarrow> Some (list_all (\<lambda>c. c = star_char) (drop p pattern))
      | Some current \<Rightarrow>
          if get_index pattern p = Some star_char then glob_loop pattern ts (p + 1) t (Some (p, t))
          else if get_index pattern p = Some any_char \<or> get_index pattern p = Some current
          then glob_loop pattern ts (p + 1) (t + 1) star
          else (case star of
                  Some (sp, st) \<Rightarrow> glob_loop pattern ts (sp + 1) (st + 1) (Some (sp, st + 1))
                | None \<Rightarrow> Some False))"

declare glob_loop.simps [code]

definition glob_matches :: "string \<Rightarrow> string \<Rightarrow> bool" where
  "glob_matches glob nm = (glob_loop (chars glob) (chars nm) 0 0 None = Some True)"

section \<open>The egress allow-list\<close>

definition get_setting :: "db \<Rightarrow> string \<Rightarrow> string option" where
  "get_setting db k = map_option snd (find (\<lambda>s. fst s = k) (settings db))"

definition set_setting :: "string \<Rightarrow> string \<Rightarrow> db \<Rightarrow> db" where
  "set_setting k v db = db\<lparr>settings := delete_where (\<lambda>s. fst s = k) (settings db) @ [(k, v)]\<rparr>"

definition allowed_hosts_setting :: string where
  "allowed_hosts_setting = ''webhook_allowed_hosts''"

definition webhook_allowed_hosts :: "webhook_tools \<Rightarrow> db \<Rightarrow> app_error + string list" where
  "webhook_allowed_hosts W db =
     (case get_setting db allowed_hosts_setting of
        None \<Rightarrow> Inr []
      | Some raw \<Rightarrow> (case json_decode_list W raw of
            None \<Rightarrow> Inl (Internal (Text ''the stored setting is not a list'' [S allowed_hosts_setting]))
          | Some ps \<Rightarrow> Inr ps))"

definition host_pattern_char :: "char \<Rightarrow> bool" where
  "host_pattern_char c \<longleftrightarrow> is_ascii_alphanumeric c \<or> c \<in> set ''.-*?''"

definition valid_host_pattern :: "string \<Rightarrow> bool" where
  "valid_host_pattern pattern =
     (let host = (case strip_prefix ''http://'' pattern of Some h \<Rightarrow> h | None \<Rightarrow> pattern)
      in host \<noteq> [] \<and> list_all host_pattern_char host)"

fun clean_patterns :: "string list \<Rightarrow> string list \<Rightarrow> app_error + string list" where
  "clean_patterns [] cleaned = Inr cleaned"
| "clean_patterns (raw # rest) cleaned =
     (let pattern = to_lowercase (trim raw) in
      if pattern = [] then clean_patterns rest cleaned
      else if \<not> valid_host_pattern pattern then Inl (BadRequest (Text ''not a host pattern'' [S pattern]))
      else if pattern \<in> set cleaned then clean_patterns rest cleaned
      else clean_patterns rest (cleaned @ [pattern]))"

definition set_webhook_allowed_hosts ::
    "webhook_tools \<Rightarrow> string list \<Rightarrow> db \<Rightarrow> app_error + string list \<times> db" where
  "set_webhook_allowed_hosts W patterns db =
     and_then (clean_patterns patterns []) (\<lambda>cleaned.
       Inr (cleaned, set_setting allowed_hosts_setting (json_encode_list W cleaned) db))"

definition host_allowed :: "webhook_tools \<Rightarrow> string \<Rightarrow> string list \<Rightarrow> bool" where
  "host_allowed W url patterns =
     (case url_parse W url of
        None \<Rightarrow> False
      | Some (scheme, None) \<Rightarrow> False
      | Some (scheme, Some host) \<Rightarrow>
          list_ex (\<lambda>pat. case strip_prefix ''http://'' (to_lowercase pat) of
              Some plain \<Rightarrow> glob_matches plain (to_lowercase host)
            | None \<Rightarrow> scheme = ''https'' \<and> glob_matches (to_lowercase pat) (to_lowercase host)) patterns)"

definition validate_hook_url :: "webhook_tools \<Rightarrow> string \<Rightarrow> string list \<Rightarrow> bool \<Rightarrow> app_error + unit" where
  "validate_hook_url W url patterns exempt =
     (case url_parse W url of
        None \<Rightarrow> Inl (BadRequest (Text ''the hook URL is not a valid URL'' []))
      | Some (scheme, host) \<Rightarrow>
          if scheme \<notin> {''http'', ''https''} \<or> host = None
          then Inl (BadRequest (Text ''the hook URL must be an http or https URL with a host'' []))
          else if exempt then Inr ()
          else if patterns = []
          then Inl (ForbiddenWithReason (Text ''no hosts are allowed for webhooks yet'' []))
          else if \<not> host_allowed W url patterns
          then Inl (ForbiddenWithReason (Text ''the host is not in the webhook allow-list''
                 [S (case host of Some h \<Rightarrow> h | None \<Rightarrow> []), B (scheme = ''http''), S (join '', '' patterns)]))
          else Inr ())"

section \<open>Fan-out\<close>

definition list_webhooks :: "db \<Rightarrow> webhook_scope option \<Rightarrow> webhook list" where
  "list_webhooks db scope =
     sort_key h_id (filter (\<lambda>h. case scope of None \<Rightarrow> True
        | Some s \<Rightarrow> scope_kind (h_scope h) = scope_kind s \<and>
            (case scope_name (h_scope h) of None \<Rightarrow> [] | Some n \<Rightarrow> n) =
            (case scope_name s of None \<Rightarrow> [] | Some n \<Rightarrow> n)) (webhooks db))"

definition hook_wants :: "webhook \<Rightarrow> webhook_event_type \<Rightarrow> string option \<Rightarrow> string list \<Rightarrow> bool" where
  "hook_wants hook event_type producer consumers =
     (if \<not> (case h_scope hook of
               GlobalScope \<Rightarrow> True
             | ProducerScope nm \<Rightarrow> producer = Some nm
             | ConsumerScope nm \<Rightarrow> nm \<in> set consumers) then False
      else if h_event_types hook \<noteq> [] \<and> event_type \<notin> set (h_event_types hook) then False
      else case (h_producer_glob hook, producer) of
             (None, _) \<Rightarrow> True
           | (Some glob, Some nm) \<Rightarrow> glob_matches glob nm
           | (Some _, None) \<Rightarrow> False)"

record event_audience =
  au_producer :: "string option"
  au_consumers :: "string list"
  au_follow_edges :: bool

definition audience_producer :: "string \<Rightarrow> event_audience" where
  "audience_producer nm = \<lparr>au_producer = Some nm, au_consumers = [], au_follow_edges = True\<rparr>"

definition audience_global :: event_audience where
  "audience_global = \<lparr>au_producer = None, au_consumers = [], au_follow_edges = False\<rparr>"

definition audience_consumers :: "db \<Rightarrow> event_audience \<Rightarrow> string list" where
  "audience_consumers db audience =
     au_consumers audience @
     (if au_follow_edges audience then
        (case au_producer audience of None \<Rightarrow> []
         | Some nm \<Rightarrow> (case find_service db nm of None \<Rightarrow> []
             | Some sid \<Rightarrow> list_current_consumers_of db sid))
      else [])"

definition fan_out :: "env \<Rightarrow> db \<Rightarrow> webhook_event_type \<Rightarrow> event_audience \<Rightarrow> row_id list" where
  "fan_out E db event_type audience =
     (if \<not> emission_enabled E then []
      else let hooks = list_webhooks db None in
        if hooks = [] then []
        else map h_id (filter (\<lambda>h. hook_wants h event_type (au_producer audience)
               (audience_consumers db audience)) hooks))"

definition event_for ::
    "env \<Rightarrow> nat \<Rightarrow> webhook_event_type \<Rightarrow> string option \<Rightarrow> event_data \<Rightarrow> row_id list \<Rightarrow> new_webhook_event option" where
  "event_for E i event_type producer dat hook_ids =
     (if hook_ids = [] then None
      else Some \<lparr>ev_id = uuid E i, ev_type = event_type, ev_producer = producer,
                 ev_occurred_at = clock E i, ev_data = dat, ev_hook_ids = hook_ids\<rparr>)"

definition plan_event ::
    "env \<Rightarrow> nat \<Rightarrow> db \<Rightarrow> webhook_event_type \<Rightarrow> event_audience \<Rightarrow> event_data \<Rightarrow> new_webhook_event option" where
  "plan_event E i db event_type audience dat =
     event_for E i event_type (au_producer audience) dat (fan_out E db event_type audience)"

definition test_event :: "env \<Rightarrow> nat \<Rightarrow> webhook \<Rightarrow> new_webhook_event" where
  "test_event E i hook =
     \<lparr>ev_id = uuid E i, ev_type = TestEvent, ev_producer = None, ev_occurred_at = clock E i,
      ev_data = TestData (h_id hook), ev_hook_ids = [h_id hook]\<rparr>"

definition event_stream_label :: "resolved_stream \<Rightarrow> string" where
  "event_stream_label st = (case stream_label st of Some l \<Rightarrow> l | None \<Rightarrow> ''dev'')"

definition was_deprecated :: "endpoint_record list option \<Rightarrow> endpoint_record \<Rightarrow> bool" where
  "was_deprecated previous e =
     (case previous of None \<Rightarrow> False
      | Some old \<Rightarrow> list_ex (\<lambda>o'. e_api_type o' = e_api_type e \<and> e_normalized_path o' = e_normalized_path e \<and>
                                  e_method o' = e_method e \<and> e_deprecated o') old)"

definition newly_deprecated ::
    "endpoint_record list \<Rightarrow> endpoint_record list option \<Rightarrow> (string \<times> string) list \<times> bool" where
  "newly_deprecated es previous =
     (map (\<lambda>e. (e_path e, e_method e)) (filter (\<lambda>e. e_deprecated e \<and> \<not> was_deprecated previous e) es),
      es \<noteq> [] \<and> list_all e_deprecated es)"

section \<open>Stored spellings\<close>

definition encode_event_types :: "webhook_event_type list \<Rightarrow> string option" where
  "encode_event_types types = (if types = [] then None else Some (join '','' (map event_type_as_str types)))"

definition decode_event_types :: "string option \<Rightarrow> repository_error + webhook_event_type list" where
  "decode_event_types stored =
     (case those (map event_type_parse (filter (\<lambda>x. x \<noteq> [])
        (split_char CHR '','' (case stored of None \<Rightarrow> [] | Some x \<Rightarrow> x)))) of
        None \<Rightarrow> Inl (RepoInternal ''unknown webhook event type'')
      | Some ts \<Rightarrow> Inr ts)"

section \<open>Hook management\<close>

definition get_webhook :: "db \<Rightarrow> row_id \<Rightarrow> webhook option" where
  "get_webhook db i = find (\<lambda>h. h_id h = i) (webhooks db)"

definition repo_create_webhook :: "webhook \<Rightarrow> db \<Rightarrow> row_id \<times> db" where
  "repo_create_webhook hook db =
     (next_webhook db,
      db\<lparr>webhooks := webhooks db @ [hook\<lparr>h_id := next_webhook db, h_paused := False\<rparr>],
         next_webhook := Suc (next_webhook db)\<rparr>)"

record webhook_patch =
  wp_paused :: "bool option"
  wp_event_types :: "webhook_event_type list option"
  wp_producer_glob :: "string option option"

definition or_keep :: "'a option \<Rightarrow> 'a \<Rightarrow> 'a" where
  "or_keep x y = (case x of None \<Rightarrow> y | Some v \<Rightarrow> v)"

definition update_webhook :: "row_id \<Rightarrow> webhook_patch \<Rightarrow> db \<Rightarrow> bool \<times> db" where
  "update_webhook i pt db =
     (if \<not> exists_row (\<lambda>h. h_id h = i) (webhooks db) then (False, db)
      else (True, db\<lparr>webhooks := update_where (\<lambda>h. h_id h = i)
              (\<lambda>h. h\<lparr>h_paused := or_keep (wp_paused pt) (h_paused h),
                      h_event_types := or_keep (wp_event_types pt) (h_event_types h),
                      h_producer_glob := or_keep (wp_producer_glob pt) (h_producer_glob h)\<rparr>) (webhooks db)\<rparr>))"

definition repo_rotate_webhook_secret :: "row_id \<Rightarrow> string \<Rightarrow> string \<Rightarrow> db \<Rightarrow> db" where
  "repo_rotate_webhook_secret i secret hint db =
     db\<lparr>webhooks := update_where (\<lambda>h. h_id h = i) (\<lambda>h. h\<lparr>h_secret := secret, h_secret_hint := hint\<rparr>) (webhooks db)\<rparr>"

definition repo_delete_webhook :: "row_id \<Rightarrow> db \<Rightarrow> db" where
  "repo_delete_webhook i db =
     db\<lparr>deliveries := delete_where (\<lambda>d. d_hook_id d = i) (deliveries db),
        webhooks := delete_where (\<lambda>h. h_id h = i) (webhooks db)\<rparr>"

definition secret_hint :: "webhook_tools \<Rightarrow> string \<Rightarrow> string" where
  "secret_hint W secret = take 8 (secret_digest_hex W secret)"

definition validate_glob :: "string option \<Rightarrow> app_error + string option" where
  "validate_glob glob =
     (case map_option trim glob of
        None \<Rightarrow> Inr None
      | Some g \<Rightarrow> if g = [] then Inr None
          else if length g > 200 then Inl (BadRequest (Text ''the Producer glob is too long'' []))
          else Inr (Some g))"

definition check_scope_exists :: "db \<Rightarrow> webhook_scope \<Rightarrow> app_error + unit" where
  "check_scope_exists db scope =
     (case scope of
        GlobalScope \<Rightarrow> Inr ()
      | ProducerScope nm \<Rightarrow> if find_service db nm = None
          then Inl (NotFound (Text ''Producer is unknown'' [S nm])) else Inr ()
      | ConsumerScope nm \<Rightarrow> if nm \<in> set (list_consumers db) \<or> find_service db nm \<noteq> None
          then Inr () else Inl (NotFound (Text ''Consumer is unknown'' [S nm])))"

definition tidy_event_types :: "webhook_event_type list \<Rightarrow> webhook_event_type list" where
  "tidy_event_types ts = remdups_adj (sort_key event_type_as_str ts)"

record create_webhook_request =
  cw_url :: string
  cw_format :: webhook_format
  cw_event_types :: "webhook_event_type list"
  cw_producer_glob :: "string option"

definition test_not_subscribable :: app_error where
  "test_not_subscribable = BadRequest (Text ''webhook.test cannot be subscribed to'' [])"

definition new_hook ::
    "webhook_tools \<Rightarrow> env \<Rightarrow> actor \<Rightarrow> webhook_scope \<Rightarrow> string \<Rightarrow> webhook_format \<Rightarrow> webhook_event_type list \<Rightarrow>
     string option \<Rightarrow> bool \<Rightarrow> webhook" where
  "new_hook W E actor scope url format types glob exempt =
     \<lparr>h_id = 0, h_scope = scope, h_url = url, h_format = format, h_event_types = types,
      h_producer_glob = glob, h_secret_hint = secret_hint W (new_secret E), h_paused = False,
      h_allow_list_exempt = exempt, h_created_by = a_username actor,
      h_created_at = clock E 0, h_secret = new_secret E\<rparr>"

definition create_webhook ::
    "webhook_tools \<Rightarrow> env \<Rightarrow> actor \<Rightarrow> webhook_scope \<Rightarrow> create_webhook_request \<Rightarrow> db \<Rightarrow> app_error + (webhook \<times> string) \<times> db" where
  "create_webhook W E actor scope request db =
     and_then (check_scope_exists db scope) (\<lambda>_.
     let url = trim (cw_url request); exempt = has_permission actor ManageSettings in
     and_then (webhook_allowed_hosts W db) (\<lambda>allowed.
     and_then (validate_hook_url W url allowed exempt) (\<lambda>_.
     and_then (validate_glob (cw_producer_glob request)) (\<lambda>glob.
     let types = tidy_event_types (cw_event_types request) in
     if TestEvent \<in> set types then Inl test_not_subscribable
     else case repo_create_webhook (new_hook W E actor scope url (cw_format request) types glob exempt) db of
            (i, db1) \<Rightarrow> (case get_webhook db1 i of
               None \<Rightarrow> Inl (Internal (Text ''the hook vanished after creation'' []))
             | Some hook \<Rightarrow> Inr ((hook, new_secret E), db1))))))"

definition get_webhook_in :: "db \<Rightarrow> webhook_scope \<Rightarrow> row_id \<Rightarrow> app_error + webhook" where
  "get_webhook_in db scope i =
     (case get_webhook db i of
        Some hook \<Rightarrow> if h_scope hook = scope then Inr hook
                     else Inl (NotFound (Text ''no webhook in this scope'' [N i]))
      | None \<Rightarrow> Inl (NotFound (Text ''no webhook in this scope'' [N i])))"

record patch_webhook_request =
  pw_paused :: "bool option"
  pw_event_types :: "webhook_event_type list option"
  pw_producer_glob :: "string option option"

definition patch_webhook ::
    "webhook_scope \<Rightarrow> row_id \<Rightarrow> patch_webhook_request \<Rightarrow> db \<Rightarrow> app_error + webhook \<times> db" where
  "patch_webhook scope i request db =
     and_then (get_webhook_in db scope i) (\<lambda>_.
     and_then (case pw_event_types request of
         None \<Rightarrow> Inr None
       | Some types \<Rightarrow> if TestEvent \<in> set types then Inl test_not_subscribable
                       else Inr (Some (tidy_event_types types))) (\<lambda>types.
     and_then (case pw_producer_glob request of
         None \<Rightarrow> Inr None
       | Some glob \<Rightarrow> and_then (validate_glob glob) (\<lambda>g. Inr (Some g))) (\<lambda>glob.
     let db1 = snd (update_webhook i \<lparr>wp_paused = pw_paused request, wp_event_types = types, wp_producer_glob = glob\<rparr> db)
     in and_then (get_webhook_in db1 scope i) (\<lambda>hook. Inr (hook, db1)))))"

definition rotate_webhook_secret ::
    "webhook_tools \<Rightarrow> env \<Rightarrow> webhook_scope \<Rightarrow> row_id \<Rightarrow> db \<Rightarrow> app_error + (webhook \<times> string) \<times> db" where
  "rotate_webhook_secret W E scope i db =
     and_then (get_webhook_in db scope i) (\<lambda>_.
     let secret = new_secret E; db1 = repo_rotate_webhook_secret i secret (secret_hint W secret) db
     in and_then (get_webhook_in db1 scope i) (\<lambda>hook. Inr ((hook, secret), db1)))"

definition delete_webhook_in :: "webhook_scope \<Rightarrow> row_id \<Rightarrow> db \<Rightarrow> app_error + webhook \<times> db" where
  "delete_webhook_in scope i db =
     and_then (get_webhook_in db scope i) (\<lambda>hook. Inr (hook, repo_delete_webhook i db))"

definition send_test_event :: "env \<Rightarrow> webhook_scope \<Rightarrow> row_id \<Rightarrow> db \<Rightarrow> app_error + string \<times> db" where
  "send_test_event E scope i db =
     and_then (get_webhook_in db scope i) (\<lambda>hook.
     if \<not> emission_enabled E then Inl (Conflict (Text ''webhooks are disabled on this instance'' []))
     else Inr (uuid E 0, insert_webhook_events [test_event E 0 hook] db))"

section \<open>The loop is the glob\<close>

text \<open>The reading of a glob, one case per pattern character.\<close>

fun glob_ref :: "string list \<Rightarrow> string list \<Rightarrow> bool" where
  "glob_ref [] ts = (ts = [])"
| "glob_ref (c # ps) [] = (c = star_char \<and> glob_ref ps [])"
| "glob_ref (c # ps) (x # ts) =
     (if c = star_char then glob_ref ps (x # ts) \<or> glob_ref (c # ps) ts
      else (c = any_char \<or> c = x) \<and> glob_ref ps ts)"

definition fits :: "string \<Rightarrow> string \<Rightarrow> bool" where
  "fits c x \<longleftrightarrow> c \<noteq> star_char \<and> (c = any_char \<or> c = x)"

lemma glob_ref_star_drop: "glob_ref (star_char # ps) ts \<longleftrightarrow> (\<exists>k \<le> length ts. glob_ref ps (drop k ts))"
proof (induction ts)
  case (Cons x ts)
  have "(\<exists>k \<le> length (x # ts). glob_ref ps (drop k (x # ts))) \<longleftrightarrow>
        glob_ref ps (x # ts) \<or> (\<exists>k \<le> length ts. glob_ref ps (drop k ts))"
    by (metis Suc_le_mono drop0 drop_Suc_Cons le0 length_Cons not0_implies_Suc)
  with Cons show ?case by simp
qed simp

lemma glob_ref_literals:
  assumes "list_all (\<lambda>c. c \<noteq> star_char) lits"
  shows "glob_ref (lits @ ps) ts \<longleftrightarrow>
    length lits \<le> length ts \<and> list_all2 fits lits (take (length lits) ts) \<and> glob_ref ps (drop (length lits) ts)"
  using assms
proof (induction lits arbitrary: ts)
  case (Cons c lits)
  then show ?case by (cases ts) (auto simp: fits_def)
qed simp

lemma glob_ref_empty: "glob_ref ps [] \<longleftrightarrow> list_all (\<lambda>c. c = star_char) ps"
  by (induction ps) auto

lemma fits_no_star: "list_all2 fits lits ms \<Longrightarrow> list_all (\<lambda>c. c \<noteq> star_char) lits"
  by (auto simp: list_all2_conv_all_nth list_all_length fits_def)

text \<open>
  What the loop has found: since the last star the pattern read fits the text
  read, character by character. Three ways to go on.
\<close>

lemma star_at_end:
  assumes "list_all2 fits lits ms"
  shows "glob_ref (star_char # lits @ ps) ms \<longleftrightarrow> list_all (\<lambda>c. c = star_char) ps"
proof -
  note ns = fits_no_star [OF assms] and len = list_all2_lengthD [OF assms]
  have "glob_ref (lits @ ps) (drop k ms) \<longleftrightarrow> k = 0 \<and> glob_ref ps []" if "k \<le> length ms" for k
    using that assms len by (auto simp: glob_ref_literals [OF ns])
  then show ?thesis by (auto simp: glob_ref_star_drop glob_ref_empty)
qed

lemma star_at_star:
  assumes "list_all2 fits lits ms"
  shows "glob_ref (star_char # lits @ star_char # ps) (ms @ ts) \<longleftrightarrow> glob_ref (star_char # ps) ts"
proof -
  note ns = fits_no_star [OF assms] and len = list_all2_lengthD [OF assms]
  have drop_shift: "length ms + (k - length ms) - (length ms - k) = k" for k by simp
  have "glob_ref (star_char # ps) ts"
    if "k \<le> length (ms @ ts)" "glob_ref (lits @ star_char # ps) (drop k (ms @ ts))" for k
  proof -
    have "glob_ref (star_char # ps) (drop k ts)"
      using that(2) len by (simp add: glob_ref_literals [OF ns] drop_shift del: glob_ref.simps)
    then obtain j where "j \<le> length (drop k ts)" "glob_ref ps (drop (k + j) ts)"
      by (auto simp: glob_ref_star_drop add.commute simp del: glob_ref.simps)
    then show ?thesis
      unfolding glob_ref_star_drop by (intro exI [of _ "min (k + j) (length ts)"]) (auto simp: min_def)
  qed
  moreover have "glob_ref (lits @ star_char # ps) (drop 0 (ms @ ts))" if "glob_ref (star_char # ps) ts"
    using that assms len by (simp add: glob_ref_literals [OF ns] del: glob_ref.simps)
  ultimately show ?thesis
    unfolding glob_ref_star_drop [of "lits @ star_char # ps"] by (metis le0)
qed

lemma star_mismatch:
  assumes "list_all2 fits lits ms" and "ps = [] \<or> (\<exists>c ps'. ps = c # ps' \<and> c \<noteq> star_char \<and> \<not> fits c x)"
  shows "glob_ref (star_char # lits @ ps) (ms @ x # ts) \<longleftrightarrow>
         glob_ref (star_char # lits @ ps) (tl (ms @ x # ts))"
proof -
  note ns = fits_no_star [OF assms(1)] and len = list_all2_lengthD [OF assms(1)]
  have "\<not> glob_ref (lits @ ps) (ms @ x # ts)"
    using assms(2) len by (auto simp: glob_ref_literals [OF ns] fits_def)
  then show ?thesis by (cases ms) auto
qed

lemma glob_loop_star:
  assumes "sp < p" "st \<le> t" "t \<le> length ts" "get_index pat sp = Some star_char"
    and "drop (Suc sp) pat = lits @ drop p pat" "drop st ts = ms @ drop t ts" "list_all2 fits lits ms"
  shows "glob_loop pat ts p t (Some (sp, st)) = Some (glob_ref (star_char # drop (Suc sp) pat) (drop st ts))"
  using assms
proof (induction "(length ts - st, length pat - p)" arbitrary: p t sp st lits ms
    rule: wf_induct_rule [OF wf_lex_prod [OF wf_less_than wf_less_than]])
  case 1
  note prems = 1(2-8)
  show ?case
  proof (cases "t < length ts")
    case False
    then have "get_index ts t = None" "drop t ts = []" by (auto simp: get_index_def)
    then show ?thesis using prems(6) star_at_end [OF prems(7), of "drop p pat"]
      by (subst glob_loop.simps) (simp add: prems(5) del: glob_ref.simps)
  next
    case True
    then have cur: "get_index ts t = Some (ts ! t)" "drop t ts = ts ! t # drop (Suc t) ts"
      by (auto simp: get_index_def Cons_nth_drop_Suc)
    consider (star) "p < length pat" "pat ! p = star_char"
      | (fit) "p < length pat" "fits (pat ! p) (ts ! t)"
      | (miss) "p \<ge> length pat \<or> pat ! p \<noteq> star_char \<and> \<not> fits (pat ! p) (ts ! t)"
      by fastforce
    then show ?thesis
    proof cases
      case star
      then have d: "drop p pat = star_char # drop (Suc p) pat" by (metis Cons_nth_drop_Suc)
      have "glob_loop pat ts (Suc p) t (Some (p, t)) = Some (glob_ref (star_char # drop (Suc p) pat) (drop t ts))"
        by (rule 1(1) [where lits = "[]" and ms = "[]"]) (use star prems in \<open>auto simp: get_index_def\<close>)
      then show ?thesis using star prems(5,6) star_at_star [OF prems(7), of "drop (Suc p) pat" "drop t ts"]
        by (subst glob_loop.simps) (simp add: cur(1) get_index_def d True del: glob_ref.simps)
    next
      case fit
      have "glob_loop pat ts (Suc p) (Suc t) (Some (sp, st)) =
            Some (glob_ref (star_char # drop (Suc sp) pat) (drop st ts))"
        by (rule 1(1) [where lits = "lits @ [pat ! p]" and ms = "ms @ [ts ! t]"])
          (use fit prems True in \<open>auto simp: Cons_nth_drop_Suc intro: list_all2_appendI\<close>)
      then show ?thesis using fit
        by (subst glob_loop.simps) (auto simp: cur(1) get_index_def fits_def True)
    next
      case miss
      have "glob_ref (star_char # drop (Suc sp) pat) (drop st ts) =
            glob_ref (star_char # drop (Suc sp) pat) (drop (Suc st) ts)"
        unfolding prems(5,6) cur(2) using star_mismatch [OF prems(7), of "drop p pat" "ts ! t" "drop (Suc t) ts"] miss
        by (metis Cons_nth_drop_Suc cur(2) drop_Suc drop_all linorder_not_less prems(6) tl_drop)
      moreover have "glob_loop pat ts (Suc sp) (Suc st) (Some (sp, Suc st)) =
            Some (glob_ref (star_char # drop (Suc sp) pat) (drop (Suc st) ts))"
        by (rule 1(1) [where lits = "[]" and ms = "[]"]) (use prems True in auto)
      moreover have "get_index pat p \<notin> {Some star_char, Some any_char, Some (ts ! t)}"
        using miss by (auto simp: get_index_def fits_def)
      ultimately show ?thesis
        by (subst glob_loop.simps) (simp add: cur(1) del: glob_ref.simps)
    qed
  qed
qed

lemma glob_loop_start:
  assumes "t \<le> length ts"
  shows "glob_loop pat ts p t None = Some (glob_ref (drop p pat) (drop t ts))"
  using assms
proof (induction "length ts - t" arbitrary: p t)
  case 0
  then have "get_index ts t = None" "drop t ts = []" by (auto simp: get_index_def)
  then show ?case by (subst glob_loop.simps) (simp add: glob_ref_empty)
next
  case (Suc n)
  then have cur: "t < length ts" "get_index ts t = Some (ts ! t)" "drop t ts = ts ! t # drop (Suc t) ts"
    by (auto simp: get_index_def Cons_nth_drop_Suc)
  show ?case
  proof (cases "p < length pat")
    case False
    then show ?thesis
      by (subst glob_loop.simps) (simp add: cur(2,3) get_index_def cur(1))
  next
    case True
    then have d: "drop p pat = pat ! p # drop (Suc p) pat" by (metis Cons_nth_drop_Suc)
    have "glob_loop pat ts (Suc p) (Suc t) None = Some (glob_ref (drop (Suc p) pat) (drop (Suc t) ts))"
      by (rule Suc.hyps) (use Suc.hyps(2) cur(1) in auto)
    moreover have "glob_loop pat ts (Suc p) t (Some (p, t)) =
        Some (glob_ref (star_char # drop (Suc p) pat) (drop t ts))" if "pat ! p = star_char"
      by (rule glob_loop_star [where lits = "[]" and ms = "[]"])
        (use True that Suc.prems in \<open>auto simp: get_index_def\<close>)
    ultimately show ?thesis
      by (subst glob_loop.simps) (simp add: cur True d get_index_def)
  qed
qed

lemma glob_matches_ref: "glob_matches glob nm = glob_ref (chars glob) (chars nm)"
  by (simp add: glob_matches_def glob_loop_start)

text \<open>
  The wildcard match of Producer and host globs is right and returns: on
  every pattern and text the two-pointer loop with its single backtrack point
  ends with the answer of the character-by-character reading of the glob, in
  which \<open>*\<close> stands for any run of characters (the text splits before
  it so that the rest matches) and \<open>?\<close> for exactly one.
\<close>

lemma glob_loop_is_glob:
  "glob_loop pattern ts 0 0 None = Some (glob_ref pattern ts) \<and>
   glob_matches glob nm = glob_ref (chars glob) (chars nm) \<and>
   (glob_ref (star_char # ps) ts \<longleftrightarrow> (\<exists>k \<le> length ts. glob_ref ps (drop k ts)))"
  using glob_loop_start [of 0 ts pattern 0] glob_ref_star_drop by (simp add: glob_matches_ref)

section \<open>Who hears of an event\<close>

lemma sort_key_Nil [simp]: "sort_key f xs = [] \<longleftrightarrow> xs = []"
  by (metis length_0_conv length_sort)

lemma in_fan_out:
  "hid \<in> set (fan_out E db ty audience) \<longleftrightarrow>
     emission_enabled E \<and>
     (\<exists>h \<in> set (webhooks db). h_id h = hid \<and> hook_wants h ty (au_producer audience) (audience_consumers db audience))"
  by (auto simp: fan_out_def list_webhooks_def Let_def)

lemma hook_wants_iff:
  "hook_wants h ty producer consumers \<longleftrightarrow>
     (case h_scope h of GlobalScope \<Rightarrow> True | ProducerScope nm \<Rightarrow> producer = Some nm | ConsumerScope nm \<Rightarrow> nm \<in> set consumers) \<and>
     (h_event_types h = [] \<or> ty \<in> set (h_event_types h)) \<and>
     (\<forall>g. h_producer_glob h = Some g \<longrightarrow> (\<exists>nm. producer = Some nm \<and> glob_ref (chars g) (chars nm)))"
  by (auto simp: hook_wants_def glob_matches_ref split: option.splits webhook_scope.splits)

text \<open>A Consumer follows a Producer: it has a recorded dependency on one of its versions, or an open pin.\<close>

definition follows :: "db \<Rightarrow> string \<Rightarrow> string \<Rightarrow> bool" where
  "follows db consumer producer \<longleftrightarrow>
     (\<exists>sid. find_service db producer = Some sid \<and>
        ((\<exists>d \<in> set (dependencies db). get_client_name db (dep_client_id d) = Some consumer \<and>
            (\<exists>v \<in> set (spec_versions db). v_id v = dep_spec_version_id d \<and> v_service_id v = sid)) \<or>
         (\<exists>r \<in> set (trunk_deps db). k_service_id r = sid \<and> k_client_name r = consumer \<and> valid_to r = None)))"

lemma in_map_filter: "x \<in> set (List.map_filter f xs) \<longleftrightarrow> (\<exists>y \<in> set xs. f y = Some x)"
  by (force simp: List.map_filter_def)

lemma follows_iff:
  "c \<in> set (audience_consumers db (audience_producer nm)) \<longleftrightarrow> follows db c nm"
proof (cases "find_service db nm")
  case (Some sid)
  show ?thesis
    by (simp add: Some audience_consumers_def audience_producer_def follows_def list_current_consumers_of_def
        in_map_filter exists_row_iff) blast
qed (simp add: audience_consumers_def audience_producer_def follows_def)

text \<open>
  An event about a Producer is queued for exactly the hooks that should
  hear of it: while emission is on, every global hook, the Producer's own hooks
  and the hooks of the Consumers that currently follow it (a dependency
  recorded on one of its versions or an open trunk pin), each only when the
  event's type passes the hook's filter and the Producer's name matches its
  glob. No event is planned when nobody wants it.
\<close>

lemma producer_event_audience:
  "(hid \<in> set (fan_out E db ty (audience_producer nm)) \<longleftrightarrow>
     emission_enabled E \<and>
     (\<exists>h \<in> set (webhooks db). h_id h = hid \<and>
        (case h_scope h of GlobalScope \<Rightarrow> True | ProducerScope p \<Rightarrow> p = nm | ConsumerScope c \<Rightarrow> follows db c nm) \<and>
        (h_event_types h = [] \<or> ty \<in> set (h_event_types h)) \<and>
        (case h_producer_glob h of None \<Rightarrow> True | Some g \<Rightarrow> glob_ref (chars g) (chars nm)))) \<and>
   (plan_event E i db ty (audience_producer nm) dat = None \<longleftrightarrow> fan_out E db ty (audience_producer nm) = [])"
proof -
  have "hook_wants h ty (Some nm) (audience_consumers db (audience_producer nm)) \<longleftrightarrow>
      (case h_scope h of GlobalScope \<Rightarrow> True | ProducerScope p \<Rightarrow> p = nm | ConsumerScope c \<Rightarrow> follows db c nm) \<and>
      (h_event_types h = [] \<or> ty \<in> set (h_event_types h)) \<and>
      (case h_producer_glob h of None \<Rightarrow> True | Some g \<Rightarrow> glob_ref (chars g) (chars nm))" for h
    by (auto simp: hook_wants_iff follows_iff split: webhook_scope.splits option.splits)
  moreover have "au_producer (audience_producer nm) = Some nm" by (simp add: audience_producer_def)
  ultimately show ?thesis by (simp add: in_fan_out plan_event_def event_for_def)
qed

section \<open>What stays in the tables\<close>

lemma split_char_joined:
  assumes "list_all (\<lambda>w. c \<notin> set w) ws" "ws \<noteq> []"
  shows "split_char c (join [c] ws) = ws"
  using assms
proof (induction "[c]" ws rule: join.induct)
  case (2 w)
  then show ?case by (induction w) auto
next
  case (3 w w' ws)
  have "split_char c (w @ c # r) = w # split_char c r" if "c \<notin> set w" for r
    using that by (induction w) (auto split: list.splits)
  with 3 show ?case by simp
qed simp

lemma event_type_str: "event_type_parse (event_type_as_str t) = Some t \<and> CHR '','' \<notin> set (event_type_as_str t) \<and> event_type_as_str t \<noteq> []"
  by (cases t) (simp_all add: event_type_parse_def)

text \<open>
  The comma-separated column of a hook's event filter loses nothing: every
  list of event types is read back as it was stored, the empty list (every
  type) included.
\<close>

lemma event_types_round_trip: "decode_event_types (encode_event_types types) = Inr types"
proof (cases "types = []")
  case False
  let ?ws = "map event_type_as_str types"
  have "split_char CHR '','' (join '','' ?ws) = ?ws"
    using False event_type_str by (intro split_char_joined) (auto simp: list_all_iff)
  moreover have "filter (\<lambda>x. x \<noteq> []) ?ws = ?ws" using event_type_str by (auto simp: filter_id_conv)
  moreover have "those (map event_type_parse ?ws) = Some types"
    using event_type_str by (induction types) auto
  ultimately show ?thesis using False by (simp add: decode_event_types_def encode_event_types_def)
qed (simp add: decode_event_types_def encode_event_types_def)

lemma sorted_remdups_adj_map: "sorted (map f xs) \<Longrightarrow> sorted (map f (remdups_adj xs))"
  by (induction xs rule: remdups_adj.induct) auto

text \<open>
  Registering a hook obeys the egress policy. A hook that is stored has an
  http or https URL with a host; unless its creator holds
  \<open>manage_settings\<close> (and then the hook is marked exempt) its host is
  admitted by the stored allow-list; it never subscribes to the test event, its
  filter is sorted and free of duplicates, its scope names a known system, and
  it is the only change to the hooks. The secret handed out is the one stored.
\<close>

lemma create_webhook_policy:
  assumes "create_webhook W E actor scope request db = Inr ((hook, secret), db')"
    and "\<forall>h \<in> set (webhooks db). h_id h < next_webhook db"
  shows "webhooks db' = webhooks db @ [hook] \<and> h_secret hook = secret \<and> h_scope hook = scope \<and>
    (h_allow_list_exempt hook \<longleftrightarrow> has_permission actor ManageSettings) \<and>
    (h_allow_list_exempt hook \<or>
       (\<exists>allowed. webhook_allowed_hosts W db = Inr allowed \<and> host_allowed W (h_url hook) allowed)) \<and>
    (\<exists>scheme host. url_parse W (h_url hook) = Some (scheme, Some host) \<and> scheme \<in> {''http'', ''https''}) \<and>
    TestEvent \<notin> set (h_event_types hook) \<and> sorted (map event_type_as_str (h_event_types hook)) \<and>
    check_scope_exists db scope = Inr ()"
proof -
  let ?url = "trim (cw_url request)" and ?ex = "has_permission actor ManageSettings"
    and ?ts = "tidy_event_types (cw_event_types request)"
  from assms(1) obtain allowed glob i db1 where ok: "check_scope_exists db scope = Inr ()"
      "webhook_allowed_hosts W db = Inr allowed" "validate_hook_url W ?url allowed ?ex = Inr ()"
      "TestEvent \<notin> set ?ts"
    and made: "repo_create_webhook (new_hook W E actor scope ?url (cw_format request) ?ts glob ?ex) db = (i, db1)"
      "get_webhook db1 i = Some hook" "secret = new_secret E" "db' = db1"
    unfolding create_webhook_def Let_def
    by (auto simp: rust split: if_splits prod.splits option.splits)
  have "find (\<lambda>h. h_id h = next_webhook db) (webhooks db) = None"
    using assms(2) by (auto simp: find_None_iff)
  then have h: "webhooks db' = webhooks db @ [hook]" "h_scope hook = scope" "h_url hook = ?url"
      "h_event_types hook = ?ts" "h_allow_list_exempt hook = ?ex" "h_secret hook = secret"
    using made by (auto simp: repo_create_webhook_def get_webhook_def find_append new_hook_def)
  have "sorted (map event_type_as_str ?ts)"
    unfolding tidy_event_types_def by (rule sorted_remdups_adj_map) simp
  moreover have "\<exists>scheme host. url_parse W ?url = Some (scheme, Some host) \<and> scheme \<in> {''http'', ''https''}"
    "?ex \<or> host_allowed W ?url allowed"
    using ok(3) by (auto simp: validate_hook_url_def split: option.splits if_splits)
  ultimately show ?thesis using h ok by auto
qed

definition sample_tools :: webhook_tools where
  "sample_tools =
     \<lparr>url_parse = (\<lambda>u. if u = ''https://ci.corp/x'' then Some (''https'', Some ''ci.corp'') else None),
      json_decode_list = (\<lambda>j. if j = ''corp'' then Some [''*.corp''] else None),
      json_encode_list = (\<lambda>_. ''corp''), secret_digest_hex = (\<lambda>x. x)\<rparr>"

definition sample_env :: env where
  "sample_env = \<lparr>emission_enabled = True, clock = (\<lambda>i. ''2026-01-01T00:00:00Z''),
                 uuid = (\<lambda>i. show_nat i), new_secret = ''whsec_0123456789''\<rparr>"

definition plain_actor :: "string \<Rightarrow> role list \<Rightarrow> actor" where
  "plain_actor nm roles = \<lparr>a_user_id = 1, a_username = nm, a_is_root = False, a_roles = roles, a_directory_groups = []\<rparr>"

definition sample_request :: create_webhook_request where
  "sample_request = \<lparr>cw_url = ''https://ci.corp/x'', cw_format = JsonFormat,
     cw_event_types = [VersionPublished, BranchCut, VersionPublished], cw_producer_glob = None\<rparr>"

lemma create_webhook_policy_witness:
  "\<exists>hook db'. create_webhook sample_tools sample_env (plain_actor ''ann'' [Viewer]) GlobalScope sample_request
       (set_setting allowed_hosts_setting ''corp'' empty_db) = Inr ((hook, ''whsec_0123456789''), db') \<and>
     webhooks db' = [hook] \<and> \<not> h_allow_list_exempt hook \<and> h_event_types hook = [BranchCut, VersionPublished]"
proof -
  let ?db = "set_setting allowed_hosts_setting ''corp'' empty_db"
  let ?r = "create_webhook sample_tools sample_env (plain_actor ''ann'' [Viewer]) GlobalScope sample_request ?db"
  have "(case ?r of Inr ((hook, secret), db') \<Rightarrow> secret = ''whsec_0123456789'' \<and>
           h_event_types hook = [BranchCut, VersionPublished] | Inl _ \<Rightarrow> False)"
    by code_simp
  then obtain hook db' where r: "?r = Inr ((hook, ''whsec_0123456789''), db')"
    and t: "h_event_types hook = [BranchCut, VersionPublished]"
    by (auto split: sum.splits)
  have "\<not> has_permission (plain_actor ''ann'' [Viewer]) ManageSettings" by code_simp
  then show ?thesis
    using create_webhook_policy [OF r] r t by (simp add: empty_db_def set_setting_def)
qed

end
