(* ===== verification/Backstage.thy ===== *)
theory Backstage
  imports Webhook_Events
begin

text \<open>
  What is read of a pushed \<open>catalog-info.yaml\<close>: \<open>src/src/backstage.rs\<close>. A
  document is the value tree the YAML reader gives (\<open>serde_json::Value\<close>); the
  reader itself and the URL parser are parameters. A derived reader takes a
  struct from a mapping by field names or from a list by field positions, and
  both are modelled.
\<close>

section \<open>Value trees\<close>

datatype doc =
    DNull
  | DBool bool
  | DNum string
  | DStr string
  | DSeq "doc list"
  | DMap "(string \<times> doc) list"

definition doc_get :: "doc \<Rightarrow> string \<Rightarrow> doc option" where
  "doc_get d k = (case d of DMap kvs \<Rightarrow> map_of kvs k | _ \<Rightarrow> None)"

definition doc_str :: "doc \<Rightarrow> string option" where
  "doc_str d = (case d of DStr s \<Rightarrow> Some s | _ \<Rightarrow> None)"

definition doc_seq :: "doc \<Rightarrow> doc list option" where
  "doc_seq d = (case d of DSeq xs \<Rightarrow> Some xs | _ \<Rightarrow> None)"

definition str_at :: "doc option \<Rightarrow> string \<Rightarrow> string option" where
  "str_at d k = Option.bind (Option.bind d (\<lambda>d. doc_get d k)) doc_str"

text \<open>The fields of a struct: by name, or by position with the rest defaulted.\<close>

definition struct_fields :: "string list \<Rightarrow> doc \<Rightarrow> (string \<rightharpoonup> doc) option" where
  "struct_fields names d =
     (case d of
        DMap kvs \<Rightarrow> Some (map_of kvs)
      | DSeq xs \<Rightarrow> if length xs \<le> length names then Some (map_of (zip names xs)) else None
      | _ \<Rightarrow> None)"

text \<open>An optional field: absent and null are both nothing; a value of another shape is an error.\<close>

definition optional_field :: "(doc \<Rightarrow> 'a option) \<Rightarrow> doc option \<Rightarrow> 'a option option" where
  "optional_field read d = (case d of None \<Rightarrow> Some None | Some DNull \<Rightarrow> Some None | Some x \<Rightarrow> map_option Some (read x))"

section \<open>Entities\<close>

datatype catalog_error =
    InvalidYaml message
  | NotAnEntity nat message
  | NoMatchingComponent string
  | AmbiguousComponent string
  | MalformedDependsOn string message

record metadata =
  m_name :: string
  m_namespace :: "string option"
  m_description :: "doc option"
  m_annotations :: "(string \<times> doc) list option"
  m_links :: "doc option"
  m_tags :: "doc option"

record entity =
  en_api_version :: string
  en_kind :: string
  en_metadata :: metadata
  en_spec :: "doc option"

definition doc_map :: "doc \<Rightarrow> (string \<times> doc) list option" where
  "doc_map d = (case d of DMap kvs \<Rightarrow> Some kvs | _ \<Rightarrow> None)"

definition read_metadata :: "doc \<Rightarrow> metadata option" where
  "read_metadata d =
     Option.bind (struct_fields [''name'', ''namespace'', ''description'', ''annotations'', ''links'', ''tags''] d) (\<lambda>f.
     Option.bind (Option.bind (f ''name'') doc_str) (\<lambda>nm.
     Option.bind (optional_field doc_str (f ''namespace'')) (\<lambda>ns.
     Option.bind (optional_field Some (f ''description'')) (\<lambda>descr.
     Option.bind (optional_field doc_map (f ''annotations'')) (\<lambda>ann.
     Option.bind (optional_field Some (f ''links'')) (\<lambda>ls.
     Option.bind (optional_field Some (f ''tags'')) (\<lambda>ts.
     Some \<lparr>m_name = nm, m_namespace = ns, m_description = descr, m_annotations = ann, m_links = ls, m_tags = ts\<rparr>)))))))"

definition read_entity :: "doc \<Rightarrow> entity option" where
  "read_entity d =
     Option.bind (struct_fields [''apiVersion'', ''kind'', ''metadata'', ''spec''] d) (\<lambda>f.
     Option.bind (Option.bind (f ''apiVersion'') doc_str) (\<lambda>av.
     Option.bind (Option.bind (f ''kind'') doc_str) (\<lambda>k.
     Option.bind (Option.bind (f ''metadata'') read_metadata) (\<lambda>md.
     Option.bind (optional_field Some (f ''spec'')) (\<lambda>sp.
     Some \<lparr>en_api_version = av, en_kind = k, en_metadata = md, en_spec = sp\<rparr>)))))"

record catalog_component =
  cc_resources :: "string list"
  cc_components :: "string list"
  cc_context :: system_context
  cc_system :: "string option"

section \<open>Entity references\<close>

definition default_kind :: string where "default_kind = ''resource''"
definition component_kind :: string where "component_kind = ''component''"
definition default_system_kind :: string where "default_system_kind = ''system''"
definition default_owner_kind :: string where "default_owner_kind = ''group''"
definition default_namespace :: string where "default_namespace = ''default''"

definition is_ref_char :: "char \<Rightarrow> bool" where
  "is_ref_char c \<longleftrightarrow> is_ascii_alphanumeric c \<or> c \<in> {CHR ''-'', CHR ''_'', CHR ''.''}"

definition is_ref_part :: "string \<Rightarrow> bool" where
  "is_ref_part part \<longleftrightarrow> part \<noteq> [] \<and> length part \<le> 63 \<and> list_all is_ref_char part"

definition split_ref :: "string \<Rightarrow> string \<Rightarrow> string \<Rightarrow> (string \<times> string \<times> string) option" where
  "split_ref raw def_kind def_namespace =
     (let (kind, rest) = (case split_once (CHR '':'') raw of Some p \<Rightarrow> p | None \<Rightarrow> (def_kind, raw));
          (ns, nm) = (case split_once (CHR ''/'') rest of Some p \<Rightarrow> p | None \<Rightarrow> (def_namespace, rest)) in
      if is_ref_part (trim kind) \<and> is_ref_part (trim ns) \<and> is_ref_part (trim nm)
      then Some (to_lowercase (trim kind), to_lowercase (trim ns), to_lowercase (trim nm)) else None)"

definition full_ref :: "string \<Rightarrow> string \<Rightarrow> string \<Rightarrow> string" where
  "full_ref kind ns nm = kind @ '':'' @ ns @ ''/'' @ nm"

definition component_ref_name :: "string \<Rightarrow> string option" where
  "component_ref_name reference =
     map_option (\<lambda>rest. case rsplit_once (CHR ''/'') rest of None \<Rightarrow> rest | Some (_, nm) \<Rightarrow> nm)
       (strip_prefix ''component:'' reference)"

fun collect_refs ::
    "string \<Rightarrow> string \<Rightarrow> doc list \<Rightarrow> string list \<times> string list \<Rightarrow> catalog_error + string list \<times> string list" where
  "collect_refs component ns [] acc = Inr acc"
| "collect_refs component ns (item # items) acc =
     (case doc_str item of
        None \<Rightarrow> Inl (MalformedDependsOn component (Text ''every entry must be an entity ref string'' []))
      | Some raw \<Rightarrow>
        (case split_ref raw default_kind ns of
           None \<Rightarrow> Inl (MalformedDependsOn component (Text ''not an entity ref'' [S raw]))
         | Some (kind, ns', nm) \<Rightarrow>
             collect_refs component ns items
               (if kind = default_kind then (fst acc @ [full_ref default_kind ns' nm], snd acc)
                else if kind = component_kind then (fst acc, snd acc @ [full_ref component_kind ns' nm])
                else acc)))"

definition entity_dependencies :: "entity \<Rightarrow> string \<Rightarrow> catalog_error + string list \<times> string list" where
  "entity_dependencies c ns =
     (case Option.bind (en_spec c) (\<lambda>s. doc_get s ''dependsOn'') of
        None \<Rightarrow> Inr ([], [])
      | Some DNull \<Rightarrow> Inr ([], [])
      | Some (DSeq items) \<Rightarrow>
          and_then (collect_refs (m_name (en_metadata c)) ns items ([], [])) (\<lambda>(rs, cs).
            Inr (sort (remdups rs), sort (remdups cs)))
      | Some _ \<Rightarrow> Inl (MalformedDependsOn (m_name (en_metadata c)) (Text ''it must be a list of entity refs'' [])))"

section \<open>The context\<close>

definition max_description_chars :: nat where "max_description_chars = 1000"
definition max_links :: nat where "max_links = 20"
definition max_link_text_chars :: nat where "max_link_text_chars = 200"
definition max_tags :: nat where "max_tags = 20"
definition max_url_chars :: nat where "max_url_chars = 2048"

definition owner_ref :: "string \<Rightarrow> system_owner option" where
  "owner_ref raw = map_option (\<lambda>(kind, _, nm). \<lparr>ow_kind = kind, ow_name = nm\<rparr>)
     (split_ref raw default_owner_kind default_namespace)"

text \<open>The ellipsis is one character of three bytes.\<close>

definition ellipsis :: string where "ellipsis = [CHR 0xE2, CHR 0x80, CHR 0xA6]"

definition cut :: "string \<Rightarrow> nat \<Rightarrow> string" where
  "cut s maxi = (if char_count s \<le> maxi then s else concat (take (maxi - 1) (chars s)) @ ellipsis)"

definition bounded_description :: "string \<Rightarrow> string option" where
  "bounded_description raw = (if trim raw = [] then None else Some (cut (trim raw) max_description_chars))"

text \<open>The host of an absolute web address that is not too long.\<close>

definition http_url :: "webhook_tools \<Rightarrow> string \<Rightarrow> string option" where
  "http_url W raw =
     (if char_count (trim raw) > max_url_chars then None
      else case url_parse W (trim raw) of
             Some (scheme, Some host) \<Rightarrow> if scheme \<in> {''http'', ''https''} then Some host else None
           | _ \<Rightarrow> None)"

definition source_location :: "webhook_tools \<Rightarrow> string \<Rightarrow> string option" where
  "source_location W raw =
     (let location = trim (case strip_prefix ''url:'' (trim raw) of Some rest \<Rightarrow> rest | None \<Rightarrow> trim raw) in
      map_option (\<lambda>_. location) (http_url W location))"

definition link :: "webhook_tools \<Rightarrow> doc \<Rightarrow> system_link option" where
  "link W item =
     (let txt = (\<lambda>key. map_option trim (str_at (Some item) key));
          bounded = (\<lambda>key. map_option (\<lambda>t. cut t max_link_text_chars) (txt key)) in
      Option.bind (txt ''url'') (\<lambda>url.
      Option.bind (http_url W url) (\<lambda>host.
      Some \<lparr>ln_url = url,
            ln_title = cut (case txt ''title'' of Some t \<Rightarrow> if t \<noteq> [] then t else host | None \<Rightarrow> host) max_link_text_chars,
            ln_type = bounded ''type'', ln_icon = bounded ''icon''\<rparr>)))"

definition is_tag_char :: "char \<Rightarrow> bool" where
  "is_tag_char c \<longleftrightarrow> is_ascii_lower c \<or> is_ascii_digit c \<or> c \<in> {CHR ''-'', CHR ''+'', CHR ''#''}"

definition is_tag :: "string \<Rightarrow> bool" where
  "is_tag t \<longleftrightarrow> t \<noteq> [] \<and> length t \<le> 63 \<and> list_all is_tag_char t"

text \<open>
  Lower-casing for a tag: of the letters outside ASCII only the Kelvin sign
  has an ASCII lower case; every other text with one is no tag either way.
\<close>

definition lower_tag :: "string \<Rightarrow> string" where
  "lower_tag raw = to_lowercase (replace_str [CHR 0xE2, CHR 0x84, CHR 0xAA] ''k'' (trim raw))"

fun tags_loop :: "doc list \<Rightarrow> string list \<Rightarrow> string list" where
  "tags_loop [] out = out"
| "tags_loop (item # items) out =
     (case doc_str item of
        None \<Rightarrow> tags_loop items out
      | Some raw \<Rightarrow>
          (let tag = lower_tag raw in
           if is_tag tag \<and> tag \<notin> set out
           then if Suc (length out) = max_tags then out @ [tag] else tags_loop items (out @ [tag])
           else tags_loop items out))"

definition tags :: "doc list \<Rightarrow> string list" where
  "tags items = tags_loop items []"

section \<open>Reading the Component\<close>

definition same_ignoring_case :: "string \<Rightarrow> string \<Rightarrow> bool" where
  "same_ignoring_case a b \<longleftrightarrow> to_lowercase a = to_lowercase b"

definition backstage_group :: "string \<Rightarrow> bool" where
  "backstage_group grp \<longleftrightarrow> grp = ''backstage.io'' \<or>
     (let suffix = ''.backstage.io'' in drop (length grp - length suffix) grp = suffix)"

fun find_component :: "string \<Rightarrow> nat \<Rightarrow> doc list \<Rightarrow> entity option \<Rightarrow> catalog_error + entity option" where
  "find_component sys index [] found = Inr found"
| "find_component sys index (d # ds) found =
     (if d = DNull then find_component sys (Suc index) ds found
      else case read_entity d of
          None \<Rightarrow> Inl (NotAnEntity (Suc index) (Text ''the document has another shape'' []))
        | Some e \<Rightarrow>
            if \<not> backstage_group (hd (split_char (CHR ''/'') (en_api_version e)))
            then Inl (NotAnEntity (Suc index) (Text ''apiVersion is not a backstage.io group'' [S (en_api_version e)]))
            else if same_ignoring_case (en_kind e) ''component'' \<and> same_ignoring_case (m_name (en_metadata e)) sys
            then if found \<noteq> None then Inl (AmbiguousComponent sys) else find_component sys (Suc index) ds (Some e)
            else find_component sys (Suc index) ds found)"

definition context_of :: "webhook_tools \<Rightarrow> entity \<Rightarrow> system_context" where
  "context_of W e =
     \<lparr>sc_owner = Option.bind (str_at (en_spec e) ''owner'') owner_ref,
      sc_description = Option.bind (Option.bind (m_description (en_metadata e)) doc_str) bounded_description,
      sc_source_location =
        Option.bind (Option.bind (Option.bind (m_annotations (en_metadata e)) (\<lambda>a. map_of a ''backstage.io/source-location'')) doc_str)
          (source_location W),
      sc_links = (case Option.bind (m_links (en_metadata e)) doc_seq of None \<Rightarrow> []
                  | Some items \<Rightarrow> take max_links (List.map_filter (link W) items)),
      sc_tags = (case Option.bind (m_tags (en_metadata e)) doc_seq of None \<Rightarrow> [] | Some items \<Rightarrow> tags items)\<rparr>"

definition system_of :: "entity \<Rightarrow> string \<Rightarrow> string option" where
  "system_of e ns =
     (case Option.bind (str_at (en_spec e) ''system'') (\<lambda>raw. split_ref raw default_system_kind ns) of
        Some (kind, _, nm) \<Rightarrow> if kind = default_system_kind then Some nm else None
      | None \<Rightarrow> None)"

definition entity_namespace :: "entity \<Rightarrow> string" where
  "entity_namespace e = (case m_namespace (en_metadata e) of Some n \<Rightarrow> n | None \<Rightarrow> default_namespace)"

definition read_component ::
    "(string \<Rightarrow> message + doc list) \<Rightarrow> webhook_tools \<Rightarrow> string \<Rightarrow> string \<Rightarrow> catalog_error + catalog_component" where
  "read_component from_str_multiple W yaml sys =
     and_then (map_err InvalidYaml (from_str_multiple yaml)) (\<lambda>documents.
     and_then (find_component sys 0 documents None) (\<lambda>found.
     case found of
       None \<Rightarrow> Inl (NoMatchingComponent sys)
     | Some e \<Rightarrow>
         and_then (entity_dependencies e (entity_namespace e)) (\<lambda>(resources, components).
         Inr \<lparr>cc_resources = resources, cc_components = components, cc_context = context_of W e,
              cc_system = system_of e (entity_namespace e)\<rparr>)))"

section \<open>What is read is bounded and clean\<close>

text \<open>A part of a reference as it is stored: lower case, of the safe alphabet.\<close>

definition clean_part :: "string \<Rightarrow> bool" where
  "clean_part p \<longleftrightarrow> is_ref_part p \<and> to_lowercase p = p"

definition clean_ref :: "string \<Rightarrow> string \<Rightarrow> bool" where
  "clean_ref kind r \<longleftrightarrow> (\<exists>ns nm. r = full_ref kind ns nm \<and> clean_part ns \<and> clean_part nm)"

definition web_address :: "webhook_tools \<Rightarrow> string \<Rightarrow> bool" where
  "web_address W url \<longleftrightarrow> char_count url \<le> max_url_chars \<and>
     (\<exists>scheme host. url_parse W url = Some (scheme, Some host) \<and> scheme \<in> {''http'', ''https''})"

lemma of_char_lower: "is_ascii_upper c \<Longrightarrow> (of_char (lower_char c) :: nat) = of_char c + 32"
  by (auto simp: lower_char_def is_ascii_upper_def)

lemma lower_of_upper: "is_ascii_upper c \<Longrightarrow> is_ascii_lower (lower_char c)"
  using of_char_lower[of c] by (simp add: is_ascii_upper_def is_ascii_lower_def)

lemma lower_not_upper: "is_ascii_lower c \<Longrightarrow> \<not> is_ascii_upper c"
  by (simp add: is_ascii_upper_def is_ascii_lower_def)

lemma lower_char_idem: "lower_char (lower_char c) = lower_char c"
proof (cases "is_ascii_upper c")
  case True
  then have "\<not> is_ascii_upper (lower_char c)" by (blast dest: lower_of_upper lower_not_upper)
  then show ?thesis by (simp add: lower_char_def[of "lower_char c"])
qed (simp add: lower_char_def)

lemma to_lowercase_idem [simp]: "to_lowercase (to_lowercase s) = to_lowercase s"
  by (simp add: to_lowercase_def lower_char_idem)

lemma is_ref_char_lower: "is_ref_char c \<Longrightarrow> is_ref_char (lower_char c)"
  using lower_of_upper[of c] by (cases "is_ascii_upper c") (auto simp: is_ref_char_def is_ascii_alphanumeric_def lower_char_def)

lemma clean_lower: "is_ref_part p \<Longrightarrow> clean_part (to_lowercase p)"
  unfolding clean_part_def is_ref_part_def by (auto simp: list_all_iff to_lowercase_def is_ref_char_lower lower_char_idem)

lemma split_ref_clean:
  assumes "split_ref raw k ns = Some (kind, ns', nm)"
  shows "clean_part kind \<and> clean_part ns' \<and> clean_part nm"
  using assms clean_lower unfolding split_ref_def Let_def by (auto split: if_splits prod.splits)

lemma collect_refs_clean:
  assumes "collect_refs c ns items (rs, cs) = Inr (rs', cs')"
    and "\<forall>r \<in> set rs. clean_ref default_kind r" and "\<forall>r \<in> set cs. clean_ref component_kind r"
  shows "(\<forall>r \<in> set rs'. clean_ref default_kind r) \<and> (\<forall>r \<in> set cs'. clean_ref component_kind r)"
  using assms
proof (induction items arbitrary: rs cs)
  case (Cons item items)
  from Cons.prems(1) obtain raw kind ns' nm where item: "doc_str item = Some raw" "split_ref raw default_kind ns = Some (kind, ns', nm)"
    by (auto split: option.splits)
  have clean: "clean_ref k (full_ref k ns' nm)" for k
    using split_ref_clean[OF item(2)] by (auto simp: clean_ref_def)
  show ?case
    by (rule Cons.IH[of "if kind = default_kind then rs @ [full_ref default_kind ns' nm] else rs"
          "if kind \<noteq> default_kind \<and> kind = component_kind then cs @ [full_ref component_kind ns' nm] else cs"])
      (use Cons.prems item clean in \<open>auto split: if_splits\<close>)
qed simp

lemma entity_dependencies_clean:
  assumes "entity_dependencies e ns = Inr (rs, cs)"
  shows "sorted rs \<and> distinct rs \<and> sorted cs \<and> distinct cs \<and>
    (\<forall>r \<in> set rs. clean_ref default_kind r) \<and> (\<forall>r \<in> set cs. clean_ref component_kind r)"
proof -
  from assms consider "rs = []" "cs = []" | items rs' cs' where "collect_refs (m_name (en_metadata e)) ns items ([], []) = Inr (rs', cs')"
      "rs = sort (remdups rs')" "cs = sort (remdups cs')"
    unfolding entity_dependencies_def by (auto simp: and_then_Inr_iff split: option.splits doc.splits)
  then show ?thesis by cases (auto dest: collect_refs_clean)
qed

lemma char_count_append [simp]: "char_count (a @ b) = char_count a + char_count b"
  by (simp add: char_count_def)

lemma char_count_char: "w \<in> set (chars s) \<Longrightarrow> char_count w \<le> 1"
proof (induction s rule: chars.induct)
  case (2 c cs)
  have "char_count (takeWhile is_continuation cs) = 0"
    by (auto simp: char_count_def filter_empty_conv is_continuation_def dest: set_takeWhileD)
  then have "char_count (c # takeWhile is_continuation cs) \<le> 1" by (simp add: char_count_def)
  with 2 show ?case by auto
qed simp

lemma char_count_concat: "\<forall>w \<in> set ws. char_count w \<le> 1 \<Longrightarrow> char_count (concat ws) \<le> length ws"
  by (induction ws) (auto simp: char_count_def)

lemma char_count_cut: "0 < n \<Longrightarrow> char_count (cut s n) \<le> n"
proof (cases "char_count s \<le> n")
  case False
  assume "0 < n"
  have "char_count (concat (take (n - 1) (chars s))) \<le> length (take (n - 1) (chars s))"
    by (rule char_count_concat) (use char_count_char in_set_takeD in fastforce)
  also have "\<dots> \<le> n - 1" by simp
  finally have "char_count (concat (take (n - 1) (chars s))) \<le> n - 1" .
  moreover have "char_count ellipsis = 1" by (simp add: ellipsis_def char_count_def)
  ultimately show ?thesis using False \<open>0 < n\<close> by (simp add: cut_def)
qed (simp add: cut_def)

lemma http_url_web: "http_url W url = Some host \<Longrightarrow> trim url = url \<Longrightarrow> web_address W url"
  unfolding http_url_def web_address_def by (auto split: if_splits option.splits prod.splits)

lemma link_clean:
  assumes "link W item = Some l"
  shows "web_address W (ln_url l) \<and> char_count (ln_title l) \<le> max_link_text_chars"
  using assms unfolding link_def Let_def
  by (auto simp: bind_eq_Some_conv char_count_cut max_link_text_chars_def intro!: http_url_web)

lemma tags_loop_clean:
  assumes "length out < max_tags" and "distinct out" and "\<forall>t \<in> set out. is_tag t"
  shows "length (tags_loop items out) \<le> max_tags \<and> distinct (tags_loop items out) \<and> (\<forall>t \<in> set (tags_loop items out). is_tag t)"
  using assms
proof (induction items arbitrary: out)
  case (Cons item items)
  show ?case
  proof (cases "\<exists>raw. doc_str item = Some raw \<and> is_tag (lower_tag raw) \<and> lower_tag raw \<notin> set out")
    case True
    then obtain raw where raw: "doc_str item = Some raw" "is_tag (lower_tag raw)" "lower_tag raw \<notin> set out" by blast
    show ?thesis
    proof (cases "Suc (length out) = max_tags")
      case True
      then show ?thesis using raw Cons.prems by simp
    next
      case False
      then have step: "tags_loop (item # items) out = tags_loop items (out @ [lower_tag raw])" using raw by (simp add: Let_def)
      have "length (out @ [lower_tag raw]) < max_tags" using False Cons.prems(1) unfolding length_append_singleton by linarith
      moreover have "distinct (out @ [lower_tag raw])" "\<forall>t \<in> set (out @ [lower_tag raw]). is_tag t"
        using raw Cons.prems(2,3) by simp_all
      ultimately show ?thesis unfolding step by (rule Cons.IH)
    qed
  next
    case False
    then have "tags_loop (item # items) out = tags_loop items out" by (auto simp: Let_def split: option.split)
    with Cons show ?thesis by simp
  qed
qed simp

lemma map_filter_take_clean: "\<forall>x y. f x = Some y \<longrightarrow> P y \<Longrightarrow> y \<in> set (take n (List.map_filter f xs)) \<Longrightarrow> P y"
  by (auto simp: List.map_filter_def dest!: in_set_takeD)

definition context_clean :: "webhook_tools \<Rightarrow> system_context \<Rightarrow> bool" where
  "context_clean W c \<longleftrightarrow>
     (\<forall>o'. sc_owner c = Some o' \<longrightarrow> clean_part (ow_kind o') \<and> clean_part (ow_name o')) \<and>
     (\<forall>t. sc_description c = Some t \<longrightarrow> t \<noteq> [] \<and> char_count t \<le> max_description_chars) \<and>
     (\<forall>u. sc_source_location c = Some u \<longrightarrow> web_address W u) \<and>
     length (sc_links c) \<le> max_links \<and>
     (\<forall>l \<in> set (sc_links c). web_address W (ln_url l) \<and> char_count (ln_title l) \<le> max_link_text_chars) \<and>
     length (sc_tags c) \<le> max_tags \<and> distinct (sc_tags c) \<and> (\<forall>t \<in> set (sc_tags c). is_tag t)"

lemma owner_clean: "owner_ref raw = Some o' \<Longrightarrow> clean_part (ow_kind o') \<and> clean_part (ow_name o')"
  by (auto simp: owner_ref_def dest: split_ref_clean)

lemma cut_nonempty: "s \<noteq> [] \<Longrightarrow> cut s n \<noteq> []"
  by (simp add: cut_def ellipsis_def)

lemma description_clean: "bounded_description raw = Some t \<Longrightarrow> t \<noteq> [] \<and> char_count t \<le> max_description_chars"
  by (auto simp: bounded_description_def char_count_cut max_description_chars_def cut_nonempty split: if_splits)

lemma location_clean: "source_location W raw = Some u \<Longrightarrow> web_address W u"
  by (auto simp: source_location_def Let_def intro!: http_url_web)

lemma context_of_clean: "context_clean W (context_of W e)"
proof -
  have "length (tags items) \<le> max_tags \<and> distinct (tags items) \<and> (\<forall>t \<in> set (tags items). is_tag t)" for items
    unfolding tags_def by (rule tags_loop_clean) (simp_all add: max_tags_def)
  moreover have "l \<in> set (take max_links (List.map_filter (link W) items)) \<Longrightarrow>
      web_address W (ln_url l) \<and> char_count (ln_title l) \<le> max_link_text_chars" for l items
    by (rule map_filter_take_clean[of "link W"]) (auto dest: link_clean)
  ultimately show ?thesis
    unfolding context_clean_def context_of_def
    by (auto simp: bind_eq_Some_conv dest: owner_clean description_clean location_clean split: option.splits)
qed

text \<open>The name of a stored component reference is read back.\<close>

lemma ref_name_of_clean: "clean_part ns \<Longrightarrow> clean_part nm \<Longrightarrow> component_ref_name (full_ref component_kind ns nm) = Some nm"
proof -
  assume "clean_part ns" "clean_part nm"
  then have "CHR ''/'' \<notin> set nm"
    by (auto simp: clean_part_def is_ref_part_def list_all_iff is_ref_char_def is_ascii_alphanumeric_def
        is_ascii_digit_def is_ascii_upper_def is_ascii_lower_def)
  then have "rsplit_once (CHR ''/'') (ns @ ''/'' @ nm) = Some (ns, nm)"
    by (simp add: rsplit_once_def split_once_first)
  then show ?thesis by (simp add: component_ref_name_def full_ref_def component_kind_def strip_prefix_def)
qed

text \<open>
  C27: Nothing unsafe of a pushed file reaches the graph or a page. Whatever
  the file holds, when the Component is read its dependencies are sorted, each
  once, and of the form \<open>kind:namespace/name\<close> with parts of letters, digits
  and \<open>-_.\<close> in lower case (so a component's name is read back from its
  reference), every link and source location is a web address, and the owner,
  description, links and tags keep within their alphabets and limits.
\<close>

theorem component_is_clean:
  assumes "read_component from_str_multiple W yaml sys = Inr c"
  shows "sorted (cc_resources c) \<and> distinct (cc_resources c) \<and> sorted (cc_components c) \<and> distinct (cc_components c) \<and>
    (\<forall>r \<in> set (cc_resources c). clean_ref default_kind r) \<and>
    (\<forall>r \<in> set (cc_components c). clean_ref component_kind r \<and>
       (\<exists>ns nm. r = full_ref component_kind ns nm \<and> component_ref_name r = Some nm)) \<and>
    context_clean W (cc_context c) \<and> (\<forall>s. cc_system c = Some s \<longrightarrow> clean_part s)"
proof -
  from assms obtain e ns where "entity_dependencies e ns = Inr (cc_resources c, cc_components c)"
      "cc_context c = context_of W e" "cc_system c = system_of e ns"
    unfolding read_component_def by (auto simp: and_then_Inr_iff Let_def split: option.splits)
  moreover have "clean_part s" if "system_of e ns = Some s" for s
    using that by (auto simp: system_of_def bind_eq_Some_conv dest: split_ref_clean split: option.splits if_splits)
  moreover have "\<exists>ns nm. r = full_ref component_kind ns nm \<and> component_ref_name r = Some nm" if "clean_ref component_kind r" for r
    using that by (auto simp: clean_ref_def ref_name_of_clean)
  ultimately show ?thesis using entity_dependencies_clean[of e ns "cc_resources c" "cc_components c"] context_of_clean[of W e]
    by simp
qed

definition sample_catalog :: "doc list" where
  "sample_catalog =
     [DNull,
      DMap [(''apiVersion'', DStr ''backstage.io/v1alpha1''), (''kind'', DStr ''Component''),
            (''metadata'', DMap [(''name'', DStr ''orders''), (''tags'', DSeq [DStr ''Java'', DStr ''java'', DNum ''1''])]),
            (''spec'', DMap [(''owner'', DStr ''Team-A''), (''system'', DStr ''shop''),
               (''dependsOn'', DSeq [DStr ''resource:default/Orders-DB'', DStr ''cache'', DStr ''component:billing'',
                  DStr ''resource:orders-db'', DStr ''api:x''])])]]"

definition sample_hook_tools :: webhook_tools where
  "sample_hook_tools = \<lparr>url_parse = (\<lambda>_. None), json_decode_list = (\<lambda>_. None), json_encode_list = (\<lambda>_. []),
     secret_digest_hex = (\<lambda>s. s)\<rparr>"

definition sample_entity :: entity where
  "sample_entity = \<lparr>en_api_version = ''backstage.io/v1alpha1'', en_kind = ''Component'',
     en_metadata = \<lparr>m_name = ''orders'', m_namespace = None, m_description = None, m_annotations = None, m_links = None,
       m_tags = Some (DSeq [DStr ''Java'', DStr ''java'', DNum ''1''])\<rparr>,
     en_spec = Some (DMap [(''owner'', DStr ''Team-A''), (''system'', DStr ''shop''),
       (''dependsOn'', DSeq [DStr ''resource:default/Orders-DB'', DStr ''cache'', DStr ''component:billing'',
          DStr ''resource:orders-db'', DStr ''api:x''])])\<rparr>"

definition sample_component :: catalog_component where
  "sample_component = \<lparr>cc_resources = [''resource:default/cache'', ''resource:default/orders-db''],
     cc_components = [''component:default/billing''],
     cc_context = \<lparr>sc_owner = Some \<lparr>ow_kind = ''group'', ow_name = ''team-a''\<rparr>, sc_description = None,
       sc_source_location = None, sc_links = [], sc_tags = [''java'']\<rparr>,
     cc_system = Some ''shop''\<rparr>"

lemma sample_component_read:
  "read_component (\<lambda>_. Inr sample_catalog) sample_hook_tools ''x'' ''orders'' = Inr sample_component"
proof -
  have "find_component ''orders'' 0 sample_catalog None = Inr (Some sample_entity)" by code_simp
  moreover have "entity_dependencies sample_entity (entity_namespace sample_entity) =
      Inr (cc_resources sample_component, cc_components sample_component)" by code_simp
  moreover have "context_of sample_hook_tools sample_entity = cc_context sample_component" by code_simp
  moreover have "system_of sample_entity (entity_namespace sample_entity) = cc_system sample_component" by code_simp
  ultimately show ?thesis by (simp add: read_component_def)
qed

theorem component_is_clean_witness:
  "context_clean sample_hook_tools (cc_context sample_component) \<and>
   clean_ref default_kind ''resource:default/cache'' \<and> clean_ref default_kind ''resource:default/orders-db''"
  using component_is_clean[OF sample_component_read] by (simp add: sample_component_def)

end
