(* ===== verification/History.thy ===== *)
theory History
  imports Store
begin

text \<open>
  Append-only history tables. A statement closes current rows, refreshes
  columns that are not part of what a reader of the past sees, or inserts a
  new current row of a key that has none (the partial unique index
  \<open>WHERE valid_to IS NULL\<close>). This theory states that discipline once: a
  table driven by such statements has at most one current row of a key, and
  what it answers for an earlier instant never changes, the refreshed columns
  aside. The tables of the dependency graph are instances (theory \<open>Pins\<close>).
\<close>

section \<open>Rows in time\<close>

definition is_open :: "'a temporal_scheme \<Rightarrow> bool" where
  "is_open r \<longleftrightarrow> valid_to r = None"

definition close_row :: "stamp \<Rightarrow> 'a temporal_scheme \<Rightarrow> 'a temporal_scheme" where
  "close_row now r = r\<lparr>valid_to := Some now\<rparr>"

definition close_where :: "('a temporal_scheme \<Rightarrow> bool) \<Rightarrow> stamp \<Rightarrow> 'a temporal_scheme list \<Rightarrow> 'a temporal_scheme list" where
  "close_where p now rs = update_where (\<lambda>r. is_open r \<and> p r) (close_row now) rs"

text \<open>\<open>valid_from <= ? AND (valid_to IS NULL OR valid_to > ?)\<close>\<close>

definition alive_at :: "stamp \<Rightarrow> 'a temporal_scheme \<Rightarrow> bool" where
  "alive_at t r \<longleftrightarrow> valid_from r \<le> t \<and> (case valid_to r of None \<Rightarrow> True | Some x \<Rightarrow> t < x)"

definition one_open :: "('a temporal_scheme \<Rightarrow> 'k) \<Rightarrow> 'a temporal_scheme list \<Rightarrow> bool" where
  "one_open key rs \<longleftrightarrow> distinct (map key (filter is_open rs))"

text \<open>What a reader sees of the table at an instant.\<close>

definition seen_at :: "('a temporal_scheme \<Rightarrow> 'v) \<Rightarrow> stamp \<Rightarrow> 'a temporal_scheme list \<Rightarrow> 'v list" where
  "seen_at view t rs = map view (filter (alive_at t) rs)"

lemma is_open_close [simp]: "\<not> is_open (close_row now r)"
  by (simp add: is_open_def close_row_def)

lemma alive_close: "is_open r \<Longrightarrow> t < now \<Longrightarrow> alive_at t (close_row now r) = alive_at t r"
  by (simp add: is_open_def alive_at_def close_row_def)

lemma alive_before: "t < valid_from r \<Longrightarrow> \<not> alive_at t r"
  by (auto simp: alive_at_def)

lemma filter_open_close: "filter is_open (close_where p now rs) = filter (\<lambda>r. is_open r \<and> \<not> p r) rs"
  by (induction rs) (auto simp: close_where_def update_where_def)

lemma seen_at_append [simp]: "seen_at view t (rs @ qs) = seen_at view t rs @ seen_at view t qs"
  by (simp add: seen_at_def)

section \<open>The discipline\<close>

definition unclosable :: "('a temporal_scheme \<Rightarrow> 'b) \<Rightarrow> bool" where
  "unclosable f \<longleftrightarrow> (\<forall>r x. f (r\<lparr>valid_to := x\<rparr>) = f r)"

inductive history_steps ::
    "('a temporal_scheme \<Rightarrow> 'k) \<Rightarrow> ('a temporal_scheme \<Rightarrow> 'v) \<Rightarrow> stamp \<Rightarrow>
     'a temporal_scheme list \<Rightarrow> 'a temporal_scheme list \<Rightarrow> bool"
  for key :: "'a temporal_scheme \<Rightarrow> 'k" and view :: "'a temporal_scheme \<Rightarrow> 'v" and now :: stamp
    and rs :: "'a temporal_scheme list" where
  none: "history_steps key view now rs rs"
| close: "history_steps key view now rs qs \<Longrightarrow> history_steps key view now rs (close_where p now qs)"
| refresh: "history_steps key view now rs qs \<Longrightarrow>
    (\<And>r. key (f r) = key r \<and> view (f r) = view r \<and> valid_from (f r) = valid_from r \<and> valid_to (f r) = valid_to r) \<Longrightarrow>
    history_steps key view now rs (update_where p f qs)"
| insert: "history_steps key view now rs qs \<Longrightarrow>
    (\<And>r. r \<in> set qs \<Longrightarrow> is_open r \<Longrightarrow> key r \<noteq> key x) \<Longrightarrow> valid_from x = now \<Longrightarrow> valid_to x = None \<Longrightarrow>
    history_steps key view now rs (qs @ [x])"

lemma history_steps_trans:
  "history_steps key view now qs ps \<Longrightarrow> history_steps key view now rs qs \<Longrightarrow> history_steps key view now rs ps"
  by (induction rule: history_steps.induct) (auto intro: history_steps.intros)

lemma one_open_close: "one_open key rs \<Longrightarrow> one_open key (close_where p now rs)"
  by (simp add: one_open_def filter_open_close distinct_map_filter_mono flip: filter_filter)

lemma one_open_refresh:
  assumes "\<And>r. key (f r) = key r \<and> valid_to (f r) = valid_to r"
  shows "one_open key (update_where p f rs) = one_open key rs"
proof -
  have "map key (filter is_open (update_where p f rs)) = map key (filter is_open rs)"
    using assms by (induction rs) (auto simp: update_where_def is_open_def)
  then show ?thesis by (simp add: one_open_def)
qed

lemma one_open_insert:
  assumes "one_open key rs" and "\<And>r. r \<in> set rs \<Longrightarrow> is_open r \<Longrightarrow> key r \<noteq> key x"
  shows "one_open key (rs @ [x])"
proof -
  have "key x \<notin> set (map key (filter is_open rs))" using assms(2) by fastforce
  with assms(1) show ?thesis by (simp add: one_open_def)
qed

lemma seen_at_close:
  assumes "unclosable view" and "t < now"
  shows "seen_at view t (close_where p now rs) = seen_at view t rs"
proof -
  have "view (close_row now r) = view r" for r
    using assms(1) by (simp add: unclosable_def close_row_def)
  with assms(2) show ?thesis
    by (induction rs) (auto simp: seen_at_def close_where_def update_where_def alive_close)
qed

lemma seen_at_refresh:
  assumes "\<And>r. view (f r) = view r \<and> valid_from (f r) = valid_from r \<and> valid_to (f r) = valid_to r"
  shows "seen_at view t (update_where p f rs) = seen_at view t rs"
proof -
  have "alive_at t (f r) = alive_at t r" for r using assms by (simp add: alive_at_def)
  with assms show ?thesis by (induction rs) (auto simp: seen_at_def update_where_def)
qed

lemma history_one_open: "history_steps key view now rs qs \<Longrightarrow> one_open key rs \<Longrightarrow> one_open key qs"
proof (induction rule: history_steps.induct)
  case (refresh qs f p)
  then show ?case using one_open_refresh[of key f p qs] by blast
qed (auto intro: one_open_close one_open_insert)

lemma history_past:
  "history_steps key view now rs qs \<Longrightarrow> unclosable view \<Longrightarrow> t < now \<Longrightarrow> seen_at view t qs = seen_at view t rs"
proof (induction rule: history_steps.induct)
  case (insert qs x)
  then show ?case by (simp add: seen_at_def alive_before)
next
  case (refresh qs f p)
  then show ?case using seen_at_refresh[of view f t p qs] by metis
qed (simp_all add: seen_at_close)

text \<open>
  With a clock that does not run backwards (no stamp of the table is later
  than \<open>now\<close>) the intervals of one key do not overlap: at no instant do two
  rows of a key answer.
\<close>

definition stamped_upto :: "stamp \<Rightarrow> 'a temporal_scheme list \<Rightarrow> bool" where
  "stamped_upto now rs \<longleftrightarrow> (\<forall>r \<in> set rs. valid_from r \<le> now \<and> (\<forall>x. valid_to r = Some x \<longrightarrow> x \<le> now))"

definition one_alive :: "('a temporal_scheme \<Rightarrow> 'k) \<Rightarrow> 'a temporal_scheme list \<Rightarrow> bool" where
  "one_alive key rs \<longleftrightarrow> (\<forall>t. distinct (map key (filter (alive_at t) rs)))"

lemma stamped_close: "stamped_upto now rs \<Longrightarrow> stamped_upto now (close_where p now rs)"
  by (auto simp: stamped_upto_def close_where_def update_where_def close_row_def)

lemma stamped_refresh:
  assumes "\<And>r. valid_from (f r) = valid_from r \<and> valid_to (f r) = valid_to r"
  shows "stamped_upto now (update_where p f rs) = stamped_upto now rs"
  using assms by (auto simp: stamped_upto_def update_where_def simp del: if_image_distrib split: if_splits)

lemma stamped_mono: "stamped_upto now rs \<Longrightarrow> now \<le> later \<Longrightarrow> stamped_upto later rs"
  by (fastforce simp: stamped_upto_def)

lemma history_stamped: "history_steps key view now rs qs \<Longrightarrow> stamped_upto now rs \<Longrightarrow> stamped_upto now qs"
proof (induction rule: history_steps.induct)
  case (refresh qs f p)
  then show ?case using stamped_refresh[of f now p qs] by blast
next
  case (insert qs x)
  then have "stamped_upto now qs" by blast
  with insert.hyps(3,4) show ?case by (simp add: stamped_upto_def)
qed (auto intro: stamped_close)

lemma alive_closed: "alive_at t (close_row now r) \<Longrightarrow> is_open r \<Longrightarrow> alive_at t r"
  by (simp add: alive_at_def close_row_def is_open_def)

lemma one_alive_close:
  assumes "unclosable key" and "one_alive key rs"
  shows "one_alive key (close_where p now rs)"
  unfolding one_alive_def
proof
  fix t
  have key: "key (close_row now r) = key r" for r
    using assms(1) by (simp add: unclosable_def close_row_def)
  have "subseq (map key (filter (alive_at t) (close_where p now rs))) (map key (filter (alive_at t) rs))"
    by (induction rs) (auto simp: close_where_def update_where_def key dest: alive_closed)
  with assms(2) show "distinct (map key (filter (alive_at t) (close_where p now rs)))"
    unfolding one_alive_def by (metis subseq_conv_nths distinct_nthsI)
qed

lemma one_alive_refresh:
  assumes "\<And>r. key (f r) = key r \<and> valid_from (f r) = valid_from r \<and> valid_to (f r) = valid_to r"
  shows "one_alive key (update_where p f rs) = one_alive key rs"
proof -
  have "alive_at t (f r) = alive_at t r" for t r using assms by (simp add: alive_at_def)
  then have "map key (filter (alive_at t) (update_where p f rs)) = map key (filter (alive_at t) rs)" for t
    using assms by (induction rs) (auto simp: update_where_def)
  then show ?thesis by (simp add: one_alive_def)
qed

lemma one_alive_insert:
  assumes "one_alive key rs" and "stamped_upto now rs" and "valid_from x = now"
    and "\<And>r. r \<in> set rs \<Longrightarrow> is_open r \<Longrightarrow> key r \<noteq> key x"
  shows "one_alive key (rs @ [x])"
  unfolding one_alive_def
proof
  fix t
  have "key r \<noteq> key x" if "alive_at t x" "r \<in> set rs" "alive_at t r" for r
  proof -
    have "now \<le> t" using that(1) assms(3) by (simp add: alive_at_def)
    have "is_open r"
    proof (cases "valid_to r")
      case (Some y)
      then have "y \<le> now" using assms(2) that(2) by (simp add: stamped_upto_def)
      with Some that(3) \<open>now \<le> t\<close> show ?thesis by (auto simp: alive_at_def)
    qed (simp add: is_open_def)
    with assms(4) that(2) show ?thesis by blast
  qed
  with assms(1) show "distinct (map key (filter (alive_at t) (rs @ [x])))"
    by (fastforce simp: one_alive_def)
qed

lemma history_one_alive:
  "history_steps key view now rs qs \<Longrightarrow> unclosable key \<Longrightarrow> stamped_upto now rs \<Longrightarrow> one_alive key rs \<Longrightarrow>
   one_alive key qs"
proof (induction rule: history_steps.induct)
  case (refresh qs f p)
  then show ?case using one_alive_refresh[of key f p qs] by blast
next
  case (insert qs x)
  then have "stamped_upto now qs" using history_stamped by blast
  with insert show ?case using one_alive_insert[of key qs now x] by blast
qed (auto intro: one_alive_close)

section \<open>Interface: a history table\<close>

locale history_table =
  fixes key :: "'a temporal_scheme \<Rightarrow> 'k"
    and view :: "'a temporal_scheme \<Rightarrow> 'v"
    and store :: "stamp \<Rightarrow> 'p \<Rightarrow> 'a temporal_scheme list \<Rightarrow> 'a temporal_scheme list"
  assumes key_closed: "unclosable key" and view_closed: "unclosable view"
    and store_steps: "history_steps key view now rs (store now p rs)"
begin

lemma store_one_open: "one_open key rs \<Longrightarrow> one_open key (store now p rs)"
  using store_steps by (rule history_one_open)

lemma store_past: "t < now \<Longrightarrow> seen_at view t (store now p rs) = seen_at view t rs"
  using store_steps view_closed by (rule history_past)

lemma writes_one_open:
  "one_open key rs \<Longrightarrow> one_open key (foldl (\<lambda>rs (now, p). store now p rs) rs ws)"
  by (induction ws arbitrary: rs) (auto intro: store_one_open)

lemma writes_one_alive:
  "sorted (now0 # map fst ws) \<Longrightarrow> stamped_upto now0 rs \<Longrightarrow> one_alive key rs \<Longrightarrow>
   one_alive key (foldl (\<lambda>rs (now, p). store now p rs) rs ws)"
proof (induction ws arbitrary: now0 rs)
  case (Cons w ws)
  obtain now p where w: "w = (now, p)" by (cases w)
  with Cons.prems have "stamped_upto now rs" by (auto intro: stamped_mono)
  then have "stamped_upto now (store now p rs)" "one_alive key (store now p rs)"
    using history_stamped[OF store_steps] history_one_alive[OF store_steps key_closed] Cons.prems by blast+
  with Cons.IH[of now "store now p rs"] Cons.prems w show ?case by simp
qed simp

lemma writes_past:
  "(\<And>now p. (now, p) \<in> set ws \<Longrightarrow> t < now) \<Longrightarrow>
   seen_at view t (foldl (\<lambda>rs (now, p). store now p rs) rs ws) = seen_at view t rs"
proof (induction ws arbitrary: rs)
  case (Cons w ws)
  obtain now p where w: "w = (now, p)" by (cases w)
  with Cons.prems have "t < now" by auto
  moreover have "seen_at view t (foldl (\<lambda>rs (now, p). store now p rs) (store now p rs) ws) =
      seen_at view t (store now p rs)"
    by (rule Cons.IH) (use Cons.prems in auto)
  ultimately show ?case by (simp add: w store_past)
qed simp

end

end
