(* ===== verification/Pins.thy ===== *)
theory Pins
  imports History
begin

text \<open>
  The dependency graphs of \<open>sqlite_repository.rs\<close>: trunk and branch pins,
  member versions, harvested subscriptions and the periphery, each an
  append-only table, and the deletions that touch them.
\<close>

section \<open>Pins\<close>

record pin_params =
  pp_client_id :: row_id
  pp_service_id :: row_id
  pp_api_type :: api_type
  pp_version :: semver
  pp_path :: string
  pp_normalized_path :: string
  pp_method :: string

type_synonym pin_key_type = "row_id \<times> row_id \<times> api_type \<times> string \<times> string"

definition pin_key :: "('a) pin_row_scheme \<Rightarrow> pin_key_type" where
  "pin_key r = (k_client_id r, k_service_id r, k_api_type r, k_normalized_path r, k_method r)"

definition pp_key :: "pin_params \<Rightarrow> pin_key_type" where
  "pp_key p = (pp_client_id p, pp_service_id p, pp_api_type p, pp_normalized_path p, pp_method p)"

definition refresh_pin :: "stamp \<Rightarrow> ('a) pin_row_scheme \<Rightarrow> ('a) pin_row_scheme" where
  "refresh_pin now r = r\<lparr>k_last_required_at := now\<rparr>"

text \<open>
  Append semantics of one pin: a different version closes the open record, the
  same version refreshes it, and otherwise a fresh record is opened (the
  partial unique index turns a second one into a refresh).
\<close>

definition record_pin_row ::
    "(('a) pin_row_scheme \<Rightarrow> bool) \<Rightarrow> semver \<Rightarrow> stamp \<Rightarrow> ('a) pin_row_scheme \<Rightarrow>
     ('a) pin_row_scheme list \<Rightarrow> ('a) pin_row_scheme list" where
  "record_pin_row hit v now x rs =
     (let rs1 = close_where (\<lambda>r. hit r \<and> k_version r \<noteq> v) now rs in
      if exists_row (\<lambda>r. is_open r \<and> hit r \<and> k_version r = v) rs1
      then update_where (\<lambda>r. is_open r \<and> hit r \<and> k_version r = v) (refresh_pin now) rs1
      else if exists_row (\<lambda>r. is_open r \<and> hit r) rs1
      then update_where (\<lambda>r. is_open r \<and> hit r) (refresh_pin now) rs1
      else rs1 @ [x])"

definition name_or_empty :: "string option \<Rightarrow> string" where
  "name_or_empty n = (case n of None \<Rightarrow> [] | Some s \<Rightarrow> s)"

definition new_pin :: "db \<Rightarrow> pin_params \<Rightarrow> stamp \<Rightarrow> pin_row" where
  "new_pin db p now =
     \<lparr>valid_from = now, valid_to = None, k_client_id = pp_client_id p,
      k_client_name = name_or_empty (get_client_name db (pp_client_id p)),
      k_service_id = pp_service_id p,
      k_service_name = name_or_empty (get_service_name_by_id db (pp_service_id p)),
      k_api_type = pp_api_type p, k_path = pp_path p, k_normalized_path = pp_normalized_path p,
      k_method = pp_method p, k_version = pp_version p, k_last_required_at = now\<rparr>"

definition record_trunk_pin :: "stamp \<Rightarrow> pin_row \<Rightarrow> pin_row list \<Rightarrow> pin_row list" where
  "record_trunk_pin now x rs =
     record_pin_row (\<lambda>r. pin_key r = pin_key x) (k_version x) now (x\<lparr>valid_from := now, valid_to := None\<rparr>) rs"

definition record_trunk_pins :: "pin_params list \<Rightarrow> stamp \<Rightarrow> db \<Rightarrow> db" where
  "record_trunk_pins ps now db =
     db\<lparr>trunk_deps := foldl (\<lambda>rs p. record_trunk_pin now (new_pin db p now) rs) (trunk_deps db) ps\<rparr>"

definition branch_pin_key :: "branch_pin_row \<Rightarrow> row_id \<times> pin_key_type" where
  "branch_pin_key r = (k_branch_id r, pin_key r)"

definition record_branch_pin :: "stamp \<Rightarrow> branch_pin_row \<Rightarrow> branch_pin_row list \<Rightarrow> branch_pin_row list" where
  "record_branch_pin now x rs =
     record_pin_row (\<lambda>r. branch_pin_key r = branch_pin_key x) (k_version x) now
       (x\<lparr>valid_from := now, valid_to := None\<rparr>) rs"

definition on_branch :: "row_id \<Rightarrow> pin_row \<Rightarrow> branch_pin_row" where
  "on_branch bid r = pin_row.extend r \<lparr>k_branch_id = bid\<rparr>"

definition record_branch_pins :: "row_id \<Rightarrow> pin_params list \<Rightarrow> stamp \<Rightarrow> db \<Rightarrow> db" where
  "record_branch_pins bid ps now db =
     db\<lparr>branch_deps := foldl (\<lambda>rs p. record_branch_pin now (on_branch bid (new_pin db p now)) rs)
                         (branch_deps db) ps\<rparr>"

definition pin_row_to_info :: "('a) pin_row_scheme \<Rightarrow> trunk_pin_info" where
  "pin_row_to_info r =
     \<lparr>p_client = k_client_name r, p_service = k_service_name r, p_api_type = k_api_type r,
      p_version = k_version r, p_path = k_path r, p_normalized_path = k_normalized_path r,
      p_method = k_method r, p_valid_from = valid_from r, p_last_required_at = k_last_required_at r,
      p_dangling = False\<rparr>"

definition order_pins :: "trunk_pin_info list \<Rightarrow> trunk_pin_info list" where
  "order_pins ps = sort_key (\<lambda>p. (p_client p, p_service p, p_path p, p_method p)) ps"

definition list_current_trunk_pins :: "db \<Rightarrow> trunk_pin_info list" where
  "list_current_trunk_pins db = order_pins (map pin_row_to_info (filter is_open (trunk_deps db)))"

definition list_trunk_pins_at :: "db \<Rightarrow> stamp \<Rightarrow> trunk_pin_info list" where
  "list_trunk_pins_at db t = order_pins (map pin_row_to_info (filter (alive_at t) (trunk_deps db)))"

definition list_branch_pins :: "db \<Rightarrow> row_id \<Rightarrow> stamp option \<Rightarrow> trunk_pin_info list" where
  "list_branch_pins db bid at =
     order_pins (map pin_row_to_info
       (filter (\<lambda>r. k_branch_id r = bid \<and> (case at of Some t \<Rightarrow> alive_at t r | None \<Rightarrow> is_open r))
         (branch_deps db)))"

section \<open>Member versions\<close>

definition member_key :: "('a) member_row_scheme \<Rightarrow> row_id \<times> api_type" where
  "member_key r = (mv_service_id r, mv_api_type r)"

text \<open>
  The marker of trunk's version: the open record of the line is closed when it
  names another version, refreshed when it names this one, and opened
  otherwise.
\<close>

definition record_trunk_member :: "stamp \<Rightarrow> trunk_member_row \<Rightarrow> trunk_member_row list \<Rightarrow> trunk_member_row list" where
  "record_trunk_member now x rs =
     (let rs1 = close_where (\<lambda>r. member_key r = member_key x \<and> mv_version r \<noteq> mv_version x) now rs;
          same = (\<lambda>r. is_open r \<and> member_key r = member_key x \<and> mv_version r = mv_version x) in
      if exists_row same rs1 then update_where same (\<lambda>r. r\<lparr>mv_last_provided_at := now\<rparr>) rs1
      else rs1 @ [x\<lparr>valid_from := now, valid_to := None\<rparr>])"

definition touch_spec_version_trunk :: "row_id \<Rightarrow> stamp \<Rightarrow> db \<Rightarrow> db" where
  "touch_spec_version_trunk vid now db =
     (let db1 = db\<lparr>spec_versions := update_where (\<lambda>r. v_id r = vid)
                     (v_trunk_provided_at_update (\<lambda>_. Some now)) (spec_versions db)\<rparr> in
      case find_version_by_id db vid of
        None \<Rightarrow> db1
      | Some v \<Rightarrow> db1\<lparr>trunk_members := record_trunk_member now
          \<lparr>valid_from = now, valid_to = None, mv_service_id = v_service_id v,
           mv_service_name = name_or_empty (get_service_name_by_id db (v_service_id v)),
           mv_api_type = v_api_type v, mv_version = v_version v, mv_last_provided_at = now\<rparr>
          (trunk_members db)\<rparr>)"

definition branch_member_key :: "branch_member_row \<Rightarrow> row_id \<times> row_id \<times> api_type" where
  "branch_member_key r = (mv_branch_id r, member_key r)"

definition record_branch_member ::
    "stamp \<Rightarrow> branch_member_row \<Rightarrow> branch_member_row list \<Rightarrow> branch_member_row list" where
  "record_branch_member now x rs =
     (let rs1 = close_where (\<lambda>r. branch_member_key r = branch_member_key x \<and> mv_version r \<noteq> mv_version x) now rs in
      if exists_row (\<lambda>r. is_open r \<and> branch_member_key r = branch_member_key x \<and> mv_version r = mv_version x) rs1
      then rs1
      else rs1 @ [x\<lparr>valid_from := now, valid_to := None\<rparr>])"

definition record_branch_member_version ::
    "row_id \<Rightarrow> row_id \<Rightarrow> api_type \<Rightarrow> semver \<Rightarrow> stamp \<Rightarrow> db \<Rightarrow> db" where
  "record_branch_member_version bid sid t v now db =
     db\<lparr>branch_members := record_branch_member now
          \<lparr>valid_from = now, valid_to = None, mv_service_id = sid,
           mv_service_name = name_or_empty (get_service_name_by_id db sid),
           mv_api_type = t, mv_version = v, mv_branch_id = bid\<rparr> (branch_members db)\<rparr>"

section \<open>Harvested subscriptions\<close>

definition harvest_key :: "harvest_row \<Rightarrow> row_id \<times> string \<times> string" where
  "harvest_key r = (hv_client_id r, hv_channel r, hv_message_name r)"

definition harvest_matches :: "bool \<Rightarrow> harvested_sub_input \<Rightarrow> harvest_row \<Rightarrow> bool" where
  "harvest_matches trunk s r \<longleftrightarrow>
     hi_channel s = hv_channel r \<and> hi_message_name s = hv_message_name r \<and>
     hi_owner_service_id s = hv_owner_service_id r \<and> hv_trunk r = trunk"

text \<open>
  Close each open row of the client that is gone or changed; then open a row
  for each declared subscription without an unchanged one (a duplicate in the
  declared set meets the partial unique index and does nothing).
\<close>

definition open_of_client :: "row_id \<Rightarrow> harvest_row list \<Rightarrow> harvest_row list" where
  "open_of_client cid rs = filter (\<lambda>r. hv_client_id r = cid \<and> is_open r) rs"

definition close_dropped ::
    "row_id \<Rightarrow> bool \<Rightarrow> harvested_sub_input list \<Rightarrow> stamp \<Rightarrow> harvest_row list \<Rightarrow> harvest_row list \<Rightarrow> harvest_row list" where
  "close_dropped cid trunk subs now opened rs =
     foldl (\<lambda>rs o'. if list_ex (\<lambda>s. harvest_matches trunk s o') subs then rs
                    else close_where (\<lambda>r. harvest_key r = (cid, hv_channel o', hv_message_name o')) now rs) rs opened"

definition open_declared ::
    "row_id \<Rightarrow> string \<Rightarrow> bool \<Rightarrow> harvested_sub_input list \<Rightarrow> stamp \<Rightarrow> harvest_row list \<Rightarrow> harvest_row list \<Rightarrow> harvest_row list" where
  "open_declared cid cname trunk subs now opened rs =
     foldl (\<lambda>rs s. if list_ex (\<lambda>o'. harvest_matches trunk s o') opened then rs
                   else if exists_row (\<lambda>r. is_open r \<and> harvest_key r = (cid, hi_channel s, hi_message_name s)) rs then rs
                   else rs @ [\<lparr>valid_from = now, valid_to = None, hv_client_id = cid, hv_client_name = cname,
                               hv_channel = hi_channel s, hv_message_name = hi_message_name s,
                               hv_owner_service_id = hi_owner_service_id s, hv_owner_name = hi_owner_name s,
                               hv_trunk = trunk\<rparr>]) rs subs"

definition reconcile_harvest_rows ::
    "stamp \<Rightarrow> row_id \<times> string \<times> bool \<times> harvested_sub_input list \<Rightarrow> harvest_row list \<Rightarrow> harvest_row list" where
  "reconcile_harvest_rows now p rs =
     (case p of (cid, cname, trunk, subs) \<Rightarrow>
        (let opened = open_of_client cid rs in
         open_declared cid cname trunk subs now opened (close_dropped cid trunk subs now opened rs)))"

definition reconcile_harvested_subscriptions ::
    "row_id \<Rightarrow> string \<Rightarrow> bool \<Rightarrow> harvested_sub_input list \<Rightarrow> stamp \<Rightarrow> db \<Rightarrow> db" where
  "reconcile_harvested_subscriptions cid cname trunk subs now db =
     db\<lparr>harvested := reconcile_harvest_rows now (cid, cname, trunk, subs) (harvested db)\<rparr>"

definition list_current_harvested_subscriptions :: "db \<Rightarrow> harvested_subscription list" where
  "list_current_harvested_subscriptions db =
     sort_key (\<lambda>h. (hs_client h, hs_channel h, hs_message_name h))
       (map (\<lambda>r. \<lparr>hs_client = hv_client_name r, hs_channel = hv_channel r, hs_message_name = hv_message_name r,
                  hs_owner = hv_owner_name r, hs_trunk = hv_trunk r\<rparr>)
         (filter is_open (harvested db)))"

section \<open>Periphery\<close>

definition periphery_key :: "periphery_row \<Rightarrow> periphery_track \<times> string \<times> string" where
  "periphery_key r = (pe_track r, pe_system r, pe_resource r)"

definition open_resources :: "periphery_track \<Rightarrow> string \<Rightarrow> periphery_row list \<Rightarrow> string list" where
  "open_resources track sys rs =
     map pe_resource (filter (\<lambda>r. pe_track r = track \<and> pe_system r = sys \<and> is_open r) rs)"

definition reconcile_track ::
    "stamp \<Rightarrow> periphery_track \<times> string \<times> string list \<Rightarrow> periphery_row list \<Rightarrow> periphery_row list" where
  "reconcile_track now p rs =
     (case p of (track, sys, resources) \<Rightarrow>
       (let opened = open_resources track sys rs;
            rs1 = foldl (\<lambda>rs res. if res \<in> set resources then rs
                      else close_where (\<lambda>r. periphery_key r = (track, sys, res)) now rs) rs opened
        in foldl (\<lambda>rs res. if res \<in> set opened then rs
                   else if exists_row (\<lambda>r. is_open r \<and> periphery_key r = (track, sys, res)) rs then rs
                   else rs @ [\<lparr>valid_from = now, valid_to = None, pe_track = track, pe_system = sys,
                               pe_resource = res\<rparr>]) rs1 resources))"

definition track_changed :: "periphery_track \<Rightarrow> string \<Rightarrow> string list \<Rightarrow> periphery_row list \<Rightarrow> bool" where
  "track_changed track sys resources rs =
     (let opened = open_resources track sys rs in
      list_ex (\<lambda>r. r \<notin> set resources) opened \<or> list_ex (\<lambda>r. r \<notin> set opened) resources)"

definition reconcile_periphery ::
    "string \<Rightarrow> bool \<Rightarrow> string list \<Rightarrow> stamp \<Rightarrow> new_webhook_event list \<Rightarrow> db \<Rightarrow> bool \<times> db" where
  "reconcile_periphery sys trunk resources now evs db =
     (let tracks = DevTrack # (if trunk then [TrunkTrack] else []) in
      (list_ex (\<lambda>t. track_changed t sys resources (periphery db)) tracks,
       write_outbox evs (db\<lparr>periphery :=
         foldl (\<lambda>rs t. reconcile_track now (t, sys, resources) rs) (periphery db) tracks\<rparr>)))"

definition list_periphery :: "db \<Rightarrow> periphery_track \<Rightarrow> stamp option \<Rightarrow> (string \<times> string) list" where
  "list_periphery db track at =
     sort (map (\<lambda>r. (pe_system r, pe_resource r))
       (filter (\<lambda>r. pe_track r = track \<and> (case at of Some t \<Rightarrow> alive_at t r | None \<Rightarrow> is_open r)) (periphery db)))"

section \<open>Expiry and deletion\<close>

definition close_expired_trunk_data :: "stamp \<Rightarrow> stamp \<Rightarrow> db \<Rightarrow> nat \<times> db" where
  "close_expired_trunk_data cutoff now db =
     (length (filter (\<lambda>r. is_open r \<and> k_last_required_at r < cutoff) (trunk_deps db)),
      db\<lparr>trunk_deps := close_where (\<lambda>r. k_last_required_at r < cutoff) now (trunk_deps db),
         spec_versions := update_where (\<lambda>v. case v_trunk_provided_at v of None \<Rightarrow> False | Some x \<Rightarrow> x < cutoff)
           (v_trunk_provided_at_update (\<lambda>_. None)) (spec_versions db),
         trunk_members := close_where (\<lambda>r. mv_last_provided_at r < cutoff) now (trunk_members db)\<rparr>)"

definition close_trunk_pins_for_service_api :: "row_id \<Rightarrow> api_type \<Rightarrow> stamp \<Rightarrow> db \<Rightarrow> nat \<times> db" where
  "close_trunk_pins_for_service_api sid t now db =
     (length (filter (\<lambda>r. is_open r \<and> k_service_id r = sid \<and> k_api_type r = t) (trunk_deps db)),
      db\<lparr>trunk_deps := close_where (\<lambda>r. k_service_id r = sid \<and> k_api_type r = t) now (trunk_deps db),
         trunk_members := close_where (\<lambda>r. mv_service_id r = sid \<and> mv_api_type r = t) now (trunk_members db)\<rparr>)"

text \<open>Removing versions cascades to their endpoints and recorded dependencies.\<close>

definition remove_versions :: "(spec_version_row \<Rightarrow> bool) \<Rightarrow> db \<Rightarrow> db" where
  "remove_versions p db =
     (let gone = set (map v_id (filter p (spec_versions db))) in
      db\<lparr>spec_versions := delete_where p (spec_versions db),
         endpoints := delete_where (\<lambda>e. e_spec_version_id e \<in> gone) (endpoints db),
         dependencies := delete_where (\<lambda>d. dep_spec_version_id d \<in> gone) (dependencies db)\<rparr>)"

definition delete_spec_version :: "row_id \<Rightarrow> stamp \<Rightarrow> db \<Rightarrow> bool \<times> db" where
  "delete_spec_version vid now db =
     (exists_row (\<lambda>v. v_id v = vid) (spec_versions db),
      remove_versions (\<lambda>v. v_id v = vid)
        (db\<lparr>origins := delete_where (\<lambda>x. fst x = vid) (origins db),
            trunk_members := close_where (\<lambda>m. exists_row (\<lambda>v. v_id v = vid \<and> v_service_id v = mv_service_id m \<and>
               v_api_type v = mv_api_type m \<and> v_version v = mv_version m) (spec_versions db)) now (trunk_members db)\<rparr>))"

definition expired_snapshot :: "stamp \<Rightarrow> spec_version_row \<Rightarrow> bool" where
  "expired_snapshot cutoff v \<longleftrightarrow> v_stability v = Snapshot \<and> v_updated_at v < cutoff \<and>
     (case v_last_required_at v of None \<Rightarrow> True | Some x \<Rightarrow> x < cutoff)"

definition delete_expired_snapshots :: "stamp \<Rightarrow> db \<Rightarrow> nat \<times> db" where
  "delete_expired_snapshots cutoff db =
     (let db1 = remove_versions (expired_snapshot cutoff) db in
      (length (filter (expired_snapshot cutoff) (spec_versions db)),
       db1\<lparr>origins := filter (\<lambda>x. fst x \<in> v_id ` set (spec_versions db1)) (origins db1)\<rparr>))"

definition delete_producer :: "string \<Rightarrow> stamp \<Rightarrow> db \<Rightarrow> bool \<times> db" where
  "delete_producer nm now db =
     (case find_service db nm of
        None \<Rightarrow> (False, db)
      | Some sid \<Rightarrow>
          (let gone = set (map v_id (filter (\<lambda>v. v_service_id v = sid) (spec_versions db)));
               db1 = remove_versions (\<lambda>v. v_service_id v = sid) db in
           (True, db1\<lparr>origins := delete_where (\<lambda>x. fst x \<in> gone) (origins db1),
             trunk_deps := close_where (\<lambda>r. k_service_id r = sid) now (trunk_deps db1),
             trunk_members := close_where (\<lambda>r. mv_service_id r = sid) now (trunk_members db1),
             services := delete_where (\<lambda>s. fst s = sid) (services db1),
             service_metas := delete_where (\<lambda>m. fst m = sid) (service_metas db1),
             service_tags := delete_where (\<lambda>t. fst t = sid) (service_tags db1),
             contracts := delete_where (\<lambda>c. c_owner_service_id c = sid) (contracts db1),
             harvested := update_where (\<lambda>h. hv_owner_service_id h = Some sid)
               (hv_owner_service_id_update (\<lambda>_. None)) (harvested db1)\<rparr>)))"

definition delete_consumer :: "string \<Rightarrow> stamp \<Rightarrow> db \<Rightarrow> bool \<times> db" where
  "delete_consumer nm now db =
     (case find_client db nm of
        None \<Rightarrow> (False, db)
      | Some cid \<Rightarrow>
          (True, db\<lparr>dependencies := delete_where (\<lambda>d. dep_client_id d = cid) (dependencies db),
             trunk_deps := close_where (\<lambda>r. k_client_id r = cid) now (trunk_deps db),
             clients := delete_where (\<lambda>c. fst c = cid) (clients db),
             harvested := delete_where (\<lambda>h. hv_client_id h = cid) (harvested db)\<rparr>))"

section \<open>The tables keep the discipline of history\<close>

text \<open>What a reader of the past sees of a row.\<close>

definition pin_view :: "('a) pin_row_scheme \<Rightarrow> string \<times> string \<times> api_type \<times> semver \<times> string \<times> string \<times> string \<times> stamp" where
  "pin_view r = (k_client_name r, k_service_name r, k_api_type r, k_version r, k_path r,
                 k_normalized_path r, k_method r, valid_from r)"

definition branch_pin_view where
  "branch_pin_view r = (k_branch_id r, pin_view r)"

definition member_view :: "('a) member_row_scheme \<Rightarrow> string \<times> api_type \<times> semver \<times> stamp" where
  "member_view r = (mv_service_name r, mv_api_type r, mv_version r, valid_from r)"

definition branch_member_view where
  "branch_member_view r = (mv_branch_id r, member_view r)"

definition harvest_view :: "harvest_row \<Rightarrow> string \<times> string \<times> string \<times> string option \<times> bool \<times> stamp" where
  "harvest_view r = (hv_client_name r, hv_channel r, hv_message_name r, hv_owner_name r, hv_trunk r, valid_from r)"

definition periphery_view where
  "periphery_view r = (periphery_key r, valid_from r)"

lemmas row_keys = pin_key_def branch_pin_key_def member_key_def branch_member_key_def harvest_key_def
  periphery_key_def
lemmas row_views = pin_view_def branch_pin_view_def member_view_def branch_member_view_def harvest_view_def
  periphery_view_def

lemma record_pin_steps:
  assumes "\<And>r. hit r \<longleftrightarrow> key r = key x" and "valid_from x = now" and "valid_to x = None"
    and "\<And>r. key (refresh_pin now r) = key r \<and> view (refresh_pin now r) = view r"
  shows "history_steps key view now rs (record_pin_row hit v now x rs)"
proof -
  let ?rs1 = "close_where (\<lambda>r. hit r \<and> k_version r \<noteq> v) now rs"
  have c: "history_steps key view now rs ?rs1"
    by (intro history_steps.close history_steps.none)
  have r: "history_steps key view now rs (update_where q (refresh_pin now) ?rs1)" for q
    using c assms(4) by (intro history_steps.refresh) (auto simp: refresh_pin_def)
  have i: "history_steps key view now rs (?rs1 @ [x])" if "\<not> exists_row (\<lambda>r. is_open r \<and> hit r) ?rs1"
    using c that assms by (intro history_steps.insert) (auto simp: exists_row_iff)
  show ?thesis
    using r i by (simp add: record_pin_row_def Let_def)
qed

interpretation trunk_pins: history_table pin_key pin_view record_trunk_pin
proof unfold_locales
  show "history_steps pin_key pin_view now rs (record_trunk_pin now p rs)" for now p rs
    unfolding record_trunk_pin_def
    by (rule record_pin_steps) (auto simp: pin_key_def refresh_pin_def pin_view_def)
qed (auto simp: unclosable_def pin_key_def pin_view_def)

interpretation branch_pins: history_table branch_pin_key branch_pin_view record_branch_pin
proof unfold_locales
  show "history_steps branch_pin_key branch_pin_view now rs (record_branch_pin now p rs)" for now p rs
    unfolding record_branch_pin_def
    by (rule record_pin_steps) (auto simp: row_keys refresh_pin_def row_views)
qed (auto simp: unclosable_def row_keys row_views)

lemma exists_open_close:
  "\<not> exists_row (\<lambda>r. is_open r \<and> h r \<and> q r) (close_where (\<lambda>r. h r \<and> \<not> q r) now rs) \<Longrightarrow>
   r \<in> set (close_where (\<lambda>r. h r \<and> \<not> q r) now rs) \<Longrightarrow> is_open r \<Longrightarrow> \<not> h r"
proof -
  assume none: "\<not> exists_row (\<lambda>r. is_open r \<and> h r \<and> q r) (close_where (\<lambda>r. h r \<and> \<not> q r) now rs)"
    and r: "r \<in> set (close_where (\<lambda>r. h r \<and> \<not> q r) now rs)" and op: "is_open r"
  then have "r \<in> set (filter is_open (close_where (\<lambda>r. h r \<and> \<not> q r) now rs))" by simp
  then have "\<not> (h r \<and> \<not> q r)" unfolding filter_open_close by simp
  with none r op show "\<not> h r" by (auto simp: exists_row_iff)
qed

interpretation trunk_members: history_table member_key member_view record_trunk_member
proof unfold_locales
  show "history_steps member_key member_view now rs (record_trunk_member now x rs)" for now x rs
  proof -
    let ?rs1 = "close_where (\<lambda>r. member_key r = member_key x \<and> mv_version r \<noteq> mv_version x) now rs"
    have c: "history_steps member_key member_view now rs ?rs1"
      by (intro history_steps.close history_steps.none)
    have r: "history_steps member_key member_view now rs (update_where q (\<lambda>r. r\<lparr>mv_last_provided_at := now\<rparr>) ?rs1)" for q
      using c by (intro history_steps.refresh) (auto simp: row_keys row_views)
    have i: "history_steps member_key member_view now rs (?rs1 @ [x\<lparr>valid_from := now, valid_to := None\<rparr>])"
      if "\<not> exists_row (\<lambda>r. is_open r \<and> member_key r = member_key x \<and> mv_version r = mv_version x) ?rs1"
      using c exists_open_close[OF that] by (intro history_steps.insert) (auto simp: member_key_def)
    show ?thesis using r i by (simp add: record_trunk_member_def Let_def)
  qed
qed (auto simp: unclosable_def row_keys row_views)

interpretation branch_members: history_table branch_member_key branch_member_view record_branch_member
proof unfold_locales
  show "history_steps branch_member_key branch_member_view now rs (record_branch_member now x rs)" for now x rs
  proof -
    let ?rs1 = "close_where (\<lambda>r. branch_member_key r = branch_member_key x \<and> mv_version r \<noteq> mv_version x) now rs"
    have c: "history_steps branch_member_key branch_member_view now rs ?rs1"
      by (intro history_steps.close history_steps.none)
    have i: "history_steps branch_member_key branch_member_view now rs (?rs1 @ [x\<lparr>valid_from := now, valid_to := None\<rparr>])"
      if "\<not> exists_row (\<lambda>r. is_open r \<and> branch_member_key r = branch_member_key x \<and> mv_version r = mv_version x) ?rs1"
      using c exists_open_close[OF that] by (intro history_steps.insert) (auto simp: row_keys)
    show ?thesis using c i by (simp add: record_branch_member_def Let_def)
  qed
qed (auto simp: unclosable_def row_keys row_views)

lemma fold_steps:
  assumes "\<And>rs x. history_steps key view now rs (f rs x)"
  shows "history_steps key view now rs (foldl f rs xs)"
  by (induction xs arbitrary: rs) (auto intro: history_steps.none history_steps_trans assms)

interpretation harvest_rows: history_table harvest_key harvest_view reconcile_harvest_rows
proof unfold_locales
  fix now and p :: "row_id \<times> string \<times> bool \<times> harvested_sub_input list" and rs :: "harvest_row list"
  obtain cid cname trunk subs where p: "p = (cid, cname, trunk, subs)" by (cases p)
  have "history_steps harvest_key harvest_view now rs (close_dropped cid trunk subs now opened rs)" for rs opened
    unfolding close_dropped_def by (rule fold_steps) (auto intro: history_steps.intros)
  moreover have "history_steps harvest_key harvest_view now rs (open_declared cid cname trunk subs now opened rs)"
    for rs opened
    unfolding open_declared_def
    by (rule fold_steps) (auto simp: exists_row_iff harvest_key_def intro!: history_steps.insert intro: history_steps.none)
  ultimately show "history_steps harvest_key harvest_view now rs (reconcile_harvest_rows now p rs)"
    unfolding p reconcile_harvest_rows_def Let_def prod.case by (rule history_steps_trans[rotated])
qed (auto simp: unclosable_def row_keys row_views)

interpretation periphery_rows: history_table periphery_key periphery_view reconcile_track
proof unfold_locales
  fix now and p :: "periphery_track \<times> string \<times> string list" and rs :: "periphery_row list"
  obtain track sys res where p: "p = (track, sys, res)" by (cases p)
  have "history_steps periphery_key periphery_view now rs
      (foldl (\<lambda>rs r'. if r' \<in> set res then rs else close_where (\<lambda>r. periphery_key r = (track, sys, r')) now rs) rs opened)"
    for rs opened
    by (rule fold_steps) (auto intro: history_steps.intros)
  moreover have "history_steps periphery_key periphery_view now rs
      (foldl (\<lambda>rs r'. if r' \<in> set opened then rs
                   else if exists_row (\<lambda>r. is_open r \<and> periphery_key r = (track, sys, r')) rs then rs
                   else rs @ [\<lparr>valid_from = now, valid_to = None, pe_track = track, pe_system = sys,
                               pe_resource = r'\<rparr>]) rs res)" for rs opened
    by (rule fold_steps) (auto simp: exists_row_iff periphery_key_def intro!: history_steps.insert intro: history_steps.none)
  ultimately show "history_steps periphery_key periphery_view now rs (reconcile_track now p rs)"
    unfolding p reconcile_track_def Let_def prod.case by (rule history_steps_trans[rotated])
qed (auto simp: unclosable_def row_keys row_views)

section \<open>The main graph in time\<close>

text \<open>Every operation that writes the table of trunk pins, with the stamp it writes at.\<close>

datatype trunk_op =
    RecordPins "pin_params list"
  | ExpireTrunk stamp
  | RetireApi row_id api_type
  | DeleteProducer string
  | DeleteConsumer string

fun run_trunk :: "stamp \<Rightarrow> trunk_op \<Rightarrow> db \<Rightarrow> db" where
  "run_trunk now (RecordPins ps) db = record_trunk_pins ps now db"
| "run_trunk now (ExpireTrunk cutoff) db = snd (close_expired_trunk_data cutoff now db)"
| "run_trunk now (RetireApi sid t) db = snd (close_trunk_pins_for_service_api sid t now db)"
| "run_trunk now (DeleteProducer nm) db = snd (delete_producer nm now db)"
| "run_trunk now (DeleteConsumer nm) db = snd (delete_consumer nm now db)"

lemma remove_versions_frame [simp]:
  "trunk_deps (remove_versions p db) = trunk_deps db" "trunk_members (remove_versions p db) = trunk_members db"
  "services (remove_versions p db) = services db" "clients (remove_versions p db) = clients db"
  "next_service (remove_versions p db) = next_service db" "next_client (remove_versions p db) = next_client db"
  "next_spec_version (remove_versions p db) = next_spec_version db"
  "spec_versions (remove_versions p db) = delete_where p (spec_versions db)"
  "origins (remove_versions p db) = origins db"
  by (simp_all add: remove_versions_def Let_def)

lemma run_trunk_steps: "history_steps pin_key pin_view now (trunk_deps db) (trunk_deps (run_trunk now op db))"
proof (cases op)
  case (RecordPins ps)
  have "history_steps pin_key pin_view now rs (foldl (\<lambda>rs p. record_trunk_pin now (new_pin db p now) rs) rs ps)" for rs
    by (rule fold_steps) (rule trunk_pins.store_steps)
  with RecordPins show ?thesis by (simp add: record_trunk_pins_def)
next
  case (DeleteProducer nm)
  then show ?thesis
    by (auto simp: delete_producer_def Let_def intro: history_steps.intros split: option.split)
next
  case (DeleteConsumer nm)
  then show ?thesis
    by (auto simp: delete_consumer_def intro: history_steps.intros split: option.split)
qed (auto simp: close_expired_trunk_data_def close_trunk_pins_for_service_api_def intro: history_steps.intros)

lemma run_trunks_one_open:
  "one_open pin_key (trunk_deps db) \<Longrightarrow> one_open pin_key (trunk_deps (foldl (\<lambda>db (now, op). run_trunk now op db) db ops))"
  by (induction ops arbitrary: db) (auto intro: history_one_open[OF run_trunk_steps])

lemma run_trunks_past:
  "(\<And>now op. (now, op) \<in> set ops \<Longrightarrow> t < now) \<Longrightarrow>
   seen_at pin_view t (trunk_deps (foldl (\<lambda>db (now, op). run_trunk now op db) db ops)) = seen_at pin_view t (trunk_deps db)"
proof (induction ops arbitrary: db)
  case (Cons w ops)
  obtain now op where w: "w = (now, op)" by (cases w)
  then have "t < now" using Cons.prems by auto
  from history_past[OF run_trunk_steps trunk_pins.view_closed this]
  have "seen_at pin_view t (trunk_deps (run_trunk now op db)) = seen_at pin_view t (trunk_deps db)" .
  moreover have "seen_at pin_view t (trunk_deps (foldl (\<lambda>db (now, op). run_trunk now op db) (run_trunk now op db) ops))
      = seen_at pin_view t (trunk_deps (run_trunk now op db))"
    by (rule Cons.IH) (use Cons.prems in auto)
  ultimately show ?case by (simp add: w)
qed simp

text \<open>
  An answer of the main graph without the stamp of the last require, which a repeated
  require refreshes in place.
\<close>

definition undated :: "trunk_pin_info \<Rightarrow> trunk_pin_info" where
  "undated p = p\<lparr>p_last_required_at := []\<rparr>"

definition info_of_view :: "string \<times> string \<times> api_type \<times> semver \<times> string \<times> string \<times> string \<times> stamp \<Rightarrow> trunk_pin_info" where
  "info_of_view = (\<lambda>(c, s, t, v, path, norm, m, from).
     \<lparr>p_client = c, p_service = s, p_api_type = t, p_version = v, p_path = path, p_normalized_path = norm,
      p_method = m, p_valid_from = from, p_last_required_at = [], p_dangling = False\<rparr>)"

lemma undated_info: "undated (pin_row_to_info r) = info_of_view (pin_view r)"
  by (simp add: undated_def pin_row_to_info_def info_of_view_def pin_view_def)

lemma sort_key_map_kept:
  assumes "\<And>x. f (g x) = f x"
  shows "map g (sort_key f xs) = sort_key f (map g xs)"
proof -
  have "map g (insort_key f x ys) = insort_key f (g x) (map g ys)" for x ys by (induction ys) (simp_all add: assms)
  then show ?thesis by (induction xs) simp_all
qed

lemma undated_answer: "map undated (list_trunk_pins_at db t) = order_pins (map info_of_view (seen_at pin_view t (trunk_deps db)))"
proof -
  have "map undated (order_pins ps) = order_pins (map undated ps)" for ps
    unfolding order_pins_def by (rule sort_key_map_kept) (simp add: undated_def)
  then show ?thesis by (simp add: list_trunk_pins_at_def seen_at_def o_def undated_info)
qed

text \<open>
  C37: the main graph is a history: whatever trunk requires, expiries, retirements and deletions
  of Producers and Consumers run later than an instant, the list of pins it answers for that
  instant stays the same in every column (Consumer, Producer, endpoint, version and since when)
  but one, the stamp of the last require, which a later identical require moves in the row; and
  there is never more than one current pin of a key.
\<close>

theorem trunk_history_fixed:
  assumes "one_open pin_key (trunk_deps db)" and "\<forall>(now, op) \<in> set ops. t < now"
  shows "map undated (list_trunk_pins_at (foldl (\<lambda>db (now, op). run_trunk now op db) db ops) t) =
           map undated (list_trunk_pins_at db t) \<and>
         one_open pin_key (trunk_deps (foldl (\<lambda>db (now, op). run_trunk now op db) db ops))"
proof -
  have "seen_at pin_view t (trunk_deps (foldl (\<lambda>db (now, op). run_trunk now op db) db ops)) = seen_at pin_view t (trunk_deps db)"
    using assms(2) by (intro run_trunks_past) auto
  then show ?thesis using run_trunks_one_open[OF assms(1), of ops] by (simp add: undated_answer)
qed

section \<open>Recording a pin\<close>

lemma open_hit_version:
  assumes "r \<in> set (record_pin_row hit v now x rs)" and "is_open r" and "hit r" and "k_version x = v"
    and "\<And>r. hit (refresh_pin now r) = hit r"
  shows "k_version r = v"
proof -
  let ?rs1 = "close_where (\<lambda>r. hit r \<and> k_version r \<noteq> v) now rs"
  have c: "k_version q = v" if "q \<in> set ?rs1" "is_open q" "hit q" for q
  proof -
    from that have "q \<in> set (filter is_open ?rs1)" by simp
    then show ?thesis using that(3) unfolding filter_open_close by simp
  qed
  have f: "k_version (refresh_pin now q) = k_version q \<and> is_open (refresh_pin now q) = is_open q" for q
    by (simp add: refresh_pin_def is_open_def)
  have u: "k_version r = v" if "r \<in> set (update_where p (refresh_pin now) ?rs1)" for p
  proof -
    from that obtain q where "q \<in> set ?rs1" "r = q \<or> r = refresh_pin now q"
      by (auto simp: update_where_def split: if_splits)
    with c[of q] f[of q] assms show ?thesis by auto
  qed
  show ?thesis
    using assms(1,4) c[OF _ assms(2,3)] u by (auto simp: record_pin_row_def Let_def split: if_splits)
qed

lemma open_hit_exists:
  assumes "hit x" and "valid_to x = None" and "\<And>r. hit (refresh_pin now r) = hit r"
  shows "\<exists>r \<in> set (record_pin_row hit v now x rs). is_open r \<and> hit r"
proof -
  have u: "\<exists>r \<in> set (update_where p (refresh_pin now) qs). is_open r \<and> hit r"
    if "exists_row (\<lambda>r. is_open r \<and> hit r \<and> q r) qs" for p q and qs
  proof -
    from that obtain r where r: "r \<in> set qs" "is_open r" "hit r" by (auto simp: exists_row_iff)
    then have "(if p r then refresh_pin now r else r) \<in> set (update_where p (refresh_pin now) qs)"
      by (simp add: update_where_def del: if_image_distrib)
    moreover have "is_open (refresh_pin now r)" using r by (simp add: refresh_pin_def is_open_def)
    ultimately show ?thesis using r assms(3) by (metis (full_types))
  qed
  show ?thesis
    using assms(1,2) u[of "\<lambda>r. k_version r = v"] u[of "\<lambda>_. True"]
    by (auto simp: record_pin_row_def Let_def is_open_def)
qed

lemma one_open_single:
  "one_open key rs \<Longrightarrow> r \<in> set rs \<Longrightarrow> is_open r \<Longrightarrow> filter (\<lambda>q. is_open q \<and> key q = key r) rs = [r]"
proof -
  assume d: "one_open key rs" and r: "r \<in> set rs" "is_open r"
  then have "r \<in> set (filter is_open rs)" by simp
  with d show ?thesis unfolding one_open_def
    by (induction rs) (auto simp: filter_empty_conv split: if_splits, (metis (mono_tags, lifting) imageI filter_False mem_Collect_eq)?)
qed

lemma open_hit_refreshed:
  assumes "r \<in> set (record_pin_row hit v now x rs)" and "is_open r" and "hit r"
    and "k_last_required_at x = now" and "\<And>r. hit (refresh_pin now r) = hit r"
  shows "k_last_required_at r = now"
proof -
  let ?rs1 = "close_where (\<lambda>r. hit r \<and> k_version r \<noteq> v) now rs"
  have c: "k_version q = v" if "q \<in> set ?rs1" "is_open q" "hit q" for q
  proof -
    from that have "q \<in> set (filter is_open ?rs1)" by simp
    then show ?thesis using that(3) unfolding filter_open_close by simp
  qed
  have u: "k_last_required_at r = now"
    if "r \<in> set (update_where p (refresh_pin now) ?rs1)" "\<And>q. q \<in> set ?rs1 \<Longrightarrow> is_open q \<Longrightarrow> hit q \<Longrightarrow> p q" for p
  proof -
    from that(1) obtain q where q: "q \<in> set ?rs1" "r = (if p q then refresh_pin now q else q)"
      by (auto simp: update_where_def simp del: if_image_distrib)
    then show ?thesis using that(2) [of q] assms(2,3) by (auto simp: refresh_pin_def split: if_splits)
  qed
  show ?thesis
    using assms c u by (auto simp: record_pin_row_def Let_def exists_row_iff split: if_splits)
qed

lemma other_keys_untouched:
  assumes "hit x" and "\<And>r. hit (refresh_pin now r) = hit r" and "\<And>r. hit (close_row now r) = hit r"
  shows "filter (\<lambda>q. \<not> hit q) (record_pin_row hit v now x rs) = filter (\<lambda>q. \<not> hit q) rs"
proof -
  have c: "filter (\<lambda>q. \<not> hit q) (close_where (\<lambda>r. hit r \<and> k_version r \<noteq> v) now rs) = filter (\<lambda>q. \<not> hit q) rs"
    using assms(3) by (induction rs) (auto simp: close_where_def update_where_def)
  have u: "filter (\<lambda>q. \<not> hit q) (update_where p (refresh_pin now) qs) = filter (\<lambda>q. \<not> hit q) qs"
    if "\<And>q. p q \<Longrightarrow> hit q" for p qs
    using that assms(2) by (induction qs) (auto simp: update_where_def)
  show ?thesis
    unfolding record_pin_row_def Let_def using assms(1) c u [of "\<lambda>r. is_open r \<and> hit r \<and> k_version r = v"]
      u [of "\<lambda>r. is_open r \<and> hit r"] by simp
qed

text \<open>
  Recording a pin makes it the current one. Afterwards the trunk graph has
  exactly one current row for that Consumer, Producer and endpoint; it names
  the version just required and carries the time of this require, whatever the
  table held before (another version, the same one, or none), and no row of any
  other key is touched.
\<close>

lemma recorded_pin_is_current:
  assumes "one_open pin_key (trunk_deps db)"
  shows "\<exists>r. filter (\<lambda>q. is_open q \<and> pin_key q = pp_key p) (trunk_deps (record_trunk_pins [p] now db)) = [r] \<and>
      k_version r = pp_version p \<and> k_last_required_at r = now \<and>
      filter (\<lambda>q. pin_key q \<noteq> pp_key p) (trunk_deps (record_trunk_pins [p] now db)) =
      filter (\<lambda>q. pin_key q \<noteq> pp_key p) (trunk_deps db)"
proof -
  let ?x = "new_pin db p now" and ?hit = "\<lambda>r :: pin_row. pin_key r = pp_key p"
  let ?qs = "trunk_deps (record_trunk_pins [p] now db)"
  have x: "pin_key ?x = pp_key p" "k_version ?x = pp_version p" "valid_to ?x = None" "k_last_required_at ?x = now"
    by (simp_all add: new_pin_def pin_key_def pp_key_def)
  have same: "?x\<lparr>valid_from := now, valid_to := None\<rparr> = ?x" by (simp add: new_pin_def)
  have qs: "?qs = record_pin_row ?hit (pp_version p) now ?x (trunk_deps db)"
    by (simp add: record_trunk_pins_def record_trunk_pin_def x same)
  have hit: "?hit (refresh_pin now r) = ?hit r" "?hit (close_row now r) = ?hit r" for r
    by (simp_all add: refresh_pin_def close_row_def pin_key_def)
  have one: "one_open pin_key ?qs"
    using trunk_pins.store_one_open [OF assms, of now ?x] by (simp add: record_trunk_pins_def)
  obtain r where r: "r \<in> set ?qs" "is_open r" "?hit r"
    unfolding qs using open_hit_exists [of ?hit ?x now "pp_version p" "trunk_deps db"] x hit by blast
  moreover have "k_version r = pp_version p" "k_last_required_at r = now"
    using open_hit_version [OF r [unfolded qs]] open_hit_refreshed [OF r [unfolded qs]] x hit by auto
  moreover have "filter (\<lambda>q. is_open q \<and> pin_key q = pp_key p) ?qs = [r]"
    using one_open_single [OF one r(1,2)] r(3) by simp
  moreover have "filter (\<lambda>q. \<not> ?hit q) ?qs = filter (\<lambda>q. \<not> ?hit q) (trunk_deps db)"
    unfolding qs by (rule other_keys_untouched) (use x hit in auto)
  ultimately show ?thesis by blast
qed

definition sample_pin :: "nat \<Rightarrow> pin_params" where
  "sample_pin m = \<lparr>pp_client_id = 1, pp_service_id = 1, pp_api_type = OpenApi, pp_version = SemVer (of_nat m) 0 0,
     pp_path = ''/a'', pp_normalized_path = ''/a'', pp_method = ''GET''\<rparr>"

theorem trunk_history_fixed_witness:
  "map p_version (list_trunk_pins_at (foldl (\<lambda>db (now, op). run_trunk now op db)
     (record_trunk_pins [sample_pin 1] ''2026-01-01'' empty_db)
     [(''2026-01-02'', RecordPins [sample_pin 2]), (''2026-01-03'', DeleteConsumer ''c'')]) ''2026-01-01'') = [SemVer 1 0 0]"
proof -
  let ?db = "record_trunk_pins [sample_pin 1] ''2026-01-01'' empty_db"
  let ?ops = "[(''2026-01-02'', RecordPins [sample_pin 2]), (''2026-01-03'', DeleteConsumer ''c'')]"
  have "one_open pin_key (trunk_deps ?db)" by code_simp
  moreover have "\<forall>(now, op) \<in> set ?ops. ''2026-01-01'' < now" by code_simp
  ultimately have same: "map undated (list_trunk_pins_at (foldl (\<lambda>db (now, op). run_trunk now op db) ?db ?ops) ''2026-01-01'') =
      map undated (list_trunk_pins_at ?db ''2026-01-01'')"
    using trunk_history_fixed [of ?db ?ops "''2026-01-01''"] by blast
  have version: "map p_version ps = map p_version (map undated ps)" for ps by (simp add: undated_def)
  have "map p_version (map undated (list_trunk_pins_at ?db ''2026-01-01'')) = [SemVer 1 0 0]" by code_simp
  then show ?thesis by (subst version) (simp only: same)
qed

end
