(* ===== verification/Branches.thy ===== *)
theory Branches
  imports Pins Webhook_Events
begin

text \<open>
  Sanshain-branches: \<open>application/branch_service.rs\<close> and the branch statements
  of \<open>sqlite_repository.rs\<close>. A branch is a copy of a source graph at an
  instant; identity is its row id, the name is unique. Reading an RFC 3339
  instant (\<open>chrono\<close>) is the parameter \<open>rfc3339\<close>: the stored spelling of
  an instant, or \<open>None\<close> when the text is not one. The iteration order of the
  source's hash maps is taken to be insertion order; every answer is sorted.
\<close>

section \<open>The branch table\<close>

definition find_branch :: "db \<Rightarrow> string \<Rightarrow> branch_info option" where
  "find_branch db nm = find (\<lambda>b. b_name b = nm) (branches db)"

definition list_branches :: "db \<Rightarrow> branch_info list" where
  "list_branches db = rev (sort_key (\<lambda>b. (b_created_at b, b_id b)) (branches db))"

definition insert_branch ::
    "string \<Rightarrow> stamp \<Rightarrow> string \<Rightarrow> string \<Rightarrow> stamp \<Rightarrow> new_webhook_event list \<Rightarrow> db \<Rightarrow> repository_error + row_id \<times> db" where
  "insert_branch nm created_at created_by source as_of evs db =
     (if exists_row (\<lambda>b. b_name b = nm) (branches db) then Inl RepoConflict
      else Inr (next_branch db, write_outbox evs
        (db\<lparr>branches := branches db @ [\<lparr>b_id = next_branch db, b_name = nm, b_created_at = created_at,
               b_created_by = created_by, b_source = source, b_as_of = as_of\<rparr>],
            next_branch := Suc (next_branch db)\<rparr>)))"

definition copy_pin :: "row_id \<Rightarrow> stamp \<Rightarrow> ('a) pin_row_scheme \<Rightarrow> branch_pin_row" where
  "copy_pin bid now r = on_branch bid ((pin_row.truncate r)\<lparr>valid_from := now, valid_to := None, k_last_required_at := now\<rparr>)"

definition copy_resource :: "row_id \<Rightarrow> stamp \<Rightarrow> periphery_row \<Rightarrow> periphery_row" where
  "copy_resource bid now r = r\<lparr>valid_from := now, valid_to := None, pe_track := BranchTrack bid\<rparr>"

text \<open>
  \<open>INSERT ... SELECT\<close> of rows into the open part of a table with a partial
  unique index: a second open row of a key fails the statement.
\<close>

definition insert_open ::
    "('a temporal_scheme \<Rightarrow> 'k) \<Rightarrow> 'a temporal_scheme list \<Rightarrow> 'a temporal_scheme list \<Rightarrow> repository_error + 'a temporal_scheme list" where
  "insert_open key new rs =
     (if one_open key (rs @ new) then Inr (rs @ new) else Inl (RepoInternal ''UNIQUE constraint failed''))"

definition copy_graph ::
    "row_id \<Rightarrow> branch_pin_row list \<Rightarrow> periphery_row list \<Rightarrow> db \<Rightarrow> repository_error + db" where
  "copy_graph bid pins resources db =
     and_then (insert_open branch_pin_key pins (branch_deps db)) (\<lambda>ps.
     and_then (insert_open periphery_key resources (periphery db)) (\<lambda>rs.
       Inr (db\<lparr>branch_deps := ps, periphery := rs\<rparr>)))"

definition copy_trunk_graph_to_branch :: "row_id \<Rightarrow> stamp \<Rightarrow> stamp \<Rightarrow> db \<Rightarrow> repository_error + db" where
  "copy_trunk_graph_to_branch bid as_of now db =
     copy_graph bid (map (copy_pin bid now) (filter (alive_at as_of) (trunk_deps db)))
       (map (copy_resource bid now) (filter (\<lambda>r. pe_track r = TrunkTrack \<and> alive_at as_of r) (periphery db))) db"

definition copy_branch_graph_to_branch :: "row_id \<Rightarrow> row_id \<Rightarrow> stamp \<Rightarrow> stamp \<Rightarrow> db \<Rightarrow> repository_error + db" where
  "copy_branch_graph_to_branch target source as_of now db =
     copy_graph target (map (copy_pin target now) (filter (\<lambda>r. k_branch_id r = source \<and> alive_at as_of r) (branch_deps db)))
       (map (copy_resource target now) (filter (\<lambda>r. pe_track r = BranchTrack source \<and> alive_at as_of r) (periphery db))) db"

definition repo_rename_branch :: "row_id \<Rightarrow> string \<Rightarrow> db \<Rightarrow> repository_error + db" where
  "repo_rename_branch bid nm db =
     (if exists_row (\<lambda>b. b_id b = bid) (branches db) \<and> exists_row (\<lambda>b. b_name b = nm \<and> b_id b \<noteq> bid) (branches db)
      then Inl RepoConflict
      else Inr (db\<lparr>branches := update_where (\<lambda>b. b_id b = bid) (b_name_update (\<lambda>_. nm)) (branches db)\<rparr>))"

definition repo_delete_branch :: "row_id \<Rightarrow> db \<Rightarrow> db" where
  "repo_delete_branch bid db =
     db\<lparr>branch_deps := delete_where (\<lambda>r. k_branch_id r = bid) (branch_deps db),
        branch_members := delete_where (\<lambda>r. mv_branch_id r = bid) (branch_members db),
        periphery := delete_where (\<lambda>r. pe_track r = BranchTrack bid) (periphery db),
        branches := delete_where (\<lambda>b. b_id b = bid) (branches db)\<rparr>"

definition change_dates :: "('a temporal_scheme \<Rightarrow> bool) \<Rightarrow> 'a temporal_scheme list \<Rightarrow> stamp list" where
  "change_dates p rs = map valid_from (filter p rs) @ List.map_filter valid_to (filter p rs)"

definition list_graph_change_dates :: "db \<Rightarrow> row_id option \<Rightarrow> stamp list" where
  "list_graph_change_dates db branch =
     sort (remdups (case branch of
        None \<Rightarrow> change_dates (\<lambda>_. True) (trunk_deps db) @ change_dates (\<lambda>r. pe_track r = TrunkTrack) (periphery db)
      | Some bid \<Rightarrow> change_dates (\<lambda>r. k_branch_id r = bid) (branch_deps db) @
          change_dates (\<lambda>r. mv_branch_id r = bid) (branch_members db) @
          change_dates (\<lambda>r. pe_track r = BranchTrack bid) (periphery db)))"

definition branch_name_of :: "db \<Rightarrow> row_id \<Rightarrow> string option" where
  "branch_name_of db bid = map_option b_name (find (\<lambda>b. b_id b = bid) (branches db))"

definition list_branch_memberships_for_service :: "db \<Rightarrow> row_id \<Rightarrow> (string \<times> string \<times> semver) list" where
  "list_branch_memberships_for_service db sid =
     sort (remdups
       (List.map_filter (\<lambda>d. map_option (\<lambda>nm. (nm, api_type_as_str (k_api_type d), k_version d)) (branch_name_of db (k_branch_id d)))
          (filter (\<lambda>d. k_service_id d = sid \<and> is_open d) (branch_deps db)) @
        List.map_filter (\<lambda>m. map_option (\<lambda>nm. (nm, api_type_as_str (mv_api_type m), mv_version m)) (branch_name_of db (mv_branch_id m)))
          (filter (\<lambda>m. mv_service_id m = sid \<and> is_open m) (branch_members db))))"

definition list_branches_referencing :: "db \<Rightarrow> row_id \<Rightarrow> api_type \<Rightarrow> semver \<Rightarrow> string list" where
  "list_branches_referencing db sid t v =
     sort (remdups (map b_name (filter (\<lambda>b.
        exists_row (\<lambda>d. k_branch_id d = b_id b \<and> is_open d \<and> k_service_id d = sid \<and> k_api_type d = t \<and> k_version d = v) (branch_deps db) \<or>
        exists_row (\<lambda>m. mv_branch_id m = b_id b \<and> is_open m \<and> mv_service_id m = sid \<and> mv_api_type m = t \<and> mv_version m = v) (branch_members db))
       (branches db))))"

section \<open>Streams\<close>

definition dev_only :: "message \<Rightarrow> resolved_stream" where
  "dev_only w = \<lparr>st_trunk = False, st_branch = None, st_warnings = [w]\<rparr>"

definition resolve_stream :: "db \<Rightarrow> bool \<Rightarrow> string option \<Rightarrow> resolved_stream" where
  "resolve_stream db trunk tag =
     (case tag of
        Some nm \<Rightarrow>
          if trunk then dev_only (Text ''trunk and tag are mutually exclusive'' [])
          else (case find_branch db nm of
              Some b \<Rightarrow> \<lparr>st_trunk = False, st_branch = Some b, st_warnings = []\<rparr>
            | None \<Rightarrow> dev_only (Text ''no sanshain-branch - not recorded in a release graph'' [S nm]))
      | None \<Rightarrow> \<lparr>st_trunk = trunk, st_branch = None, st_warnings = []\<rparr>)"

section \<open>Graph selectors\<close>

definition normalize_instant :: "(string \<Rightarrow> stamp option) \<Rightarrow> string \<Rightarrow> string \<Rightarrow> app_error + stamp" where
  "normalize_instant rfc3339 field raw =
     (case rfc3339 raw of
        None \<Rightarrow> Inl (BadRequest (Text ''not an RFC 3339 instant'' [S field]))
      | Some t \<Rightarrow> Inr t)"

definition reserved_branch_names :: "string list" where
  "reserved_branch_names = [''main'', ''dev'', ''trunk'']"

definition split_selector :: "(string \<Rightarrow> stamp option) \<Rightarrow> string \<Rightarrow> app_error + string \<times> stamp option" where
  "split_selector rfc3339 raw =
     (case rsplit_once CHR ''@'' raw of
        Some (nm, at) \<Rightarrow>
          (case normalize_instant rfc3339 ''the selector's instant'' at of
             Inr t \<Rightarrow> Inr (nm, Some t)
           | Inl e \<Rightarrow> if nm \<in> set reserved_branch_names then Inl e else Inr (raw, None))
      | None \<Rightarrow> Inr (raw, None))"

definition validate_branch_name :: "string \<Rightarrow> app_error + unit" where
  "validate_branch_name nm =
     (if nm = [] then Inl (BadRequest (Text ''a sanshain-branch needs a non-empty name'' []))
      else if nm \<in> set reserved_branch_names
      then Inl (BadRequest (Text ''reserved for the built-in graph views and streams'' [S nm]))
      else Inr ())"

section \<open>Creating, renaming and deleting\<close>

record create_branch_params =
  cb_name :: string
  cb_source :: "string option"
  cb_as_of :: "string option"
  cb_created_by :: string

definition branch_audit :: "string \<Rightarrow> string \<Rightarrow> message \<Rightarrow> audit_row" where
  "branch_audit actor action details =
     \<lparr>au_username = actor, au_action = action, au_details = details, au_service = None, au_version = None,
      au_action_type = Some ''WRITE''\<rparr>"

text \<open>
  A refusal leaves the state as it was, except that a failed graph copy comes
  after the branch row is committed and is undone by deleting the branch.
\<close>

definition branch_source :: "db \<Rightarrow> create_branch_params \<Rightarrow> app_error + branch_info option" where
  "branch_source db params =
     (case cb_source params of
        None \<Rightarrow> Inr None
      | Some src \<Rightarrow> (case find_branch db src of
            None \<Rightarrow> Inl (NotFound (Text ''no sanshain-branch to branch from'' [S src]))
          | Some b \<Rightarrow> Inr (Some b)))"

definition source_label :: "branch_info option \<Rightarrow> string" where
  "source_label source = (case source of None \<Rightarrow> ''trunk'' | Some b \<Rightarrow> b_name b)"

definition copy_source_graph ::
    "branch_info option \<Rightarrow> row_id \<Rightarrow> stamp \<Rightarrow> stamp \<Rightarrow> db \<Rightarrow> repository_error + db" where
  "copy_source_graph source bid as_of now db =
     (case source of
        Some src \<Rightarrow> copy_branch_graph_to_branch bid (b_id src) as_of now db
      | None \<Rightarrow> copy_trunk_graph_to_branch bid as_of now db)"

definition cut_branch ::
    "env \<Rightarrow> string \<Rightarrow> string \<Rightarrow> branch_info option \<Rightarrow> stamp \<Rightarrow> db \<Rightarrow> (app_error + branch_info) \<times> db" where
  "cut_branch E created_by nm source as_of db =
     (let label = source_label source; now = clock E 1;
          evs = (case plan_event E 2 db BranchCut audience_global (BranchCutData nm label as_of now created_by) of
                   None \<Rightarrow> [] | Some ev \<Rightarrow> [ev]) in
      case insert_branch nm now created_by label as_of evs db of
        Inl RepoConflict \<Rightarrow> (Inl (Conflict (Text ''a sanshain-branch of that name already exists'' [S nm])), db)
      | Inl e \<Rightarrow> (Inl (app_error_from e), db)
      | Inr (bid, db1) \<Rightarrow>
          (case copy_source_graph source bid as_of now db1 of
             Inl e \<Rightarrow> (Inl (app_error_from e), repo_delete_branch bid db1)
           | Inr db2 \<Rightarrow>
               (Inr \<lparr>b_id = bid, b_name = nm, b_created_at = now, b_created_by = created_by, b_source = label, b_as_of = as_of\<rparr>,
                insert_audit_log (branch_audit created_by ''BRANCH_CREATED''
                  (Text ''Created sanshain-branch'' [S nm, S label, S as_of])) db2)))"

definition create_branch ::
    "(string \<Rightarrow> stamp option) \<Rightarrow> env \<Rightarrow> create_branch_params \<Rightarrow> db \<Rightarrow> (app_error + branch_info) \<times> db" where
  "create_branch rfc3339 E params db =
     (case and_then (validate_branch_name (trim (cb_name params))) (\<lambda>_.
           and_then (case cb_as_of params of Some raw \<Rightarrow> normalize_instant rfc3339 ''as_of'' raw | None \<Rightarrow> Inr (clock E 0)) (\<lambda>as_of.
           and_then (branch_source db params) (\<lambda>source. Inr (as_of, source)))) of
        Inl e \<Rightarrow> (Inl e, db)
      | Inr (as_of, source) \<Rightarrow> cut_branch E (cb_created_by params) (trim (cb_name params)) source as_of db)"

definition rename_branch :: "string \<Rightarrow> string \<Rightarrow> string \<Rightarrow> db \<Rightarrow> (app_error + branch_info) \<times> db" where
  "rename_branch nm new_name actor db =
     (let new = trim new_name in
      case validate_branch_name new of Inl e \<Rightarrow> (Inl e, db) | Inr _ \<Rightarrow>
     (case find_branch db nm of
        None \<Rightarrow> (Inl (NotFound (Text ''no sanshain-branch'' [S nm])), db)
      | Some b \<Rightarrow>
          (case repo_rename_branch (b_id b) new db of
             Inl RepoConflict \<Rightarrow> (Inl (Conflict (Text ''a sanshain-branch of that name already exists'' [S new])), db)
           | Inl e \<Rightarrow> (Inl (app_error_from e), db)
           | Inr db1 \<Rightarrow> (Inr (b\<lparr>b_name := new\<rparr>),
               insert_audit_log (branch_audit actor ''BRANCH_RENAMED'' (Text ''Renamed sanshain-branch'' [S nm, S new])) db1))))"

definition delete_branch :: "string \<Rightarrow> string \<Rightarrow> db \<Rightarrow> (app_error + unit) \<times> db" where
  "delete_branch nm actor db =
     (case find_branch db nm of
        None \<Rightarrow> (Inl (NotFound (Text ''no sanshain-branch'' [S nm])), db)
      | Some b \<Rightarrow> (Inr (),
          insert_audit_log (branch_audit actor ''BRANCH_DELETED'' (Text ''Deleted sanshain-branch'' [S nm]))
            (repo_delete_branch (b_id b) db)))"

section \<open>Reading a graph\<close>

text \<open>
  The loop over the pins with its two memo tables: the service ids looked up
  so far, and the versions found missing or present so far.
\<close>

fun mark_loop ::
    "db \<Rightarrow> (string \<rightharpoonup> row_id option) \<Rightarrow> (row_id \<times> api_type \<times> semver \<rightharpoonup> bool) \<Rightarrow> trunk_pin_info list \<Rightarrow> trunk_pin_info list" where
  "mark_loop db ids seen [] = []"
| "mark_loop db ids seen (pin # pins) =
     (let (sid, ids1) = (case ids (p_service pin) of
            Some cached \<Rightarrow> (cached, ids)
          | None \<Rightarrow> (find_service db (p_service pin), ids(p_service pin \<mapsto> find_service db (p_service pin))));
          (dangling, seen1) = (case sid of
            None \<Rightarrow> (True, seen)
          | Some i \<Rightarrow> (case seen (i, p_api_type pin, p_version pin) of
                Some cached \<Rightarrow> (cached, seen)
              | None \<Rightarrow> (let missing = (find_spec_version db i (p_api_type pin) (p_version pin) = None)
                         in (missing, seen((i, p_api_type pin, p_version pin) \<mapsto> missing)))))
      in pin\<lparr>p_dangling := dangling\<rparr> # mark_loop db ids1 seen1 pins)"

definition mark_dangling :: "db \<Rightarrow> trunk_pin_info list \<Rightarrow> trunk_pin_info list" where
  "mark_dangling db pins = mark_loop db Map.empty Map.empty pins"

definition optional_instant :: "(string \<Rightarrow> stamp option) \<Rightarrow> string option \<Rightarrow> app_error + stamp option" where
  "optional_instant rfc3339 at =
     (case at of None \<Rightarrow> Inr None | Some a \<Rightarrow> and_then (normalize_instant rfc3339 ''at'' a) (\<lambda>t. Inr (Some t)))"

definition get_branch_graph ::
    "(string \<Rightarrow> stamp option) \<Rightarrow> db \<Rightarrow> string \<Rightarrow> string option \<Rightarrow> app_error + trunk_pin_info list" where
  "get_branch_graph rfc3339 db nm at =
     and_then (optional_instant rfc3339 at) (\<lambda>t.
     case find_branch db nm of
       None \<Rightarrow> Inl (NotFound (Text ''no sanshain-branch'' [S nm]))
     | Some b \<Rightarrow> Inr (mark_dangling db (list_branch_pins db (b_id b) t)))"

definition trunk_pins_at :: "db \<Rightarrow> stamp option \<Rightarrow> trunk_pin_info list" where
  "trunk_pins_at db t = (case t of Some at \<Rightarrow> list_trunk_pins_at db at | None \<Rightarrow> list_current_trunk_pins db)"

definition get_trunk_graph ::
    "(string \<Rightarrow> stamp option) \<Rightarrow> db \<Rightarrow> string option \<Rightarrow> app_error + trunk_pin_info list" where
  "get_trunk_graph rfc3339 db at =
     and_then (optional_instant rfc3339 at) (\<lambda>t. Inr (mark_dangling db (trunk_pins_at db t)))"

definition resolve_graph_selection ::
    "(string \<Rightarrow> stamp option) \<Rightarrow> db \<Rightarrow> string \<Rightarrow> app_error + trunk_pin_info list \<times> (string \<times> string) list" where
  "resolve_graph_selection rfc3339 db raw =
     and_then (split_selector rfc3339 raw) (\<lambda>(nm, at).
     if nm = ''main'' then Inr (trunk_pins_at db at, list_periphery db TrunkTrack at)
     else case find_branch db nm of
            None \<Rightarrow> Inl (NotFound (Text ''no sanshain-branch'' [S nm]))
          | Some b \<Rightarrow> Inr (list_branch_pins db (b_id b) at, list_periphery db (BranchTrack (b_id b)) at))"

section \<open>The difference of two graphs\<close>

record pin_change =
  pc_client :: string
  pc_service :: string
  pc_api_type :: api_type
  pc_path :: string
  pc_method :: string
  pc_from :: semver
  pc_to :: semver

record graph_diff =
  gd_left :: string
  gd_right :: string
  gd_services_added :: "string list"
  gd_services_removed :: "string list"
  gd_pins_added :: "trunk_pin_info list"
  gd_pins_removed :: "trunk_pin_info list"
  gd_pins_changed :: "pin_change list"
  gd_periphery_added :: "(string \<times> string) list"
  gd_periphery_removed :: "(string \<times> string) list"

definition info_key :: "trunk_pin_info \<Rightarrow> string \<times> string \<times> api_type \<times> string \<times> string" where
  "info_key p = (p_client p, p_service p, p_api_type p, p_normalized_path p, p_method p)"

text \<open>Collecting into a map: of several pins with one key the last stays.\<close>

fun keyed :: "trunk_pin_info list \<Rightarrow> trunk_pin_info list" where
  "keyed [] = []"
| "keyed (p # ps) = (if info_key p \<in> info_key ` set ps then keyed ps else p # keyed ps)"

definition lookup_pin :: "trunk_pin_info list \<Rightarrow> string \<times> string \<times> api_type \<times> string \<times> string \<Rightarrow> trunk_pin_info option" where
  "lookup_pin m k = find (\<lambda>p. info_key p = k) m"

definition change_of :: "trunk_pin_info list \<Rightarrow> trunk_pin_info \<Rightarrow> pin_change option" where
  "change_of left r =
     (case lookup_pin left (info_key r) of
        Some l \<Rightarrow> if p_version l \<noteq> p_version r
                  then Some \<lparr>pc_client = p_client r, pc_service = p_service r, pc_api_type = p_api_type r,
                             pc_path = p_path r, pc_method = p_method r, pc_from = p_version l, pc_to = p_version r\<rparr>
                  else None
      | None \<Rightarrow> None)"

definition service_names :: "trunk_pin_info list \<Rightarrow> string list" where
  "service_names m = sort (remdups (map p_service m))"

definition diff_selections ::
    "string \<Rightarrow> string \<Rightarrow> trunk_pin_info list \<times> (string \<times> string) list \<Rightarrow> trunk_pin_info list \<times> (string \<times> string) list \<Rightarrow> graph_diff" where
  "diff_selections left right l r =
     (let lm = keyed (fst l); rm = keyed (fst r) in
      \<lparr>gd_left = left, gd_right = right,
       gd_services_added = filter (\<lambda>x. x \<notin> set (service_names lm)) (service_names rm),
       gd_services_removed = filter (\<lambda>x. x \<notin> set (service_names rm)) (service_names lm),
       gd_pins_added = order_pins (filter (\<lambda>p. lookup_pin lm (info_key p) = None) rm),
       gd_pins_removed = order_pins (filter (\<lambda>p. lookup_pin rm (info_key p) = None) lm),
       gd_pins_changed = sort_key (\<lambda>c. (pc_client c, pc_service c, pc_path c, pc_method c)) (List.map_filter (change_of lm) rm),
       gd_periphery_added = filter (\<lambda>x. x \<notin> set (snd l)) (snd r),
       gd_periphery_removed = filter (\<lambda>x. x \<notin> set (snd r)) (snd l)\<rparr>)"

definition diff_graphs ::
    "(string \<Rightarrow> stamp option) \<Rightarrow> db \<Rightarrow> string \<Rightarrow> string \<Rightarrow> app_error + graph_diff" where
  "diff_graphs rfc3339 db left right =
     and_then (resolve_graph_selection rfc3339 db left) (\<lambda>l.
     and_then (resolve_graph_selection rfc3339 db right) (\<lambda>r. Inr (diff_selections left right l r)))"

section \<open>Dangling references\<close>

definition is_dangling :: "db \<Rightarrow> trunk_pin_info \<Rightarrow> bool" where
  "is_dangling db pin \<longleftrightarrow>
     \<not> (\<exists>sid. find_service db (p_service pin) = Some sid \<and>
          (\<exists>v \<in> set (spec_versions db). v_service_id v = sid \<and> v_api_type v = p_api_type pin \<and> v_version v = p_version pin))"

lemma find_spec_version_None:
  "find_spec_version db i t v = None \<longleftrightarrow>
     \<not> (\<exists>r \<in> set (spec_versions db). v_service_id r = i \<and> v_api_type r = t \<and> v_version r = v)"
  by (auto simp: find_spec_version_def find_version_row_def find_None_not version_key_def)

lemma mark_loop_exact:
  assumes "\<forall>x y. ids x = Some y \<longrightarrow> y = find_service db x"
    and "\<forall>i t v b. seen (i, t, v) = Some b \<longrightarrow> b = (find_spec_version db i t v = None)"
  shows "mark_loop db ids seen pins = map (\<lambda>pin. pin\<lparr>p_dangling := is_dangling db pin\<rparr>) pins"
  using assms
proof (induction pins arbitrary: ids seen)
  case (Cons pin pins)
  let ?sid = "find_service db (p_service pin)"
  have dang: "is_dangling db pin \<longleftrightarrow> (case ?sid of None \<Rightarrow> True
      | Some i \<Rightarrow> find_spec_version db i (p_api_type pin) (p_version pin) = None)"
    by (auto simp: is_dangling_def find_spec_version_None split: option.splits)
  show ?case
    using Cons.prems unfolding mark_loop.simps Let_def
    by (auto simp: dang Cons.IH split: option.splits prod.splits)
qed simp

text \<open>
  A graph shows a pin as dangling exactly when the version it names is not
  in the store (its Producer is unknown or has no such version): the memo
  tables the loop keeps never change an answer, and nothing else of a pin
  changes.
\<close>

lemma mark_dangling_exact:
  "mark_dangling db pins = map (\<lambda>pin. pin\<lparr>p_dangling := is_dangling db pin\<rparr>) pins"
  unfolding mark_dangling_def by (rule mark_loop_exact) simp_all

section \<open>A cut is the graph of its instant\<close>

definition pin_content :: "trunk_pin_info \<Rightarrow> string \<times> string \<times> api_type \<times> semver \<times> string \<times> string \<times> string" where
  "pin_content p = (p_client p, p_service p, p_api_type p, p_version p, p_path p, p_normalized_path p, p_method p)"

lemma map_insort_key: "map f (insort_key (\<lambda>x. k (f x)) x xs) = insort_key k (f x) (map f xs)"
  by (induction xs) auto

lemma map_sort_key: "map f (sort_key (\<lambda>x. k (f x)) xs) = sort_key k (map f xs)"
  by (induction xs) (simp_all add: map_insort_key)

lemma content_order: "map pin_content (order_pins ps) =
    sort_key (\<lambda>(c, s, a, v, p, n, m). (c, s, p, m)) (map pin_content ps)"
proof -
  have "order_pins ps = sort_key (\<lambda>p. (\<lambda>(c, s, a, v, p, n, m). (c, s, p, m)) (pin_content p)) ps"
    by (simp add: order_pins_def pin_content_def)
  then show ?thesis by (simp add: map_sort_key)
qed

definition branch_ids_ok :: "db \<Rightarrow> bool" where
  "branch_ids_ok db \<longleftrightarrow> (\<forall>r \<in> set (branch_deps db). k_branch_id r < next_branch db) \<and>
     (\<forall>r \<in> set (periphery db). \<forall>b. pe_track r = BranchTrack b \<longrightarrow> b < next_branch db) \<and>
     (\<forall>b \<in> set (branches db). b_id b < next_branch db)"

lemma copy_pin_simps [simp]:
  "k_branch_id (copy_pin bid now r) = bid" "is_open (copy_pin bid now r)"
  "pin_content (pin_row_to_info (copy_pin bid now r)) = pin_content (pin_row_to_info r)"
  "pin_key (copy_pin bid now r) = pin_key r" "branch_pin_key (copy_pin bid now r) = (bid, pin_key r)"
  by (simp_all add: copy_pin_def on_branch_def pin_row.defs is_open_def pin_content_def pin_row_to_info_def
      pin_key_def branch_pin_key_def)

lemma copy_resource_simps [simp]:
  "pe_track (copy_resource bid now r) = BranchTrack bid" "is_open (copy_resource bid now r)"
  "pe_system (copy_resource bid now r) = pe_system r" "pe_resource (copy_resource bid now r) = pe_resource r"
  by (simp_all add: copy_resource_def is_open_def)

lemma write_outbox_branches [simp]:
  "branches (write_outbox evs db) = branches db" "branch_deps (write_outbox evs db) = branch_deps db"
  "trunk_deps (write_outbox evs db) = trunk_deps db" "periphery (write_outbox evs db) = periphery db"
  "next_branch (write_outbox evs db) = next_branch db" "branch_members (write_outbox evs db) = branch_members db"
  using write_outbox_shape [of evs db] by auto

lemma copy_graph_Inr:
  "copy_graph bid ps rs db = Inr db2 \<longleftrightarrow>
     one_open branch_pin_key (branch_deps db @ ps) \<and> one_open periphery_key (periphery db @ rs) \<and>
     db2 = db\<lparr>branch_deps := branch_deps db @ ps, periphery := periphery db @ rs\<rparr>"
  by (auto simp: copy_graph_def insert_open_def rust)

text \<open>The graph a cut copies.\<close>

definition source_pins :: "db \<Rightarrow> branch_info option \<Rightarrow> stamp \<Rightarrow> trunk_pin_info list" where
  "source_pins db source as_of =
     (case source of None \<Rightarrow> list_trunk_pins_at db as_of | Some b \<Rightarrow> list_branch_pins db (b_id b) (Some as_of))"

definition source_track :: "branch_info option \<Rightarrow> periphery_track" where
  "source_track source = (case source of None \<Rightarrow> TrunkTrack | Some b \<Rightarrow> BranchTrack (b_id b))"

lemma cut_branch_Inr:
  assumes "cut_branch E who nm source as_of db = (Inr b, db')"
  obtains db1 db2 now row where
    "find_branch db nm = None" "b_id b = next_branch db" "b_name b = nm" "b_as_of b = as_of"
    "branches db1 = branches db @ [b]" "branch_deps db1 = branch_deps db" "periphery db1 = periphery db"
    "trunk_deps db1 = trunk_deps db" "copy_source_graph source (next_branch db) as_of now db1 = Inr db2"
    "db' = insert_audit_log row db2"
proof -
  from assms obtain db1 db2 where i: "insert_branch nm (clock E 1) who (source_label source) as_of
        (case plan_event E 2 db BranchCut audience_global (BranchCutData nm (source_label source) as_of (clock E 1) who) of
                   None \<Rightarrow> [] | Some ev \<Rightarrow> [ev]) db = Inr (b_id b, db1)"
    and c: "copy_source_graph source (b_id b) as_of (clock E 1) db1 = Inr db2"
    and b: "b = \<lparr>b_id = b_id b, b_name = nm, b_created_at = clock E 1, b_created_by = who, b_source = source_label source, b_as_of = as_of\<rparr>"
    and d: "db' = insert_audit_log (branch_audit who ''BRANCH_CREATED''
                  (Text ''Created sanshain-branch'' [S nm, S (source_label source), S as_of])) db2"
    unfolding cut_branch_def Let_def by (auto split: sum.splits prod.splits repository_error.splits)
  from i have id: "b_id b = next_branch db" and none: "find_branch db nm = None"
    by (auto simp: insert_branch_def find_branch_def find_None_not exists_row_iff split: if_splits)
  moreover from i b id have "branches db1 = branches db @ [b]" "branch_deps db1 = branch_deps db"
    "periphery db1 = periphery db" "trunk_deps db1 = trunk_deps db"
    by (auto simp: insert_branch_def split: if_splits)
  moreover from b have "b_name b = nm" "b_as_of b = as_of" by (metis branch_info.select_convs)+
  ultimately show thesis using that c d by metis
qed

lemma copy_source_graph_Inr:
  assumes "copy_source_graph source bid as_of now db = Inr db2"
  obtains ps rs where
    "db2 = db\<lparr>branch_deps := branch_deps db @ ps, periphery := periphery db @ rs\<rparr>"
    "\<forall>p \<in> set ps. k_branch_id p = bid \<and> is_open p" "\<forall>r \<in> set rs. pe_track r = BranchTrack bid \<and> is_open r"
    "map pin_content (order_pins (map pin_row_to_info ps)) = map pin_content (source_pins db source as_of)"
    "sort (map (\<lambda>r. (pe_system r, pe_resource r)) rs) = list_periphery db (source_track source) (Some as_of)"
proof (cases source)
  case None
  let ?ps = "map (copy_pin bid now) (filter (alive_at as_of) (trunk_deps db))"
  let ?rs = "map (copy_resource bid now) (filter (\<lambda>r. pe_track r = TrunkTrack \<and> alive_at as_of r) (periphery db))"
  have f1: "db2 = db\<lparr>branch_deps := branch_deps db @ ?ps, periphery := periphery db @ ?rs\<rparr>"
    using assms None by (simp add: copy_source_graph_def copy_trunk_graph_to_branch_def copy_graph_Inr)
  have f2: "map pin_content (order_pins (map pin_row_to_info ?ps)) = map pin_content (source_pins db source as_of)"
    by (simp add: None source_pins_def list_trunk_pins_at_def content_order o_def)
  have f3: "sort (map (\<lambda>r. (pe_system r, pe_resource r)) ?rs) = list_periphery db (source_track source) (Some as_of)"
    by (simp add: None source_track_def list_periphery_def o_def)
  show thesis by (rule that [OF f1 _ _ f2 f3]) simp_all
next
  case (Some src)
  let ?ps = "map (copy_pin bid now) (filter (\<lambda>r. k_branch_id r = b_id src \<and> alive_at as_of r) (branch_deps db))"
  let ?rs = "map (copy_resource bid now) (filter (\<lambda>r. pe_track r = BranchTrack (b_id src) \<and> alive_at as_of r) (periphery db))"
  have f1: "db2 = db\<lparr>branch_deps := branch_deps db @ ?ps, periphery := periphery db @ ?rs\<rparr>"
    using assms Some by (simp add: copy_source_graph_def copy_branch_graph_to_branch_def copy_graph_Inr)
  have f2: "map pin_content (order_pins (map pin_row_to_info ?ps)) = map pin_content (source_pins db source as_of)"
    by (simp add: Some source_pins_def list_branch_pins_def content_order o_def)
  have f3: "sort (map (\<lambda>r. (pe_system r, pe_resource r)) ?rs) = list_periphery db (source_track source) (Some as_of)"
    by (simp add: Some source_track_def list_periphery_def o_def)
  show thesis by (rule that [OF f1 _ _ f2 f3]) simp_all
qed

text \<open>
  C40: A cut is the graph of its instant. When creating a Sanshain-branch
  succeeds, the new branch has a name nobody had, its pins are exactly the pins
  the source (the main graph or another branch) had at the chosen instant, its
  periphery likewise, and no other graph changes at any instant: neither the
  main graph nor another branch's.
\<close>

theorem branch_cut_is_source_graph:
  assumes "create_branch rfc3339 E params db = (Inr b, db')" and "branch_ids_ok db"
  shows "\<exists>source. branch_source db params = Inr source \<and>
      find_branch db (b_name b) = None \<and> find_branch db' (b_name b) = Some b \<and>
      map pin_content (list_branch_pins db' (b_id b) None) = map pin_content (source_pins db source (b_as_of b)) \<and>
      list_periphery db' (BranchTrack (b_id b)) None = list_periphery db (source_track source) (Some (b_as_of b)) \<and>
      trunk_deps db' = trunk_deps db \<and>
      (\<forall>other at. other \<noteq> b_id b \<longrightarrow> list_branch_pins db' other at = list_branch_pins db other at)"
proof -
  from assms(1) obtain as_of source where src: "branch_source db params = Inr source"
    and cut: "cut_branch E (cb_created_by params) (trim (cb_name params)) source as_of db = (Inr b, db')"
    unfolding create_branch_def by (auto simp: rust split: sum.splits prod.splits)
  from cut obtain db1 db2 now row where
    c: "find_branch db (b_name b) = None" "b_id b = next_branch db" "b_as_of b = as_of"
      "branches db1 = branches db @ [b]" "branch_deps db1 = branch_deps db" "periphery db1 = periphery db"
      "trunk_deps db1 = trunk_deps db" "copy_source_graph source (b_id b) as_of now db1 = Inr db2"
      "db' = insert_audit_log row db2"
    by (elim cut_branch_Inr) simp
  from c(8) obtain ps rs where k: "db2 = db1\<lparr>branch_deps := branch_deps db1 @ ps, periphery := periphery db1 @ rs\<rparr>"
    "\<forall>p \<in> set ps. k_branch_id p = b_id b \<and> is_open p" "\<forall>r \<in> set rs. pe_track r = BranchTrack (b_id b) \<and> is_open r"
    "map pin_content (order_pins (map pin_row_to_info ps)) = map pin_content (source_pins db1 source as_of)"
    "sort (map (\<lambda>r. (pe_system r, pe_resource r)) rs) = list_periphery db1 (source_track source) (Some as_of)"
    by (rule copy_source_graph_Inr)
  have db': "branch_deps db' = branch_deps db @ ps" "periphery db' = periphery db @ rs" "trunk_deps db' = trunk_deps db"
    "branches db' = branches db @ [b]"
    by (simp_all add: c k insert_audit_log_def)
  have same: "source_pins db1 source as_of = source_pins db source as_of"
    "list_periphery db1 tr (Some as_of) = list_periphery db tr (Some as_of)" for tr
    by (simp_all add: source_pins_def list_trunk_pins_at_def list_branch_pins_def list_periphery_def c split: option.splits)
  have "filter (\<lambda>r. k_branch_id r = b_id b \<and> is_open r) (branch_deps db) = []"
    "filter (\<lambda>r. pe_track r = BranchTrack (b_id b) \<and> is_open r) (periphery db) = []"
    using assms(2) c(2) by (auto simp: filter_empty_conv branch_ids_ok_def)
  moreover have "filter (\<lambda>r. k_branch_id r = b_id b \<and> is_open r) ps = ps"
    "filter (\<lambda>r. pe_track r = BranchTrack (b_id b) \<and> is_open r) rs = rs"
    using k(2,3) by (auto simp: filter_id_conv)
  ultimately have "map pin_content (list_branch_pins db' (b_id b) None) = map pin_content (source_pins db source as_of)"
    "list_periphery db' (BranchTrack (b_id b)) None = list_periphery db (source_track source) (Some as_of)"
    using k(4,5) by (simp_all add: list_branch_pins_def list_periphery_def [of db'] db' same)
  moreover have "list_branch_pins db' other at = list_branch_pins db other at" if "other \<noteq> b_id b" for other at
  proof -
    have "filter (\<lambda>r. k_branch_id r = other \<and> q r) ps = []" for q using k(2) that by (auto simp: filter_empty_conv)
    then show ?thesis by (simp add: list_branch_pins_def db')
  qed
  moreover have "find_branch db' (b_name b) = Some b"
    using c(1) by (simp add: find_branch_def db' find_append)
  ultimately show ?thesis using src c(1,3) db'(3) by auto
qed

definition sample_branch_params :: create_branch_params where
  "sample_branch_params = \<lparr>cb_name = '' R1 '', cb_source = None, cb_as_of = Some ''2026-01-01'', cb_created_by = ''rel''\<rparr>"

definition sample_graph :: db where
  "sample_graph = record_trunk_pins [sample_pin 2] ''2026-01-02'' (record_trunk_pins [sample_pin 1] ''2026-01-01'' empty_db)"

theorem branch_cut_is_source_graph_witness:
  "\<exists>b db'. create_branch Some sample_env sample_branch_params sample_graph = (Inr b, db') \<and>
     map (\<lambda>(c, s, a, v, r). v) (map pin_content (list_branch_pins db' (b_id b) None)) = [SemVer 1 0 0]"
proof -
  let ?r = "create_branch Some sample_env sample_branch_params sample_graph"
  have "(case ?r of (Inr b, _) \<Rightarrow> b_as_of b = ''2026-01-01'' | _ \<Rightarrow> False)" by code_simp
  then obtain b db' where r: "?r = (Inr b, db')" and t: "b_as_of b = ''2026-01-01''"
    by (auto split: prod.splits sum.splits)
  have "branch_source sample_graph sample_branch_params = Inr None" by code_simp
  moreover have "map (\<lambda>(c, s, a, v, r). v) (map pin_content (source_pins sample_graph None ''2026-01-01'')) = [SemVer 1 0 0]"
    by code_simp
  moreover have "branch_ids_ok sample_graph"
    by (simp add: sample_graph_def branch_ids_ok_def record_trunk_pins_def empty_db_def)
  ultimately show ?thesis using branch_cut_is_source_graph [OF r] r t by auto
qed

section \<open>The difference says what changed\<close>

definition last_pin :: "trunk_pin_info list \<Rightarrow> string \<times> string \<times> api_type \<times> string \<times> string \<Rightarrow> trunk_pin_info option" where
  "last_pin ps k = find (\<lambda>p. info_key p = k) (rev ps)"

lemma keys_keyed: "info_key ` set (keyed ps) = info_key ` set ps"
  by (induction ps) auto

lemma lookup_keyed: "lookup_pin (keyed ps) k = last_pin ps k"
proof (induction ps)
  case (Cons p ps)
  have "last_pin ps k = None \<longleftrightarrow> k \<notin> info_key ` set ps"
    by (auto simp: last_pin_def find_None_not)
  then show ?case using Cons
    by (auto simp: last_pin_def lookup_pin_def find_append split: option.splits)
qed (simp add: last_pin_def lookup_pin_def)

lemma distinct_keyed: "distinct (map info_key (keyed ps))"
  by (induction ps) (auto simp: keys_keyed)

lemma in_keyed: "p \<in> set (keyed ps) \<longleftrightarrow> last_pin ps (info_key p) = Some p"
proof
  assume "p \<in> set (keyed ps)"
  then have "lookup_pin (keyed ps) (info_key p) = Some p"
    unfolding lookup_pin_def by (rule find_unique [OF distinct_keyed]) auto
  then show "last_pin ps (info_key p) = Some p" by (simp add: lookup_keyed)
next
  assume "last_pin ps (info_key p) = Some p"
  then show "p \<in> set (keyed ps)" by (auto simp: lookup_keyed [symmetric] lookup_pin_def dest: find_Some_in)
qed

lemma lookup_keyed_None: "lookup_pin (keyed ps) k = None \<longleftrightarrow> k \<notin> info_key ` set ps"
  by (auto simp: lookup_keyed last_pin_def find_None_not)

lemma last_pin_key: "last_pin ps k = Some p \<Longrightarrow> info_key p = k"
  by (auto simp: last_pin_def dest: find_Some_in)

definition moved :: "trunk_pin_info \<Rightarrow> trunk_pin_info \<Rightarrow> pin_change" where
  "moved l r = \<lparr>pc_client = p_client r, pc_service = p_service r, pc_api_type = p_api_type r, pc_path = p_path r,
     pc_method = p_method r, pc_from = p_version l, pc_to = p_version r\<rparr>"

lemma in_changes:
  "c \<in> set (List.map_filter (change_of (keyed x)) (keyed y)) \<longleftrightarrow>
     (\<exists>k l r. last_pin x k = Some l \<and> last_pin y k = Some r \<and> p_version l \<noteq> p_version r \<and> c = moved l r)"
  (is "?L \<longleftrightarrow> ?R")
proof
  have ch: "change_of (keyed x) r = Some c \<longleftrightarrow>
      (\<exists>l. last_pin x (info_key r) = Some l \<and> p_version l \<noteq> p_version r \<and> c = moved l r)" for r
    by (cases "last_pin x (info_key r)") (auto simp: change_of_def lookup_keyed moved_def)
  show "?L \<Longrightarrow> ?R" unfolding in_map_filter ch in_keyed Bex_def by fast
  assume ?R
  then obtain k l r where w: "last_pin x k = Some l" "last_pin y k = Some r" "p_version l \<noteq> p_version r" "c = moved l r"
    by fast
  then have "k = info_key r" using last_pin_key by simp
  with w show ?L unfolding in_map_filter ch in_keyed Bex_def by fast
qed

text \<open>
  The difference of two graph selections is exact. A pin is reported added
  when the right side has its Consumer, Producer and endpoint (by normalized
  path) and the left does not, removed in the opposite case, and changed when
  both sides have it at different versions, with those two versions; nothing
  else is reported. Services are added or removed accordingly, and a graph
  compared with itself shows no difference.
\<close>

lemma diff_selections_exact:
  "info_key ` set (gd_pins_added (diff_selections left right l r)) = info_key ` set (fst r) - info_key ` set (fst l) \<and>
   info_key ` set (gd_pins_removed (diff_selections left right l r)) = info_key ` set (fst l) - info_key ` set (fst r) \<and>
   (c \<in> set (gd_pins_changed (diff_selections left right l r)) \<longleftrightarrow>
     (\<exists>k pl pr. last_pin (fst l) k = Some pl \<and> last_pin (fst r) k = Some pr \<and> p_version pl \<noteq> p_version pr \<and>
        c = moved pl pr)) \<and>
   set (gd_services_added (diff_selections left right l r)) = p_service ` set (fst r) - p_service ` set (fst l) \<and>
   set (gd_services_removed (diff_selections left right l r)) = p_service ` set (fst l) - p_service ` set (fst r) \<and>
   gd_pins_added (diff_selections left right l l) = [] \<and> gd_pins_removed (diff_selections left right l l) = [] \<and>
   gd_pins_changed (diff_selections left right l l) = []"
proof -
  have svc: "set (service_names (keyed ps)) = p_service ` set ps" for ps
  proof -
    have "p_service p = (\<lambda>(c, s, a, n, m). s) (info_key p)" for p by (simp add: info_key_def)
    then have "p_service ` X = (\<lambda>(c, s, a, n, m). s) ` info_key ` X" for X by (simp add: image_image)
    then show ?thesis by (simp add: service_names_def keys_keyed)
  qed
  have one: "info_key ` {p \<in> set (keyed x). info_key p \<notin> info_key ` set y} = info_key ` set x - info_key ` set y" for x y
  proof -
    have "info_key ` {p \<in> X. info_key p \<notin> Y} = info_key ` X - Y" for X Y by auto
    then show ?thesis by (simp add: keys_keyed)
  qed
  have "List.map_filter (change_of (keyed x)) (keyed x) = []" for x
    by (auto simp: filter_empty_conv in_map_filter change_of_def lookup_keyed in_keyed List.map_filter_def)
  moreover have "order_pins ps = [] \<longleftrightarrow> ps = []" "set (order_pins ps) = set ps" for ps
    by (simp_all add: order_pins_def)
  moreover have "\<forall>x \<in> set (keyed ps). info_key x \<in> info_key ` set ps" for ps by (metis imageI keys_keyed)
  ultimately show ?thesis
    unfolding diff_selections_def Let_def
    by (simp add: lookup_keyed_None one svc in_changes set_diff_eq filter_empty_conv keys_keyed)
qed

end
