(* ===== verification/Provide.thy ===== *)
theory Provide
  imports Branches
begin

text \<open>
  The Provide use case, \<open>application/provide_service.rs\<close>: the GA gate, the
  version rules, harvested subscriptions, channel message contracts, promotion
  and the writes of an accepted document. The phases of
  \<open>provide_spec_inner\<close> are definitions of their own, composed as the code
  composes them. A handler answers its response or error together with the
  state it leaves: what was written before a refusal stays written. The
  response is \<open>None\<close> when the call does not return (the search for a free
  version can run forever). Counters and log lines are not modelled.
\<close>

section \<open>Parameters and rejections\<close>

record provide_params =
  pv_producer :: string
  pv_api_type :: api_type
  pv_content :: string
  pv_stability :: stability
  pv_dry_run :: bool
  pv_trunk :: bool
  pv_tag :: "string option"
  pv_caller :: "actor option"
  pv_require_prior :: bool

type_synonym 'r outcome = "(app_error + 'r) option \<times> db"

record version_rejection =
  rj_username :: "string option"
  rj_producer :: string
  rj_api_type :: api_type
  rj_version :: semver
  rj_reason :: string
  rj_message :: message
  rj_proposed :: "semver option"

definition rejection_audit :: "version_rejection \<Rightarrow> audit_row" where
  "rejection_audit rj =
     \<lparr>au_username = or_keep (rj_username rj) dev_mode_actor, au_action = ''VERSION_REJECTED'',
      au_details = rj_message rj, au_service = Some (rj_producer rj),
      au_version = Some (semver_to_string (rj_version rj)), au_action_type = Some ''REJECT''\<rparr>"

definition rejection_data :: "version_rejection \<Rightarrow> event_data" where
  "rejection_data rj = RejectedData (rj_producer rj) (rj_api_type rj) (rj_version rj) (rj_reason rj)
     (rj_message rj) (rj_proposed rj) (rj_username rj)"

definition record_version_rejection :: "env \<Rightarrow> bool \<Rightarrow> version_rejection \<Rightarrow> db \<Rightarrow> db" where
  "record_version_rejection E dry_run rj db =
     (if dry_run then db
      else case find_service db (rj_producer rj) of
             None \<Rightarrow> db
           | Some _ \<Rightarrow>
               (let db1 = insert_audit_log (rejection_audit rj) db in
                case plan_event E 5 db1 ProvideRejected (audience_producer (rj_producer rj)) (rejection_data rj) of
                  None \<Rightarrow> db1
                | Some ev \<Rightarrow> insert_webhook_events [ev] db1))"

definition origin_for_identical_provide ::
    "version_origin option \<Rightarrow> version_origin \<Rightarrow> bool \<Rightarrow> version_origin option" where
  "origin_for_identical_provide stored incoming trunk =
     (let trunk_link = (trunk \<and> build_url incoming \<noteq> None) in
      case stored of
        None \<Rightarrow> Some (incoming\<lparr>trunk_build := trunk_link\<rparr>)
      | Some st \<Rightarrow>
          if trunk_link \<and> \<not> trunk_build st
          then Some \<lparr>build_url = build_url incoming,
                     change_url = (if change_url st \<noteq> None then change_url st else change_url incoming),
                     tickets = (if tickets st = [] then tickets incoming else tickets st),
                     origin_note = (if origin_note st \<noteq> None then origin_note st else origin_note incoming),
                     trunk_build = True\<rparr>
          else None)"

section \<open>Harvested subscriptions\<close>

definition contract_owner :: "db \<Rightarrow> channel_message_contract option \<Rightarrow> row_id option \<times> string option" where
  "contract_owner db contract =
     (case contract of
        None \<Rightarrow> (None, None)
      | Some c \<Rightarrow> (case get_service_name_by_id db (c_owner_service_id c) of
            Some nm \<Rightarrow> (Some (c_owner_service_id c), Some nm)
          | None \<Rightarrow> (None, None)))"

definition subscription_drift ::
    "spec_tools \<Rightarrow> stability \<Rightarrow> pub_message \<Rightarrow> channel_message_contract option \<Rightarrow> app_error + message option" where
  "subscription_drift T stability sub contract =
     (case contract of
        None \<Rightarrow> Inr None
      | Some c \<Rightarrow> (case check_expectation_satisfied T (c_payload_yaml c) (m_payload_yaml sub) of
            Inr _ \<Rightarrow> Inr None
          | Inl reason \<Rightarrow>
              (let detail = Text ''channel message'' [S (m_channel sub), S (m_message_name sub), M reason] in
               if stability = Ga
               then Inl (Conflict (Text ''AsyncAPI subscription expectation is not satisfiable by the current contract'' [M detail]))
               else Inr (Some detail))))"

fun plan_harvest ::
    "spec_tools \<Rightarrow> db \<Rightarrow> stability \<Rightarrow> pub_message list \<Rightarrow> app_error + harvested_sub_input list \<times> harvested_subscription_result list" where
  "plan_harvest T db stability [] = Inr ([], [])"
| "plan_harvest T db stability (sub # subs) =
     (let contract = get_channel_message_contract db (m_channel sub) (m_message_name sub);
          (owner_id, owner) = contract_owner db contract in
      and_then (subscription_drift T stability sub contract) (\<lambda>drift.
      and_then (plan_harvest T db stability subs) (\<lambda>(inputs, results).
        Inr (\<lparr>hi_channel = m_channel sub, hi_message_name = m_message_name sub, hi_owner_service_id = owner_id,
              hi_owner_name = owner\<rparr> # inputs,
             \<lparr>hr_channel = m_channel sub, hr_message_name = m_message_name sub, hr_owner = owner, hr_drift = drift\<rparr> # results))))"

definition plan_subscription_harvest ::
    "spec_tools \<Rightarrow> db \<Rightarrow> string \<Rightarrow> stability \<Rightarrow> app_error + harvested_sub_input list \<times> harvested_subscription_result list" where
  "plan_subscription_harvest T db content stability =
     and_then (map_err BadRequest (extract_sub_messages T content)) (plan_harvest T db stability)"

definition reconcile_harvest :: "string \<Rightarrow> bool \<Rightarrow> harvested_sub_input list \<Rightarrow> stamp \<Rightarrow> db \<Rightarrow> db" where
  "reconcile_harvest producer trunk inputs now db =
     (let (cid, db1) = ensure_client producer db in reconcile_harvested_subscriptions cid producer trunk inputs now db1)"

section \<open>Channel message contracts\<close>

datatype contract_op = UpsertContract channel_message_contract | DeleteContract string string

definition new_contract :: "pub_message \<Rightarrow> row_id \<Rightarrow> channel_message_contract" where
  "new_contract msg sid = \<lparr>c_channel = m_channel msg, c_message_name = m_message_name msg,
     c_owner_service_id = sid, c_payload_yaml = m_payload_yaml msg\<rparr>"

definition plan_message :: "spec_tools \<Rightarrow> db \<Rightarrow> row_id \<Rightarrow> pub_message \<Rightarrow> app_error + contract_op list" where
  "plan_message T db sid msg =
     (case get_channel_message_contract db (m_channel msg) (m_message_name msg) of
        None \<Rightarrow> Inr [UpsertContract (new_contract msg sid)]
      | Some c \<Rightarrow>
          if get_service_name_by_id db (c_owner_service_id c) = None
          then Inr [UpsertContract (new_contract msg sid)]
          else if c_owner_service_id c = sid then
            (case check_payload_compatible T (c_payload_yaml c) (m_payload_yaml msg) of
               Inl reason \<Rightarrow> Inl (BreakingChange (Text ''Incompatible change to owned AsyncAPI message''
                                [S (m_message_name msg), S (m_channel msg), M reason]))
             | Inr _ \<Rightarrow> Inr [UpsertContract (new_contract msg sid)])
          else if \<not> payloads_equal T (c_payload_yaml c) (m_payload_yaml msg) then
            Inl (Conflict (Text ''AsyncAPI message is owned by another service with a different schema''
              [S (m_message_name msg), S (m_channel msg),
               S (or_keep (get_service_name_by_id db (c_owner_service_id c)) ''another service'')]))
          else Inr [])"

fun plan_messages :: "spec_tools \<Rightarrow> db \<Rightarrow> row_id \<Rightarrow> pub_message list \<Rightarrow> app_error + contract_op list" where
  "plan_messages T db sid [] = Inr []"
| "plan_messages T db sid (msg # msgs) =
     and_then (plan_message T db sid msg) (\<lambda>ops.
     and_then (plan_messages T db sid msgs) (\<lambda>rest. Inr (ops @ rest)))"

definition plan_channel_message_contracts :: "spec_tools \<Rightarrow> db \<Rightarrow> row_id \<Rightarrow> string \<Rightarrow> app_error + contract_op list" where
  "plan_channel_message_contracts T db sid content =
     and_then (map_err BadRequest (extract_pub_messages T content)) (\<lambda>msgs.
     and_then (plan_messages T db sid msgs) (\<lambda>ops.
       Inr (ops @ map (\<lambda>c. DeleteContract (c_channel c) (c_message_name c))
         (filter (\<lambda>c. c_owner_service_id c = sid \<and> (c_channel c, c_message_name c) \<notin> (\<lambda>m. (m_channel m, m_message_name m)) ` set msgs)
           (list_channel_message_contracts db)))))"

fun apply_contract_op :: "contract_op \<Rightarrow> db \<Rightarrow> db" where
  "apply_contract_op (UpsertContract c) db = upsert_channel_message_contract c db"
| "apply_contract_op (DeleteContract ch m) db = delete_channel_message_contract ch m db"

definition apply_contract_ops :: "contract_op list \<Rightarrow> db \<Rightarrow> db" where
  "apply_contract_ops ops db = foldl (\<lambda>d op. apply_contract_op op d) db ops"

section \<open>What a Provide knows once the document is read\<close>

record provide_facts =
  pf_producer :: string
  pf_api_type :: api_type
  pf_content :: string
  pf_stability :: stability
  pf_dry_run :: bool
  pf_stream :: resolved_stream
  pf_username :: "string option"
  pf_prior_match :: bool
  pf_version :: semver
  pf_hash :: string
  pf_endpoints :: "endpoint_spec list"
  pf_origin :: version_origin

definition rejection ::
    "provide_facts \<Rightarrow> string \<Rightarrow> message \<Rightarrow> semver option \<Rightarrow> version_rejection" where
  "rejection f reason msg proposed =
     \<lparr>rj_username = pf_username f, rj_producer = pf_producer f, rj_api_type = pf_api_type f,
      rj_version = pf_version f, rj_reason = reason, rj_message = msg, rj_proposed = proposed\<rparr>"

definition record_contract_rejection :: "env \<Rightarrow> provide_facts \<Rightarrow> app_error \<Rightarrow> db \<Rightarrow> db" where
  "record_contract_rejection E f e db =
     (case e of
        Conflict msg \<Rightarrow> record_version_rejection E (pf_dry_run f) (rejection f ''message_contract_conflict'' msg None) db
      | BreakingChange msg \<Rightarrow> record_version_rejection E (pf_dry_run f) (rejection f ''message_contract_conflict'' msg None) db
      | _ \<Rightarrow> db)"

text \<open>Resolve the stream, normalize the text and read version, fingerprint and endpoints.\<close>

definition read_provide ::
    "spec_tools \<Rightarrow> provide_params \<Rightarrow> version_origin \<Rightarrow> db \<Rightarrow> app_error + provide_facts" where
  "read_provide T p origin db =
     (let content = normalize_spec_text (pv_content p) in
      and_then (extract_spec_version T (pv_api_type p) content) (\<lambda>version.
      and_then (parse_spec_endpoints T (pv_api_type p) content) (\<lambda>es.
        Inr \<lparr>pf_producer = pv_producer p, pf_api_type = pv_api_type p, pf_content = content,
             pf_stability = pv_stability p, pf_dry_run = pv_dry_run p,
             pf_stream = resolve_stream db (pv_trunk p) (pv_tag p),
             pf_username = map_option a_username (pv_caller p), pf_prior_match = pv_require_prior p,
             pf_version = version, pf_hash = content_hash T content, pf_endpoints = es, pf_origin = origin\<rparr>)))"

definition may_release :: "actor option \<Rightarrow> bool" where
  "may_release caller = (case caller of None \<Rightarrow> False | Some a \<Rightarrow> has_permission a ReleaseGa)"

definition ga_gate_message :: "provide_facts \<Rightarrow> message" where
  "ga_gate_message f = Text ''publishing GA requires the releaser role'' [S (pf_producer f)]"

definition register_producer :: "provide_facts \<Rightarrow> db \<Rightarrow> row_id \<times> db" where
  "register_producer f db =
     (if pf_dry_run f then (or_keep (find_service db (pf_producer f)) 0, db)
      else let (sid, db1) = ensure_service (pf_producer f) db in
        (sid, case pf_api_type f of
                AsyncApi \<Rightarrow> add_service_tags sid [''messaging''] db1
              | Proto \<Rightarrow> add_service_tags sid [''grpc''] db1
              | OpenApi \<Rightarrow> db1))"

definition version_line :: "db \<Rightarrow> row_id \<Rightarrow> api_type \<Rightarrow> spec_version_meta list" where
  "version_line db sid t = (if sid \<noteq> 0 then filter (\<lambda>v. v_api_type v = t) (list_spec_versions db sid) else [])"

definition harvests :: "provide_facts \<Rightarrow> bool" where
  "harvests f \<longleftrightarrow> pf_api_type f = AsyncApi \<and> st_branch (pf_stream f) = None"

section \<open>The idempotent no-op\<close>

definition is_unchanged :: "provide_facts \<Rightarrow> spec_version_meta option \<Rightarrow> bool" where
  "is_unchanged f existing =
     (case existing of None \<Rightarrow> False
      | Some entry \<Rightarrow> v_content_hash entry = pf_hash f \<and> \<not> (v_stability entry = Snapshot \<and> pf_stability f = Ga))"

definition mark_member :: "provide_facts \<Rightarrow> row_id \<Rightarrow> stamp \<Rightarrow> db \<Rightarrow> db" where
  "mark_member f sid now db =
     (case st_branch (pf_stream f) of
        None \<Rightarrow> db
      | Some b \<Rightarrow> record_branch_member_version (b_id b) sid (pf_api_type f) (pf_version f) now db)"

definition refresh_origin :: "provide_facts \<Rightarrow> row_id \<Rightarrow> db \<Rightarrow> db" where
  "refresh_origin f vid db =
     (if origin_is_empty (pf_origin f) then db
      else case origin_for_identical_provide (get_version_origin db vid) (pf_origin f) (st_trunk (pf_stream f)) of
             None \<Rightarrow> db
           | Some merged \<Rightarrow> set_version_origin vid merged db)"

definition refresh_unchanged ::
    "env \<Rightarrow> provide_facts \<Rightarrow> row_id \<Rightarrow> spec_version_meta \<Rightarrow> harvested_sub_input list \<Rightarrow> db \<Rightarrow> db" where
  "refresh_unchanged E f sid entry inputs db =
     (if pf_dry_run f then db
      else let db1 = (if v_stability entry = Snapshot then touch_spec_version_provided (v_id entry) (clock E 0) db else db);
               db2 = (if st_trunk (pf_stream f) then touch_spec_version_trunk (v_id entry) (clock E 1) db1 else db1);
               db3 = mark_member f sid (clock E 2) db2;
               db4 = (if harvests f then reconcile_harvest (pf_producer f) (st_trunk (pf_stream f)) inputs (clock E 3) db3 else db3)
           in refresh_origin f (v_id entry) db4)"

definition response ::
    "provide_facts \<Rightarrow> stability \<Rightarrow> provide_changes \<Rightarrow> bool \<Rightarrow> harvested_subscription_result list \<Rightarrow> provide_response" where
  "response f stab changes promoted harvest =
     \<lparr>pr_version = pf_version f, pr_stability = stab, pr_content_hash = pf_hash f, pr_changes = changes,
      pr_promoted = promoted, pr_harvested = harvest, pr_stream = pf_stream f\<rparr>"

definition no_changes :: provide_changes where
  "no_changes = \<lparr>inserts = 0, updates = 0, deletes = 0\<rparr>"

section \<open>The version rules\<close>

text \<open>
  A refusal under a version rule: its reason, the version proposed instead
  (\<open>None\<close> when the search does not return) and the message naming it.
\<close>

type_synonym refusal = "string \<times> semver option \<times> (semver \<Rightarrow> message)"

definition ga_conflict ::
    "spec_tools \<Rightarrow> provide_facts \<Rightarrow> spec_version_meta list \<Rightarrow> spec_version_meta \<Rightarrow> db \<Rightarrow> refusal" where
  "ga_conflict T f line entry db =
     (let old_content = or_keep (get_spec_content db (v_id entry)) [];
          changes = diff_endpoints (get_endpoints_for_version db (v_id entry)) (pf_endpoints f);
          impact = classify_change T (pf_api_type f) old_content (pf_content f) (inserts changes);
          cosmetic = (inserts changes = 0 \<and> updates changes = 0 \<and> deletes changes = 0) in
      (if pf_stability f = Ga then ''immutable_ga'' else ''snapshot_on_ga'',
       propose_free line (increment (pf_version f) impact),
       \<lambda>proposed. Text (if pf_stability f = Ga then ''GA and immutable, but the submitted content differs''
                       else ''GA - a released number can never carry a snapshot again'')
         [V (pf_version f), A (pf_api_type f), S (pf_producer f), V proposed, B cosmetic]))"

definition owned_conflict :: "provide_facts \<Rightarrow> spec_version_meta list \<Rightarrow> spec_version_meta \<Rightarrow> refusal" where
  "owned_conflict f line entry =
     (''snapshot_owned'', propose_free_minor line (pf_version f),
      \<lambda>proposed. Text ''a snapshot provided by another user''
        [V (pf_version f), A (pf_api_type f), S (pf_producer f), S (v_provided_by entry), V proposed])"

definition existing_conflict ::
    "spec_tools \<Rightarrow> provide_facts \<Rightarrow> spec_version_meta list \<Rightarrow> spec_version_meta option \<Rightarrow> db \<Rightarrow> refusal option" where
  "existing_conflict T f line existing db =
     (case existing of
        None \<Rightarrow> None
      | Some entry \<Rightarrow>
          if v_stability entry = Ga then Some (ga_conflict T f line entry db)
          else if pf_stability f = Snapshot \<and> v_provided_by entry \<noteq> [] \<and>
                  (case pf_username f of None \<Rightarrow> False | Some actor \<Rightarrow> actor \<noteq> v_provided_by entry)
          then Some (owned_conflict f line entry)
          else None)"

definition breaking_release ::
    "spec_tools \<Rightarrow> provide_facts \<Rightarrow> spec_version_meta list \<Rightarrow> db \<Rightarrow> refusal option" where
  "breaking_release T f line db =
     (if pf_stability f \<noteq> Ga then None
      else case ga_baseline line (pf_version f) of
        None \<Rightarrow> None
      | Some baseline \<Rightarrow>
          if \<not> major (pf_version f) \<le> major (v_version baseline) then None
          else (case get_spec_content db (v_id baseline) of
              None \<Rightarrow> None
            | Some old \<Rightarrow> (case check_compatibility T (pf_api_type f) old (pf_content f) of
                  Inr _ \<Rightarrow> None
                | Inl reason \<Rightarrow> Some (''breaking_without_major'',
                    propose_free line (SemVer (saturating_add (major (v_version baseline)) 1) 0 0),
                    \<lambda>proposed. Text ''breaking relative to GA but does not bump the major''
                      [V (pf_version f), A (pf_api_type f), S (pf_producer f), V (v_version baseline), V proposed, M reason]))))"

definition refuse :: "env \<Rightarrow> provide_facts \<Rightarrow> refusal \<Rightarrow> db \<Rightarrow> provide_response outcome" where
  "refuse E f r db =
     (case r of (reason, proposed, msg) \<Rightarrow>
        (case proposed of
           None \<Rightarrow> (None, db)
         | Some v \<Rightarrow> (Some (Inl (VersionConflict (msg v) v)),
             record_version_rejection E (pf_dry_run f) (rejection f reason (msg v) (Some v)) db)))"

section \<open>The events of an accepted Provide\<close>

definition endpoint_records :: "provide_facts \<Rightarrow> endpoint_record list" where
  "endpoint_records f =
     map (\<lambda>e. \<lparr>e_id = None, e_api_type = pf_api_type f, e_path = s_path e, e_normalized_path = s_normalized_path e,
               e_method = s_method e, e_yaml_content = s_yaml_content e, e_deprecated = s_deprecated e\<rparr>) (pf_endpoints f)"

definition published_compatibility ::
    "spec_tools \<Rightarrow> provide_facts \<Rightarrow> spec_version_meta option \<Rightarrow> row_id list \<Rightarrow> db \<Rightarrow> (semver \<times> impact) option" where
  "published_compatibility T f baseline published_to db =
     (case baseline of
        Some base \<Rightarrow>
          if pf_stability f = Ga \<and> published_to \<noteq> []
          then (case get_spec_content db (v_id base) of
                  Some old \<Rightarrow> Some (v_version base,
                    classify_change T (pf_api_type f) old (pf_content f) (length (pf_endpoints f)))
                | None \<Rightarrow> None)
          else None
      | None \<Rightarrow> None)"

definition list_of_option :: "'a option \<Rightarrow> 'a list" where
  "list_of_option x = (case x of None \<Rightarrow> [] | Some v \<Rightarrow> [v])"

definition plan_provide_events ::
    "spec_tools \<Rightarrow> env \<Rightarrow> provide_facts \<Rightarrow> bool \<Rightarrow> spec_version_meta list \<Rightarrow> db \<Rightarrow> new_webhook_event list" where
  "plan_provide_events T E f promoting line db =
     (if \<not> emission_enabled E then []
      else let audience = audience_producer (pf_producer f);
               published_to = fan_out E db VersionPublished audience;
               baseline = ga_baseline line (pf_version f);
               published = PublishedData (pf_producer f) (pf_api_type f) (pf_version f) (pf_stability f) promoting
                 (event_stream_label (pf_stream f)) (pf_username f)
                 (published_compatibility T f baseline published_to db) (pf_origin f);
               previous = map_option (\<lambda>b. get_endpoints_for_version db (v_id b)) baseline;
               (elements, whole) = newly_deprecated (endpoint_records f) previous
           in list_of_option (event_for E 6 VersionPublished (Some (pf_producer f)) published published_to) @
              (if elements = [] then []
               else list_of_option (plan_event E 7 db VersionDeprecated audience
                 (DeprecatedData (pf_producer f) (pf_api_type f) (pf_version f) (pf_stability f) elements whole))))"

section \<open>Writing the version\<close>

definition is_promotion :: "provide_facts \<Rightarrow> spec_version_meta option \<Rightarrow> bool" where
  "is_promotion f existing \<longleftrightarrow> map_option v_stability existing = Some Snapshot \<and> pf_stability f = Ga"

definition credited :: "provide_facts \<Rightarrow> spec_version_meta option \<Rightarrow> string" where
  "credited f existing =
     (case existing of
        Some e \<Rightarrow> if is_promotion f existing \<and> v_content_hash e = pf_hash f then v_provided_by e
                  else or_keep (pf_username f) []
      | None \<Rightarrow> or_keep (pf_username f) [])"

definition provide_changes_of :: "provide_facts \<Rightarrow> spec_version_meta option \<Rightarrow> db \<Rightarrow> provide_changes" where
  "provide_changes_of f existing db =
     (case existing of
        Some entry \<Rightarrow> diff_endpoints (get_endpoints_for_version db (v_id entry)) (pf_endpoints f)
      | None \<Rightarrow> \<lparr>inserts = length (pf_endpoints f), updates = 0, deletes = 0\<rparr>)"

definition upsert_of ::
    "spec_tools \<Rightarrow> env \<Rightarrow> provide_facts \<Rightarrow> row_id \<Rightarrow> spec_version_meta list \<Rightarrow> spec_version_meta option \<Rightarrow> db \<Rightarrow> upsert_params" where
  "upsert_of T E f sid line existing db =
     \<lparr>up_service_id = sid, up_api_type = pf_api_type f, up_version = pf_version f, up_stability = pf_stability f,
      up_content = pf_content f, up_content_hash = pf_hash f, up_provided_by = credited f existing,
      up_expected_prior_hash = (if pf_prior_match f then Some (pf_hash f) else None), up_now = clock E 8,
      up_endpoints = endpoint_records f,
      up_outbox = plan_provide_events T E f (is_promotion f existing) line db\<rparr>"

definition cas_refusal :: "provide_facts \<Rightarrow> row_id \<Rightarrow> db \<Rightarrow> app_error" where
  "cas_refusal f sid db =
     Conflict (case find_spec_version db sid (pf_api_type f) (pf_version f) of
         Some entry \<Rightarrow> if v_stability entry = Ga then Text ''released concurrently'' [V (pf_version f)]
                       else Text ''the snapshot changed while releasing'' []
       | None \<Rightarrow> Text ''deleted while releasing'' [V (pf_version f)])"

definition promotion_audit :: "provide_facts \<Rightarrow> string \<Rightarrow> audit_row" where
  "promotion_audit f actor =
     \<lparr>au_username = actor, au_action = ''VERSION_PROMOTED'',
      au_details = Text ''Promoted to GA'' [A (pf_api_type f), V (pf_version f), S (pf_producer f)],
      au_service = Some (pf_producer f), au_version = Some (semver_to_string (pf_version f)),
      au_action_type = Some ''WRITE''\<rparr>"

definition after_write ::
    "env \<Rightarrow> provide_facts \<Rightarrow> row_id \<Rightarrow> row_id \<Rightarrow> bool \<Rightarrow> contract_op list \<Rightarrow> harvested_sub_input list \<Rightarrow> db \<Rightarrow> db" where
  "after_write E f sid vid promoting ops inputs db =
     (let trunk = st_trunk (pf_stream f);
          db1 = apply_contract_ops ops db;
          db2 = (if promoting \<and> origin_is_empty (pf_origin f) then db1
                 else set_version_origin vid ((pf_origin f)\<lparr>trunk_build := (trunk \<and> build_url (pf_origin f) \<noteq> None)\<rparr>) db1);
          db3 = (if trunk then touch_spec_version_trunk vid (clock E 10) db2 else db2);
          db4 = mark_member f sid (clock E 11) db3;
          db5 = (case pf_username f of
                   Some actor \<Rightarrow> if promoting then insert_audit_log (promotion_audit f actor) db4 else db4
                 | None \<Rightarrow> db4)
      in if harvests f then reconcile_harvest (pf_producer f) trunk inputs (clock E 12) db5 else db5)"

definition write_version ::
    "spec_tools \<Rightarrow> env \<Rightarrow> provide_facts \<Rightarrow> row_id \<Rightarrow> spec_version_meta list \<Rightarrow> spec_version_meta option \<Rightarrow>
     contract_op list \<Rightarrow> harvested_sub_input list \<times> harvested_subscription_result list \<Rightarrow> db \<Rightarrow> provide_response outcome" where
  "write_version T E f sid line existing ops harvest db =
     (case upsert_spec_version (upsert_of T E f sid line existing db) db of
        Inl e \<Rightarrow> (Some (Inl (if e = RepoConflict \<and> pf_prior_match f then cas_refusal f sid db else app_error_from e)), db)
      | Inr (vid, db1) \<Rightarrow>
          (Some (Inr (response f (pf_stability f) (provide_changes_of f existing db) (is_promotion f existing) (snd harvest))),
           after_write E f sid vid (is_promotion f existing) ops (fst harvest) db1))"

text \<open>Contracts, the preview of a dry run, and the write.\<close>

definition accept_version ::
    "spec_tools \<Rightarrow> env \<Rightarrow> provide_facts \<Rightarrow> row_id \<Rightarrow> spec_version_meta list \<Rightarrow> spec_version_meta option \<Rightarrow>
     harvested_sub_input list \<times> harvested_subscription_result list \<Rightarrow> db \<Rightarrow> provide_response outcome" where
  "accept_version T E f sid line existing harvest db =
     (case (if pf_api_type f = AsyncApi \<and> pf_stability f = Ga
            then plan_channel_message_contracts T db sid (pf_content f) else Inr []) of
        Inl e \<Rightarrow> (Some (Inl e), record_contract_rejection E f e db)
      | Inr ops \<Rightarrow>
          if pf_dry_run f
          then (Some (Inr (response f (pf_stability f) (provide_changes_of f existing db) (is_promotion f existing) (snd harvest))), db)
          else write_version T E f sid line existing ops harvest db)"

definition judge_version ::
    "spec_tools \<Rightarrow> env \<Rightarrow> provide_facts \<Rightarrow> row_id \<Rightarrow>
     harvested_sub_input list \<times> harvested_subscription_result list \<Rightarrow> db \<Rightarrow> provide_response outcome" where
  "judge_version T E f sid harvest db =
     (let line = version_line db sid (pf_api_type f);
          existing = find (\<lambda>v. v_version v = pf_version f) line in
      if is_unchanged f existing
      then (Some (Inr (response f (v_stability (the existing)) no_changes False (snd harvest))),
            refresh_unchanged E f sid (the existing) (fst harvest) db)
      else case existing_conflict T f line existing db of
             Some r \<Rightarrow> refuse E f r db
           | None \<Rightarrow> (case breaking_release T f line db of
                 Some r \<Rightarrow> refuse E f r db
               | None \<Rightarrow> accept_version T E f sid line existing harvest db))"

definition provide_document ::
    "spec_tools \<Rightarrow> env \<Rightarrow> provide_facts \<Rightarrow> actor option \<Rightarrow> db \<Rightarrow> provide_response outcome" where
  "provide_document T E f caller db =
     (if pf_stability f = Ga \<and> \<not> may_release caller
      then (Some (Inl (ForbiddenWithReason (ga_gate_message f))),
            record_version_rejection E (pf_dry_run f) (rejection f ''ga_requires_releaser'' (ga_gate_message f) None) db)
      else let (sid, db1) = register_producer f db in
        (case (if harvests f then plan_subscription_harvest T db1 (pf_content f) (pf_stability f) else Inr ([], [])) of
           Inl e \<Rightarrow> (Some (Inl e), record_contract_rejection E f e db1)
         | Inr harvest \<Rightarrow> judge_version T E f sid harvest db1))"

definition provide_spec_inner ::
    "spec_tools \<Rightarrow> env \<Rightarrow> provide_params \<Rightarrow> version_origin \<Rightarrow> db \<Rightarrow> provide_response outcome" where
  "provide_spec_inner T E p origin db =
     (case read_provide T p origin db of
        Inl e \<Rightarrow> (Some (Inl e), db)
      | Inr f \<Rightarrow> provide_document T E f (pv_caller p) db)"

definition provide_spec :: "spec_tools \<Rightarrow> env \<Rightarrow> provide_params \<Rightarrow> db \<Rightarrow> provide_response outcome" where
  "provide_spec T E p db = provide_spec_inner T E p empty_origin db"

definition provide_spec_with_origin ::
    "spec_tools \<Rightarrow> env \<Rightarrow> provide_params \<Rightarrow> version_origin \<Rightarrow> db \<Rightarrow> provide_response outcome" where
  "provide_spec_with_origin T E p origin db =
     (case origin_normalized origin of
        Inl reason \<Rightarrow> (Some (Inl (BadRequest (Text ''origin'' [M reason]))), db)
      | Inr o' \<Rightarrow> provide_spec_inner T E p o' db)"

definition find_version_entry :: "db \<Rightarrow> string \<Rightarrow> api_type \<Rightarrow> semver \<Rightarrow> app_error + spec_version_meta" where
  "find_version_entry db producer t v =
     (case find_service db producer of
        None \<Rightarrow> Inl (NotFound (Text ''Producer not found'' [S producer]))
      | Some sid \<Rightarrow> (case find_spec_version db sid t v of
            None \<Rightarrow> Inl (NotFound (Text ''Producer has no such version'' [S producer, A t, V v]))
          | Some entry \<Rightarrow> Inr entry))"

definition promote_version ::
    "spec_tools \<Rightarrow> env \<Rightarrow> string \<Rightarrow> api_type \<Rightarrow> semver \<Rightarrow> actor option \<Rightarrow> db \<Rightarrow> provide_response outcome" where
  "promote_version T E producer t v caller db =
     (case find_version_entry db producer t v of
        Inl e \<Rightarrow> (Some (Inl e), db)
      | Inr entry \<Rightarrow> (case get_spec_content db (v_id entry) of
            None \<Rightarrow> (Some (Inl (NotFound (Text ''Version not found'' []))), db)
          | Some content \<Rightarrow>
              provide_spec T E \<lparr>pv_producer = producer, pv_api_type = t, pv_content = content, pv_stability = Ga,
                pv_dry_run = False, pv_trunk = False, pv_tag = None, pv_caller = caller, pv_require_prior = True\<rparr> db))"

end
