(* ===== verification/Catalog_Frame.thy ===== *)
theory Catalog_Frame
  imports Provide
begin

text \<open>
  What an operation leaves alone. Most writes of a Provide, a Require or a
  housekeeping pass touch tables other than the catalogue, or columns of a
  version that are not its identity, stability, text or credit. \<open>quiet\<close> states
  that once; the operations are shown quiet here and the use cases compose the
  lemmas.
\<close>

section \<open>Quiet writes\<close>

definition version_core :: "spec_version_row \<Rightarrow> row_id \<times> (row_id \<times> api_type \<times> semver) \<times> stability \<times> string \<times> string \<times> string" where
  "version_core r = (v_id r, version_key r, v_stability r, v_content r, v_content_hash r, v_provided_by r)"

definition cores :: "db \<Rightarrow> (row_id \<times> (row_id \<times> api_type \<times> semver) \<times> stability \<times> string \<times> string \<times> string) list" where
  "cores db = map version_core (spec_versions db)"

definition quiet :: "db \<Rightarrow> db \<Rightarrow> bool" where
  "quiet db db' \<longleftrightarrow> cores db' = cores db \<and> endpoints db' = endpoints db \<and>
     next_spec_version db' = next_spec_version db \<and> set (services db) \<subseteq> set (services db') \<and>
     (catalog_inv db \<longrightarrow> catalog_inv db')"

lemma quiet_refl [simp, intro]: "quiet db db"
  by (simp add: quiet_def)

lemma quiet_trans [trans]: "quiet a b \<Longrightarrow> quiet b c \<Longrightarrow> quiet a c"
  by (auto simp: quiet_def)

lemma quiet_inv: "quiet db db' \<Longrightarrow> catalog_inv db \<Longrightarrow> catalog_inv db'"
  by (simp add: quiet_def)

text \<open>The abstract view of the catalogue and the invariant depend on the cores only.\<close>

lemma find_map_rows: "find p (map f rs) = map_option f (find (p \<circ> f) rs)"
  by (induction rs) auto

lemma line_abs_cores:
  "line_abs db k = map_option (\<lambda>(i, k', s, c, h, b). (s, c)) (find (\<lambda>(i, k', _). k' = k) (cores db))"
  by (simp add: line_abs_def cores_def find_map_rows comp_def version_core_def option.map_comp case_prod_beta)

lemma quiet_line_abs: "quiet db db' \<Longrightarrow> line_abs db' = line_abs db"
  by (rule ext) (simp add: line_abs_cores quiet_def)

lemma row_core:
  "map_option version_core (find_version_row db sid t v) = find (\<lambda>(i, k, _). k = (sid, t, v)) (cores db)"
  by (simp add: find_version_row_def cores_def find_map_rows comp_def version_core_def case_prod_beta)

lemma quiet_row:
  assumes "quiet db db'" and "find_version_row db sid t v = Some r"
  obtains r' where "find_version_row db' sid t v = Some r'" "version_core r' = version_core r"
proof -
  have "map_option version_core (find_version_row db' sid t v) = Some (version_core r)"
    using assms row_core[of db sid t v] row_core[of db' sid t v] by (simp add: quiet_def)
  then show ?thesis using that by auto
qed

lemma quiet_service:
  assumes "quiet db db'" and "catalog_inv db" and "find_service db nm = Some sid"
  shows "find_service db' nm = Some sid"
proof -
  have "catalog_inv db'" using assms(1,2) by (rule quiet_inv)
  with assms show ?thesis by (auto simp: catalog_inv_def find_service_Some quiet_def)
qed

lemma versions_ok_cores:
  "versions_ok db \<longleftrightarrow> distinct (map (fst \<circ> snd) (cores db)) \<and> distinct (map fst (cores db)) \<and>
     (\<forall>x \<in> set (cores db). fst x < next_spec_version db \<and> fst (fst (snd x)) \<in> fst ` set (services db))"
proof -
  have "map version_key (spec_versions db) = map (fst \<circ> snd) (cores db)" "map v_id (spec_versions db) = map fst (cores db)"
    by (simp_all add: cores_def version_core_def)
  moreover have "(\<forall>v \<in> set (spec_versions db). v_id v < n \<and> v_service_id v \<in> A) \<longleftrightarrow>
      (\<forall>x \<in> set (cores db). fst x < n \<and> fst (fst (snd x)) \<in> A)" for n A
    by (simp add: cores_def version_core_def version_key_def)
  ultimately show ?thesis by (simp only: versions_ok_def)
qed

lemma quietI:
  assumes "cores db' = cores db" "endpoints db' = endpoints db" "next_spec_version db' = next_spec_version db"
    "services db' = services db" "next_service db' = next_service db"
    "clients db' = clients db" "next_client db' = next_client db"
  shows "quiet db db'"
  using assms by (simp add: quiet_def catalog_inv_def versions_ok_cores)

lemma cores_update:
  assumes "\<And>r. version_core (f r) = version_core r"
  shows "map version_core (update_where p f rs) = map version_core rs"
  by (rule map_update_where) (simp add: assms)

lemma quiet_if: "quiet db d \<Longrightarrow> (\<And>d. quiet d (g d)) \<Longrightarrow> quiet db (if b then g d else d)"
  by (auto intro: quiet_trans)

lemma quiet_unless: "quiet db d \<Longrightarrow> (\<And>d. quiet d (g d)) \<Longrightarrow> quiet db (if b then d else g d)"
  by (auto intro: quiet_trans)

section \<open>The operations that are quiet\<close>

named_theorems quiet_ops

lemma quiet_outbox [quiet_ops]: "quiet db (write_outbox evs db)"
  by (rule quietI) (simp_all add: cores_def)

lemma quiet_events [quiet_ops]: "quiet db (insert_webhook_events evs db)"
  by (simp add: insert_webhook_events_def quiet_outbox)

lemma quiet_audit [quiet_ops]: "quiet db (insert_audit_log a db)"
  by (rule quietI) (simp_all add: insert_audit_log_def cores_def)

lemma quiet_tags [quiet_ops]: "quiet db (add_service_tags sid tags db)"
  by (rule quietI) (simp_all add: add_service_tags_def cores_def)

lemma quiet_origin [quiet_ops]: "quiet db (set_version_origin vid o' db)"
  by (rule quietI) (simp_all add: set_version_origin_def cores_def Let_def)

lemma quiet_harvested [quiet_ops]: "quiet db (reconcile_harvested_subscriptions cid c trunk subs now db)"
  by (rule quietI) (simp_all add: reconcile_harvested_subscriptions_def cores_def)

lemma quiet_member [quiet_ops]: "quiet db (record_branch_member_version bid sid t v now db)"
  by (rule quietI) (simp_all add: record_branch_member_version_def cores_def)

lemma quiet_touch_provided [quiet_ops]: "quiet db (touch_spec_version_provided vid now db)"
  by (rule quietI) (simp_all add: touch_spec_version_provided_def cores_def cores_update version_core_def version_key_def)

lemma quiet_touch_required [quiet_ops]: "quiet db (touch_spec_version_required vid now db)"
  by (rule quietI) (simp_all add: touch_spec_version_required_def cores_def cores_update version_core_def version_key_def)

lemma quiet_touch_trunk [quiet_ops]: "quiet db (touch_spec_version_trunk vid now db)"
  by (rule quietI)
    (simp_all add: touch_spec_version_trunk_def cores_def cores_update version_core_def version_key_def Let_def split: option.split)

lemma quiet_contract_op [quiet_ops]: "quiet db (apply_contract_op op db)"
  by (cases op; rule quietI)
    (simp_all add: upsert_channel_message_contract_def delete_channel_message_contract_def cores_def)

lemma quiet_foldl: "(\<And>d x. quiet d (f d x)) \<Longrightarrow> quiet db (foldl f db xs)"
  by (induction xs arbitrary: db) (auto intro: quiet_trans)

lemma quiet_contract_ops [quiet_ops]: "quiet db (apply_contract_ops ops db)"
  unfolding apply_contract_ops_def by (rule quiet_foldl) (rule quiet_contract_op)

lemma quiet_trunk_pins [quiet_ops]: "quiet db (record_trunk_pins ps now db)"
  by (rule quietI) (simp_all add: record_trunk_pins_def cores_def)

lemma quiet_branch_pins [quiet_ops]: "quiet db (record_branch_pins bid ps now db)"
  by (rule quietI) (simp_all add: record_branch_pins_def cores_def)

lemma quiet_dependencies [quiet_ops]: "quiet db (record_dependencies_bulk deps evs now db)"
  by (rule quietI) (simp_all add: record_dependencies_bulk_def insert_webhook_events_def cores_def)

lemma quiet_periphery [quiet_ops]: "quiet db (snd (reconcile_periphery sys trunk rs now evs db))"
  by (rule quietI) (simp_all add: reconcile_periphery_def cores_def Let_def)

text \<open>Registering a name keeps the ids fresh.\<close>

lemma ids_ok_fresh: "ids_ok n rs \<Longrightarrow> nm \<notin> snd ` set rs \<Longrightarrow> ids_ok (Suc n) (rs @ [(n, nm)])"
  by (fastforce simp: ids_ok_def)

lemma find_service_None: "find_service db nm = None \<longleftrightarrow> nm \<notin> snd ` set (services db)"
  by (auto simp: find_service_def find_None_not)

lemma find_client_None: "find_client db nm = None \<longleftrightarrow> nm \<notin> snd ` set (clients db)"
  by (auto simp: find_client_def find_None_not)

lemma quiet_ensure_service [quiet_ops]: "quiet db (snd (ensure_service nm db))"
  by (auto simp: ensure_service_def quiet_def cores_def catalog_inv_def versions_ok_def find_service_None
      intro!: ids_ok_fresh split: option.split)

lemma quiet_ensure_client [quiet_ops]: "quiet db (snd (ensure_client nm db))"
  by (auto simp: ensure_client_def quiet_def cores_def catalog_inv_def versions_ok_def find_client_None
      intro!: ids_ok_fresh split: option.split)

lemma ensure_service_known:
  assumes "ensure_service nm db = (sid, db')" and "catalog_inv db"
  shows "find_service db' nm = Some sid" "sid \<in> fst ` set (services db')" "0 < sid"
proof -
  have ok: "ids_ok (next_service db') (services db')"
    using quiet_inv[OF quiet_ensure_service assms(2), of nm] assms(1) by (simp add: catalog_inv_def)
  have "(sid, nm) \<in> set (services db')"
    using assms by (auto simp: ensure_service_def catalog_inv_def find_service_Some split: option.splits)
  with ok show "find_service db' nm = Some sid" "sid \<in> fst ` set (services db')" "0 < sid"
    by (auto simp: find_service_Some ids_ok_def intro: rev_image_eqI)
qed

lemma quiet_harvest [quiet_ops]: "quiet db (reconcile_harvest producer trunk inputs now db)"
  unfolding reconcile_harvest_def using quiet_ensure_client[of db producer]
  by (auto simp: case_prod_beta intro: quiet_trans quiet_harvested)

section \<open>The quiet parts of a Provide\<close>

lemma quiet_rejection [quiet_ops]: "quiet db (record_version_rejection E dry rj db)"
  by (auto simp: record_version_rejection_def Let_def intro: quiet_trans quiet_ops split: option.split)

lemma quiet_contract_rejection [quiet_ops]: "quiet db (record_contract_rejection E f e db)"
  by (auto simp: record_contract_rejection_def intro: quiet_ops split: app_error.split)

lemma quiet_refuse [quiet_ops]: "quiet db (snd (refuse E f r db))"
  by (auto simp: refuse_def intro: quiet_ops split: option.split prod.split)

lemma quiet_mark [quiet_ops]: "quiet db (mark_member f sid now db)"
  by (auto simp: mark_member_def intro: quiet_ops split: option.split)

lemma quiet_refresh_origin [quiet_ops]: "quiet db (refresh_origin f vid db)"
  by (auto simp: refresh_origin_def intro: quiet_ops split: option.split)

lemma quiet_refresh [quiet_ops]: "quiet db (refresh_unchanged E f sid entry inputs db)"
proof -
  have "quiet db (refresh_origin f (v_id entry)
     (if harvests f then reconcile_harvest (pf_producer f) (st_trunk (pf_stream f)) inputs (clock E 3) d else d))"
    if "quiet db d" for d
    using that by (intro quiet_trans[OF _ quiet_refresh_origin] quiet_if quiet_ops)
  moreover have "quiet db (mark_member f sid (clock E 2)
     (if st_trunk (pf_stream f) then touch_spec_version_trunk (v_id entry) (clock E 1) d else d))" if "quiet db d" for d
    using that by (intro quiet_trans[OF _ quiet_mark] quiet_if quiet_ops)
  ultimately show ?thesis
    unfolding refresh_unchanged_def Let_def by (simp add: quiet_touch_provided)
qed

lemma quiet_after_write [quiet_ops]: "quiet db (after_write E f sid vid promoting ops inputs db)"
proof -
  have audit: "quiet db (case u of Some a \<Rightarrow> if promoting then insert_audit_log (promotion_audit f a) d else d | None \<Rightarrow> d)"
    if "quiet db d" for u d
    using that by (auto intro: quiet_trans quiet_ops split: option.split)
  show ?thesis
    unfolding after_write_def Let_def
    by (intro quiet_if quiet_unless audit quiet_trans[OF _ quiet_mark] quiet_ops)
qed

lemma quiet_register [quiet_ops]: "quiet db (snd (register_producer f db))"
  using quiet_ensure_service[of db "pf_producer f"]
  by (auto simp: register_producer_def case_prod_beta intro: quiet_trans quiet_tags split: api_type.split)

end
