(* ===== verification/Catalog.thy ===== *)
theory Catalog
  imports Backstage Catalog_Frame
begin

text \<open>
  What a build pushes about a system beside its documents, and who counts as a
  participant: \<open>src/src/application/catalog_service.rs\<close> with the producer
  metadata and system context of \<open>sqlite_repository.rs\<close>. A context is stored as
  the record it is (the links and tags columns are its JSON text); the time of
  its last change, which nothing reads, is left out.
\<close>

section \<open>Producer metadata and system context\<close>

definition list_producers :: "db \<Rightarrow> string list" where
  "list_producers db = sort (map snd (services db))"

definition no_meta :: service_meta where
  "no_meta = \<lparr>sm_icon = None, sm_domain = None, sm_external = False\<rparr>"

definition service_meta_of :: "db \<Rightarrow> row_id \<Rightarrow> service_meta" where
  "service_meta_of db sid = (case map_of (service_metas db) sid of Some m \<Rightarrow> m | None \<Rightarrow> no_meta)"

definition set_service_meta :: "row_id \<Rightarrow> service_meta \<Rightarrow> db \<Rightarrow> db" where
  "set_service_meta sid m db = db\<lparr>service_metas := (sid, m) # delete_where (\<lambda>x. fst x = sid) (service_metas db)\<rparr>"

definition update_producer_metadata :: "string \<Rightarrow> string option \<Rightarrow> string option \<Rightarrow> db \<Rightarrow> db" where
  "update_producer_metadata nm icon domain db =
     (case find_service db nm of
        None \<Rightarrow> db
      | Some sid \<Rightarrow> set_service_meta sid ((service_meta_of db sid)\<lparr>sm_icon := icon, sm_domain := domain\<rparr>) db)"

definition repo_set_producer_external :: "string \<Rightarrow> bool \<Rightarrow> db \<Rightarrow> bool \<times> db" where
  "repo_set_producer_external nm external db =
     (case find_service db nm of
        None \<Rightarrow> (False, db)
      | Some sid \<Rightarrow> (True, set_service_meta sid ((service_meta_of db sid)\<lparr>sm_external := external\<rparr>) db))"

record producer_version_info =
  pi_api_type :: api_type
  pi_version :: semver
  pi_stability :: stability
  pi_content_hash :: string
  pi_provided_by :: string
  pi_created_at :: stamp
  pi_updated_at :: stamp
  pi_last_required_at :: "stamp option"
  pi_endpoint_count :: nat
  pi_origin :: version_origin
  pi_expires_at :: "stamp option"
  pi_trunk_provided_at :: "stamp option"

record producer_summary =
  su_name :: string
  su_versions :: "producer_version_info list"
  su_is_favorite :: bool
  su_icon :: "string option"
  su_domain :: "string option"
  su_external :: bool

definition repo_list_producers_detailed :: "db \<Rightarrow> producer_summary list" where
  "repo_list_producers_detailed db =
     sort_key su_name (map (\<lambda>(sid, nm). let m = service_meta_of db sid in
       \<lparr>su_name = nm, su_versions = [], su_is_favorite = False, su_icon = sm_icon m, su_domain = sm_domain m,
        su_external = sm_external m\<rparr>) (services db))"

definition get_system_context :: "db \<Rightarrow> string \<Rightarrow> system_context option" where
  "get_system_context db sys = map_of (system_contexts db) sys"

definition delete_system_context :: "string \<Rightarrow> db \<Rightarrow> db" where
  "delete_system_context sys db = db\<lparr>system_contexts := delete_where (\<lambda>x. fst x = sys) (system_contexts db)\<rparr>"

definition upsert_system_context :: "string \<Rightarrow> system_context \<Rightarrow> db \<Rightarrow> bool \<times> db" where
  "upsert_system_context sys ctx db =
     (if get_system_context db sys = Some ctx then (False, db)
      else (True, db\<lparr>system_contexts := (sys, ctx) # delete_where (\<lambda>x. fst x = sys) (system_contexts db)\<rparr>))"

section \<open>Pushing a catalogue file\<close>

fun catalog_error_text :: "catalog_error \<Rightarrow> message" where
  "catalog_error_text (InvalidYaml m) = Text ''catalog-info.yaml is not valid YAML'' [M m]"
| "catalog_error_text (NotAnEntity i m) = Text ''a document of catalog-info.yaml is not a Backstage entity'' [N i, M m]"
| "catalog_error_text (NoMatchingComponent s) = Text ''catalog-info.yaml has no Component of this name'' [S s]"
| "catalog_error_text (AmbiguousComponent s) = Text ''catalog-info.yaml has more than one Component of this name'' [S s]"
| "catalog_error_text (MalformedDependsOn s m) = Text ''dependsOn of the Component is malformed'' [S s, M m]"

record catalog_push_result =
  cp_system :: string
  cp_trunk :: bool
  cp_resources :: "string list"
  cp_components :: "string list"
  cp_recorded :: bool
  cp_warnings :: "message list"
  cp_changed :: bool

definition catalog_event :: "env \<Rightarrow> db \<Rightarrow> string \<Rightarrow> event_data \<Rightarrow> new_webhook_event option" where
  "catalog_event E db sys dat =
     plan_event E 0 db CatalogRecorded \<lparr>au_producer = Some sys, au_consumers = [sys], au_follow_edges = False\<rparr> dat"

definition fill_domain_from_system :: "string \<Rightarrow> string option \<Rightarrow> db \<Rightarrow> bool \<times> db" where
  "fill_domain_from_system sys backstage_system db =
     (case backstage_system of
        None \<Rightarrow> (False, db)
      | Some domain \<Rightarrow>
          if find_service db sys = None then (False, db)
          else (case find (\<lambda>p. su_name p = sys) (repo_list_producers_detailed db) of
                  None \<Rightarrow> (False, db)
                | Some p \<Rightarrow>
                    if (case su_domain p of None \<Rightarrow> False | Some d \<Rightarrow> trim d \<noteq> []) then (False, db)
                    else (True, update_producer_metadata sys (su_icon p) (Some domain) db)))"

definition record_component :: "env \<Rightarrow> string \<Rightarrow> bool \<Rightarrow> catalog_component \<Rightarrow> db \<Rightarrow> catalog_push_result \<times> db" where
  "record_component E sys trunk c db =
     (let events = list_of_option (catalog_event E db sys (CatalogData sys trunk True None (length (cc_resources c))));
          (periphery_changed, db1) = reconcile_periphery sys trunk (cc_resources c @ cc_components c) (clock E 1) events db;
          (context_changed, db2) = upsert_system_context sys (cc_context c) db1;
          (domain_changed, db3) = fill_domain_from_system sys (cc_system c) db2
      in (\<lparr>cp_system = sys, cp_trunk = trunk, cp_resources = cc_resources c, cp_components = cc_components c,
           cp_recorded = True, cp_warnings = [], cp_changed = periphery_changed \<or> context_changed \<or> domain_changed\<rparr>, db3))"

definition refuse_component :: "env \<Rightarrow> string \<Rightarrow> bool \<Rightarrow> catalog_error \<Rightarrow> db \<Rightarrow> catalog_push_result \<times> db" where
  "refuse_component E sys trunk e db =
     (let warning = catalog_error_text e in
      (\<lparr>cp_system = sys, cp_trunk = trunk, cp_resources = [], cp_components = [], cp_recorded = False,
        cp_warnings = [warning], cp_changed = False\<rparr>,
       insert_webhook_events (list_of_option (catalog_event E db sys (CatalogData sys trunk False (Some warning) 0))) db))"

definition push_catalog ::
    "(string \<Rightarrow> message + doc list) \<Rightarrow> webhook_tools \<Rightarrow> env \<Rightarrow> string \<Rightarrow> string \<Rightarrow> bool \<Rightarrow> db \<Rightarrow>
     app_error + catalog_push_result \<times> db" where
  "push_catalog from_str_multiple W E raw_system yaml trunk db =
     (let sys = trim raw_system in
      if sys = [] then Inl (BadRequest (Text ''a catalog push needs a non-empty system name'' []))
      else Inr (case read_component from_str_multiple W yaml sys of
                  Inl e \<Rightarrow> refuse_component E sys trunk e db
                | Inr c \<Rightarrow> record_component E sys trunk c db))"

section \<open>Participants\<close>

definition participants :: "db \<Rightarrow> string list" where
  "participants db = sort (remdups (list_producers db @ list_consumers db))"

definition producer_context :: "db \<Rightarrow> string \<Rightarrow> app_error + string \<times> system_context option" where
  "producer_context db nm =
     (if find_service db nm = None then Inl (NotFound (Text ''Service not found'' [S nm]))
      else Inr (nm, get_system_context db nm))"

definition consumer_context :: "db \<Rightarrow> string \<Rightarrow> app_error + string \<times> system_context option" where
  "consumer_context db nm =
     (if nm \<notin> set (list_consumers db) then Inl (NotFound (Text ''Client not found'' [S nm]))
      else Inr (nm, get_system_context db nm))"

definition close_catalog_of :: "stamp \<Rightarrow> string \<Rightarrow> db \<Rightarrow> db" where
  "close_catalog_of now sys db = delete_system_context sys (snd (reconcile_periphery sys True [] now [] db))"

definition close_catalog_of_departed :: "stamp \<Rightarrow> string list \<Rightarrow> db \<Rightarrow> db" where
  "close_catalog_of_departed now candidates db =
     (let remaining = participants db in
      foldl (\<lambda>d sys. if sys \<in> set remaining then d else close_catalog_of now sys d) db candidates)"

section \<open>What a push leaves\<close>

definition open_keys :: "periphery_row list \<Rightarrow> (periphery_track \<times> string \<times> string) set" where
  "open_keys rs = periphery_key ` set (filter is_open rs)"

lemma open_keys_close: "open_keys (close_where (\<lambda>r. periphery_key r = k) now rs) = open_keys rs - {k}"
  unfolding open_keys_def filter_open_close by auto

lemma open_keys_closes:
  "open_keys (foldl (\<lambda>rs res. if res \<in> R then rs else close_where (\<lambda>r. periphery_key r = (track, sys, res)) now rs) rs xs) =
   open_keys rs - {(track, sys, res) |res. res \<in> set xs - R}"
  by (induction xs arbitrary: rs) (auto simp: open_keys_close)

lemma open_keys_opens:
  "open_keys (foldl (\<lambda>rs res. if res \<in> opened then rs
     else if exists_row (\<lambda>r. is_open r \<and> periphery_key r = (track, sys, res)) rs then rs
     else rs @ [\<lparr>valid_from = now, valid_to = None, pe_track = track, pe_system = sys, pe_resource = res\<rparr>]) rs xs) =
   open_keys rs \<union> {(track, sys, res) |res. res \<in> set xs - opened}"
proof (induction xs arbitrary: rs)
  case (Cons x xs)
  let ?step = "if x \<in> opened then rs else if exists_row (\<lambda>r. is_open r \<and> periphery_key r = (track, sys, x)) rs then rs
     else rs @ [\<lparr>valid_from = now, valid_to = None, pe_track = track, pe_system = sys, pe_resource = x\<rparr>]"
  have "open_keys ?step = open_keys rs \<union> (if x \<in> opened then {} else {(track, sys, x)})"
    by (auto simp: open_keys_def exists_row_iff periphery_key_def is_open_def intro: rev_image_eqI)
  with Cons[of ?step] show ?case by auto
qed simp

lemma open_resources_keys: "set (open_resources track sys rs) = {res. (track, sys, res) \<in> open_keys rs}"
  by (auto simp: open_resources_def open_keys_def periphery_key_def intro: rev_image_eqI)

lemma open_keys_reconcile:
  "open_keys (reconcile_track now (track, sys, resources) rs) =
   {k \<in> open_keys rs. \<not> (fst k = track \<and> fst (snd k) = sys)} \<union> {(track, sys, res) |res. res \<in> set resources}"
proof -
  have "open_keys (reconcile_track now (track, sys, resources) rs) =
      (open_keys rs - {(track, sys, res) |res. res \<in> set (open_resources track sys rs) - set resources}) \<union>
      {(track, sys, res) |res. res \<in> set resources - set (open_resources track sys rs)}"
    unfolding reconcile_track_def Let_def prod.case open_keys_opens open_keys_closes ..
  then show ?thesis by (auto simp: open_resources_keys)
qed

lemma current_periphery: "set (list_periphery db track None) = {(sys, res). (track, sys, res) \<in> open_keys (periphery db)}"
  by (auto simp: list_periphery_def open_keys_def periphery_key_def intro: rev_image_eqI)

lemma past_periphery:
  assumes "seen_at periphery_view t (periphery db') = seen_at periphery_view t (periphery db)"
  shows "list_periphery db' track (Some t) = list_periphery db track (Some t)"
proof -
  have "list_periphery d track (Some t) =
      sort (map (\<lambda>v. snd (fst v)) (filter (\<lambda>v. fst (fst v) = track) (seen_at periphery_view t (periphery d))))" for d
    by (simp add: list_periphery_def seen_at_def filter_map o_def periphery_view_def periphery_key_def
        filter_filter conj_commute)
  with assms show ?thesis by simp
qed

abbreviation pushed_tracks :: "bool \<Rightarrow> periphery_track set" where
  "pushed_tracks trunk \<equiv> {tr. tr = DevTrack \<or> tr = TrunkTrack \<and> trunk}"

lemma reconcile_periphery_current:
  "open_keys (periphery (snd (reconcile_periphery sys trunk rs now evs db))) =
   {k \<in> open_keys (periphery db). \<not> (fst k \<in> pushed_tracks trunk \<and> fst (snd k) = sys)} \<union>
   {(tr, sys, res) |tr res. tr \<in> pushed_tracks trunk \<and> res \<in> set rs}"
  by (auto simp: reconcile_periphery_def Let_def open_keys_reconcile)

lemma reconcile_periphery_past:
  "t < now \<Longrightarrow> list_periphery (snd (reconcile_periphery sys trunk rs now evs db)) track (Some t) = list_periphery db track (Some t)"
  by (rule past_periphery) (simp add: reconcile_periphery_def Let_def periphery_rows.store_past)

lemma reconcile_periphery_same:
  "fst (reconcile_periphery sys trunk rs now evs db) \<longleftrightarrow>
   (\<exists>tr \<in> pushed_tracks trunk. set (open_resources tr sys (periphery db)) \<noteq> set rs)"
  by (auto simp: reconcile_periphery_def Let_def track_changed_def list_ex_iff)

text \<open>A push that finds its set changes no row.\<close>

lemma reconcile_track_id:
  assumes "set (open_resources track sys rs) = set resources"
  shows "reconcile_track now (track, sys, resources) rs = rs"
proof -
  have "foldl (\<lambda>rs res. if res \<in> set resources then rs else f res rs) rs xs = rs" if "set xs \<subseteq> set resources" for f xs
    using that by (induction xs) auto
  moreover have "foldl (\<lambda>rs res. if res \<in> A then rs else g res rs) rs xs = rs" if "set xs \<subseteq> A" for g xs A
    using that by (induction xs) auto
  ultimately show ?thesis using assms unfolding reconcile_track_def Let_def prod.case by (simp add: subset_iff)
qed

text \<open>A part of a reference holds no white space.\<close>

lemma leading_ref:
  assumes "list_all (\<lambda>w. w \<noteq> [] \<and> \<not> is_ref_char (hd w)) ws" and "list_all is_ref_char s"
  shows "strip_leading ws s = s"
proof -
  have "leading ws s = 0"
    unfolding leading_zero starts_with_def
  proof
    fix w assume "w \<in> set ws"
    with assms(1) have w: "w \<noteq> []" "\<not> is_ref_char (hd w)" by (auto simp: list_all_iff)
    then show "w = [] \<or> take (length w) s \<noteq> w" using assms(2) by (cases w; cases s) auto
  qed
  then show ?thesis by (simp add: strip_leading.simps[of ws s])
qed

lemma trim_ref: "is_ref_part p \<Longrightarrow> trim p = p"
proof -
  assume "is_ref_part p"
  then have "list_all is_ref_char p" "list_all is_ref_char (rev p)" by (auto simp: is_ref_part_def)
  moreover have "list_all (\<lambda>w. w \<noteq> [] \<and> \<not> is_ref_char (hd w)) white_space"
    "list_all (\<lambda>w. w \<noteq> [] \<and> \<not> is_ref_char (hd w)) (map rev white_space)"
    by code_simp+
  ultimately show ?thesis by (simp add: trim_def trim_start_def trim_end_def leading_ref)
qed

lemma detailed_domain:
  assumes "catalog_inv db" and "find_service db nm = Some sid"
    and "find (\<lambda>p. su_name p = nm) (repo_list_producers_detailed db) = Some p"
  shows "su_domain p = sm_domain (service_meta_of db sid) \<and> su_icon p = sm_icon (service_meta_of db sid)"
proof -
  have ok: "ids_ok (next_service db) (services db)" using assms(1) by (simp add: catalog_inv_def)
  from assms(3) have "p \<in> set (repo_list_producers_detailed db)" "su_name p = nm" by (auto dest: find_Some_in)
  then obtain sid' where "(sid', nm) \<in> set (services db)"
    "p = \<lparr>su_name = nm, su_versions = [], su_is_favorite = False, su_icon = sm_icon (service_meta_of db sid'),
          su_domain = sm_domain (service_meta_of db sid'), su_external = sm_external (service_meta_of db sid')\<rparr>"
    by (auto simp: repo_list_producers_detailed_def Let_def)
  moreover from this(1) have "find_service db nm = Some sid'" using find_service_Some[OF ok] by simp
  ultimately show ?thesis using assms(2) by simp
qed

lemma service_meta_set [simp]: "service_meta_of (set_service_meta sid m db) sid = m"
  by (simp add: service_meta_of_def set_service_meta_def)

lemma fill_domain_frame:
  assumes "fill_domain_from_system sys d db = (ch, db')"
  shows "services db' = services db" "periphery db' = periphery db" "system_contexts db' = system_contexts db"
  using assms by (auto simp: fill_domain_from_system_def update_producer_metadata_def set_service_meta_def
      split: option.splits if_splits)

lemma quiet_fill [quiet_ops]: "quiet db (snd (fill_domain_from_system sys d db))"
  by (rule quietI) (auto simp: fill_domain_from_system_def update_producer_metadata_def set_service_meta_def cores_def
      split: option.split)

lemma quiet_context [quiet_ops]: "quiet db (snd (upsert_system_context sys ctx db))"
  by (rule quietI) (auto simp: upsert_system_context_def cores_def)

lemma quiet_close_catalog [quiet_ops]: "quiet db (close_catalog_of now sys db)"
  unfolding close_catalog_of_def
  by (rule quiet_trans[OF quiet_periphery]) (rule quietI, auto simp: delete_system_context_def cores_def)

lemma quiet_departed [quiet_ops]: "quiet db (close_catalog_of_departed now candidates db)"
  unfolding close_catalog_of_departed_def Let_def by (rule quiet_foldl) (auto intro: quiet_close_catalog)

text \<open>Filling an empty domain happens once.\<close>

lemma fill_domain_once:
  assumes "catalog_inv db" and "fill_domain_from_system sys d db = (ch, db')" and "\<forall>s. d = Some s \<longrightarrow> trim s \<noteq> []"
    and "services db'' = services db'" and "service_metas db'' = service_metas db'" and "catalog_inv db''"
  shows "fill_domain_from_system sys d db'' = (False, db'')"
proof (cases "\<exists>s sid. d = Some s \<and> find_service db'' sys = Some sid")
  case False
  then show ?thesis by (auto simp: fill_domain_from_system_def split: option.splits)
next
  case True
  then obtain s sid where d: "d = Some s" and sid: "find_service db'' sys = Some sid" by blast
  have sid0: "find_service db sys = Some sid"
    using sid fill_domain_frame(1)[OF assms(2)] assms(4) by (simp add: find_service_def)
  have metas: "service_meta_of db'' sid = service_meta_of db' sid" using assms(5) by (simp add: service_meta_of_def)
  have "\<exists>x. sm_domain (service_meta_of db' sid) = Some x \<and> trim x \<noteq> []"
  proof (cases "find (\<lambda>p. su_name p = sys) (repo_list_producers_detailed db)")
    case None
    have "(sid, sys) \<in> set (services db)" using sid0 assms(1) find_service_Some by (auto simp: catalog_inv_def)
    with None have False by (force simp: find_None_not repo_list_producers_detailed_def Let_def)
    then show ?thesis ..
  next
    case (Some p)
    note dom = detailed_domain[OF assms(1) sid0 Some]
    show ?thesis
    proof (cases "case su_domain p of None \<Rightarrow> False | Some x \<Rightarrow> trim x \<noteq> []")
      case True
      then have "db' = db" using assms(2) d sid0 Some by (auto simp: fill_domain_from_system_def)
      with True dom show ?thesis by (auto split: option.splits)
    next
      case False
      then have "db' = update_producer_metadata sys (su_icon p) (Some s) db"
        using assms(2) d sid0 Some by (auto simp: fill_domain_from_system_def)
      with sid0 assms(3) d show ?thesis by (simp add: update_producer_metadata_def)
    qed
  qed
  with metas obtain x where x: "sm_domain (service_meta_of db'' sid) = Some x" "trim x \<noteq> []" by auto
  show ?thesis
  proof (cases "find (\<lambda>p. su_name p = sys) (repo_list_producers_detailed db'')")
    case (Some p)
    with x detailed_domain[OF assms(6) sid Some] show ?thesis
      using d sid by (simp add: fill_domain_from_system_def)
  qed (use d sid in \<open>simp add: fill_domain_from_system_def\<close>)
qed

lemma record_component_steps:
  assumes "record_component E sys trunk c db = (r, db')"
  obtains evs db1 db2 pc xc dc where
    "reconcile_periphery sys trunk (cc_resources c @ cc_components c) (clock E 1) evs db = (pc, db1)"
    "upsert_system_context sys (cc_context c) db1 = (xc, db2)" "fill_domain_from_system sys (cc_system c) db2 = (dc, db')"
    "cp_changed r = (pc \<or> xc \<or> dc)" "cp_resources r = cc_resources c" "cp_components r = cc_components c"
  using assms unfolding record_component_def by (auto simp: Let_def split: prod.splits)

lemma push_recorded:
  assumes "push_catalog Y W E raw yaml trunk db = Inr (r, db')" and "cp_recorded r"
  obtains c where "read_component Y W yaml (trim raw) = Inr c" "record_component E (trim raw) trunk c db = (r, db')" "trim raw \<noteq> []"
  using assms unfolding push_catalog_def Let_def
  by (auto simp: refuse_component_def Let_def split: if_splits sum.splits)

lemma system_nonblank: "read_component Y W yaml sys = Inr c \<Longrightarrow> cc_system c = Some s \<Longrightarrow> trim s \<noteq> []"
proof -
  assume "read_component Y W yaml sys = Inr c" and s: "cc_system c = Some s"
  then obtain e where "system_of e (entity_namespace e) = Some s"
    unfolding read_component_def by (auto simp: and_then_Inr_iff split: option.splits)
  then have "is_ref_part s"
    by (auto simp: system_of_def bind_eq_Some_conv clean_part_def dest!: split_ref_clean split: option.splits if_splits)
  then show ?thesis using trim_ref[of s] by (auto simp: is_ref_part_def)
qed

lemma reconcile_fst_frame:
  "system_contexts (snd (reconcile_periphery sys trunk rs now evs db)) = system_contexts db"
  "services (snd (reconcile_periphery sys trunk rs now evs db)) = services db"
  "service_metas (snd (reconcile_periphery sys trunk rs now evs db)) = service_metas db"
  by (simp_all add: reconcile_periphery_def Let_def)

lemma record_component_catalog: "quiet db (snd (record_component E sys trunk c db))"
proof -
  obtain r db' where r: "record_component E sys trunk c db = (r, db')" by (cases "record_component E sys trunk c db")
  from record_component_steps[OF r] obtain evs db1 db2 pc xc dc where
    s: "reconcile_periphery sys trunk (cc_resources c @ cc_components c) (clock E 1) evs db = (pc, db1)"
    "upsert_system_context sys (cc_context c) db1 = (xc, db2)" "fill_domain_from_system sys (cc_system c) db2 = (dc, db')" by metis
  have "quiet db db1" "quiet db1 db2" "quiet db2 db'"
    using quiet_periphery[of db sys trunk _ _ evs] quiet_context[of db1 sys] quiet_fill[of db2 sys] s by (metis snd_conv)+
  then show ?thesis using r by (auto intro: quiet_trans)
qed

lemma map_of_delete: "map_of (delete_where (\<lambda>y. fst y = k) xs) x = (if x = k then None else map_of xs x)"
  by (induction xs) (auto simp: delete_where_def)

text \<open>The same file again, whatever the clock and the hooks.\<close>

lemma record_component_again:
  assumes inv: "catalog_inv db" and first: "record_component E sys trunk c db = (r, db')"
    and nonblank: "\<forall>s. cc_system c = Some s \<longrightarrow> trim s \<noteq> []"
    and again: "record_component E' sys trunk c db' = (r', db'')"
  shows "\<not> cp_changed r' \<and> periphery db'' = periphery db' \<and> system_contexts db'' = system_contexts db' \<and>
    service_metas db'' = service_metas db'"
proof -
  from record_component_steps[OF first] obtain evs db1 db2 pc xc dc where
    s: "reconcile_periphery sys trunk (cc_resources c @ cc_components c) (clock E 1) evs db = (pc, db1)"
    "upsert_system_context sys (cc_context c) db1 = (xc, db2)" "fill_domain_from_system sys (cc_system c) db2 = (dc, db')" by metis
  from record_component_steps[OF again] obtain evs' db3 db4 pc' xc' dc' where
    t: "reconcile_periphery sys trunk (cc_resources c @ cc_components c) (clock E' 1) evs' db' = (pc', db3)"
    "upsert_system_context sys (cc_context c) db3 = (xc', db4)" "fill_domain_from_system sys (cc_system c) db4 = (dc', db'')"
    "cp_changed r' = (pc' \<or> xc' \<or> dc')" by metis
  have p2: "periphery db2 = periphery db1" using s(2) by (auto simp: upsert_system_context_def split: if_splits)
  have per: "periphery db' = periphery db1" using fill_domain_frame(2)[OF s(3)] p2 by simp
  have opened: "set (open_resources tr sys (periphery db')) = set (cc_resources c @ cc_components c)" if "tr \<in> pushed_tracks trunk" for tr
    using that reconcile_periphery_current[of sys trunk "cc_resources c @ cc_components c" "clock E 1" evs db] s(1)
    by (auto simp: open_resources_keys per)
  have pc': "\<not> pc'" using reconcile_periphery_same[of sys trunk "cc_resources c @ cc_components c" "clock E' 1" evs' db'] t(1) opened
    by simp
  have per': "periphery db3 = periphery db'"
    using t(1) opened by (auto simp: reconcile_periphery_def Let_def reconcile_track_id split: if_splits)
  have "get_system_context db2 sys = Some (cc_context c)"
    using s(2) by (auto simp: upsert_system_context_def get_system_context_def split: if_splits)
  then have "get_system_context db3 sys = Some (cc_context c)"
    using reconcile_fst_frame(1)[of sys trunk _ "clock E' 1" evs' db'] t(1) fill_domain_frame(3)[OF s(3)]
    by (simp add: get_system_context_def) (metis snd_conv)
  then have db4: "db4 = db3" "\<not> xc'" using t(2) by (auto simp: upsert_system_context_def)
  have invs: "catalog_inv db2" "catalog_inv db4"
    using quiet_periphery[of db sys trunk _ _ evs] quiet_context[of db1 sys] s(1,2) inv
      record_component_catalog[of db E sys trunk c] first quiet_periphery[of db' sys trunk _ _ evs'] t(1) db4
    by (metis quiet_inv snd_conv)+
  have "services db4 = services db'" "service_metas db4 = service_metas db'" "system_contexts db4 = system_contexts db'"
    using reconcile_fst_frame[of sys trunk _ "clock E' 1" evs' db'] t(1) db4 by (metis snd_conv)+
  moreover from this have "fill_domain_from_system sys (cc_system c) db4 = (False, db4)"
    using fill_domain_once[OF invs(1) s(3) nonblank _ _ invs(2)] by simp
  ultimately show ?thesis using t(3,4) pc' db4 per' by simp
qed

text \<open>
  A push replaces what the system said before and an unchanged file is no
  news. When a push is recorded, the current periphery of the system in the
  dev graph, and for a trunk build in the main graph, is exactly the file's
  resources and components; other systems, the branches, the versions and
  every past instant are as before; the context is the file's. Pushing the
  file again, at any time, reports no change and changes none of it.
\<close>

lemma push_replaces_and_settles:
  assumes "catalog_inv db" and "push_catalog Y W E raw yaml trunk db = Inr (r, db')" and "cp_recorded r"
  shows "\<exists>c. read_component Y W yaml (trim raw) = Inr c \<and>
    (\<forall>tr. set (list_periphery db' tr None) =
       (if tr = DevTrack \<or> tr = TrunkTrack \<and> trunk
        then {(s, x) \<in> set (list_periphery db tr None). s \<noteq> trim raw} \<union> {trim raw} \<times> set (cc_resources c @ cc_components c)
        else set (list_periphery db tr None))) \<and>
    (\<forall>tr t. t < clock E 1 \<longrightarrow> list_periphery db' tr (Some t) = list_periphery db tr (Some t)) \<and>
    get_system_context db' = (get_system_context db)(trim raw \<mapsto> cc_context c) \<and>
    line_abs db' = line_abs db \<and>
    (\<forall>E'. \<exists>r' db''. push_catalog Y W E' raw yaml trunk db' = Inr (r', db'') \<and> \<not> cp_changed r' \<and>
       periphery db'' = periphery db' \<and> system_contexts db'' = system_contexts db' \<and> service_metas db'' = service_metas db')"
proof -
  from push_recorded[OF assms(2,3)] obtain c where c: "read_component Y W yaml (trim raw) = Inr c"
    "record_component E (trim raw) trunk c db = (r, db')" "trim raw \<noteq> []" .
  from record_component_steps[OF c(2)] obtain evs db1 db2 pc xc dc where
    s: "reconcile_periphery (trim raw) trunk (cc_resources c @ cc_components c) (clock E 1) evs db = (pc, db1)"
    "upsert_system_context (trim raw) (cc_context c) db1 = (xc, db2)"
    "fill_domain_from_system (trim raw) (cc_system c) db2 = (dc, db')" by metis
  have per: "periphery db' = periphery db1"
    using fill_domain_frame(2)[OF s(3)] s(2) by (auto simp: upsert_system_context_def split: if_splits)
  have "open_keys (periphery db') = {k \<in> open_keys (periphery db). \<not> (fst k \<in> pushed_tracks trunk \<and> fst (snd k) = trim raw)} \<union>
      {(tr, trim raw, res) |tr res. tr \<in> pushed_tracks trunk \<and> res \<in> set (cc_resources c @ cc_components c)}"
    using reconcile_periphery_current[of "trim raw" trunk "cc_resources c @ cc_components c" "clock E 1" evs db] s(1) per by simp
  then have now: "set (list_periphery db' tr None) = (if tr = DevTrack \<or> tr = TrunkTrack \<and> trunk
        then {(s, x) \<in> set (list_periphery db tr None). s \<noteq> trim raw} \<union> {trim raw} \<times> set (cc_resources c @ cc_components c)
        else set (list_periphery db tr None))" for tr
    unfolding current_periphery by auto
  have past: "list_periphery db' tr (Some t) = list_periphery db tr (Some t)" if "t < clock E 1" for tr t
    using reconcile_periphery_past[OF that, of "trim raw" trunk "cc_resources c @ cc_components c" evs db tr] s(1) per
    by (simp add: list_periphery_def)
  have ctx1: "get_system_context db1 = get_system_context db"
    using reconcile_fst_frame(1)[of "trim raw" trunk "cc_resources c @ cc_components c" "clock E 1" evs db] s(1)
    by (simp add: get_system_context_def fun_eq_iff)
  have "get_system_context db2 = (get_system_context db1)(trim raw \<mapsto> cc_context c)"
    using s(2) by (auto simp: upsert_system_context_def get_system_context_def fun_eq_iff map_of_delete split: if_splits)
  then have ctx: "get_system_context db' = (get_system_context db)(trim raw \<mapsto> cc_context c)"
    using fill_domain_frame(3)[OF s(3)] ctx1 by (simp add: get_system_context_def fun_eq_iff)
  have "\<exists>r' db''. push_catalog Y W E' raw yaml trunk db' = Inr (r', db'') \<and> \<not> cp_changed r' \<and>
      periphery db'' = periphery db' \<and> system_contexts db'' = system_contexts db' \<and> service_metas db'' = service_metas db'" for E'
  proof -
    obtain r' db'' where again: "record_component E' (trim raw) trunk c db' = (r', db'')" by (cases "record_component E' (trim raw) trunk c db'")
    then have "push_catalog Y W E' raw yaml trunk db' = Inr (r', db'')" using c(1,3) by (simp add: push_catalog_def)
    with record_component_again[OF assms(1) c(2) _ again] system_nonblank[OF c(1)] show ?thesis by blast
  qed
  with c(1) now past ctx record_component_catalog[of db E "trim raw" trunk c] show ?thesis
    by (intro exI[of _ c]) (simp add: c(2) quiet_line_abs)
qed

definition catalog_env :: env where
  "catalog_env = \<lparr>emission_enabled = False, clock = (\<lambda>_. ''2026-01-02T00:00:00Z''), uuid = (\<lambda>_. ''''), new_secret = ''''\<rparr>"

end
