(* ===== verification/Provide_Rules.thy ===== *)
theory Provide_Rules
  imports Catalog_Frame
begin

text \<open>
  The rules a Provide enforces: the shape of every outcome, the release gate,
  the immutability of a released number, the ownership of a snapshot, the
  compatibility of a release, the preview of a dry run, the compare-and-set of
  a promotion and the ownership of channel messages.
\<close>

section \<open>The version line\<close>

lemma in_list_spec_versions:
  "x \<in> set (list_spec_versions db sid) \<longleftrightarrow>
   (\<exists>r \<in> set (spec_versions db). v_service_id r = sid \<and> x = spec_version_meta.truncate r)"
  by (auto simp: list_spec_versions_def)

lemma truncate_fields [simp]:
  "v_id (spec_version_meta.truncate r) = v_id r" "v_service_id (spec_version_meta.truncate r) = v_service_id r"
  "v_api_type (spec_version_meta.truncate r) = v_api_type r" "v_version (spec_version_meta.truncate r) = v_version r"
  "v_stability (spec_version_meta.truncate r) = v_stability r"
  "v_content_hash (spec_version_meta.truncate r) = v_content_hash r"
  "v_provided_by (spec_version_meta.truncate r) = v_provided_by r"
  "v_updated_at (spec_version_meta.truncate r) = v_updated_at r"
  "v_last_required_at (spec_version_meta.truncate r) = v_last_required_at r"
  by (simp_all add: spec_version_meta.truncate_def)

lemma find_row_in:
  assumes "catalog_inv db"
  shows "find_version_row db sid t v = Some r \<longleftrightarrow> r \<in> set (spec_versions db) \<and> version_key r = (sid, t, v)"
  using assms find_unique[of version_key "spec_versions db" r]
  by (auto simp: find_version_row_def catalog_inv_def versions_ok_def dest: find_Some_in)

text \<open>The entry of a number in the line is the row of its key.\<close>

lemma line_find:
  assumes "catalog_inv db"
  shows "find (\<lambda>v. v_version v = ver) (version_line db sid t) = find_spec_version db sid t ver"
proof (cases "find (\<lambda>v. v_version v = ver) (version_line db sid t)")
  case None
  have "0 \<noteq> v_service_id r" if "r \<in> set (spec_versions db)" for r
    using assms that by (fastforce simp: catalog_inv_def versions_ok_def ids_ok_def)
  with None have "find_version_row db sid t ver = None"
    by (auto simp: find_version_row_def find_None_not version_line_def in_list_spec_versions version_key_def split: if_splits)
  with None show ?thesis by (simp add: find_spec_version_def)
next
  case (Some x)
  then obtain r where "r \<in> set (spec_versions db)" "version_key r = (sid, t, ver)" "x = spec_version_meta.truncate r"
    by (auto dest!: find_Some_in simp: version_line_def in_list_spec_versions version_key_def split: if_splits)
  with Some find_row_in[OF assms, of sid t ver r] show ?thesis by (simp add: find_spec_version_def)
qed

section \<open>The outcomes of a Provide\<close>

abbreviation entry_for :: "provide_facts \<Rightarrow> row_id \<Rightarrow> db \<Rightarrow> spec_version_meta option" where
  "entry_for f sid db \<equiv> find (\<lambda>v. v_version v = pf_version f) (version_line db sid (pf_api_type f))"

text \<open>
  Either the catalogue keeps every version as it is, or the one write of an
  accepted document happened, all rules having passed on the state it wrote to.
\<close>

definition rules_passed :: "spec_tools \<Rightarrow> provide_facts \<Rightarrow> actor option \<Rightarrow> row_id \<Rightarrow> db \<Rightarrow> bool" where
  "rules_passed T f caller sid db \<longleftrightarrow>
     (pf_stability f = Ga \<longrightarrow> may_release caller) \<and>
     \<not> is_unchanged f (entry_for f sid db) \<and>
     existing_conflict T f (version_line db sid (pf_api_type f)) (entry_for f sid db) db = None \<and>
     breaking_release T f (version_line db sid (pf_api_type f)) db = None"

definition provided_response :: "provide_facts \<Rightarrow> row_id \<Rightarrow> db \<Rightarrow> provide_response \<Rightarrow> bool" where
  "provided_response f sid db r \<longleftrightarrow>
     (\<exists>h. r = response f (pf_stability f) (provide_changes_of f (entry_for f sid db) db) (is_promotion f (entry_for f sid db)) h)"

definition unchanged_response :: "provide_facts \<Rightarrow> row_id \<Rightarrow> db \<Rightarrow> provide_response \<Rightarrow> bool" where
  "unchanged_response f sid db r \<longleftrightarrow> is_unchanged f (entry_for f sid db) \<and>
     (\<exists>h. r = response f (v_stability (the (entry_for f sid db))) no_changes False h)"

lemma write_version_cases:
  assumes "write_version T E f sid line existing ops harvest db = (res, db')"
  obtains (refused) e where "res = Some (Inl e)" "db' = db"
  | (written) vid db2 where "upsert_spec_version (upsert_of T E f sid line existing db) db = Inr (vid, db2)"
      "db' = after_write E f sid vid (is_promotion f existing) ops (fst harvest) db2"
      "res = Some (Inr (response f (pf_stability f) (provide_changes_of f existing db) (is_promotion f existing) (snd harvest)))"
  using assms by (auto simp: write_version_def split: sum.splits prod.splits)

lemma refuse_cases: "refuse E f r db = (res, db') \<Longrightarrow> res = None \<or> (\<exists>m v. res = Some (Inl (VersionConflict m v)))"
  by (auto simp: refuse_def split: prod.splits option.splits)


abbreviation upsert_for :: "spec_tools \<Rightarrow> env \<Rightarrow> provide_facts \<Rightarrow> row_id \<Rightarrow> db \<Rightarrow> upsert_params" where
  "upsert_for T E f sid db \<equiv> upsert_of T E f sid (version_line db sid (pf_api_type f)) (entry_for f sid db) db"

lemma accept_cases:
  assumes "accept_version T E f sid line existing harvest db = (res, db')"
  obtains (kept) "quiet db db'" "res = None \<or> (\<exists>e. res = Some (Inl e)) \<or> pf_dry_run f"
  | (written) vid db2 where "\<not> pf_dry_run f" "upsert_spec_version (upsert_of T E f sid line existing db) db = Inr (vid, db2)"
      "quiet db2 db'"
      "\<exists>h. res = Some (Inr (response f (pf_stability f) (provide_changes_of f existing db) (is_promotion f existing) h))"
proof (cases "if pf_api_type f = AsyncApi \<and> pf_stability f = Ga
    then plan_channel_message_contracts T db sid (pf_content f) else Inr []")
  case (Inl e)
  with assms show ?thesis by (auto simp: accept_version_def intro: kept quiet_ops)
next
  case (Inr ops)
  show ?thesis
  proof (cases "pf_dry_run f")
    case True
    with Inr assms show ?thesis by (auto simp: accept_version_def intro: kept)
  next
    case False
    with Inr assms have "write_version T E f sid line existing ops harvest db = (res, db')"
      by (simp add: accept_version_def)
    then show ?thesis
      using False by (cases rule: write_version_cases) (auto intro: kept written quiet_ops)
  qed
qed

lemma judge_cases:
  assumes "judge_version T E f sid harvest db = (res, db')" and "pf_stability f = Ga \<longrightarrow> may_release caller"
  obtains (kept) "quiet db db'"
      "res = None \<or> (\<exists>e. res = Some (Inl e)) \<or> pf_dry_run f \<or> (\<exists>r. res = Some (Inr r) \<and> unchanged_response f sid db r)"
  | (written) vid db2 where "rules_passed T f caller sid db" "\<not> pf_dry_run f"
      "upsert_spec_version (upsert_for T E f sid db) db = Inr (vid, db2)" "quiet db2 db'"
      "\<exists>r. res = Some (Inr r) \<and> provided_response f sid db r"
proof -
  let ?line = "version_line db sid (pf_api_type f)" and ?entry = "entry_for f sid db"
  consider (same) "is_unchanged f ?entry"
    | (refused) x where "refuse E f x db = (res, db')"
    | (passed) "rules_passed T f caller sid db" "accept_version T E f sid ?line ?entry harvest db = (res, db')"
    using assms by (auto simp: judge_version_def Let_def rules_passed_def split: if_splits option.splits)
  then show ?thesis
  proof cases
    case same
    with assms show ?thesis
      by (intro kept) (auto simp: judge_version_def Let_def unchanged_response_def intro: quiet_ops)
  next
    case refused
    then show ?thesis using refuse_cases[OF refused] quiet_refuse[of db E f x] by (intro kept) auto
  next
    case passed
    from passed(2) show ?thesis
    proof (cases rule: accept_cases)
      case kept
      then show ?thesis by (intro that(1)) auto
    next
      case (written vid db2)
      from passed(1) written(1-3) show ?thesis
        by (rule that(2)) (use written(4) in \<open>auto simp: provided_response_def\<close>)
    qed
  qed
qed

lemma document_cases:
  assumes "provide_document T E f caller db = (res, db')"
  obtains (kept) "quiet db db'"
      "res = None \<or> (\<exists>e. res = Some (Inl e)) \<or> pf_dry_run f \<or>
       (\<exists>r sid db1. res = Some (Inr r) \<and> register_producer f db = (sid, db1) \<and> quiet db1 db' \<and> unchanged_response f sid db1 r)"
  | (written) sid db1 vid db2 where "register_producer f db = (sid, db1)" "quiet db db1"
      "rules_passed T f caller sid db1" "\<not> pf_dry_run f"
      "upsert_spec_version (upsert_for T E f sid db1) db1 = Inr (vid, db2)" "quiet db2 db'"
      "\<exists>r. res = Some (Inr r) \<and> provided_response f sid db1 r"
proof -
  obtain sid db1 where reg: "register_producer f db = (sid, db1)" by (cases "register_producer f db")
  have q: "quiet db db1" using quiet_register[of db f] reg by simp
  show ?thesis
  proof (cases "pf_stability f = Ga \<and> \<not> may_release caller")
    case True
    with assms show ?thesis by (auto simp: provide_document_def intro: kept quiet_ops)
  next
    case ok: False
    show ?thesis
    proof (cases "if harvests f then plan_subscription_harvest T db1 (pf_content f) (pf_stability f) else Inr ([], [])")
      case (Inl e)
      with assms ok reg have "res = Some (Inl e)" "db' = record_contract_rejection E f e db1"
        by (auto simp: provide_document_def)
      then show ?thesis using quiet_trans[OF q quiet_contract_rejection[of db1 E f e]] by (intro kept) auto
    next
      case (Inr harvest)
      with assms ok reg have "judge_version T E f sid harvest db1 = (res, db')"
        by (simp add: provide_document_def)
      moreover have "pf_stability f = Ga \<longrightarrow> may_release caller" using ok by simp
      ultimately show ?thesis
      proof (cases rule: judge_cases)
        case kept
        with q reg show ?thesis by (intro that(1)) (auto intro: quiet_trans)
      next
        case (written vid db2)
        with q reg show ?thesis by (intro that(2))
      qed
    qed
  qed
qed

section \<open>Entry points\<close>

text \<open>Every way into a Provide: with a declared origin, without one, and the promotion of a stored snapshot.\<close>

lemma read_provide_Inr:
  assumes "read_provide T p origin db = Inr f"
  shows "pf_producer f = pv_producer p" "pf_api_type f = pv_api_type p" "pf_stability f = pv_stability p"
    "pf_dry_run f = pv_dry_run p" "pf_content f = normalize_spec_text (pv_content p)"
    "pf_hash f = content_hash T (pf_content f)" "pf_username f = map_option a_username (pv_caller p)"
    "pf_prior_match f = pv_require_prior p" "extract_spec_version T (pf_api_type f) (pf_content f) = Inr (pf_version f)"
    "parse_spec_endpoints T (pf_api_type f) (pf_content f) = Inr (pf_endpoints f)"
  using assms by (auto simp: read_provide_def Let_def and_then_Inr_iff)

lemma inner_cases:
  assumes "provide_spec_inner T E p origin db = (res, db')"
  obtains (unread) e where "res = Some (Inl e)" "db' = db"
  | (document) f where "read_provide T p origin db = Inr f" "provide_document T E f (pv_caller p) db = (res, db')"
  using assms by (auto simp: provide_spec_inner_def split: sum.splits)

lemma with_origin_cases:
  assumes "provide_spec_with_origin T E p origin db = (res, db')"
  obtains (unread) e where "res = Some (Inl e)" "db' = db"
  | (document) f origin' where "read_provide T p origin' db = Inr f" "provide_document T E f (pv_caller p) db = (res, db')"
  using assms by (auto simp: provide_spec_with_origin_def split: sum.splits elim: inner_cases)

definition release_params :: "string \<Rightarrow> api_type \<Rightarrow> string \<Rightarrow> actor option \<Rightarrow> provide_params" where
  "release_params producer t content caller =
     \<lparr>pv_producer = producer, pv_api_type = t, pv_content = content, pv_stability = Ga, pv_dry_run = False,
      pv_trunk = False, pv_tag = None, pv_caller = caller, pv_require_prior = True\<rparr>"

lemma promote_cases:
  assumes "promote_version T E producer t v caller db = (res, db')"
  obtains (unread) e where "res = Some (Inl e)" "db' = db"
  | (document) f entry content where "find_version_entry db producer t v = Inr entry"
      "get_spec_content db (v_id entry) = Some content"
      "read_provide T (release_params producer t content caller) empty_origin db = Inr f"
      "provide_document T E f caller db = (res, db')"
proof -
  consider (none) e where "res = Some (Inl e)" "db' = db"
    | (read) entry content where "find_version_entry db producer t v = Inr entry"
        "get_spec_content db (v_id entry) = Some content"
        "provide_spec_inner T E (release_params producer t content caller) empty_origin db = (res, db')"
    using assms by (auto simp: promote_version_def provide_spec_def release_params_def split: sum.splits option.splits)
  then show ?thesis
  proof cases
    case none
    then show ?thesis by (rule unread)
  next
    case (read entry content)
    from read(3) show ?thesis
      by (cases rule: inner_cases) (use read(1,2) in \<open>auto intro: unread document simp: release_params_def\<close>)
  qed
qed

section \<open>What a document may do to the catalogue\<close>

lemma up_key_for [simp]: "up_key (upsert_of T E f sid line existing db) = (sid, pf_api_type f, pf_version f)"
  by (simp add: up_key_def upsert_of_def)

lemma upsert_of_fields [simp]:
  "up_stability (upsert_of T E f sid line existing db) = pf_stability f"
  "up_content (upsert_of T E f sid line existing db) = pf_content f"
  "up_content_hash (upsert_of T E f sid line existing db) = pf_hash f"
  "up_provided_by (upsert_of T E f sid line existing db) = credited f existing"
  "up_endpoints (upsert_of T E f sid line existing db) = endpoint_records f"
  "up_service_id (upsert_of T E f sid line existing db) = sid"
  "up_api_type (upsert_of T E f sid line existing db) = pf_api_type f"
  "up_version (upsert_of T E f sid line existing db) = pf_version f"
  "up_expected_prior_hash (upsert_of T E f sid line existing db) = (if pf_prior_match f then Some (pf_hash f) else None)"
  by (simp_all add: upsert_of_def)

lemma document_line_abs:
  assumes "provide_document T E f caller db = (res, db')"
  obtains (kept) "line_abs db' = line_abs db"
  | (written) sid db1 where "register_producer f db = (sid, db1)" "quiet db db1" "rules_passed T f caller sid db1"
      "\<not> pf_dry_run f" "line_abs db' = (line_abs db)((sid, pf_api_type f, pf_version f) \<mapsto> (pf_stability f, pf_content f))"
  using assms
proof (cases rule: document_cases)
  case kept
  then show ?thesis using quiet_line_abs by (intro that(1))
next
  case (written sid db1 vid db2)
  from upsert_line_abs[OF written(5)] quiet_line_abs[OF written(2)] quiet_line_abs[OF written(6)]
  have "line_abs db' = (line_abs db)((sid, pf_api_type f, pf_version f) \<mapsto> (pf_stability f, pf_content f))" by simp
  with written(1-4) show ?thesis by (rule that(2))
qed

lemma document_inv:
  assumes "provide_document T E f caller db = (res, db')" and "catalog_inv db"
  shows "catalog_inv db'"
  using assms(1)
proof (cases rule: document_cases)
  case kept
  with assms(2) show ?thesis by (blast intro: quiet_inv)
next
  case (written sid db1 vid db2)
  with assms(2) show ?thesis by (blast intro: quiet_inv catalog_inv_upsert)
qed

lemma document_ga_kept:
  assumes "provide_document T E f caller db = (res, db')" and "catalog_inv db" and ga: "line_abs db k = Some (Ga, c)"
  shows "line_abs db' k = Some (Ga, c)"
  using assms(1)
proof (cases rule: document_cases)
  case kept
  with ga show ?thesis by (simp add: quiet_line_abs)
next
  case (written sid db1 vid db2)
  then have "catalog_inv db1" using assms(2) by (blast intro: quiet_inv)
  then have "line_abs db2 k = Some (Ga, c)"
    by (rule vs.ga_kept[where p = "upsert_for T E f sid db1"]) (use written ga in \<open>simp_all add: upsert_put_def quiet_line_abs\<close>)
  with written(6) show ?thesis by (simp add: quiet_line_abs)
qed

lemma document_ga_gate:
  assumes "provide_document T E f caller db = (res, db')" and "line_abs db' k = Some (Ga, c)"
  shows "line_abs db k = Some (Ga, c) \<or> may_release caller \<and> pf_stability f = Ga"
  using assms(1)
  by (cases rule: document_line_abs) (use assms(2) in \<open>auto simp: rules_passed_def split: if_splits\<close>)

section \<open>An accepted Provide\<close>

lemma registered:
  assumes "register_producer f db = (sid, db1)" and "\<not> pf_dry_run f" and "catalog_inv db"
  shows "find_service db1 (pf_producer f) = Some sid" "0 < sid"
proof -
  obtain d where d: "ensure_service (pf_producer f) db = (sid, d)" "quiet d db1"
    using assms(1,2) by (auto simp: register_producer_def quiet_tags split: prod.splits api_type.splits)
  have "catalog_inv d" using quiet_inv[OF quiet_ensure_service assms(3)] d(1) by (metis snd_conv)
  with d ensure_service_known[OF d(1) assms(3)] quiet_service[OF d(2)]
  show "find_service db1 (pf_producer f) = Some sid" "0 < sid" by auto
qed

lemma upsert_written_row:
  assumes "upsert_spec_version p db = Inr (vid, db')" and "catalog_inv db"
  obtains r where "find_version_row db' (up_service_id p) (up_api_type p) (up_version p) = Some r"
    "v_id r = vid" "v_stability r = up_stability p" "v_content r = up_content p"
    "v_content_hash r = up_content_hash p" "v_provided_by r = up_provided_by p"
proof -
  from assms(1) obtain db1 where row: "upsert_row p db = Inr (vid, db1)" and same: "spec_versions db' = spec_versions db1"
    by (auto elim: upsert_Inr)
  from upsert_row_Inr[OF row] show ?thesis
    by (elim disjE exE conjE)
      (auto simp: find_version_row_def same find_overwritten find_append up_key_def [symmetric] intro!: that dest: find_Some_in)
qed

lemma entry_row:
  assumes "catalog_inv db" and "entry_for f sid db = Some entry"
  obtains r where "find_version_row db sid (pf_api_type f) (pf_version f) = Some r" "entry = spec_version_meta.truncate r"
  using assms line_find[OF assms(1), of "pf_version f" sid "pf_api_type f"] by (auto simp: find_spec_version_def)

lemma response_fields [simp]:
  "pr_version (response f stab c pr h) = pf_version f" "pr_stability (response f stab c pr h) = stab"
  "pr_content_hash (response f stab c pr h) = pf_hash f" "pr_changes (response f stab c pr h) = c"
  "pr_promoted (response f stab c pr h) = pr"
  by (simp_all add: response_def)

lemma document_stored:
  assumes inv: "catalog_inv db" and run: "provide_document T E f caller db = (Some (Inr r), db')" and real: "\<not> pf_dry_run f"
  obtains sid row where "find_service db' (pf_producer f) = Some sid"
    "find_version_row db' sid (pf_api_type f) (pf_version f) = Some row" "pr_version r = pf_version f"
    "v_content_hash row = pf_hash f" "v_stability row = pr_stability r" "pf_stability f = Ga \<longrightarrow> pr_stability r = Ga"
    "v_content row = pf_content f \<or> line_abs db' = line_abs db"
    "\<forall>k. k \<noteq> (sid, pf_api_type f, pf_version f) \<longrightarrow> line_abs db' k = line_abs db k"
  using run
proof (cases rule: document_cases)
  case kept
  then obtain sid db1 where reg: "register_producer f db = (sid, db1)" and un: "unchanged_response f sid db1 r"
    and q1: "quiet db1 db'" using real by auto
  have inv1: "catalog_inv db1" using quiet_inv[OF quiet_register inv] reg by (metis snd_conv)
  obtain entry where e: "entry_for f sid db1 = Some entry" "is_unchanged f (Some entry)"
    using un by (auto simp: unchanged_response_def is_unchanged_def split: option.splits)
  obtain r1 where r1: "find_version_row db1 sid (pf_api_type f) (pf_version f) = Some r1" "entry = spec_version_meta.truncate r1"
    using inv1 e(1) by (rule entry_row)
  from q1 r1(1) obtain r2 where r2: "find_version_row db' sid (pf_api_type f) (pf_version f) = Some r2"
    "version_core r2 = version_core r1" by (rule quiet_row)
  have "find_service db' (pf_producer f) = Some sid"
    using q1 inv1 registered(1)[OF reg real inv] by (rule quiet_service)
  moreover have "pf_stability f = Ga \<longrightarrow> v_stability entry = Ga"
    using e(2) by (cases "v_stability entry") (auto simp: is_unchanged_def)
  ultimately show ?thesis
    using r2 r1(2) e un kept(1) by (intro that[of sid r2]) (auto simp: unchanged_response_def version_core_def is_unchanged_def quiet_line_abs)
next
  case (written sid db1 vid db2)
  have inv1: "catalog_inv db1" using written(2) inv by (rule quiet_inv)
  obtain r2 where r2: "find_version_row db2 sid (pf_api_type f) (pf_version f) = Some r2"
    "v_stability r2 = pf_stability f" "v_content r2 = pf_content f" "v_content_hash r2 = pf_hash f"
    using upsert_written_row[OF written(5) inv1] by (auto simp: upsert_of_def)
  from written(6) r2(1) obtain r3 where r3: "find_version_row db' sid (pf_api_type f) (pf_version f) = Some r3"
    "version_core r3 = version_core r2" by (rule quiet_row)
  have "find_service db2 (pf_producer f) = Some sid"
    using registered(1)[OF written(1) real inv] written(5)
    by (auto simp: find_service_def elim!: upsert_Inr dest!: upsert_row_Inr)
  then have "find_service db' (pf_producer f) = Some sid"
    by (rule quiet_service[OF written(6) catalog_inv_upsert[OF inv1 written(5)]])
  moreover have "line_abs db' = (line_abs db)((sid, pf_api_type f, pf_version f) \<mapsto> (pf_stability f, pf_content f))"
    using upsert_line_abs[OF written(5)] quiet_line_abs[OF written(2)] quiet_line_abs[OF written(6)] by simp
  ultimately show ?thesis
    using r3 r2(2-4) written(7) by (intro that[of sid r3]) (auto simp: provided_response_def version_core_def)
qed

text \<open>
  C13: What a caller is told was stored is stored. When a real Provide answers
  success, the Producer exists and the number the document declares holds an
  entry with the fingerprint of the normalized document and the stability in
  the answer (never less than asked for), with exactly the normalized text
  unless the catalogue did not change at all; and no other number of any line
  was touched.
\<close>

theorem provide_stores_document:
  assumes "catalog_inv db" and "provide_spec_with_origin T E p origin db = (Some (Inr r), db')" and "\<not> pv_dry_run p"
  shows "\<exists>sid row. find_service db' (pv_producer p) = Some sid \<and>
     find_version_row db' sid (pv_api_type p) (pr_version r) = Some row \<and>
     extract_spec_version T (pv_api_type p) (normalize_spec_text (pv_content p)) = Inr (pr_version r) \<and>
     v_content_hash row = content_hash T (normalize_spec_text (pv_content p)) \<and>
     v_stability row = pr_stability r \<and> (pv_stability p = Ga \<longrightarrow> pr_stability r = Ga) \<and>
     (v_content row = normalize_spec_text (pv_content p) \<or> line_abs db' = line_abs db) \<and>
     (\<forall>k. k \<noteq> (sid, pv_api_type p, pr_version r) \<longrightarrow> line_abs db' k = line_abs db k)"
  using assms(2)
proof (cases rule: with_origin_cases)
  case (document f o')
  note f = read_provide_Inr[OF document(1)]
  have "\<not> pf_dry_run f" using assms(3) f by simp
  with assms(1) document(2) show ?thesis
    by (cases rule: document_stored) (use f in auto)
qed simp

section \<open>Every stored version is what its text declares\<close>

definition endpoint_view :: "endpoint_record \<Rightarrow> api_type \<times> string \<times> string \<times> string \<times> string \<times> bool" where
  "endpoint_view e = (e_api_type e, e_path e, e_normalized_path e, e_method e, e_yaml_content e, e_deprecated e)"

definition spec_view :: "api_type \<Rightarrow> endpoint_spec \<Rightarrow> api_type \<times> string \<times> string \<times> string \<times> string \<times> bool" where
  "spec_view t s = (t, s_path s, s_normalized_path s, s_method s, s_yaml_content s, s_deprecated s)"

definition entry_ok :: "spec_tools \<Rightarrow> db \<Rightarrow> spec_version_row \<Rightarrow> bool" where
  "entry_ok T db r \<longleftrightarrow> v_content_hash r = content_hash T (v_content r) \<and>
     extract_spec_version T (v_api_type r) (v_content r) = Inr (v_version r) \<and>
     (\<exists>es. parse_spec_endpoints T (v_api_type r) (v_content r) = Inr es \<and>
        map endpoint_view (get_endpoints_for_version db (v_id r)) = map (spec_view (v_api_type r)) es)"

definition docs_ok :: "spec_tools \<Rightarrow> db \<Rightarrow> bool" where
  "docs_ok T db \<longleftrightarrow> (\<forall>r \<in> set (spec_versions db). entry_ok T db r)"

lemma entry_ok_core:
  assumes "version_core r' = version_core r" and "endpoints db' = endpoints db"
  shows "entry_ok T db' r' = entry_ok T db r"
  using assms by (simp add: entry_ok_def version_core_def version_key_def get_endpoints_for_version_def)

lemma docs_ok_quiet:
  assumes "docs_ok T db" and "quiet db db'"
  shows "docs_ok T db'"
  unfolding docs_ok_def
proof
  fix r'
  assume "r' \<in> set (spec_versions db')"
  then have "version_core r' \<in> set (cores db)"
    using assms(2) by (auto simp: quiet_def cores_def dest!: arg_cong[of _ _ set])
  then obtain r where "r \<in> set (spec_versions db)" "version_core r' = version_core r" by (auto simp: cores_def)
  with assms show "entry_ok T db' r'" by (simp add: docs_ok_def quiet_def entry_ok_core[of r' r])
qed

lemma replaced_endpoints:
  "get_endpoints_for_version (replace_endpoints vid es db) i =
     (if i = vid then map (\<lambda>(n, e). e\<lparr>e_id := Some n\<rparr>) (zip [next_endpoint db..<next_endpoint db + length es] es)
      else get_endpoints_for_version db i)"
proof -
  have "filter (\<lambda>e. e_spec_version_id e = i) (delete_where (\<lambda>e. e_spec_version_id e = vid) (endpoints db)) =
      (if i = vid then [] else filter (\<lambda>e. e_spec_version_id e = i) (endpoints db))"
    by (auto simp: delete_where_def filter_empty_conv intro!: filter_cong)
  moreover have "filter (\<lambda>e. e_spec_version_id e = i) (endpoint_rows vid n es) = (if i = vid then endpoint_rows vid n es else [])" for n
    by (auto simp: endpoint_rows_def endpoint_record.extend_def filter_empty_conv filter_id_conv)
  moreover have "map endpoint_record.truncate (endpoint_rows vid n es) =
      map (\<lambda>(i, e). e\<lparr>e_id := Some i\<rparr>) (zip [n..<n + length es] es)" for n
    by (auto simp: endpoint_rows_def endpoint_record.extend_def endpoint_record.truncate_def)
  ultimately show ?thesis by (simp add: get_endpoints_for_version_def replace_endpoints_def)
qed

lemma view_numbered: "map endpoint_view (map (\<lambda>(n, e). e\<lparr>e_id := Some n\<rparr>) (zip [m..<m + length es] es)) = map endpoint_view es"
proof -
  have "map endpoint_view (map (\<lambda>(n, e). e\<lparr>e_id := Some n\<rparr>) ps) = map endpoint_view (map snd ps)" for ps :: "(row_id \<times> endpoint_record) list"
    by (induction ps) (auto simp: endpoint_view_def)
  from this[of "zip [m..<m + length es] es"] show ?thesis by (simp del: map_map)
qed

text \<open>A write whose text, fingerprint, number and endpoints agree keeps the property.\<close>

lemma docs_ok_upsert:
  assumes "docs_ok T db" and "catalog_inv db" and up: "upsert_spec_version p db = Inr (vid, db')"
    and doc: "up_content_hash p = content_hash T (up_content p)"
      "extract_spec_version T (up_api_type p) (up_content p) = Inr (up_version p)"
      "parse_spec_endpoints T (up_api_type p) (up_content p) = Inr es"
      "map endpoint_view (up_endpoints p) = map (spec_view (up_api_type p)) es"
  shows "docs_ok T db'"
proof -
  from up obtain db1 where row: "upsert_row p db = Inr (vid, db1)"
    and db': "db' = write_outbox (up_outbox p) (replace_endpoints vid (up_endpoints p) db1)" by (rule upsert_Inr)
  have "endpoints db1 = endpoints db" using upsert_row_Inr[OF row] by auto
  then have eps: "get_endpoints_for_version db' i =
      (if i = vid then map (\<lambda>(n, e). e\<lparr>e_id := Some n\<rparr>) (zip [next_endpoint db1..<next_endpoint db1 + length (up_endpoints p)] (up_endpoints p))
       else get_endpoints_for_version db i)" for i
    by (simp add: db' get_endpoints_for_version_def replaced_endpoints[unfolded get_endpoints_for_version_def])
  have new: "entry_ok T db' r" if "v_id r = vid" "version_key r = up_key p" "v_content r = up_content p" "v_content_hash r = up_content_hash p" for r
    using that doc by (auto simp: entry_ok_def eps view_numbered version_key_def up_key_def simp del: map_map)
  have old: "entry_ok T db' r" if "r \<in> set (spec_versions db)" "v_id r \<noteq> vid" for r
    using assms(1) that by (auto simp: docs_ok_def entry_ok_def eps)
  show ?thesis unfolding docs_ok_def
  proof
    fix r
    assume "r \<in> set (spec_versions db')"
    then have r: "r \<in> set (spec_versions db1)" by (simp add: db')
    have ok: "versions_ok db" using assms(2) by (simp add: catalog_inv_def)
    from upsert_row_Inr[OF row] show "entry_ok T db' r"
    proof (elim disjE exE conjE)
      fix x
      assume x: "find (\<lambda>x. version_key x = up_key p) (spec_versions db) = Some x" "vid = v_id x"
        "db1 = db\<lparr>spec_versions := overwritten p (spec_versions db)\<rparr>"
      from r obtain y where y: "y \<in> set (spec_versions db)" "r = (if version_key y = up_key p then overwrite p y else y)"
        by (auto simp: x(3) update_where_def)
      show ?thesis
      proof (cases "version_key y = up_key p")
        case True
        then have "y = x" using find_Some_in[OF x(1)] y(1) ok by (auto simp: versions_ok_def distinct_map inj_on_def)
        with y True x(2) show ?thesis by (auto intro: new)
      next
        case False
        then have "v_id y \<noteq> vid" using find_Some_in[OF x(1)] y(1) ok x(2) by (auto simp: versions_ok_def distinct_map inj_on_def)
        with y False show ?thesis by (auto intro: old)
      qed
    next
      assume "vid = next_spec_version db" "db1 = db\<lparr>spec_versions := spec_versions db @ [fresh_row p vid], next_spec_version := Suc vid\<rparr>"
      then consider "r = fresh_row p vid" | "r \<in> set (spec_versions db)" "v_id r < vid"
        using r ok by (auto simp: versions_ok_def)
      then show ?thesis by cases (auto intro: new old)
    qed
  qed
qed

lemma endpoint_records_view: "map endpoint_view (endpoint_records f) = map (spec_view (pf_api_type f)) (pf_endpoints f)"
  by (simp add: endpoint_records_def endpoint_view_def spec_view_def)

lemma document_docs_ok:
  assumes "read_provide T p origin db = Inr f" and "provide_document T E f caller db = (res, db')"
    and "catalog_inv db" and "docs_ok T db"
  shows "docs_ok T db'"
  using assms(2)
proof (cases rule: document_cases)
  case kept
  with assms(4) show ?thesis by (blast intro: docs_ok_quiet)
next
  case (written sid db1 vid db2)
  note f = read_provide_Inr[OF assms(1)]
  have "docs_ok T db1" using assms(4) written(2) by (rule docs_ok_quiet)
  then have "docs_ok T db2"
    using quiet_inv[OF written(2) assms(3)] written(5)
    by (rule docs_ok_upsert[where es = "pf_endpoints f"]) (use f in \<open>simp_all add: endpoint_records_view\<close>)
  then show ?thesis using written(6) by (rule docs_ok_quiet)
qed

text \<open>Both entry points keep the catalogue well formed and its entries true to their text.\<close>

lemma provide_keeps:
  assumes "provide_spec_with_origin T E p origin db = (res, db')" and "catalog_inv db" and "docs_ok T db"
  shows "catalog_inv db' \<and> docs_ok T db'"
  using assms(1) by (cases rule: with_origin_cases) (use assms(2,3) document_inv document_docs_ok in \<open>auto\<close>)

lemma promote_keeps:
  assumes "promote_version T E producer t v caller db = (res, db')" and "catalog_inv db" and "docs_ok T db"
  shows "catalog_inv db' \<and> docs_ok T db'"
  using assms(1) by (cases rule: promote_cases) (use assms(2,3) document_inv document_docs_ok in \<open>auto\<close>)

section \<open>A concrete document language\<close>

text \<open>
  For the examples a document is a line of words: its version and its paths.
  Text is its own fingerprint and a document is compatible with another whose
  paths it keeps.
\<close>

lemma parse_u32_code [code]:
  "parse_u32 s =
     (case parse_digits (case s of c # r \<Rightarrow> if c = CHR ''+'' then r else s | [] \<Rightarrow> []) of
        None \<Rightarrow> None
      | Some n \<Rightarrow> if int n < 4294967296 then Some (word_of_int (int n)) else None)"
  by (auto simp: parse_u32_def split: option.split)

definition sample_words :: "string \<Rightarrow> string list" where
  "sample_words content = split_char CHR '' '' content"

definition sample_endpoint :: "string \<Rightarrow> endpoint_spec" where
  "sample_endpoint w = \<lparr>s_path = w, s_normalized_path = w, s_method = ''GET'', s_yaml_content = w, s_deprecated = False\<rparr>"

definition sample_message :: "string \<Rightarrow> pub_message" where
  "sample_message w = \<lparr>m_channel = w, m_message_name = ''m'', m_payload_yaml = w, m_deprecated = False\<rparr>"

definition covers :: "string \<Rightarrow> string \<Rightarrow> message + unit" where
  "covers old new = (if set (tl (sample_words old)) \<subseteq> set (sample_words new) then Inr () else Inl (Text ''dropped'' []))"

definition sample_spec :: spec_tools where
  "sample_spec =
     \<lparr>sha256_hex = (\<lambda>c. c), yaml_info_version = (\<lambda>c. Inr (Some (hd (sample_words c)))),
      proto_version_markers = (\<lambda>c. [hd (sample_words c)]),
      split_openapi = (\<lambda>c. Inr (map sample_endpoint (tl (sample_words c)))),
      split_asyncapi = (\<lambda>c. Inr []), split_proto = (\<lambda>c. Inr []),
      openapi_compatibility = covers, asyncapi_compatibility = covers, proto_compatibility = covers,
      openapi_analyze_impact = (\<lambda>old new. Patch),
      extract_pub_messages = (\<lambda>c. Inr (map sample_message (tl (sample_words c)))), extract_sub_messages = (\<lambda>c. Inr []),
      check_payload_compatible = (\<lambda>old new. Inr ()), check_expectation_satisfied = (\<lambda>old new. Inr ()),
      payloads_equal = (\<lambda>a b. a = b), to_openapi_schemas = (\<lambda>ps a b. Inr a), merge_endpoint_yamls = (\<lambda>ys. Inr (concat ys))\<rparr>"

definition quiet_env :: env where
  "quiet_env = sample_env\<lparr>emission_enabled := False\<rparr>"

definition sample_provide :: "stability \<Rightarrow> string \<Rightarrow> string \<Rightarrow> provide_params" where
  "sample_provide stab content user =
     \<lparr>pv_producer = ''api'', pv_api_type = OpenApi, pv_content = content, pv_stability = stab, pv_dry_run = False,
      pv_trunk = False, pv_tag = None, pv_caller = Some (plain_actor user [Releaser]), pv_require_prior = False\<rparr>"

definition sample_run :: "provide_params \<Rightarrow> db \<Rightarrow> provide_response outcome" where
  "sample_run p db = provide_spec_with_origin sample_spec quiet_env p empty_origin db"

definition sample_released :: db where
  "sample_released = snd (sample_run (sample_provide Ga ''1.0.0 /a'' ''ann'') empty_db)"

definition sample_snapshot :: db where
  "sample_snapshot = snd (sample_run (sample_provide Snapshot ''1.0.0 /a'' ''ann'') empty_db)"

definition succeeded :: "'r outcome \<Rightarrow> bool" where
  "succeeded x \<longleftrightarrow> (case fst x of Some (Inr _) \<Rightarrow> True | _ \<Rightarrow> False)"

definition the_answer :: "'r outcome \<Rightarrow> 'r" where
  "the_answer x = projr (the (fst x))"

lemma succeeded_run: "succeeded x \<Longrightarrow> x = (Some (Inr (the_answer x)), snd x)"
  by (cases x) (auto simp: succeeded_def the_answer_def split: option.splits sum.splits)

theorem provide_stores_document_witness:
  "\<exists>sid row. find_service sample_released ''api'' = Some sid \<and>
     find_version_row sample_released sid OpenApi (pr_version (the_answer (sample_run (sample_provide Ga ''1.0.0 /a'' ''ann'') empty_db))) = Some row \<and>
     v_stability row = Ga"
proof -
  let ?p = "sample_provide Ga ''1.0.0 /a'' ''ann''"
  have inv: "catalog_inv empty_db" by code_simp
  have "succeeded (sample_run ?p empty_db)" by code_simp
  note run = succeeded_run[OF this]
  have "pv_producer ?p = ''api''" "pv_api_type ?p = OpenApi" "pv_stability ?p = Ga" "\<not> pv_dry_run ?p"
    by (simp_all add: sample_provide_def)
  with provide_stores_document[OF inv run[unfolded sample_run_def]] show ?thesis
    unfolding sample_released_def sample_run_def by auto
qed

end
