(* ===== verification/Require.thy ===== *)
theory Require
  imports Provide_Rules
begin

text \<open>
  The Require use case, \<open>application/require_service.rs\<close>: a pinned version is
  resolved, the endpoints asked for are handed back, and only then the
  dependency is recorded in the dev graph and in the graph of the declared
  stream. A refusal is an error value and leaves the state as it was.
\<close>

section \<open>Parameters\<close>

datatype require_format = NativeFormat | OpenApiFormat

definition require_format_parse :: "api_type \<Rightarrow> string option \<Rightarrow> app_error + require_format" where
  "require_format_parse t format =
     (case format of
        None \<Rightarrow> Inr NativeFormat
      | Some nm \<Rightarrow>
          if nm = ''openapi'' then
            (if t = AsyncApi then Inr OpenApiFormat
             else Inl (BadRequest (Text ''format=openapi is only supported for apiType asyncapi'' [A t])))
          else Inl (BadRequest (Text ''Unknown format'' [S nm])))"

fun require_format_as_str :: "require_format \<Rightarrow> string" where
  "require_format_as_str NativeFormat = ''native''"
| "require_format_as_str OpenApiFormat = ''openapi''"

record require_params =
  rq_consumer :: string
  rq_producer :: string
  rq_version :: semver
  rq_api_type :: api_type
  rq_trunk :: bool
  rq_tag :: "string option"
  rq_format :: require_format

record require_endpoint_params = require_params +
  rq_path :: string
  rq_method :: string

record require_bundle_params = require_params +
  rq_endpoints :: "(string \<times> string) list"

record require_response =
  rr_yaml :: string
  rr_deprecated :: bool
  rr_state :: resolution_state
  rr_version :: semver
  rr_stability :: stability
  rr_format :: require_format
  rr_stream :: resolved_stream

definition to_openapi :: "spec_tools \<Rightarrow> string \<Rightarrow> semver \<Rightarrow> string list \<Rightarrow> app_error + string" where
  "to_openapi T producer v snippets = map_err BadRequest (to_openapi_schemas T snippets producer (semver_to_string v))"

section \<open>Resolution\<close>

definition resolve_pin :: "db \<Rightarrow> string \<Rightarrow> api_type \<Rightarrow> semver \<Rightarrow> app_error + row_id \<times> spec_version_meta" where
  "resolve_pin db producer t v =
     (case find_service db producer of
        None \<Rightarrow> Inl (NotFound (Text ''Producer is unknown'' [S producer]))
      | Some sid \<Rightarrow> (case find_spec_version db sid t v of
            None \<Rightarrow> Inl (NotFound (Text ''Producer has no such version in either stability'' [S producer, A t, V v]))
          | Some entry \<Rightarrow> Inr (sid, entry)))"

section \<open>Recording\<close>

text \<open>The edges of this Consumer, Producer and version the declared stream holds already.\<close>

definition held_edges :: "db \<Rightarrow> string \<Rightarrow> string \<Rightarrow> spec_version_meta \<Rightarrow> resolved_stream \<Rightarrow> (string \<times> string) set" where
  "held_edges db consumer producer entry stream =
     (let same_pin = (\<lambda>p. p_client p = consumer \<and> p_service p = producer \<and> p_api_type p = v_api_type entry \<and>
                          p_version p = v_version entry);
          of_pins = (\<lambda>ps. set (map (\<lambda>p. (p_normalized_path p, p_method p)) (filter same_pin ps))) in
      case st_branch stream of
        Some b \<Rightarrow> of_pins (list_branch_pins db (b_id b) None)
      | None \<Rightarrow>
          if st_trunk stream then of_pins (list_current_trunk_pins db)
          else set (map (\<lambda>e. (lookup_path (v_api_type entry) (ce_path e), ce_method e))
                 (filter (\<lambda>e. ce_service e = producer \<and> ce_api_type e = v_api_type entry \<and> ce_version e = v_version entry)
                   (list_consumer_endpoints db consumer))))"

definition plan_dependency_event ::
    "env \<Rightarrow> db \<Rightarrow> string \<Rightarrow> string \<Rightarrow> spec_version_meta \<Rightarrow> (string \<times> string) list \<Rightarrow> resolved_stream \<Rightarrow> new_webhook_event list" where
  "plan_dependency_event E db consumer producer entry es stream =
     (if \<not> emission_enabled E then []
      else let held = held_edges db consumer producer entry stream;
               new_edges = filter (\<lambda>(path, meth). (lookup_path (v_api_type entry) path, meth) \<notin> held) es in
        if new_edges = [] then []
        else list_of_option (plan_event E 0 db DependencyRecorded
               \<lparr>au_producer = Some producer, au_consumers = [consumer], au_follow_edges = True\<rparr>
               (DependencyData consumer producer (v_api_type entry) (v_version entry) (v_stability entry)
                 (v_stability entry = Snapshot) (event_stream_label stream) new_edges)))"

definition dependency_of :: "row_id \<Rightarrow> spec_version_meta \<Rightarrow> string \<times> string \<Rightarrow> dependency_row" where
  "dependency_of cid entry e =
     \<lparr>dep_client_id = cid, dep_spec_version_id = v_id entry, dep_api_type = v_api_type entry, dep_path = fst e,
      dep_normalized_path = lookup_path (v_api_type entry) (fst e), dep_method = snd e, dep_last_seen_at = []\<rparr>"

definition pin_of :: "row_id \<Rightarrow> spec_version_meta \<Rightarrow> string \<times> string \<Rightarrow> pin_params" where
  "pin_of cid entry e =
     \<lparr>pp_client_id = cid, pp_service_id = v_service_id entry, pp_api_type = v_api_type entry, pp_version = v_version entry,
      pp_path = fst e, pp_normalized_path = lookup_path (v_api_type entry) (fst e), pp_method = snd e\<rparr>"

text \<open>Of several spellings of one pin the first is kept.\<close>

fun first_of_key :: "('a \<Rightarrow> 'k) \<Rightarrow> 'a list \<Rightarrow> 'a list" where
  "first_of_key key [] = []"
| "first_of_key key (x # xs) = x # filter (\<lambda>y. key y \<noteq> key x) (first_of_key key xs)"

definition record_stream_pins :: "resolved_stream \<Rightarrow> pin_params list \<Rightarrow> stamp \<Rightarrow> db \<Rightarrow> db" where
  "record_stream_pins stream pins now db =
     (case st_branch stream of
        Some b \<Rightarrow> record_branch_pins (b_id b) pins now db
      | None \<Rightarrow> if st_trunk stream then record_trunk_pins pins now db else db)"

definition record_pins ::
    "env \<Rightarrow> string \<Rightarrow> string \<Rightarrow> spec_version_meta \<Rightarrow> (string \<times> string) list \<Rightarrow> resolved_stream \<Rightarrow> db \<Rightarrow> db" where
  "record_pins E consumer producer entry es stream db =
     (let events = plan_dependency_event E db consumer producer entry es stream;
          (cid, db1) = ensure_client consumer db;
          db2 = record_dependencies_bulk (map (dependency_of cid entry) es) events (clock E 1) db1;
          db3 = touch_spec_version_required (v_id entry) (clock E 2) db2
      in record_stream_pins stream
           (first_of_key (\<lambda>p. (pp_normalized_path p, pp_method p)) (map (pin_of cid entry) es)) (clock E 3) db3)"

section \<open>The handlers\<close>

definition require_endpoint_inner ::
    "spec_tools \<Rightarrow> env \<Rightarrow> require_endpoint_params \<Rightarrow> bool \<Rightarrow> db \<Rightarrow> app_error + require_response \<times> db" where
  "require_endpoint_inner T E p dry_run db =
     (let stream = resolve_stream db (rq_trunk p) (rq_tag p) in
      and_then (resolve_pin db (rq_producer p) (rq_api_type p) (rq_version p)) (\<lambda>(sid, entry).
      let meth = method_for (rq_api_type p) (rq_method p) in
      case find_endpoint db (v_id entry) (rq_api_type p) (rq_path p) meth of
        None \<Rightarrow> Inl (Gone (Text ''does not include'' [A (rq_api_type p), V (rq_version p), S (rq_producer p), S meth, S (rq_path p)]))
      | Some e \<Rightarrow>
          and_then (case rq_format p of NativeFormat \<Rightarrow> Inr (e_yaml_content e)
                    | OpenApiFormat \<Rightarrow> to_openapi T (rq_producer p) (rq_version p) [e_yaml_content e]) (\<lambda>yaml.
          Inr (\<lparr>rr_yaml = yaml, rr_deprecated = e_deprecated e, rr_state = Served, rr_version = rq_version p,
                rr_stability = v_stability entry, rr_format = rq_format p, rr_stream = stream\<rparr>,
               if dry_run then db
               else record_pins E (rq_consumer p) (rq_producer p) entry [(rq_path p, meth)] stream db))))"

definition require_endpoint ::
    "spec_tools \<Rightarrow> env \<Rightarrow> require_endpoint_params \<Rightarrow> db \<Rightarrow> app_error + require_response \<times> db" where
  "require_endpoint T E p db = require_endpoint_inner T E p False db"

definition require_endpoint_dry_run ::
    "spec_tools \<Rightarrow> env \<Rightarrow> require_endpoint_params \<Rightarrow> db \<Rightarrow> app_error + require_response \<times> db" where
  "require_endpoint_dry_run T E p db = require_endpoint_inner T E p True db"

definition bundle_yaml ::
    "spec_tools \<Rightarrow> require_format \<Rightarrow> api_type \<Rightarrow> string \<Rightarrow> semver \<Rightarrow> string list \<Rightarrow> app_error + string" where
  "bundle_yaml T format t producer v yamls =
     (case format of
        OpenApiFormat \<Rightarrow> to_openapi T producer v yamls
      | NativeFormat \<Rightarrow> if t = OpenApi then map_err Internal (merge_endpoint_yamls T yamls)
                        else Inr (join [CHR 0x0A, CHR ''-'', CHR ''-'', CHR ''-'', CHR 0x0A] yamls))"

definition require_bundle_inner ::
    "spec_tools \<Rightarrow> env \<Rightarrow> require_bundle_params \<Rightarrow> bool \<Rightarrow> db \<Rightarrow> app_error + require_response \<times> db" where
  "require_bundle_inner T E p dry_run db =
     (let stream = resolve_stream db (rq_trunk p) (rq_tag p) in
      if rq_endpoints p = [] then Inl (BadRequest (Text ''A bundle needs at least one endpoint'' []))
      else and_then (resolve_pin db (rq_producer p) (rq_api_type p) (rq_version p)) (\<lambda>(sid, entry).
      let wanted = map (\<lambda>(path, m). (path, method_for (rq_api_type p) m)) (rq_endpoints p);
          found = find_endpoints_bulk db (v_id entry) (rq_api_type p) wanted;
          missing = filter (\<lambda>k. found k = None) wanted in
      if missing \<noteq> [] then
        Inl (Gone (Text ''does not include'' (A (rq_api_type p) # V (rq_version p) # S (rq_producer p) #
          concat (map (\<lambda>(path, m). [S m, S path]) missing))))
      else let hits = List.map_filter found (sort wanted) in
        and_then (bundle_yaml T (rq_format p) (rq_api_type p) (rq_producer p) (rq_version p) (map e_yaml_content hits)) (\<lambda>yaml.
          Inr (\<lparr>rr_yaml = yaml, rr_deprecated = list_ex e_deprecated hits, rr_state = Served, rr_version = rq_version p,
                rr_stability = v_stability entry, rr_format = rq_format p, rr_stream = stream\<rparr>,
               if dry_run then db
               else record_pins E (rq_consumer p) (rq_producer p) entry wanted stream db))))"

definition require_bundle ::
    "spec_tools \<Rightarrow> env \<Rightarrow> require_bundle_params \<Rightarrow> db \<Rightarrow> app_error + require_response \<times> db" where
  "require_bundle T E p db = require_bundle_inner T E p False db"

definition require_bundle_dry_run ::
    "spec_tools \<Rightarrow> env \<Rightarrow> require_bundle_params \<Rightarrow> db \<Rightarrow> app_error + require_response \<times> db" where
  "require_bundle_dry_run T E p db = require_bundle_inner T E p True db"

section \<open>What a Require keeps\<close>

lemma quiet_stream_pins [quiet_ops]: "quiet db (record_stream_pins stream pins now db)"
  by (auto simp: record_stream_pins_def intro: quiet_ops split: option.split)

lemma quiet_record_pins [quiet_ops]: "quiet db (record_pins E consumer producer entry es stream db)"
proof -
  have "quiet db (record_stream_pins stream ps now (touch_spec_version_required i now'
      (record_dependencies_bulk ds evs now'' (snd (ensure_client consumer db)))))" for ps now i now' ds evs now''
    by (intro quiet_trans[OF _ quiet_stream_pins] quiet_trans[OF _ quiet_touch_required] quiet_trans[OF _ quiet_dependencies] quiet_ops)
  then show ?thesis by (simp add: record_pins_def Let_def case_prod_beta)
qed

lemma require_endpoint_Inr:
  assumes "require_endpoint_inner T E p dry_run db = Inr (r, db')"
  obtains sid entry e where "resolve_pin db (rq_producer p) (rq_api_type p) (rq_version p) = Inr (sid, entry)"
    "find_endpoint db (v_id entry) (rq_api_type p) (rq_path p) (method_for (rq_api_type p) (rq_method p)) = Some e"
    "db' = (if dry_run then db else record_pins E (rq_consumer p) (rq_producer p) entry
       [(rq_path p, method_for (rq_api_type p) (rq_method p))] (resolve_stream db (rq_trunk p) (rq_tag p)) db)"
  using assms unfolding require_endpoint_inner_def Let_def
  by (auto simp: and_then_Inr_iff split: option.splits)

abbreviation wanted_of :: "require_bundle_params \<Rightarrow> (string \<times> string) list" where
  "wanted_of p \<equiv> map (\<lambda>(path, m). (path, method_for (rq_api_type p) m)) (rq_endpoints p)"

lemma require_bundle_Inr:
  assumes "require_bundle_inner T E p dry_run db = Inr (r, db')"
  obtains sid entry where "resolve_pin db (rq_producer p) (rq_api_type p) (rq_version p) = Inr (sid, entry)"
    "\<forall>k \<in> set (wanted_of p). find_endpoints_bulk db (v_id entry) (rq_api_type p) (wanted_of p) k \<noteq> None"
    "db' = (if dry_run then db else record_pins E (rq_consumer p) (rq_producer p) entry (wanted_of p)
       (resolve_stream db (rq_trunk p) (rq_tag p)) db)" "rr_stability r = v_stability entry" "rr_version r = rq_version p"
  using assms unfolding require_bundle_inner_def Let_def
  by (auto simp: and_then_Inr_iff filter_empty_conv split: if_splits)

lemma resolve_pin_Inr:
  assumes "catalog_inv db" and "resolve_pin db producer t v = Inr (sid, entry)"
  obtains row where "find_service db producer = Some sid" "find_version_row db sid t v = Some row"
    "entry = spec_version_meta.truncate row" "v_service_id row = sid" "v_api_type row = t" "v_version row = v"
proof -
  obtain row where row: "find_service db producer = Some sid" "find_version_row db sid t v = Some row" "entry = spec_version_meta.truncate row"
    using assms(2) by (auto simp: resolve_pin_def find_spec_version_def split: option.splits)
  with assms(1) have "version_key row = (sid, t, v)" by (simp add: find_row_in)
  with row that show ?thesis by (simp add: version_key_def)
qed

section \<open>The pins of the declared stream\<close>

text \<open>One pin recorded: an open row of its key with its version, of the recorded names.\<close>

lemma record_row_current:
  assumes "hit x" and "valid_to x = None" and "k_version x = v" and "Q x"
    and "\<And>r. hit (refresh_pin now r) = hit r" and "\<And>r. Q (refresh_pin now r) = Q r"
    and "\<And>r. Q (close_row now r) = Q r" and "\<And>r. hit (close_row now r) = hit r"
    and "\<And>r. r \<in> set rs \<Longrightarrow> is_open r \<Longrightarrow> hit r \<Longrightarrow> Q r"
  shows "\<exists>r \<in> set (record_pin_row hit v now x rs). is_open r \<and> hit r \<and> k_version r = v \<and> Q r"
proof -
  obtain r where r: "r \<in> set (record_pin_row hit v now x rs)" "is_open r" "hit r"
    using open_hit_exists[of hit x now v rs] assms(1,2,5) by blast
  have "k_version r = v" using open_hit_version[OF r assms(3,5)] by simp
  moreover have "Q r"
  proof -
    have c: "Q q" if "q \<in> set (close_where (\<lambda>r. hit r \<and> k_version r \<noteq> v) now rs)" "hit q" "is_open q" for q
      using that assms(9) by (auto simp: close_where_def update_where_def is_open_def close_row_def split: if_splits)
    have u: "Q q" if "q \<in> set (update_where p (refresh_pin now) (close_where (\<lambda>r. hit r \<and> k_version r \<noteq> v) now rs))" "hit q" "is_open q" for q p
    proof -
      from that(1) obtain y where y: "y \<in> set (close_where (\<lambda>r. hit r \<and> k_version r \<noteq> v) now rs)" "q = (if p y then refresh_pin now y else y)"
        by (auto simp: update_where_def)
      then have "hit y" "is_open y" using that(2,3) assms(5) by (auto simp: refresh_pin_def is_open_def split: if_splits)
      with c[OF y(1)] y(2) assms(6) show ?thesis by simp
    qed
    from r assms(4) c u show ?thesis by (auto simp: record_pin_row_def Let_def split: if_splits)
  qed
  ultimately show ?thesis using r by blast
qed

text \<open>Recording another pin of the same version keeps it.\<close>

lemma record_row_keeps:
  assumes "r \<in> set rs" and "is_open r" and "k_version r = v"
  shows "r \<in> set (record_pin_row hit v now x rs) \<or> refresh_pin now r \<in> set (record_pin_row hit v now x rs)"
proof -
  have c: "r \<in> set (close_where (\<lambda>r. hit r \<and> k_version r \<noteq> v) now rs)"
    using assms by (auto simp: close_where_def update_where_def intro: rev_image_eqI)
  have "r \<in> set (update_where p (refresh_pin now) qs) \<or> refresh_pin now r \<in> set (update_where p (refresh_pin now) qs)"
    if "r \<in> set qs" for p qs
    using that by (auto simp: update_where_def intro: rev_image_eqI)
  with c show ?thesis by (auto simp: record_pin_row_def Let_def)
qed

lemma record_row_from:
  assumes "r \<in> set (record_pin_row hit v now x rs)" and "is_open r"
  obtains "r = x" | y where "y \<in> set rs" "is_open y" "r = y \<or> r = refresh_pin now y"
proof -
  have c: "q \<in> set rs" if "q \<in> set (close_where p now rs)" "is_open q" for q p
    using that by (auto simp: close_where_def update_where_def split: if_splits)
  have "\<exists>y \<in> set rs. is_open y \<and> (r = y \<or> r = refresh_pin now y)"
    if "r \<in> set (update_where p (refresh_pin now) (close_where q now rs))" for p q
  proof -
    from that obtain y where y: "y \<in> set (close_where q now rs)" "r = (if p y then refresh_pin now y else y)"
      by (auto simp: update_where_def)
    then have "is_open y" using assms(2) by (auto simp: refresh_pin_def is_open_def split: if_splits)
    with c[OF y(1)] y(2) show ?thesis by auto
  qed
  moreover have "r = x \<or> (\<exists>p q. r \<in> set (update_where p (refresh_pin now) (close_where q now rs))) \<or> (\<exists>q. r \<in> set (close_where q now rs))"
    using assms(1) by (auto simp: record_pin_row_def Let_def split: if_splits)
  ultimately show ?thesis using assms(2) c that by metis
qed

lemma fold_pins_recorded:
  fixes key :: "'a pin_row_scheme \<Rightarrow> 'k" and X :: "pin_params \<Rightarrow> 'a pin_row_scheme"
  assumes stable: "\<And>r. key (refresh_pin now r) = key r" "\<And>r. key (close_row now r) = key r"
      "\<And>r. Q (refresh_pin now r) = Q r" "\<And>r. Q (close_row now r) = Q r"
    and X: "\<And>q. q \<in> set ps \<Longrightarrow> k_version (X q) = v \<and> valid_to (X q) = None \<and> (key (X q) = K \<longrightarrow> Q (X q))"
    and old: "\<forall>r \<in> set rs. is_open r \<and> key r = K \<longrightarrow> Q r"
    and goal: "(\<exists>p \<in> set ps. key (X p) = K) \<or> (\<exists>r \<in> set rs. is_open r \<and> key r = K \<and> k_version r = v \<and> Q r)"
  shows "\<exists>r \<in> set (foldl (\<lambda>rs p. record_pin_row (\<lambda>r. key r = key (X p)) v now (X p) rs) rs ps).
           is_open r \<and> key r = K \<and> k_version r = v \<and> Q r"
  using X old goal
proof (induction ps arbitrary: rs)
  case Nil
  then show ?case by simp
next
  case (Cons q ps)
  let ?qs = "record_pin_row (\<lambda>r. key r = key (X q)) v now (X q) rs"
  have q: "k_version (X q) = v" "valid_to (X q) = None" "key (X q) = K \<longrightarrow> Q (X q)" using Cons.prems(1)[of q] by auto
  have old': "\<forall>r \<in> set ?qs. is_open r \<and> key r = K \<longrightarrow> Q r"
    using q(3) Cons.prems(2) stable by (auto elim!: record_row_from)
  have "(\<exists>p \<in> set ps. key (X p) = K) \<or> (\<exists>r \<in> set ?qs. is_open r \<and> key r = K \<and> k_version r = v \<and> Q r)"
  proof (cases "key (X q) = K")
    case True
    have "\<exists>r \<in> set ?qs. is_open r \<and> key r = key (X q) \<and> k_version r = v \<and> Q r"
      by (rule record_row_current) (use q True Cons.prems(2) stable in auto)
    with True show ?thesis by auto
  next
    case False
    have "\<exists>r \<in> set ?qs. is_open r \<and> key r = K \<and> k_version r = v \<and> Q r"
      if "r \<in> set rs" "is_open r" "key r = K" "k_version r = v" "Q r" for r
    proof -
      have "is_open (refresh_pin now r)" "k_version (refresh_pin now r) = v"
        using that(2,4) by (simp_all add: refresh_pin_def is_open_def)
      with record_row_keeps[OF that(1,2,4), of "\<lambda>r. key r = key (X q)" now "X q"] that stable(1,3)[of r]
      show ?thesis by metis
    qed
    with False Cons.prems(3) show ?thesis by auto
  qed
  then show ?case using Cons.prems(1) by (auto intro!: Cons.IH[OF _ old'])
qed

section \<open>The edges a Require records\<close>

text \<open>The names a current pin carries are those of the ids it carries, while these are registered.\<close>

definition named :: "db \<Rightarrow> 'a pin_row_scheme \<Rightarrow> bool" where
  "named db r \<longleftrightarrow> k_client_id r < next_client db \<and> k_service_id r < next_service db \<and>
     (\<forall>n. get_client_name db (k_client_id r) = Some n \<longrightarrow> k_client_name r = n) \<and>
     (\<forall>n. get_service_name_by_id db (k_service_id r) = Some n \<longrightarrow> k_service_name r = n)"

definition graph_names :: "db \<Rightarrow> bool" where
  "graph_names db \<longleftrightarrow> (\<forall>r \<in> set (trunk_deps db). is_open r \<longrightarrow> named db r) \<and>
     (\<forall>r \<in> set (branch_deps db). is_open r \<longrightarrow> named db r)"

lemma service_name: "catalog_inv db \<Longrightarrow> find_service db nm = Some sid \<Longrightarrow> get_service_name_by_id db sid = Some nm"
  using find_unique[of fst "services db" "(sid, nm)"]
  by (auto simp: get_service_name_by_id_def catalog_inv_def find_service_Some ids_ok_def)

lemma ensure_client_name:
  assumes "ensure_client nm db = (cid, db1)" and "catalog_inv db"
  shows "get_client_name db1 cid = Some nm" "services db1 = services db" "trunk_deps db1 = trunk_deps db"
    "branch_deps db1 = branch_deps db" "dependencies db1 = dependencies db"
    "cid < next_client db \<Longrightarrow> get_client_name db cid = Some nm" "spec_versions db1 = spec_versions db"
proof -
  have ok: "ids_ok (next_client db) (clients db)" using assms(2) by (simp add: catalog_inv_def)
  have known: "get_client_name db cid = Some nm" if "find_client db nm = Some cid"
  proof -
    obtain c where "find (\<lambda>c. snd c = nm) (clients db) = Some c" "fst c = cid"
      using \<open>find_client db nm = Some cid\<close> by (auto simp: find_client_def)
    then have "(cid, nm) \<in> set (clients db)" by (auto dest!: find_Some_in)
    with ok find_unique[of fst "clients db" "(cid, nm)"] show ?thesis by (auto simp: get_client_name_def ids_ok_def)
  qed
  have fresh: "find (\<lambda>c. fst c = next_client db) (clients db) = None"
    using ok by (auto simp: find_None_not ids_ok_def)
  show "get_client_name db1 cid = Some nm"
    using assms(1) known fresh by (auto simp: ensure_client_def get_client_name_def find_append split: option.splits)
  show "cid < next_client db \<Longrightarrow> get_client_name db cid = Some nm"
    using assms(1) known by (auto simp: ensure_client_def split: option.splits)
  show "services db1 = services db" "trunk_deps db1 = trunk_deps db" "branch_deps db1 = branch_deps db"
    "dependencies db1 = dependencies db" "spec_versions db1 = spec_versions db"
    using assms(1) by (auto simp: ensure_client_def split: option.splits)
qed

lemma record_dependencies_frame [simp]:
  "services (record_dependencies_bulk ds evs now db) = services db" "clients (record_dependencies_bulk ds evs now db) = clients db"
  "trunk_deps (record_dependencies_bulk ds evs now db) = trunk_deps db" "branch_deps (record_dependencies_bulk ds evs now db) = branch_deps db"
  "spec_versions (record_dependencies_bulk ds evs now db) = spec_versions db"
  "next_client (record_dependencies_bulk ds evs now db) = next_client db" "next_service (record_dependencies_bulk ds evs now db) = next_service db"
  by (simp_all add: record_dependencies_bulk_def insert_webhook_events_def)

lemma touch_required_frame [simp]:
  "services (touch_spec_version_required i now db) = services db" "clients (touch_spec_version_required i now db) = clients db"
  "trunk_deps (touch_spec_version_required i now db) = trunk_deps db" "branch_deps (touch_spec_version_required i now db) = branch_deps db"
  "dependencies (touch_spec_version_required i now db) = dependencies db"
  "next_client (touch_spec_version_required i now db) = next_client db" "next_service (touch_spec_version_required i now db) = next_service db"
  by (simp_all add: touch_spec_version_required_def)

lemma in_first_of_key: "x \<in> set xs \<Longrightarrow> \<exists>y \<in> set (first_of_key key xs). key y = key x"
proof (induction xs)
  case (Cons a xs)
  show ?case
  proof (cases "key a = key x")
    case False
    with Cons obtain y where "y \<in> set (first_of_key key xs)" "key y = key x" by auto
    with False show ?thesis by (intro bexI[of _ y]) auto
  qed auto
qed simp

lemma first_of_key_subset: "set (first_of_key key xs) \<subseteq> set xs"
  by (induction xs) auto

lemma pins_of_stream:
  fixes entry :: spec_version_meta
  assumes "e \<in> set es"
  shows "\<exists>p \<in> set (first_of_key (\<lambda>p. (pp_normalized_path p, pp_method p)) (map (pin_of cid entry) es)).
    pp_key p = (cid, v_service_id entry, v_api_type entry, lookup_path (v_api_type entry) (fst e), snd e)"
proof -
  let ?key = "\<lambda>p. (pp_normalized_path p, pp_method p)" and ?ps = "map (pin_of cid entry) es"
  obtain p where p: "p \<in> set (first_of_key ?key ?ps)" "?key p = ?key (pin_of cid entry e)"
    using in_first_of_key[of "pin_of cid entry e" ?ps ?key] assms by auto
  then have "p \<in> set ?ps" using first_of_key_subset[of ?key ?ps] by auto
  with p show ?thesis by (intro bexI[of _ p]) (auto simp: pin_of_def pp_key_def)
qed

lemma record_fold_eq:
  assumes "\<And>p. p \<in> set ps \<Longrightarrow> pp_version p = v"
  shows "foldl (\<lambda>rs p. record_trunk_pin now (new_pin db p now) rs) rs ps =
      foldl (\<lambda>rs p. record_pin_row (\<lambda>r. pin_key r = pin_key (new_pin db p now)) v now (new_pin db p now) rs) rs ps"
    "foldl (\<lambda>rs p. record_branch_pin now (on_branch bid (new_pin db p now)) rs) brs ps =
      foldl (\<lambda>rs p. record_pin_row (\<lambda>r. branch_pin_key r = branch_pin_key (on_branch bid (new_pin db p now))) v now
        (on_branch bid (new_pin db p now)) rs) brs ps"
  using assms
  by (auto intro!: foldl_cong simp: record_trunk_pin_def record_branch_pin_def new_pin_def on_branch_def pin_row.extend_def)

lemma stream_pin_held:
  assumes names: "graph_names db" and reg: "get_client_name db cid = Some consumer" "get_service_name_by_id db sid = Some producer"
    and e: "e \<in> set es" and entry: "v_service_id entry = sid"
    and stream: "st_branch stream \<noteq> None \<or> st_trunk stream"
  shows "(lookup_path (v_api_type entry) (fst e), snd e) \<in>
    held_edges (record_stream_pins stream (first_of_key (\<lambda>p. (pp_normalized_path p, pp_method p)) (map (pin_of cid entry) es)) now db)
      consumer producer entry stream"
proof -
  let ?ps = "first_of_key (\<lambda>p. (pp_normalized_path p, pp_method p)) (map (pin_of cid entry) es)"
  let ?K = "(cid, sid, v_api_type entry, lookup_path (v_api_type entry) (fst e), snd e)"
  let ?Q = "\<lambda>r. k_client_name r = consumer \<and> k_service_name r = producer"
  have ps: "pp_version q = v_version entry \<and> pp_client_id q = cid \<and> pp_service_id q = sid" if "q \<in> set ?ps" for q
  proof -
    have "q \<in> set (map (pin_of cid entry) es)" using that first_of_key_subset by (rule rev_subsetD)
    then show ?thesis using entry by (auto simp: pin_of_def)
  qed
  obtain p where p: "p \<in> set ?ps" "pp_key p = ?K" using pins_of_stream[OF e, of cid entry] entry by auto
  have new: "k_version (new_pin db q now) = v_version entry \<and> valid_to (new_pin db q now) = None \<and> ?Q (new_pin db q now) \<and>
      pin_key (new_pin db q now) = pp_key q" if "q \<in> set ?ps" for q
    using ps[OF that] reg by (simp add: new_pin_def pin_key_def pp_key_def name_or_empty_def)
  show ?thesis
  proof (cases "st_branch stream")
    case None
    have fold: "trunk_deps (record_trunk_pins ?ps now db) =
        foldl (\<lambda>rs p. record_pin_row (\<lambda>r. pin_key r = pin_key (new_pin db p now)) (v_version entry) now (new_pin db p now) rs) (trunk_deps db) ?ps"
      using record_fold_eq(1)[of ?ps "v_version entry"] ps by (simp add: record_trunk_pins_def)
    have "\<exists>r \<in> set (trunk_deps (record_trunk_pins ?ps now db)). is_open r \<and> pin_key r = ?K \<and> k_version r = v_version entry \<and> ?Q r"
      unfolding fold
    proof (rule fold_pins_recorded)
      show "\<forall>r \<in> set (trunk_deps db). is_open r \<and> pin_key r = ?K \<longrightarrow> ?Q r"
        using names reg by (auto simp: graph_names_def named_def pin_key_def)
    qed (use new p in \<open>auto simp: pin_key_def refresh_pin_def close_row_def\<close>)
    then obtain r where "r \<in> set (trunk_deps (record_trunk_pins ?ps now db))" "is_open r" "pin_key r = ?K"
      "k_version r = v_version entry" "?Q r" by blast
    with None stream show ?thesis
      by (auto simp: held_edges_def Let_def record_stream_pins_def list_current_trunk_pins_def order_pins_def pin_row_to_info_def
          pin_key_def intro!: image_eqI)
  next
    case (Some b)
    have onb: "k_version (on_branch (b_id b) x) = k_version x" "valid_to (on_branch (b_id b) x) = valid_to x"
      "?Q (on_branch (b_id b) x) = ?Q x" "branch_pin_key (on_branch (b_id b) x) = (b_id b, pin_key x)" for x
      by (simp_all add: on_branch_def pin_row.extend_def branch_pin_key_def pin_key_def)
    have fold: "branch_deps (record_branch_pins (b_id b) ?ps now db) =
        foldl (\<lambda>rs p. record_pin_row (\<lambda>r. branch_pin_key r = branch_pin_key (on_branch (b_id b) (new_pin db p now))) (v_version entry) now
          (on_branch (b_id b) (new_pin db p now)) rs) (branch_deps db) ?ps"
      using record_fold_eq(2)[of ?ps "v_version entry"] ps by (simp add: record_branch_pins_def)
    have "\<exists>r \<in> set (branch_deps (record_branch_pins (b_id b) ?ps now db)). is_open r \<and> branch_pin_key r = (b_id b, ?K) \<and>
        k_version r = v_version entry \<and> ?Q r"
      unfolding fold
    proof (rule fold_pins_recorded)
      show "\<forall>r \<in> set (branch_deps db). is_open r \<and> branch_pin_key r = (b_id b, ?K) \<longrightarrow> ?Q r"
        using names reg by (auto simp: graph_names_def named_def branch_pin_key_def pin_key_def)
    qed (use new p onb in \<open>auto simp: branch_pin_key_def pin_key_def refresh_pin_def close_row_def\<close>)
    then obtain r where "r \<in> set (branch_deps (record_branch_pins (b_id b) ?ps now db))" "is_open r" "branch_pin_key r = (b_id b, ?K)"
      "k_version r = v_version entry" "?Q r" by blast
    with Some show ?thesis
      by (auto simp: held_edges_def Let_def record_stream_pins_def list_branch_pins_def order_pins_def pin_row_to_info_def
          branch_pin_key_def pin_key_def intro!: image_eqI)
  qed
qed

lemma upsert_dependency_keys: "dep_key ` set (upsert_dependency now ds d) = insert (dep_key d) (dep_key ` set ds)"
proof (cases "exists_row (\<lambda>x. dep_key x = dep_key d) ds")
  case True
  have "map dep_key (update_where (\<lambda>x. dep_key x = dep_key d) (dep_last_seen_at_update (\<lambda>_. now)) ds) = map dep_key ds"
    by (rule map_update_where) (simp add: dep_key_def)
  then have "dep_key ` set (update_where (\<lambda>x. dep_key x = dep_key d) (dep_last_seen_at_update (\<lambda>_. now)) ds) = dep_key ` set ds"
    by (metis set_map)
  with True show ?thesis by (auto simp: upsert_dependency_def exists_row_iff intro: rev_image_eqI)
qed (auto simp: upsert_dependency_def dep_key_def)

lemma recorded_dependency:
  "x \<in> dep_key ` (set ds \<union> set qs) \<Longrightarrow> x \<in> dep_key ` set (foldl (upsert_dependency now) ds qs)"
proof (induction qs arbitrary: ds)
  case (Cons q qs)
  have "x \<in> dep_key ` (set (upsert_dependency now ds q) \<union> set qs)"
    using Cons.prems upsert_dependency_keys[of now ds q] by auto
  from Cons.IH[OF this] show ?case by simp
qed simp

lemma dev_edge_listed:
  assumes "dep_key d \<in> dep_key ` set (dependencies db)" and "get_client_name db (dep_client_id d) = Some consumer"
    and "find_version_by_id db (dep_spec_version_id d) = Some row" and "get_service_name_by_id db (v_service_id row) = Some producer"
  shows "\<exists>e \<in> set (list_consumer_endpoints db consumer). ce_service e = producer \<and> ce_api_type e = dep_api_type d \<and>
    ce_version e = v_version row \<and> ce_path e = dep_path d \<and> ce_method e = dep_method d"
proof -
  obtain x where x: "x \<in> set (dependencies db)" "dep_key x = dep_key d" using assms(1) by auto
  then have "\<exists>e \<in> set (consumer_endpoint_rows db x). ce_service e = producer \<and> ce_api_type e = dep_api_type d \<and>
      ce_version e = v_version row \<and> ce_path e = dep_path d \<and> ce_method e = dep_method d"
    using assms(3,4) by (auto simp: consumer_endpoint_rows_def Let_def dep_key_def filter_empty_conv)
  moreover have "x \<in> set (filter (\<lambda>d. get_client_name db (dep_client_id d) = Some consumer) (dependencies db))"
    using x assms(2) by (simp add: dep_key_def)
  ultimately show ?thesis by (auto simp: list_consumer_endpoints_def)
qed

lemma find_by_id:
  assumes "catalog_inv db" and "r \<in> set (spec_versions db)"
  shows "find_version_by_id db (v_id r) = Some r"
  using assms find_unique[of v_id "spec_versions db" r] by (auto simp: find_version_by_id_def catalog_inv_def versions_ok_def)

lemma get_client_clients: "clients db' = clients db \<Longrightarrow> get_client_name db' = get_client_name db"
  by (intro ext) (simp add: get_client_name_def)

lemma get_service_services: "services db' = services db \<Longrightarrow> get_service_name_by_id db' = get_service_name_by_id db"
  by (intro ext) (simp add: get_service_name_by_id_def)

lemma stream_pins_frame [simp]:
  "clients (record_stream_pins stream ps now db) = clients db" "services (record_stream_pins stream ps now db) = services db"
  "spec_versions (record_stream_pins stream ps now db) = spec_versions db" "dependencies (record_stream_pins stream ps now db) = dependencies db"
  by (simp_all add: record_stream_pins_def record_branch_pins_def record_trunk_pins_def split: option.split)

lemma named_after_client:
  assumes "ensure_client nm db = (cid, db1)" and "clients db3 = clients db1" and "next_client db3 = next_client db1"
    and "services db3 = services db" and "next_service db3 = next_service db" and "named db r"
  shows "named db3 r"
proof -
  have grown: "clients db1 = clients db \<and> next_client db1 = next_client db \<or>
      clients db1 = clients db @ [(next_client db, nm)] \<and> next_client db1 = Suc (next_client db)"
    using assms(1) by (auto simp: ensure_client_def split: option.splits)
  with assms(6) have "get_client_name db3 (k_client_id r) = get_client_name db (k_client_id r)"
    unfolding get_client_name_def assms(2) by (auto simp: find_append named_def split: option.split)
  moreover have "get_service_name_by_id db3 = get_service_name_by_id db" using assms(4) by (rule get_service_services)
  ultimately show ?thesis using assms(3,5,6) grown by (auto simp: named_def)
qed

text \<open>After the recording the Consumer holds every edge it asked for, in the dev graph and in the declared stream.\<close>

lemma recorded_edges:
  assumes inv: "catalog_inv db" and names: "graph_names db" and svc: "find_service db producer = Some sid"
    and row: "find_version_row db sid t v = Some row" "entry = spec_version_meta.truncate row" and e: "e \<in> set es"
  shows "(lookup_path t (fst e), snd e) \<in> held_edges (record_pins E consumer producer entry es stream db) consumer producer entry stream"
    and "\<exists>x \<in> set (list_consumer_endpoints (record_pins E consumer producer entry es stream db) consumer).
      ce_service x = producer \<and> ce_api_type x = t \<and> ce_version x = v \<and> ce_path x = fst e \<and> ce_method x = snd e"
proof -
  obtain cid db1 where cl: "ensure_client consumer db = (cid, db1)" by (cases "ensure_client consumer db")
  note c = ensure_client_name[OF cl inv]
  have key: "v_service_id row = sid" "v_api_type row = t" "v_version row = v" "row \<in> set (spec_versions db)"
    using row(1) inv by (auto simp: find_row_in version_key_def)
  define db3 where "db3 = touch_spec_version_required (v_id entry) (clock E 2)
      (record_dependencies_bulk (map (dependency_of cid entry) es) (plan_dependency_event E db consumer producer entry es stream) (clock E 1) db1)"
  let ?ps = "first_of_key (\<lambda>p. (pp_normalized_path p, pp_method p)) (map (pin_of cid entry) es)"
  let ?db' = "record_stream_pins stream ?ps (clock E 3) db3"
  have db': "record_pins E consumer producer entry es stream db = ?db'"
    by (simp add: record_pins_def cl db3_def Let_def)
  have cname: "get_client_name db3 cid = Some consumer" and sname: "get_service_name_by_id db3 sid = Some producer"
    using c(1,2) service_name[OF inv svc] by (simp_all add: db3_def get_client_name_def get_service_name_by_id_def)
  have q: "quiet db ?db'" using quiet_record_pins[of db E consumer producer entry es stream] by (simp add: db')
  obtain row' where row': "find_version_row ?db' sid t v = Some row'" "version_core row' = version_core row"
    using q row(1) by (rule quiet_row)
  have inv': "catalog_inv ?db'" using q inv by (rule quiet_inv)
  have "v_id row' = v_id row" "v_service_id row' = sid" "v_version row' = v" "row' \<in> set (spec_versions ?db')"
    using row' inv' key by (auto simp: find_row_in version_core_def version_key_def)
  then have found: "find_version_by_id ?db' (v_id row) = Some row'" "get_service_name_by_id ?db' (v_service_id row') = Some producer"
    using find_by_id[OF inv', of row'] get_service_services[of ?db' db3] sname by simp_all
  let ?d = "dependency_of cid entry e"
  have "dependencies ?db' = foldl (upsert_dependency (clock E 1)) (dependencies db) (map (dependency_of cid entry) es)"
    using e by (auto simp: db3_def record_dependencies_bulk_def c(5))
  then have "dep_key ?d \<in> dep_key ` set (dependencies ?db')"
    using recorded_dependency[of "dep_key ?d" "dependencies db" "map (dependency_of cid entry) es"] e by auto
  then obtain x where x: "x \<in> set (list_consumer_endpoints ?db' consumer)" "ce_service x = producer" "ce_api_type x = t"
    "ce_version x = v" "ce_path x = fst e" "ce_method x = snd e"
    using dev_edge_listed[of ?d ?db' consumer row' producer] found get_client_clients[of ?db' db3] cname row(2) key(2) \<open>v_version row' = v\<close>
    by (auto simp: dependency_of_def)
  then show "\<exists>x \<in> set (list_consumer_endpoints (record_pins E consumer producer entry es stream db) consumer).
      ce_service x = producer \<and> ce_api_type x = t \<and> ce_version x = v \<and> ce_path x = fst e \<and> ce_method x = snd e"
    unfolding db' by blast
  have same: "clients db3 = clients db1" "next_client db3 = next_client db1" "services db3 = services db" "next_service db3 = next_service db"
    using c(2) cl by (auto simp: db3_def ensure_client_def split: option.splits)
  have "trunk_deps db3 = trunk_deps db" "branch_deps db3 = branch_deps db" using c(3,4) by (simp_all add: db3_def)
  moreover have "\<forall>r \<in> set (trunk_deps db). is_open r \<longrightarrow> named db3 r" "\<forall>r \<in> set (branch_deps db). is_open r \<longrightarrow> named db3 r"
    using names by (auto simp: graph_names_def intro: named_after_client[OF cl same])
  ultimately have names3: "graph_names db3" by (simp add: graph_names_def)
  show "(lookup_path t (fst e), snd e) \<in> held_edges (record_pins E consumer producer entry es stream db) consumer producer entry stream"
  proof (cases "st_branch stream \<noteq> None \<or> st_trunk stream")
    case True
    with stream_pin_held[OF names3 cname sname e, of entry stream "clock E 3"] row(2) key show ?thesis unfolding db' by simp
  next
    case False
    then show ?thesis using x row(2) key unfolding db' by (auto simp: held_edges_def Let_def intro!: image_eqI)
  qed
qed

text \<open>
  C16: A Require records what it handed out, once. When a bundle is served, the
  catalogue is untouched, every endpoint asked for is an edge of the dev graph
  and, for a trunk or branch build, a current pin of the Consumer at exactly
  this version in that graph; and asking for the same bundle again in the same
  stream announces nothing, since no edge of it is new.
\<close>

theorem require_records_once:
  assumes "catalog_inv db" and "graph_names db" and "require_bundle T E p db = Inr (r, db')"
  shows "line_abs db' = line_abs db \<and> endpoints db' = endpoints db \<and>
    (\<exists>sid entry. resolve_pin db (rq_producer p) (rq_api_type p) (rq_version p) = Inr (sid, entry) \<and>
      (\<forall>(path, m) \<in> set (rq_endpoints p).
         (\<exists>x \<in> set (list_consumer_endpoints db' (rq_consumer p)). ce_service x = rq_producer p \<and> ce_api_type x = rq_api_type p \<and>
            ce_version x = rq_version p \<and> ce_path x = path \<and> ce_method x = method_for (rq_api_type p) m) \<and>
         (lookup_path (rq_api_type p) path, method_for (rq_api_type p) m) \<in>
           held_edges db' (rq_consumer p) (rq_producer p) entry (resolve_stream db (rq_trunk p) (rq_tag p))) \<and>
      plan_dependency_event E db' (rq_consumer p) (rq_producer p) entry
        (map (\<lambda>(path, m). (path, method_for (rq_api_type p) m)) (rq_endpoints p)) (resolve_stream db (rq_trunk p) (rq_tag p)) = [])"
proof -
  from assms(3) obtain sid entry where pin: "resolve_pin db (rq_producer p) (rq_api_type p) (rq_version p) = Inr (sid, entry)"
    and db': "db' = record_pins E (rq_consumer p) (rq_producer p) entry (wanted_of p) (resolve_stream db (rq_trunk p) (rq_tag p)) db"
    by (auto simp: require_bundle_def elim: require_bundle_Inr)
  obtain row where row: "find_service db (rq_producer p) = Some sid" "find_version_row db sid (rq_api_type p) (rq_version p) = Some row"
    "entry = spec_version_meta.truncate row" "v_api_type row = rq_api_type p"
    using assms(1) pin by (rule resolve_pin_Inr)
  note edges = recorded_edges[OF assms(1,2) row(1-3), where E = E and consumer = "rq_consumer p" and es = "wanted_of p"
      and stream = "resolve_stream db (rq_trunk p) (rq_tag p)", folded db']
  have member: "(path, method_for (rq_api_type p) m) \<in> set (wanted_of p)" if "(path, m) \<in> set (rq_endpoints p)" for path m
    using that by force
  have held: "(lookup_path (rq_api_type p) (fst e), snd e) \<in>
      held_edges db' (rq_consumer p) (rq_producer p) entry (resolve_stream db (rq_trunk p) (rq_tag p))" if "e \<in> set (wanted_of p)" for e
    by (rule edges(1)[OF that])
  have "plan_dependency_event E db' (rq_consumer p) (rq_producer p) entry (wanted_of p) (resolve_stream db (rq_trunk p) (rq_tag p)) = []"
    using held row(3,4) by (force simp: plan_dependency_event_def Let_def filter_empty_conv)
  moreover have "quiet db db'" unfolding db' by (rule quiet_record_pins)
  then have "line_abs db' = line_abs db" "endpoints db' = endpoints db" by (rule quiet_line_abs) (simp add: \<open>quiet db db'\<close>[unfolded quiet_def])
  ultimately show ?thesis using pin edges(2)[OF member] held[OF member] by (intro conjI exI[of _ sid] exI[of _ entry]) auto
qed

section \<open>Served, gone or unknown\<close>

lemma found_endpoint_view:
  assumes "find_endpoint db vid t path m = Some e"
  shows "(t, e_path e, lookup_path t path, m, e_yaml_content e, e_deprecated e) \<in> set (map endpoint_view (get_endpoints_for_version db vid))"
  using assms by (force simp: find_endpoint_def get_endpoints_for_version_def endpoint_view_def endpoint_record.truncate_def
      dest!: find_Some_in)

lemma no_endpoint_view:
  assumes "find_endpoint db vid t path m = None" and "x \<in> set (map endpoint_view (get_endpoints_for_version db vid))"
  shows "\<not> (fst x = t \<and> fst (snd (snd x)) = lookup_path t path \<and> fst (snd (snd (snd x))) = m)"
  using assms by (auto simp: find_endpoint_def get_endpoints_for_version_def endpoint_view_def endpoint_record.truncate_def find_None_not)

text \<open>The endpoints the text of a stored version declares.\<close>

definition declares :: "spec_tools \<Rightarrow> spec_version_row \<Rightarrow> string \<Rightarrow> string \<Rightarrow> endpoint_spec \<Rightarrow> bool" where
  "declares T row path m s \<longleftrightarrow> (\<exists>es. parse_spec_endpoints T (v_api_type row) (v_content row) = Inr es \<and> s \<in> set es \<and>
     s_normalized_path s = lookup_path (v_api_type row) path \<and> s_method s = method_for (v_api_type row) m)"

lemma stored_endpoint:
  assumes "entry_ok T db row" and "v_api_type row = t"
  shows "(\<exists>e. find_endpoint db (v_id row) t path (method_for t m) = Some e) \<longleftrightarrow> (\<exists>s. declares T row path m s)"
    and "find_endpoint db (v_id row) t path (method_for t m) = Some e \<Longrightarrow>
      \<exists>s. declares T row path m s \<and> e_yaml_content e = s_yaml_content s \<and> e_deprecated e = s_deprecated s"
proof -
  obtain es where es: "parse_spec_endpoints T t (v_content row) = Inr es"
    "map endpoint_view (get_endpoints_for_version db (v_id row)) = map (spec_view t) es"
    using assms by (auto simp: entry_ok_def)
  have here: "\<exists>s. declares T row path m s \<and> e_yaml_content e = s_yaml_content s \<and> e_deprecated e = s_deprecated s"
    if "find_endpoint db (v_id row) t path (method_for t m) = Some e" for e
  proof -
    note found = found_endpoint_view[OF that]
    obtain s where "s \<in> set es" "spec_view t s = (t, e_path e, lookup_path t path, method_for t m, e_yaml_content e, e_deprecated e)"
      using found unfolding es(2) by auto
    with es(1) assms(2) show ?thesis by (intro exI[of _ s]) (auto simp: declares_def spec_view_def)
  qed
  have "\<not> declares T row path m s" if "find_endpoint db (v_id row) t path (method_for t m) = None" for s
  proof
    assume d: "declares T row path m s"
    with es(1) assms(2) have "spec_view t s \<in> set (map (spec_view t) es)" by (auto simp: declares_def)
    from no_endpoint_view[OF that, unfolded es(2), OF this] d assms(2) show False by (auto simp: declares_def spec_view_def)
  qed
  then show "(\<exists>e. find_endpoint db (v_id row) t path (method_for t m) = Some e) \<longleftrightarrow> (\<exists>s. declares T row path m s)"
    using here by (cases "find_endpoint db (v_id row) t path (method_for t m)") auto
  show "find_endpoint db (v_id row) t path (method_for t m) = Some e \<Longrightarrow>
      \<exists>s. declares T row path m s \<and> e_yaml_content e = s_yaml_content s \<and> e_deprecated e = s_deprecated s" by (rule here)
qed


section \<open>Provide, then Require\<close>

lemma unique_declared:
  assumes "reject_colliding_endpoints es = Inr ()" and "distinct (map (\<lambda>e. (s_path e, s_method e)) es)"
    and "s \<in> set es" "s' \<in> set es" "s_normalized_path s = s_normalized_path s'" "s_method s = s_method s'"
  shows "s = s'"
proof -
  have "\<forall>e \<in> set es. \<forall>f \<in> set es. endpoint_key e = endpoint_key f \<longrightarrow> s_path e = s_path f"
    using assms(1) unfolding reject_colliding_endpoints_def reject_colliding_from_iff by blast
  moreover have "endpoint_key s = endpoint_key s'" using assms(5,6) by (simp add: endpoint_key_def)
  ultimately have "s_path s = s_path s'" using assms(3,4) by blast
  with assms(2-4,6) show ?thesis by (auto simp: distinct_map inj_on_def)
qed


section \<open>Examples\<close>

definition sample_endpoint_request :: require_endpoint_params where
  "sample_endpoint_request =
     \<lparr>rq_consumer = ''web'', rq_producer = ''api'', rq_version = SemVer 1 0 0, rq_api_type = OpenApi, rq_trunk = True, rq_tag = None,
      rq_format = NativeFormat, rq_path = ''/a'', rq_method = ''get''\<rparr>"

definition sample_bundle_request :: require_bundle_params where
  "sample_bundle_request =
     \<lparr>rq_consumer = ''web'', rq_producer = ''api'', rq_version = SemVer 1 0 0, rq_api_type = OpenApi, rq_trunk = True, rq_tag = None,
      rq_format = NativeFormat, rq_endpoints = [(''/a'', ''get'')]\<rparr>"

definition sample_required :: db where
  "sample_required = (case require_bundle sample_spec quiet_env sample_bundle_request sample_released of Inr (_, db) \<Rightarrow> db | Inl _ \<Rightarrow> empty_db)"

lemma sample_released_ok: "catalog_inv sample_released" "docs_ok sample_spec sample_released" "graph_names sample_released"
proof -
  have "catalog_inv empty_db" "docs_ok sample_spec empty_db" by code_simp (simp add: docs_ok_def empty_db_def)
  with provide_keeps[OF surjective_pairing] show "catalog_inv sample_released" "docs_ok sample_spec sample_released"
    by (auto simp: sample_released_def sample_run_def)
  have "trunk_deps sample_released = [] \<and> branch_deps sample_released = []" by code_simp
  then show "graph_names sample_released" by (simp add: graph_names_def)
qed

theorem require_records_once_witness:
  "\<exists>x \<in> set (list_consumer_endpoints sample_required ''web''). ce_service x = ''api'' \<and> ce_version x = SemVer 1 0 0 \<and>
     ce_path x = ''/a'' \<and> ce_method x = ''GET''"
proof -
  let ?x = "require_bundle sample_spec quiet_env sample_bundle_request sample_released"
  have "case ?x of Inr _ \<Rightarrow> True | Inl _ \<Rightarrow> False" by code_simp
  then obtain r where run: "?x = Inr (r, sample_required)" by (auto simp: sample_required_def split: sum.splits)
  have "method_for OpenApi ''get'' = ''GET''" by code_simp
  with require_records_once[OF sample_released_ok(1,3) run] show ?thesis by (auto simp: sample_bundle_request_def)
qed



end
