(* ===== verification/Webhook_Bodies.thy ===== *)
theory Webhook_Bodies
  imports Webhook_Events
begin

text \<open>
  What a delivery sends: the data of each event type
  (\<open>application/webhook_service.rs\<close>), the envelope, the deep links, the
  chat sentence, the three body formats and the signed request
  (\<open>application/webhook_delivery.rs\<close>). JSON values are a datatype; writing
  one as text, form encoding, the keyed hash, the version constant of the
  build and the wording of a message are parameters (\<open>body_tools\<close>).
\<close>

section \<open>JSON values\<close>

datatype json =
    JNull
  | JBool bool
  | JNum nat
  | JStr string
  | JMsg message
  | JArr "json list"
  | JObj "(string \<times> json) list"

definition json_get :: "string \<Rightarrow> json \<Rightarrow> json option" where
  "json_get k j = (case j of JObj kvs \<Rightarrow> map_of kvs k | _ \<Rightarrow> None)"

definition json_insert :: "string \<Rightarrow> json \<Rightarrow> json \<Rightarrow> json" where
  "json_insert k v j = (case j of JObj kvs \<Rightarrow> JObj (filter (\<lambda>kv. fst kv \<noteq> k) kvs @ [(k, v)]) | _ \<Rightarrow> j)"

definition json_opt :: "('a \<Rightarrow> json) \<Rightarrow> 'a option \<Rightarrow> json" where
  "json_opt f x = (case x of None \<Rightarrow> JNull | Some v \<Rightarrow> f v)"

record body_tools =
  json_to_string :: "json \<Rightarrow> string"
  form_encode :: "string \<Rightarrow> string"
  hmac_sha256_hex :: "string \<Rightarrow> string \<Rightarrow> string"
  package_version :: string
  wording :: "message \<Rightarrow> string"

definition as_str :: "body_tools \<Rightarrow> json \<Rightarrow> string option" where
  "as_str T j = (case j of JStr s \<Rightarrow> Some s | JMsg m \<Rightarrow> Some (wording T m) | _ \<Rightarrow> None)"

definition str_field :: "body_tools \<Rightarrow> json \<Rightarrow> string \<Rightarrow> string option" where
  "str_field T j k = (case json_get k j of None \<Rightarrow> None | Some v \<Rightarrow> as_str T v)"

definition bool_field :: "json \<Rightarrow> string \<Rightarrow> bool" where
  "bool_field j k = (json_get k j = Some (JBool True))"

definition arr_field :: "json \<Rightarrow> string \<Rightarrow> json list" where
  "arr_field j k = (case json_get k j of Some (JArr xs) \<Rightarrow> xs | _ \<Rightarrow> [])"

definition num_field :: "json \<Rightarrow> string \<Rightarrow> nat" where
  "num_field j k = (case json_get k j of Some (JNum n) \<Rightarrow> n | _ \<Rightarrow> 0)"

section \<open>The data of an event\<close>

fun impact_label :: "impact \<Rightarrow> string" where
  "impact_label ImpactNone = ''none''"
| "impact_label Patch = ''patch''"
| "impact_label Minor = ''minor''"
| "impact_label Major = ''major''"

definition origin_json :: "version_origin \<Rightarrow> json" where
  "origin_json o' = JObj [(''build_url'', json_opt JStr (build_url o')), (''change_url'', json_opt JStr (change_url o')),
     (''tickets'', JArr (map JStr (tickets o'))), (''note'', json_opt JStr (origin_note o')),
     (''trunk_build'', JBool (trunk_build o'))]"

definition pairs_json :: "(string \<times> string) list \<Rightarrow> json" where
  "pairs_json es = JArr (map (\<lambda>(path, meth). JObj [(''path'', JStr path), (''method'', JStr meth)]) es)"

definition test_message :: message where
  "test_message = Text ''This is a test event from Sanshain.'' []"

fun event_json :: "event_data \<Rightarrow> json" where
  "event_json (PublishedData producer t v stab promoted stream actor cmp origin) =
     JObj [(''producer'', JStr producer), (''api_type'', JStr (api_type_as_str t)),
           (''version'', JStr (semver_to_string v)), (''stability'', JStr (stability_as_str stab)),
           (''promoted'', JBool promoted), (''stream'', JStr stream), (''actor'', json_opt JStr actor),
           (''compatibility'', json_opt (\<lambda>(against, impact). JObj [(''against'', JStr (semver_to_string against)),
              (''impact'', JStr (impact_label impact))]) cmp),
           (''origin'', origin_json origin)]"
| "event_json (RejectedData producer t v rule msg proposed actor) =
     JObj [(''producer'', JStr producer), (''api_type'', JStr (api_type_as_str t)),
           (''version'', JStr (semver_to_string v)), (''rule'', JStr rule), (''message'', JMsg msg),
           (''proposed_version'', json_opt (\<lambda>x. JStr (semver_to_string x)) proposed),
           (''actor'', json_opt JStr actor)]"
| "event_json (DeprecatedData producer t v stab elements whole) =
     JObj [(''producer'', JStr producer), (''api_type'', JStr (api_type_as_str t)),
           (''version'', JStr (semver_to_string v)), (''stability'', JStr (stability_as_str stab)),
           (''elements'', pairs_json elements), (''document_deprecated'', JBool whole)]"
| "event_json (DependencyData consumer producer t v stab pinned stream es) =
     JObj [(''consumer'', JStr consumer), (''producer'', JStr producer), (''api_type'', JStr (api_type_as_str t)),
           (''version'', JStr (semver_to_string v)), (''stability'', JStr (stability_as_str stab)),
           (''snapshot_pinned'', JBool pinned), (''stream'', JStr stream), (''endpoints'', pairs_json es)]"
| "event_json (BranchCutData nm source as_of cut_at created_by) =
     JObj [(''name'', JStr nm), (''source'', JStr source), (''as_of'', JStr as_of), (''cut_at'', JStr cut_at),
           (''actor'', JStr created_by)]"
| "event_json (CatalogData system trunk recorded warning resources) =
     JObj [(''system'', JStr system), (''trunk'', JBool trunk), (''recorded'', JBool recorded),
           (''warning'', json_opt JMsg warning), (''resources'', JNum resources)]"
| "event_json (TestData i) = JObj [(''hook_id'', JNum i), (''message'', JMsg test_message)]"

section \<open>Envelope, links and bodies\<close>

definition slack_escape :: "string \<Rightarrow> string" where
  "slack_escape t = replace_char CHR ''>'' ''&gt;'' (replace_char CHR ''<'' ''&lt;'' (replace_char CHR ''&'' ''&amp;'' t))"

fun teams_escape :: "string \<Rightarrow> string" where
  "teams_escape [] = []"
| "teams_escape (c # cs) =
     (if c \<in> {CHR 0x5C, CHR ''*'', CHR ''_'', CHR ''['', CHR '']''} then CHR 0x5C # c # teams_escape cs
      else c # teams_escape cs)"

definition producer_page :: "body_tools \<Rightarrow> string \<Rightarrow> string \<Rightarrow> string" where
  "producer_page T base nm = base @ ''/producers.html?service='' @ form_encode T nm"

definition consumer_page :: "body_tools \<Rightarrow> string \<Rightarrow> string \<Rightarrow> string" where
  "consumer_page T base nm = base @ ''/consumers.html?name='' @ form_encode T nm"

definition field_or :: "string \<Rightarrow> body_tools \<Rightarrow> json \<Rightarrow> string \<Rightarrow> string" where
  "field_or d T j k = (case str_field T j k of None \<Rightarrow> d | Some s \<Rightarrow> s)"

definition version_page :: "body_tools \<Rightarrow> string \<Rightarrow> json \<Rightarrow> string" where
  "version_page T base dat = producer_page T base (field_or [] T dat ''producer'') @
     ''&api_type='' @ form_encode T (field_or [] T dat ''api_type'') @
     ''&version='' @ form_encode T (field_or [] T dat ''version'')"

definition links_for :: "body_tools \<Rightarrow> webhook_event_type \<Rightarrow> json \<Rightarrow> string \<Rightarrow> json" where
  "links_for T ty dat base =
     (let f = field_or [] T dat; graph = (''graph'', JStr (base @ ''/graph.html'')) in
      JObj (case ty of
        VersionPublished \<Rightarrow> [(''producer'', JStr (producer_page T base (f ''producer''))),
           (''version'', JStr (version_page T base dat)), graph]
      | VersionDeprecated \<Rightarrow> [(''producer'', JStr (producer_page T base (f ''producer''))),
           (''version'', JStr (version_page T base dat)), graph]
      | ProvideRejected \<Rightarrow> [(''producer'', JStr (producer_page T base (f ''producer''))),
           (''audit'', JStr (base @ ''/audit.html''))]
      | DependencyRecorded \<Rightarrow> [(''consumer'', JStr (consumer_page T base (f ''consumer''))),
           (''producer'', JStr (producer_page T base (f ''producer''))),
           (''version'', JStr (version_page T base dat)), graph]
      | BranchCut \<Rightarrow> [graph]
      | CatalogRecorded \<Rightarrow> [(''producer'', JStr (producer_page T base (f ''system''))),
           (''consumer'', JStr (consumer_page T base (f ''system''))), graph]
      | TestEvent \<Rightarrow> [(''admin'', JStr (base @ ''/admin.html''))]))"

fun primary_key :: "webhook_event_type \<Rightarrow> string" where
  "primary_key VersionPublished = ''version''"
| "primary_key VersionDeprecated = ''version''"
| "primary_key DependencyRecorded = ''version''"
| "primary_key ProvideRejected = ''producer''"
| "primary_key BranchCut = ''graph''"
| "primary_key CatalogRecorded = ''producer''"
| "primary_key TestEvent = ''admin''"

definition primary_link :: "body_tools \<Rightarrow> webhook_event_type \<Rightarrow> json option \<Rightarrow> string option" where
  "primary_link T ty links = (case links of None \<Rightarrow> None | Some l \<Rightarrow> str_field T l (primary_key ty))"

definition envelope :: "body_tools \<Rightarrow> string \<Rightarrow> webhook_event_type \<Rightarrow> stamp \<Rightarrow> json \<Rightarrow> string option \<Rightarrow> json" where
  "envelope T event_id ty occurred_at dat base_url =
     (let env = JObj [(''id'', JStr event_id), (''type'', JStr (event_type_as_str ty)),
                      (''occurred_at'', JStr occurred_at), (''sanshain_version'', JStr (package_version T)),
                      (''data'', dat)] in
      case base_url of None \<Rightarrow> env | Some base \<Rightarrow> json_insert ''links'' (links_for T ty dat base) env)"

abbreviation em_dash :: string where "em_dash \<equiv> [CHR 0x20, CHR 0xE2, CHR 0x80, CHR 0x94, CHR 0x20]"

definition element_text :: "body_tools \<Rightarrow> json \<Rightarrow> string" where
  "element_text T e = field_or [] T e ''method'' @ '' '' @ field_or [] T e ''path''"

definition published_summary :: "body_tools \<Rightarrow> json \<Rightarrow> string" where
  "published_summary T dat =
     (let f = field_or ''?'' T dat;
          what = (if bool_field dat ''promoted'' then ''promoted to GA''
                  else if f ''stability'' = ''ga'' then ''published as GA'' else ''published as a snapshot'');
          cmp = (case json_get ''compatibility'' dat of
              Some (JObj c) \<Rightarrow> '' ('' @ field_or ''?'' T (JObj c) ''impact'' @ '' change against '' @
                 field_or ''?'' T (JObj c) ''against'' @ '')''
            | _ \<Rightarrow> [])
      in ''Producer '' @ f ''producer'' @ '' '' @ what @ '': '' @ f ''api_type'' @ '' '' @ f ''version'' @
         '' on '' @ f ''stream'' @ cmp @ '', by '' @ f ''actor'')"

definition summary :: "body_tools \<Rightarrow> webhook_event_type \<Rightarrow> json \<Rightarrow> string" where
  "summary T ty dat =
     (let f = field_or ''?'' T dat; b = bool_field dat in
      case ty of
        VersionPublished \<Rightarrow> published_summary T dat
      | ProvideRejected \<Rightarrow> ''Provide of '' @ f ''producer'' @ '' '' @ f ''api_type'' @ '' '' @ f ''version'' @
          '' rejected ('' @ f ''rule'' @ '')'' @
          (case str_field T dat ''proposed_version'' of None \<Rightarrow> []
           | Some v \<Rightarrow> em_dash @ ''publish as '' @ v @ '' instead'') @ '': '' @ f ''message''
      | VersionDeprecated \<Rightarrow> ''Producer '' @ f ''producer'' @ '' deprecated in '' @ f ''api_type'' @ '' '' @
          f ''version'' @ '': '' @ join '', '' (map (element_text T) (arr_field dat ''elements'')) @
          (if b ''document_deprecated'' then em_dash @ ''the whole document is deprecated'' else [])
      | DependencyRecorded \<Rightarrow> ''Consumer '' @ f ''consumer'' @ '' now requires '' @ f ''producer'' @ '' '' @
          f ''api_type'' @ '' '' @ f ''version'' @ '' on '' @ f ''stream'' @ '': '' @
          show_nat (length (arr_field dat ''endpoints'')) @ '' endpoint(s)'' @
          (if b ''snapshot_pinned'' then '' (snapshot-pinned)'' else [])
      | BranchCut \<Rightarrow> ''Sanshain-branch '' @ f ''name'' @ '' cut from '' @ f ''source'' @ '' as of '' @ f ''as_of'' @
          '' by '' @ f ''actor''
      | CatalogRecorded \<Rightarrow> if b ''recorded''
          then ''Catalog push of '' @ f ''system'' @ '' recorded '' @ show_nat (num_field dat ''resources'') @
               '' Peripheral Resource(s)'' @ (if b ''trunk'' then '' on trunk'' else [])
          else ''Catalog push of '' @ f ''system'' @ '' recorded nothing: '' @ f ''warning''
      | TestEvent \<Rightarrow> ''Test event from Sanshain for hook '' @
          (case json_get ''hook_id'' dat of None \<Rightarrow> [] | Some v \<Rightarrow> json_to_string T v) @ '': '' @ f ''message'')"

definition slack_text :: "webhook_event_type \<Rightarrow> string \<Rightarrow> string option \<Rightarrow> string" where
  "slack_text ty t link =
     ''*'' @ event_type_as_str ty @ ''*'' @ em_dash @ slack_escape t @
     (case link of None \<Rightarrow> [] | Some url \<Rightarrow> '' <'' @ url @ ''|Open in Sanshain>'')"

definition teams_card :: "webhook_event_type \<Rightarrow> string \<Rightarrow> string option \<Rightarrow> json" where
  "teams_card ty t link =
     (let card = JObj [(''type'', JStr ''AdaptiveCard''),
            (''$schema'', JStr ''http://adaptivecards.io/schemas/adaptive-card.json''), (''version'', JStr ''1.4''),
            (''body'', JArr [JObj [(''type'', JStr ''TextBlock''), (''text'', JStr (event_type_as_str ty)),
                               (''weight'', JStr ''Bolder''), (''size'', JStr ''Medium'')],
                             JObj [(''type'', JStr ''TextBlock''), (''text'', JStr (teams_escape t)),
                               (''wrap'', JBool True)]])];
          full = (case link of None \<Rightarrow> card
            | Some url \<Rightarrow> json_insert ''actions'' (JArr [JObj [(''type'', JStr ''Action.OpenUrl''),
                 (''title'', JStr ''Open in Sanshain''), (''url'', JStr url)]]) card)
      in JObj [(''type'', JStr ''message''),
               (''attachments'', JArr [JObj [(''contentType'', JStr ''application/vnd.microsoft.card.adaptive''),
                  (''contentUrl'', JNull), (''content'', full)]])])"

definition render_body :: "body_tools \<Rightarrow> webhook_format \<Rightarrow> json \<Rightarrow> string" where
  "render_body T format env =
     (let ty = (case str_field T env ''type'' of None \<Rightarrow> TestEvent
                | Some x \<Rightarrow> (case event_type_parse x of None \<Rightarrow> TestEvent | Some y \<Rightarrow> y));
          dat = (case json_get ''data'' env of None \<Rightarrow> JNull | Some d \<Rightarrow> d);
          link = primary_link T ty (json_get ''links'' env);
          t = summary T ty dat
      in json_to_string T (case format of
           JsonFormat \<Rightarrow> env
         | SlackFormat \<Rightarrow> JObj [(''text'', JStr (slack_text ty t link))]
         | TeamsFormat \<Rightarrow> teams_card ty t link))"

definition show_int :: "int \<Rightarrow> string" where
  "show_int n = (if n < 0 then ''-'' @ show_nat (nat (- n)) else show_nat (nat n))"

definition signature :: "body_tools \<Rightarrow> string \<Rightarrow> int \<Rightarrow> string \<Rightarrow> string" where
  "signature T secret timestamp body = hmac_sha256_hex T secret (show_int timestamp @ ''.'' @ body)"

definition signature_header :: "body_tools \<Rightarrow> string \<Rightarrow> int \<Rightarrow> string \<Rightarrow> string" where
  "signature_header T secret timestamp body =
     ''t='' @ show_int timestamp @ '',v1='' @ signature T secret timestamp body"

record webhook_request =
  rq_url :: string
  rq_body :: string
  rq_headers :: "(string \<times> string) list"

record due_delivery =
  du_delivery :: webhook_delivery
  du_hook :: webhook
  du_event :: outbox_event

definition build_request :: "body_tools \<Rightarrow> due_delivery \<Rightarrow> string option \<Rightarrow> int \<Rightarrow> webhook_request" where
  "build_request T due base_url now =
     (let ev = du_event due; hook = du_hook due;
          env = envelope T (oe_id ev) (oe_type ev) (oe_occurred_at ev) (event_json (oe_data ev)) base_url;
          body = render_body T (h_format hook) env
      in \<lparr>rq_url = h_url hook, rq_body = body,
          rq_headers = [(''Sanshain-Event'', event_type_as_str (oe_type ev)),
                        (''X-Sanshain-Delivery'', show_nat (d_id (du_delivery due))),
                        (''Sanshain-Signature'', signature_header T (h_secret hook) now body)]\<rparr>)"

section \<open>Names cannot smuggle markup\<close>

text \<open>How the chat clients read an escaped text back.\<close>

fun slack_read :: "string \<Rightarrow> string" where
  "slack_read [] = []"
| "slack_read (c # cs) =
     (if c = CHR ''&'' then
        (case strip_prefix ''amp;'' cs of Some _ \<Rightarrow> CHR ''&'' # slack_read (drop 4 cs)
         | None \<Rightarrow> (case strip_prefix ''lt;'' cs of Some _ \<Rightarrow> CHR ''<'' # slack_read (drop 3 cs)
         | None \<Rightarrow> (case strip_prefix ''gt;'' cs of Some _ \<Rightarrow> CHR ''>'' # slack_read (drop 3 cs)
         | None \<Rightarrow> c # slack_read cs)))
      else c # slack_read cs)"

fun teams_read :: "string \<Rightarrow> (char \<times> bool) list" where
  "teams_read [] = []"
| "teams_read [c] = [(c, False)]"
| "teams_read (c # d # cs) =
     (if c = CHR 0x5C then (d, True) # teams_read cs else (c, False) # teams_read (d # cs))"

definition markdown :: "char set" where
  "markdown = {CHR 0x5C, CHR ''*'', CHR ''_'', CHR ''['', CHR '']''}"

lemma slack_escape_Cons:
  "slack_escape (c # cs) =
     (if c = CHR ''&'' then ''&amp;'' else if c = CHR ''<'' then ''&lt;'' else if c = CHR ''>'' then ''&gt;'' else [c]) @
     slack_escape cs"
  by (simp add: slack_escape_def replace_char_def)

lemma slack_read_escape: "slack_read (slack_escape t) = t"
  by (induction t) (auto simp: slack_escape_Cons strip_prefix_def, simp add: slack_escape_def replace_char_def)

lemma teams_read_plain: "c \<noteq> CHR 0x5C \<Longrightarrow> teams_read (c # cs) = (c, False) # teams_read cs"
  by (cases cs) auto

lemma teams_read_escape: "teams_read (teams_escape t) = map (\<lambda>c. (c, c \<in> markdown)) t"
  by (induction t) (auto simp: markdown_def teams_read_plain)

text \<open>
  A Producer, Consumer or branch name can put no markup into a chat
  message. The Slack text has no angle bracket of its own and reads back as the
  sentence it escapes; in the Teams text every markdown character of the
  sentence is escaped (marked \<open>True\<close>), nothing else is, and no character
  is lost.
\<close>

lemma chat_text_escaped:
  "CHR ''<'' \<notin> set (slack_escape t) \<and> CHR ''>'' \<notin> set (slack_escape t) \<and>
   slack_read (slack_escape t) = t \<and>
   teams_read (teams_escape t) = map (\<lambda>c. (c, c \<in> markdown)) t"
proof -
  have "CHR ''<'' \<notin> set (slack_escape t)" "CHR ''>'' \<notin> set (slack_escape t)"
    by (induction t) (auto simp: slack_escape_Cons, simp_all add: slack_escape_def replace_char_def)
  then show ?thesis by (simp add: slack_read_escape teams_read_escape)
qed

end
