(* ===== verification/Webhook_Delivery.thy ===== *)
theory Webhook_Delivery
  imports Webhook_Bodies
begin

text \<open>
  The delivering half: the delivery table of \<open>sqlite_repository.rs\<close> (claim
  with a lease, guarded outcome, redelivery, retention) and one worker pass,
  \<open>application/webhook_delivery.rs\<close>. An instant is a whole number of seconds
  (the fraction of a clock reading decides no comparison, every stored stamp
  being whole seconds). Rendering and reading a stamp (\<open>chrono\<close>) and the HTTP
  client are parameters.
\<close>

section \<open>Time\<close>

record time_tools =
  iso :: "int \<Rightarrow> stamp"
  parse_rfc3339 :: "stamp \<Rightarrow> int option"
  max_utc :: int
  min_utc :: int

definition i64_max :: int where "i64_max = 9223372036854775807"

definition saturate :: "int \<Rightarrow> int" where
  "saturate x = max (- i64_max - 1) (min i64_max x)"

text \<open>The longest span \<open>chrono\<close> holds, in seconds.\<close>

definition time_delta_max :: int where "time_delta_max = i64_max div 1000"

definition seconds_span :: "int \<Rightarrow> int" where
  "seconds_span count =
     (if \<bar>count\<bar> \<le> time_delta_max then count else if count < 0 then - time_delta_max else time_delta_max)"

definition after :: "time_tools \<Rightarrow> int \<Rightarrow> int \<Rightarrow> int" where
  "after C at span = (if min_utc C \<le> at + span \<and> at + span \<le> max_utc C then at + span else max_utc C)"

definition before :: "time_tools \<Rightarrow> int \<Rightarrow> int \<Rightarrow> int" where
  "before C at span = (if min_utc C \<le> at - span \<and> at - span \<le> max_utc C then at - span else min_utc C)"

definition first_backoff_secs :: int where "first_backoff_secs = 30"
definition max_backoff_secs :: int where "max_backoff_secs = 3600"
definition cutoff_secs :: int where "cutoff_secs = 24 * 3600"
definition lease_margin_secs :: int where "lease_margin_secs = 60"
definition retention_secs :: int where "retention_secs = 30 * 86400"

definition backoff_secs :: "nat \<Rightarrow> int" where
  "backoff_secs attempts_made =
     min (saturate (first_backoff_secs * 2 ^ min attempts_made 30)) max_backoff_secs"

record delivery_config =
  cf_public_base_url :: "string option"
  cf_batch_size :: nat
  cf_delivery_timeout_secs :: nat

definition lease_secs :: "delivery_config \<Rightarrow> int" where
  "lease_secs c = saturate (saturate (int (cf_batch_size c) * min (int (cf_delivery_timeout_secs c)) i64_max) + lease_margin_secs)"

section \<open>The delivery table\<close>

definition find_event :: "db \<Rightarrow> string \<Rightarrow> outbox_event option" where
  "find_event db eid = find (\<lambda>e. oe_id e = eid) (outbox db)"

definition get_webhook_delivery :: "db \<Rightarrow> row_id \<Rightarrow> webhook_delivery option" where
  "get_webhook_delivery db i = find (\<lambda>d. d_id d = i \<and> find_event db (d_event_id d) \<noteq> None) (deliveries db)"

definition list_webhook_deliveries :: "db \<Rightarrow> row_id \<Rightarrow> nat \<Rightarrow> webhook_delivery list" where
  "list_webhook_deliveries db hid limit =
     take limit (rev (sort_key d_id (filter (\<lambda>d. d_hook_id d = hid \<and> find_event db (d_event_id d) \<noteq> None) (deliveries db))))"

definition resettable :: "stamp \<Rightarrow> webhook_delivery \<Rightarrow> bool" where
  "resettable now d \<longleftrightarrow> d_status d \<in> {Delivered, Dead} \<or> d_next_attempt_at d \<le> now"

definition reset_webhook_delivery :: "row_id \<Rightarrow> stamp \<Rightarrow> db \<Rightarrow> bool \<times> db" where
  "reset_webhook_delivery i now db =
     (exists_row (\<lambda>d. d_id d = i \<and> resettable now d) (deliveries db),
      db\<lparr>deliveries := update_where (\<lambda>d. d_id d = i \<and> resettable now d)
           (\<lambda>d. d\<lparr>d_status := Pending, d_next_attempt_at := now, d_redelivered_at := Some now, d_updated_at := now\<rparr>)
           (deliveries db)\<rparr>)"

definition is_due :: "db \<Rightarrow> stamp \<Rightarrow> webhook_delivery \<Rightarrow> bool" where
  "is_due db now d \<longleftrightarrow> d_status d \<in> {Pending, Failed} \<and> d_next_attempt_at d \<le> now \<and>
     find_event db (d_event_id d) \<noteq> None \<and>
     (case get_webhook db (d_hook_id d) of None \<Rightarrow> False | Some h \<Rightarrow> \<not> h_paused h)"

definition due_rows :: "db \<Rightarrow> stamp \<Rightarrow> nat \<Rightarrow> webhook_delivery list" where
  "due_rows db now limit =
     take limit (sort_key (\<lambda>d. (d_next_attempt_at d, d_id d)) (filter (is_due db now) (deliveries db)))"

definition due_of :: "db \<Rightarrow> webhook_delivery \<Rightarrow> due_delivery" where
  "due_of db d = \<lparr>du_delivery = d, du_hook = the (get_webhook db (d_hook_id d)), du_event = the (find_event db (d_event_id d))\<rparr>"

definition claim_due_webhook_deliveries ::
    "stamp \<Rightarrow> stamp \<Rightarrow> nat \<Rightarrow> db \<Rightarrow> due_delivery list \<times> db" where
  "claim_due_webhook_deliveries now lease_until limit db =
     (let rows = due_rows db now limit in
      (map (due_of db) rows,
       foldl (\<lambda>b d. b\<lparr>deliveries := update_where (\<lambda>x. d_id x = d_id d)
                        (d_next_attempt_at_update (\<lambda>_. lease_until)) (deliveries b)\<rparr>) db rows))"

fun attempt_columns ::
    "webhook_attempt_outcome \<Rightarrow> webhook_delivery_status \<times> bool \<times> stamp option \<times> nat option \<times> message option \<times> bool" where
  "attempt_columns (OutDelivered code) = (Delivered, True, None, Some code, None, True)"
| "attempt_columns (OutFailed code err next_at) = (Failed, True, Some next_at, code, Some err, False)"
| "attempt_columns (OutDead code err) = (Dead, True, None, code, Some err, False)"
| "attempt_columns (OutExpired err) = (Dead, False, None, None, Some err, False)"

definition apply_outcome :: "stamp \<Rightarrow> webhook_attempt_outcome \<Rightarrow> webhook_delivery \<Rightarrow> webhook_delivery" where
  "apply_outcome now outcome d =
     (case attempt_columns outcome of (status, attempted, next_at, code, err, delivered) \<Rightarrow>
        d\<lparr>d_status := status, d_attempts := d_attempts d + (if attempted then 1 else 0),
          d_next_attempt_at := or_keep next_at (d_next_attempt_at d), d_last_response_code := code,
          d_last_error := err, d_delivered_at := (if delivered then Some now else None), d_updated_at := now\<rparr>)"

definition record_webhook_attempt ::
    "row_id \<Rightarrow> stamp \<Rightarrow> webhook_attempt_outcome \<Rightarrow> stamp \<Rightarrow> db \<Rightarrow> bool \<times> db" where
  "record_webhook_attempt i now outcome lease_until db =
     (exists_row (\<lambda>d. d_id d = i \<and> d_next_attempt_at d = lease_until) (deliveries db),
      db\<lparr>deliveries := update_where (\<lambda>d. d_id d = i \<and> d_next_attempt_at d = lease_until)
           (apply_outcome now outcome) (deliveries db)\<rparr>)"

definition count_pending_webhook_deliveries :: "db \<Rightarrow> nat" where
  "count_pending_webhook_deliveries db = length (filter (\<lambda>d. d_status d \<in> {Pending, Failed}) (deliveries db))"

definition delete_old_webhook_data :: "stamp \<Rightarrow> db \<Rightarrow> nat \<times> db" where
  "delete_old_webhook_data cutoff db =
     (let old = (\<lambda>d. d_status d \<in> {Delivered, Dead} \<and> d_updated_at d < cutoff);
          db1 = db\<lparr>deliveries := delete_where old (deliveries db)\<rparr> in
      (length (filter old (deliveries db)),
       db1\<lparr>outbox := delete_where (\<lambda>e. oe_occurred_at e < cutoff \<and>
             \<not> exists_row (\<lambda>d. d_event_id d = oe_id e) (deliveries db1)) (outbox db1)\<rparr>))"

section \<open>Asking for a delivery again\<close>

definition list_deliveries_in ::
    "db \<Rightarrow> webhook_scope \<Rightarrow> row_id \<Rightarrow> nat option \<Rightarrow> app_error + webhook_delivery list" where
  "list_deliveries_in db scope i limit =
     and_then (get_webhook_in db scope i) (\<lambda>_.
       Inr (list_webhook_deliveries db i (max 1 (min 200 (or_keep limit 50)))))"

definition redeliver ::
    "env \<Rightarrow> webhook_scope \<Rightarrow> row_id \<Rightarrow> row_id \<Rightarrow> db \<Rightarrow> app_error + webhook_delivery \<times> db" where
  "redeliver E scope i did db =
     and_then (get_webhook_in db scope i) (\<lambda>_.
     case get_webhook_delivery db did of
       Some d \<Rightarrow>
         if d_hook_id d \<noteq> i then Inl (NotFound (Text ''no delivery on webhook'' [N did, N i]))
         else (case reset_webhook_delivery did (clock E 0) db of
             (False, _) \<Rightarrow> Inl (Conflict (Text ''delivery is in flight'' [N did]))
           | (True, db1) \<Rightarrow> (case get_webhook_delivery db1 did of
                 None \<Rightarrow> Inl (NotFound (Text ''no delivery'' [N did]))
               | Some d1 \<Rightarrow> Inr (d1, db1)))
     | None \<Rightarrow> Inl (NotFound (Text ''no delivery on webhook'' [N did, N i])))"

section \<open>One pass of the worker\<close>

record worker_tools =
  wk_time :: time_tools
  wk_hooks :: webhook_tools
  wk_bodies :: body_tools
  wk_send :: "webhook_request \<Rightarrow> message + nat"
  wk_oidc_redirect :: "string \<Rightarrow> string option option"
  wk_url_port :: "string \<Rightarrow> nat option"

definition origin_of :: "worker_tools \<Rightarrow> string \<Rightarrow> string option" where
  "origin_of K url =
     (case url_parse (wk_hooks K) url of
        Some (scheme, Some host) \<Rightarrow> Some (scheme @ ''://'' @ host @
          (case wk_url_port K url of None \<Rightarrow> [] | Some p \<Rightarrow> '':'' @ show_nat p))
      | _ \<Rightarrow> None)"

definition trim_end_slashes :: "string \<Rightarrow> string" where
  "trim_end_slashes s = rev (dropWhile (\<lambda>c. c = CHR ''/'') (rev s))"

definition resolve_base_url :: "worker_tools \<Rightarrow> db \<Rightarrow> string option \<Rightarrow> app_error + string option" where
  "resolve_base_url K db configured =
     (case configured of
        Some url \<Rightarrow> Inr (Some (trim_end_slashes url))
      | None \<Rightarrow> (case get_setting db ''oidc_config'' of
            None \<Rightarrow> Inr None
          | Some raw \<Rightarrow> (case wk_oidc_redirect K raw of
                None \<Rightarrow> Inl (Internal (Text ''OIDC config parse error'' []))
              | Some None \<Rightarrow> Inr None
              | Some (Some redirect) \<Rightarrow> Inr (origin_of K redirect))))"

definition cutoff_of :: "worker_tools \<Rightarrow> due_delivery \<Rightarrow> int \<Rightarrow> int" where
  "cutoff_of K item now =
     after (wk_time K) (or_keep (parse_rfc3339 (wk_time K) (oe_occurred_at (du_event item))) now) cutoff_secs"

definition next_of :: "worker_tools \<Rightarrow> due_delivery \<Rightarrow> int \<Rightarrow> int" where
  "next_of K item now = after (wk_time K) now (seconds_span (backoff_secs (d_attempts (du_delivery item))))"

definition fail_attempt ::
    "worker_tools \<Rightarrow> due_delivery \<Rightarrow> int \<Rightarrow> nat option \<Rightarrow> message \<Rightarrow> webhook_attempt_outcome" where
  "fail_attempt K item now code err =
     (if next_of K item now \<ge> cutoff_of K item now then OutDead code err
      else OutFailed code err (iso (wk_time K) (next_of K item now)))"

text \<open>The outcome of one attempt, and whether a request went out.\<close>

definition attempt ::
    "worker_tools \<Rightarrow> due_delivery \<Rightarrow> string list \<Rightarrow> string option \<Rightarrow> int \<Rightarrow> webhook_attempt_outcome \<times> webhook_request option" where
  "attempt K item allowed base_url now =
     (if now \<ge> cutoff_of K item now \<and> d_redelivered_at (du_delivery item) = None
      then (OutExpired (Text ''given up: 24 hours have passed since the event'' []), None)
      else if \<not> h_allow_list_exempt (du_hook item) \<and> \<not> host_allowed (wk_hooks K) (h_url (du_hook item)) allowed
      then (fail_attempt K item now None (Text ''the host is not in the allow-list any more'' []), None)
      else let request = build_request (wk_bodies K) item base_url now in
        (case wk_send K request of
           Inr status \<Rightarrow> if 200 \<le> status \<and> status < 300 then OutDelivered status
                          else fail_attempt K item now (Some status) (Text ''the receiver answered HTTP'' [N status])
         | Inl err \<Rightarrow> fail_attempt K item now None err, Some request))"

record pass_summary =
  ps_delivered :: nat
  ps_failed :: nat
  ps_dead :: nat

fun count_outcome :: "webhook_attempt_outcome \<Rightarrow> pass_summary \<Rightarrow> pass_summary" where
  "count_outcome (OutDelivered code) x = x\<lparr>ps_delivered := ps_delivered x + 1\<rparr>"
| "count_outcome (OutFailed code err next_at) x = x\<lparr>ps_failed := ps_failed x + 1\<rparr>"
| "count_outcome (OutDead code err) x = x\<lparr>ps_dead := ps_dead x + 1\<rparr>"
| "count_outcome (OutExpired err) x = x\<lparr>ps_dead := ps_dead x + 1\<rparr>"

definition deliver_item ::
    "worker_tools \<Rightarrow> string list \<Rightarrow> string option \<Rightarrow> int \<Rightarrow> stamp \<Rightarrow> pass_summary \<times> db \<Rightarrow> due_delivery \<Rightarrow> pass_summary \<times> db" where
  "deliver_item K allowed base_url now lease_until acc item =
     (let outcome = fst (attempt K item allowed base_url now) in
      (count_outcome outcome (fst acc),
       snd (record_webhook_attempt (d_id (du_delivery item)) (iso (wk_time K) now) outcome lease_until (snd acc))))"

definition deliver_due ::
    "worker_tools \<Rightarrow> delivery_config \<Rightarrow> int \<Rightarrow> db \<Rightarrow> (app_error + pass_summary) \<times> db" where
  "deliver_due K config now db =
     (let lease_until = iso (wk_time K) (after (wk_time K) now (seconds_span (lease_secs config)));
          (due, db1) = claim_due_webhook_deliveries (iso (wk_time K) now) lease_until (cf_batch_size config) db;
          zero = \<lparr>ps_delivered = 0, ps_failed = 0, ps_dead = 0\<rparr> in
      if due = [] then (Inr zero, db1)
      else case webhook_allowed_hosts (wk_hooks K) db1 of
             Inl e \<Rightarrow> (Inl e, db1)
           | Inr allowed \<Rightarrow> (case resolve_base_url K db1 (cf_public_base_url config) of
                 Inl e \<Rightarrow> (Inl e, db1)
               | Inr base_url \<Rightarrow>
                   (case foldl (deliver_item K allowed base_url now lease_until) (zero, db1) due of
                      (x, db2) \<Rightarrow> (Inr x, db2))))"

definition cleanup_webhook_data :: "time_tools \<Rightarrow> int \<Rightarrow> db \<Rightarrow> nat \<times> db" where
  "cleanup_webhook_data C now db = delete_old_webhook_data (iso C (before C now retention_secs)) db"

section \<open>Backoff\<close>

lemma saturate_id: "0 \<le> x \<Longrightarrow> x \<le> i64_max \<Longrightarrow> saturate x = x"
  by (simp add: saturate_def max_def i64_max_def)

lemma backoff_eq: "backoff_secs n = min (30 * 2 ^ n) 3600"
proof (cases "n \<le> 30")
  case True
  then have "(2::int) ^ n \<le> 2 ^ 30" by (intro power_increasing) auto
  then have "saturate (30 * 2 ^ n) = 30 * 2 ^ n" by (intro saturate_id) (simp_all add: i64_max_def)
  then show ?thesis using True
    by (simp add: backoff_secs_def first_backoff_secs_def max_backoff_secs_def)
next
  case False
  then have "(2::int) ^ 30 \<le> 2 ^ n" by (intro power_increasing) auto
  then show ?thesis using False
    by (simp add: backoff_secs_def first_backoff_secs_def max_backoff_secs_def saturate_def i64_max_def)
qed

lemma backoff_bounds: "30 \<le> backoff_secs n" "backoff_secs n \<le> 3600"
proof -
  have "(1::int) \<le> 2 ^ n" by simp
  then show "30 \<le> backoff_secs n" "backoff_secs n \<le> 3600" by (auto simp: backoff_eq)
qed

text \<open>
  The wait before a retry starts at half a minute, doubles with every
  attempt made and never exceeds an hour: the capped shift of the code equals
  the mathematical \<open>min (30 * 2^n) 3600\<close> for every number of attempts,
  so no shift or multiplication overflows, and the wait never shrinks.
\<close>

lemma backoff_is_capped_doubling:
  "backoff_secs n = min (30 * 2 ^ n) 3600 \<and> 30 \<le> backoff_secs n \<and> backoff_secs n \<le> 3600 \<and>
   backoff_secs n \<le> backoff_secs (Suc n)"
proof -
  have "min (30 * 2 ^ n) 3600 \<le> min (30 * 2 ^ Suc n) (3600::int)"
    by (intro min.mono) simp_all
  then show ?thesis by (simp add: backoff_bounds, simp add: backoff_eq)
qed

section \<open>Leases\<close>

definition deliveries_ok :: "db \<Rightarrow> bool" where
  "deliveries_ok db \<longleftrightarrow> distinct (map d_id (deliveries db)) \<and> (\<forall>d \<in> set (deliveries db). d_id d < next_delivery db)"

definition claimed_ids :: "db \<Rightarrow> stamp \<Rightarrow> nat \<Rightarrow> row_id set" where
  "claimed_ids db now limit = d_id ` set (due_rows db now limit)"

lemma lease_fold:
  "foldl (\<lambda>b d. b\<lparr>deliveries := update_where (\<lambda>x. d_id x = d_id d)
       (d_next_attempt_at_update (\<lambda>_. lease)) (deliveries b)\<rparr>) db rows =
   db\<lparr>deliveries := update_where (\<lambda>x. d_id x \<in> d_id ` set rows) (d_next_attempt_at_update (\<lambda>_. lease)) (deliveries db)\<rparr>"
proof (induction rows arbitrary: db)
  case (Cons d rows)
  show ?case by (simp add: Cons) (auto simp: update_where_def)
qed (simp add: update_where_def)

lemma claim_effect:
  "snd (claim_due_webhook_deliveries now lease limit db) =
   db\<lparr>deliveries := update_where (\<lambda>x. d_id x \<in> claimed_ids db now limit)
        (d_next_attempt_at_update (\<lambda>_. lease)) (deliveries db)\<rparr>"
  by (simp add: claim_due_webhook_deliveries_def Let_def lease_fold claimed_ids_def)

lemma due_rows_due: "d \<in> set (due_rows db now limit) \<Longrightarrow> d \<in> set (deliveries db) \<and> is_due db now d"
  by (auto simp: due_rows_def dest: in_set_takeD)

definition held :: "stamp \<Rightarrow> row_id set \<Rightarrow> db \<Rightarrow> bool" where
  "held lease ids db \<longleftrightarrow> deliveries_ok db \<and> ids \<subseteq> d_id ` set (deliveries db) \<and>
     (\<forall>d \<in> set (deliveries db). d_id d \<in> ids \<longrightarrow> d_next_attempt_at d = lease \<and> d_status d \<in> {Pending, Failed})"

text \<open>What other passes, callers and the clean-up do meanwhile.\<close>

datatype delivery_op =
    OpClaim stamp stamp nat
  | OpRecord row_id stamp webhook_attempt_outcome stamp
  | OpReset row_id stamp
  | OpEvents "new_webhook_event list"
  | OpPurge stamp

fun run_delivery_op :: "delivery_op \<Rightarrow> db \<Rightarrow> row_id set \<times> db" where
  "run_delivery_op (OpClaim now lease limit) db =
     (claimed_ids db now limit, snd (claim_due_webhook_deliveries now lease limit db))"
| "run_delivery_op (OpRecord i now outcome lease) db = ({}, snd (record_webhook_attempt i now outcome lease db))"
| "run_delivery_op (OpReset i now) db = ({}, snd (reset_webhook_delivery i now db))"
| "run_delivery_op (OpEvents evs) db = ({}, insert_webhook_events evs db)"
| "run_delivery_op (OpPurge cutoff) db = ({}, snd (delete_old_webhook_data cutoff db))"

fun run_delivery_ops :: "delivery_op list \<Rightarrow> db \<Rightarrow> row_id set \<times> db" where
  "run_delivery_ops [] db = ({}, db)"
| "run_delivery_ops (op # ops) db =
     (let (ids, db1) = run_delivery_op op db; (ids', db2) = run_delivery_ops ops db1 in (ids \<union> ids', db2))"

text \<open>
  Steps before a lease ends: the clock of a claim and of a redelivery is before its
  end. Which rows had an outcome reported under the lease.
\<close>

fun before_lease :: "stamp \<Rightarrow> delivery_op \<Rightarrow> bool" where
  "before_lease lease (OpClaim now l limit) = (now < lease)"
| "before_lease lease (OpRecord i now outcome l) = True"
| "before_lease lease (OpReset i now) = (now < lease)"
| "before_lease lease (OpEvents evs) = True"
| "before_lease lease (OpPurge cutoff) = True"

fun reports :: "stamp \<Rightarrow> delivery_op \<Rightarrow> row_id set" where
  "reports lease (OpRecord i now outcome l) = (if l = lease then {i} else {})"
| "reports lease _ = {}"

definition reported :: "stamp \<Rightarrow> delivery_op list \<Rightarrow> row_id set" where
  "reported lease ops = (\<Union>op \<in> set ops. reports lease op)"

lemma d_id_apply_outcome [simp]: "d_id (apply_outcome now out d) = d_id d"
  by (simp add: apply_outcome_def split: prod.splits)

definition grown :: "db \<Rightarrow> db \<Rightarrow> bool" where
  "grown db db' \<longleftrightarrow> next_delivery db \<le> next_delivery db' \<and>
     (\<exists>new. deliveries db' = deliveries db @ new \<and> map d_id new = [next_delivery db..<next_delivery db'])"

lemma grown_refl: "grown db db"
  by (simp add: grown_def)

lemma grown_trans: "grown a b \<Longrightarrow> grown b c \<Longrightarrow> grown a c"
  unfolding grown_def by (metis (no_types, opaque_lifting) append.assoc le_trans map_append upt_add_eq_append le_Suc_ex)

lemma grown_insert_delivery: "grown db (insert_delivery ev hid db)"
  by (simp add: grown_def insert_delivery_def)

lemma grown_foldl: "(\<And>x b. grown b (f b x)) \<Longrightarrow> grown db (foldl f db xs)"
  by (induction xs arbitrary: db) (auto intro: grown_refl grown_trans)

lemma grown_write_outbox: "grown db (write_outbox evs db)"
proof -
  have "grown b (write_event ev b)" for ev b
  proof -
    have "grown (b\<lparr>outbox := outbox b @ [event_row ev]\<rparr>) (write_event ev b)"
      unfolding write_event_def by (rule grown_foldl) (rule grown_insert_delivery)
    then show ?thesis by (simp add: grown_def)
  qed
  then show ?thesis unfolding write_outbox_def by (intro grown_foldl)
qed

lemma deliveries_ok_grown: "grown db db' \<Longrightarrow> deliveries_ok db \<Longrightarrow> deliveries_ok db'"
  by (fastforce simp: grown_def deliveries_ok_def dest: map_eq_imp_length_eq arg_cong [of "map _ _" _ set])

lemma in_update_where: "e \<in> set (update_where p f rs) \<Longrightarrow> \<exists>r \<in> set rs. e = (if p r then f r else r)"
  by (auto simp: update_where_def simp del: if_image_distrib)

lemma held_update:
  assumes "held lease ids db" "\<And>d. d_id (f d) = d_id d"
    and "\<And>d. d \<in> set (deliveries db) \<Longrightarrow> d_id d \<in> ids \<Longrightarrow> \<not> p d"
  shows "held lease ids (db\<lparr>deliveries := update_where p f (deliveries db)\<rparr>)"
proof -
  have ids: "map d_id (update_where p f (deliveries db)) = map d_id (deliveries db)"
    by (rule map_update_where) (rule assms(2))
  then have "d_id ` set (update_where p f (deliveries db)) = d_id ` set (deliveries db)"
    by (metis list.set_map)
  moreover have "d_next_attempt_at e = lease \<and> d_status e \<in> {Pending, Failed}" "d_id e < next_delivery db"
    if "e \<in> set (update_where p f (deliveries db))" and "d_id e \<in> ids" for e
    using in_update_where [OF that(1)] that(2) assms unfolding held_def deliveries_ok_def
    by (auto split: if_splits)
  moreover have "d_id e < next_delivery db" if "e \<in> set (update_where p f (deliveries db))" for e
    using in_update_where [OF that(1)] assms unfolding held_def deliveries_ok_def by (auto split: if_splits)
  ultimately show ?thesis
    using assms(1) ids unfolding held_def deliveries_ok_def by auto
qed

lemma held_step:
  assumes "held lease ids db" "before_lease lease op" "reports lease op \<inter> ids = {}"
  shows "held lease ids (snd (run_delivery_op op db)) \<and> fst (run_delivery_op op db) \<inter> ids = {}"
proof (cases op)
  case (OpClaim now l limit)
  have "d_id d \<notin> ids" if "d \<in> set (due_rows db now limit)" for d
    using due_rows_due [OF that] assms OpClaim by (auto simp: held_def is_due_def)
  then have no: "claimed_ids db now limit \<inter> ids = {}" by (auto simp: claimed_ids_def)
  have "held lease ids (snd (claim_due_webhook_deliveries now l limit db))"
    unfolding claim_effect by (rule held_update) (use assms(1) no in auto)
  with no show ?thesis by (simp add: OpClaim)
next
  case (OpRecord i now out l)
  have "held lease ids (snd (record_webhook_attempt i now out l db))"
    unfolding record_webhook_attempt_def snd_conv
    by (rule held_update [OF assms(1)]) (use assms OpRecord in \<open>auto simp: held_def\<close>)
  then show ?thesis by (simp add: OpRecord)
next
  case (OpReset i now)
  have "held lease ids (snd (reset_webhook_delivery i now db))"
    unfolding reset_webhook_delivery_def snd_conv
    by (rule held_update [OF assms(1)]) (use assms OpReset in \<open>auto simp: held_def resettable_def\<close>)
  then show ?thesis by (simp add: OpReset)
next
  case (OpEvents evs)
  have "held lease ids (insert_webhook_events evs db)"
  proof (cases "evs = []")
    case False
    obtain new where new: "deliveries (write_outbox evs db) = deliveries db @ new"
      "map d_id new = [next_delivery db..<next_delivery (write_outbox evs db)]"
      using grown_write_outbox [of db evs] by (auto simp: grown_def)
    have "d_id e \<notin> ids" if "e \<in> set new" for e
    proof -
      have "d_id e \<in> set (map d_id new)" using that by auto
      then have "next_delivery db \<le> d_id e" unfolding new(2) by simp
      then show ?thesis using assms(1) by (force simp: held_def deliveries_ok_def)
    qed
    with new(1) assms(1) deliveries_ok_grown [OF grown_write_outbox] False show ?thesis
      by (auto simp: held_def insert_webhook_events_def)
  qed (use assms in \<open>simp add: insert_webhook_events_def\<close>)
  then show ?thesis by (simp add: OpEvents)
next
  case (OpPurge cutoff)
  have "held lease ids (snd (delete_old_webhook_data cutoff db))"
    using assms(1) unfolding held_def deliveries_ok_def
    by (auto simp: delete_old_webhook_data_def Let_def delete_where_def distinct_map_filter image_def) fastforce
  then show ?thesis by (simp add: OpPurge)
qed

lemma held_steps:
  assumes "held lease ids db" "list_all (before_lease lease) ops" "reported lease ops \<inter> ids = {}"
  shows "held lease ids (snd (run_delivery_ops ops db)) \<and> fst (run_delivery_ops ops db) \<inter> ids = {}"
  using assms
proof (induction ops arbitrary: db)
  case (Cons op ops)
  obtain x db1 where step: "run_delivery_op op db = (x, db1)" by fastforce
  with Cons.prems held_step [of lease ids db op] have "held lease ids db1" "x \<inter> ids = {}"
    by (auto simp: reported_def)
  then show ?case using Cons.IH [of db1] Cons.prems by (auto simp: step Let_def reported_def Int_Un_distrib2 split: prod.splits)
qed simp

lemma claim_held:
  assumes "deliveries_ok db"
  shows "held lease (claimed_ids db now limit) (snd (claim_due_webhook_deliveries now lease limit db))"
proof -
  let ?ids = "claimed_ids db now limit" and ?u = "d_next_attempt_at_update (\<lambda>_. lease)"
  let ?ds = "update_where (\<lambda>x. d_id x \<in> ?ids) ?u (deliveries db)"
  have ids: "map d_id ?ds = map d_id (deliveries db)" by (rule map_update_where) simp
  then have img: "d_id ` set ?ds = d_id ` set (deliveries db)" by (metis list.set_map)
  have "?ids \<subseteq> d_id ` set (deliveries db)"
    using due_rows_due by (fastforce simp: claimed_ids_def)
  moreover have st: "d_status d \<in> {Pending, Failed}" if d: "d \<in> set (deliveries db)" and "d_id d \<in> ?ids" for d
  proof -
    from \<open>d_id d \<in> ?ids\<close> obtain d' where "d' \<in> set (due_rows db now limit)" "d_id d' = d_id d"
      by (auto simp: claimed_ids_def)
    with d assms due_rows_due [OF this(1)] have "d' = d"
      by (auto simp: deliveries_ok_def distinct_map dest: inj_onD)
    with due_rows_due [OF \<open>d' \<in> _\<close>] show ?thesis by (simp add: is_due_def)
  qed
  moreover have "d_id e < next_delivery db" if "e \<in> set ?ds" for e
    using in_update_where [OF that] assms by (auto simp: deliveries_ok_def split: if_splits)
  moreover have "d_next_attempt_at e = lease \<and> d_status e \<in> {Pending, Failed}"
    if "e \<in> set ?ds" "d_id e \<in> ?ids" for e
  proof -
    from in_update_where [OF that(1)] obtain r where r: "r \<in> set (deliveries db)"
      "e = (if d_id r \<in> ?ids then ?u r else r)" by auto
    then have "d_id r \<in> ?ids" using that(2) by (auto split: if_splits)
    then show ?thesis using r st [of r] by simp
  qed
  ultimately show ?thesis
    using assms ids img unfolding claim_effect held_def deliveries_ok_def by simp
qed

lemma held_fewer: "held lease ids db \<Longrightarrow> ids' \<subseteq> ids \<Longrightarrow> held lease ids' db"
  by (auto simp: held_def)

text \<open>
  A failed attempt reported in time ends the hold before the lease does: the row then
  waits for its next attempt, and only until that instant.
\<close>

lemma failed_attempt_waits:
  assumes "held lease ids db" and "i \<in> ids" and "record_webhook_attempt i now (OutFailed code err next_at) lease db = (done, db1)"
    and "list_all (before_lease next_at) ops" and "i \<notin> reported next_at ops" and "run_delivery_ops ops db1 = (claimed, db2)"
  shows "i \<notin> claimed"
proof -
  have db1: "db1 = db\<lparr>deliveries := update_where (\<lambda>d. d_id d = i \<and> d_next_attempt_at d = lease) (apply_outcome now (OutFailed code err next_at)) (deliveries db)\<rparr>"
    using assms(3) by (simp add: record_webhook_attempt_def)
  have "held lease (ids - {i}) db1" unfolding db1
    by (rule held_update) (use assms(1) held_fewer in auto)
  then have ok: "deliveries_ok db1" by (simp add: held_def)
  have here: "d_next_attempt_at e = next_at \<and> d_status e = Failed" if "e \<in> set (deliveries db1)" "d_id e = i" for e
  proof -
    from that(1) obtain d where d: "d \<in> set (deliveries db)"
      "e = (if d_id d = i \<and> d_next_attempt_at d = lease then apply_outcome now (OutFailed code err next_at) d else d)"
      by (auto simp: db1 dest!: in_update_where)
    then have "d_id d = i" using that(2) by (auto split: if_splits)
    then have "d_next_attempt_at d = lease" using assms(1,2) d(1) by (auto simp: held_def)
    with d \<open>d_id d = i\<close> show ?thesis by (simp add: apply_outcome_def or_keep_def)
  qed
  have "map d_id (deliveries db1) = map d_id (deliveries db)" unfolding db1 by (simp add: map_update_where)
  then have "i \<in> d_id ` set (deliveries db1)" using assms(1,2) by (metis held_def list.set_map subsetD)
  with here ok have "held next_at {i} db1" by (auto simp: held_def)
  from held_steps [OF this assms(4)] assms(5,6) show ?thesis by auto
qed

text \<open>
  C38: A delivery is never in two hands. When a pass has claimed its rows under a
  lease, then whatever passes, manual redeliveries, new events, reports of outcomes
  and the clean-up do before that lease ends (the clocks of claims and redeliveries
  before its end), none of them claims one of those rows until an outcome was
  reported for that very row under the lease, no stale outcome and no redelivery
  touches it, and the pass's own outcome for it is still accepted. What ends the
  hold early is the holder's own report alone: after a failed attempt the row may be
  claimed again once its next attempt is due (\<open>failed_attempt_waits\<close>), which can
  be before the lease would have ended.
\<close>

theorem lease_is_exclusive:
  assumes "deliveries_ok db" "list_all (before_lease lease) ops"
    and "claim_due_webhook_deliveries now lease limit db = (due, db1)"
    and "run_delivery_ops ops db1 = (ids, db2)"
  shows "ids \<inter> ((d_id \<circ> du_delivery) ` set due - reported lease ops) = {} \<and>
    (\<forall>i \<in> (d_id \<circ> du_delivery) ` set due - reported lease ops.
       fst (record_webhook_attempt i at out lease db2) \<and>
       (\<exists>d \<in> set (deliveries db2). d_id d = i \<and> d_next_attempt_at d = lease \<and> d_status d \<in> {Pending, Failed}))"
proof -
  let ?mine = "claimed_ids db now limit - reported lease ops"
  have due: "(d_id \<circ> du_delivery) ` set due = claimed_ids db now limit"
    using assms(3) by (auto simp: claim_due_webhook_deliveries_def Let_def claimed_ids_def due_of_def image_image)
  have "held lease ?mine db1"
    using held_fewer [OF claim_held [OF assms(1), of lease now limit], of ?mine] assms(3) by simp
  from held_steps [OF this assms(2)] have held: "held lease ?mine db2" "ids \<inter> ?mine = {}"
    using assms(4) by auto
  have row: "\<exists>d \<in> set (deliveries db2). d_id d = i \<and> d_next_attempt_at d = lease \<and> d_status d \<in> {Pending, Failed}" if "i \<in> ?mine" for i
    using held(1) that by (force simp: held_def)
  then have "fst (record_webhook_attempt i at out lease db2)" if "i \<in> ?mine" for i
    using that by (fastforce simp: record_webhook_attempt_def exists_row_iff)
  with row held(2) show ?thesis unfolding due by blast
qed

section \<open>One attempt\<close>

lemma next_of_eq:
  assumes "min_utc (wk_time K) \<le> now" "now + 3600 \<le> max_utc (wk_time K)"
  shows "next_of K item now = now + backoff_secs (d_attempts (du_delivery item))"
  using assms backoff_bounds [of "d_attempts (du_delivery item)"]
  by (simp add: next_of_def after_def seconds_span_def time_delta_max_def i64_max_def)

definition occurred_within :: "worker_tools \<Rightarrow> due_delivery \<Rightarrow> int \<Rightarrow> int \<Rightarrow> bool" where
  "occurred_within K item occ now \<longleftrightarrow>
     parse_rfc3339 (wk_time K) (oe_occurred_at (du_event item)) = Some occ \<and>
     min_utc (wk_time K) \<le> occ \<and> occ + cutoff_secs \<le> max_utc (wk_time K) \<and>
     min_utc (wk_time K) \<le> now \<and> now + 3600 \<le> max_utc (wk_time K)"

lemma cutoff_of_eq: "occurred_within K item occ now \<Longrightarrow> cutoff_of K item now = occ + cutoff_secs"
  by (simp add: occurred_within_def cutoff_of_def after_def or_keep_def cutoff_secs_def)

text \<open>
  What one attempt may do. For a delivery whose event happened at
  \<open>occ\<close> (within the range of the clock): a request leaves only to a hook
  that is exempt or whose host the allow-list admits now, and only within 24
  hours of the event or for a manual redelivery; a retry is scheduled after the
  backoff and always before those 24 hours end; a success means the receiver
  answered 2xx; and after the 24 hours nothing is scheduled any more, and
  without a redelivery nothing is sent.
\<close>

lemma attempt_rules:
  assumes "occurred_within K item occ now" "attempt K item allowed base now = (outcome, sent)"
  shows "(\<forall>r. sent = Some r \<longrightarrow> rq_url r = h_url (du_hook item) \<and>
        (h_allow_list_exempt (du_hook item) \<or> host_allowed (wk_hooks K) (h_url (du_hook item)) allowed) \<and>
        (now < occ + cutoff_secs \<or> d_redelivered_at (du_delivery item) \<noteq> None)) \<and>
    (\<forall>code err at. outcome = OutFailed code err at \<longrightarrow>
        at = iso (wk_time K) (now + backoff_secs (d_attempts (du_delivery item))) \<and>
        now + backoff_secs (d_attempts (du_delivery item)) < occ + cutoff_secs) \<and>
    (\<forall>c. outcome = OutDelivered c \<longrightarrow> (\<exists>r. sent = Some r \<and> wk_send K r = Inr c) \<and> 200 \<le> c \<and> c < 300) \<and>
    (occ + cutoff_secs \<le> now \<longrightarrow> (\<forall>code err at. outcome \<noteq> OutFailed code err at) \<and>
        (d_redelivered_at (du_delivery item) = None \<longrightarrow> sent = None \<and> (\<exists>err. outcome = OutExpired err)))"
proof -
  let ?c = "cutoff_of K item now" and ?n = "next_of K item now"
  have c: "?c = occ + cutoff_secs" by (rule cutoff_of_eq [OF assms(1)])
  have n: "?n = now + backoff_secs (d_attempts (du_delivery item))" "now < ?n"
    using assms(1) next_of_eq backoff_bounds(1) [of "d_attempts (du_delivery item)"]
    by (auto simp: occurred_within_def)
  have fail: "fail_attempt K item now code err = OutDead code err \<and> ?c \<le> ?n \<or>
      fail_attempt K item now code err = OutFailed code err (iso (wk_time K) ?n) \<and> ?n < ?c" for code err
    by (auto simp: fail_attempt_def)
  let ?late = "?c \<le> now \<and> d_redelivered_at (du_delivery item) = None"
    and ?ok = "h_allow_list_exempt (du_hook item) \<or> host_allowed (wk_hooks K) (h_url (du_hook item)) allowed"
    and ?r = "build_request (wk_bodies K) item base now"
  consider (late) err where ?late "outcome = OutExpired err" "sent = None"
    | (blocked) err where "\<not> ?late" "outcome = fail_attempt K item now None err" "sent = None"
    | (good) code where "\<not> ?late" ?ok "sent = Some ?r" "wk_send K ?r = Inr code" "200 \<le> code" "code < 300"
        "outcome = OutDelivered code"
    | (bad) code err where "\<not> ?late" ?ok "sent = Some ?r" "outcome = fail_attempt K item now code err"
    using assms(2) unfolding attempt_def Let_def
    by (auto split: if_splits sum.splits)
  then show ?thesis
  proof cases
    case late
    then show ?thesis unfolding c by auto
  next
    case blocked
    then show ?thesis using fail [of None err] n unfolding c by auto
  next
    case good
    then show ?thesis unfolding c by (auto simp: build_request_def Let_def)
  next
    case bad
    then show ?thesis using fail [of code err] n unfolding c by (auto simp: build_request_def Let_def)
  qed
qed

section \<open>One pass\<close>

lemma record_effect:
  "snd (record_webhook_attempt i now out lease db) =
   db\<lparr>deliveries := update_where (\<lambda>d. d_id d = i \<and> d_next_attempt_at d = lease) (apply_outcome now out) (deliveries db)\<rparr>"
  by (simp add: record_webhook_attempt_def)

text \<open>The outcomes of a pass, recorded one after the other, are one update of the claimed rows.\<close>

lemma deliver_items:
  assumes "distinct (map (d_id \<circ> du_delivery) items)"
    and "\<forall>d \<in> set (deliveries b). d_id d \<in> (d_id \<circ> du_delivery) ` set items \<longrightarrow> d_next_attempt_at d = lease"
    and "foldl (deliver_item K allowed base now lease) (x, b) items = (x', b')"
  shows "deliveries b' = map (\<lambda>d. case find (\<lambda>it. d_id (du_delivery it) = d_id d) items of None \<Rightarrow> d
           | Some it \<Rightarrow> apply_outcome (iso (wk_time K) now) (fst (attempt K it allowed base now)) d) (deliveries b) \<and>
         b' = b\<lparr>deliveries := deliveries b'\<rparr> \<and>
         ps_delivered x' + ps_failed x' + ps_dead x' = ps_delivered x + ps_failed x + ps_dead x + length items"
  using assms
proof (induction items arbitrary: x b)
  case (Cons it items)
  let ?out = "fst (attempt K it allowed base now)" and ?i = "d_id (du_delivery it)"
  define b1 where "b1 = snd (record_webhook_attempt ?i (iso (wk_time K) now) ?out lease b)"
  define x1 where "x1 = count_outcome ?out x"
  have upd: "update_where (\<lambda>d. d_id d = ?i \<and> d_next_attempt_at d = lease) (apply_outcome (iso (wk_time K) now) ?out)
        (deliveries b) = update_where (\<lambda>d. d_id d = ?i) (apply_outcome (iso (wk_time K) now) ?out) (deliveries b)"
    using Cons.prems(2) by (auto simp: update_where_def)
  have b1: "b1 = b\<lparr>deliveries := update_where (\<lambda>d. d_id d = ?i) (apply_outcome (iso (wk_time K) now) ?out) (deliveries b)\<rparr>"
    by (simp add: b1_def record_effect upd)
  have fold: "foldl (deliver_item K allowed base now lease) (x1, b1) items = (x', b')"
  proof -
    have "deliver_item K allowed base now lease (x, b) it = (x1, b1)"
      by (simp add: deliver_item_def b1_def x1_def Let_def)
    with Cons.prems(3) show ?thesis by simp
  qed
  have "\<forall>d \<in> set (deliveries b1). d_id d \<in> (d_id \<circ> du_delivery) ` set items \<longrightarrow> d_next_attempt_at d = lease"
    using Cons.prems(1,2) unfolding b1 by (auto dest!: in_update_where split: if_splits)
  from Cons.IH [OF _ this fold] Cons.prems(1) have IH:
    "deliveries b' = map (\<lambda>d. case find (\<lambda>it. d_id (du_delivery it) = d_id d) items of None \<Rightarrow> d
       | Some it \<Rightarrow> apply_outcome (iso (wk_time K) now) (fst (attempt K it allowed base now)) d) (deliveries b1)"
    "b' = b1\<lparr>deliveries := deliveries b'\<rparr>"
    "ps_delivered x' + ps_failed x' + ps_dead x' = ps_delivered x1 + ps_failed x1 + ps_dead x1 + length items"
    by auto
  have "find (\<lambda>it'. d_id (du_delivery it') = ?i) items = None"
    using Cons.prems(1) by (simp add: find_None_not image_iff) metis
  then have "deliveries b' = map (\<lambda>d. case find (\<lambda>it. d_id (du_delivery it) = d_id d) (it # items) of None \<Rightarrow> d
       | Some it \<Rightarrow> apply_outcome (iso (wk_time K) now) (fst (attempt K it allowed base now)) d) (deliveries b)"
    unfolding IH(1) b1 by (auto simp: update_where_def)
  moreover have "b' = b\<lparr>deliveries := deliveries b'\<rparr>" using IH(2) by (simp add: b1)
  moreover have "ps_delivered x1 + ps_failed x1 + ps_dead x1 = ps_delivered x + ps_failed x + ps_dead x + 1"
    unfolding x1_def by (cases ?out) auto
  ultimately show ?case using IH(3) by simp
qed simp

definition pass_hosts :: "worker_tools \<Rightarrow> db \<Rightarrow> string list" where
  "pass_hosts K db = (case webhook_allowed_hosts (wk_hooks K) db of Inr a \<Rightarrow> a | Inl _ \<Rightarrow> [])"

definition pass_base :: "worker_tools \<Rightarrow> delivery_config \<Rightarrow> db \<Rightarrow> string option" where
  "pass_base K config db = (case resolve_base_url K db (cf_public_base_url config) of Inr b \<Rightarrow> b | Inl _ \<Rightarrow> None)"

definition pass_lease :: "worker_tools \<Rightarrow> delivery_config \<Rightarrow> int \<Rightarrow> stamp" where
  "pass_lease K config now = iso (wk_time K) (after (wk_time K) now (seconds_span (lease_secs config)))"

lemma due_rows_distinct: "deliveries_ok db \<Longrightarrow> distinct (map d_id (due_rows db now limit))"
proof -
  assume "deliveries_ok db"
  then have "distinct (map d_id (sort_key (\<lambda>d. (d_next_attempt_at d, d_id d)) (filter (is_due db now) (deliveries db))))"
    by (auto simp: deliveries_ok_def distinct_map intro: inj_on_subset)
  then show ?thesis by (simp add: due_rows_def flip: take_map)
qed

lemma settings_unchanged:
  "webhook_allowed_hosts W (db\<lparr>deliveries := ds\<rparr>) = webhook_allowed_hosts W db"
  "resolve_base_url K (db\<lparr>deliveries := ds\<rparr>) c = resolve_base_url K db c"
proof -
  have "get_setting (db\<lparr>deliveries := ds\<rparr>) = get_setting db" by (simp add: get_setting_def fun_eq_iff)
  then show "webhook_allowed_hosts W (db\<lparr>deliveries := ds\<rparr>) = webhook_allowed_hosts W db"
    "resolve_base_url K (db\<lparr>deliveries := ds\<rparr>) c = resolve_base_url K db c"
    by (simp_all only: webhook_allowed_hosts_def resolve_base_url_def)
qed

lemma due_row_same:
  assumes "deliveries_ok db" "d \<in> set (deliveries db)" "r \<in> set (due_rows db now limit)" "d_id r = d_id d"
  shows "r = d"
  using assms due_rows_due [OF assms(3)] by (auto simp: deliveries_ok_def distinct_map dest: inj_onD)

lemma find_of_map: "find p (map f xs) = map_option f (find (\<lambda>x. p (f x)) xs)"
  by (induction xs) auto

lemma find_due_of:
  assumes "deliveries_ok db" "d \<in> set (deliveries db)"
  shows "find (\<lambda>it. d_id (du_delivery it) = d_id d) (map (due_of db) (due_rows db now limit)) =
    (if d \<in> set (due_rows db now limit) then Some (due_of db d) else None)"
proof -
  have "find (\<lambda>r. d_id r = d_id d) (due_rows db now limit) = (if d \<in> set (due_rows db now limit) then Some d else None)"
  proof (cases "d \<in> set (due_rows db now limit)")
    case True
    then show ?thesis
      by (simp add: find_unique [where k = d_id, OF due_rows_distinct [OF assms(1)]])
  next
    case False
    then show ?thesis using due_row_same [OF assms] by (auto simp: find_None_iff)
  qed
  then show ?thesis by (simp add: find_of_map due_of_def)
qed

lemma claimed_iff:
  "deliveries_ok db \<Longrightarrow> d \<in> set (deliveries db) \<Longrightarrow> d_id d \<in> claimed_ids db now limit \<longleftrightarrow> d \<in> set (due_rows db now limit)"
  using due_row_same by (fastforce simp: claimed_ids_def)

lemma deliver_due_unfold:
  "deliver_due K config now db =
     (let rows = due_rows db (iso (wk_time K) now) (cf_batch_size config);
          db1 = db\<lparr>deliveries := update_where (\<lambda>x. d_id x \<in> claimed_ids db (iso (wk_time K) now) (cf_batch_size config))
            (d_next_attempt_at_update (\<lambda>_. pass_lease K config now)) (deliveries db)\<rparr>;
          zero = \<lparr>ps_delivered = 0, ps_failed = 0, ps_dead = 0\<rparr> in
      if rows = [] then (Inr zero, db1)
      else case webhook_allowed_hosts (wk_hooks K) db of
             Inl e \<Rightarrow> (Inl e, db1)
           | Inr allowed \<Rightarrow> (case resolve_base_url K db (cf_public_base_url config) of
                 Inl e \<Rightarrow> (Inl e, db1)
               | Inr base_url \<Rightarrow>
                   (case foldl (deliver_item K allowed base_url now (pass_lease K config now)) (zero, db1)
                      (map (due_of db) rows) of (x, db2) \<Rightarrow> (Inr x, db2))))"
proof -
  have claim: "claim_due_webhook_deliveries n l k db = (map (due_of db) (due_rows db n k),
      db\<lparr>deliveries := update_where (\<lambda>x. d_id x \<in> claimed_ids db n k) (d_next_attempt_at_update (\<lambda>_. l)) (deliveries db)\<rparr>)" for n l k
    using claim_effect [of n l k db] by (simp add: claim_due_webhook_deliveries_def Let_def)
  show ?thesis
    unfolding deliver_due_def pass_lease_def Let_def claim prod.case settings_unchanged map_is_Nil_conv by (rule refl)
qed

text \<open>
  C39: A pass that ends without error settles exactly the rows it claimed: at
  most a batch of the due deliveries, in order of their time, each with the
  outcome of one attempt made with the allow-list and base URL of that moment;
  no other delivery changes, and the summary counts each settled row once.
\<close>

theorem pass_settles_its_rows:
  assumes "deliveries_ok db" "deliver_due K config now db = (Inr x, db')"
  shows "ps_delivered x + ps_failed x + ps_dead x =
        length (due_rows db (iso (wk_time K) now) (cf_batch_size config)) \<and>
    deliveries db' = map (\<lambda>d. if d \<in> set (due_rows db (iso (wk_time K) now) (cf_batch_size config))
        then apply_outcome (iso (wk_time K) now)
               (fst (attempt K (due_of db d) (pass_hosts K db) (pass_base K config db) now))
               (d\<lparr>d_next_attempt_at := pass_lease K config now\<rparr>)
        else d) (deliveries db)"
proof -
  let ?now = "iso (wk_time K) now" and ?n = "cf_batch_size config" and ?l = "pass_lease K config now"
  let ?rows = "due_rows db ?now ?n" and ?ids = "claimed_ids db ?now ?n"
  let ?ds = "update_where (\<lambda>x. d_id x \<in> ?ids) (d_next_attempt_at_update (\<lambda>_. ?l)) (deliveries db)"
  let ?zero = "\<lparr>ps_delivered = 0, ps_failed = 0, ps_dead = 0\<rparr>"
  show ?thesis
  proof (cases "?rows = []")
    case True
    then have "?ds = deliveries db" by (simp add: claimed_ids_def update_where_def)
    then show ?thesis using assms(2) True by (auto simp: deliver_due_unfold)
  next
    case False
    let ?items = "map (due_of db) ?rows"
    have fold: "foldl (deliver_item K (pass_hosts K db) (pass_base K config db) now ?l) (?zero, db\<lparr>deliveries := ?ds\<rparr>)
        ?items = (x, db')"
      using assms(2) False
      by (auto simp: deliver_due_unfold Let_def pass_hosts_def pass_base_def split: sum.splits prod.splits)
    have "d_id \<circ> du_delivery \<circ> due_of db = d_id" by (simp add: due_of_def fun_eq_iff)
    then have "distinct (map (d_id \<circ> du_delivery) ?items)" "(d_id \<circ> du_delivery) ` set ?items = ?ids"
      using due_rows_distinct [OF assms(1)] by (simp_all add: claimed_ids_def image_image due_of_def)
    moreover have "\<forall>d \<in> set ?ds. d_id d \<in> ?ids \<longrightarrow> d_next_attempt_at d = ?l"
      by (auto simp: update_where_def)
    ultimately have res: "deliveries db' = map (\<lambda>d. case find (\<lambda>it. d_id (du_delivery it) = d_id d) ?items of None \<Rightarrow> d
           | Some it \<Rightarrow> apply_outcome ?now (fst (attempt K it (pass_hosts K db) (pass_base K config db) now)) d) ?ds"
      "ps_delivered x + ps_failed x + ps_dead x = length ?items"
      using deliver_items [OF _ _ fold] by auto
    have "deliveries db' = map (\<lambda>d. if d \<in> set ?rows
        then apply_outcome ?now (fst (attempt K (due_of db d) (pass_hosts K db) (pass_base K config db) now))
               (d\<lparr>d_next_attempt_at := ?l\<rparr>) else d) (deliveries db)"
      unfolding res(1) update_where_def
      by (auto simp: find_due_of [OF assms(1)] claimed_iff [OF assms(1)])
    with res(2) show ?thesis by simp
  qed
qed

section \<open>The theorems at work\<close>

definition sample_hook :: webhook where
  "sample_hook = \<lparr>h_id = 1, h_scope = GlobalScope, h_url = ''https://ci.corp/x'', h_format = JsonFormat,
     h_event_types = [], h_producer_glob = None, h_secret_hint = [], h_paused = False,
     h_allow_list_exempt = True, h_created_by = ''ann'', h_created_at = ''5'', h_secret = ''k''\<rparr>"

definition sample_event :: new_webhook_event where
  "sample_event = \<lparr>ev_id = ''e'', ev_type = TestEvent, ev_producer = None, ev_occurred_at = ''5'',
     ev_data = TestData 1, ev_hook_ids = [1]\<rparr>"

definition sample_queue :: db where
  "sample_queue = insert_webhook_events [sample_event] (empty_db\<lparr>webhooks := [sample_hook], next_webhook := 2\<rparr>)"

text \<open>One-digit instants, and a receiver that answers 204.\<close>

definition sample_worker :: worker_tools where
  "sample_worker =
     \<lparr>wk_time = \<lparr>iso = (\<lambda>t. show_nat (nat t)), parse_rfc3339 = (\<lambda>x. if x = ''5'' then Some 5 else None),
                 max_utc = 10 ^ 12, min_utc = 0\<rparr>,
      wk_hooks = sample_tools,
      wk_bodies = \<lparr>json_to_string = (\<lambda>_. ''{}''), form_encode = (\<lambda>x. x), hmac_sha256_hex = (\<lambda>k m. k @ m),
                   package_version = ''1'', wording = (\<lambda>_. [])\<rparr>,
      wk_send = (\<lambda>r. Inr 204), wk_oidc_redirect = (\<lambda>_. None), wk_url_port = (\<lambda>_. None)\<rparr>"

definition sample_config :: delivery_config where
  "sample_config = \<lparr>cf_public_base_url = None, cf_batch_size = 50, cf_delivery_timeout_secs = 10\<rparr>"

lemma sample_queue_ok: "deliveries_ok sample_queue"
  by code_simp

theorem lease_is_exclusive_witness:
  "fst (run_delivery_ops [OpClaim ''7'' ''8'' 9, OpReset 1 ''7'', OpRecord 1 ''7'' (OutDelivered 200) ''8'']
     (snd (claim_due_webhook_deliveries ''6'' ''9'' 50 sample_queue))) \<inter> {1} = {}"
proof -
  let ?ops = "[OpClaim ''7'' ''8'' 9, OpReset 1 ''7'', OpRecord 1 ''7'' (OutDelivered 200) ''8'']"
  let ?c = "claim_due_webhook_deliveries ''6'' ''9'' 50 sample_queue"
  have "list_all (before_lease ''9'') ?ops" by code_simp
  moreover have "(d_id \<circ> du_delivery) ` set (fst ?c) = {1}" "reported ''9'' ?ops = {}" by code_simp+
  ultimately show ?thesis
    using lease_is_exclusive [OF sample_queue_ok, of "''9''" ?ops "''6''" 50 "fst ?c" "snd ?c"
        "fst (run_delivery_ops ?ops (snd ?c))" "snd (run_delivery_ops ?ops (snd ?c))"] by simp
qed

lemma attempt_rules_witness:
  "\<exists>r. attempt sample_worker (due_of sample_queue (hd (deliveries sample_queue))) [] None 6 = (OutDelivered 204, Some r) \<and>
     rq_url r = ''https://ci.corp/x''"
proof -
  let ?it = "due_of sample_queue (hd (deliveries sample_queue))"
  have "occurred_within sample_worker ?it 5 6" by code_simp
  moreover obtain out sent where att: "attempt sample_worker ?it [] None 6 = (out, sent)" by fastforce
  moreover have "fst (attempt sample_worker ?it [] None 6) = OutDelivered 204 \<and>
      snd (attempt sample_worker ?it [] None 6) \<noteq> None \<and> h_url (du_hook ?it) = ''https://ci.corp/x''"
    by code_simp
  ultimately show ?thesis
    using attempt_rules [of sample_worker ?it 5 6 "[]" None out sent] by auto
qed

theorem pass_settles_its_rows_witness:
  "map (\<lambda>d. (d_status d, d_attempts d)) (deliveries (snd (deliver_due sample_worker sample_config 6 sample_queue))) =
     [(Delivered, 1)] \<and>
   length (due_rows sample_queue ''6'' 50) = 1"
proof -
  obtain x db' where r: "deliver_due sample_worker sample_config 6 sample_queue = (Inr x, db')"
    and x: "ps_delivered x = 1" "ps_failed x = 0" "ps_dead x = 0"
    and rows: "map (\<lambda>d. (d_status d, d_attempts d)) (deliveries db') = [(Delivered, 1)]"
  proof -
    have "(case deliver_due sample_worker sample_config 6 sample_queue of
        (Inr x, db') \<Rightarrow> ps_delivered x = 1 \<and> ps_failed x = 0 \<and> ps_dead x = 0 \<and>
           map (\<lambda>d. (d_status d, d_attempts d)) (deliveries db') = [(Delivered, 1)] | _ \<Rightarrow> False)"
      by code_simp
    then show ?thesis using that by (auto split: prod.splits sum.splits)
  qed
  have "iso (wk_time sample_worker) 6 = ''6''" "cf_batch_size sample_config = 50" by code_simp+
  with pass_settles_its_rows [OF sample_queue_ok r] x rows r show ?thesis by simp
qed

end
