(* ===== verification/Authz.thy ===== *)
theory Authz
  imports Permissions
begin

text \<open>
  Roles, groups and maintainers: \<open>src/src/application/authz.rs\<close>,
  \<open>directory_roles.rs\<close> and \<open>admin_delete_user\<close> of \<open>auth_service.rs\<close>, over the
  tables \<open>users\<close>, \<open>user_roles\<close>, \<open>user_groups\<close>, \<open>user_group_members\<close>,
  \<open>user_group_roles\<close> and the two maintainer tables. A table of pairs is the
  list of its rows; \<open>next_group\<close> is the AUTOINCREMENT counter. Breaking a
  foreign key or a unique index answers \<open>RepoInternal\<close>.

  An operation answers an error, with nothing written, or its answer and the
  new tables.
\<close>

section \<open>Tables\<close>

record group =
  g_id :: row_id
  g_name :: string
  g_source :: group_source

record auth_db =
  users :: "(row_id \<times> string) list"
  user_roles :: "(row_id \<times> string) list"
  groups :: "group list"
  next_group :: row_id
  group_members :: "(row_id \<times> row_id) list"
  group_roles :: "(row_id \<times> string) list"
  user_maintainers :: "(row_id \<times> row_id) list"
  group_maintainers :: "(row_id \<times> row_id) list"
  auth_services :: "(row_id \<times> string) list"

definition insert_or_ignore :: "'r \<Rightarrow> 'r list \<Rightarrow> 'r list" where
  "insert_or_ignore r rs = (if r \<in> set rs then rs else rs @ [r])"

lemma set_insert_or_ignore [sql]: "set (insert_or_ignore r rs) = insert r (set rs)"
  by (auto simp: insert_or_ignore_def)

lemma distinct_insert_or_ignore: "distinct rs \<Longrightarrow> distinct (insert_or_ignore r rs)"
  by (simp add: insert_or_ignore_def)

abbreviation foreign_key_failed :: repository_error where
  "foreign_key_failed \<equiv> RepoInternal ''FOREIGN KEY constraint failed''"

definition find_service_id :: "auth_db \<Rightarrow> string \<Rightarrow> row_id option" where
  "find_service_id db name = map_option fst (find (\<lambda>s. snd s = name) (auth_services db))"

section \<open>Repository operations\<close>

definition repo_grant_user_role :: "row_id \<Rightarrow> string \<Rightarrow> auth_db \<Rightarrow> repository_error + unit \<times> auth_db" where
  "repo_grant_user_role uid r db =
     (if uid \<notin> fst ` set (users db) then Inl foreign_key_failed
      else Inr ((), db\<lparr>user_roles := insert_or_ignore (uid, r) (user_roles db)\<rparr>))"

definition repo_revoke_user_role :: "row_id \<Rightarrow> string \<Rightarrow> auth_db \<Rightarrow> bool \<times> auth_db" where
  "repo_revoke_user_role uid r db =
     (exists_row (\<lambda>x. x = (uid, r)) (user_roles db),
      db\<lparr>user_roles := delete_where (\<lambda>x. x = (uid, r)) (user_roles db)\<rparr>)"

definition list_user_roles :: "auth_db \<Rightarrow> row_id \<Rightarrow> string list" where
  "list_user_roles db uid = sort (map snd (filter (\<lambda>x. fst x = uid) (user_roles db)))"

definition effective_stored_roles :: "auth_db \<Rightarrow> row_id \<Rightarrow> string list" where
  "effective_stored_roles db uid =
     sort (remdups
       (map snd (filter (\<lambda>x. fst x = uid) (user_roles db)) @
        map snd (filter (\<lambda>gr. (fst gr, uid) \<in> set (group_members db)) (group_roles db))))"

definition list_groups :: "auth_db \<Rightarrow> group list" where
  "list_groups db = sort_key (\<lambda>g. (group_source_as_str (g_source g), g_name g)) (groups db)"

definition repo_create_group :: "string \<Rightarrow> group_source \<Rightarrow> auth_db \<Rightarrow> group \<times> auth_db" where
  "repo_create_group nm src db =
     (case find (\<lambda>g. g_name g = nm \<and> g_source g = src) (groups db) of
        Some g \<Rightarrow> (\<lparr>g_id = g_id g, g_name = nm, g_source = src\<rparr>, db)
      | None \<Rightarrow>
          (let g = \<lparr>g_id = next_group db, g_name = nm, g_source = src\<rparr> in
           (g, db\<lparr>groups := groups db @ [g], next_group := Suc (next_group db)\<rparr>)))"

definition repo_rename_group :: "row_id \<Rightarrow> string \<Rightarrow> auth_db \<Rightarrow> repository_error + bool \<times> auth_db" where
  "repo_rename_group gid nm db =
     (case find (\<lambda>g. g_id g = gid) (groups db) of
        None \<Rightarrow> Inr (False, db)
      | Some g \<Rightarrow>
          if exists_row (\<lambda>h. g_id h \<noteq> gid \<and> g_name h = nm \<and> g_source h = g_source g) (groups db)
          then Inl (RepoInternal ''UNIQUE constraint failed: user_groups.name, user_groups.source'')
          else Inr (True, db\<lparr>groups := update_where (\<lambda>h. g_id h = gid) (g_name_update (\<lambda>_. nm)) (groups db)\<rparr>))"

definition repo_delete_group :: "row_id \<Rightarrow> auth_db \<Rightarrow> bool \<times> auth_db" where
  "repo_delete_group gid db =
     (exists_row (\<lambda>g. g_id g = gid) (groups db),
      db\<lparr>group_members := delete_where (\<lambda>x. fst x = gid) (group_members db),
         group_roles := delete_where (\<lambda>x. fst x = gid) (group_roles db),
         groups := delete_where (\<lambda>g. g_id g = gid) (groups db),
         group_maintainers := delete_where (\<lambda>x. snd x = gid) (group_maintainers db)\<rparr>)"

definition list_group_roles :: "auth_db \<Rightarrow> row_id \<Rightarrow> string list" where
  "list_group_roles db gid = sort (map snd (filter (\<lambda>x. fst x = gid) (group_roles db)))"

definition repo_set_group_roles :: "row_id \<Rightarrow> string list \<Rightarrow> auth_db \<Rightarrow> repository_error + unit \<times> auth_db" where
  "repo_set_group_roles gid rs db =
     (if rs \<noteq> [] \<and> gid \<notin> g_id ` set (groups db) then Inl foreign_key_failed
      else Inr ((), db\<lparr>group_roles :=
             foldl (\<lambda>t r. insert_or_ignore (gid, r) t)
               (delete_where (\<lambda>x. fst x = gid) (group_roles db)) rs\<rparr>))"

definition repo_add_group_member :: "row_id \<Rightarrow> row_id \<Rightarrow> auth_db \<Rightarrow> repository_error + unit \<times> auth_db" where
  "repo_add_group_member gid uid db =
     (if gid \<notin> g_id ` set (groups db) \<or> uid \<notin> fst ` set (users db) then Inl foreign_key_failed
      else Inr ((), db\<lparr>group_members := insert_or_ignore (gid, uid) (group_members db)\<rparr>))"

definition repo_remove_group_member :: "row_id \<Rightarrow> row_id \<Rightarrow> auth_db \<Rightarrow> bool \<times> auth_db" where
  "repo_remove_group_member gid uid db =
     (exists_row (\<lambda>x. x = (gid, uid)) (group_members db),
      db\<lparr>group_members := delete_where (\<lambda>x. x = (gid, uid)) (group_members db)\<rparr>)"

definition list_group_member_ids :: "auth_db \<Rightarrow> row_id \<Rightarrow> row_id list" where
  "list_group_member_ids db gid = sort (map snd (filter (\<lambda>x. fst x = gid) (group_members db)))"

definition repo_add_user_maintainer :: "row_id \<Rightarrow> row_id \<Rightarrow> auth_db \<Rightarrow> repository_error + unit \<times> auth_db" where
  "repo_add_user_maintainer sid uid db =
     (if sid \<notin> fst ` set (auth_services db) \<or> uid \<notin> fst ` set (users db) then Inl foreign_key_failed
      else Inr ((), db\<lparr>user_maintainers := insert_or_ignore (sid, uid) (user_maintainers db)\<rparr>))"

definition repo_remove_user_maintainer :: "row_id \<Rightarrow> row_id \<Rightarrow> auth_db \<Rightarrow> bool \<times> auth_db" where
  "repo_remove_user_maintainer sid uid db =
     (exists_row (\<lambda>x. x = (sid, uid)) (user_maintainers db),
      db\<lparr>user_maintainers := delete_where (\<lambda>x. x = (sid, uid)) (user_maintainers db)\<rparr>)"

definition repo_add_group_maintainer :: "row_id \<Rightarrow> row_id \<Rightarrow> auth_db \<Rightarrow> repository_error + unit \<times> auth_db" where
  "repo_add_group_maintainer sid gid db =
     (if sid \<notin> fst ` set (auth_services db) \<or> gid \<notin> g_id ` set (groups db) then Inl foreign_key_failed
      else Inr ((), db\<lparr>group_maintainers := insert_or_ignore (sid, gid) (group_maintainers db)\<rparr>))"

definition repo_remove_group_maintainer :: "row_id \<Rightarrow> row_id \<Rightarrow> auth_db \<Rightarrow> bool \<times> auth_db" where
  "repo_remove_group_maintainer sid gid db =
     (exists_row (\<lambda>x. x = (sid, gid)) (group_maintainers db),
      db\<lparr>group_maintainers := delete_where (\<lambda>x. x = (sid, gid)) (group_maintainers db)\<rparr>)"

definition list_user_maintainer_ids :: "auth_db \<Rightarrow> row_id \<Rightarrow> row_id list" where
  "list_user_maintainer_ids db sid = sort (map snd (filter (\<lambda>x. fst x = sid) (user_maintainers db)))"

definition list_group_maintainer_ids :: "auth_db \<Rightarrow> row_id \<Rightarrow> row_id list" where
  "list_group_maintainer_ids db sid = sort (map snd (filter (\<lambda>x. fst x = sid) (group_maintainers db)))"

definition repo_maintains_producer :: "auth_db \<Rightarrow> row_id \<Rightarrow> row_id \<Rightarrow> bool" where
  "repo_maintains_producer db uid sid \<longleftrightarrow>
     exists_row (\<lambda>x. x = (sid, uid)) (user_maintainers db) \<or>
     exists_row (\<lambda>x. fst x = sid \<and> (snd x, uid) \<in> set (group_members db)) (group_maintainers db)"

definition list_maintained_producers :: "auth_db \<Rightarrow> row_id \<Rightarrow> string list" where
  "list_maintained_producers db uid =
     sort (remdups (map snd (filter (\<lambda>s. repo_maintains_producer db uid (fst s)) (auth_services db))))"

definition list_group_maintained_producers :: "auth_db \<Rightarrow> row_id list \<Rightarrow> string list" where
  "list_group_maintained_producers db gids =
     sort (remdups (map snd (filter (\<lambda>s. \<exists>g \<in> set gids. (fst s, g) \<in> set (group_maintainers db))
       (auth_services db))))"

text \<open>Deleting a user cascades to every table that references it.\<close>

definition repo_delete_user :: "row_id \<Rightarrow> auth_db \<Rightarrow> bool \<times> auth_db" where
  "repo_delete_user uid db =
     (exists_row (\<lambda>u. fst u = uid) (users db),
      db\<lparr>users := delete_where (\<lambda>u. fst u = uid) (users db),
         user_roles := delete_where (\<lambda>x. fst x = uid) (user_roles db),
         group_members := delete_where (\<lambda>x. snd x = uid) (group_members db),
         user_maintainers := delete_where (\<lambda>x. snd x = uid) (user_maintainers db)\<rparr>)"

section \<open>Roles of a caller\<close>

fun collect_roles :: "auth_db \<Rightarrow> string list \<Rightarrow> group list \<Rightarrow> string list \<Rightarrow> string list" where
  "collect_roles db names [] acc = acc"
| "collect_roles db names (g # gs) acc =
     (if g_source g \<noteq> LdapGroup \<or> g_name g \<notin> set names then collect_roles db names gs acc
      else collect_roles db names gs
             (foldl (\<lambda>rs r. if r \<in> set rs then rs else rs @ [r]) acc (list_group_roles db (g_id g))))"

definition roles_from_directory :: "auth_db \<Rightarrow> string list \<Rightarrow> string list" where
  "roles_from_directory db names =
     (if names = [] then [] else sort (collect_roles db names (list_groups db) []))"

definition resolve_actor :: "auth_db \<Rightarrow> row_id \<times> string \<Rightarrow> string set \<Rightarrow> string list \<Rightarrow> actor" where
  "resolve_actor db user root_users directory_groups =
     (let stored = effective_stored_roles db (fst user);
          from_directory = roles_from_directory db directory_groups;
          roles = remdups_adj (sort (List.map_filter role_parse (stored @ from_directory)))
      in \<lparr>a_user_id = fst user, a_username = snd user, a_is_root = snd user \<in> root_users,
          a_roles = roles, a_directory_groups = directory_groups\<rparr>)"

section \<open>Guards\<close>

definition is_admin :: "actor option \<Rightarrow> bool" where
  "is_admin a = (case a of None \<Rightarrow> False | Some x \<Rightarrow> a_is_root x \<or> Admin \<in> set (a_roles x))"

definition require_admin_for_guarded_roles :: "actor option \<Rightarrow> string list \<Rightarrow> app_error + unit" where
  "require_admin_for_guarded_roles a roles =
     (if \<not> list_ex (\<lambda>g. role_as_str g \<in> set roles) admin_guarded then Inr ()
      else if is_admin a then Inr () else Inl Forbidden)"

definition guarded_of :: "string list \<Rightarrow> string list" where
  "guarded_of rs = filter (\<lambda>r. list_ex (\<lambda>g. role_as_str g = r) admin_guarded) rs"

definition require_admin_for_guarded_group :: "auth_db \<Rightarrow> actor option \<Rightarrow> row_id \<Rightarrow> app_error + unit" where
  "require_admin_for_guarded_group db a gid =
     require_admin_for_guarded_roles a (guarded_of (list_group_roles db gid))"

definition require_admin_to_delete_user ::
    "auth_db \<Rightarrow> string set \<Rightarrow> actor option \<Rightarrow> row_id \<Rightarrow> app_error + unit" where
  "require_admin_to_delete_user db root_users a uid =
     (if exists_row (\<lambda>u. fst u = uid \<and> snd u \<in> root_users) (users db)
      then require_admin_for_guarded_roles a [role_as_str Admin]
      else require_admin_for_guarded_roles a (guarded_of (effective_stored_roles db uid)))"

definition unknown_role :: "string \<Rightarrow> message" where
  "unknown_role r = Text ''Unknown role'' [S r, S (join '', '' (map role_as_str all_roles))]"

definition parse_grantable_role :: "string \<Rightarrow> app_error + role" where
  "parse_grantable_role r =
     (case role_parse r of
        None \<Rightarrow> Inl (BadRequest (unknown_role r))
      | Some p \<Rightarrow> if p \<notin> set globally_grantable
                  then Inl (BadRequest (Text ''role is scoped to specific Producers'' [S (role_as_str p)]))
                  else Inr p)"

fun parse_grantable_roles :: "string list \<Rightarrow> app_error + string list" where
  "parse_grantable_roles [] = Inr []"
| "parse_grantable_roles (r # rs) =
     (case parse_grantable_role r of Inl e \<Rightarrow> Inl e
      | Inr p \<Rightarrow> (case parse_grantable_roles rs of Inl e \<Rightarrow> Inl e | Inr ps \<Rightarrow> Inr (role_as_str p # ps)))"

definition validate_group_name :: "string \<Rightarrow> app_error + string" where
  "validate_group_name n =
     (if trim n = [] then Inl (BadRequest (Text ''Group name must not be empty'' [])) else Inr (trim n))"

definition require_group :: "auth_db \<Rightarrow> row_id \<Rightarrow> app_error + group" where
  "require_group db gid =
     (case find (\<lambda>g. g_id g = gid) (list_groups db) of
        None \<Rightarrow> Inl (NotFound (Text ''Group not found'' [N gid]))
      | Some g \<Rightarrow> Inr g)"

definition require_native_group :: "auth_db \<Rightarrow> row_id \<Rightarrow> app_error + group" where
  "require_native_group db gid =
     (case require_group db gid of Inl e \<Rightarrow> Inl e
      | Inr g \<Rightarrow> if g_source g \<noteq> NativeGroup
                then Inl (BadRequest (Text ''Group comes from the directory'' [S (g_name g)]))
                else Inr g)"

definition require_producer :: "auth_db \<Rightarrow> string \<Rightarrow> app_error + row_id" where
  "require_producer db p =
     (case find_service_id db p of
        None \<Rightarrow> Inl (NotFound (Text ''Producer not found'' [S p]))
      | Some sid \<Rightarrow> Inr sid)"

section \<open>Operations\<close>

definition grant_user_role :: "actor option \<Rightarrow> row_id \<Rightarrow> string \<Rightarrow> auth_db \<Rightarrow> app_error + unit \<times> auth_db" where
  "grant_user_role a uid r db =
     and_then (parse_grantable_role r) (\<lambda>p.
     and_then (require_admin_for_guarded_roles a [role_as_str p]) (\<lambda>_.
     map_err app_error_from (repo_grant_user_role uid (role_as_str p) db)))"

definition revoke_user_role :: "actor option \<Rightarrow> row_id \<Rightarrow> string \<Rightarrow> auth_db \<Rightarrow> app_error + bool \<times> auth_db" where
  "revoke_user_role a uid r db =
     (case role_parse r of
        None \<Rightarrow> Inl (BadRequest (unknown_role r))
      | Some p \<Rightarrow>
          and_then (require_admin_for_guarded_roles a [role_as_str p]) (\<lambda>_.
          Inr (repo_revoke_user_role uid (role_as_str p) db)))"

definition add_directory_group :: "string \<Rightarrow> auth_db \<Rightarrow> app_error + group \<times> auth_db" where
  "add_directory_group raw db =
     (let dn = trim raw in
      if dn = [] then Inl (BadRequest (Text ''a directory group needs its DN'' []))
      else case find (\<lambda>g. g_source g = LdapGroup \<and> to_lowercase (g_name g) = to_lowercase dn)
                  (list_groups db) of
             Some g \<Rightarrow> Inr (g, db)
           | None \<Rightarrow> Inr (repo_create_group dn LdapGroup db))"

definition create_native_group :: "string \<Rightarrow> auth_db \<Rightarrow> app_error + group \<times> auth_db" where
  "create_native_group nm db =
     and_then (validate_group_name nm) (\<lambda>n. Inr (repo_create_group n NativeGroup db))"

definition rename_group :: "row_id \<Rightarrow> string \<Rightarrow> auth_db \<Rightarrow> app_error + unit \<times> auth_db" where
  "rename_group gid nm db =
     and_then (require_group db gid) (\<lambda>g.
     if g_source g \<noteq> NativeGroup
     then Inl (BadRequest (Text ''Only own groups can be renamed'' []))
     else and_then (validate_group_name nm) (\<lambda>n.
          and_then (map_err app_error_from (repo_rename_group gid n db)) (\<lambda>(_, db'). Inr ((), db'))))"

definition delete_group :: "actor option \<Rightarrow> row_id \<Rightarrow> auth_db \<Rightarrow> app_error + bool \<times> auth_db" where
  "delete_group a gid db =
     and_then (require_admin_for_guarded_group db a gid) (\<lambda>_. Inr (repo_delete_group gid db))"

definition set_group_roles :: "actor option \<Rightarrow> row_id \<Rightarrow> string list \<Rightarrow> auth_db \<Rightarrow> app_error + unit \<times> auth_db" where
  "set_group_roles a gid roles db =
     and_then (require_group db gid) (\<lambda>_.
     and_then (parse_grantable_roles roles) (\<lambda>ps.
     let parsed = remdups_adj (sort ps);
         current = list_group_roles db gid;
         touched = map role_as_str (filter (\<lambda>g.
           (role_as_str g \<in> set parsed) \<noteq> (role_as_str g \<in> set current)) admin_guarded) in
     and_then (require_admin_for_guarded_roles a touched) (\<lambda>_.
     map_err app_error_from (repo_set_group_roles gid parsed db))))"

definition add_group_member :: "actor option \<Rightarrow> row_id \<Rightarrow> row_id \<Rightarrow> auth_db \<Rightarrow> app_error + unit \<times> auth_db" where
  "add_group_member a gid uid db =
     and_then (require_native_group db gid) (\<lambda>g.
     and_then (require_admin_for_guarded_group db a (g_id g)) (\<lambda>_.
     map_err app_error_from (repo_add_group_member (g_id g) uid db)))"

definition remove_group_member :: "actor option \<Rightarrow> row_id \<Rightarrow> row_id \<Rightarrow> auth_db \<Rightarrow> app_error + bool \<times> auth_db" where
  "remove_group_member a gid uid db =
     and_then (require_native_group db gid) (\<lambda>g.
     and_then (require_admin_for_guarded_group db a (g_id g)) (\<lambda>_.
     Inr (repo_remove_group_member (g_id g) uid db)))"

definition admin_delete_user ::
    "string set \<Rightarrow> actor option \<Rightarrow> row_id \<Rightarrow> auth_db \<Rightarrow> app_error + bool \<times> auth_db" where
  "admin_delete_user root_users a uid db =
     and_then (require_admin_to_delete_user db root_users a uid) (\<lambda>_. Inr (repo_delete_user uid db))"

definition assign_user_maintainer :: "string \<Rightarrow> row_id \<Rightarrow> auth_db \<Rightarrow> app_error + unit \<times> auth_db" where
  "assign_user_maintainer p uid db =
     and_then (require_producer db p) (\<lambda>sid. map_err app_error_from (repo_add_user_maintainer sid uid db))"

definition unassign_user_maintainer :: "string \<Rightarrow> row_id \<Rightarrow> auth_db \<Rightarrow> app_error + bool \<times> auth_db" where
  "unassign_user_maintainer p uid db =
     and_then (require_producer db p) (\<lambda>sid. Inr (repo_remove_user_maintainer sid uid db))"

definition assign_group_maintainer :: "string \<Rightarrow> row_id \<Rightarrow> auth_db \<Rightarrow> app_error + unit \<times> auth_db" where
  "assign_group_maintainer p gid db =
     and_then (require_producer db p) (\<lambda>sid.
     and_then (require_group db gid) (\<lambda>_.
     map_err app_error_from (repo_add_group_maintainer sid gid db)))"

definition unassign_group_maintainer :: "string \<Rightarrow> row_id \<Rightarrow> auth_db \<Rightarrow> app_error + bool \<times> auth_db" where
  "unassign_group_maintainer p gid db =
     and_then (require_producer db p) (\<lambda>sid. Inr (repo_remove_group_maintainer sid gid db))"

section \<open>Producer-scoped authorisation\<close>

definition directory_maintainer_group_ids :: "auth_db \<Rightarrow> actor \<Rightarrow> row_id list" where
  "directory_maintainer_group_ids db a =
     (if a_directory_groups a = [] then []
      else map g_id (filter (\<lambda>g. g_source g = LdapGroup \<and> g_name g \<in> set (a_directory_groups a))
             (list_groups db)))"

definition maintains_producer :: "auth_db \<Rightarrow> actor \<Rightarrow> string \<Rightarrow> bool" where
  "maintains_producer db a p =
     (if a_is_root a then True
      else case find_service_id db p of
        None \<Rightarrow> False
      | Some sid \<Rightarrow>
          if repo_maintains_producer db (a_user_id a) sid then True
          else (let ids = directory_maintainer_group_ids db a in
            if ids = [] then False
            else list_ex (\<lambda>i. i \<in> set ids) (list_group_maintainer_ids db sid)))"

definition require_producer_permission :: "auth_db \<Rightarrow> actor \<Rightarrow> permission \<Rightarrow> string \<Rightarrow> app_error + unit" where
  "require_producer_permission db a perm p =
     (if has_permission a perm then Inr ()
      else if grants Maintainer perm \<and> maintains_producer db a p then Inr ()
      else Inl Forbidden)"

definition maintained_producers_for_actor :: "auth_db \<Rightarrow> actor \<Rightarrow> string list" where
  "maintained_producers_for_actor db a =
     (let producers = list_maintained_producers db (a_user_id a);
          ids = directory_maintainer_group_ids db a in
      if ids = [] then producers
      else sort (foldl (\<lambda>ps p. if p \<in> set ps then ps else ps @ [p]) producers
                  (list_group_maintained_producers db ids)))"

section \<open>The operations as one state machine\<close>

datatype auth_op =
    GrantUserRole row_id string
  | RevokeUserRole row_id string
  | AddDirectoryGroup string
  | CreateNativeGroup string
  | RenameGroup row_id string
  | DeleteGroup row_id
  | SetGroupRoles row_id "string list"
  | AddGroupMember row_id row_id
  | RemoveGroupMember row_id row_id
  | AdminDeleteUser "string set" row_id
  | AssignUserMaintainer string row_id
  | UnassignUserMaintainer string row_id
  | AssignGroupMaintainer string row_id
  | UnassignGroupMaintainer string row_id

definition written :: "auth_db \<Rightarrow> app_error + 'a \<times> auth_db \<Rightarrow> auth_db" where
  "written db r = (case r of Inl _ \<Rightarrow> db | Inr (_, db') \<Rightarrow> db')"

fun run_auth :: "actor option \<Rightarrow> auth_op \<Rightarrow> auth_db \<Rightarrow> auth_db" where
  "run_auth a (GrantUserRole u r) db = written db (grant_user_role a u r db)"
| "run_auth a (RevokeUserRole u r) db = written db (revoke_user_role a u r db)"
| "run_auth a (AddDirectoryGroup n) db = written db (add_directory_group n db)"
| "run_auth a (CreateNativeGroup n) db = written db (create_native_group n db)"
| "run_auth a (RenameGroup g n) db = written db (rename_group g n db)"
| "run_auth a (DeleteGroup g) db = written db (delete_group a g db)"
| "run_auth a (SetGroupRoles g rs) db = written db (set_group_roles a g rs db)"
| "run_auth a (AddGroupMember g u) db = written db (add_group_member a g u db)"
| "run_auth a (RemoveGroupMember g u) db = written db (remove_group_member a g u db)"
| "run_auth a (AdminDeleteUser roots u) db = written db (admin_delete_user roots a u db)"
| "run_auth a (AssignUserMaintainer p u) db = written db (assign_user_maintainer p u db)"
| "run_auth a (UnassignUserMaintainer p u) db = written db (unassign_user_maintainer p u db)"
| "run_auth a (AssignGroupMaintainer p g) db = written db (assign_group_maintainer p g db)"
| "run_auth a (UnassignGroupMaintainer p g) db = written db (unassign_group_maintainer p g db)"

text \<open>States reachable by operations of callers that satisfy a condition.\<close>

inductive auth_reaches :: "(actor option \<Rightarrow> bool) \<Rightarrow> auth_db \<Rightarrow> auth_db \<Rightarrow> bool"
  for by_caller :: "actor option \<Rightarrow> bool" and db :: auth_db where
  start: "auth_reaches by_caller db db"
| step: "auth_reaches by_caller db db' \<Longrightarrow> by_caller a \<Longrightarrow> auth_reaches by_caller db (run_auth a op db')"

section \<open>Well-formed tables\<close>

definition grantable_names :: "string set" where
  "grantable_names = role_as_str ` set globally_grantable"

definition auth_inv :: "auth_db \<Rightarrow> bool" where
  "auth_inv db \<longleftrightarrow>
     (\<forall>g \<in> set (groups db). g_id g < next_group db) \<and>
     (\<forall>(g, u) \<in> set (group_members db). g \<in> g_id ` set (groups db)) \<and>
     (\<forall>(g, r) \<in> set (group_roles db). g \<in> g_id ` set (groups db) \<and> r \<in> grantable_names) \<and>
     (\<forall>(u, r) \<in> set (user_roles db). r \<in> grantable_names) \<and>
     distinct (map g_id (groups db))"

definition guarded_names :: "string set" where
  "guarded_names = role_as_str ` set admin_guarded"

text \<open>Who holds a guarded role: directly or as a stored member, and which directory groups confer one.\<close>

definition stored_guarded :: "auth_db \<Rightarrow> (row_id \<times> string) set" where
  "stored_guarded db = {(u, r). r \<in> guarded_names \<and>
     ((u, r) \<in> set (user_roles db) \<or> (\<exists>g. (g, u) \<in> set (group_members db) \<and> (g, r) \<in> set (group_roles db)))}"

definition directory_guarded :: "auth_db \<Rightarrow> (string \<times> string) set" where
  "directory_guarded db = {(n, r). r \<in> guarded_names \<and>
     (\<exists>g \<in> set (groups db). g_source g = LdapGroup \<and> g_name g = n \<and> (g_id g, r) \<in> set (group_roles db))}"

definition same_guarded :: "auth_db \<Rightarrow> auth_db \<Rightarrow> bool" where
  "same_guarded db db' \<longleftrightarrow> stored_guarded db' = stored_guarded db \<and> directory_guarded db' = directory_guarded db"

lemma set_list_groups [simp]: "set (list_groups db) = set (groups db)"
  by (simp add: list_groups_def)

lemma set_list_group_roles: "set (list_group_roles db g) = {r. (g, r) \<in> set (group_roles db)}"
  by (force simp: list_group_roles_def)

lemma set_effective_stored_roles:
  "set (effective_stored_roles db u) =
     {r. (u, r) \<in> set (user_roles db) \<or> (\<exists>g. (g, u) \<in> set (group_members db) \<and> (g, r) \<in> set (group_roles db))}"
  by (force simp: effective_stored_roles_def)

lemma set_guarded_of: "set (guarded_of rs) = set rs \<inter> guarded_names"
  by (auto simp: guarded_of_def guarded_names_def list_ex_iff)

lemma set_add_new: "set (foldl (\<lambda>rs r. if r \<in> set rs then rs else rs @ [r]) acc xs) = set acc \<union> set xs"
  by (induction xs arbitrary: acc) auto

lemma set_collect_roles:
  "set (collect_roles db names gs acc) = set acc \<union>
     {r. \<exists>g \<in> set gs. g_source g = LdapGroup \<and> g_name g \<in> set names \<and> (g_id g, r) \<in> set (group_roles db)}"
  by (induction db names gs acc rule: collect_roles.induct) (auto simp: set_add_new set_list_group_roles)

lemma set_roles_from_directory:
  "set (roles_from_directory db names) =
     {r. \<exists>g \<in> set (groups db). g_source g = LdapGroup \<and> g_name g \<in> set names \<and> (g_id g, r) \<in> set (group_roles db)}"
  by (auto simp: roles_from_directory_def set_collect_roles)

lemma require_group_Inr: "require_group db gid = Inr g \<Longrightarrow> g \<in> set (groups db) \<and> g_id g = gid"
  by (auto simp: require_group_def split: option.splits dest: find_Some_in)

lemma require_native_group_Inr:
  "require_native_group db gid = Inr g \<Longrightarrow> g \<in> set (groups db) \<and> g_id g = gid"
  by (auto simp: require_native_group_def split: sum.splits if_splits dest: require_group_Inr)

lemma guard_passed:
  "require_admin_for_guarded_roles a rs = Inr u \<Longrightarrow> \<not> is_admin a \<Longrightarrow> set rs \<inter> guarded_names = {}"
  by (auto simp: require_admin_for_guarded_roles_def guarded_names_def list_ex_iff split: if_splits)

lemma guard_one:
  "require_admin_for_guarded_roles a [r] = Inr u \<Longrightarrow> \<not> is_admin a \<Longrightarrow> r \<notin> guarded_names"
  using guard_passed[of a "[r]"] by simp

lemma guard_group_passed:
  "require_admin_for_guarded_group db a g = Inr u \<Longrightarrow> \<not> is_admin a \<Longrightarrow>
   r \<in> guarded_names \<Longrightarrow> (g, r) \<notin> set (group_roles db)"
  unfolding require_admin_for_guarded_group_def
  by (drule guard_passed) (auto simp: set_guarded_of set_list_group_roles)

lemma parse_grantable_names: "parse_grantable_role r = Inr p \<Longrightarrow> role_as_str p \<in> grantable_names"
  by (auto simp: parse_grantable_role_def grantable_names_def split: option.splits if_splits)

lemma parse_grantable_roles_names: "parse_grantable_roles rs = Inr ps \<Longrightarrow> set ps \<subseteq> grantable_names"
  by (induction rs arbitrary: ps) (auto split: sum.splits dest: parse_grantable_names)

lemma set_insert_roles:
  "set (foldl (\<lambda>t r. insert_or_ignore (gid, r) t) t rs) = set t \<union> Pair gid ` set rs"
  by (induction rs arbitrary: t) (auto simp: sql)

text \<open>Each operation keeps the tables well formed.\<close>

lemma written_cases:
  "(\<And>x db'. r = Inr (x, db') \<Longrightarrow> P db') \<Longrightarrow> P db \<Longrightarrow> P (written db r)"
  by (auto simp: written_def split: sum.split)

lemma written_maintainers:
  "(\<And>x db'. r = Inr (x, db') \<Longrightarrow> \<exists>t t'. db' = db\<lparr>user_maintainers := t, group_maintainers := t'\<rparr>) \<Longrightarrow>
   \<exists>t t'. written db r = db\<lparr>user_maintainers := t, group_maintainers := t'\<rparr>"
  by (rule written_cases[where P = "\<lambda>x. \<exists>t t'. x = db\<lparr>user_maintainers := t, group_maintainers := t'\<rparr>"])
    (blast, rule exI[of _ "user_maintainers db"], rule exI[of _ "group_maintainers db"], simp)

lemma maintainer_ops:
  "\<exists>t t'. run_auth a (AssignUserMaintainer p u) db = db\<lparr>user_maintainers := t, group_maintainers := t'\<rparr>"
  "\<exists>t t'. run_auth a (UnassignUserMaintainer p u) db = db\<lparr>user_maintainers := t, group_maintainers := t'\<rparr>"
  "\<exists>t t'. run_auth a (AssignGroupMaintainer p g) db = db\<lparr>user_maintainers := t, group_maintainers := t'\<rparr>"
  "\<exists>t t'. run_auth a (UnassignGroupMaintainer p g) db = db\<lparr>user_maintainers := t, group_maintainers := t'\<rparr>"
proof -
  have um: "\<exists>t t'. db\<lparr>user_maintainers := x\<rparr> = db\<lparr>user_maintainers := t, group_maintainers := t'\<rparr>" for x
    by (intro exI[of _ x] exI[of _ "group_maintainers db"]) simp
  have gm: "\<exists>t t'. db\<lparr>group_maintainers := x\<rparr> = db\<lparr>user_maintainers := t, group_maintainers := t'\<rparr>" for x
    by (intro exI[of _ x] exI[of _ "user_maintainers db"]) simp
  show "\<exists>t t'. run_auth a (AssignUserMaintainer p u) db = db\<lparr>user_maintainers := t, group_maintainers := t'\<rparr>"
    using um by (auto intro!: written_maintainers
      simp: assign_user_maintainer_def repo_add_user_maintainer_def rust split: if_splits)
  show "\<exists>t t'. run_auth a (UnassignUserMaintainer p u) db = db\<lparr>user_maintainers := t, group_maintainers := t'\<rparr>"
    using um by (auto intro!: written_maintainers
      simp: unassign_user_maintainer_def repo_remove_user_maintainer_def rust)
  show "\<exists>t t'. run_auth a (AssignGroupMaintainer p g) db = db\<lparr>user_maintainers := t, group_maintainers := t'\<rparr>"
    using gm by (auto intro!: written_maintainers
      simp: assign_group_maintainer_def repo_add_group_maintainer_def rust split: if_splits)
  show "\<exists>t t'. run_auth a (UnassignGroupMaintainer p g) db = db\<lparr>user_maintainers := t, group_maintainers := t'\<rparr>"
    using gm by (auto intro!: written_maintainers
      simp: unassign_group_maintainer_def repo_remove_group_maintainer_def rust)
qed

lemma auth_inv_maintainers [simp]:
  "auth_inv (db\<lparr>user_maintainers := t\<rparr>) = auth_inv db"
  "auth_inv (db\<lparr>group_maintainers := t\<rparr>) = auth_inv db"
  by (simp_all add: auth_inv_def)

lemma auth_inv_user_roles:
  "auth_inv db \<Longrightarrow> (\<And>u r. (u, r) \<in> set t \<Longrightarrow> r \<in> grantable_names) \<Longrightarrow> auth_inv (db\<lparr>user_roles := t\<rparr>)"
  by (auto simp: auth_inv_def)

lemma auth_inv_members:
  "auth_inv db \<Longrightarrow> (\<And>g u. (g, u) \<in> set t \<Longrightarrow> g \<in> g_id ` set (groups db)) \<Longrightarrow> auth_inv (db\<lparr>group_members := t\<rparr>)"
  by (auto simp: auth_inv_def)

lemma auth_inv_group_roles:
  "auth_inv db \<Longrightarrow> (\<And>g r. (g, r) \<in> set t \<Longrightarrow> g \<in> g_id ` set (groups db) \<and> r \<in> grantable_names) \<Longrightarrow>
   auth_inv (db\<lparr>group_roles := t\<rparr>)"
  by (auto simp: auth_inv_def)

lemma auth_inv_create_group: "auth_inv db \<Longrightarrow> auth_inv (snd (repo_create_group n src db))"
proof (cases "find (\<lambda>g. g_name g = n \<and> g_source g = src) (groups db)")
  case None
  assume inv: "auth_inv db"
  then have lt: "g_id g < next_group db" if "g \<in> set (groups db)" for g
    using that by (simp add: auth_inv_def)
  then have "next_group db \<notin> set (map g_id (groups db))" by fastforce
  with inv None show ?thesis
    by (simp add: auth_inv_def repo_create_group_def Let_def less_Suc_eq) blast
qed (simp add: repo_create_group_def)

lemma auth_inv_rename_group:
  "auth_inv db \<Longrightarrow> repo_rename_group g n db = Inr (b, db') \<Longrightarrow> auth_inv db'"
proof -
  let ?gs = "update_where (\<lambda>h. g_id h = g) (g_name_update (\<lambda>_. n)) (groups db)"
  have ids: "map g_id ?gs = map g_id (groups db)" by (rule map_update_where) simp
  then have "g_id ` set ?gs = g_id ` set (groups db)" by (metis image_set)
  moreover have "(\<forall>h \<in> set ?gs. g_id h < next_group db) = (\<forall>h \<in> set (groups db). g_id h < next_group db)"
    by (auto simp: update_where_def simp del: if_image_distrib split: if_splits)
  moreover assume "auth_inv db" "repo_rename_group g n db = Inr (b, db')"
  ultimately show ?thesis using ids
    by (clarsimp simp: auth_inv_def repo_rename_group_def split: option.splits if_splits)
qed

lemma auth_inv_delete_group: "auth_inv db \<Longrightarrow> auth_inv (snd (repo_delete_group g db))"
  unfolding auth_inv_def repo_delete_group_def by (auto simp: sql image_subset_iff)

lemma auth_inv_delete_user: "auth_inv db \<Longrightarrow> auth_inv (snd (repo_delete_user u db))"
  unfolding auth_inv_def repo_delete_user_def by (auto simp: sql)

lemma auth_invD:
  "auth_inv db \<Longrightarrow> (u, r) \<in> set (user_roles db) \<Longrightarrow> r \<in> grantable_names"
  "auth_inv db \<Longrightarrow> (g, u) \<in> set (group_members db) \<Longrightarrow> g \<in> g_id ` set (groups db)"
  "auth_inv db \<Longrightarrow> (g, r) \<in> set (group_roles db) \<Longrightarrow> g \<in> g_id ` set (groups db)"
  "auth_inv db \<Longrightarrow> (g, r) \<in> set (group_roles db) \<Longrightarrow> r \<in> grantable_names"
  by (auto simp: auth_inv_def)

lemma auth_inv_step:
  assumes "auth_inv db"
  shows "auth_inv (run_auth a op db)"
proof (cases op)
  case (GrantUserRole u r)
  show ?thesis unfolding GrantUserRole run_auth.simps
    by (rule written_cases[where P = auth_inv])
      (use assms auth_invD[OF assms] in \<open>auto simp: grant_user_role_def repo_grant_user_role_def rust sql parse_grantable_names
        split: if_splits intro!: auth_inv_user_roles\<close>)
next
  case (RevokeUserRole u r)
  show ?thesis unfolding RevokeUserRole run_auth.simps
    by (rule written_cases[where P = auth_inv])
      (use assms auth_invD[OF assms] in \<open>auto simp: revoke_user_role_def repo_revoke_user_role_def rust sql
        split: option.splits intro!: auth_inv_user_roles\<close>)
next
  case (AddDirectoryGroup n)
  show ?thesis unfolding AddDirectoryGroup run_auth.simps
    by (rule written_cases[where P = auth_inv])
      (use assms auth_inv_create_group[OF assms, of "trim n" LdapGroup] in \<open>auto simp: add_directory_group_def Let_def split: if_splits option.splits\<close>)
next
  case (CreateNativeGroup n)
  show ?thesis unfolding CreateNativeGroup run_auth.simps
    by (rule written_cases[where P = auth_inv])
      (use assms auth_inv_create_group[OF assms, of "trim n" NativeGroup] in \<open>auto simp: create_native_group_def validate_group_name_def rust split: if_splits\<close>)
next
  case (RenameGroup g n)
  show ?thesis unfolding RenameGroup run_auth.simps
    by (rule written_cases[where P = auth_inv])
      (use assms auth_inv_rename_group[OF assms] in \<open>auto simp: rename_group_def rust split: if_splits\<close>)
next
  case (DeleteGroup g)
  show ?thesis unfolding DeleteGroup run_auth.simps
    by (rule written_cases[where P = auth_inv])
      (use assms auth_inv_delete_group[OF assms, of g] in \<open>auto simp: delete_group_def rust\<close>)
next
  case (SetGroupRoles g rs)
  show ?thesis unfolding SetGroupRoles run_auth.simps
    by (rule written_cases[where P = auth_inv])
      (use assms auth_invD[OF assms] in \<open>auto simp: set_group_roles_def repo_set_group_roles_def rust sql set_insert_roles Let_def
        split: if_splits dest!: parse_grantable_roles_names require_group_Inr intro!: auth_inv_group_roles\<close>)
next
  case (AddGroupMember g u)
  show ?thesis unfolding AddGroupMember run_auth.simps
    by (rule written_cases[where P = auth_inv])
      (use assms auth_invD[OF assms] in \<open>auto simp: add_group_member_def repo_add_group_member_def rust sql
        split: if_splits intro!: auth_inv_members\<close>)
next
  case (RemoveGroupMember g u)
  show ?thesis unfolding RemoveGroupMember run_auth.simps
    by (rule written_cases[where P = auth_inv])
      (use assms auth_invD[OF assms] in \<open>auto simp: remove_group_member_def repo_remove_group_member_def rust sql intro!: auth_inv_members\<close>)
next
  case (AdminDeleteUser roots u)
  show ?thesis unfolding AdminDeleteUser run_auth.simps
    by (rule written_cases[where P = auth_inv])
      (use assms auth_inv_delete_user[OF assms, of u] in \<open>auto simp: admin_delete_user_def rust\<close>)
qed (use assms maintainer_ops in \<open>metis auth_inv_maintainers\<close>)+

section \<open>Without an administrator the guarded roles do not move\<close>

lemma same_guarded_refl [simp]: "same_guarded db db"
  by (simp add: same_guarded_def)

lemma same_guarded_maintainers [simp]:
  "same_guarded db (db\<lparr>user_maintainers := t\<rparr>)" "same_guarded db (db\<lparr>group_maintainers := t\<rparr>)"
  "same_guarded db (db\<lparr>user_maintainers := t, group_maintainers := t'\<rparr>)"
  by (simp_all add: same_guarded_def stored_guarded_def directory_guarded_def)

lemma same_guarded_user_roles:
  assumes "\<And>u r. r \<in> guarded_names \<Longrightarrow> (u, r) \<in> set t \<longleftrightarrow> (u, r) \<in> set (user_roles db)"
  shows "same_guarded db (db\<lparr>user_roles := t\<rparr>)"
  using assms by (simp add: same_guarded_def stored_guarded_def directory_guarded_def) blast

lemma same_guarded_members:
  assumes "\<And>g u r. r \<in> guarded_names \<Longrightarrow> (g, r) \<in> set (group_roles db) \<Longrightarrow>
      (g, u) \<in> set t \<longleftrightarrow> (g, u) \<in> set (group_members db)"
  shows "same_guarded db (db\<lparr>group_members := t\<rparr>)"
  using assms by (simp add: same_guarded_def stored_guarded_def directory_guarded_def) blast

lemma same_guarded_group_roles:
  assumes "\<And>g r. r \<in> guarded_names \<Longrightarrow> (g, r) \<in> set t \<longleftrightarrow> (g, r) \<in> set (group_roles db)"
  shows "same_guarded db (db\<lparr>group_roles := t\<rparr>)"
  using assms by (simp add: same_guarded_def stored_guarded_def directory_guarded_def) blast

lemma same_guarded_create_group:
  assumes "auth_inv db"
  shows "same_guarded db (snd (repo_create_group n src db))"
proof -
  have "(next_group db, r) \<notin> set (group_roles db)" for r
  proof -
    have "\<forall>g \<in> set (groups db). g_id g < next_group db" using assms unfolding auth_inv_def by blast
    then show ?thesis using auth_invD(3)[OF assms, of "next_group db" r] by force
  qed
  then show ?thesis
    by (simp add: repo_create_group_def Let_def same_guarded_def stored_guarded_def directory_guarded_def
        split: option.split)
qed

lemma same_guarded_rename:
  assumes "g \<in> set (groups db)" and "g_source g = NativeGroup" and "distinct (map g_id (groups db))"
    and "repo_rename_group (g_id g) n db = Inr (b, db')"
  shows "same_guarded db db'"
proof -
  let ?f = "\<lambda>h. if g_id h = g_id g then h\<lparr>g_name := n\<rparr> else h"
  have native: "g_source h = NativeGroup" if "h \<in> set (groups db)" "g_id h = g_id g" for h
    using assms that by (metis distinct_map inj_onD)
  have "(\<exists>h \<in> set (groups db). g_source (?f h) = LdapGroup \<and> g_name (?f h) = m \<and> (g_id (?f h), r) \<in> set (group_roles db))
      \<longleftrightarrow> (\<exists>h \<in> set (groups db). g_source h = LdapGroup \<and> g_name h = m \<and> (g_id h, r) \<in> set (group_roles db))"
    for m r
    by (intro bex_cong refl) (auto dest: native)
  moreover have "db' = db \<or> db' = db\<lparr>groups := update_where (\<lambda>h. g_id h = g_id g) (g_name_update (\<lambda>_. n)) (groups db)\<rparr>"
    using assms(4) by (auto simp: repo_rename_group_def split: option.splits if_splits)
  ultimately show ?thesis
    by (elim disjE) (simp_all add: same_guarded_def stored_guarded_def directory_guarded_def sql
        del: if_image_distrib)
qed

lemma same_guarded_delete_group:
  assumes "\<And>r. r \<in> guarded_names \<Longrightarrow> (g, r) \<notin> set (group_roles db)"
  shows "same_guarded db (snd (repo_delete_group g db))"
  unfolding same_guarded_def
proof
  show "stored_guarded (snd (repo_delete_group g db)) = stored_guarded db"
    using assms by (simp add: repo_delete_group_def stored_guarded_def sql) blast
  have "(h, r) \<in> set (group_roles db) \<and> r \<in> guarded_names \<longrightarrow> h \<noteq> g" for h r
    using assms by blast
  then show "directory_guarded (snd (repo_delete_group g db)) = directory_guarded db"
    by (simp add: repo_delete_group_def directory_guarded_def sql) blast
qed

lemma same_guarded_delete_user:
  assumes "\<And>r. r \<in> guarded_names \<Longrightarrow> r \<notin> set (effective_stored_roles db u)"
  shows "same_guarded db (snd (repo_delete_user u db))"
  using assms unfolding same_guarded_def
  by (simp add: repo_delete_user_def stored_guarded_def directory_guarded_def sql set_effective_stored_roles)
    blast

lemma guarded_names_eq: "guarded_names = {role_as_str Admin, role_as_str Releaser}"
  by (simp add: guarded_names_def admin_guarded_def)

lemma delete_user_passed:
  assumes "require_admin_to_delete_user db roots a u = Inr x" and "\<not> is_admin a" and "r \<in> guarded_names"
  shows "r \<notin> set (effective_stored_roles db u)"
proof -
  have "require_admin_for_guarded_roles a [role_as_str Admin] \<noteq> Inr x"
    using guard_passed[of a "[role_as_str Admin]" x] assms(2) by (auto simp: guarded_names_eq)
  then have "require_admin_for_guarded_roles a (guarded_of (effective_stored_roles db u)) = Inr x"
    using assms(1) by (auto simp: require_admin_to_delete_user_def split: if_splits)
  from guard_passed[OF this assms(2)] show ?thesis using assms(3) by (auto simp: set_guarded_of)
qed

lemma set_group_roles_passed:
  assumes "require_admin_for_guarded_roles a (map role_as_str (filter (\<lambda>g.
       (role_as_str g \<in> ps) \<noteq> (role_as_str g \<in> cs)) admin_guarded)) = Inr x"
    and "\<not> is_admin a" and "r \<in> guarded_names"
  shows "r \<in> ps \<longleftrightarrow> r \<in> cs"
  using guard_passed[OF assms(1,2)] assms(3) by (auto simp: guarded_names_def)

lemma sort_eq_Nil [simp]: "sort xs = [] \<longleftrightarrow> xs = []"
  by (metis length_0_conv length_sort)

lemma set_group_roles_Inr:
  assumes "set_group_roles a g rs db = Inr (x, db')"
  obtains ps t where "db' = db\<lparr>group_roles := t\<rparr>"
    and "set t = {y \<in> set (group_roles db). fst y \<noteq> g} \<union> Pair g ` ps"
    and "require_admin_for_guarded_roles a (map role_as_str (filter (\<lambda>h.
         (role_as_str h \<in> ps) \<noteq> (role_as_str h \<in> set (list_group_roles db g))) admin_guarded)) = Inr ()"
proof -
  from assms obtain ps where "require_admin_for_guarded_roles a (map role_as_str (filter (\<lambda>h.
         (role_as_str h \<in> set (remdups_adj (sort ps))) \<noteq> (role_as_str h \<in> set (list_group_roles db g)))
         admin_guarded)) = Inr ()"
    and "repo_set_group_roles g (remdups_adj (sort ps)) db = Inr (x, db')"
    unfolding set_group_roles_def and_then_Inr_iff map_err_Inr_iff Let_def
    by (elim exE conjE) (rename_tac y ps z, case_tac z, simp)
  then show ?thesis
    by (intro that[of "foldl (\<lambda>t r. insert_or_ignore (g, r) t)
          (delete_where (\<lambda>x. fst x = g) (group_roles db)) (remdups_adj (sort ps))" "set ps"])
      (auto simp: repo_set_group_roles_def set_insert_roles sql split: if_splits)
qed

lemma same_guarded_step:
  assumes "auth_inv db" and "\<not> is_admin a"
  shows "same_guarded db (run_auth a op db)"
proof (cases op)
  case (GrantUserRole u r)
  show ?thesis unfolding GrantUserRole run_auth.simps
    by (rule written_cases[where P = "same_guarded db"])
      (use guard_one[OF _ assms(2)] in \<open>auto simp: grant_user_role_def repo_grant_user_role_def rust sql
        split: if_splits intro!: same_guarded_user_roles\<close>)
next
  case (RevokeUserRole u r)
  show ?thesis unfolding RevokeUserRole run_auth.simps
    by (rule written_cases[where P = "same_guarded db"])
      (use guard_one[OF _ assms(2)] in \<open>auto simp: revoke_user_role_def repo_revoke_user_role_def rust sql
        split: option.splits intro!: same_guarded_user_roles\<close>)
next
  case (AddDirectoryGroup n)
  show ?thesis unfolding AddDirectoryGroup run_auth.simps
    by (rule written_cases[where P = "same_guarded db"])
      (use same_guarded_create_group[OF assms(1), of "trim n" LdapGroup] in
        \<open>auto simp: add_directory_group_def Let_def split: if_splits option.splits\<close>)
next
  case (CreateNativeGroup n)
  show ?thesis unfolding CreateNativeGroup run_auth.simps
    by (rule written_cases[where P = "same_guarded db"])
      (use same_guarded_create_group[OF assms(1), of "trim n" NativeGroup] in
        \<open>auto simp: create_native_group_def validate_group_name_def rust split: if_splits\<close>)
next
  case (RenameGroup g n)
  have "distinct (map g_id (groups db))" using assms(1) by (simp add: auth_inv_def)
  then show ?thesis unfolding RenameGroup run_auth.simps
    by (rule_tac written_cases[where P = "same_guarded db"])
      (auto simp: rename_group_def rust split: if_splits dest!: require_group_Inr
        intro: same_guarded_rename group_source.exhaust)
next
  case (DeleteGroup g)
  show ?thesis unfolding DeleteGroup run_auth.simps
    by (rule written_cases[where P = "same_guarded db"])
      (use same_guarded_delete_group[of g db] guard_group_passed[OF _ assms(2)] in
        \<open>fastforce simp: delete_group_def rust\<close>)+
next
  case (SetGroupRoles g rs)
  show ?thesis unfolding SetGroupRoles run_auth.simps
  proof (rule written_cases[where P = "same_guarded db"])
    fix x db' assume "set_group_roles a g rs db = Inr (x, db')"
    then obtain ps t where t: "db' = db\<lparr>group_roles := t\<rparr>"
        "set t = {y \<in> set (group_roles db). fst y \<noteq> g} \<union> Pair g ` ps"
      and guard: "require_admin_for_guarded_roles a (map role_as_str (filter (\<lambda>h.
         (role_as_str h \<in> ps) \<noteq> (role_as_str h \<in> set (list_group_roles db g))) admin_guarded)) = Inr ()"
      by (rule set_group_roles_Inr)
    show "same_guarded db db'" unfolding t(1)
    proof (rule same_guarded_group_roles)
      fix h r assume "r \<in> guarded_names"
      from set_group_roles_passed[OF guard assms(2) this]
      show "(h, r) \<in> set t \<longleftrightarrow> (h, r) \<in> set (group_roles db)"
        by (cases "h = g") (auto simp: t(2) set_list_group_roles)
    qed
  qed simp
next
  case (AddGroupMember g u)
  show ?thesis unfolding AddGroupMember run_auth.simps
    by (rule written_cases[where P = "same_guarded db"])
      (use guard_group_passed[OF _ assms(2)] in \<open>auto simp: add_group_member_def repo_add_group_member_def rust sql
        split: if_splits intro!: same_guarded_members\<close>)
next
  case (RemoveGroupMember g u)
  show ?thesis unfolding RemoveGroupMember run_auth.simps
    by (rule written_cases[where P = "same_guarded db"])
      (use guard_group_passed[OF _ assms(2)] in \<open>auto simp: remove_group_member_def repo_remove_group_member_def
        rust sql intro!: same_guarded_members\<close>)
next
  case (AdminDeleteUser roots u)
  show ?thesis unfolding AdminDeleteUser run_auth.simps
    by (rule written_cases[where P = "same_guarded db"])
      (use same_guarded_delete_user[of db u] delete_user_passed[OF _ assms(2)] in
        \<open>fastforce simp: admin_delete_user_def rust\<close>)+
qed (use maintainer_ops in \<open>metis same_guarded_maintainers(3)\<close>)+

lemma reaches_inv: "auth_reaches P db db' \<Longrightarrow> auth_inv db \<Longrightarrow> auth_inv db'"
  by (induction rule: auth_reaches.induct) (auto intro: auth_inv_step)

lemma same_guarded_trans: "same_guarded a b \<Longrightarrow> same_guarded b c \<Longrightarrow> same_guarded a c"
  by (simp add: same_guarded_def)

lemma reaches_same_guarded:
  "auth_reaches (\<lambda>a. \<not> is_admin a) db db' \<Longrightarrow> auth_inv db \<Longrightarrow> same_guarded db db'"
proof (induction rule: auth_reaches.induct)
  case (step db' a op)
  then have "auth_inv db'" by (blast intro: reaches_inv)
  with step show ?case by (blast intro: same_guarded_trans same_guarded_step)
qed simp

lemma guarded_stored: "set (guarded_of (effective_stored_roles db u)) = {r. (u, r) \<in> stored_guarded db}"
  by (auto simp: set_guarded_of set_effective_stored_roles stored_guarded_def)

lemma guarded_directory:
  "set (guarded_of (roles_from_directory db names)) = {r. \<exists>n \<in> set names. (n, r) \<in> directory_guarded db}"
  by (auto simp: set_guarded_of set_roles_from_directory directory_guarded_def)

definition small_auth_db :: auth_db where
  "small_auth_db = \<lparr>users = [(1, ''ann''), (2, ''bob'')], user_roles = [(1, ''user_manager'')],
     groups = [\<lparr>g_id = 1, g_name = ''ops'', g_source = NativeGroup\<rparr>], next_group = 2,
     group_members = [(1, 2)], group_roles = [(1, ''releaser'')],
     user_maintainers = [], group_maintainers = [], auth_services = []\<rparr>"

lemma small_auth_db_inv: "auth_inv small_auth_db"
  by (simp add: small_auth_db_def auth_inv_def grantable_names_def globally_grantable_def)

text \<open>
  C36: no sequence of role, group, member and account operations by callers that are neither
  root nor administrator changes who holds the roles \<open>admin\<close> and \<open>releaser\<close>, whether by a
  direct grant, through a stored group, or through the roles a directory group confers:
  granting, joining a group, changing a group's roles, renaming or deleting it, and deleting
  an account are no side doors.
\<close>

theorem guarded_roles_need_admin:
  assumes "auth_inv db" and "auth_reaches (\<lambda>a. \<not> is_admin a) db db'"
  shows "(\<forall>u. set (guarded_of (effective_stored_roles db' u)) = set (guarded_of (effective_stored_roles db u))) \<and>
         (\<forall>names. set (guarded_of (roles_from_directory db' names)) = set (guarded_of (roles_from_directory db names)))"
  using reaches_same_guarded[OF assms(2,1)]
  by (simp add: guarded_stored guarded_directory same_guarded_def)

theorem guarded_roles_need_admin_witness:
  "set (guarded_of (effective_stored_roles (run_auth None (AddGroupMember 1 1) small_auth_db) 1)) =
   set (guarded_of (effective_stored_roles small_auth_db 1))"
proof -
  have "auth_reaches (\<lambda>a. \<not> is_admin a) small_auth_db (run_auth None (AddGroupMember 1 1) small_auth_db)"
    by (intro auth_reaches.intros) (simp add: is_admin_def)
  from guarded_roles_need_admin[OF small_auth_db_inv this] show ?thesis by simp
qed

lemma maintainer_not_grantable: "role_as_str Maintainer \<notin> grantable_names"
  by (simp add: grantable_names_def globally_grantable_def)

text \<open>
  whatever sequence of operations ran, no caller is resolved to the role \<open>maintainer\<close>: it
  is never held instance-wide, so a caller that is not root and holds no role with
  \<open>manage_producers\<close> passes a Producer check exactly for the Producers it maintains.
\<close>

lemma maintainer_is_scoped:
  assumes "auth_inv db" and "auth_reaches (\<lambda>_. True) db db'"
    and "a = resolve_actor db' user roots dirs" and "\<not> a_is_root a" and "Admin \<notin> set (a_roles a)"
  shows "Maintainer \<notin> set (a_roles a) \<and>
         (require_producer_permission db' a ManageProducers p = Inr () \<longleftrightarrow> maintains_producer db' a p)"
proof -
  have inv: "auth_inv db'" using reaches_inv[OF assms(2,1)] .
  have "role_as_str Maintainer \<notin> set (effective_stored_roles db' (fst user) @ roles_from_directory db' dirs)"
    using maintainer_not_grantable auth_invD[OF inv]
    by (auto simp: set_effective_stored_roles set_roles_from_directory)
  then have m: "Maintainer \<notin> set (a_roles a)"
    by (auto simp: assms(3) resolve_actor_def Let_def List.map_filter_def role_parse_Some)
  have "grants r ManageProducers \<longleftrightarrow> r = Admin \<or> r = Maintainer" for r
    by (cases r) (simp_all add: grants_def)
  then have "\<not> has_permission a ManageProducers"
    using m assms(4,5) by (auto simp: has_permission_def list_ex_iff)
  then show ?thesis
    using m by (simp add: require_producer_permission_def grants_def)
qed

end
