(* ===== verification/Admin.thy ===== *)
theory Admin
  imports Catalog Require Webhook_Delivery Authz
begin

text \<open>
  Administration: deleting participants and versions, retiring an API family,
  settings and the cleanups that run on a timer
  (\<open>src/src/application/admin_service.rs\<close>, with the bulk deletes, settings,
  favourites and listings of \<open>sqlite_repository.rs\<close> it uses). The clock reading
  of a cleanup is an argument; a cutoff is rendered with offset and fraction
  (\<open>to_rfc3339\<close>), a stored stamp in whole seconds with \<open>Z\<close>, and the two are
  compared as text, as the tables do.
\<close>

section \<open>Bulk deletes\<close>

text \<open>
  The statements and the cascades of their foreign keys: tags, metadata and
  contracts go with their service, harvested subscriptions with their client;
  the pins and members are kept by value.
\<close>

definition repo_delete_all_services :: "db \<Rightarrow> nat \<times> db" where
  "repo_delete_all_services db =
     (length (services db),
      db\<lparr>dependencies := [], endpoints := [], origins := [], spec_versions := [], services := [],
         service_tags := [], service_metas := [], contracts := [],
         harvested := map (hv_owner_service_id_update (\<lambda>_. None)) (harvested db)\<rparr>)"

definition repo_delete_all_clients :: "db \<Rightarrow> nat \<times> db" where
  "repo_delete_all_clients db =
     (length (clients db), db\<lparr>dependencies := [], clients := [], harvested := []\<rparr>)"

definition delete_all_services :: "env \<Rightarrow> db \<Rightarrow> nat \<times> db" where
  "delete_all_services E db =
     (let (deleted, db1) = repo_delete_all_services db in
      (deleted, close_catalog_of_departed (clock E 1) (participants db) db1))"

definition delete_all_clients :: "env \<Rightarrow> db \<Rightarrow> nat \<times> db" where
  "delete_all_clients E db =
     (let (deleted, db1) = repo_delete_all_clients db in
      (deleted, close_catalog_of_departed (clock E 1) (participants db) db1))"

text \<open>The factory reset: settings, audit trail and, of the accounts, the caller's stay.\<close>

definition nuke_database :: "nat option \<Rightarrow> db \<Rightarrow> db" where
  "nuke_database keep_user_id db =
     db\<lparr>dependencies := [], endpoints := [], origins := [], spec_versions := [],
        branches := [], branch_deps := [], branch_members := [], periphery := [], system_contexts := [],
        deliveries := [], outbox := [], webhooks := [], trunk_members := [], contracts := [],
        services := [], clients := [], service_tags := [], service_metas := [], harvested := [],
        user_favorites := (case keep_user_id of None \<Rightarrow> [] | Some uid \<Rightarrow> filter (\<lambda>f. fst f = uid) (user_favorites db))\<rparr>"

section \<open>Deleting a participant\<close>

datatype participant_role = AsConsumer | AsProducer

fun pin_participant :: "participant_role \<Rightarrow> trunk_pin_info \<Rightarrow> string" where
  "pin_participant AsConsumer p = p_client p"
| "pin_participant AsProducer p = p_service p"

definition member_branches :: "db \<Rightarrow> string \<Rightarrow> participant_role \<Rightarrow> string list" where
  "member_branches db nm role =
     (case role of
        AsConsumer \<Rightarrow> []
      | AsProducer \<Rightarrow> (case find_service db nm of None \<Rightarrow> []
                     | Some sid \<Rightarrow> map fst (list_branch_memberships_for_service db sid)))"

definition list_participant_branch_references :: "db \<Rightarrow> string \<Rightarrow> participant_role \<Rightarrow> string list" where
  "list_participant_branch_references db nm role =
     map b_name (filter (\<lambda>b.
       list_ex (\<lambda>p. pin_participant role p = nm) (list_branch_pins db (b_id b) None) \<or>
       b_name b \<in> set (member_branches db nm role)) (list_branches db))"

definition refuse_if_a_release_graph_needs_it :: "db \<Rightarrow> string \<Rightarrow> participant_role \<Rightarrow> app_error + unit" where
  "refuse_if_a_release_graph_needs_it db nm role =
     (let names = list_participant_branch_references db nm role in
      if names = [] then Inr ()
      else Inl (Conflict (Text ''is part of the recorded graph of a sanshain-branch'' (S nm # map S names))))"

definition admin_delete_producer :: "env \<Rightarrow> string \<Rightarrow> db \<Rightarrow> app_error + bool \<times> db" where
  "admin_delete_producer E nm db =
     and_then (refuse_if_a_release_graph_needs_it db nm AsProducer) (\<lambda>_.
     let (deleted, db1) = delete_producer nm (clock E 1) db in
     Inr (deleted, if deleted then close_catalog_of_departed (clock E 2) [nm] db1 else db1))"

definition admin_delete_consumer :: "env \<Rightarrow> string \<Rightarrow> db \<Rightarrow> app_error + bool \<times> db" where
  "admin_delete_consumer E nm db =
     and_then (refuse_if_a_release_graph_needs_it db nm AsConsumer) (\<lambda>_.
     let (deleted, db1) = delete_consumer nm (clock E 1) db in
     Inr (deleted, if deleted then close_catalog_of_departed (clock E 2) [nm] db1 else db1))"

section \<open>Retiring an API family\<close>

record retired_protocol =
  rp_tag_cleared :: "string option"
  rp_trunk_pins_closed :: nat
  rp_contracts_released :: nat

definition family_tag :: "api_type \<Rightarrow> string option" where
  "family_tag t = (case t of AsyncApi \<Rightarrow> Some ''messaging'' | Proto \<Rightarrow> Some ''grpc'' | OpenApi \<Rightarrow> None)"

text \<open>The permission tables read the same services.\<close>

definition may_retire :: "auth_db \<Rightarrow> db \<Rightarrow> string \<Rightarrow> actor option \<Rightarrow> bool" where
  "may_retire P db producer caller =
     (case caller of
        None \<Rightarrow> False
      | Some a \<Rightarrow> has_permission a ReleaseGa \<or>
          require_producer_permission (P\<lparr>auth_services := services db\<rparr>) a ManageProducers producer = Inr ())"

definition release_contracts :: "row_id \<Rightarrow> db \<Rightarrow> nat \<times> db" where
  "release_contracts sid db =
     foldl (\<lambda>(n, d) c. if c_owner_service_id c = sid
              then (Suc n, delete_channel_message_contract (c_channel c) (c_message_name c) d) else (n, d))
       (0, db) (list_channel_message_contracts db)"

definition retire_protocol_family ::
    "auth_db \<Rightarrow> env \<Rightarrow> string \<Rightarrow> api_type \<Rightarrow> actor option \<Rightarrow> bool \<Rightarrow> db \<Rightarrow> app_error + retired_protocol \<times> db" where
  "retire_protocol_family P E producer t caller dry_run db =
     (if \<not> may_retire P db producer caller
      then Inl (ForbiddenWithReason (Text ''retiring an API family requires the releaser role or a maintainer grant'' [S producer]))
      else case find_service db producer of
        None \<Rightarrow> Inl (NotFound (Text ''Producer not found'' [S producer]))
      | Some sid \<Rightarrow>
          if dry_run then Inr (\<lparr>rp_tag_cleared = None, rp_trunk_pins_closed = 0, rp_contracts_released = 0\<rparr>, db)
          else let db1 = (case family_tag t of Some tag \<Rightarrow> remove_service_tag sid tag db | None \<Rightarrow> db);
                   (closed, db2) = close_trunk_pins_for_service_api sid t (clock E 1) db1;
                   (released, db3) = (if t = AsyncApi then release_contracts sid db2 else (0, db2))
               in Inr (\<lparr>rp_tag_cleared = family_tag t, rp_trunk_pins_closed = closed, rp_contracts_released = released\<rparr>, db3))"

section \<open>Deleting a version\<close>

definition version_dependents :: "db \<Rightarrow> spec_version_meta \<Rightarrow> string list" where
  "version_dependents db entry =
     list_version_dependents db (v_id entry) @
     map (\<lambda>b. ''sanshain-branch '' @ [CHR 0x27] @ b @ [CHR 0x27]) (list_branches_referencing db (v_service_id entry) (v_api_type entry) (v_version entry))"

definition admin_list_version_dependents :: "db \<Rightarrow> string \<Rightarrow> api_type \<Rightarrow> semver \<Rightarrow> app_error + string list" where
  "admin_list_version_dependents db producer t v =
     and_then (find_version_entry db producer t v) (\<lambda>entry. Inr (version_dependents db entry))"

definition delete_version :: "env \<Rightarrow> string \<Rightarrow> api_type \<Rightarrow> semver \<Rightarrow> db \<Rightarrow> app_error + string list \<times> db" where
  "delete_version E producer t v db =
     and_then (find_version_entry db producer t v) (\<lambda>entry.
     Inr (version_dependents db entry, snd (delete_spec_version (v_id entry) (clock E 1) db)))"

section \<open>Settings\<close>

definition max_age_days_limit :: nat where "max_age_days_limit = 36500"

definition validate_max_age_days :: "nat \<Rightarrow> app_error + unit" where
  "validate_max_age_days n =
     (if n > max_age_days_limit then Inl (BadRequest (Text ''days must be at most'' [N max_age_days_limit])) else Inr ())"

text \<open>A 64-bit unsigned number, read from decimal text.\<close>

definition parse_u64 :: "string \<Rightarrow> nat option" where
  "parse_u64 s =
     (case parse_digits (case s of c # r \<Rightarrow> if c = CHR ''+'' then r else s | [] \<Rightarrow> []) of
        None \<Rightarrow> None
      | Some n \<Rightarrow> if n \<le> 18446744073709551615 then Some n else None)"

definition get_max_age_days :: "string \<Rightarrow> nat \<Rightarrow> db \<Rightarrow> nat" where
  "get_max_age_days key dflt db =
     min (case get_setting db key of None \<Rightarrow> dflt | Some v \<Rightarrow> (case parse_u64 v of None \<Rightarrow> dflt | Some n \<Rightarrow> n)) max_age_days_limit"

definition set_max_age_days :: "string \<Rightarrow> nat \<Rightarrow> db \<Rightarrow> app_error + db" where
  "set_max_age_days key n db = and_then (validate_max_age_days n) (\<lambda>_. Inr (set_setting key (show_nat n) db))"

definition get_snapshot_max_age_days :: "db \<Rightarrow> nat" where
  "get_snapshot_max_age_days db = get_max_age_days ''snapshot_max_age_days'' 30 db"

definition set_snapshot_max_age_days :: "nat \<Rightarrow> db \<Rightarrow> app_error + db" where
  "set_snapshot_max_age_days n db = set_max_age_days ''snapshot_max_age_days'' n db"

definition get_dependency_max_age_days :: "db \<Rightarrow> nat" where
  "get_dependency_max_age_days db = get_max_age_days ''dependency_max_age_days'' 30 db"

definition set_dependency_max_age_days :: "nat \<Rightarrow> db \<Rightarrow> app_error + db" where
  "set_dependency_max_age_days n db = set_max_age_days ''dependency_max_age_days'' n db"

definition get_trunk_max_age_days :: "db \<Rightarrow> nat" where
  "get_trunk_max_age_days db = get_max_age_days ''trunk_max_age_days'' 90 db"

definition set_trunk_max_age_days :: "nat \<Rightarrow> db \<Rightarrow> app_error + db" where
  "set_trunk_max_age_days n db = set_max_age_days ''trunk_max_age_days'' n db"

definition get_ticket_url_template :: "db \<Rightarrow> string option" where
  "get_ticket_url_template db =
     (case get_setting db ''ticket_url_template'' of Some t \<Rightarrow> if trim t = [] then None else Some t | None \<Rightarrow> None)"

text \<open>Control characters: the C0 and C1 ranges and DEL, in UTF-8.\<close>

fun has_control :: "string \<Rightarrow> bool" where
  "has_control [] = False"
| "has_control [c] = ((of_char c :: nat) < 32 \<or> c = CHR 0x7F)"
| "has_control (c # d # r) =
     ((of_char c :: nat) < 32 \<or> c = CHR 0x7F \<or>
      (c = CHR 0xC2 \<and> 128 \<le> (of_char d :: nat) \<and> (of_char d :: nat) < 160) \<or> has_control (d # r))"

definition has_white_space :: "string \<Rightarrow> bool" where
  "has_white_space s \<longleftrightarrow> list_ex (\<lambda>w. contains_str w s) white_space"

definition check_ticket_url_template :: "string \<Rightarrow> app_error + unit" where
  "check_ticket_url_template t =
     (if char_count t > 2048 then Inl (BadRequest (Text ''the ticket URL template is longer than 2048 characters'' []))
      else if \<not> (starts_with ''https://'' t \<or> starts_with ''http://'' t) \<or> has_white_space t \<or> has_control t
      then Inl (BadRequest (Text ''the ticket URL template must be an absolute http(s) URL'' []))
      else if \<not> contains_str ''{id}'' t
      then Inl (BadRequest (Text ''the ticket URL template must contain {id}, the place of the ticket id'' []))
      else Inr ())"

definition set_ticket_url_template :: "string option \<Rightarrow> db \<Rightarrow> app_error + string option \<times> db" where
  "set_ticket_url_template template db =
     (case map_option trim template of
        Some t \<Rightarrow>
          if t = [] then Inr (None, set_setting ''ticket_url_template'' [] db)
          else and_then (check_ticket_url_template t) (\<lambda>_. Inr (Some t, set_setting ''ticket_url_template'' t db))
      | None \<Rightarrow> Inr (None, set_setting ''ticket_url_template'' [] db))"

section \<open>Cleanups\<close>

record admin_time = time_tools +
  rfc3339 :: "int \<Rightarrow> stamp"

definition days_span :: "nat \<Rightarrow> int" where
  "days_span count = (if int count * 86400 \<le> time_delta_max then int count * 86400 else time_delta_max)"

abbreviation cutoff_before :: "admin_time \<Rightarrow> int \<Rightarrow> nat \<Rightarrow> int" where
  "cutoff_before C now days \<equiv> before (time_tools.truncate C) now (days_span days)"

definition cleanup_expired_snapshots :: "admin_time \<Rightarrow> int \<Rightarrow> db \<Rightarrow> nat \<times> db" where
  "cleanup_expired_snapshots C now db =
     (let days = get_snapshot_max_age_days db in
      if days = 0 then (0, db) else delete_expired_snapshots (rfc3339 C (cutoff_before C now days)) db)"

definition delete_stale_dependencies :: "stamp \<Rightarrow> db \<Rightarrow> nat \<times> db" where
  "delete_stale_dependencies cutoff db =
     (length (filter (\<lambda>d. dep_last_seen_at d < cutoff) (dependencies db)),
      db\<lparr>dependencies := delete_where (\<lambda>d. dep_last_seen_at d < cutoff) (dependencies db)\<rparr>)"

definition cleanup_stale_dependencies :: "admin_time \<Rightarrow> int \<Rightarrow> db \<Rightarrow> nat \<times> db" where
  "cleanup_stale_dependencies C now db =
     (let days = get_dependency_max_age_days db in
      if days = 0 then (0, db) else delete_stale_dependencies (rfc3339 C (cutoff_before C now days)) db)"

definition cleanup_stale_trunk_data :: "admin_time \<Rightarrow> int \<Rightarrow> db \<Rightarrow> nat \<times> db" where
  "cleanup_stale_trunk_data C now db =
     (let days = get_trunk_max_age_days db in
      if days = 0 then (0, db) else close_expired_trunk_data (iso C (cutoff_before C now days)) (iso C now) db)"

section \<open>Listings and favourites\<close>

text \<open>The reverse order of a type.\<close>

datatype 'a desc = Desc 'a

instantiation desc :: (linorder) linorder
begin

fun less_eq_desc :: "'a desc \<Rightarrow> 'a desc \<Rightarrow> bool" where
  "less_eq_desc (Desc x) (Desc y) = (y \<le> x)"

fun less_desc :: "'a desc \<Rightarrow> 'a desc \<Rightarrow> bool" where
  "less_desc (Desc x) (Desc y) = (y < x)"

instance
proof
  fix x y z :: "'a desc"
  show "(x < y) = (x \<le> y \<and> \<not> y \<le> x)" by (cases x; cases y) auto
  show "x \<le> x" by (cases x) simp
  show "x \<le> y \<Longrightarrow> y \<le> z \<Longrightarrow> x \<le> z" by (cases x; cases y; cases z) simp
  show "x \<le> y \<Longrightarrow> y \<le> x \<Longrightarrow> x = y" by (cases x; cases y) simp
  show "x \<le> y \<or> y \<le> x" by (cases x; cases y) auto
qed

end

definition last_use :: "spec_version_meta \<Rightarrow> stamp" where
  "last_use v = (case v_last_required_at v of
      Some r \<Rightarrow> if r > v_updated_at v then r else v_updated_at v | None \<Rightarrow> v_updated_at v)"

definition expires_at :: "admin_time \<Rightarrow> nat \<Rightarrow> spec_version_meta \<Rightarrow> stamp option" where
  "expires_at C days v =
     (if v_stability v = Snapshot \<and> days > 0 then
        Option.bind (parse_rfc3339 C (last_use v)) (\<lambda>t.
          if min_utc C \<le> t + days_span days \<and> t + days_span days \<le> max_utc C then Some (iso C (t + days_span days)) else None)
      else None)"

definition version_info :: "admin_time \<Rightarrow> db \<Rightarrow> spec_version_meta \<Rightarrow> nat \<Rightarrow> producer_version_info" where
  "version_info C db v n =
     \<lparr>pi_api_type = v_api_type v, pi_version = v_version v, pi_stability = v_stability v, pi_content_hash = v_content_hash v,
      pi_provided_by = v_provided_by v, pi_created_at = v_created_at v, pi_updated_at = v_updated_at v,
      pi_last_required_at = v_last_required_at v, pi_endpoint_count = n,
      pi_origin = (case get_version_origin db (v_id v) of Some o' \<Rightarrow> o' | None \<Rightarrow> empty_origin),
      pi_expires_at = expires_at C (get_snapshot_max_age_days db) v, pi_trunk_provided_at = v_trunk_provided_at v\<rparr>"

definition producer_versions :: "admin_time \<Rightarrow> db \<Rightarrow> string \<Rightarrow> producer_version_info list" where
  "producer_versions C db nm =
     sort_key (\<lambda>v. (api_type_as_str (pi_api_type v), Desc (pi_version v)))
       (List.map_filter (\<lambda>(nm', v, n). if nm' = nm then Some (version_info C db v n) else None) (list_all_spec_versions db))"

definition list_producer_versions ::
    "admin_time \<Rightarrow> db \<Rightarrow> string \<Rightarrow> api_type option \<Rightarrow> app_error + producer_version_info list" where
  "list_producer_versions C db producer t =
     (if find_service db producer = None then Inl (NotFound (Text ''Producer not found'' [S producer]))
      else Inr (case t of None \<Rightarrow> producer_versions C db producer
                | Some t' \<Rightarrow> filter (\<lambda>v. pi_api_type v = t') (producer_versions C db producer)))"

definition repo_get_user_favorites :: "db \<Rightarrow> nat \<Rightarrow> string \<Rightarrow> string list" where
  "repo_get_user_favorites db uid ty =
     sort (map (\<lambda>f. snd (snd f)) (filter (\<lambda>f. fst f = uid \<and> fst (snd f) = ty) (user_favorites db)))"

definition favorite_type :: "string \<Rightarrow> app_error + unit" where
  "favorite_type ty =
     (if ty \<noteq> ''service'' \<and> ty \<noteq> ''client''
      then Inl (BadRequest (Text ''Invalid item type. Must be service or client'' [])) else Inr ())"

definition add_user_favorite :: "nat \<Rightarrow> string \<Rightarrow> string \<Rightarrow> db \<Rightarrow> app_error + db" where
  "add_user_favorite uid ty nm db =
     and_then (favorite_type ty) (\<lambda>_. Inr (db\<lparr>user_favorites := insert_or_ignore (uid, ty, nm) (user_favorites db)\<rparr>))"

definition remove_user_favorite :: "nat \<Rightarrow> string \<Rightarrow> string \<Rightarrow> db \<Rightarrow> app_error + db" where
  "remove_user_favorite uid ty nm db =
     and_then (favorite_type ty) (\<lambda>_. Inr (db\<lparr>user_favorites := delete_where (\<lambda>f. f = (uid, ty, nm)) (user_favorites db)\<rparr>))"

definition get_user_favorites :: "db \<Rightarrow> nat \<Rightarrow> string list \<times> string list" where
  "get_user_favorites db uid = (repo_get_user_favorites db uid ''service'', repo_get_user_favorites db uid ''client'')"

definition list_producers_detailed :: "admin_time \<Rightarrow> db \<Rightarrow> nat option \<Rightarrow> producer_summary list" where
  "list_producers_detailed C db user =
     (let services = map (\<lambda>s. s\<lparr>su_versions := producer_versions C db (su_name s)\<rparr>) (repo_list_producers_detailed db) in
      case user of
        None \<Rightarrow> services
      | Some uid \<Rightarrow> sort_key (\<lambda>s. Desc (su_is_favorite s))
          (map (\<lambda>s. if su_name s \<in> set (repo_get_user_favorites db uid ''service'') then s\<lparr>su_is_favorite := True\<rparr> else s) services))"

definition admin_list_consumers :: "db \<Rightarrow> nat option \<Rightarrow> string list" where
  "admin_list_consumers db user =
     (case user of
        None \<Rightarrow> list_consumers db
      | Some uid \<Rightarrow> sort_key (\<lambda>c. Desc (c \<in> set (repo_get_user_favorites db uid ''client''))) (list_consumers db))"

definition provide_creates_producer :: "db \<Rightarrow> string \<Rightarrow> bool \<Rightarrow> bool" where
  "provide_creates_producer db producer dry_run \<longleftrightarrow> \<not> dry_run \<and> find_service db producer = None"

definition set_producer_external :: "string \<Rightarrow> bool \<Rightarrow> db \<Rightarrow> app_error + db" where
  "set_producer_external nm external db =
     (let (hit, db1) = repo_set_producer_external nm external db in
      if hit then Inr db1 else Inl (NotFound (Text ''Producer not found'' [S nm])))"

section \<open>Expiry by use\<close>

text \<open>
  What the code relies on of the calendar library between two instants: a
  stamp is read back, stamps sort by time, also against a cutoff rendered with
  offset and fraction.
\<close>

definition calendar_ok :: "admin_time \<Rightarrow> int \<Rightarrow> int \<Rightarrow> bool" where
  "calendar_ok C lo hi \<longleftrightarrow> min_utc C \<le> lo \<and> hi \<le> max_utc C \<and>
     (\<forall>a. lo \<le> a \<and> a \<le> hi \<longrightarrow> parse_rfc3339 C (iso C a) = Some a \<and>
        (\<forall>b. lo \<le> b \<and> b \<le> hi \<longrightarrow> (iso C a < iso C b \<longleftrightarrow> a < b) \<and> (iso C a < rfc3339 C b \<longleftrightarrow> a < b)))"

text \<open>An entry provided at \<open>u\<close> and, if at all, last required at \<open>r\<close>.\<close>

definition used_at :: "admin_time \<Rightarrow> int \<Rightarrow> int \<Rightarrow> 'a spec_version_meta_scheme \<Rightarrow> int \<Rightarrow> int option \<Rightarrow> bool" where
  "used_at C lo hi v u r \<longleftrightarrow> lo \<le> u \<and> u \<le> hi \<and> v_updated_at v = iso C u \<and>
     v_last_required_at v = map_option (iso C) r \<and> (\<forall>x. r = Some x \<longrightarrow> lo \<le> x \<and> x \<le> hi)"

definition last_used :: "int \<Rightarrow> int option \<Rightarrow> int" where
  "last_used u r = (case r of None \<Rightarrow> u | Some x \<Rightarrow> max u x)"

lemma calendarD:
  assumes "calendar_ok C lo hi" and "lo \<le> a" "a \<le> hi"
  shows "parse_rfc3339 C (iso C a) = Some a" and "lo \<le> b \<Longrightarrow> b \<le> hi \<Longrightarrow> iso C a < iso C b \<longleftrightarrow> a < b"
    and "lo \<le> b \<Longrightarrow> b \<le> hi \<Longrightarrow> iso C a < rfc3339 C b \<longleftrightarrow> a < b"
  using assms by (auto simp: calendar_ok_def)

lemma expired_iff_unused:
  assumes "calendar_ok C lo hi" and "used_at C lo hi v u r" and "lo \<le> c" "c \<le> hi"
  shows "expired_snapshot (rfc3339 C c) v \<longleftrightarrow> v_stability v = Snapshot \<and> last_used u r < c"
  using assms calendarD(3)[OF assms(1) _ _ assms(3,4)]
  by (auto simp: expired_snapshot_def used_at_def last_used_def split: option.splits)

lemma last_use_stamp:
  assumes "calendar_ok C lo hi" and "used_at C lo hi v u r"
  shows "last_use v = iso C (last_used u r)" and "lo \<le> last_used u r" and "last_used u r \<le> hi"
proof -
  have u: "lo \<le> u" "u \<le> hi" "v_updated_at v = iso C u" and r: "v_last_required_at v = map_option (iso C) r"
    "\<forall>x. r = Some x \<longrightarrow> lo \<le> x \<and> x \<le> hi" using assms(2) by (auto simp: used_at_def)
  have "iso C u < iso C x \<longleftrightarrow> u < x" if "r = Some x" for x using calendarD(2)[OF assms(1) u(1,2)] r that by blast
  then show "last_use v = iso C (last_used u r)"
    using r u by (auto simp: last_use_def last_used_def max_def split: option.splits)
  show "lo \<le> last_used u r" "last_used u r \<le> hi" using u r by (auto simp: last_used_def split: option.splits)
qed

lemma days_in_limit: "n \<le> max_age_days_limit \<Longrightarrow> days_span n = int n * 86400"
  by (simp add: days_span_def max_age_days_limit_def time_delta_max_def i64_max_def)

lemma max_age_limit: "get_max_age_days key dflt db \<le> max_age_days_limit"
  by (simp add: get_max_age_days_def)

lemma cutoff_in_range:
  assumes "calendar_ok C lo hi" and "n \<le> max_age_days_limit" and "lo \<le> now - int n * 86400" and "now \<le> hi"
  shows "cutoff_before C now n = now - int n * 86400"
  using assms by (simp add: before_def days_in_limit calendar_ok_def time_tools.defs)

lemma cleanup_rows:
  "spec_versions (snd (cleanup_expired_snapshots C now db)) =
     (if get_snapshot_max_age_days db = 0 then spec_versions db
      else delete_where (expired_snapshot (rfc3339 C (cutoff_before C now (get_snapshot_max_age_days db)))) (spec_versions db))"
  by (simp add: cleanup_expired_snapshots_def Let_def delete_expired_snapshots_def)

text \<open>
  C24: A snapshot expires by disuse, when it was announced to. With the window
  set to some days, a cleanup keeps every GA entry, adds or alters no entry,
  and removes a snapshot exactly when it was neither provided nor required
  within the window; the moment the versions page shows for it is the last
  moment a cleanup keeps it.
\<close>

theorem expiry_as_announced:
  assumes "calendar_ok C lo hi" and "get_snapshot_max_age_days db = days" and "days > 0"
    and "v \<in> set (spec_versions db)" and "used_at C lo hi v u r"
    and "lo \<le> now - int days * 86400" and "now \<le> hi" and "last_used u r + int days * 86400 \<le> hi"
  shows "set (spec_versions (snd (cleanup_expired_snapshots C now db))) \<subseteq> set (spec_versions db) \<and>
    (case v_stability v of
       Ga \<Rightarrow> v \<in> set (spec_versions (snd (cleanup_expired_snapshots C now db)))
     | Snapshot \<Rightarrow> expires_at C days (spec_version_meta.truncate v) = Some (iso C (last_used u r + int days * 86400)) \<and>
         (v \<in> set (spec_versions (snd (cleanup_expired_snapshots C now db))) \<longleftrightarrow> now \<le> last_used u r + int days * 86400))"
proof -
  let ?c = "now - int days * 86400"
  have lim: "days \<le> max_age_days_limit" using assms(2) max_age_limit by (auto simp: get_snapshot_max_age_days_def)
  have c: "cutoff_before C now days = ?c" using cutoff_in_range[OF assms(1) lim assms(6,7)] .
  have rows: "spec_versions (snd (cleanup_expired_snapshots C now db)) = delete_where (expired_snapshot (rfc3339 C ?c)) (spec_versions db)"
    using assms(2,3) c by (simp add: cleanup_rows)
  have exp: "expired_snapshot (rfc3339 C ?c) v \<longleftrightarrow> v_stability v = Snapshot \<and> last_used u r < ?c"
    by (rule expired_iff_unused[OF assms(1,5,6)]) (use assms(7) in simp)
  have "used_at C lo hi (spec_version_meta.truncate v) u r" using assms(5) by (simp add: used_at_def spec_version_meta.defs)
  note use = last_use_stamp[OF assms(1) this]
  have "expires_at C days (spec_version_meta.truncate v) = Some (iso C (last_used u r + int days * 86400))" if "v_stability v = Snapshot"
    using that assms(1,3,8) use calendarD(1)[OF assms(1) use(2,3)] days_in_limit[OF lim]
    by (simp add: expires_at_def calendar_ok_def spec_version_meta.defs)
  with exp assms(4) show ?thesis by (auto simp: rows set_delete_where split: stability.split)
qed

text \<open>A calendar that counts seconds by the length of its stamps.\<close>

definition tally :: "int \<Rightarrow> stamp" where
  "tally a = replicate (nat a) CHR ''I''"

definition tally_time :: admin_time where
  "tally_time = \<lparr>iso = tally, parse_rfc3339 = (\<lambda>s. Some (int (length s))), max_utc = 10000000000, min_utc = 0, rfc3339 = tally\<rparr>"

lemma replicate_less: "replicate m (x :: char) < replicate n x \<longleftrightarrow> m < n"
proof (induction m arbitrary: n)
  case 0
  show ?case by (cases n) auto
next
  case (Suc m)
  then show ?case by (cases n) auto
qed

lemma tally_calendar: "calendar_ok tally_time 0 10000000000"
  by (auto simp: calendar_ok_def tally_time_def tally_def replicate_less)

definition aged_snapshot :: spec_version_row where
  "aged_snapshot = \<lparr>v_id = 1, v_service_id = 1, v_api_type = OpenApi, v_version = SemVer 1 0 0, v_stability = Snapshot,
     v_content_hash = ''h'', v_provided_by = ''ann'', v_created_at = tally 86400, v_updated_at = tally 86400,
     v_last_required_at = Some (tally (2 * 86400)), v_trunk_provided_at = None, v_content = ''x''\<rparr>"

definition aged_db :: db where
  "aged_db = empty_db\<lparr>services := [(1, ''orders'')], next_service := 2, spec_versions := [aged_snapshot], next_spec_version := 2\<rparr>"

lemma aged_facts:
  "get_snapshot_max_age_days aged_db = 30" "aged_snapshot \<in> set (spec_versions aged_db)"
  "used_at tally_time 0 10000000000 aged_snapshot 86400 (Some (2 * 86400))" "v_stability aged_snapshot = Snapshot"
  by (simp_all add: aged_db_def empty_db_def get_snapshot_max_age_days_def get_max_age_days_def get_setting_def
      max_age_days_limit_def used_at_def aged_snapshot_def tally_time_def)

theorem expiry_as_announced_witness:
  "aged_snapshot \<in> set (spec_versions (snd (cleanup_expired_snapshots tally_time (32 * 86400) aged_db))) \<and>
   aged_snapshot \<notin> set (spec_versions (snd (cleanup_expired_snapshots tally_time (32 * 86400 + 1) aged_db)))"
  using expiry_as_announced[OF tally_calendar aged_facts(1) _ aged_facts(2,3), of "32 * 86400"]
    expiry_as_announced[OF tally_calendar aged_facts(1) _ aged_facts(2,3), of "32 * 86400 + 1"] aged_facts(4)
  by (simp add: last_used_def)

section \<open>Use keeps a snapshot\<close>

lemma record_pins_frame:
  "spec_versions (record_pins E consumer producer entry es stream db) =
     update_where (\<lambda>r. v_id r = v_id entry) (v_last_required_at_update (\<lambda>_. Some (clock E 2))) (spec_versions db)"
  "endpoints (record_pins E consumer producer entry es stream db) = endpoints db"
  "services (record_pins E consumer producer entry es stream db) = services db"
  "settings (record_pins E consumer producer entry es stream db) = settings db"
  by (simp_all add: record_pins_def record_stream_pins_def record_trunk_pins_def record_branch_pins_def
      touch_spec_version_required_def record_dependencies_bulk_def insert_webhook_events_def ensure_client_def
      Let_def case_prod_beta split: option.split)

lemma find_filter: "(\<And>x. x \<in> set xs \<Longrightarrow> p x \<Longrightarrow> q x) \<Longrightarrow> find p (filter q xs) = find p xs"
  by (induction xs) auto

text \<open>What a removal leaves of a version that stays.\<close>

lemma remove_versions_keeps:
  assumes "versions_ok db" and "find_version_row db sid t v = Some row" and "\<not> gone row"
  shows "find_version_row (remove_versions gone db) sid t v = Some row"
    and "find_endpoint (remove_versions gone db) (v_id row) t' path m = find_endpoint db (v_id row) t' path m"
proof -
  have row: "row \<in> set (spec_versions db)" "version_key row = (sid, t, v)"
    using assms(2) by (auto simp: find_version_row_def dest: find_Some_in)
  have "inj_on version_key (set (spec_versions db))" "inj_on v_id (set (spec_versions db))"
    using assms(1) by (auto simp: versions_ok_def distinct_map)
  then have same: "x = row" if "x \<in> set (spec_versions db)" "version_key x = (sid, t, v) \<or> v_id x = v_id row" for x
    using row that by (metis inj_onD)
  show "find_version_row (remove_versions gone db) sid t v = Some row"
    using assms(2,3) same unfolding find_version_row_def
    by (simp add: delete_where_def) (subst find_filter, auto)
  have "v_id row \<notin> set (map v_id (filter gone (spec_versions db)))" using same assms(3) by auto
  then show "find_endpoint (remove_versions gone db) (v_id row) t' path m = find_endpoint db (v_id row) t' path m"
    unfolding find_endpoint_def remove_versions_def Let_def by (simp add: delete_where_def) (subst find_filter, auto)
qed

lemma cleanup_cases:
  obtains "cleanup_expired_snapshots C now db = (0, db)"
  | gone n os where "gone = expired_snapshot (rfc3339 C (cutoff_before C now (get_snapshot_max_age_days db)))"
      "cleanup_expired_snapshots C now db = (n, (remove_versions gone db)\<lparr>origins := os\<rparr>)"
  by (cases "get_snapshot_max_age_days db = 0")
    (auto simp: cleanup_expired_snapshots_def Let_def delete_expired_snapshots_def)

text \<open>
  C25: A snapshot that is in use does not expire. When a Consumer's Require of
  an endpoint was served at some moment, then after any cleanup that runs
  within the window from that moment the same Require is served again, with
  the same text, deprecation mark and stability.
\<close>

theorem required_snapshot_stays:
  assumes "catalog_inv db" and "require_endpoint T E p db = Inr (a, db1)" and "calendar_ok C lo hi"
    and "clock E 2 = iso C t" and "lo \<le> t" and "t \<le> now" and "now \<le> hi"
    and "lo \<le> now - int (get_snapshot_max_age_days db) * 86400" and "now \<le> t + int (get_snapshot_max_age_days db) * 86400"
  shows "\<exists>a' db2. require_endpoint T E' p (snd (cleanup_expired_snapshots C now db1)) = Inr (a', db2) \<and>
    rr_yaml a' = rr_yaml a \<and> rr_deprecated a' = rr_deprecated a \<and> rr_stability a' = rr_stability a"
proof -
  let ?days = "get_snapshot_max_age_days db" and ?m = "method_for (rq_api_type p) (rq_method p)"
  from assms(2) obtain sid entry e yaml where
      pin: "resolve_pin db (rq_producer p) (rq_api_type p) (rq_version p) = Inr (sid, entry)"
    and e: "find_endpoint db (v_id entry) (rq_api_type p) (rq_path p) ?m = Some e"
    and yaml: "(case rq_format p of NativeFormat \<Rightarrow> Inr (e_yaml_content e)
        | OpenApiFormat \<Rightarrow> to_openapi T (rq_producer p) (rq_version p) [e_yaml_content e]) = Inr yaml"
    and a: "rr_yaml a = yaml" "rr_deprecated a = e_deprecated e" "rr_stability a = v_stability entry"
    and db1: "db1 = record_pins E (rq_consumer p) (rq_producer p) entry [(rq_path p, ?m)] (resolve_stream db (rq_trunk p) (rq_tag p)) db"
    unfolding require_endpoint_def require_endpoint_inner_def Let_def by (auto simp: and_then_Inr_iff split: option.splits)
  from resolve_pin_Inr[OF assms(1) pin] obtain row where
    row: "find_service db (rq_producer p) = Some sid" "find_version_row db sid (rq_api_type p) (rq_version p) = Some row"
      "entry = spec_version_meta.truncate row" .
  let ?row = "row\<lparr>v_last_required_at := Some (iso C t)\<rparr>"
  have id: "v_id entry = v_id row" "v_stability entry = v_stability row" by (simp_all add: row(3) spec_version_meta.defs)
  have f1: "find_version_row db1 sid (rq_api_type p) (rq_version p) = Some ?row"
    using row(2) unfolding find_version_row_def db1 record_pins_frame
    by (subst find_update_where) (auto simp: version_key_def assms(4) id)
  have f2: "find_service db1 (rq_producer p) = Some sid" "find_endpoint db1 (v_id row) (rq_api_type p) (rq_path p) ?m = Some e"
    using row(1) e id by (simp_all add: db1 find_service_def find_endpoint_def record_pins_frame)
  have inv1: "versions_ok db1"
    using quiet_inv[OF quiet_record_pins assms(1)] by (auto simp: db1 catalog_inv_def)
  have days: "get_snapshot_max_age_days db1 = ?days"
    by (simp add: db1 get_snapshot_max_age_days_def get_max_age_days_def get_setting_def record_pins_frame)
  have lim: "?days \<le> max_age_days_limit" by (simp add: get_snapshot_max_age_days_def max_age_limit)
  have alive: "\<not> expired_snapshot (rfc3339 C (cutoff_before C now ?days)) ?row"
    using calendarD(3)[OF assms(3,5), of "now - int ?days * 86400"] assms(6-9)
    by (simp add: cutoff_in_range[OF assms(3) lim assms(8,7)] expired_snapshot_def)
  let ?db' = "snd (cleanup_expired_snapshots C now db1)"
  have kept: "find_version_row ?db' sid (rq_api_type p) (rq_version p) = Some ?row"
      "find_endpoint ?db' (v_id row) (rq_api_type p) (rq_path p) ?m = Some e" "find_service ?db' (rq_producer p) = Some sid"
    using remove_versions_keeps[OF inv1 f1, of "expired_snapshot (rfc3339 C (cutoff_before C now ?days))"] alive f1 f2
    by (cases rule: cleanup_cases[of C now db1],
        simp_all add: days find_version_row_def find_endpoint_def find_service_def)+
  then have "resolve_pin ?db' (rq_producer p) (rq_api_type p) (rq_version p) = Inr (sid, spec_version_meta.truncate ?row)"
    by (simp add: resolve_pin_def find_spec_version_def)
  then show ?thesis using kept(2) yaml a id
    unfolding require_endpoint_def require_endpoint_inner_def Let_def by (simp add: spec_version_meta.defs)
qed

definition used_env :: env where
  "used_env = quiet_env\<lparr>clock := (\<lambda>_. tally (40 * 86400))\<rparr>"

lemma sample_snapshot_inv: "catalog_inv sample_snapshot"
proof -
  have "catalog_inv empty_db" "docs_ok sample_spec empty_db" by code_simp (simp add: docs_ok_def empty_db_def)
  with provide_keeps[OF surjective_pairing] show ?thesis by (auto simp: sample_snapshot_def sample_run_def)
qed

lemma sample_snapshot_required:
  "\<exists>a db1. require_endpoint sample_spec used_env sample_endpoint_request sample_snapshot = Inr (a, db1) \<and> rr_stability a = Snapshot"
proof -
  have "case resolve_pin sample_snapshot ''api'' OpenApi (SemVer 1 0 0) of
      Inr (sid, entry) \<Rightarrow> v_stability entry = Snapshot \<and> find_endpoint sample_snapshot (v_id entry) OpenApi ''/a'' ''GET'' \<noteq> None
    | Inl _ \<Rightarrow> False" by code_simp
  moreover have "method_for OpenApi ''get'' = ''GET''" by code_simp
  ultimately show ?thesis
    unfolding require_endpoint_def require_endpoint_inner_def Let_def
    by (auto simp: sample_endpoint_request_def split: sum.splits)
qed

theorem required_snapshot_stays_witness:
  "\<exists>a db1 a' db2. require_endpoint sample_spec used_env sample_endpoint_request sample_snapshot = Inr (a, db1) \<and>
     require_endpoint sample_spec quiet_env sample_endpoint_request (snd (cleanup_expired_snapshots tally_time (60 * 86400) db1)) = Inr (a', db2) \<and>
     rr_stability a' = Snapshot \<and> rr_yaml a' = rr_yaml a"
proof -
  obtain a db1 where run: "require_endpoint sample_spec used_env sample_endpoint_request sample_snapshot = Inr (a, db1)"
    "rr_stability a = Snapshot" using sample_snapshot_required by blast
  have "get_setting sample_snapshot ''snapshot_max_age_days'' = None" by code_simp
  then have days: "get_snapshot_max_age_days sample_snapshot = 30"
    by (simp add: get_snapshot_max_age_days_def get_max_age_days_def max_age_days_limit_def)
  have "clock used_env 2 = iso tally_time (40 * 86400)" by (simp add: used_env_def tally_time_def)
  from required_snapshot_stays[OF sample_snapshot_inv run(1) tally_calendar this, of "60 * 86400" quiet_env] run show ?thesis
    by (auto simp: days)
qed

section \<open>A participant leaves\<close>

lemma close_catalog_rest:
  "\<exists>p c. close_catalog_of now sys db = db\<lparr>periphery := p, system_contexts := c\<rparr>"
proof -
  obtain p where "snd (reconcile_periphery sys True [] now [] db) = db\<lparr>periphery := p\<rparr>"
    by (simp add: reconcile_periphery_def write_outbox_def Let_def)
  then show ?thesis by (auto simp: close_catalog_of_def delete_system_context_def)
qed

lemma departed_rest: "\<exists>p c. close_catalog_of_departed now cs db = db\<lparr>periphery := p, system_contexts := c\<rparr>"
proof -
  have "\<exists>p c. foldl (\<lambda>d sys. if sys \<in> R then d else close_catalog_of now sys d) d cs = d\<lparr>periphery := p, system_contexts := c\<rparr>" for R d
  proof (induction cs arbitrary: d)
    case Nil
    have "d = d\<lparr>periphery := periphery d, system_contexts := system_contexts d\<rparr>" by simp
    then show ?case by (simp only: foldl_Nil) blast
  next
    case (Cons sys cs)
    obtain p c where one: "close_catalog_of now sys d = d\<lparr>periphery := p, system_contexts := c\<rparr>" using close_catalog_rest by blast
    show ?case using Cons[of d] Cons[of "close_catalog_of now sys d"] by (auto simp: one)
  qed
  then show ?thesis by (simp add: close_catalog_of_departed_def Let_def)
qed

lemma participants_cong:
  "services db' = services db \<Longrightarrow> clients db' = clients db \<Longrightarrow> dependencies db' = dependencies db \<Longrightarrow> participants db' = participants db"
  by (simp add: participants_def list_producers_def list_consumers_def get_client_name_def)

lemma departed_gone:
  assumes "nm \<notin> set (participants db)"
  shows "get_system_context (close_catalog_of_departed now [nm] db) nm = None"
    and "tr \<in> {DevTrack, TrunkTrack} \<Longrightarrow> nm \<notin> fst ` set (list_periphery (close_catalog_of_departed now [nm] db) tr None)"
proof -
  have one: "close_catalog_of_departed now [nm] db = close_catalog_of now nm db"
    using assms by (simp add: close_catalog_of_departed_def Let_def)
  show "get_system_context (close_catalog_of_departed now [nm] db) nm = None"
    unfolding one by (simp add: close_catalog_of_def delete_system_context_def get_system_context_def map_of_delete)
  have "periphery (close_catalog_of now nm db) = periphery (snd (reconcile_periphery nm True [] now [] db))"
    by (simp add: close_catalog_of_def delete_system_context_def)
  then show "nm \<notin> fst ` set (list_periphery (close_catalog_of_departed now [nm] db) tr None)" if "tr \<in> {DevTrack, TrunkTrack}"
    unfolding one current_periphery using that by (auto simp: reconcile_periphery_current)
qed

text \<open>Deleting a participant in either role.\<close>

definition delete_participant :: "participant_role \<Rightarrow> env \<Rightarrow> string \<Rightarrow> db \<Rightarrow> app_error + bool \<times> db" where
  "delete_participant role = (case role of AsConsumer \<Rightarrow> admin_delete_consumer | AsProducer \<Rightarrow> admin_delete_producer)"

definition participant_id :: "participant_role \<Rightarrow> db \<Rightarrow> string \<Rightarrow> row_id option" where
  "participant_id role = (case role of AsConsumer \<Rightarrow> find_client | AsProducer \<Rightarrow> find_service)"

definition pin_id :: "participant_role \<Rightarrow> 'a pin_row_scheme \<Rightarrow> row_id" where
  "pin_id role = (case role of AsConsumer \<Rightarrow> k_client_id | AsProducer \<Rightarrow> k_service_id)"

definition repo_delete_participant :: "participant_role \<Rightarrow> string \<Rightarrow> stamp \<Rightarrow> db \<Rightarrow> bool \<times> db" where
  "repo_delete_participant role = (case role of AsConsumer \<Rightarrow> delete_consumer | AsProducer \<Rightarrow> delete_producer)"

lemma delete_participant_steps:
  assumes "delete_participant role E nm db = Inr (deleted, db')"
  obtains db1 where "list_participant_branch_references db nm role = []"
    "repo_delete_participant role nm (clock E 1) db = (deleted, db1)"
    "db' = (if deleted then close_catalog_of_departed (clock E 2) [nm] db1 else db1)"
  using assms
  by (cases role) (auto simp: delete_participant_def repo_delete_participant_def admin_delete_consumer_def admin_delete_producer_def
      and_then_Inr_iff refuse_if_a_release_graph_needs_it_def Let_def split: prod.splits if_splits)

lemma repo_delete_facts:
  assumes "catalog_inv db" and "repo_delete_participant role nm now db = (deleted, db1)"
  shows "deleted \<longleftrightarrow> participant_id role db nm \<noteq> None" and "participant_id role db1 nm = None"
    and "branch_deps db1 = branch_deps db" and "branch_members db1 = branch_members db"
    and "\<forall>r \<in> set (trunk_deps db1). is_open r \<longrightarrow> participant_id role db nm \<noteq> Some (pin_id role r)"
    and "history_steps pin_key pin_view now (trunk_deps db) (trunk_deps db1)"
proof -
  note defs = repo_delete_participant_def participant_id_def delete_consumer_def delete_producer_def find_client_def find_service_def Let_def
  have ok: "ids_ok (next_service db) (services db)" "ids_ok (next_client db) (clients db)" using assms(1) by (auto simp: catalog_inv_def)
  show "deleted \<longleftrightarrow> participant_id role db nm \<noteq> None" "branch_deps db1 = branch_deps db" "branch_members db1 = branch_members db"
    using assms(2) by (cases role; auto simp: defs remove_versions_def split: option.splits)+
  have gone: "find (\<lambda>s. snd s = nm) (delete_where (\<lambda>s. fst s = i) rs) = None"
    if "ids_ok n rs" "find (\<lambda>s. snd s = nm) rs = Some x" "i = fst x" for n rs i and x :: "row_id \<times> string"
  proof -
    have "x \<in> set rs" "snd x = nm" "inj_on snd (set rs)" using that by (auto simp: ids_ok_def distinct_map dest: find_Some_in)
    then have "y = x" if "y \<in> set rs" "snd y = nm" for y using that by (metis inj_onD)
    with that(3) show ?thesis by (auto simp: find_None_not set_delete_where)
  qed
  show "participant_id role db1 nm = None"
    using assms(2) gone[OF ok(1)] gone[OF ok(2)] by (cases role) (auto simp: defs split: option.splits)
  show "\<forall>r \<in> set (trunk_deps db1). is_open r \<longrightarrow> participant_id role db nm \<noteq> Some (pin_id role r)"
    using assms(2) by (cases role) (auto simp: defs pin_id_def close_where_def update_where_def split: option.splits if_splits)
  show "history_steps pin_key pin_view now (trunk_deps db) (trunk_deps db1)"
    using run_trunk_steps[of now db "DeleteProducer nm"] run_trunk_steps[of now db "DeleteConsumer nm"] assms(2)
    by (cases role) (simp_all add: repo_delete_participant_def)
qed

text \<open>
  What a participant leaves behind: no row of the catalogue is current under its id.
  The versions are those the Producer had before.
\<close>

definition nothing_left :: "participant_role \<Rightarrow> row_id \<Rightarrow> row_id set \<Rightarrow> db \<Rightarrow> bool" where
  "nothing_left role i vids db \<longleftrightarrow>
     (\<forall>r \<in> set (trunk_deps db). is_open r \<longrightarrow> pin_id role r \<noteq> i) \<and>
     (case role of
        AsConsumer \<Rightarrow> (\<forall>d \<in> set (dependencies db). dep_client_id d \<noteq> i) \<and> (\<forall>h \<in> set (harvested db). hv_client_id h \<noteq> i)
      | AsProducer \<Rightarrow>
          (\<forall>r \<in> set (trunk_members db). is_open r \<longrightarrow> mv_service_id r \<noteq> i) \<and>
          (\<forall>v \<in> set (spec_versions db). v_service_id v \<noteq> i) \<and>
          (\<forall>e \<in> set (endpoints db). e_spec_version_id e \<notin> vids) \<and>
          (\<forall>d \<in> set (dependencies db). dep_spec_version_id d \<notin> vids) \<and>
          (\<forall>x \<in> set (origins db). fst x \<notin> vids) \<and>
          (\<forall>c \<in> set (contracts db). c_owner_service_id c \<noteq> i) \<and>
          (\<forall>t \<in> set (service_tags db). fst t \<noteq> i) \<and> (\<forall>m \<in> set (service_metas db). fst m \<noteq> i) \<and>
          (\<forall>h \<in> set (harvested db). hv_owner_service_id h \<noteq> Some i))"

lemma repo_delete_leaves_nothing:
  assumes "repo_delete_participant role nm now db = (deleted, db1)" and "participant_id role db nm = Some i"
  shows "nothing_left role i (v_id ` {v \<in> set (spec_versions db). v_service_id v = i}) db1"
proof (cases role)
  case AsConsumer
  with assms show ?thesis
    by (auto simp: nothing_left_def repo_delete_participant_def participant_id_def delete_consumer_def pin_id_def
        close_where_def update_where_def set_delete_where split: if_splits)
next
  case AsProducer
  with assms show ?thesis
    by (auto simp: nothing_left_def repo_delete_participant_def participant_id_def delete_producer_def pin_id_def Let_def remove_versions_def
        close_where_def update_where_def set_delete_where split: if_splits)
qed

lemma nothing_left_departed: "nothing_left role i vids (close_catalog_of_departed now cs db) = nothing_left role i vids db"
proof -
  obtain p c where "close_catalog_of_departed now cs db = db\<lparr>periphery := p, system_contexts := c\<rparr>" using departed_rest by blast
  then show ?thesis by (cases role) (simp_all add: nothing_left_def)
qed

text \<open>Closing rows changes nothing a reader of the past gets.\<close>

lemma closed_later:
  assumes "t < now" and "\<And>r. view (close_row now r) = view r"
  shows "map view (filter (alive_at t) (close_where p now rs)) = map view (filter (alive_at t) rs)"
  using assms by (induction rs) (auto simp: close_where_def update_where_def close_row_def alive_at_def is_open_def)

lemma repo_delete_past:
  assumes "repo_delete_participant role nm now db = (deleted, db1)" and "t < now"
  shows "list_trunk_pins_at db1 t = list_trunk_pins_at db t" "seen_at member_view t (trunk_members db1) = seen_at member_view t (trunk_members db)"
proof -
  have pins: "pin_row_to_info (close_row now r) = pin_row_to_info r" for r :: pin_row by (simp add: pin_row_to_info_def close_row_def)
  have members: "member_view (close_row now r) = member_view r" for r :: trunk_member_row by (simp add: member_view_def close_row_def)
  have kept: "map pin_row_to_info (filter (alive_at t) (close_where p now (trunk_deps db))) = map pin_row_to_info (filter (alive_at t) (trunk_deps db))"
    "map member_view (filter (alive_at t) (close_where q now (trunk_members db))) = map member_view (filter (alive_at t) (trunk_members db))" for p q
    by (rule closed_later[OF assms(2)], simp add: pins members)+
  from assms(1) kept show "list_trunk_pins_at db1 t = list_trunk_pins_at db t"
      "seen_at member_view t (trunk_members db1) = seen_at member_view t (trunk_members db)"
    by (cases role; auto simp: repo_delete_participant_def list_trunk_pins_at_def seen_at_def delete_producer_def delete_consumer_def
        remove_versions_def Let_def split: option.splits)+
qed

lemma branch_references_none:
  assumes "list_participant_branch_references db nm role = []" and "b \<in> set (branches db)"
  shows "p \<in> set (list_branch_pins db (b_id b) None) \<Longrightarrow> pin_participant role p \<noteq> nm"
    and "m \<in> set (branch_members db) \<Longrightarrow> is_open m \<and> mv_branch_id m = b_id b \<and> role = AsProducer \<Longrightarrow> find_service db nm \<noteq> Some (mv_service_id m)"
proof -
  have unnamed: "b_name x \<notin> set (member_branches db nm role) \<and> (\<forall>p \<in> set (list_branch_pins db (b_id x) None). pin_participant role p \<noteq> nm)"
    if "x \<in> set (branches db)" for x
    using assms(1) that by (auto simp: list_participant_branch_references_def filter_empty_conv list_ex_iff list_branches_def)
  show "p \<in> set (list_branch_pins db (b_id b) None) \<Longrightarrow> pin_participant role p \<noteq> nm" using unnamed[OF assms(2)] by blast
  show "find_service db nm \<noteq> Some (mv_service_id m)" if m: "m \<in> set (branch_members db)" "is_open m \<and> mv_branch_id m = b_id b \<and> role = AsProducer"
  proof
    assume sid: "find_service db nm = Some (mv_service_id m)"
    obtain x where x: "find (\<lambda>x. b_id x = mv_branch_id m) (branches db) = Some x"
      using assms(2) m(2) by (cases "find (\<lambda>x. b_id x = mv_branch_id m) (branches db)") (auto simp: find_None_not)
    then have "(b_name x, api_type_as_str (mv_api_type m), mv_version m) \<in> set (list_branch_memberships_for_service db (mv_service_id m))"
      using m by (force simp: list_branch_memberships_for_service_def branch_name_of_def map_filter_def)
    then have "b_name x \<in> set (member_branches db nm role)" using sid m(2) by (force simp: member_branches_def)
    with unnamed[of x] find_Some_in[OF x] show False by blast
  qed
qed

text \<open>
  C26: Deleting a participant never rewrites a release. A Producer or Consumer
  is deleted only when no current pin of any sanshain-branch names it in that
  role and, for a Producer, it is a current member of none. Every branch graph
  stays as it is at every instant, its member versions too, and the main graph
  answers for an earlier instant what it answered before. Afterwards the name is free,
  and no row of the catalogue is current under its id (\<open>nothing_left\<close>): no open pin of
  the main graph; for a Consumer no dev dependency and no harvested subscription; for
  a Producer no open member version of the main graph, no version with its endpoints,
  dev dependencies and origins, no contract, tag or metadata, and no subscription it
  is named the owner of. A system that is no participant any more, in neither role,
  has no context and no current periphery on the dev and the trunk track.
\<close>

theorem departure_keeps_releases:
  assumes "catalog_inv db" and "delete_participant role E nm db = Inr (deleted, db')"
  shows "(\<forall>b \<in> set (branches db). (\<forall>p \<in> set (list_branch_pins db (b_id b) None). pin_participant role p \<noteq> nm) \<and>
      (\<forall>m \<in> set (branch_members db). is_open m \<and> mv_branch_id m = b_id b \<and> role = AsProducer \<longrightarrow> find_service db nm \<noteq> Some (mv_service_id m))) \<and>
    (\<forall>b at. list_branch_pins db' b at = list_branch_pins db b at) \<and> branch_members db' = branch_members db \<and>
    (\<forall>t. t < clock E 1 \<longrightarrow> list_trunk_pins_at db' t = list_trunk_pins_at db t \<and>
       seen_at pin_view t (trunk_deps db') = seen_at pin_view t (trunk_deps db) \<and>
       seen_at member_view t (trunk_members db') = seen_at member_view t (trunk_members db)) \<and>
    (deleted \<longleftrightarrow> participant_id role db nm \<noteq> None) \<and> participant_id role db' nm = None \<and>
    (\<forall>i. participant_id role db nm = Some i \<longrightarrow>
       nothing_left role i (v_id ` {v \<in> set (spec_versions db). v_service_id v = i}) db') \<and>
    (deleted \<and> nm \<notin> set (participants db') \<longrightarrow> get_system_context db' nm = None \<and>
       (\<forall>tr \<in> {DevTrack, TrunkTrack}. nm \<notin> fst ` set (list_periphery db' tr None)))"
proof -
  from delete_participant_steps[OF assms(2)] obtain db1 where s: "list_participant_branch_references db nm role = []"
    "repo_delete_participant role nm (clock E 1) db = (deleted, db1)"
    "db' = (if deleted then close_catalog_of_departed (clock E 2) [nm] db1 else db1)" .
  note facts = repo_delete_facts[OF assms(1) s(2)]
  obtain p c where "close_catalog_of_departed (clock E 2) [nm] db1 = db1\<lparr>periphery := p, system_contexts := c\<rparr>" using departed_rest by blast
  then have same: "trunk_deps db' = trunk_deps db1" "branch_deps db' = branch_deps db1" "branch_members db' = branch_members db1"
    "services db' = services db1" "clients db' = clients db1" "dependencies db' = dependencies db1" "trunk_members db' = trunk_members db1"
    using s(3) by auto
  note unnamed = branch_references_none[OF s(1)]
  have past: "list_trunk_pins_at db' t = list_trunk_pins_at db t \<and> seen_at pin_view t (trunk_deps db') = seen_at pin_view t (trunk_deps db) \<and>
      seen_at member_view t (trunk_members db') = seen_at member_view t (trunk_members db)" if "t < clock E 1" for t
    using history_past[OF facts(6) trunk_pins.view_closed that] repo_delete_past[OF s(2) that] same by (simp add: list_trunk_pins_at_def)
  have ids: "participant_id role db' nm = participant_id role db1 nm"
    using same by (simp add: participant_id_def find_client_def find_service_def split: participant_role.split)
  have left: "nothing_left role i (v_id ` {v \<in> set (spec_versions db). v_service_id v = i}) db'" if "participant_id role db nm = Some i" for i
    using repo_delete_leaves_nothing[OF s(2) that] s(3) by (simp add: nothing_left_departed)
  have dep: "get_system_context db' nm = None \<and> (\<forall>tr \<in> {DevTrack, TrunkTrack}. nm \<notin> fst ` set (list_periphery db' tr None))"
    if "deleted" "nm \<notin> set (participants db')"
  proof -
    have "nm \<notin> set (participants db1)" using that(2) participants_cong[OF same(4-6)] by simp
    with departed_gone[OF this] that(1) s(3) show ?thesis by simp
  qed
  have "list_branch_pins db' b at = list_branch_pins db b at" for b at
    using same facts(3) by (simp add: list_branch_pins_def)
  with unnamed past facts(1-4) ids dep same left show ?thesis by auto
qed

theorem departure_keeps_releases_witness:
  "\<exists>db'. delete_participant AsProducer quiet_env ''api'' sample_required = Inr (True, db') \<and>
     participant_id AsProducer db' ''api'' = None \<and> list_current_trunk_pins sample_required \<noteq> [] \<and>
     filter is_open (trunk_deps db') = []"
proof -
  let ?x = "delete_participant AsProducer quiet_env ''api'' sample_required"
  have "case ?x of Inr (d, _) \<Rightarrow> d | Inl _ \<Rightarrow> False" by code_simp
  then obtain db' where run: "?x = Inr (True, db')" by (auto split: sum.splits)
  have inv: "catalog_inv sample_required"
  proof -
    have "case require_bundle sample_spec quiet_env sample_bundle_request sample_released of Inr _ \<Rightarrow> True | Inl _ \<Rightarrow> False" by code_simp
    then show ?thesis using quiet_inv[OF quiet_record_pins sample_released_ok(1)] sample_released_ok(1)
      unfolding sample_required_def require_bundle_def by (auto elim!: require_bundle_Inr split: sum.splits)
  qed
  have pins: "list_current_trunk_pins sample_required \<noteq> []" by code_simp
  have sid: "participant_id AsProducer sample_required ''api'' = Some 1" by code_simp
  from departure_keeps_releases[OF inv run] sid have
    "participant_id AsProducer db' ''api'' = None" "\<forall>r \<in> set (trunk_deps db'). is_open r \<longrightarrow> pin_id AsProducer r \<noteq> 1" by (auto simp: nothing_left_def)
  moreover have "\<forall>r \<in> set (trunk_deps db'). pin_id AsProducer r = 1"
  proof -
    have "case ?x of Inr (_, d) \<Rightarrow> list_all (\<lambda>r. pin_id AsProducer r = 1) (trunk_deps d) | Inl _ \<Rightarrow> False" by code_simp
    with run show ?thesis by (simp add: list_all_iff)
  qed
  ultimately show ?thesis using run pins by (auto simp: filter_empty_conv)
qed

section \<open>Retiring a family\<close>

lemma release_contracts_eq:
  "contracts (snd (release_contracts sid db)) =
     delete_where (\<lambda>c. \<exists>c' \<in> set (contracts db). c_owner_service_id c' = sid \<and> contract_key c' = contract_key c) (contracts db)"
  "(snd (release_contracts sid db))\<lparr>contracts := x\<rparr> = db\<lparr>contracts := x\<rparr>"
proof -
  let ?f = "\<lambda>(n, d) c. if c_owner_service_id c = sid
     then (Suc n, delete_channel_message_contract (c_channel c) (c_message_name c) d) else (n, d)"
  have fold: "contracts (snd (foldl ?f (n, d) cs)) =
        delete_where (\<lambda>c. \<exists>c' \<in> set cs. c_owner_service_id c' = sid \<and> contract_key c' = contract_key c) (contracts d) \<and>
      (snd (foldl ?f (n, d) cs))\<lparr>contracts := x\<rparr> = d\<lparr>contracts := x\<rparr>" for n d cs
    by (induction cs arbitrary: n d)
      (auto simp: delete_channel_message_contract_def delete_where_def contract_key_def intro!: filter_cong)
  show "contracts (snd (release_contracts sid db)) =
     delete_where (\<lambda>c. \<exists>c' \<in> set (contracts db). c_owner_service_id c' = sid \<and> contract_key c' = contract_key c) (contracts db)"
    "(snd (release_contracts sid db))\<lparr>contracts := x\<rparr> = db\<lparr>contracts := x\<rparr>"
    using fold[of 0 db "list_channel_message_contracts db"]
    by (simp_all add: release_contracts_def list_channel_message_contracts_def)
qed

lemma release_contracts_owned:
  assumes "distinct (map contract_key (contracts db))"
  shows "contracts (snd (release_contracts sid db)) = filter (\<lambda>c. c_owner_service_id c \<noteq> sid) (contracts db)"
proof -
  have "inj_on contract_key (set (contracts db))" using assms by (simp add: distinct_map)
  then have "(\<exists>c' \<in> set (contracts db). c_owner_service_id c' = sid \<and> contract_key c' = contract_key c) \<longleftrightarrow> c_owner_service_id c = sid"
    if "c \<in> set (contracts db)" for c using that by (metis inj_onD)
  then show ?thesis unfolding release_contracts_eq(1) delete_where_def by (intro filter_cong) auto
qed

lemma release_contracts_frame:
  "spec_versions (snd (release_contracts sid db)) = spec_versions db" "endpoints (snd (release_contracts sid db)) = endpoints db"
  "services (snd (release_contracts sid db)) = services db" "trunk_deps (snd (release_contracts sid db)) = trunk_deps db"
  "service_tags (snd (release_contracts sid db)) = service_tags db"
  using arg_cong[OF release_contracts_eq(2)[where x = "[]" and sid = sid and db = db], of spec_versions] arg_cong[OF release_contracts_eq(2)[where x = "[]" and sid = sid and db = db], of endpoints]
    arg_cong[OF release_contracts_eq(2)[where x = "[]" and sid = sid and db = db], of services] arg_cong[OF release_contracts_eq(2)[where x = "[]" and sid = sid and db = db], of trunk_deps]
    arg_cong[OF release_contracts_eq(2)[where x = "[]" and sid = sid and db = db], of service_tags] by simp_all

lemma resolve_pin_cong:
  "services db' = services db \<Longrightarrow> spec_versions db' = spec_versions db \<Longrightarrow> resolve_pin db' = resolve_pin db"
proof (intro ext)
  fix producer t v
  assume "services db' = services db" "spec_versions db' = spec_versions db"
  then have "find_service db' = find_service db" "find_spec_version db' = find_spec_version db"
    by (simp_all add: find_service_def find_spec_version_def find_version_row_def fun_eq_iff)
  then show "resolve_pin db' producer t v = resolve_pin db producer t v" unfolding resolve_pin_def by (simp split: option.split)
qed

text \<open>
  Retiring a family takes down the offer and keeps the history. It needs a
  releaser or someone who may manage that Producer. Afterwards no current pin
  of the main graph points at the family, its capability tag is gone and the
  message contracts the Producer owned are free, those of others untouched;
  every stored version and endpoint is as it was, so existing Pins resolve as
  before, and the main graph of earlier instants is unchanged.
\<close>

lemma retire_keeps_versions:
  assumes "distinct (map contract_key (contracts db))"
    and "retire_protocol_family P E producer t caller False db = Inr (r, db')"
  shows "may_retire P db producer caller \<and> spec_versions db' = spec_versions db \<and> endpoints db' = endpoints db \<and>
    resolve_pin db' = resolve_pin db \<and>
    (\<forall>i. i < clock E 1 \<longrightarrow> seen_at pin_view i (trunk_deps db') = seen_at pin_view i (trunk_deps db)) \<and>
    (\<exists>sid. find_service db producer = Some sid \<and>
       (\<forall>k \<in> set (trunk_deps db'). is_open k \<longrightarrow> \<not> (k_service_id k = sid \<and> k_api_type k = t)) \<and>
       filter (\<lambda>k. is_open k) (trunk_deps db') = filter (\<lambda>k. is_open k \<and> \<not> (k_service_id k = sid \<and> k_api_type k = t)) (trunk_deps db) \<and>
       (\<forall>tag. family_tag t = Some tag \<longrightarrow> (sid, tag) \<notin> set (service_tags db')) \<and>
       contracts db' = (if t = AsyncApi then filter (\<lambda>c. c_owner_service_id c \<noteq> sid) (contracts db) else contracts db))"
proof -
  from assms(2) obtain sid where perm: "may_retire P db producer caller" and sid: "find_service db producer = Some sid"
    unfolding retire_protocol_family_def by (auto split: if_splits option.splits)
  define db1 where "db1 = (case family_tag t of Some tag \<Rightarrow> remove_service_tag sid tag db | None \<Rightarrow> db)"
  define db2 where "db2 = snd (close_trunk_pins_for_service_api sid t (clock E 1) db1)"
  have db': "db' = (if t = AsyncApi then snd (release_contracts sid db2) else db2)"
    using assms(2) perm sid unfolding retire_protocol_family_def db1_def db2_def by (auto simp: Let_def split: prod.splits if_splits)
  have f1: "spec_versions db1 = spec_versions db" "endpoints db1 = endpoints db" "services db1 = services db" "trunk_deps db1 = trunk_deps db"
      "contracts db1 = contracts db" "\<forall>tag. family_tag t = Some tag \<longrightarrow> (sid, tag) \<notin> set (service_tags db1)"
    by (auto simp: db1_def remove_service_tag_def set_delete_where split: option.split)
  have f2: "spec_versions db2 = spec_versions db" "endpoints db2 = endpoints db" "services db2 = services db"
      "contracts db2 = contracts db" "service_tags db2 = service_tags db1"
      "trunk_deps db2 = close_where (\<lambda>k. k_service_id k = sid \<and> k_api_type k = t) (clock E 1) (trunk_deps db)"
    by (simp_all add: db2_def close_trunk_pins_for_service_api_def f1)
  have f: "spec_versions db' = spec_versions db" "endpoints db' = endpoints db" "services db' = services db"
      "trunk_deps db' = trunk_deps db2" "service_tags db' = service_tags db1"
    by (simp_all add: db' release_contracts_frame f2)
  have past: "seen_at pin_view i (trunk_deps db') = seen_at pin_view i (trunk_deps db)" if "i < clock E 1" for i
    using seen_at_close[OF trunk_pins.view_closed that] by (simp add: f f2)
  have opened: "filter is_open (trunk_deps db') = filter (\<lambda>k. is_open k \<and> \<not> (k_service_id k = sid \<and> k_api_type k = t)) (trunk_deps db)"
    unfolding f f2 by (rule filter_open_close)
  have closed: "\<not> (k_service_id k = sid \<and> k_api_type k = t)" if "k \<in> set (trunk_deps db')" "is_open k" for k
  proof -
    have "k \<in> set (filter is_open (trunk_deps db'))" using that by simp
    then show ?thesis unfolding opened by simp
  qed
  have "contracts db' = (if t = AsyncApi then filter (\<lambda>c. c_owner_service_id c \<noteq> sid) (contracts db) else contracts db)"
    using release_contracts_owned[of db2 sid] assms(1) by (simp add: db' f2)
  with perm sid f f1 past opened closed resolve_pin_cong[OF f(3,1)] show ?thesis by simp
qed

section \<open>Settings\<close>

lemma parse_u64_show: "n \<le> 18446744073709551615 \<Longrightarrow> parse_u64 (show_nat n) = Some n"
proof -
  obtain c r where s: "show_nat n = c # r" by (cases "show_nat n") auto
  then have "c \<noteq> CHR ''+''" using show_nat_digits[of n] is_ascii_digit_not[of c] by simp
  then have "(case show_nat n of c # r \<Rightarrow> if c = CHR ''+'' then r else show_nat n | [] \<Rightarrow> []) = show_nat n" by (simp add: s)
  then show "n \<le> 18446744073709551615 \<Longrightarrow> parse_u64 (show_nat n) = Some n" by (simp add: parse_u64_def parse_digits_show)
qed

lemma get_set_setting: "get_setting (set_setting k v db) k' = (if k' = k then Some v else get_setting db k')"
proof -
  have "find (\<lambda>s. fst s = k') (delete_where (\<lambda>s. fst s = k) xs) = (if k' = k then None else find (\<lambda>s. fst s = k') xs)"
    for xs :: "(string \<times> string) list" by (induction xs) (auto simp: delete_where_def)
  then show ?thesis by (auto simp: get_setting_def set_setting_def find_append split: option.split)
qed

lemma max_age_round_trip:
  "set_max_age_days key n db = (if n \<le> 36500 then Inr (set_setting key (show_nat n) db) else
     Inl (BadRequest (Text ''days must be at most'' [N max_age_days_limit])))"
  "n \<le> 36500 \<Longrightarrow> get_max_age_days key dflt (set_setting key (show_nat n) db) = n"
  by (simp_all add: set_max_age_days_def validate_max_age_days_def max_age_days_limit_def get_max_age_days_def
      get_set_setting parse_u64_show)

section \<open>The factory reset keeps the main graph\<close>

text \<open>
  Neither the deletion of all Producers nor the factory reset closes the pins
  of the main graph, which carry their names by value: it still shows every
  edge, between participants that no longer exist.
\<close>

lemma reset_keeps_main_graph:
  "list_current_trunk_pins (nuke_database uid db) = list_current_trunk_pins db \<and> services (nuke_database uid db) = [] \<and>
   list_current_trunk_pins (snd (delete_all_services E db)) = list_current_trunk_pins db \<and>
   services (snd (delete_all_services E db)) = []"
proof -
  obtain deleted db1 where d: "repo_delete_all_services db = (deleted, db1)" by (cases "repo_delete_all_services db")
  obtain p c where "close_catalog_of_departed (clock E 1) (participants db) db1 = db1\<lparr>periphery := p, system_contexts := c\<rparr>" using departed_rest by blast
  with d show ?thesis
    by (auto simp: nuke_database_def list_current_trunk_pins_def delete_all_services_def repo_delete_all_services_def Let_def)
qed

end
