(* ===== verification/Release_Rules.thy ===== *)
theory Release_Rules
  imports Provide_Rules
begin

text \<open>
  Who may change a stored number and how: the owner of a snapshot, the
  compatibility a release owes the release below it, the compare-and-set of a
  promotion, and what a promotion keeps. The theorems are about single calls
  on an arbitrary state of the catalogue; the root theory follows whole runs.
\<close>

section \<open>A snapshot belongs to whoever provided it\<close>

lemma line_abs_row:
  "line_abs db (sid, t, v) = map_option (\<lambda>r. (v_stability r, v_content r)) (find_version_row db sid t v)"
  by (simp add: line_abs_def find_version_row_def)

lemma core_fields:
  assumes "version_core r' = version_core r"
  shows "v_id r' = v_id r" "v_stability r' = v_stability r" "v_content r' = v_content r"
    "v_content_hash r' = v_content_hash r" "v_provided_by r' = v_provided_by r" "version_key r' = version_key r"
  using assms by (simp_all add: version_core_def)

lemma quiet_row_back:
  assumes "quiet db db'" and "find_version_row db' sid t v = Some r'"
  obtains r where "find_version_row db sid t v = Some r" "version_core r' = version_core r"
proof -
  have "map_option version_core (find_version_row db sid t v) = Some (version_core r')"
    using assms row_core[of db sid t v] row_core[of db' sid t v] by (simp add: quiet_def)
  then show ?thesis using that by auto
qed

text \<open>The entry an accepted write met, when its number was taken before.\<close>

lemma entry_before:
  assumes "quiet db db1" and "catalog_inv db" and "find_version_row db sid (pf_api_type f) (pf_version f) = Some r"
  obtains r1 where "find_version_row db1 sid (pf_api_type f) (pf_version f) = Some r1"
    "version_core r1 = version_core r" "entry_for f sid db1 = Some (spec_version_meta.truncate r1)"
proof -
  from assms(1,3) obtain r1 where r1: "find_version_row db1 sid (pf_api_type f) (pf_version f) = Some r1"
    "version_core r1 = version_core r" by (rule quiet_row)
  then have "entry_for f sid db1 = Some (spec_version_meta.truncate r1)"
    using line_find[OF quiet_inv[OF assms(1,2)], of "pf_version f" sid "pf_api_type f"] by (simp add: find_spec_version_def)
  with r1 that show ?thesis by blast
qed

lemma document_owner:
  assumes run: "provide_document T E f caller db = (res, db')" and inv: "catalog_inv db"
    and row: "find_version_row db sid t v = Some row" "v_stability row = Snapshot"
    and changed: "line_abs db' (sid, t, v) \<noteq> line_abs db (sid, t, v)"
  shows "pf_stability f = Ga \<and> may_release caller \<or> v_provided_by row = [] \<or> pf_username f = None \<or>
    pf_username f = Some (v_provided_by row)"
  using run
proof (cases rule: document_line_abs)
  case (written sid' db1)
  with changed have k: "sid' = sid" "pf_api_type f = t" "pf_version f = v" by (auto split: if_splits)
  obtain r1 where r1: "version_core r1 = version_core row" "entry_for f sid db1 = Some (spec_version_meta.truncate r1)"
    using entry_before[OF written(2) inv, of sid f row] row(1) k by auto
  with written(3) row(2) k core_fields[OF r1(1)] show ?thesis
    by (cases "pf_stability f") (auto simp: rules_passed_def existing_conflict_def split: option.splits if_splits)
qed (use changed in simp)

text \<open>
  C7: A snapshot belongs to whoever last provided it. When a Provide changes
  the text or the stability of a stored snapshot, it is a release by a caller
  who may release, or the caller is the snapshot's provider, or one of them
  has no identity (a caller or a snapshot of the mode without sign-in).
\<close>

theorem snapshot_belongs_to_provider:
  assumes "catalog_inv db" and "provide_spec_with_origin T E p origin db = (res, db')"
    and "find_version_row db sid t v = Some row" and "v_stability row = Snapshot"
    and "line_abs db' (sid, t, v) \<noteq> line_abs db (sid, t, v)"
  shows "pv_stability p = Ga \<and> may_release (pv_caller p) \<or> v_provided_by row = [] \<or> pv_caller p = None \<or>
    map_option a_username (pv_caller p) = Some (v_provided_by row)"
  using assms(2)
proof (cases rule: with_origin_cases)
  case (document f o')
  from document_owner[OF document(2) assms(1,3,4,5)] read_provide_Inr[OF document(1)] show ?thesis by simp
qed (use assms(5) in simp)

section \<open>Compatibility within a major\<close>

lemma baseline_is_highest:
  assumes "catalog_inv db" and "0 < sid" and "find_version_row db sid t b = Some r" and "v_stability r = Ga" and "b < v"
    and "\<And>b' r'. find_version_row db sid t b' = Some r' \<Longrightarrow> v_stability r' = Ga \<Longrightarrow> b' < v \<Longrightarrow> b' \<le> b"
  shows "ga_baseline (version_line db sid t) v = Some (spec_version_meta.truncate r)"
proof -
  let ?below = "filter (\<lambda>x. v_stability x = Ga \<and> v_version x < v) (version_line db sid t)"
  have in_line: "x \<in> set (version_line db sid t) \<longleftrightarrow> (\<exists>q b'. find_version_row db sid t b' = Some q \<and> x = spec_version_meta.truncate q)" for x
    using assms(2) by (auto simp: version_line_def in_list_spec_versions find_row_in[OF assms(1)] version_key_def)
  have here: "spec_version_meta.truncate r \<in> set ?below" "v_version r = b"
    using assms(3-5) in_line by (auto simp: find_row_in[OF assms(1)] version_key_def)
  from length_pos_if_in_set[OF here(1)] have "?below \<noteq> []" by (metis length_0_conv less_irrefl)
  then obtain m where m: "max_by_version ?below = Some m" by (cases "max_by_version ?below") (auto simp: max_by_version_None)
  from max_by_version_Some[OF m] here have le: "b \<le> v_version m" and mem: "m \<in> set ?below" by fastforce+
  from mem obtain q b' where q: "find_version_row db sid t b' = Some q" "m = spec_version_meta.truncate q" "v_stability q = Ga" "v_version q < v"
    using in_line by auto
  then have "v_version q = b'" by (auto simp: find_row_in[OF assms(1)] version_key_def)
  with assms(6)[OF q(1,3)] q le have "b' = b" by simp
  with q(1,2) assms(3) m show ?thesis by (simp add: ga_baseline_def)
qed

lemma content_of_row:
  assumes "catalog_inv db" and "find_version_row db sid t v = Some r"
  shows "get_spec_content db (v_id r) = Some (v_content r)"
  using assms find_unique[of v_id "spec_versions db" r]
  by (auto simp: get_spec_content_def find_row_in catalog_inv_def versions_ok_def)

lemma document_compatible:
  assumes run: "provide_document T E f caller db = (Some (Inr r), db')" and inv: "catalog_inv db"
    and ga: "pf_stability f = Ga" and "find_service db (pf_producer f) = Some sid"
    and changed: "line_abs db' \<noteq> line_abs db"
    and b: "find_version_row db sid (pf_api_type f) b = Some row" "v_stability row = Ga" "b < pf_version f"
      "major b = major (pf_version f)"
    and top: "\<And>b' r'. find_version_row db sid (pf_api_type f) b' = Some r' \<Longrightarrow> v_stability r' = Ga \<Longrightarrow> b' < pf_version f \<Longrightarrow> b' \<le> b"
  shows "\<exists>u. check_compatibility T (pf_api_type f) (v_content row) (pf_content f) = Inr u"
  using run
proof (cases rule: document_line_abs)
  case (written sid' db1)
  have inv1: "catalog_inv db1" using written(2) inv by (rule quiet_inv)
  have sid: "sid' = sid" "0 < sid"
    using registered[OF written(1,4) inv] quiet_service[OF written(2) inv assms(4)] by auto
  obtain r1 where r1: "find_version_row db1 sid (pf_api_type f) b = Some r1" "version_core r1 = version_core row"
    using written(2) b(1) by (rule quiet_row)
  have "ga_baseline (version_line db1 sid (pf_api_type f)) (pf_version f) = Some (spec_version_meta.truncate r1)"
  proof (rule baseline_is_highest[OF inv1 sid(2) r1(1)])
    fix b' r'
    assume r': "find_version_row db1 sid (pf_api_type f) b' = Some r'" "v_stability r' = Ga" "b' < pf_version f"
    from written(2) r'(1) obtain r'' where "find_version_row db sid (pf_api_type f) b' = Some r''"
      and core: "version_core r' = version_core r''" by (rule quiet_row_back)
    with r'(2,3) core_fields(2)[OF core] show "b' \<le> b" by (auto intro: top)
  qed (use b core_fields[OF r1(2)] in auto)
  moreover have "v_version r1 = b" "get_spec_content db1 (v_id r1) = Some (v_content row)"
    using r1 content_of_row[OF inv1 r1(1)] core_fields[OF r1(2)] by (auto simp: find_row_in[OF inv1] version_key_def)
  ultimately show ?thesis
    using written(3) ga b(4) sid by (auto simp: rules_passed_def breaking_release_def split: sum.splits)
qed (use changed in simp)

text \<open>The highest release below a new one in its major was checked against it.\<close>

lemma release_passed_check:
  assumes "catalog_inv db" and "provide_spec_with_origin T E p origin db = (Some (Inr r), db')"
    and "pv_stability p = Ga" and "line_abs db' \<noteq> line_abs db" and "find_service db (pv_producer p) = Some sid"
    and "line_abs db (sid, pv_api_type p, b) = Some (Ga, old)" and "b < pr_version r" and "major b = major (pr_version r)"
    and "\<forall>b' c. line_abs db (sid, pv_api_type p, b') = Some (Ga, c) \<longrightarrow> b' < pr_version r \<longrightarrow> b' \<le> b"
  shows "check_compatibility T (pv_api_type p) old (normalize_spec_text (pv_content p)) = Inr ()"
  using assms(2)
proof (cases rule: with_origin_cases)
  case (document f o')
  note f = read_provide_Inr[OF document(1)]
  obtain row where row: "find_version_row db sid (pv_api_type p) b = Some row" "v_stability row = Ga" "v_content row = old"
    using assms(6) by (auto simp: line_abs_row)
  have v: "pr_version r = pf_version f"
    using document(2)
    by (cases rule: document_cases) (use assms(4) in \<open>auto simp: unchanged_response_def provided_response_def quiet_line_abs\<close>)
  have "\<exists>u. check_compatibility T (pf_api_type f) (v_content row) (pf_content f) = Inr u"
    by (rule document_compatible[OF document(2) assms(1), where sid = sid and b = b])
      (use f v row assms in \<open>auto simp: line_abs_row\<close>)
  with f row show ?thesis by simp
qed simp

text \<open>
  C5: A release never breaks its Consumers within a major. When a GA Provide
  is accepted and changes the catalogue, and the highest GA number below it
  in the line has the same major, then the released document passed the
  compatibility check against that release's text.
\<close>

theorem release_is_compatible:
  assumes "catalog_inv db" and "provide_spec_with_origin T E p origin db = (Some (Inr r), db')"
    and "pv_stability p = Ga" and "line_abs db' \<noteq> line_abs db" and "find_service db (pv_producer p) = Some sid"
    and "line_abs db (sid, pv_api_type p, b) = Some (Ga, old)" and "b < pr_version r" and "major b = major (pr_version r)"
    and "\<forall>b' c. line_abs db (sid, pv_api_type p, b') = Some (Ga, c) \<longrightarrow> b' < pr_version r \<longrightarrow> b' \<le> b"
  shows "check_compatibility T (pv_api_type p) old (normalize_spec_text (pv_content p)) = Inr ()"
  by (rule release_passed_check[OF assms])

section \<open>Compare and set\<close>

lemma service_before:
  assumes "register_producer f db = (sid, db1)" and "\<not> pf_dry_run f" and "catalog_inv db"
    and "find_version_row db sid t v = Some row"
  shows "find_service db (pf_producer f) = Some sid"
proof -
  have "sid \<in> fst ` set (services db)" "sid < next_service db"
    using assms(3,4) by (fastforce simp: find_row_in[OF assms(3)] version_key_def catalog_inv_def versions_ok_def ids_ok_def)+
  with assms(1,2) show ?thesis
    by (auto simp: register_producer_def ensure_service_def split: prod.splits api_type.splits option.splits)
qed

lemma upsert_expected:
  assumes "upsert_spec_version p db = Inr (vid, db')" and "up_expected_prior_hash p = Some h"
  obtains row where "find_version_row db (up_service_id p) (up_api_type p) (up_version p) = Some row"
    "v_stability row = Snapshot" "v_content_hash row = h"
proof -
  from assms(1) obtain db1 where "upsert_row p db = Inr (vid, db1)" by (rule upsert_Inr)
  with assms(2) obtain row where "find (\<lambda>x. version_key x = up_key p) (spec_versions db) = Some row"
    "v_stability row \<noteq> Ga" "v_content_hash row = h"
    by (auto simp: upsert_row_def split: option.splits if_splits)
  then show ?thesis using that by (cases "v_stability row") (auto simp: find_version_row_def up_key_def)
qed

text \<open>
  C6: A release by promotion can only set what it read. The release of a
  stored snapshot reads the text first and writes later; whatever others did
  to the catalogue in between, the write changes something only when the
  number the text declares still holds a snapshot with the fingerprint of
  exactly that text, and then it changes that number alone, to that text.
\<close>

theorem release_sets_what_it_read:
  assumes "catalog_inv db" and "pv_require_prior p" and "provide_spec_with_origin T E p origin db = (res, db')"
    and "line_abs db' \<noteq> line_abs db"
  shows "\<exists>sid v row. find_service db (pv_producer p) = Some sid \<and>
     extract_spec_version T (pv_api_type p) (normalize_spec_text (pv_content p)) = Inr v \<and>
     find_version_row db sid (pv_api_type p) v = Some row \<and> v_stability row = Snapshot \<and>
     v_content_hash row = content_hash T (normalize_spec_text (pv_content p)) \<and>
     line_abs db' = (line_abs db)((sid, pv_api_type p, v) \<mapsto> (pv_stability p, normalize_spec_text (pv_content p)))"
  using assms(3)
proof (cases rule: with_origin_cases)
  case (document f o')
  note f = read_provide_Inr[OF document(1)]
  from document(2) show ?thesis
  proof (cases rule: document_cases)
    case kept
    with assms(4) show ?thesis by (simp add: quiet_line_abs)
  next
    case (written sid db1 vid db2)
    obtain r1 where r1: "find_version_row db1 sid (pf_api_type f) (pf_version f) = Some r1"
      "v_stability r1 = Snapshot" "v_content_hash r1 = pf_hash f"
      by (rule upsert_expected[OF written(5), of "pf_hash f"]) (use f assms(2) in simp_all)
    obtain row where row: "find_version_row db sid (pf_api_type f) (pf_version f) = Some row"
      and core: "version_core r1 = version_core row" using written(2) r1(1) by (rule quiet_row_back)
    have "find_service db (pf_producer f) = Some sid"
      using written(1,4) assms(1) row by (rule service_before)
    moreover have "line_abs db' = (line_abs db)((sid, pf_api_type f, pf_version f) \<mapsto> (pf_stability f, pf_content f))"
      using upsert_line_abs[OF written(5)] quiet_line_abs[OF written(2)] quiet_line_abs[OF written(6)] by simp
    ultimately show ?thesis
      using row r1 core_fields[OF core] f by (intro exI[of _ sid] exI[of _ "pf_version f"] exI[of _ row]) simp
  qed
qed (use assms(4) in simp)

section \<open>Promotion\<close>

lemma success_passed_gate:
  "provide_document T E f caller db = (Some (Inr r), db') \<Longrightarrow> pf_stability f = Ga \<Longrightarrow> may_release caller"
  by (auto simp: provide_document_def split: if_splits)

text \<open>The row of the number a successful document was for, with its credit.\<close>

lemma document_credit:
  assumes inv: "catalog_inv db" and run: "provide_document T E f caller db = (Some (Inr r), db')" and real: "\<not> pf_dry_run f"
    and row: "find_service db (pf_producer f) = Some sid" "find_version_row db sid (pf_api_type f) (pf_version f) = Some row"
      "v_content_hash row = pf_hash f" "pf_stability f = Ga"
  obtains row' where "find_version_row db' sid (pf_api_type f) (pf_version f) = Some row'"
    "v_stability row' = Ga" "v_provided_by row' = v_provided_by row" "v_content row' = v_content row \<or> v_content row' = pf_content f"
proof -
  have sid: "sid' = sid" if "register_producer f db = (sid', db1)" for sid' db1
    using registered[OF that real inv] quiet_service[OF _ inv row(1), of db1] quiet_register[of db f] that by simp
  from run show ?thesis
  proof (cases rule: document_cases)
    case kept
    then obtain sid' db1 where un': "unchanged_response f sid' db1 r" and reg': "register_producer f db = (sid', db1)"
      using real by auto
    from sid[OF reg'] un' reg' have un: "unchanged_response f sid db1 r" and reg: "register_producer f db = (sid, db1)"
      by simp_all
    have q: "quiet db db1" using quiet_register[of db f] reg by simp
    obtain r1 where r1: "version_core r1 = version_core row" "entry_for f sid db1 = Some (spec_version_meta.truncate r1)"
      using q inv row(2) by (rule entry_before)
    with un row(3,4) have "v_stability row = Ga"
      using core_fields[OF r1(1)] by (cases "v_stability row") (auto simp: unchanged_response_def is_unchanged_def)
    moreover obtain r2 where r2: "find_version_row db' sid (pf_api_type f) (pf_version f) = Some r2" "version_core r2 = version_core row"
      using kept(1) row(2) by (rule quiet_row)
    ultimately show ?thesis using core_fields[OF r2(2)] r2(1) by (intro that[of r2]) auto
  next
    case (written sid' db1 vid db2)
    have s: "sid' = sid" using written(1) by (rule sid)
    have inv1: "catalog_inv db1" using written(2) inv by (rule quiet_inv)
    obtain r1 where r1: "version_core r1 = version_core row" "entry_for f sid db1 = Some (spec_version_meta.truncate r1)"
      using written(2) inv row(2) by (rule entry_before)
    have snap: "v_stability row = Snapshot"
      using written(3) r1(2) s core_fields[OF r1(1)] row(3)
      by (cases "v_stability row") (auto simp: rules_passed_def is_unchanged_def)
    then have credit: "credited f (entry_for f sid db1) = v_provided_by row"
      using r1(2) row(3,4) core_fields[OF r1(1)] by (simp add: credited_def is_promotion_def)
    from written(5) inv1 obtain r2 where "find_version_row db2 sid' (pf_api_type f) (pf_version f) = Some r2"
      "v_stability r2 = pf_stability f" "v_provided_by r2 = credited f (entry_for f sid' db1)" "v_content r2 = pf_content f"
      by (rule upsert_written_row) simp
    then have r2: "find_version_row db2 sid (pf_api_type f) (pf_version f) = Some r2"
      "v_stability r2 = Ga" "v_provided_by r2 = v_provided_by row" "v_content r2 = pf_content f"
      using s credit row(4) by simp_all
    from written(6) r2(1) obtain r3 where r3: "find_version_row db' sid (pf_api_type f) (pf_version f) = Some r3"
      "version_core r3 = version_core r2" by (rule quiet_row)
    with r2 core_fields[OF r3(2)] show ?thesis by (intro that[of r3]) auto
  qed
qed

text \<open>
  C8: Promotion releases the stored text and keeps its author. When promoting
  a number succeeds the caller may release, and the number holds the text,
  fingerprint and provider it held before, now as GA. The stored text is one
  that normalization leaves alone: every text without a second byte order
  mark.
\<close>

theorem promotion_keeps_document:
  assumes "catalog_inv db" and "docs_ok T db" and "find_service db producer = Some sid"
    and "find_version_row db sid t v = Some row" and "normalize_spec_text (v_content row) = v_content row"
    and "promote_version T E producer t v caller db = (Some (Inr r), db')"
  shows "may_release caller \<and> pr_version r = v \<and>
    (\<exists>row'. find_version_row db' sid t v = Some row' \<and> v_stability row' = Ga \<and> v_content row' = v_content row \<and>
       v_content_hash row' = v_content_hash row \<and> v_provided_by row' = v_provided_by row)"
  using assms(6)
proof (cases rule: promote_cases)
  case (document f entry content)
  note f = read_provide_Inr[OF document(3)]
  have "content = v_content row"
    using document(1,2) assms(3,4) content_of_row[OF assms(1,4)]
    by (auto simp: find_version_entry_def find_spec_version_def)
  moreover have ok: "entry_ok T db row" "v_api_type row = t" "v_version row = v"
    using assms(1,2,4) by (auto simp: docs_ok_def find_row_in version_key_def)
  ultimately have facts: "pf_api_type f = t" "pf_version f = v" "pf_hash f = v_content_hash row" "pf_content f = v_content row"
    "pf_producer f = producer" "pf_stability f = Ga" "\<not> pf_dry_run f"
    using f assms(5) by (auto simp: release_params_def entry_ok_def)
  obtain row' where row': "find_version_row db' sid t v = Some row'" "v_stability row' = Ga"
    "v_provided_by row' = v_provided_by row" "v_content row' = v_content row"
    by (rule document_credit[OF assms(1) document(4), of sid row]) (use facts assms(3,4) in \<open>auto intro: that\<close>)
  have "docs_ok T db'"
    using document(3,4) assms(1,2) by (rule document_docs_ok)
  then have "v_content_hash row' = v_content_hash row"
    using row' ok document_inv[OF document(4) assms(1)] by (auto simp: docs_ok_def entry_ok_def find_row_in)
  moreover have "pr_version r = v"
    by (rule document_stored[OF assms(1) document(4)]) (use facts in auto)
  ultimately show ?thesis using row' success_passed_gate[OF document(4)] facts by auto
qed simp

section \<open>Examples\<close>

lemma sample_snapshot_ok: "catalog_inv sample_snapshot" "docs_ok sample_spec sample_snapshot"
proof -
  have "catalog_inv empty_db" "docs_ok sample_spec empty_db"
    by code_simp (simp add: docs_ok_def empty_db_def)
  with provide_keeps[OF surjective_pairing] show "catalog_inv sample_snapshot" "docs_ok sample_spec sample_snapshot"
    by (auto simp: sample_snapshot_def sample_run_def)
qed

theorem snapshot_belongs_to_provider_witness:
  "\<exists>row. find_version_row sample_snapshot 1 OpenApi (SemVer 1 0 0) = Some row \<and> v_provided_by row = ''ann'' \<and>
     (may_release (Some (plain_actor ''ann'' [Releaser])) \<and> Snapshot = Ga \<or> v_provided_by row = [] \<or>
      Some ''ann'' = Some (v_provided_by row))"
proof -
  let ?p = "sample_provide Snapshot ''1.0.0 /b'' ''ann''"
  have "find_version_row sample_snapshot 1 OpenApi (SemVer 1 0 0) \<noteq> None" by code_simp
  then obtain row where row: "find_version_row sample_snapshot 1 OpenApi (SemVer 1 0 0) = Some row" by auto
  have "map_option (\<lambda>r. (v_stability r, v_provided_by r)) (find_version_row sample_snapshot 1 OpenApi (SemVer 1 0 0)) = Some (Snapshot, ''ann'')"
    by code_simp
  with row have snap: "v_stability row = Snapshot" "v_provided_by row = ''ann''" by simp_all
  have changed: "line_abs (snd (sample_run ?p sample_snapshot)) (1, OpenApi, SemVer 1 0 0) \<noteq> line_abs sample_snapshot (1, OpenApi, SemVer 1 0 0)"
    by code_simp
  from snapshot_belongs_to_provider[OF sample_snapshot_ok(1) surjective_pairing row snap(1) changed[unfolded sample_run_def]]
  show ?thesis using row snap by (simp add: sample_provide_def plain_actor_def)
qed

theorem release_is_compatible_witness:
  "check_compatibility sample_spec OpenApi ''1.0.0 /a'' (normalize_spec_text ''1.1.0 /a /b'') = Inr ()"
proof -
  let ?p = "sample_provide Ga ''1.1.0 /a /b'' ''ann''" and ?db = sample_released
  have inv: "catalog_inv ?db" by code_simp
  have "succeeded (sample_run ?p ?db)" by code_simp
  note run = succeeded_run[OF this, unfolded sample_run_def]
  have v: "pr_version (the_answer (provide_spec_with_origin sample_spec quiet_env ?p empty_origin ?db)) = SemVer 1 1 0"
    by code_simp
  have "(\<lambda>db. line_abs db (1, OpenApi, SemVer 1 1 0)) (snd (sample_run ?p ?db)) \<noteq> line_abs ?db (1, OpenApi, SemVer 1 1 0)"
    by code_simp
  then have changed: "line_abs (snd (provide_spec_with_origin sample_spec quiet_env ?p empty_origin ?db)) \<noteq> line_abs ?db"
    by (auto simp: sample_run_def)
  have keys: "map version_key (spec_versions ?db) = [(1, OpenApi, SemVer 1 0 0)]" by code_simp
  have top: "\<forall>b' c. line_abs ?db (1, pv_api_type ?p, b') = Some (Ga, c) \<longrightarrow> b' < SemVer 1 1 0 \<longrightarrow> b' \<le> SemVer 1 0 0"
  proof (intro allI impI)
    fix b' c
    assume "line_abs ?db (1, pv_api_type ?p, b') = Some (Ga, c)"
    then have "(1, pv_api_type ?p, b') \<in> set (map version_key (spec_versions ?db))"
      by (auto simp: line_abs_def dest!: find_Some_in intro: rev_image_eqI)
    then show "b' \<le> SemVer 1 0 0" unfolding keys by simp
  qed
  have b: "line_abs ?db (1, pv_api_type ?p, SemVer 1 0 0) = Some (Ga, ''1.0.0 /a'')" by code_simp
  have "SemVer 1 0 0 < SemVer 1 1 0" "major (SemVer 1 0 0) = major (SemVer 1 1 0)"
    by (simp_all add: semver_less_iff)
  moreover have "find_service ?db (pv_producer ?p) = Some 1" "pv_stability ?p = Ga" by code_simp+
  ultimately show ?thesis
    using release_is_compatible[OF inv run _ changed _ b] v top by (simp add: sample_provide_def)
qed

theorem release_sets_what_it_read_witness:
  "\<exists>sid v row. find_service sample_snapshot ''api'' = Some sid \<and>
     extract_spec_version sample_spec OpenApi (normalize_spec_text ''1.0.0 /a'') = Inr v \<and>
     find_version_row sample_snapshot sid OpenApi v = Some row \<and> v_stability row = Snapshot \<and>
     v_content_hash row = content_hash sample_spec (normalize_spec_text ''1.0.0 /a'')"
proof -
  let ?p = "(sample_provide Ga ''1.0.0 /a'' ''ann'')\<lparr>pv_require_prior := True\<rparr>"
  have "line_abs (snd (sample_run ?p sample_snapshot)) (1, OpenApi, SemVer 1 0 0) \<noteq> line_abs sample_snapshot (1, OpenApi, SemVer 1 0 0)"
    by code_simp
  then have changed: "line_abs (snd (provide_spec_with_origin sample_spec quiet_env ?p empty_origin sample_snapshot)) \<noteq> line_abs sample_snapshot"
    by (auto simp: sample_run_def)
  have "pv_require_prior ?p" by simp
  from release_sets_what_it_read[OF sample_snapshot_ok(1) this surjective_pairing changed] show ?thesis
    by (auto simp: sample_provide_def)
qed

theorem promotion_keeps_document_witness:
  "\<exists>row'. find_version_row (snd (promote_version sample_spec quiet_env ''api'' OpenApi (SemVer 1 0 0)
       (Some (plain_actor ''bob'' [Releaser])) sample_snapshot)) 1 OpenApi (SemVer 1 0 0) = Some row' \<and>
     v_stability row' = Ga \<and> v_content row' = ''1.0.0 /a'' \<and> v_provided_by row' = ''ann''"
proof -
  let ?x = "promote_version sample_spec quiet_env ''api'' OpenApi (SemVer 1 0 0) (Some (plain_actor ''bob'' [Releaser])) sample_snapshot"
  have "succeeded ?x" by code_simp
  note run = succeeded_run[OF this]
  have sid: "find_service sample_snapshot ''api'' = Some 1" by code_simp
  have "map_option (\<lambda>r. (v_content r, v_provided_by r)) (find_version_row sample_snapshot 1 OpenApi (SemVer 1 0 0)) = Some (''1.0.0 /a'', ''ann'')"
    by code_simp
  then obtain row where row: "find_version_row sample_snapshot 1 OpenApi (SemVer 1 0 0) = Some row"
    "v_content row = ''1.0.0 /a''" "v_provided_by row = ''ann''" by auto
  have "normalize_spec_text ''1.0.0 /a'' = ''1.0.0 /a''" by code_simp
  with promotion_keeps_document[OF sample_snapshot_ok sid row(1) _ run] row(2,3) show ?thesis by auto
qed

end
