(* ===== verification/System.thy ===== *)
theory System
  imports Admin Release_Rules
begin

text \<open>
  The service as one transition system: every operation that writes the
  repository, in any order and with any clock, and the catalogue as its users
  see it (Producer name, API type and number to stability and text). The
  abstract machine says what each operation may do to the catalogue; the
  detailed operations are shown to refine it.
\<close>

section \<open>The other writes leave the catalogue alone\<close>

lemma quiet_setting [quiet_ops]: "quiet db (set_setting k v db)"
  by (rule quietI) (simp_all add: set_setting_def cores_def)

lemma quiet_delete_branch [quiet_ops]: "quiet db (repo_delete_branch bid db)"
  by (rule quietI) (simp_all add: repo_delete_branch_def cores_def)

lemma quiet_insert_branch: "insert_branch nm now by label as_of evs db = Inr (bid, db1) \<Longrightarrow> quiet db db1"
  by (rule quietI) (auto simp: insert_branch_def cores_def Let_def split: if_splits)

lemma quiet_copy: "copy_source_graph source bid as_of now db = Inr db1 \<Longrightarrow> quiet db db1"
  by (rule quietI)
    (auto simp: copy_source_graph_def copy_branch_graph_to_branch_def copy_trunk_graph_to_branch_def copy_graph_def cores_def
      and_then_Inr_iff split: option.splits)

lemma quiet_cut: "cut_branch E who nm source as_of db = (res, db') \<Longrightarrow> quiet db db'"
  unfolding cut_branch_def Let_def
  by (auto split: sum.splits repository_error.splits prod.splits
      intro: quiet_trans[OF quiet_insert_branch] quiet_trans[OF quiet_insert_branch quiet_trans[OF quiet_copy]] quiet_ops)

lemma quiet_create_branch: "create_branch R E params db = (res, db') \<Longrightarrow> quiet db db'"
  unfolding create_branch_def by (auto split: sum.splits dest: quiet_cut)

lemma quiet_rename_branch: "rename_branch nm new actor db = (res, db') \<Longrightarrow> quiet db db'"
  unfolding rename_branch_def Let_def
  by (auto simp: repo_rename_branch_def split: sum.splits option.splits repository_error.splits if_splits
      intro!: quietI simp: insert_audit_log_def cores_def)

lemma quiet_remove_branch: "delete_branch nm actor db = (res, db') \<Longrightarrow> quiet db db'"
  unfolding delete_branch_def by (auto split: option.splits intro: quiet_trans[OF quiet_delete_branch] quiet_ops)

text \<open>The tables of the hooks are their own.\<close>

definition hooks_only :: "db \<Rightarrow> db \<Rightarrow> bool" where
  "hooks_only db db' \<longleftrightarrow>
     (\<exists>hs n os ds m. db' = db\<lparr>webhooks := hs, next_webhook := n, outbox := os, deliveries := ds, next_delivery := m\<rparr>)"

lemma hooks_onlyI: "db' = db\<lparr>webhooks := webhooks db', next_webhook := next_webhook db', outbox := outbox db',
    deliveries := deliveries db', next_delivery := next_delivery db'\<rparr> \<Longrightarrow> hooks_only db db'"
  unfolding hooks_only_def by blast

lemma hooks_only_trans: "hooks_only a b \<Longrightarrow> hooks_only b c \<Longrightarrow> hooks_only a c"
  by (rule hooks_onlyI) (auto simp: hooks_only_def)

lemma hooks_only_quiet: "hooks_only db db' \<Longrightarrow> quiet db db'"
  by (rule quietI) (auto simp: hooks_only_def cores_def)

lemma hooks_only_refl [simp]: "hooks_only db db"
  by (rule hooks_onlyI) simp

lemma hooks_only_foldl: "(\<And>d x. hooks_only d (f d x)) \<Longrightarrow> hooks_only db (foldl f db xs)"
  by (induction xs arbitrary: db) (auto intro: hooks_only_trans)

lemma hooks_webhook_writes:
  "hooks_only db (snd (repo_create_webhook h db))" "hooks_only db (snd (update_webhook i wp db))"
  "hooks_only db (repo_rotate_webhook_secret i s hint db)" "hooks_only db (repo_delete_webhook i db)"
  "hooks_only db (snd (reset_webhook_delivery did now db))"
  "hooks_only db (snd (record_webhook_attempt did now out lease db))"
  "hooks_only db (snd (delete_old_webhook_data cutoff db))"
  by (rule hooks_onlyI, simp add: repo_create_webhook_def update_webhook_def repo_rotate_webhook_secret_def repo_delete_webhook_def
      reset_webhook_delivery_def record_webhook_attempt_def delete_old_webhook_data_def Let_def)+

lemma hooks_claim: "hooks_only db (snd (claim_due_webhook_deliveries now lease n db))"
proof -
  have "hooks_only db (foldl (\<lambda>b d. b\<lparr>deliveries := update_where (\<lambda>x. d_id x = d_id d) (d_next_attempt_at_update (\<lambda>_. lease)) (deliveries b)\<rparr>) db xs)" for xs
    by (rule hooks_only_foldl) (rule hooks_onlyI, simp)
  then show ?thesis by (simp add: claim_due_webhook_deliveries_def Let_def)
qed

lemma hooks_deliver: "deliver_due K config now db = (res, db') \<Longrightarrow> hooks_only db db'"
proof -
  assume run: "deliver_due K config now db = (res, db')"
  have item: "hooks_only (snd acc) (snd (deliver_item K allowed base now lease acc x))" for allowed base lease acc x
    unfolding deliver_item_def Let_def by (auto simp: hooks_webhook_writes split: prod.splits)
  have fold: "hooks_only (snd acc) (snd (foldl (deliver_item K allowed base now lease) acc xs))" for allowed base lease acc xs
  proof (induction xs arbitrary: acc)
    case (Cons x xs)
    show ?case using hooks_only_trans[OF item[of acc allowed base lease x] Cons] by simp
  qed simp
  show ?thesis using run hooks_claim[of db] fold unfolding deliver_due_def Let_def
    by (auto split: prod.splits if_splits sum.splits intro: hooks_only_trans) (metis hooks_only_trans snd_conv)+
qed

lemma hooks_services:
  "create_webhook W E actor scope req db = Inr (a, db') \<Longrightarrow> hooks_only db db'"
  "patch_webhook scope i preq db = Inr (b, db') \<Longrightarrow> hooks_only db db'"
  "rotate_webhook_secret W E scope i db = Inr (c, db') \<Longrightarrow> hooks_only db db'"
  "delete_webhook_in scope i db = Inr (b, db') \<Longrightarrow> hooks_only db db'"
  "redeliver E scope i did db = Inr (e, db') \<Longrightarrow> hooks_only db db'"
  "cleanup_webhook_data Ct now db = (n, db') \<Longrightarrow> hooks_only db db'"
  using hooks_webhook_writes[of db]
  by (auto simp: create_webhook_def patch_webhook_def rotate_webhook_secret_def delete_webhook_in_def redeliver_def
      cleanup_webhook_data_def and_then_Inr_iff Let_def split: if_splits prod.splits option.splits bool.splits) (metis snd_conv)+

lemma quiet_retire: "retire_protocol_family P E producer t caller dry db = Inr (r, db') \<Longrightarrow> quiet db db'"
proof -
  assume run: "retire_protocol_family P E producer t caller dry db = Inr (r, db')"
  have tag: "quiet db (case family_tag t of Some tag \<Rightarrow> remove_service_tag sid tag db | None \<Rightarrow> db)" for sid
    by (auto simp: remove_service_tag_def cores_def intro!: quietI split: option.split)
  have close: "quiet d (snd (close_trunk_pins_for_service_api sid t now d))" for d sid now
    by (rule quietI) (simp_all add: close_trunk_pins_for_service_api_def cores_def)
  have free: "quiet d (snd (release_contracts sid d))" for d sid
    using arg_cong[OF release_contracts_eq(2)[where x = "[]" and sid = sid and db = d], of next_spec_version]
      arg_cong[OF release_contracts_eq(2)[where x = "[]" and sid = sid and db = d], of next_service]
      arg_cong[OF release_contracts_eq(2)[where x = "[]" and sid = sid and db = d], of clients]
      arg_cong[OF release_contracts_eq(2)[where x = "[]" and sid = sid and db = d], of next_client]
    by (intro quietI) (simp_all add: release_contracts_frame cores_def)
  from run obtain sid where sid: "find_service db producer = Some sid" and perm: "may_retire P db producer caller"
    unfolding retire_protocol_family_def by (auto split: if_splits option.splits)
  define db1 where "db1 = (case family_tag t of Some tag \<Rightarrow> remove_service_tag sid tag db | None \<Rightarrow> db)"
  define db2 where "db2 = snd (close_trunk_pins_for_service_api sid t (clock E 1) db1)"
  have "db' = db \<or> db' = db2 \<or> db' = snd (release_contracts sid db2)"
    using run sid perm unfolding retire_protocol_family_def db1_def db2_def by (auto simp: Let_def split: prod.splits if_splits)
  moreover have "quiet db db2" unfolding db2_def db1_def by (rule quiet_trans[OF tag close])
  ultimately show ?thesis using free[of db2 sid] by (auto intro: quiet_trans)
qed

lemma quiet_push: "push_catalog Y W E raw yaml trunk db = Inr (r, db') \<Longrightarrow> quiet db db'"
  unfolding push_catalog_def Let_def refuse_component_def
  using record_component_catalog[of db E "trim raw" trunk]
  by (auto split: if_splits sum.splits intro: quiet_events) (metis snd_conv)

lemma quiet_require_endpoint: "require_endpoint_inner T E p dry db = Inr (a, db') \<Longrightarrow> quiet db db'"
  by (erule require_endpoint_Inr) (simp add: quiet_record_pins)

lemma quiet_require_bundle: "require_bundle_inner T E p dry db = Inr (a, db') \<Longrightarrow> quiet db db'"
  by (erule require_bundle_Inr) (simp add: quiet_record_pins)

lemma quiet_cleanups:
  "quiet db (snd (cleanup_stale_dependencies C now db))" "quiet db (snd (cleanup_stale_trunk_data C now db))"
  by (rule quietI; simp add: cleanup_stale_dependencies_def delete_stale_dependencies_def cleanup_stale_trunk_data_def
      close_expired_trunk_data_def cores_def cores_update version_core_def version_key_def Let_def)+

lemma quiet_clients:
  assumes "clients db' = filter p (clients db)" "next_client db' = next_client db" "services db' = services db"
    "next_service db' = next_service db" "spec_versions db' = spec_versions db" "endpoints db' = endpoints db"
    "next_spec_version db' = next_spec_version db"
  shows "quiet db db'"
  using assms by (auto simp: quiet_def catalog_inv_def versions_ok_def cores_def ids_ok_def distinct_map_filter_mono)

lemma quiet_delete_consumer: "quiet db (snd (delete_consumer nm now db))"
  by (cases "find_client db nm") (auto simp: delete_consumer_def delete_where_def intro!: quiet_clients)

lemma quiet_delete_clients: "quiet db (snd (delete_all_clients E db))"
proof -
  have "quiet db (snd (repo_delete_all_clients db))"
    by (rule quiet_clients[where p = "\<lambda>_. False"]) (simp_all add: repo_delete_all_clients_def)
  then show ?thesis by (auto simp: delete_all_clients_def case_prod_beta intro: quiet_trans quiet_departed)
qed

lemma quiet_producer_columns:
  "quiet db (update_producer_metadata nm icon domain db)" "quiet db (snd (repo_set_producer_external nm external db))"
  by (rule quietI; simp add: update_producer_metadata_def repo_set_producer_external_def set_service_meta_def cores_def split: option.split)+

lemma quiet_favorites:
  "add_user_favorite uid ty nm db = Inr db' \<Longrightarrow> quiet db db'" "remove_user_favorite uid ty nm db = Inr db' \<Longrightarrow> quiet db db'"
  by (rule quietI; auto simp: add_user_favorite_def remove_user_favorite_def and_then_Inr_iff cores_def)+

section \<open>Removing versions\<close>

lemma remove_inv: "catalog_inv db \<Longrightarrow> catalog_inv (remove_versions gone db)"
  by (auto simp: catalog_inv_def versions_ok_def set_delete_where)

lemma remove_line_abs:
  assumes "versions_ok db"
  shows "line_abs (remove_versions gone db) (sid, t, v) =
    (case find_version_row db sid t v of Some r \<Rightarrow> if gone r then None else Some (v_stability r, v_content r) | None \<Rightarrow> None)"
proof (cases "find_version_row db sid t v")
  case None
  then have "find_version_row (remove_versions gone db) sid t v = None"
    by (auto simp: find_version_row_def find_None_not set_delete_where)
  with None show ?thesis by (simp add: line_abs_row)
next
  case (Some r)
  have inj: "inj_on version_key (set (spec_versions db))" using assms by (simp add: versions_ok_def distinct_map)
  have r: "r \<in> set (spec_versions db)" "version_key r = (sid, t, v)" using Some by (auto simp: find_version_row_def dest: find_Some_in)
  show ?thesis
  proof (cases "gone r")
    case True
    have "\<not> (x \<in> set (spec_versions db) \<and> version_key x = (sid, t, v) \<and> \<not> gone x)" for x
      using inj r True by (metis inj_onD)
    then have "find_version_row (remove_versions gone db) sid t v = None"
      by (auto simp: find_version_row_def find_None_not set_delete_where)
    with Some True show ?thesis by (simp add: line_abs_row)
  next
    case False
    have "find_version_row (remove_versions gone db) sid t v = Some r"
      by (rule remove_versions_keeps(1)) (use assms Some False in simp_all)
    with Some False show ?thesis by (simp add: line_abs_row)
  qed
qed

lemma remove_docs:
  assumes "catalog_inv db" and "docs_ok T db"
  shows "docs_ok T (remove_versions gone db)"
  unfolding docs_ok_def
proof
  fix r assume "r \<in> set (spec_versions (remove_versions gone db))"
  then have r: "r \<in> set (spec_versions db)" "\<not> gone r" by (auto simp: set_delete_where)
  have "inj_on v_id (set (spec_versions db))" using assms(1) by (simp add: catalog_inv_def versions_ok_def distinct_map)
  then have "v_id r \<notin> set (map v_id (filter gone (spec_versions db)))" using r by (auto dest: inj_onD)
  then have "filter (\<lambda>e. e_spec_version_id e = v_id r) (endpoints (remove_versions gone db)) =
      filter (\<lambda>e. e_spec_version_id e = v_id r) (endpoints db)"
    unfolding remove_versions_def Let_def by (simp add: delete_where_def) (rule filter_cong, simp, metis)
  then have "get_endpoints_for_version (remove_versions gone db) (v_id r) = get_endpoints_for_version db (v_id r)"
    by (simp add: get_endpoints_for_version_def)
  with assms(2) r show "entry_ok T (remove_versions gone db) r" by (simp add: docs_ok_def entry_ok_def)
qed

text \<open>The invariant of the whole store and its parts the removals touch.\<close>

definition store_ok :: "spec_tools \<Rightarrow> db \<Rightarrow> bool" where
  "store_ok T db \<longleftrightarrow> catalog_inv db \<and> docs_ok T db"

lemma store_ok_cong:
  assumes "store_ok T db" "services db' = services db" "next_service db' = next_service db" "clients db' = clients db"
    "next_client db' = next_client db" "spec_versions db' = spec_versions db" "next_spec_version db' = next_spec_version db"
    "endpoints db' = endpoints db"
  shows "store_ok T db'"
  using assms by (simp add: store_ok_def catalog_inv_def versions_ok_def docs_ok_def entry_ok_def get_endpoints_for_version_def)

lemma store_ok_quiet: "store_ok T db \<Longrightarrow> quiet db db' \<Longrightarrow> store_ok T db'"
  by (auto simp: store_ok_def intro: quiet_inv docs_ok_quiet)

lemma store_ok_remove: "store_ok T db \<Longrightarrow> store_ok T (remove_versions gone db)"
  by (simp add: store_ok_def remove_inv remove_docs)

lemma store_ok_services:
  assumes "store_ok T db" and "\<forall>v \<in> set (spec_versions db). v_service_id v \<noteq> sid"
    and "services db' = delete_where (\<lambda>s. fst s = sid) (services db)" "next_service db' = next_service db" "clients db' = clients db"
    "next_client db' = next_client db" "spec_versions db' = spec_versions db" "next_spec_version db' = next_spec_version db"
    "endpoints db' = endpoints db"
  shows "store_ok T db'"
proof -
  have "ids_ok (next_service db) (delete_where (\<lambda>s. fst s = sid) (services db))"
    using assms(1) by (auto simp: store_ok_def catalog_inv_def ids_ok_def set_delete_where)
  moreover have "v_service_id v \<in> fst ` set (delete_where (\<lambda>s. fst s = sid) (services db))" if "v \<in> set (spec_versions db)" for v
    using assms(1,2) that by (force simp: store_ok_def catalog_inv_def versions_ok_def set_delete_where)
  ultimately show ?thesis using assms
    by (auto simp: store_ok_def catalog_inv_def versions_ok_def docs_ok_def entry_ok_def get_endpoints_for_version_def)
qed

lemma delete_producer_ok:
  assumes "store_ok T db"
  shows "store_ok T (snd (delete_producer nm now db))"
proof (cases "find_service db nm")
  case (Some sid)
  let ?db1 = "remove_versions (\<lambda>v. v_service_id v = sid) db"
  have "store_ok T ?db1" using assms by (rule store_ok_remove)
  then show ?thesis using Some
    by (elim store_ok_services[where sid = sid])
      (auto simp: delete_producer_def Let_def set_delete_where remove_versions_def)
qed (use assms in \<open>simp add: delete_producer_def\<close>)

section \<open>The catalogue as its users see it\<close>

type_synonym catalogue_key = "string \<times> api_type \<times> semver"
type_synonym catalogue = "catalogue_key \<rightharpoonup> stability \<times> string"

definition catalogue :: "db \<Rightarrow> catalogue" where
  "catalogue db = (\<lambda>(nm, t, v). case find_service db nm of None \<Rightarrow> None | Some sid \<Rightarrow> line_abs db (sid, t, v))"

lemma line_abs_service: "catalog_inv db \<Longrightarrow> sid \<notin> fst ` set (services db) \<Longrightarrow> line_abs db (sid, t, v) = None"
  by (auto simp: line_abs_def find_None_not catalog_inv_def versions_ok_def version_key_def)

lemma catalogue_quiet:
  assumes "quiet db db'" and "catalog_inv db"
  shows "catalogue db' = catalogue db"
proof
  fix k :: catalogue_key
  obtain nm t v where k: "k = (nm, t, v)" by (cases k)
  have inv': "catalog_inv db'" using assms by (rule quiet_inv)
  show "catalogue db' k = catalogue db k"
  proof (cases "find_service db nm")
    case (Some sid)
    then show ?thesis using quiet_service[OF assms Some] quiet_line_abs[OF assms(1)] by (simp add: catalogue_def k)
  next
    case None
    have "line_abs db' (sid, t, v) = None" if "find_service db' nm = Some sid" for sid
    proof -
      have "(sid, nm) \<in> set (services db')" using that inv' find_service_Some by (auto simp: catalog_inv_def)
      moreover have "set (services db) \<subseteq> set (services db')" using assms(1) by (simp add: quiet_def)
      moreover have "inj_on fst (set (services db'))" using inv' by (simp add: catalog_inv_def ids_ok_def distinct_map)
      moreover have "(sid, nm) \<notin> set (services db)" using None by (force simp: find_service_None)
      ultimately have "sid \<notin> fst ` set (services db)" by (auto simp: inj_on_def) (metis fst_conv subsetD)
      then show ?thesis using line_abs_service[OF assms(2)] quiet_line_abs[OF assms(1)] by simp
    qed
    with None show ?thesis by (auto simp: catalogue_def k split: option.split)
  qed
qed

section \<open>The abstract catalogue\<close>

text \<open>
  The writes a caller can ask for. Everything else the service does (pins,
  branches, hooks, settings, accounts' favourites, cleanups of other tables)
  is \<open>Elsewhere\<close>.
\<close>

datatype act =
  Provides provide_params
| Promotes string api_type semver "actor option"
| DeletesVersion string api_type semver
| ExpiresSnapshots
| DeletesProducer string
| ClearsCatalogue
| Elsewhere

definition may_publish :: "spec_tools \<Rightarrow> catalogue \<Rightarrow> actor option \<Rightarrow> catalogue_key \<Rightarrow> stability \<Rightarrow> string \<Rightarrow> bool" where
  "may_publish T K caller k s content \<longleftrightarrow> (\<forall>c. K k \<noteq> Some (Ga, c)) \<and>
     (s = Ga \<longrightarrow> may_release caller \<and>
       (\<forall>b old. K (fst k, fst (snd k), b) = Some (Ga, old) \<longrightarrow> b < snd (snd k) \<longrightarrow> major b = major (snd (snd k)) \<longrightarrow>
          (\<forall>b' c. K (fst k, fst (snd k), b') = Some (Ga, c) \<longrightarrow> b' < snd (snd k) \<longrightarrow> b' \<le> b) \<longrightarrow>
          check_compatibility T (fst (snd k)) old content = Inr ()))"

inductive abs_step :: "spec_tools \<Rightarrow> catalogue \<Rightarrow> act \<Rightarrow> catalogue \<Rightarrow> bool" for T where
  Keep: "abs_step T K a K"
| Publish: "\<not> pv_dry_run p \<Longrightarrow> content = normalize_spec_text (pv_content p) \<Longrightarrow>
    extract_spec_version T (pv_api_type p) content = Inr v \<Longrightarrow> k = (pv_producer p, pv_api_type p, v) \<Longrightarrow>
    may_publish T K (pv_caller p) k (pv_stability p) content \<Longrightarrow>
    abs_step T K (Provides p) (K(k \<mapsto> (pv_stability p, content)))"
| Release: "K (producer, t, v) = Some (s, stored) \<Longrightarrow> content = normalize_spec_text stored \<Longrightarrow>
    extract_spec_version T t content = Inr v' \<Longrightarrow> K (producer, t, v') = Some (Snapshot, old) \<Longrightarrow>
    content_hash T old = content_hash T content \<Longrightarrow> may_publish T K caller (producer, t, v') Ga content \<Longrightarrow>
    abs_step T K (Promotes producer t v caller) (K((producer, t, v') \<mapsto> (Ga, content)))"
| Delete: "K k \<noteq> None \<Longrightarrow> k = (producer, t, v) \<Longrightarrow> abs_step T K (DeletesVersion producer t v) (K(k := None))"
| Expire: "(\<And>k. K' k = K k \<or> K' k = None \<and> (\<exists>c. K k = Some (Snapshot, c))) \<Longrightarrow> abs_step T K ExpiresSnapshots K'"
| Depart: "abs_step T K (DeletesProducer producer) (\<lambda>k. if fst k = producer then None else K k)"
| Clear: "abs_step T K ClearsCatalogue Map.empty"

inductive_cases abs_stepE: "abs_step T K a K'"

text \<open>Which request takes an entry away.\<close>

fun removes :: "act \<Rightarrow> catalogue_key \<Rightarrow> bool" where
  "removes (DeletesVersion producer t v) k \<longleftrightarrow> k = (producer, t, v)"
| "removes (DeletesProducer producer) k \<longleftrightarrow> fst k = producer"
| "removes ClearsCatalogue k \<longleftrightarrow> True"
| "removes _ k \<longleftrightarrow> False"

text \<open>Which request makes an entry of a line GA, and for whom.\<close>

fun releases :: "act \<Rightarrow> catalogue_key \<Rightarrow> bool" where
  "releases (Provides p) k \<longleftrightarrow> pv_producer p = fst k \<and> pv_api_type p = fst (snd k) \<and> pv_stability p = Ga \<and>
     \<not> pv_dry_run p \<and> may_release (pv_caller p)"
| "releases (Promotes producer t v caller) k \<longleftrightarrow> producer = fst k \<and> t = fst (snd k) \<and> may_release caller"
| "releases _ k \<longleftrightarrow> False"

lemma abs_ga_kept:
  assumes "abs_step T K a K'" and "K k = Some (Ga, c)" and "\<not> removes a k"
  shows "K' k = Some (Ga, c)"
  using assms
proof (cases rule: abs_step.cases)
  case Expire
  then show ?thesis using assms(2) by (metis option.inject prod.inject stability.distinct(1))
qed (use assms in \<open>auto simp: may_publish_def split: if_splits\<close>)

lemma abs_ga_new:
  assumes "abs_step T K a K'" and "K' k = Some (Ga, c)"
  shows "K k = Some (Ga, c) \<or> releases a k"
  using assms
proof (cases rule: abs_step.cases)
  case Expire
  then show ?thesis using assms(2) by (metis option.distinct(1))
qed (use assms in \<open>auto simp: may_publish_def split: if_splits\<close>)

section \<open>Runs\<close>

text \<open>
  A machine with an invariant that refines another one: what holds of a step
  is lifted to runs once.
\<close>

inductive run :: "('s \<Rightarrow> 'a \<Rightarrow> 's \<Rightarrow> bool) \<Rightarrow> 's \<Rightarrow> 'a list \<Rightarrow> 's \<Rightarrow> bool" for step where
  Stop: "run step s [] s"
| Go: "step s a s' \<Longrightarrow> run step s' as s'' \<Longrightarrow> run step s (a # as) s''"

inductive_simps run_Nil [simp]: "run step s [] s'"
inductive_simps run_Cons: "run step s (a # as) s'"

locale refines =
  fixes step :: "'s \<Rightarrow> 'a \<Rightarrow> 's \<Rightarrow> bool" and astep :: "'k \<Rightarrow> 'a \<Rightarrow> 'k \<Rightarrow> bool" and absf :: "'s \<Rightarrow> 'k" and inv :: "'s \<Rightarrow> bool"
  assumes inv_step: "inv s \<Longrightarrow> step s a s' \<Longrightarrow> inv s'"
    and sim_step: "inv s \<Longrightarrow> step s a s' \<Longrightarrow> astep (absf s) a (absf s')"
begin

lemma inv_run: "run step s as s' \<Longrightarrow> inv s \<Longrightarrow> inv s'"
  by (induction rule: run.induct) (auto dest: inv_step)

lemma sim_run: "run step s as s' \<Longrightarrow> inv s \<Longrightarrow> run astep (absf s) as (absf s')"
  by (induction rule: run.induct) (auto intro: run.intros dest: inv_step sim_step)

text \<open>A fact of the abstract state that no request of a kind destroys lasts while only such requests come.\<close>

lemma lasting:
  assumes "\<And>K a K'. astep K a K' \<Longrightarrow> P K \<Longrightarrow> ok a \<Longrightarrow> P K'" and "run step s as s'" and "inv s"
    and "P (absf s)" and "\<forall>a \<in> set as. ok a"
  shows "P (absf s')"
proof -
  have "P K'" if "run astep K as K'" "P K" for K K'
    using that assms(5) by (induction rule: run.induct) (auto intro: assms(1))
  then show ?thesis using sim_run[OF assms(2,3)] assms(4) by blast
qed

text \<open>A fact that was not there was brought about by a request.\<close>

lemma cause:
  assumes "\<And>K a K'. astep K a K' \<Longrightarrow> P K' \<Longrightarrow> P K \<or> culprit a" and "run step s as s'" and "inv s"
    and "\<not> P (absf s)" and "P (absf s')"
  shows "\<exists>a \<in> set as. culprit a"
proof (rule ccontr)
  assume "\<not> ?thesis"
  then have "\<forall>a \<in> set as. \<not> culprit a" by blast
  moreover have "\<not> P K'" if "astep K a K'" "\<not> P K" "\<not> culprit a" for K a K' using assms(1) that by blast
  ultimately have "\<not> P (absf s')" using assms(2-4) lasting[of "\<lambda>K. \<not> P K" "\<lambda>a. \<not> culprit a" s as s'] by blast
  with assms(5) show False by blast
qed

end


section \<open>A Provide on the catalogue\<close>

lemma service_name_inj:
  "catalog_inv db \<Longrightarrow> find_service db a = Some sid \<Longrightarrow> find_service db b = Some sid \<Longrightarrow> a = b"
  by (auto simp: catalog_inv_def find_service_Some ids_ok_def distinct_map inj_on_def) (metis fst_conv snd_conv)

lemma catalogue_row:
  "catalogue db (nm, t, v) = Some x \<Longrightarrow> \<exists>sid. find_service db nm = Some sid \<and> line_abs db (sid, t, v) = Some x"
  by (auto simp: catalogue_def split: option.splits)

lemma catalogue_upsert:
  assumes "catalog_inv db1" and "find_service db1 nm = Some sid" and "services db2 = services db1"
    and "line_abs db2 = (line_abs db1)((sid, t, v) \<mapsto> x)"
  shows "catalogue db2 = (catalogue db1)((nm, t, v) \<mapsto> x)"
proof
  fix k :: catalogue_key
  obtain n t' v' where k: "k = (n, t', v')" by (cases k)
  have find: "find_service db2 n = find_service db1 n" by (simp add: find_service_def assms(3))
  show "catalogue db2 k = ((catalogue db1)((nm, t, v) \<mapsto> x)) k"
  proof (cases "n = nm")
    case True
    with assms(2,4) find show ?thesis by (simp add: catalogue_def k)
  next
    case False
    then have "find_service db1 n \<noteq> Some sid" using service_name_inj[OF assms(1) _ assms(2)] by blast
    with False find assms(4) show ?thesis by (auto simp: catalogue_def k split: option.split)
  qed
qed

lemma document_catalogue:
  assumes run: "provide_document T E f caller db = (res, db')" and inv: "catalog_inv db" and changed: "catalogue db' \<noteq> catalogue db"
  shows "\<not> pf_dry_run f" "may_publish T (catalogue db) caller (pf_producer f, pf_api_type f, pf_version f) (pf_stability f) (pf_content f)"
    "catalogue db' = (catalogue db)((pf_producer f, pf_api_type f, pf_version f) \<mapsto> (pf_stability f, pf_content f))"
    "pf_prior_match f \<Longrightarrow> \<exists>old. catalogue db (pf_producer f, pf_api_type f, pf_version f) = Some (Snapshot, old) \<and>
       (docs_ok T db \<longrightarrow> content_hash T old = pf_hash f)"
proof -
  from run obtain sid db1 vid db2 where w: "register_producer f db = (sid, db1)" "quiet db db1"
      "rules_passed T f caller sid db1" "\<not> pf_dry_run f"
      "upsert_spec_version (upsert_for T E f sid db1) db1 = Inr (vid, db2)" "quiet db2 db'"
      "\<exists>r. res = Some (Inr r) \<and> provided_response f sid db1 r"
  proof (cases rule: document_cases)
    case kept
    with changed show thesis using catalogue_quiet[OF kept(1) inv] by simp
  qed blast
  let ?k = "(sid, pf_api_type f, pf_version f)"
  have inv1: "catalog_inv db1" and inv2: "catalog_inv db2" and sid: "find_service db1 (pf_producer f) = Some sid"
    using quiet_inv[OF w(2) inv] catalog_inv_upsert[OF _ w(5)] registered(1)[OF w(1,4) inv] by auto
  have key: "find_service db (pf_producer f) = Some sid" if "line_abs db ?k \<noteq> None"
    using that service_before[OF w(1,4) inv, of "pf_api_type f" "pf_version f"] by (auto simp: line_abs_row)
  have cat: "catalogue db (pf_producer f, pf_api_type f, b) = Some x \<Longrightarrow> line_abs db (sid, pf_api_type f, b) = Some x" for b x
    using quiet_service[OF w(2) inv] sid by (auto dest!: catalogue_row)
  have same: "services db2 = services db1" using w(5) by (auto elim!: upsert_Inr dest!: upsert_row_Inr)
  have "catalogue db2 = (catalogue db1)((pf_producer f, pf_api_type f, pf_version f) \<mapsto> (pf_stability f, pf_content f))"
    by (rule catalogue_upsert[OF inv1 sid same]) (use upsert_line_abs[OF w(5)] in simp)
  then show new: "catalogue db' = (catalogue db)((pf_producer f, pf_api_type f, pf_version f) \<mapsto> (pf_stability f, pf_content f))"
    using catalogue_quiet[OF w(6) inv2] catalogue_quiet[OF w(2) inv] by simp
  show "\<not> pf_dry_run f" by (fact w(4))
  have free: "line_abs db ?k \<noteq> Some (Ga, c)" for c
    using upsert_refuses_ga[of db1 "upsert_for T E f sid db1" c] w(5) quiet_line_abs[OF w(2)] by auto
  have lines: "line_abs db' \<noteq> line_abs db"
  proof
    assume eq: "line_abs db' = line_abs db"
    have here: "line_abs db' ?k = Some (pf_stability f, pf_content f)"
      using upsert_line_abs[OF w(5)] quiet_line_abs[OF w(6)] by simp
    with eq key have "catalogue db (pf_producer f, pf_api_type f, pf_version f) = Some (pf_stability f, pf_content f)"
      by (simp add: catalogue_def)
    with new changed show False by (simp add: fun_upd_idem)
  qed
  show "may_publish T (catalogue db) caller (pf_producer f, pf_api_type f, pf_version f) (pf_stability f) (pf_content f)"
    unfolding may_publish_def fst_conv snd_conv
  proof (intro conjI allI impI)
    fix c show "catalogue db (pf_producer f, pf_api_type f, pf_version f) \<noteq> Some (Ga, c)" using free cat by blast
  next
    assume "pf_stability f = Ga" then show "may_release caller" using w(7) run success_passed_gate by blast
  next
    fix b old
    assume ga: "pf_stability f = Ga" and b: "catalogue db (pf_producer f, pf_api_type f, b) = Some (Ga, old)" "b < pf_version f"
      "major b = major (pf_version f)"
      and top: "\<forall>b' c. catalogue db (pf_producer f, pf_api_type f, b') = Some (Ga, c) \<longrightarrow> b' < pf_version f \<longrightarrow> b' \<le> b"
    have svc: "find_service db (pf_producer f) = Some sid" using b(1) quiet_service[OF w(2) inv] sid by (auto dest!: catalogue_row)
    obtain row where row: "find_version_row db sid (pf_api_type f) b = Some row" "v_stability row = Ga" "v_content row = old"
      using cat[OF b(1)] by (auto simp: line_abs_row)
    obtain r where r: "provide_document T E f caller db = (Some (Inr r), db')" using run w(7) by auto
    have "\<exists>u. check_compatibility T (pf_api_type f) (v_content row) (pf_content f) = Inr u"
      by (rule document_compatible[OF r inv ga svc lines row(1,2) b(2,3)])
        (use top svc in \<open>auto simp: catalogue_def line_abs_row\<close>)
    with row(3) show "check_compatibility T (pf_api_type f) old (pf_content f) = Inr ()" by simp
  qed
  assume "pf_prior_match f"
  then obtain r1 where r1: "find_version_row db1 sid (pf_api_type f) (pf_version f) = Some r1"
    "v_stability r1 = Snapshot" "v_content_hash r1 = pf_hash f"
    by (auto intro: upsert_expected[OF w(5), of "pf_hash f"])
  obtain row where row: "find_version_row db sid (pf_api_type f) (pf_version f) = Some row"
    and core: "version_core r1 = version_core row" using w(2) r1(1) by (rule quiet_row_back)
  moreover have "docs_ok T db \<longrightarrow> content_hash T (v_content row) = pf_hash f"
    using row r1 core_fields[OF core] by (auto simp: docs_ok_def entry_ok_def find_row_in[OF inv])
  ultimately show "\<exists>old. catalogue db (pf_producer f, pf_api_type f, pf_version f) = Some (Snapshot, old) \<and>
       (docs_ok T db \<longrightarrow> content_hash T old = pf_hash f)"
    using r1(2) core_fields[OF core] service_before[OF w(1,4) inv row] by (auto simp: catalogue_def line_abs_row)
qed


section \<open>The service as a machine\<close>

text \<open>
  Every writing operation, with any clock, caller and argument. A refused call
  that rolls back writes nothing and is not a step; a refused Provide is one,
  because the audit trail and the outbox record it.
\<close>

inductive elsewhere :: "spec_tools \<Rightarrow> db \<Rightarrow> db \<Rightarrow> bool" for T where
  "require_endpoint_inner T E ep dry db = Inr (a, db') \<Longrightarrow> elsewhere T db db'"
| "require_bundle_inner T E bp dry db = Inr (a, db') \<Longrightarrow> elsewhere T db db'"
| "create_branch R E params db = (branch, db') \<Longrightarrow> elsewhere T db db'"
| "rename_branch nm new actor db = (branch, db') \<Longrightarrow> elsewhere T db db'"
| "delete_branch nm actor db = (done, db') \<Longrightarrow> elsewhere T db db'"
| "create_webhook W E who scope req db = Inr (hook, db') \<Longrightarrow> elsewhere T db db'"
| "patch_webhook scope i preq db = Inr (info, db') \<Longrightarrow> elsewhere T db db'"
| "rotate_webhook_secret W E scope i db = Inr (secret, db') \<Longrightarrow> elsewhere T db db'"
| "delete_webhook_in scope i db = Inr (info, db') \<Longrightarrow> elsewhere T db db'"
| "redeliver E scope i did db = Inr (delivery, db') \<Longrightarrow> elsewhere T db db'"
| "deliver_due K config now db = (pass, db') \<Longrightarrow> elsewhere T db db'"
| "cleanup_webhook_data Ct now db = (n, db') \<Longrightarrow> elsewhere T db db'"
| "retire_protocol_family P E nm t caller dry db = Inr (retired, db') \<Longrightarrow> elsewhere T db db'"
| "push_catalog Y W E raw yaml trunk db = Inr (pushed, db') \<Longrightarrow> elsewhere T db db'"
| "elsewhere T db (update_producer_metadata nm icon domain db)"
| "set_producer_external nm external db = Inr db' \<Longrightarrow> elsewhere T db db'"
| "admin_delete_consumer E nm db = Inr (deleted, db') \<Longrightarrow> elsewhere T db db'"
| "elsewhere T db (snd (delete_all_clients E db))"
| "elsewhere T db (snd (cleanup_stale_dependencies C now db))"
| "elsewhere T db (snd (cleanup_stale_trunk_data C now db))"
| "set_max_age_days key n db = Inr db' \<Longrightarrow> elsewhere T db db'"
| "set_ticket_url_template template db = Inr (ticket, db') \<Longrightarrow> elsewhere T db db'"
| "add_user_favorite uid ty nm db = Inr db' \<Longrightarrow> elsewhere T db db'"
| "remove_user_favorite uid ty nm db = Inr db' \<Longrightarrow> elsewhere T db db'"

inductive step :: "spec_tools \<Rightarrow> db \<Rightarrow> act \<Rightarrow> db \<Rightarrow> bool" for T where
  Provide: "provide_spec_with_origin T E p origin db = (res, db') \<Longrightarrow> step T db (Provides p) db'"
| Promote: "promote_version T E producer t v caller db = (res, db') \<Longrightarrow> step T db (Promotes producer t v caller) db'"
| DeleteVersion: "delete_version E producer t v db = Inr (dependents, db') \<Longrightarrow> step T db (DeletesVersion producer t v) db'"
| ExpireSnapshots: "step T db ExpiresSnapshots (snd (cleanup_expired_snapshots C now db))"
| DeleteProducer: "admin_delete_producer E producer db = Inr (deleted, db') \<Longrightarrow> step T db (DeletesProducer producer) db'"
| DeleteServices: "step T db ClearsCatalogue (snd (delete_all_services E db))"
| Reset: "step T db ClearsCatalogue (nuke_database keep db)"
| Other: "elsewhere T db db' \<Longrightarrow> step T db Elsewhere db'"

lemma elsewhere_quiet: "elsewhere T db db' \<Longrightarrow> quiet db db'"
proof (induction rule: elsewhere.induct)
  case (16 nm external db db')
  then show ?case using quiet_producer_columns(2)[of db nm external]
    by (auto simp: set_producer_external_def split: prod.splits if_splits)
next
  case (17 E nm db deleted db')
  then show ?case using quiet_delete_consumer[of db nm "clock E 1"]
    by (auto simp: admin_delete_consumer_def and_then_Inr_iff split: prod.splits if_splits intro: quiet_trans quiet_departed)
next
  case (21 key n db db')
  then show ?case by (auto simp: set_max_age_days_def and_then_Inr_iff intro: quiet_setting)
next
  case (22 template db ticket db')
  then show ?case by (auto simp: set_ticket_url_template_def and_then_Inr_iff split: option.splits if_splits intro: quiet_setting)
qed (auto dest: quiet_require_endpoint quiet_require_bundle quiet_create_branch quiet_rename_branch quiet_remove_branch
    hooks_services hooks_deliver hooks_only_quiet quiet_retire quiet_push quiet_favorites
    intro: quiet_producer_columns quiet_delete_clients quiet_cleanups hooks_only_quiet)

text \<open>The two ways the catalogue loses entries, and the two clearances.\<close>

lemma entry_found:
  assumes "catalog_inv db" and "find_version_entry db producer t v = Inr entry"
  obtains sid row where "find_service db producer = Some sid" "find_version_row db sid t v = Some row"
    "entry = spec_version_meta.truncate row" "row \<in> set (spec_versions db)" "version_key row = (sid, t, v)"
  using assms by (auto simp: find_version_entry_def find_spec_version_def find_row_in split: option.splits)

lemma catalogue_removed:
  assumes "catalog_inv db" and "services db' = services db" and "spec_versions db' = spec_versions (remove_versions gone db)"
  shows "catalogue db' (nm, t, v) = (case find_service db nm of None \<Rightarrow> None | Some sid \<Rightarrow>
     (case find_version_row db sid t v of Some r \<Rightarrow> if gone r then None else Some (v_stability r, v_content r) | None \<Rightarrow> None))"
proof -
  have "line_abs db' = line_abs (remove_versions gone db)" by (rule ext) (simp add: line_abs_def assms(3))
  moreover have "find_service db' nm = find_service db nm" by (simp add: find_service_def assms(2))
  moreover have "versions_ok db" using assms(1) by (simp add: catalog_inv_def)
  ultimately show ?thesis by (simp add: catalogue_def remove_line_abs split: option.split)
qed

lemma catalogue_cases:
  "catalogue db (nm, t, v) = (case find_service db nm of None \<Rightarrow> None | Some sid \<Rightarrow>
     map_option (\<lambda>r. (v_stability r, v_content r)) (find_version_row db sid t v))"
  by (simp add: catalogue_def line_abs_row split: option.split)

lemma delete_version_catalogue:
  assumes inv: "catalog_inv db" and run: "delete_version E producer t v db = Inr (deps, db')"
  shows "catalogue db' = (catalogue db)((producer, t, v) := None)" "catalogue db (producer, t, v) \<noteq> None"
proof -
  obtain entry where e: "find_version_entry db producer t v = Inr entry" and db': "db' = snd (delete_spec_version (v_id entry) (clock E 1) db)"
    using run by (auto simp: delete_version_def and_then_Inr_iff)
  obtain sid row where row: "find_service db producer = Some sid" "find_version_row db sid t v = Some row"
    "entry = spec_version_meta.truncate row" "row \<in> set (spec_versions db)" "version_key row = (sid, t, v)"
    using inv e by (rule entry_found)
  let ?gone = "\<lambda>x. v_id x = v_id row"
  have shape: "services db' = services db" "spec_versions db' = spec_versions (remove_versions ?gone db)"
    using row(3) by (simp_all add: db' delete_spec_version_def remove_versions_def Let_def)
  have inj: "x = row" if "x \<in> set (spec_versions db)" "v_id x = v_id row" for x
    using inv row(4) that by (auto simp: catalog_inv_def versions_ok_def distinct_map dest: inj_onD)
  show "catalogue db (producer, t, v) \<noteq> None" using row by (simp add: catalogue_cases)
  show "catalogue db' = (catalogue db)((producer, t, v) := None)"
  proof
    fix k :: catalogue_key
    obtain nm t' v' where k: "k = (nm, t', v')" by (cases k)
    have hit: "nm = producer \<and> t' = t \<and> v' = v" if "find_service db nm = Some s" "find_version_row db s t' v' = Some r" "v_id r = v_id row" for s r
    proof -
      have "r = row" "version_key r = (s, t', v')" using that(2,3) inj by (simp_all add: find_row_in[OF inv])
      with row(5) have "s = sid" "t' = t" "v' = v" by simp_all
      with service_name_inj[OF inv] that(1) row(1) show ?thesis by blast
    qed
    show "catalogue db' k = ((catalogue db)((producer, t, v) := None)) k"
    proof (cases "k = (producer, t, v)")
      case True
      then show ?thesis using catalogue_removed[OF inv shape, of producer t v] row(1,2) by simp
    next
      case False
      then have "v_id r \<noteq> v_id row" if "find_service db nm = Some s" "find_version_row db s t' v' = Some r" for s r
        using hit[OF that] k by blast
      then have "catalogue db' k = catalogue db k"
        unfolding k catalogue_removed[OF inv shape, of nm t' v'] catalogue_cases[of db nm t' v'] by (auto split: option.split)
      with False show ?thesis by simp
    qed
  qed
qed

lemma expire_catalogue:
  assumes inv: "catalog_inv db"
  shows "catalogue (snd (cleanup_expired_snapshots C now db)) k = catalogue db k \<or>
    catalogue (snd (cleanup_expired_snapshots C now db)) k = None \<and> (\<exists>c. catalogue db k = Some (Snapshot, c))"
proof -
  obtain nm t v where k: "k = (nm, t, v)" by (cases k)
  let ?db' = "\<lambda>cutoff. snd (delete_expired_snapshots cutoff db)"
  have "catalogue (?db' cutoff) k = catalogue db k \<or> catalogue (?db' cutoff) k = None \<and> (\<exists>c. catalogue db k = Some (Snapshot, c))" for cutoff
    using catalogue_removed[OF inv, of "?db' cutoff" "expired_snapshot cutoff" nm t v] catalogue_cases[of db nm t v]
    by (auto simp: k delete_expired_snapshots_def remove_versions_def Let_def expired_snapshot_def split: option.splits if_splits)
  then show ?thesis by (auto simp: cleanup_expired_snapshots_def Let_def)
qed


lemma delete_producer_catalogue:
  assumes inv: "catalog_inv db" and inv': "catalog_inv (snd (delete_producer nm now db))"
  shows "catalogue (snd (delete_producer nm now db)) = (\<lambda>k. if fst k = nm then None else catalogue db k)"
proof
  fix k :: catalogue_key
  let ?db' = "snd (delete_producer nm now db)"
  obtain n t v where k: "k = (n, t, v)" by (cases k)
  show "catalogue ?db' k = (if fst k = nm then None else catalogue db k)"
  proof (cases "find_service db nm")
    case None
    then show ?thesis by (auto simp: delete_producer_def catalogue_def k)
  next
    case (Some sid)
    have svc: "services ?db' = delete_where (\<lambda>s. fst s = sid) (services db)"
      and rows: "spec_versions ?db' = spec_versions (remove_versions (\<lambda>x. v_service_id x = sid) db)"
      using Some by (simp_all add: delete_producer_def remove_versions_def Let_def)
    have in': "find_service ?db' n = Some s \<longleftrightarrow> find_service db n = Some s \<and> s \<noteq> sid" for s
      using inv inv' by (auto simp: catalog_inv_def find_service_Some svc set_delete_where)
    have lines: "line_abs ?db' = line_abs (remove_versions (\<lambda>x. v_service_id x = sid) db)"
      by (rule ext) (simp add: line_abs_def rows)
    have "versions_ok db" using inv by (simp add: catalog_inv_def)
    note removed = remove_line_abs[OF this, of "\<lambda>x. v_service_id x = sid"]
    have keep: "line_abs ?db' (s, t, v) = line_abs db (s, t, v)" if "s \<noteq> sid" for s
    proof -
      have "v_service_id r = s" if "find_version_row db s t v = Some r" for r
        using that by (simp add: find_row_in[OF inv] version_key_def)
      with that show ?thesis unfolding lines removed by (simp add: line_abs_row split: option.split)
    qed
    show ?thesis
    proof (cases "n = nm")
      case True
      then have "find_service ?db' n = None" using in' Some by (cases "find_service ?db' n") auto
      with True show ?thesis by (simp add: catalogue_def k)
    next
      case False
      then have "find_service ?db' n = find_service db n"
        using in' service_name_inj[OF inv _ Some] by (cases "find_service db n"; cases "find_service ?db' n") auto
      with False show ?thesis using in' keep by (auto simp: catalogue_def k split: option.split)
    qed
  qed
qed

lemma cleared:
  assumes "spec_versions db = []"
  shows "catalogue db = Map.empty"
  by (rule ext) (auto simp: catalogue_def line_abs_def assms split: option.split)

lemma cleared_ok: "spec_versions db = [] \<Longrightarrow> ids_ok (next_service db) (services db) \<Longrightarrow> ids_ok (next_client db) (clients db) \<Longrightarrow> store_ok T db"
  by (simp add: store_ok_def catalog_inv_def versions_ok_def docs_ok_def)

lemma clearances:
  assumes "store_ok T db"
  shows "store_ok T (snd (delete_all_services E db))" "catalogue (snd (delete_all_services E db)) = Map.empty"
    "store_ok T (nuke_database keep db)" "catalogue (nuke_database keep db) = Map.empty"
proof -
  have inv: "ids_ok (next_service db) (services db)" "ids_ok (next_client db) (clients db)"
    using assms by (simp_all add: store_ok_def catalog_inv_def)
  then have empty: "ids_ok (next_service db) []" "ids_ok (next_client db) []" by (simp_all add: ids_ok_def)
  let ?d = "snd (repo_delete_all_services db)"
  have d: "store_ok T ?d" "catalogue ?d = Map.empty"
    by (rule cleared_ok; use inv empty in \<open>simp add: repo_delete_all_services_def\<close>) (rule cleared, simp add: repo_delete_all_services_def)
  have all: "snd (delete_all_services E db) = close_catalog_of_departed (clock E 1) (participants db) ?d"
    by (simp add: delete_all_services_def case_prod_beta)
  have "quiet ?d (snd (delete_all_services E db))" unfolding all by (rule quiet_departed)
  then show "store_ok T (snd (delete_all_services E db))" "catalogue (snd (delete_all_services E db)) = Map.empty"
    using store_ok_quiet[OF d(1)] catalogue_quiet[of ?d] d by (simp_all add: store_ok_def)
  show "store_ok T (nuke_database keep db)" by (rule cleared_ok) (use empty in \<open>simp_all add: nuke_database_def\<close>)
  show "catalogue (nuke_database keep db) = Map.empty" by (rule cleared) (simp add: nuke_database_def)
qed

lemma store_ok_delete_version:
  assumes "store_ok T db" and "delete_version E producer t v db = Inr (deps, db')"
  shows "store_ok T db'"
proof -
  from assms(2) obtain i where db': "db' = snd (delete_spec_version i (clock E 1) db)"
    by (auto simp: delete_version_def and_then_Inr_iff)
  have "store_ok T (remove_versions (\<lambda>x. v_id x = i) db)" using assms(1) by (rule store_ok_remove)
  then show ?thesis by (rule store_ok_cong) (simp_all add: db' delete_spec_version_def remove_versions_def Let_def)
qed

lemma store_ok_expire: "store_ok T db \<Longrightarrow> store_ok T (snd (cleanup_expired_snapshots C now db))"
proof -
  assume ok: "store_ok T db"
  have "store_ok T (snd (delete_expired_snapshots cutoff db))" for cutoff
    using store_ok_remove[OF ok, of "expired_snapshot cutoff"]
    by (rule store_ok_cong) (simp_all add: delete_expired_snapshots_def Let_def)
  with ok show ?thesis by (simp add: cleanup_expired_snapshots_def Let_def)
qed

lemma admin_delete_producer_state:
  assumes "admin_delete_producer E nm db = Inr (deleted, db')"
  obtains "quiet (snd (delete_producer nm (clock E 1) db)) db'"
  using assms by (auto simp: admin_delete_producer_def and_then_Inr_iff split: prod.splits if_splits intro: quiet_departed)

section \<open>The machine keeps its invariant and refines the abstract one\<close>

lemma step_ok:
  assumes ok: "store_ok T db" and "step T db a db'"
  shows "store_ok T db'"
  using assms(2)
proof cases
  case Provide
  with ok provide_keeps show ?thesis by (simp add: store_ok_def)
next
  case Promote
  with ok promote_keeps show ?thesis by (simp add: store_ok_def)
next
  case DeleteProducer
  then show ?thesis using delete_producer_ok[OF ok] by (auto elim!: admin_delete_producer_state intro: store_ok_quiet)
qed (use ok in \<open>auto intro: store_ok_delete_version store_ok_expire clearances store_ok_quiet elsewhere_quiet\<close>)

lemma provide_abs:
  assumes ok: "store_ok T db" and "provide_spec_with_origin T E p origin db = (res, db')"
  shows "abs_step T (catalogue db) (Provides p) (catalogue db')"
  using assms(2)
proof (cases rule: with_origin_cases)
  case (document f o')
  note f = read_provide_Inr[OF document(1)]
  have inv: "catalog_inv db" using ok by (simp add: store_ok_def)
  show ?thesis
  proof (cases "catalogue db' = catalogue db")
    case False
    note w = document_catalogue[OF document(2) inv False]
    show ?thesis unfolding w(3) f(1-3) f(5) by (rule Publish) (use w f in simp_all)
  qed (simp add: Keep)
qed (simp add: Keep)

lemma promote_abs:
  assumes ok: "store_ok T db" and "promote_version T E producer t v caller db = (res, db')"
  shows "abs_step T (catalogue db) (Promotes producer t v caller) (catalogue db')"
  using assms(2)
proof (cases rule: promote_cases)
  case (document f entry content)
  note f = read_provide_Inr[OF document(3), unfolded release_params_def, simplified]
  have inv: "catalog_inv db" and docs: "docs_ok T db" using ok by (simp_all add: store_ok_def)
  show ?thesis
  proof (cases "catalogue db' = catalogue db")
    case False
    note w = document_catalogue[OF document(4) inv False]
    obtain sid row where row: "find_service db producer = Some sid" "find_version_row db sid t v = Some row"
      "entry = spec_version_meta.truncate row" using inv document(1) by (rule entry_found)
    then have c: "catalogue db (producer, t, v) = Some (v_stability row, v_content row)" "v_content row = content"
      using document(2) content_of_row[OF inv row(2)] by (simp_all add: catalogue_cases)
    obtain old where "catalogue db (producer, t, pf_version f) = Some (Snapshot, old)" "content_hash T old = pf_hash f"
      using w(4) docs f by auto
    then show ?thesis
      unfolding w(3) f(1-3) f(5) using c by (intro Release[where stored = content and old = old and s = "v_stability row"]) (use w f in simp_all)
  qed (simp add: Keep)
qed (simp add: Keep)

lemma step_abs:
  assumes ok: "store_ok T db" and "step T db a db'"
  shows "abs_step T (catalogue db) a (catalogue db')"
  using assms(2)
proof cases
  case (DeleteVersion E producer t v deps)
  with ok show ?thesis using delete_version_catalogue[of db E producer t v deps db']
    by (auto simp: store_ok_def intro!: Delete)
next
  case (ExpireSnapshots C now)
  have "abs_step T (catalogue db) ExpiresSnapshots (catalogue (snd (cleanup_expired_snapshots C now db)))"
    by (rule Expire, rule expire_catalogue) (use ok in \<open>simp add: store_ok_def\<close>)
  with ExpireSnapshots show ?thesis by simp
next
  case (DeleteProducer E producer deleted)
  have "store_ok T (snd (delete_producer producer (clock E 1) db))" using ok by (rule delete_producer_ok)
  with ok DeleteProducer(2) show ?thesis
    using delete_producer_catalogue[of db producer "clock E 1"] catalogue_quiet Depart[of T "catalogue db" producer]
    unfolding DeleteProducer(1) by (auto simp: store_ok_def elim!: admin_delete_producer_state)
next
  case Other
  with ok show ?thesis using catalogue_quiet[OF elsewhere_quiet] by (auto simp: store_ok_def Keep)
qed (use ok in \<open>auto simp: clearances Clear intro: provide_abs promote_abs\<close>)

interpretation cat: refines "step T" "abs_step T" catalogue "store_ok T" for T
  by unfold_locales (rule step_ok step_abs; assumption)+


lemma empty_store: "store_ok T empty_db" "catalogue empty_db = Map.empty"
  by (rule cleared_ok; simp add: empty_db_def ids_ok_def) (rule cleared, simp add: empty_db_def)

section \<open>A run to look at\<close>

text \<open>A snapshot is provided, promoted by another releaser, and then a new text for it is sent.\<close>

definition sample_promoter :: "actor option" where
  "sample_promoter = Some (plain_actor ''bob'' [Releaser])"

definition sample_promoted :: db where
  "sample_promoted = snd (promote_version sample_spec quiet_env ''api'' OpenApi (SemVer 1 0 0) sample_promoter sample_snapshot)"

definition sample_late :: db where
  "sample_late = snd (sample_run (sample_provide Snapshot ''1.0.0 /b'' ''ann'') sample_promoted)"

definition sample_history :: "act list" where
  "sample_history = [Provides (sample_provide Snapshot ''1.0.0 /a'' ''ann''), Promotes ''api'' OpenApi (SemVer 1 0 0) sample_promoter]"

lemma sample_history_runs: "run (step sample_spec) empty_db sample_history sample_promoted"
proof -
  have "step sample_spec empty_db (Provides (sample_provide Snapshot ''1.0.0 /a'' ''ann'')) sample_snapshot"
    unfolding sample_snapshot_def sample_run_def by (rule step.Provide, rule surjective_pairing)
  moreover have "step sample_spec sample_snapshot (Promotes ''api'' OpenApi (SemVer 1 0 0) sample_promoter) sample_promoted"
    unfolding sample_promoted_def by (rule step.Promote, rule surjective_pairing)
  ultimately show ?thesis unfolding sample_history_def by (blast intro: run.intros)
qed

lemma sample_late_runs:
  "run (step sample_spec) sample_promoted [Provides (sample_provide Snapshot ''1.0.0 /b'' ''ann'')] sample_late"
  unfolding run_Cons run_Nil sample_late_def sample_run_def by (blast intro: step.Provide surjective_pairing)

lemma sample_run_entries:
  "catalogue sample_snapshot (''api'', OpenApi, SemVer 1 0 0) = Some (Snapshot, ''1.0.0 /a'')"
  "catalogue sample_promoted (''api'', OpenApi, SemVer 1 0 0) = Some (Ga, ''1.0.0 /a'')"
  by code_simp+


end
