(* ===== verification/Provide_Preview.thy ===== *)
theory Provide_Preview
  imports Provide_Rules
begin

text \<open>
  The preview of a Provide. A dry run writes nothing and answers what the real
  call would answer: the rules read only tables that registering a Producer
  leaves alone.
\<close>

section \<open>A dry run writes nothing\<close>

abbreviation dry :: "provide_facts \<Rightarrow> provide_facts" where
  "dry f \<equiv> f\<lparr>pf_dry_run := True\<rparr>"

lemma dry_rejection [simp]: "record_version_rejection E True rj db = db"
  by (simp add: record_version_rejection_def)

lemma dry_contract_rejection [simp]: "pf_dry_run f \<Longrightarrow> record_contract_rejection E f e db = db"
  by (simp add: record_contract_rejection_def split: app_error.split)

lemma dry_refuse [simp]: "pf_dry_run f \<Longrightarrow> refuse E f r db = (map_option (\<lambda>v. Inl (VersionConflict (snd (snd r) v) v)) (fst (snd r)), db)"
  by (simp add: refuse_def split: prod.split option.split)

lemma dry_judge: "pf_dry_run f \<Longrightarrow> snd (judge_version T E f sid harvest db) = db"
  by (simp add: judge_version_def Let_def refresh_unchanged_def accept_version_def split: option.split sum.split)

lemma dry_document: "pf_dry_run f \<Longrightarrow> snd (provide_document T E f caller db) = db"
  by (simp add: provide_document_def register_producer_def dry_judge split: sum.split)

section \<open>The answers agree\<close>

text \<open>What the rules do not look at: whether the run is a preview.\<close>

lemma dry_same [simp]:
  "ga_conflict T (dry f) line e db = ga_conflict T f line e db" "owned_conflict (dry f) line e = owned_conflict f line e"
  "response (dry f) = response f" "is_promotion (dry f) x = is_promotion f x"
  "harvests (dry f) = harvests f" "ga_gate_message (dry f) = ga_gate_message f"
  unfolding ga_conflict_def owned_conflict_def response_def is_promotion_def harvests_def ga_gate_message_def
  by (simp_all add: fun_eq_iff)

lemma dry_same_cases [simp]:
  "is_unchanged (dry f) x = is_unchanged f x" "provide_changes_of (dry f) x db = provide_changes_of f x db"
  "existing_conflict T (dry f) line x db = existing_conflict T f line x db"
  "breaking_release T (dry f) line db = breaking_release T f line db"
  unfolding is_unchanged_def provide_changes_of_def existing_conflict_def breaking_release_def
  by (auto split: option.split sum.split)

text \<open>What registering a Producer leaves as it was.\<close>

definition contracts_known :: "db \<Rightarrow> bool" where
  "contracts_known db \<longleftrightarrow> (\<forall>c \<in> set (contracts db). c_owner_service_id c \<in> fst ` set (services db))"

lemma register_same:
  assumes "register_producer f db = (sid, db1)"
  shows "spec_versions db1 = spec_versions db" "endpoints db1 = endpoints db" "contracts db1 = contracts db"
    "\<exists>new. services db1 = services db @ new"
  using assms
  by (auto simp: register_producer_def ensure_service_def add_service_tags_def split: if_splits prod.splits option.splits api_type.splits)

lemma name_by_id_append:
  assumes "i \<in> fst ` set (services db)" and "services db1 = services db @ new"
  shows "get_service_name_by_id db1 i = get_service_name_by_id db i"
proof -
  obtain s where "find (\<lambda>s. fst s = i) (services db) = Some s"
    using assms(1) by (cases "find (\<lambda>s. fst s = i) (services db)") (auto simp: find_None_not)
  with assms(2) show ?thesis by (simp add: get_service_name_by_id_def find_append)
qed

lemma owner_same:
  assumes "contracts_known db" and "contracts db1 = contracts db" and "services db1 = services db @ new"
    and "get_channel_message_contract db ch m = Some c"
  shows "get_service_name_by_id db1 (c_owner_service_id c) = get_service_name_by_id db (c_owner_service_id c)"
  using assms by (intro name_by_id_append) (auto simp: contracts_known_def get_channel_message_contract_def dest: find_Some_in)

lemma contract_same:
  "contracts db1 = contracts db \<Longrightarrow> get_channel_message_contract db1 = get_channel_message_contract db"
  by (intro ext) (simp add: get_channel_message_contract_def)

lemma harvest_same:
  assumes "contracts_known db" and "contracts db1 = contracts db" and "services db1 = services db @ new"
  shows "plan_harvest T db1 stab subs = plan_harvest T db stab subs"
proof (induction subs)
  case (Cons s subs)
  have "contract_owner db1 (get_channel_message_contract db ch m) = contract_owner db (get_channel_message_contract db ch m)" for ch m
    using owner_same[OF assms] by (auto simp: contract_owner_def split: option.split)
  with Cons show ?case by (simp add: contract_same[OF assms(2)])
qed simp

text \<open>Contract plans for an id that owns nothing refuse for the same reason, whatever the id.\<close>

definition same_verdict :: "'e + 'a \<Rightarrow> 'e + 'b \<Rightarrow> bool" where
  "same_verdict x y \<longleftrightarrow> map_sum id (\<lambda>_. ()) x = map_sum id (\<lambda>_. ()) y"

lemma same_verdict_simps [simp]:
  "same_verdict (Inl e) y \<longleftrightarrow> y = Inl e" "same_verdict (Inr a) y \<longleftrightarrow> (\<exists>b. y = Inr b)"
  by (cases y; auto simp: same_verdict_def)+

lemma same_verdict_and_then:
  assumes "same_verdict x y" and "\<And>a b. x = Inr a \<Longrightarrow> y = Inr b \<Longrightarrow> same_verdict (f a) (g b)"
  shows "same_verdict (and_then x f) (and_then y g)"
  using assms by (cases x) auto

lemma message_verdict:
  assumes "contracts_known db" and "contracts db1 = contracts db" and "services db1 = services db @ new"
    and "\<And>c. c \<in> set (contracts db) \<Longrightarrow> (c_owner_service_id c = sid) = (c_owner_service_id c = sid')"
  shows "same_verdict (plan_message T db1 sid m) (plan_message T db sid' m)"
proof (cases "get_channel_message_contract db (m_channel m) (m_message_name m)")
  case (Some c)
  have mine: "(c_owner_service_id c = sid) = (c_owner_service_id c = sid')"
    using Some by (intro assms(4)) (auto simp: get_channel_message_contract_def dest: find_Some_in)
  show ?thesis
    unfolding plan_message_def contract_same[OF assms(2)] Some option.case owner_same[OF assms(1-3) Some] mine
    by (simp split: sum.split)
qed (simp add: plan_message_def contract_same[OF assms(2)])

lemma messages_verdict:
  assumes "contracts_known db" and "contracts db1 = contracts db" and "services db1 = services db @ new"
    and "\<And>c. c \<in> set (contracts db) \<Longrightarrow> (c_owner_service_id c = sid) = (c_owner_service_id c = sid')"
  shows "same_verdict (plan_messages T db1 sid msgs) (plan_messages T db sid' msgs)"
proof (induction msgs)
  case (Cons m msgs)
  show ?case
    unfolding plan_messages.simps
    by (intro same_verdict_and_then message_verdict[OF assms] Cons) auto
qed simp

lemma contracts_verdict:
  assumes "contracts_known db" and "contracts db1 = contracts db" and "services db1 = services db @ new"
    and "\<And>c. c \<in> set (contracts db) \<Longrightarrow> (c_owner_service_id c = sid) = (c_owner_service_id c = sid')"
  shows "same_verdict (plan_channel_message_contracts T db1 sid content) (plan_channel_message_contracts T db sid' content)"
  unfolding plan_channel_message_contracts_def
  by (cases "extract_pub_messages T content")
    (auto intro!: same_verdict_and_then messages_verdict[OF assms])

lemma register_dry: "register_producer (dry f) db = (or_keep (find_service db (pf_producer f)) 0, db)"
  by (simp add: register_producer_def)

text \<open>A new Producer has an empty line and owns no contract, as the preview assumes of id \<open>0\<close>.\<close>

lemma register_ids:
  assumes "catalog_inv db" and "contracts_known db" and "\<not> pf_dry_run f" and "register_producer f db = (sid, db1)"
    and "sid0 = or_keep (find_service db (pf_producer f)) 0"
  shows "version_line db1 sid t = version_line db sid0 t"
    "\<And>c. c \<in> set (contracts db) \<Longrightarrow> (c_owner_service_id c = sid) = (c_owner_service_id c = sid0)"
proof -
  have ids: "0 < i \<and> i < next_service db" if "i \<in> fst ` set (services db)" for i
    using assms(1) that by (auto simp: catalog_inv_def ids_ok_def)
  have sids: "v_service_id v \<in> fst ` set (services db)" if "v \<in> set (spec_versions db)" for v
    using assms(1) that by (auto simp: catalog_inv_def versions_ok_def)
  have line: "version_line db1 i t = version_line db i t" for i
    by (simp add: version_line_def list_spec_versions_def register_same(1)[OF assms(4)])
  have sid: "sid = (case find_service db (pf_producer f) of Some s \<Rightarrow> s | None \<Rightarrow> next_service db)"
    using assms(3,4) by (auto simp: register_producer_def ensure_service_def split: prod.splits option.splits)
  have "version_line db (next_service db) t = []"
    using sids ids by (fastforce simp: version_line_def filter_empty_conv in_list_spec_versions)
  then show "version_line db1 sid t = version_line db sid0 t"
    using line sid assms(5) by (cases "find_service db (pf_producer f)") (simp_all add: or_keep_def version_line_def)
  fix c assume "c \<in> set (contracts db)"
  then have "c_owner_service_id c \<in> fst ` set (services db)" using assms(2) by (auto simp: contracts_known_def)
  from ids[OF this] show "(c_owner_service_id c = sid) = (c_owner_service_id c = sid0)"
    using sid assms(5) by (cases "find_service db (pf_producer f)") (auto simp: or_keep_def)
qed

text \<open>
  With the rules passed and no expected text, the write can be refused only by the
  index on the addresses, and is when the document repeats one.
\<close>

definition addresses_distinct :: "provide_facts \<Rightarrow> bool" where
  "addresses_distinct f \<longleftrightarrow> distinct (map (\<lambda>e. (s_path e, s_method e)) (pf_endpoints f))"

definition repeated_address :: repository_error where
  "repeated_address = RepoInternal ''UNIQUE constraint failed: endpoints''"

lemma write_outcome:
  assumes "catalog_inv db1" and "sid \<in> fst ` set (services db1)" and "\<not> pf_prior_match f"
    and "existing_conflict T f line (entry_for f sid db1) db1 = None"
  shows "if addresses_distinct f
    then \<exists>x. upsert_spec_version (upsert_of T E f sid line (entry_for f sid db1) db1) db1 = Inr x
    else upsert_spec_version (upsert_of T E f sid line (entry_for f sid db1) db1) db1 = Inl repeated_address"
proof -
  let ?p = "upsert_of T E f sid line (entry_for f sid db1) db1"
  have "\<exists>x. upsert_row ?p db1 = Inr x"
  proof (cases "find_version_row db1 sid (pf_api_type f) (pf_version f)")
    case None
    then show ?thesis using assms(2,3) by (simp add: upsert_row_def find_version_row_def)
  next
    case (Some r)
    then have "entry_for f sid db1 = Some (spec_version_meta.truncate r)"
      using line_find[OF assms(1), of "pf_version f" sid "pf_api_type f"] by (simp add: find_spec_version_def)
    then have "v_stability r \<noteq> Ga" using assms(4) by (auto simp: existing_conflict_def)
    with Some show ?thesis using assms(3) by (simp add: upsert_row_def find_version_row_def)
  qed
  moreover have "map (\<lambda>e. (e_api_type e, e_path e, e_method e)) (endpoint_records f) =
      map (Pair (pf_api_type f)) (map (\<lambda>e. (s_path e, s_method e)) (pf_endpoints f))"
    by (simp add: endpoint_records_def)
  moreover have "distinct (map (Pair t) xs) = distinct xs" for t :: api_type and xs :: "(string \<times> string) list"
    by (simp add: distinct_map inj_on_def)
  ultimately show ?thesis by (auto simp: upsert_spec_version_def addresses_distinct_def repeated_address_def simp del: map_map)
qed

text \<open>
  The preview and the real answer: the same, unless the preview accepts a document
  that repeats an address and the index then refuses it.
\<close>

definition foretold :: "bool \<Rightarrow> (app_error + provide_response) option \<Rightarrow> (app_error + provide_response) option \<Rightarrow> bool" where
  "foretold good preview real \<longleftrightarrow>
     preview = real \<or> \<not> good \<and> (\<exists>r. preview = Some (Inr r)) \<and> real = Some (Inl (app_error_from repeated_address))"

lemma foretold_refl [simp]: "foretold good x x"
  by (simp add: foretold_def)

lemma accept_predicted:
  assumes "contracts_known db" and "contracts db1 = contracts db" and "services db1 = services db @ new"
    and "\<And>c. c \<in> set (contracts db) \<Longrightarrow> (c_owner_service_id c = sid) = (c_owner_service_id c = sid0)"
    and "\<not> pf_dry_run f"
    and "if addresses_distinct f then \<exists>x. upsert_spec_version (upsert_of T E f sid line ex db1) db1 = Inr x
      else upsert_spec_version (upsert_of T E f sid line ex db1) db1 = Inl repeated_address"
    and "provide_changes_of f ex db1 = provide_changes_of f ex db"
  shows "foretold (addresses_distinct f) (fst (accept_version T E (dry f) sid0 line ex h db)) (fst (accept_version T E f sid line ex h db1))"
proof -
  have "same_verdict
      (if pf_api_type f = AsyncApi \<and> pf_stability f = Ga then plan_channel_message_contracts T db1 sid (pf_content f) else Inr [])
      (if pf_api_type f = AsyncApi \<and> pf_stability f = Ga then plan_channel_message_contracts T db sid0 (pf_content f) else Inr [])"
    (is "same_verdict ?x ?y") using contracts_verdict[OF assms(1-4)] by simp
  then consider e where "?x = Inl e" "?y = Inl e" | a b where "?x = Inr a" "?y = Inr b"
    by (cases ?x) auto
  then show ?thesis
    using assms(5-7)
    by cases (auto simp: accept_version_def write_version_def foretold_def repeated_address_def split: prod.split if_splits)
qed

lemma content_same: "spec_versions db1 = spec_versions db \<Longrightarrow> get_spec_content db1 = get_spec_content db"
  by (intro ext) (simp add: get_spec_content_def)

lemma endpoints_same: "endpoints db1 = endpoints db \<Longrightarrow> get_endpoints_for_version db1 = get_endpoints_for_version db"
  by (intro ext) (simp add: get_endpoints_for_version_def)

lemma rules_same:
  assumes "spec_versions db1 = spec_versions db" and "endpoints db1 = endpoints db"
  shows "existing_conflict T f line x db1 = existing_conflict T f line x db"
    "breaking_release T f line db1 = breaking_release T f line db"
    "provide_changes_of f x db1 = provide_changes_of f x db"
  unfolding existing_conflict_def breaking_release_def provide_changes_of_def ga_conflict_def
    content_same[OF assms(1)] endpoints_same[OF assms(2)] by (rule refl)+

lemma refuse_predicted: "fst (refuse E f r db1) = fst (refuse E (dry f) r db)"
  by (simp add: refuse_def split: prod.split option.split)

lemma document_past_gate:
  assumes "pf_stability f = Ga \<longrightarrow> may_release caller" and "register_producer f db = (sid, db1)"
  shows "fst (provide_document T E f caller db) =
    (case (if harvests f then plan_subscription_harvest T db1 (pf_content f) (pf_stability f) else Inr ([], [])) of
       Inl e \<Rightarrow> Some (Inl e) | Inr h \<Rightarrow> fst (judge_version T E f sid h db1))"
proof -
  have "\<not> (pf_stability f = Ga \<and> \<not> may_release caller)" using assms(1) by simp
  then show ?thesis unfolding provide_document_def assms(2) by (simp only: if_False prod.case Let_def) (simp split: sum.split)
qed

lemma document_predicted:
  assumes inv: "catalog_inv db" and known: "contracts_known db" and real: "\<not> pf_dry_run f" "\<not> pf_prior_match f"
  shows "foretold (addresses_distinct f) (fst (provide_document T E (dry f) caller db)) (fst (provide_document T E f caller db))"
proof (cases "pf_stability f = Ga \<and> \<not> may_release caller")
  case True
  then show ?thesis by (simp add: provide_document_def)
next
  case ok: False
  obtain sid db1 where reg: "register_producer f db = (sid, db1)" by (cases "register_producer f db")
  define sid0 where "sid0 = or_keep (find_service db (pf_producer f)) 0"
  note same = register_same[OF reg]
  obtain new where new: "services db1 = services db @ new" using same(4) by blast
  note ids = register_ids[OF inv known real(1) reg sid0_def]
  have inv1: "catalog_inv db1" using quiet_inv[OF quiet_register inv] reg by (metis snd_conv)
  have known_sid: "sid \<in> fst ` set (services db1)"
    using registered(1)[OF reg real(1) inv] inv1 by (force simp: catalog_inv_def find_service_Some)
  let ?line = "version_line db sid0 (pf_api_type f)" and ?x = "entry_for f sid db1"
  have line: "version_line db1 sid (pf_api_type f) = ?line" by (rule ids(1))
  have "foretold (addresses_distinct f) (fst (judge_version T E (dry f) sid0 h db)) (fst (judge_version T E f sid h db1))" for h
  proof (cases "is_unchanged f ?x")
    case True
    then show ?thesis by (simp add: judge_version_def Let_def line)
  next
    case False
    show ?thesis
    proof (cases "existing_conflict T f ?line ?x db1")
      case None
      note lands = write_outcome[OF inv1 known_sid real(2) None]
      from None False show ?thesis
        using accept_predicted[OF known same(3) new ids(2) real(1) lands rules_same(3)[OF same(1,2)]] refuse_predicted[of E f _ db1 db]
        by (simp add: judge_version_def Let_def line rules_same[OF same(1,2)] split: option.split)
    next
      case (Some r)
      with False show ?thesis
        using refuse_predicted[of E f _ db1 db] by (simp add: judge_version_def Let_def line rules_same[OF same(1,2)])
    qed
  qed
  moreover have "plan_subscription_harvest T db1 c stab = plan_subscription_harvest T db c stab" for c stab
    by (simp add: plan_subscription_harvest_def harvest_same[OF known same(3) new] and_then_def split: sum.split)
  moreover have "pf_stability f = Ga \<longrightarrow> may_release caller" using ok by simp
  ultimately show ?thesis
    using document_past_gate[of f caller db sid db1 T E] document_past_gate[of "dry f" caller db sid0 db T E] reg
    by (simp add: register_dry sid0_def[symmetric] split: sum.split)
qed

text \<open>
  C21: A dry run is a faithful preview. It writes nothing, and its answer, the
  response or the refusal with its message and proposed version, is the one the real
  call gives on the same state, with one exception: a document that repeats a path
  with its method is accepted by the preview and refused by the real call, by the
  table's unique index. This is for the calls from outside, of which none names a
  text it expects to replace, on a store whose contracts have a known owner.
\<close>

theorem dry_run_is_preview:
  assumes "catalog_inv db" and "contracts_known db" and "\<not> pv_dry_run p" and "\<not> pv_require_prior p"
    and "provide_spec_with_origin T E (p\<lparr>pv_dry_run := True\<rparr>) origin db = (preview, db')"
    and "provide_spec_with_origin T E p origin db = (real, db'')"
  shows "db' = db \<and>
    (preview = real \<or>
     (\<exists>es. parse_spec_endpoints T (pv_api_type p) (normalize_spec_text (pv_content p)) = Inr es \<and>
        \<not> distinct (map (\<lambda>e. (s_path e, s_method e)) es)) \<and>
     (\<exists>r. preview = Some (Inr r)) \<and> real = Some (Inl (app_error_from repeated_address)))"
proof -
  have read: "read_provide T (p\<lparr>pv_dry_run := True\<rparr>) o' db = map_sum id dry (read_provide T p o' db)" for o'
    by (simp add: read_provide_def Let_def and_then_def split: sum.split)
  have told: "foretold (addresses_distinct f) (fst (provide_document T E (dry f) (pv_caller p) db)) (fst (provide_document T E f (pv_caller p) db)) \<and>
      parse_spec_endpoints T (pv_api_type p) (normalize_spec_text (pv_content p)) = Inr (pf_endpoints f)"
    if "read_provide T p o' db = Inr f" for f o'
    using read_provide_Inr[OF that] assms(1-4) by (auto intro!: document_predicted)
  show ?thesis
  proof (cases "\<exists>o' f. origin_normalized origin = Inr o' \<and> read_provide T p o' db = Inr f")
    case True
    then obtain o' f where f: "origin_normalized origin = Inr o'" "read_provide T p o' db = Inr f" by blast
    then have runs: "provide_document T E (dry f) (pv_caller p) db = (preview, db')" "provide_document T E f (pv_caller p) db = (real, db'')"
      using assms(5,6) by (simp_all add: provide_spec_with_origin_def provide_spec_inner_def read)
    have "db' = db" using dry_document[of "dry f" T E "pv_caller p" db] runs(1) by simp
    with told[OF f(2)] runs show ?thesis by (auto simp: foretold_def addresses_distinct_def)
  next
    case False
    then have "preview = real \<and> db' = db"
      using assms(5,6) by (auto simp: provide_spec_with_origin_def provide_spec_inner_def read split: sum.splits)
    then show ?thesis by simp
  qed
qed

section \<open>Providing the same bytes again\<close>

lemma queue_origin: "outbox (set_version_origin i o' db) = outbox db" "deliveries (set_version_origin i o' db) = deliveries db"
  by (simp_all add: set_version_origin_def Let_def)

lemma queue_trunk: "outbox (touch_spec_version_trunk i now db) = outbox db" "deliveries (touch_spec_version_trunk i now db) = deliveries db"
  by (simp_all add: touch_spec_version_trunk_def Let_def split: option.split)

lemma queue_harvest:
  "outbox (reconcile_harvest producer trunk inputs now db) = outbox db"
  "deliveries (reconcile_harvest producer trunk inputs now db) = deliveries db"
  by (simp_all add: reconcile_harvest_def reconcile_harvested_subscriptions_def ensure_client_def split: option.split)

lemma queue_mark: "outbox (mark_member f sid now db) = outbox db" "deliveries (mark_member f sid now db) = deliveries db"
  by (simp_all add: mark_member_def record_branch_member_version_def split: option.split)

lemma queue_refresh:
  "outbox (refresh_unchanged E f sid entry inputs db) = outbox db"
  "deliveries (refresh_unchanged E f sid entry inputs db) = deliveries db"
  by (simp_all add: refresh_unchanged_def refresh_origin_def Let_def queue_origin queue_trunk queue_harvest queue_mark
      touch_spec_version_provided_def split: option.split)

lemma queue_register:
  "outbox (snd (register_producer f db)) = outbox db" "deliveries (snd (register_producer f db)) = deliveries db"
  by (simp_all add: register_producer_def ensure_service_def add_service_tags_def split: prod.split option.split api_type.split)

lemma document_runs:
  assumes "(if harvests f then plan_subscription_harvest T db1 (pf_content f) (pf_stability f) else Inr ([], [])) = Inr h"
    and "register_producer f db = (sid, db1)" and "pf_stability f = Ga \<longrightarrow> may_release caller"
  shows "provide_document T E f caller db = judge_version T E f sid h db1"
proof -
  have "\<not> (pf_stability f = Ga \<and> \<not> may_release caller)" using assms(3) by simp
  then show ?thesis unfolding provide_document_def assms(2) by (simp only: if_False prod.case Let_def assms(1) sum.case)
qed


section \<open>Examples\<close>

theorem dry_run_is_preview_witness:
  "snd (provide_spec_with_origin sample_spec quiet_env ((sample_provide Ga ''1.1.0 /a'' ''ann'')\<lparr>pv_dry_run := True\<rparr>) empty_origin sample_released) = sample_released \<and>
    fst (provide_spec_with_origin sample_spec quiet_env ((sample_provide Ga ''1.1.0 /a'' ''ann'')\<lparr>pv_dry_run := True\<rparr>) empty_origin sample_released) =
    fst (provide_spec_with_origin sample_spec quiet_env (sample_provide Ga ''1.1.0 /a'' ''ann'') empty_origin sample_released)"
proof -
  have "catalog_inv sample_released" "contracts_known sample_released" by code_simp+
  moreover have "parse_spec_endpoints sample_spec OpenApi (normalize_spec_text ''1.1.0 /a'') = Inr [sample_endpoint ''/a'']" by code_simp
  ultimately show ?thesis
    using dry_run_is_preview[of sample_released "sample_provide Ga ''1.1.0 /a'' ''ann''" sample_spec quiet_env empty_origin,
        OF _ _ _ _ surjective_pairing surjective_pairing]
    by (simp add: sample_provide_def sample_endpoint_def)
qed


end
