(* ===== verification/Contracts.thy ===== *)
theory Contracts
  imports Provide_Rules
begin

text \<open>
  Ownership of channel messages. A released message document claims the
  messages it publishes; a message has one owner, and a Producer can neither
  take over nor drop another Producer's message.
\<close>

section \<open>Only a release touches contracts\<close>

definition contracts_ok :: "db \<Rightarrow> bool" where
  "contracts_ok db \<longleftrightarrow> distinct (map contract_key (contracts db)) \<and>
     (\<forall>c \<in> set (contracts db). c_owner_service_id c \<in> fst ` set (services db))"

lemma contracts_frame [simp]:
  "contracts (insert_webhook_events evs db) = contracts db" "contracts (insert_audit_log a db) = contracts db"
  "contracts (set_version_origin i o' db) = contracts db" "contracts (touch_spec_version_trunk i now db) = contracts db"
  "contracts (touch_spec_version_provided i now db) = contracts db" "contracts (mark_member f sid now db) = contracts db"
  "contracts (reconcile_harvest producer trunk inputs now db) = contracts db"
  "contracts (snd (register_producer f db)) = contracts db"
  by (simp_all add: insert_webhook_events_def insert_audit_log_def set_version_origin_def touch_spec_version_trunk_def
      touch_spec_version_provided_def mark_member_def record_branch_member_version_def reconcile_harvest_def
      reconcile_harvested_subscriptions_def ensure_client_def register_producer_def ensure_service_def add_service_tags_def
      Let_def split: option.split prod.split api_type.split)

lemma contracts_rejection [simp]:
  "contracts (record_version_rejection E d rj db) = contracts db"
  "contracts (record_contract_rejection E f e db) = contracts db"
  "contracts (refresh_unchanged E f sid entry inputs db) = contracts db"
  by (simp_all add: record_version_rejection_def record_contract_rejection_def refresh_unchanged_def refresh_origin_def
      Let_def split: option.split app_error.split)

lemma contracts_refuse [simp]: "contracts (snd (refuse E f r db)) = contracts db"
  by (simp add: refuse_def split: prod.split option.split)

lemma contracts_upsert: "upsert_spec_version p db = Inr (vid, db') \<Longrightarrow> contracts db' = contracts db"
  by (auto simp: replace_endpoints_def elim!: upsert_Inr dest!: upsert_row_Inr)

lemma services_upsert: "upsert_spec_version p db = Inr (vid, db') \<Longrightarrow> services db' = services db"
  by (auto elim!: upsert_Inr dest!: upsert_row_Inr)

lemma contracts_op_cong: "contracts d = contracts d' \<Longrightarrow> contracts (apply_contract_op op d) = contracts (apply_contract_op op d')"
  by (cases op) (simp_all add: upsert_channel_message_contract_def delete_channel_message_contract_def)

lemma contracts_ops_cong: "contracts d = contracts d' \<Longrightarrow> contracts (apply_contract_ops ops d) = contracts (apply_contract_ops ops d')"
  unfolding apply_contract_ops_def
proof (induction ops arbitrary: d d')
  case (Cons op ops)
  from Cons.IH[OF contracts_op_cong[OF Cons.prems, of op]] show ?case by simp
qed simp

lemma document_contracts:
  assumes "provide_document T E f caller db = (res, db')"
  obtains (kept) "contracts db' = contracts db"
  | (claimed) sid db1 ops where "register_producer f db = (sid, db1)" "pf_stability f = Ga" "may_release caller"
      "\<not> pf_dry_run f" "plan_channel_message_contracts T db1 sid (pf_content f) = Inr ops"
      "contracts db' = contracts (apply_contract_ops ops db)" "set (services db1) \<subseteq> set (services db')"
proof -
  obtain sid db1 where reg: "register_producer f db = (sid, db1)" by (cases "register_producer f db")
  have c1: "contracts db1 = contracts db" using reg contracts_frame(8)[of f db] by simp
  show ?thesis
  proof (cases "pf_stability f = Ga \<and> \<not> may_release caller")
    case True
    with assms show ?thesis by (intro kept) (auto simp: provide_document_def)
  next
    case ok: False
    show ?thesis
    proof (cases "if harvests f then plan_subscription_harvest T db1 (pf_content f) (pf_stability f) else Inr ([], [])")
      case (Inl e)
      with assms ok reg have "db' = record_contract_rejection E f e db1" by (auto simp: provide_document_def)
      with c1 show ?thesis by (intro kept) simp
    next
      case (Inr harvest)
      with assms ok reg have judge: "judge_version T E f sid harvest db1 = (res, db')" by (auto simp: provide_document_def)
      let ?line = "version_line db1 sid (pf_api_type f)" and ?x = "entry_for f sid db1"
      let ?plan = "if pf_api_type f = AsyncApi \<and> pf_stability f = Ga then plan_channel_message_contracts T db1 sid (pf_content f) else Inr []"
      consider "db' = refresh_unchanged E f sid (the ?x) (fst harvest) db1" | r where "refuse E f r db1 = (res, db')"
        | "accept_version T E f sid ?line ?x harvest db1 = (res, db')"
        using judge by (auto simp: judge_version_def Let_def split: if_splits option.splits)
      then show ?thesis
      proof cases
        case 1
        with c1 show ?thesis by (intro kept) simp
      next
        case (2 r)
        with contracts_refuse[of E f r db1] c1 show ?thesis by (intro kept) simp
      next
        case 3
        then consider "contracts db' = contracts db1"
          | ops vid db2 where "?plan = Inr ops" "\<not> pf_dry_run f"
              "upsert_spec_version (upsert_of T E f sid ?line ?x db1) db1 = Inr (vid, db2)"
              "db' = after_write E f sid vid (is_promotion f ?x) ops (fst harvest) db2"
          by (auto simp: accept_version_def write_version_def split: sum.splits if_splits prod.splits)
        then show ?thesis
        proof cases
          case 1
          with c1 show ?thesis by (intro kept) simp
        next
          case (2 ops vid db2)
          have "contracts db2 = contracts db" using contracts_upsert[OF 2(3)] c1 by simp
          then have "contracts db' = contracts (apply_contract_ops ops db)"
            by (simp add: 2(4) after_write_def Let_def contracts_ops_cong[of db2 db] split: option.split)
          moreover have "apply_contract_ops [] db = db" by (simp add: apply_contract_ops_def)
          moreover have "set (services db1) \<subseteq> set (services db')"
            using quiet_after_write[of db2 E f sid vid "is_promotion f ?x" ops "fst harvest"] services_upsert[OF 2(3)]
            by (simp add: 2(4) quiet_def)
          ultimately show ?thesis using 2(1,2) ok reg by (cases "pf_api_type f = AsyncApi \<and> pf_stability f = Ga") (auto intro: kept claimed)
        qed
      qed
    qed
  qed
qed

section \<open>What a plan does to the contracts\<close>

fun op_key :: "contract_op \<Rightarrow> string \<times> string" where
  "op_key (UpsertContract c) = contract_key c"
| "op_key (DeleteContract ch m) = (ch, m)"

lemma contract_eqI: "contract_key x = contract_key c \<Longrightarrow>
  x\<lparr>c_owner_service_id := c_owner_service_id c, c_payload_yaml := c_payload_yaml c\<rparr> = c"
  by (cases x; cases c) (simp add: contract_key_def)

lemma contracts_op:
  "contracts (upsert_channel_message_contract c d) =
     (if contract_key c \<in> contract_key ` set (contracts d)
      then map (\<lambda>x. if contract_key x = contract_key c then c else x) (contracts d) else contracts d @ [c])"
  "contracts (delete_channel_message_contract ch m d) = filter (\<lambda>x. contract_key x \<noteq> (ch, m)) (contracts d)"
  by (auto simp: upsert_channel_message_contract_def delete_channel_message_contract_def exists_row_iff update_where_def
      delete_where_def contract_eqI intro: rev_image_eqI)

lemma op_other: "op_key op \<noteq> contract_key c \<Longrightarrow> c \<in> set (contracts (apply_contract_op op d)) \<longleftrightarrow> c \<in> set (contracts d)"
  by (cases op) (auto simp: contracts_op split: if_splits)

lemma op_distinct: "distinct (map contract_key (contracts d)) \<Longrightarrow> distinct (map contract_key (contracts (apply_contract_op op d)))"
proof (cases op)
  case (UpsertContract c)
  have "map contract_key (map (\<lambda>x. if contract_key x = contract_key c then c else x) xs) = map contract_key xs" for xs
    by simp
  then show "distinct (map contract_key (contracts d)) \<Longrightarrow> ?thesis"
    by (auto simp: UpsertContract contracts_op simp del: map_map)
qed (simp add: contracts_op distinct_map_filter_mono)

lemma ops_Cons: "apply_contract_ops (op # ops) d = apply_contract_ops ops (apply_contract_op op d)"
  by (simp add: apply_contract_ops_def)

lemma ops_other:
  "\<forall>op \<in> set ops. op_key op \<noteq> contract_key c \<Longrightarrow> c \<in> set (contracts (apply_contract_ops ops d)) \<longleftrightarrow> c \<in> set (contracts d)"
  by (induction ops arbitrary: d) (auto simp: ops_Cons op_other apply_contract_ops_def)

lemma ops_distinct: "distinct (map contract_key (contracts d)) \<Longrightarrow> distinct (map contract_key (contracts (apply_contract_ops ops d)))"
  by (induction ops arbitrary: d) (auto simp: ops_Cons op_distinct apply_contract_ops_def)

text \<open>A contract after the plan was there before or was upserted by it.\<close>

lemma ops_origin:
  "c \<in> set (contracts (apply_contract_ops ops d)) \<Longrightarrow> c \<in> set (contracts d) \<or> UpsertContract c \<in> set ops"
proof (induction ops arbitrary: d)
  case (Cons op ops)
  from Cons.prems have "c \<in> set (contracts (apply_contract_op op d)) \<or> UpsertContract c \<in> set ops"
    by (auto simp: ops_Cons dest: Cons.IH)
  then show ?case by (cases op) (auto simp: contracts_op split: if_splits)
qed (simp add: apply_contract_ops_def)

lemma plan_messages_ops:
  assumes "plan_messages T db sid msgs = Inr ops" and "op \<in> set ops"
  shows "\<exists>msg \<in> set msgs. op = UpsertContract (new_contract msg sid) \<and>
    (\<forall>c. get_channel_message_contract db (m_channel msg) (m_message_name msg) = Some c \<longrightarrow>
      c_owner_service_id c = sid \<or> get_service_name_by_id db (c_owner_service_id c) = None)"
  using assms
proof (induction msgs arbitrary: ops)
  case (Cons msg msgs)
  from Cons.prems(1) obtain here rest where split: "plan_message T db sid msg = Inr here" "plan_messages T db sid msgs = Inr rest"
    "ops = here @ rest" by (auto simp: and_then_Inr_iff)
  show ?case
  proof (cases "op \<in> set here")
    case True
    with split(1) show ?thesis by (auto simp: plan_message_def split: option.splits if_splits sum.splits)
  next
    case False
    with Cons.IH[OF split(2)] split(3) Cons.prems(2) show ?thesis by auto
  qed
qed simp

lemma plan_ops:
  assumes "plan_channel_message_contracts T db sid content = Inr ops" and "op \<in> set ops"
  obtains (upsert) msg where "op = UpsertContract (new_contract msg sid)"
      "\<And>c. get_channel_message_contract db (m_channel msg) (m_message_name msg) = Some c \<Longrightarrow>
        c_owner_service_id c = sid \<or> get_service_name_by_id db (c_owner_service_id c) = None"
  | (delete) c where "c \<in> set (contracts db)" "c_owner_service_id c = sid" "op = DeleteContract (c_channel c) (c_message_name c)"
proof -
  from assms(1) obtain msgs mops where "plan_messages T db sid msgs = Inr mops"
    and ops: "ops = mops @ map (\<lambda>c. DeleteContract (c_channel c) (c_message_name c))
      (filter (\<lambda>c. c_owner_service_id c = sid \<and> (c_channel c, c_message_name c) \<notin> (\<lambda>m. (m_channel m, m_message_name m)) ` set msgs)
        (list_channel_message_contracts db))"
    by (auto simp: plan_channel_message_contracts_def and_then_Inr_iff map_err_Inr_iff)
  show ?thesis
  proof (cases "op \<in> set mops")
    case True
    from plan_messages_ops[OF \<open>plan_messages T db sid msgs = Inr mops\<close> this] show ?thesis by (auto intro: upsert)
  next
    case False
    with assms(2) ops obtain c where "c \<in> set (contracts db)" "c_owner_service_id c = sid" "op = DeleteContract (c_channel c) (c_message_name c)"
      by (auto simp: list_channel_message_contracts_def)
    then show ?thesis by (rule delete)
  qed
qed

section \<open>One owner per message\<close>

lemma contract_found:
  assumes "distinct (map contract_key (contracts db))" and "c \<in> set (contracts db)"
  shows "get_channel_message_contract db (c_channel c) (c_message_name c) = Some c"
  using assms find_unique[of contract_key "contracts db" c]
  by (simp add: get_channel_message_contract_def contract_key_def)

lemma register_services:
  assumes "register_producer f db = (sid, db1)"
  obtains new where "services db1 = services db @ new"
  using assms
  by (auto simp: register_producer_def ensure_service_def add_service_tags_def split: if_splits prod.splits option.splits api_type.splits)

lemma name_of_registered:
  assumes "catalog_inv db" and "find_service db nm = Some sid"
  shows "get_service_name_by_id db sid = Some nm"
  using assms find_unique[of fst "services db" "(sid, nm)"]
  by (auto simp: get_service_name_by_id_def catalog_inv_def find_service_Some ids_ok_def)

lemma foreign_contract_kept:
  assumes inv: "catalog_inv db" and ok: "contracts_ok db" and run: "provide_document T E f caller db = (res, db')"
    and c: "c \<in> set (contracts db)" "get_service_name_by_id db (c_owner_service_id c) \<noteq> Some (pf_producer f)"
  shows "c \<in> set (contracts db')"
  using run
proof (cases rule: document_contracts)
  case kept
  with c show ?thesis by simp
next
  case (claimed sid db1 ops)
  have c1: "contracts db1 = contracts db" using claimed(1) contracts_frame(8)[of f db] by simp
  obtain new where new: "services db1 = services db @ new" using claimed(1) by (rule register_services)
  have "c_owner_service_id c \<in> fst ` set (services db)" using ok c(1) by (simp add: contracts_ok_def)
  then obtain s where s: "find (\<lambda>s. fst s = c_owner_service_id c) (services db) = Some s"
    by (cases "find (\<lambda>s. fst s = c_owner_service_id c) (services db)") (auto simp: find_None_not)
  then have alive: "get_service_name_by_id db1 (c_owner_service_id c) = get_service_name_by_id db (c_owner_service_id c)"
      "get_service_name_by_id db (c_owner_service_id c) \<noteq> None"
    by (simp_all add: get_service_name_by_id_def new find_append)
  have inv1: "catalog_inv db1" using quiet_inv[OF quiet_register inv] claimed(1) by (metis snd_conv)
  have "get_service_name_by_id db1 sid = Some (pf_producer f)"
    using inv1 registered(1)[OF claimed(1,4) inv] by (rule name_of_registered)
  then have other: "c_owner_service_id c \<noteq> sid" using c(2) alive by auto
  have keys: "distinct (map contract_key (contracts db1))" using ok c1 by (simp add: contracts_ok_def)
  have "op_key op \<noteq> contract_key c" if "op \<in> set ops" for op
    using claimed(5) that
  proof (cases rule: plan_ops)
    case (upsert msg)
    show ?thesis
    proof
      assume "op_key op = contract_key c"
      then have "m_channel msg = c_channel c" "m_message_name msg = c_message_name c"
        by (simp_all add: upsert(1) new_contract_def contract_key_def)
      with upsert(2)[of c] contract_found[OF keys, of c] c(1) c1 other alive show False by auto
    qed
  next
    case (delete c')
    with other keys c(1) c1 show ?thesis by (auto simp: distinct_map inj_on_def contract_key_def)
  qed
  with claimed(6) c(1) show ?thesis by (simp add: ops_other)
qed

lemma new_contract_owner:
  assumes inv: "catalog_inv db" and run: "provide_document T E f caller db = (res, db')"
    and c: "c \<in> set (contracts db')" "c \<notin> set (contracts db)"
  shows "find_service db' (pf_producer f) = Some (c_owner_service_id c) \<and> pf_stability f = Ga \<and> may_release caller"
  using run
proof (cases rule: document_contracts)
  case kept
  with c show ?thesis by simp
next
  case (claimed sid db1 ops)
  with c have "UpsertContract c \<in> set ops" using ops_origin by auto
  with claimed(5) have "c_owner_service_id c = sid"
    by (cases rule: plan_ops) (auto simp: new_contract_def)
  moreover have "find_service db' (pf_producer f) = Some sid"
  proof -
    have "catalog_inv db1" using quiet_inv[OF quiet_register inv] claimed(1) by (metis snd_conv)
    with registered(1)[OF claimed(1,4) inv] claimed(7) document_inv[OF run inv] show ?thesis
      by (auto simp: catalog_inv_def find_service_Some)
  qed
  ultimately show ?thesis using claimed(2,3) by simp
qed

lemma quiet_services: "quiet db db' \<Longrightarrow> set (services db) \<subseteq> set (services db')"
  by (simp add: quiet_def)

lemma contracts_ok_document:
  assumes inv: "catalog_inv db" and ok: "contracts_ok db" and run: "provide_document T E f caller db = (res, db')"
  shows "contracts_ok db'"
proof -
  have "distinct (map contract_key (contracts db'))"
    using run by (cases rule: document_contracts) (use ok ops_distinct in \<open>auto simp: contracts_ok_def\<close>)
  moreover have "c_owner_service_id c \<in> fst ` set (services db')" if c: "c \<in> set (contracts db')" for c
  proof (cases "c \<in> set (contracts db)")
    case True
    then have "c_owner_service_id c \<in> fst ` set (services db)" using ok by (simp add: contracts_ok_def)
    moreover have "set (services db) \<subseteq> set (services db')"
      using run
    proof (cases rule: document_cases)
      case (written sid db1 vid db2)
      with quiet_services[OF written(2)] quiet_services[OF written(6)] services_upsert[OF written(5)] show ?thesis
        by simp
    qed (simp add: quiet_services)
    ultimately show ?thesis by blast
  next
    case False
    with new_contract_owner[OF inv run c] document_inv[OF run inv] show ?thesis
      by (force simp: catalog_inv_def find_service_Some)
  qed
  ultimately show ?thesis by (simp add: contracts_ok_def)
qed

text \<open>
  C23: A channel message has one owner and only its owner changes it. Every
  Provide keeps at most one contract per channel and message, owned by a
  registered Producer; a contract of another Producer survives unchanged; and
  a contract that is new or different belongs to the Producer whose release,
  by a caller who may release, claimed it.
\<close>

theorem contracts_have_one_owner:
  assumes "catalog_inv db" and "contracts_ok db" and "provide_spec_with_origin T E p origin db = (res, db')"
  shows "contracts_ok db' \<and>
    (\<forall>c \<in> set (contracts db). get_service_name_by_id db (c_owner_service_id c) \<noteq> Some (pv_producer p) \<longrightarrow> c \<in> set (contracts db')) \<and>
    (\<forall>c \<in> set (contracts db') - set (contracts db). find_service db' (pv_producer p) = Some (c_owner_service_id c) \<and>
       pv_stability p = Ga \<and> may_release (pv_caller p))"
  using assms(3)
proof (cases rule: with_origin_cases)
  case (document f o')
  note run = document(2) and f = read_provide_Inr[OF document(1)]
  show ?thesis
    using contracts_ok_document[OF assms(1,2) run] foreign_contract_kept[OF assms(1,2) run] new_contract_owner[OF assms(1) run] f
    by auto
qed (use assms(2) in simp)

definition sample_publish :: "string \<Rightarrow> string \<Rightarrow> provide_params" where
  "sample_publish producer content = (sample_provide Ga content ''ann'')\<lparr>pv_producer := producer, pv_api_type := AsyncApi\<rparr>"

theorem contracts_have_one_owner_witness:
  "\<exists>c. contracts (snd (sample_run (sample_publish ''api'' ''1.0.0 /a'') empty_db)) = [c] \<and>
     c \<in> set (contracts (snd (sample_run (sample_publish ''other'' ''2.0.0 /b'')
       (snd (sample_run (sample_publish ''api'' ''1.0.0 /a'') empty_db)))))"
proof -
  let ?db = "snd (sample_run (sample_publish ''api'' ''1.0.0 /a'') empty_db)" and ?q = "sample_publish ''other'' ''2.0.0 /b''"
  have "catalog_inv ?db" "map (get_service_name_by_id ?db \<circ> c_owner_service_id) (contracts ?db) = [Some ''api'']"
    "distinct (map contract_key (contracts ?db)) \<and> list_all (\<lambda>c. c_owner_service_id c \<in> fst ` set (services ?db)) (contracts ?db)"
    "pv_producer ?q = ''other''" by code_simp+
  then obtain c where "contracts ?db = [c]" "get_service_name_by_id ?db (c_owner_service_id c) = Some ''api''"
    and ok: "catalog_inv ?db" "contracts_ok ?db" and "pv_producer ?q = ''other''"
    by (auto simp: contracts_ok_def list_all_iff)
  with contracts_have_one_owner[OF ok surjective_pairing, of sample_spec quiet_env ?q empty_origin]
  show ?thesis by (auto simp: sample_run_def)
qed

end
