(* ===== verification/Report.thy ===== *)
theory Report
  imports Admin
begin

text \<open>
  Reports: the dependency report of the repository
  (\<open>get_report\<close>, \<open>list_member_versions\<close>, \<open>get_all_service_tags\<close> and
  \<open>list_system_contexts\<close> of \<open>sqlite_repository.rs\<close>) and
  \<open>src/src/application/report_service.rs\<close>: the graph a report describes, its
  producers and periphery, and the two Markdown renderings. A \<open>BTreeMap\<close> is the
  list of its entries, put in key order where the code iterates over it.
\<close>

section \<open>The report of the repository\<close>

record dependency_info =
  di_api_type :: api_type
  di_client :: string
  di_service :: string
  di_version :: semver
  di_stability :: stability
  di_path :: string
  di_method :: string
  di_deprecated :: bool

record missing_endpoint_info =
  mi_api_type :: api_type
  mi_client :: string
  mi_service :: string
  mi_version :: semver
  mi_path :: string
  mi_method :: string

record endpoint_info =
  ei_api_type :: api_type
  ei_service :: string
  ei_version :: semver
  ei_stability :: stability
  ei_path :: string
  ei_method :: string
  ei_deprecated :: bool

record dependency_report =
  dr_unused_endpoints :: "endpoint_info list"
  dr_missing_endpoints :: "missing_endpoint_info list"
  dr_dependency_graph :: "dependency_info list"
  dr_service_tags :: "(string \<times> string list) list"
  dr_trunk_graph :: "trunk_pin_info list"
  dr_harvested_subscriptions :: "harvested_subscription list"
  dr_peripheral_dependencies :: "(string \<times> string) list"
  dr_systems :: "(string \<times> system_context) list"
  dr_trunk_stale_before :: "stamp option"
  dr_scope_label :: "string option"

text \<open>A pinned endpoint with its joins; the version may not declare it any more.\<close>

definition pinned_endpoints :: "db \<Rightarrow> dependency_row \<Rightarrow> endpoint_row list" where
  "pinned_endpoints db d =
     filter (\<lambda>e. e_spec_version_id e = dep_spec_version_id d \<and> e_api_type e = dep_api_type d \<and>
       e_normalized_path e = dep_normalized_path d \<and> e_method e = dep_method d) (endpoints db)"

definition dependency_rows :: "db \<Rightarrow> dependency_row \<Rightarrow> (dependency_info \<times> bool) list" where
  "dependency_rows db d =
     (case (get_client_name db (dep_client_id d), find_version_by_id db (dep_spec_version_id d)) of
        (Some client, Some v) \<Rightarrow>
          (case get_service_name_by_id db (v_service_id v) of
             None \<Rightarrow> []
           | Some service \<Rightarrow>
               (let info = (\<lambda>dpr. \<lparr>di_api_type = dep_api_type d, di_client = client, di_service = service,
                      di_version = v_version v, di_stability = v_stability v, di_path = dep_path d,
                      di_method = dep_method d, di_deprecated = dpr\<rparr>)
                in case pinned_endpoints db d of
                     [] \<Rightarrow> [(info False, False)]
                   | hits \<Rightarrow> map (\<lambda>e. (info (e_deprecated e), True)) hits))
      | _ \<Rightarrow> [])"

definition missing_of :: "dependency_info \<Rightarrow> missing_endpoint_info" where
  "missing_of d = \<lparr>mi_api_type = di_api_type d, mi_client = di_client d, mi_service = di_service d,
     mi_version = di_version d, mi_path = di_path d, mi_method = di_method d\<rparr>"

definition is_pinned :: "db \<Rightarrow> endpoint_row \<Rightarrow> bool" where
  "is_pinned db e \<longleftrightarrow> exists_row (\<lambda>d. dep_spec_version_id d = e_spec_version_id e \<and> dep_api_type d = e_api_type e \<and>
     dep_normalized_path d = e_normalized_path e \<and> dep_method d = e_method e) (dependencies db)"

definition unused_row :: "db \<Rightarrow> endpoint_row \<Rightarrow> endpoint_info option" where
  "unused_row db e =
     (case find_version_by_id db (e_spec_version_id e) of
        None \<Rightarrow> None
      | Some v \<Rightarrow> if is_pinned db e then None
          else map_option (\<lambda>service. \<lparr>ei_api_type = e_api_type e, ei_service = service, ei_version = v_version v,
                 ei_stability = v_stability v, ei_path = e_path e, ei_method = e_method e, ei_deprecated = e_deprecated e\<rparr>)
               (get_service_name_by_id db (v_service_id v)))"

definition get_report :: "db \<Rightarrow> dependency_report" where
  "get_report db =
     (let rows = concat (map (dependency_rows db) (dependencies db)) in
      \<lparr>dr_unused_endpoints = List.map_filter (unused_row db) (endpoints db),
       dr_missing_endpoints = map (\<lambda>r. missing_of (fst r)) (filter (\<lambda>r. \<not> snd r) rows),
       dr_dependency_graph = map fst (filter snd rows),
       dr_service_tags = [], dr_trunk_graph = [], dr_harvested_subscriptions = [], dr_peripheral_dependencies = [],
       dr_systems = [], dr_trunk_stale_before = None, dr_scope_label = None\<rparr>)"

definition get_all_service_tags :: "db \<Rightarrow> (string \<times> string list) list" where
  "get_all_service_tags db =
     (let rows = sort (List.map_filter (\<lambda>(sid, tag). map_option (\<lambda>nm. (nm, tag)) (get_service_name_by_id db sid)) (service_tags db)) in
      map (\<lambda>nm. (nm, map snd (filter (\<lambda>r. fst r = nm) rows))) (remdups (map fst rows)))"

definition list_system_contexts :: "db \<Rightarrow> (string \<times> system_context) list" where
  "list_system_contexts db = sort_key fst (system_contexts db)"

datatype member_track = TrunkMembers | BranchMembers row_id

record member_version =
  me_service :: string
  me_api_type :: api_type
  me_version :: semver
  me_valid_from :: stamp
  me_last_provided_at :: "stamp option"

definition member_of_row :: "stamp option \<Rightarrow> 'a member_row_scheme \<Rightarrow> member_version" where
  "member_of_row provided r =
     \<lparr>me_service = mv_service_name r, me_api_type = mv_api_type r, me_version = mv_version r,
      me_valid_from = valid_from r, me_last_provided_at = provided\<rparr>"

definition valid_at :: "stamp option \<Rightarrow> 'a temporal_scheme \<Rightarrow> bool" where
  "valid_at at r = (case at of Some t \<Rightarrow> alive_at t r | None \<Rightarrow> is_open r)"

definition list_member_versions :: "db \<Rightarrow> member_track \<Rightarrow> stamp option \<Rightarrow> member_version list" where
  "list_member_versions db track at =
     sort_key (\<lambda>m. (me_service m, api_type_as_str (me_api_type m)))
       (case track of
          TrunkMembers \<Rightarrow> map (\<lambda>r. member_of_row (Some (mv_last_provided_at r)) r) (filter (valid_at at) (trunk_members db))
        | BranchMembers bid \<Rightarrow> map (member_of_row None) (filter (\<lambda>r. mv_branch_id r = bid \<and> valid_at at r) (branch_members db)))"

section \<open>Scopes\<close>

datatype report_scope = DevScope | MainScope "stamp option" | BranchScope string "stamp option"

definition scope_parse :: "(string \<Rightarrow> stamp option) \<Rightarrow> string option \<Rightarrow> app_error + report_scope" where
  "scope_parse rfc raw =
     (case raw of
        None \<Rightarrow> Inr DevScope
      | Some s \<Rightarrow> and_then (split_selector rfc s) (\<lambda>(nm, at).
          if nm = ''dev'' then
            (case at of None \<Rightarrow> Inr DevScope
             | Some _ \<Rightarrow> Inl (BadRequest (Text ''the dev scope is accumulated activity and has no timeline'' [])))
          else if nm = ''main'' then Inr (MainScope at) else Inr (BranchScope nm at)))"

definition scope_branch :: "db \<Rightarrow> string \<Rightarrow> app_error + branch_info" where
  "scope_branch db nm =
     (case find_branch db nm of None \<Rightarrow> Inl (NotFound (Text ''no sanshain-branch'' [S nm])) | Some b \<Rightarrow> Inr b)"

definition without_known_components :: "db \<Rightarrow> (string \<times> string) list \<Rightarrow> (string \<times> string) list" where
  "without_known_components db ps =
     (if \<not> list_ex (\<lambda>p. starts_with ''component:'' (snd p)) ps then ps
      else let known = map (\<lambda>s. to_lowercase (su_name s)) (repo_list_producers_detailed db) @ map to_lowercase (list_consumers db)
           in filter (\<lambda>p. case component_ref_name (snd p) of None \<Rightarrow> True | Some nm \<Rightarrow> nm \<notin> set known) ps)"

definition get_periphery :: "db \<Rightarrow> report_scope \<Rightarrow> app_error + (string \<times> string) list" where
  "get_periphery db scope =
     and_then (case scope of
         DevScope \<Rightarrow> Inr (DevTrack, None)
       | MainScope at \<Rightarrow> Inr (TrunkTrack, at)
       | BranchScope nm at \<Rightarrow> and_then (scope_branch db nm) (\<lambda>b. Inr (BranchTrack (b_id b), at)))
     (\<lambda>(track, at). Inr (without_known_components db (list_periphery db track at)))"

definition scope_harvested_subscriptions :: "report_scope \<Rightarrow> harvested_subscription list \<Rightarrow> harvested_subscription list" where
  "scope_harvested_subscriptions scope subs =
     (case scope of DevScope \<Rightarrow> subs | MainScope None \<Rightarrow> filter hs_trunk subs | _ \<Rightarrow> [])"

section \<open>The producers of a scope\<close>

record scoped_line =
  sl_service :: string
  sl_api_type :: api_type
  sl_version :: semver
  sl_recorded_provide :: "stamp option"

definition last_provided_at_instant :: "stamp option \<Rightarrow> stamp option \<Rightarrow> stamp option \<Rightarrow> stamp option" where
  "last_provided_at_instant updated recorded at =
     (let known = filter (\<lambda>t. case at of None \<Rightarrow> True | Some i \<Rightarrow> t \<le> i)
            ((case recorded of None \<Rightarrow> [] | Some t \<Rightarrow> [t]) @ (case updated of None \<Rightarrow> [] | Some t \<Rightarrow> [t]))
      in if known = [] then None else Some (Max (set known)))"

type_synonym line_key = "string \<times> string"

definition line_key :: "scoped_line \<Rightarrow> line_key" where
  "line_key l = (sl_service l, api_type_as_str (sl_api_type l))"

text \<open>\<open>BTreeMap::insert\<close> on the list of entries.\<close>

definition put_line :: "scoped_line \<Rightarrow> (line_key \<times> scoped_line) list \<Rightarrow> (line_key \<times> scoped_line) list" where
  "put_line l xs = (line_key l, l) # filter (\<lambda>x. fst x \<noteq> line_key l) xs"

definition keep_highest :: "(line_key \<times> scoped_line) list \<Rightarrow> scoped_line \<Rightarrow> (line_key \<times> scoped_line) list" where
  "keep_highest xs l =
     (case map_of xs (line_key l) of
        Some old \<Rightarrow> if sl_version old \<ge> sl_version l then xs else put_line l xs
      | None \<Rightarrow> put_line l xs)"

definition in_key_order :: "(line_key \<times> scoped_line) list \<Rightarrow> scoped_line list" where
  "in_key_order xs = map snd (sort_key fst xs)"

definition member_provide :: "stamp option \<Rightarrow> member_version \<Rightarrow> stamp" where
  "member_provide at m =
     (case (me_last_provided_at m, at) of
        (Some prov, Some i) \<Rightarrow> if prov > i then me_valid_from m else prov
      | (Some prov, None) \<Rightarrow> prov
      | (None, _) \<Rightarrow> me_valid_from m)"

text \<open>The lines of each scope, and its instant.\<close>

definition dev_lines :: "db \<Rightarrow> (line_key \<times> scoped_line) list" where
  "dev_lines db =
     foldl keep_highest [] (map (\<lambda>(nm, v, _). \<lparr>sl_service = nm, sl_api_type = v_api_type v, sl_version = v_version v,
       sl_recorded_provide = None\<rparr>) (list_all_spec_versions db))"

definition main_lines :: "db \<Rightarrow> stamp option \<Rightarrow> (line_key \<times> scoped_line) list" where
  "main_lines db at =
     foldl keep_highest [] (map (\<lambda>m. \<lparr>sl_service = me_service m, sl_api_type = me_api_type m, sl_version = me_version m,
       sl_recorded_provide = Some (member_provide at m)\<rparr>) (list_member_versions db TrunkMembers at))"

definition branch_lines :: "db \<Rightarrow> row_id \<Rightarrow> stamp option \<Rightarrow> (line_key \<times> scoped_line) list" where
  "branch_lines db bid at =
     foldl (\<lambda>xs m. put_line \<lparr>sl_service = me_service m, sl_api_type = me_api_type m, sl_version = me_version m,
             sl_recorded_provide = Some (me_valid_from m)\<rparr> xs)
       (foldl keep_highest [] (map (\<lambda>p. \<lparr>sl_service = p_service p, sl_api_type = p_api_type p, sl_version = p_version p,
             sl_recorded_provide = None\<rparr>) (list_branch_pins db bid at)))
       (list_member_versions db (BranchMembers bid) at)"

definition scope_lines :: "db \<Rightarrow> report_scope \<Rightarrow> app_error + (line_key \<times> scoped_line) list \<times> stamp option" where
  "scope_lines db scope =
     (case scope of
        DevScope \<Rightarrow> Inr (dev_lines db, None)
      | MainScope at \<Rightarrow> Inr (main_lines db at, at)
      | BranchScope nm at \<Rightarrow> and_then (scope_branch db nm) (\<lambda>b. Inr (branch_lines db (b_id b) at, at)))"

record scope_version_line =
  sv_api_type :: api_type
  sv_version :: semver
  sv_stability :: "stability option"
  sv_last_provided_at :: "stamp option"
  sv_channels :: "(string \<times> string) list"

record scope_producer =
  sp_name :: string
  sp_versions :: "scope_version_line list"

record graph_scope_data =
  gs_producers :: "scope_producer list"
  gs_harvested_subscriptions :: "harvested_subscription list"
  gs_systems :: "(string \<times> system_context) list"

text \<open>The stored entry of a line; the last of several equal keys stays in the map.\<close>

definition line_entry :: "db \<Rightarrow> scoped_line \<Rightarrow> spec_version_meta option" where
  "line_entry db l =
     map_option (\<lambda>(_, v, _). v) (find (\<lambda>(nm, v, _). nm = sl_service l \<and> v_api_type v = sl_api_type l \<and> v_version v = sl_version l)
       (rev (list_all_spec_versions db)))"

definition line_channels :: "db \<Rightarrow> scoped_line \<Rightarrow> (string \<times> string) list" where
  "line_channels db l =
     (case line_entry db l of
        Some meta \<Rightarrow> if sl_api_type l = AsyncApi
          then remdups_adj (sort (map (\<lambda>e. (e_path e, e_method e)) (get_endpoints_for_version db (v_id meta)))) else []
      | None \<Rightarrow> [])"

definition version_line_of :: "db \<Rightarrow> stamp option \<Rightarrow> scoped_line \<Rightarrow> scope_version_line" where
  "version_line_of db at l =
     \<lparr>sv_api_type = sl_api_type l, sv_version = sl_version l, sv_stability = map_option v_stability (line_entry db l),
      sv_last_provided_at = last_provided_at_instant (map_option v_updated_at (line_entry db l)) (sl_recorded_provide l) at,
      sv_channels = line_channels db l\<rparr>"

definition push_line :: "db \<Rightarrow> stamp option \<Rightarrow> scope_producer list \<Rightarrow> scoped_line \<Rightarrow> scope_producer list" where
  "push_line db at ps l =
     (if ps \<noteq> [] \<and> sp_name (last ps) = sl_service l
      then butlast ps @ [(last ps)\<lparr>sp_versions := sp_versions (last ps) @ [version_line_of db at l]\<rparr>]
      else ps @ [\<lparr>sp_name = sl_service l, sp_versions = [version_line_of db at l]\<rparr>])"

definition get_graph_scope :: "db \<Rightarrow> report_scope \<Rightarrow> app_error + graph_scope_data" where
  "get_graph_scope db scope =
     and_then (scope_lines db scope) (\<lambda>(lines, at).
     Inr \<lparr>gs_producers = foldl (push_line db at) [] (in_key_order lines),
          gs_harvested_subscriptions = scope_harvested_subscriptions scope (list_current_harvested_subscriptions db),
          gs_systems = list_system_contexts db\<rparr>)"

section \<open>The report of a scope\<close>

text \<open>The loop over the pins with its two memo tables.\<close>

fun pin_graph_loop ::
    "db \<Rightarrow> (string \<rightharpoonup> row_id option) \<Rightarrow> (row_id \<times> api_type \<times> semver \<rightharpoonup> stability) \<Rightarrow> trunk_pin_info list \<Rightarrow> dependency_info list" where
  "pin_graph_loop db ids stabs [] = []"
| "pin_graph_loop db ids stabs (pin # pins) =
     (let (sid, ids1) = (case ids (p_service pin) of
            Some cached \<Rightarrow> (cached, ids)
          | None \<Rightarrow> (find_service db (p_service pin), ids(p_service pin \<mapsto> find_service db (p_service pin))));
          (stab, stabs1) = (case sid of
            None \<Rightarrow> (Ga, stabs)
          | Some i \<Rightarrow> (case stabs (i, p_api_type pin, p_version pin) of
                Some cached \<Rightarrow> (cached, stabs)
              | None \<Rightarrow> (let found = (case find_spec_version db i (p_api_type pin) (p_version pin) of
                            Some v \<Rightarrow> v_stability v | None \<Rightarrow> Ga)
                         in (found, stabs((i, p_api_type pin, p_version pin) \<mapsto> found)))))
      in \<lparr>di_api_type = p_api_type pin, di_client = p_client pin, di_service = p_service pin, di_version = p_version pin,
          di_stability = stab, di_path = p_path pin, di_method = p_method pin, di_deprecated = False\<rparr>
         # pin_graph_loop db ids1 stabs1 pins)"

definition pins_as_dependency_graph :: "db \<Rightarrow> trunk_pin_info list \<Rightarrow> dependency_info list" where
  "pins_as_dependency_graph db pins = pin_graph_loop db Map.empty Map.empty pins"

definition hours_span :: "int \<Rightarrow> int" where
  "hours_span count = (if count * 3600 \<le> time_delta_max then count * 3600 else time_delta_max)"

definition generate_report :: "admin_time \<Rightarrow> int \<Rightarrow> db \<Rightarrow> dependency_report" where
  "generate_report C now db =
     (let ttl = get_trunk_max_age_days db in
      (get_report db)\<lparr>dr_service_tags := get_all_service_tags db,
        dr_trunk_graph := mark_dangling db (list_current_trunk_pins db),
        dr_harvested_subscriptions := list_current_harvested_subscriptions db,
        dr_peripheral_dependencies := without_known_components db (list_periphery db DevTrack None),
        dr_systems := list_system_contexts db,
        dr_trunk_stale_before := (if ttl > 0
          then Some (iso C (before (time_tools.truncate C) now (hours_span (int ttl * 12)))) else None)\<rparr>)"

definition instant_label :: "string \<Rightarrow> stamp option \<Rightarrow> string" where
  "instant_label nm at = (case at of Some t \<Rightarrow> nm @ ''@'' @ t | None \<Rightarrow> nm)"

definition scope_pins :: "db \<Rightarrow> report_scope \<Rightarrow> app_error + trunk_pin_info list \<times> string option" where
  "scope_pins db scope =
     (case scope of
        DevScope \<Rightarrow> Inr ([], None)
      | MainScope at \<Rightarrow> Inr (trunk_pins_at db at, Some (instant_label ''main'' at))
      | BranchScope nm at \<Rightarrow> and_then (scope_branch db nm) (\<lambda>b. Inr (list_branch_pins db (b_id b) at, Some (instant_label nm at))))"

definition generate_scoped_report :: "admin_time \<Rightarrow> int \<Rightarrow> report_scope \<Rightarrow> db \<Rightarrow> app_error + dependency_report" where
  "generate_scoped_report C now scope db =
     (if scope = DevScope then Inr (generate_report C now db)
      else and_then (get_periphery db scope) (\<lambda>edges.
           and_then (scope_pins db scope) (\<lambda>(pins, label).
           Inr ((generate_report C now db)\<lparr>dr_trunk_graph := [], dr_trunk_stale_before := None,
             dr_harvested_subscriptions := scope_harvested_subscriptions scope (list_current_harvested_subscriptions db),
             dr_peripheral_dependencies := edges, dr_dependency_graph := pins_as_dependency_graph db pins,
             dr_missing_endpoints := [], dr_unused_endpoints := [], dr_scope_label := label\<rparr>))))"

section \<open>Markdown\<close>

definition newline :: string where "newline = [CHR 0x0A]"

fun api_type_debug :: "api_type \<Rightarrow> string" where
  "api_type_debug OpenApi = ''OpenApi''"
| "api_type_debug AsyncApi = ''AsyncApi''"
| "api_type_debug Proto = ''Proto''"

definition scope_line :: "dependency_report \<Rightarrow> string" where
  "scope_line r = (case dr_scope_label r of Some s \<Rightarrow> ''Scope: '' @ s @ newline @ newline | None \<Rightarrow> [])"

definition tick :: "string \<Rightarrow> string" where "tick s = [CHR 0x60] @ s @ [CHR 0x60]"

definition dependency_line :: "dependency_info \<Rightarrow> string" where
  "dependency_line d =
     ''| '' @ di_client d @ '' | '' @ di_service d @ '' | '' @ api_type_debug (di_api_type d) @ '' | '' @
     semver_to_string (di_version d) @ '' | '' @ stability_as_str (di_stability d) @ '' | '' @ tick (di_path d) @ '' | '' @
     tick (di_method d) @ '' |'' @ newline"

definition render_report_markdown :: "dependency_report \<Rightarrow> string" where
  "render_report_markdown r =
     ''# Sanshain Dependency Report'' @ newline @ newline @ scope_line r @
     ''| Consumer | Producer | Type | Version | Stability | Path | Method |'' @ newline @
     ''| --- | --- | --- | --- | --- | --- | --- |'' @ newline @
     concat (map dependency_line (dr_dependency_graph r))"

text \<open>Who talks to whom: a \<open>BTreeMap\<close> of \<open>BTreeSet\<close>s, here the sorted set of its triples.\<close>

definition connections_of :: "dependency_info \<Rightarrow> (string \<times> string \<times> string) list" where
  "connections_of d =
     (case di_api_type d of
        AsyncApi \<Rightarrow> [(di_client d, ''KAFKA'', ''https''), (di_service d, ''KAFKA'', ''https'')]
      | _ \<Rightarrow> [(di_client d, di_service d, ''https'')])"

definition connections :: "dependency_report \<Rightarrow> (string \<times> string \<times> string) list" where
  "connections r = sort (remdups (concat (map connections_of (dr_dependency_graph r))))"

definition isolation_section :: "(string \<times> string \<times> string) list \<Rightarrow> string \<Rightarrow> string" where
  "isolation_section cs service =
     ''## Service: '' @ service @ newline @ newline @ ''| Target | Protocol | Port |'' @ newline @ ''| --- | --- | --- |'' @ newline @
     concat (map (\<lambda>(_, target, protocol). ''| '' @ target @ '' | '' @ protocol @ '' | |'' @ newline)
       (filter (\<lambda>c. fst c = service) cs)) @ newline"

definition render_isolation_report :: "dependency_report \<Rightarrow> string" where
  "render_isolation_report r =
     ''# Service Isolation Report'' @ newline @ newline @ scope_line r @
     (if dr_dependency_graph r = [] then ''No dependencies found.'' @ newline
      else let cs = connections r in concat (map (isolation_section cs) (remdups_adj (map fst cs))))"

section \<open>The newest of each line\<close>

lemma map_of_put_line: "map_of (put_line l xs) = (map_of xs)(line_key l \<mapsto> l)"
proof
  fix k
  have "map_of (filter (\<lambda>x. fst x \<noteq> line_key l) xs) k = map_of xs k" if "k \<noteq> line_key l"
    using that by (induction xs) auto
  then show "map_of (put_line l xs) k = ((map_of xs)(line_key l \<mapsto> l)) k" by (simp add: put_line_def)
qed

definition lines_ok :: "(line_key \<times> scoped_line) list \<Rightarrow> bool" where
  "lines_ok xs \<longleftrightarrow> distinct (map fst xs) \<and> (\<forall>(k, l) \<in> set xs. k = line_key l)"

lemma lines_ok_put: "lines_ok xs \<Longrightarrow> lines_ok (put_line l xs)"
  by (auto simp: lines_ok_def put_line_def distinct_map_filter_mono)

lemma lines_ok_keep: "lines_ok xs \<Longrightarrow> lines_ok (keep_highest xs l)"
  by (auto simp: keep_highest_def lines_ok_put split: option.split)

lemma lines_ok_folds:
  "lines_ok xs \<Longrightarrow> lines_ok (foldl keep_highest xs ls)" "lines_ok xs \<Longrightarrow> lines_ok (foldl (\<lambda>xs m. put_line (f m) xs) xs ms)"
proof -
  show "lines_ok xs \<Longrightarrow> lines_ok (foldl keep_highest xs ls)" by (induction ls arbitrary: xs) (auto intro: lines_ok_keep)
  show "lines_ok xs \<Longrightarrow> lines_ok (foldl (\<lambda>xs m. put_line (f m) xs) xs ms)" by (induction ms arbitrary: xs) (auto intro: lines_ok_put)
qed

text \<open>What the map holds for a key is an offered line of that key that no other one beats.\<close>

definition best_of :: "scoped_line list \<Rightarrow> line_key \<Rightarrow> scoped_line option \<Rightarrow> bool" where
  "best_of ls k r \<longleftrightarrow>
     (case r of
        None \<Rightarrow> \<forall>l \<in> set ls. line_key l \<noteq> k
      | Some b \<Rightarrow> b \<in> set ls \<and> line_key b = k \<and> (\<forall>l \<in> set ls. line_key l = k \<longrightarrow> sl_version l \<le> sl_version b))"

lemma best_of_keep:
  assumes "best_of ls k (map_of xs k)"
  shows "best_of (ls @ [l]) k (map_of (keep_highest xs l) k)"
  using assms
  by (cases "map_of xs (line_key l)"; cases "line_key l = k")
    (auto simp: best_of_def keep_highest_def map_of_put_line split: option.splits)

lemma best_of_fold:
  "(\<And>k. best_of seen k (map_of xs k)) \<Longrightarrow> best_of (seen @ ls) k (map_of (foldl keep_highest xs ls) k)"
proof (induction ls arbitrary: seen xs)
  case (Cons l ls)
  have "best_of ((seen @ [l]) @ ls) k (map_of (foldl keep_highest (keep_highest xs l) ls) k)"
    by (rule Cons.IH) (rule best_of_keep, rule Cons.prems)
  then show ?case by simp
qed simp

lemma keep_highest_best: "best_of ls k (map_of (foldl keep_highest [] ls) k)"
  using best_of_fold[of "[]" "[]" ls k] by (simp add: best_of_def)

section \<open>Grouping the lines by producer\<close>

definition flat :: "scope_producer list \<Rightarrow> (string \<times> scope_version_line) list" where
  "flat ps = concat (map (\<lambda>p. map (Pair (sp_name p)) (sp_versions p)) ps)"

lemma flat_simps [simp]: "flat [] = []" "flat (ps @ qs) = flat ps @ flat qs" "flat [p] = map (Pair (sp_name p)) (sp_versions p)"
  by (simp_all add: flat_def)

lemma flat_push: "flat (push_line db at ps l) = flat ps @ [(sl_service l, version_line_of db at l)]"
proof (cases "ps \<noteq> [] \<and> sp_name (last ps) = sl_service l")
  case True
  then have "flat ps = flat (butlast ps) @ flat [last ps]" by (metis append_butlast_last_id flat_simps(2))
  with True show ?thesis by (simp add: push_line_def)
qed (auto simp: push_line_def)

lemma flat_fold: "flat (foldl (push_line db at) ps ls) = flat ps @ map (\<lambda>l. (sl_service l, version_line_of db at l)) ls"
  by (induction ls arbitrary: ps) (simp_all add: flat_push)

lemma names_push:
  "map sp_name (push_line db at ps l) = (if ps \<noteq> [] \<and> sp_name (last ps) = sl_service l then map sp_name ps else map sp_name ps @ [sl_service l])"
proof (cases "ps \<noteq> [] \<and> sp_name (last ps) = sl_service l")
  case True
  then have "map sp_name ps = map sp_name (butlast ps) @ [sp_name (last ps)]" by (metis append_butlast_last_id list.simps(8,9) map_append)
  with True show ?thesis by (simp add: push_line_def)
qed (auto simp: push_line_def)

lemma names_fold:
  assumes "sorted_wrt (<) (map sp_name ps)" and "\<forall>p \<in> set ps. \<forall>l \<in> set ls. sp_name p \<le> sl_service l" and "sorted (map sl_service ls)"
  shows "sorted_wrt (<) (map sp_name (foldl (push_line db at) ps ls))"
  using assms
proof (induction ls arbitrary: ps)
  case (Cons l ls)
  have below: "sp_name p < sl_service l" if "p \<in> set ps" "\<not> (ps \<noteq> [] \<and> sp_name (last ps) = sl_service l)" for p
  proof -
    have "sp_name p \<le> sp_name (last ps)"
      using that Cons.prems(1) by (cases ps rule: rev_cases) (auto simp: sorted_wrt_append)
    moreover have "last ps \<in> set ps" using that(1) by (cases ps rule: rev_cases) auto
    moreover have "sp_name (last ps) \<noteq> sl_service l" using that by auto
    ultimately show ?thesis using Cons.prems(2) that by (fastforce intro: order.strict_trans1)
  qed
  have names: "set (map sp_name (push_line db at ps l)) \<subseteq> insert (sl_service l) (set (map sp_name ps))"
    unfolding names_push by auto
  have "sorted_wrt (<) (map sp_name (foldl (push_line db at) (push_line db at ps l) ls))"
  proof (rule Cons.IH)
    show "sorted_wrt (<) (map sp_name (push_line db at ps l))"
      unfolding names_push using Cons.prems(1) below by (auto simp: sorted_wrt_append)
    show "\<forall>p \<in> set (push_line db at ps l). \<forall>l' \<in> set ls. sp_name p \<le> sl_service l'"
      using names Cons.prems(2,3) by fastforce
    show "sorted (map sl_service ls)" using Cons.prems(3) by simp
  qed
  then show ?case by simp
qed simp

lemma in_key_order:
  assumes "lines_ok xs"
  shows "set (in_key_order xs) = snd ` set xs" "sorted (map sl_service (in_key_order xs))" "distinct (map line_key (in_key_order xs))"
proof -
  let ?ys = "sort_key fst xs"
  have keys: "map line_key (in_key_order xs) = map fst ?ys"
    unfolding in_key_order_def map_map using assms by (intro map_cong) (auto simp: lines_ok_def)
  then have "map fst (map line_key (in_key_order xs)) = map fst (map fst ?ys)" by simp
  then have svc: "map sl_service (in_key_order xs) = map fst (map fst ?ys)" by (simp add: line_key_def comp_def)
  show "set (in_key_order xs) = snd ` set xs" by (simp add: in_key_order_def)
  have "distinct xs" "inj_on fst (set xs)" using assms by (auto simp: lines_ok_def distinct_map)
  then show "distinct (map line_key (in_key_order xs))" unfolding keys by (simp add: distinct_map)
  have "sorted (map fst ?ys)" by simp
  then show "sorted (map sl_service (in_key_order xs))"
    unfolding svc by (auto simp: sorted_iff_nth_mono less_eq_prod_def dest: less_imp_le)
qed


section \<open>The dev scope\<close>

lemma service_name_iff:
  "catalog_inv db \<Longrightarrow> get_service_name_by_id db sid = Some nm \<longleftrightarrow> find_service db nm = Some sid"
proof -
  assume inv: "catalog_inv db"
  have "find (\<lambda>s. fst s = sid) (services db) = Some (sid, nm)" if "(sid, nm) \<in> set (services db)"
    using that inv by (intro find_unique[of fst]) (auto simp: catalog_inv_def ids_ok_def)
  then show ?thesis using inv by (auto simp: get_service_name_by_id_def catalog_inv_def find_service_Some dest: find_Some_in)
qed

lemma all_versions_iff:
  assumes "catalog_inv db"
  shows "(\<exists>n. (nm, m, n) \<in> set (list_all_spec_versions db)) \<longleftrightarrow>
    (\<exists>sid row. find_service db nm = Some sid \<and> find_version_row db sid (v_api_type m) (v_version m) = Some row \<and>
       m = spec_version_meta.truncate row)"
proof -
  have "(\<exists>n. (nm, m, n) \<in> set (list_all_spec_versions db)) \<longleftrightarrow>
      (\<exists>row \<in> set (spec_versions db). get_service_name_by_id db (v_service_id row) = Some nm \<and> m = spec_version_meta.truncate row)"
    by (force simp: list_all_spec_versions_def List.map_filter_def)
  then show ?thesis
    by (auto simp: service_name_iff[OF assms] find_row_in[OF assms] version_key_def)
qed

lemma line_entry_row:
  assumes "catalog_inv db" and "find_service db (sl_service l) = Some sid"
    and "find_version_row db sid (sl_api_type l) (sl_version l) = Some row"
  shows "line_entry db l = Some (spec_version_meta.truncate row)"
proof -
  let ?p = "\<lambda>(nm, v, _ :: nat). nm = sl_service l \<and> v_api_type v = sl_api_type l \<and> v_version v = sl_version l"
  have row: "v_api_type row = sl_api_type l" "v_version row = sl_version l"
    using assms(3) by (simp_all add: find_row_in[OF assms(1)] version_key_def)
  have hit: "m = spec_version_meta.truncate row" if "x \<in> set (list_all_spec_versions db)" "?p x" "x = (nm, m, n)" for x nm m n
    using all_versions_iff[OF assms(1), of nm m] that assms(2,3) by auto
  obtain n where "(sl_service l, spec_version_meta.truncate row, n) \<in> set (list_all_spec_versions db)"
    using all_versions_iff[OF assms(1), of "sl_service l" "spec_version_meta.truncate row"] assms(2,3) row by auto
  moreover have "?p (sl_service l, spec_version_meta.truncate row, n)" using row by simp
  ultimately have "find ?p (rev (list_all_spec_versions db)) \<noteq> None" unfolding find_None_not set_rev by blast
  then obtain x where x: "find ?p (rev (list_all_spec_versions db)) = Some x" by auto
  obtain nm m n where "x = (nm, m, n)" by (cases x)
  with hit[of x nm m n] find_Some_in[OF x] x show ?thesis by (auto simp: line_entry_def)
qed

text \<open>A line of the stored catalogue, as the dev scope offers it.\<close>

definition dev_line :: "string \<times> spec_version_meta \<times> nat \<Rightarrow> scoped_line" where
  "dev_line = (\<lambda>(nm, v, _). \<lparr>sl_service = nm, sl_api_type = v_api_type v, sl_version = v_version v, sl_recorded_provide = None\<rparr>)"

definition stored_line :: "db \<Rightarrow> string \<Rightarrow> api_type \<Rightarrow> semver \<Rightarrow> bool" where
  "stored_line db nm t v \<longleftrightarrow> (\<exists>sid. find_service db nm = Some sid \<and> find_version_row db sid t v \<noteq> None)"

lemma dev_offered:
  assumes "catalog_inv db"
  shows "l \<in> set (map dev_line (list_all_spec_versions db)) \<longleftrightarrow> sl_recorded_provide l = None \<and>
    stored_line db (sl_service l) (sl_api_type l) (sl_version l)"
proof -
  have "l \<in> set (map dev_line (list_all_spec_versions db)) \<longleftrightarrow>
      (\<exists>m. (\<exists>n. (sl_service l, m, n) \<in> set (list_all_spec_versions db)) \<and> sl_api_type l = v_api_type m \<and>
         sl_version l = v_version m \<and> sl_recorded_provide l = None)"
    by (cases l) (force simp: dev_line_def)
  moreover have "(\<exists>m. (\<exists>n. (nm, m, n) \<in> set (list_all_spec_versions db)) \<and> t = v_api_type m \<and> v = v_version m) \<longleftrightarrow>
      stored_line db nm t v" for nm t v
  proof
    assume "\<exists>m. (\<exists>n. (nm, m, n) \<in> set (list_all_spec_versions db)) \<and> t = v_api_type m \<and> v = v_version m"
    then show "stored_line db nm t v" unfolding all_versions_iff[OF assms] stored_line_def by auto
  next
    assume "stored_line db nm t v"
    then obtain sid row where row: "find_service db nm = Some sid" "find_version_row db sid t v = Some row"
      by (auto simp: stored_line_def)
    then have "v_api_type row = t" "v_version row = v" by (simp_all add: find_row_in[OF assms] version_key_def)
    with row show "\<exists>m. (\<exists>n. (nm, m, n) \<in> set (list_all_spec_versions db)) \<and> t = v_api_type m \<and> v = v_version m"
      unfolding all_versions_iff[OF assms] by (intro exI[of _ "spec_version_meta.truncate row"]) auto
  qed
  ultimately show ?thesis by blast
qed

lemma api_type_as_str_inj: "api_type_as_str a = api_type_as_str b \<longleftrightarrow> a = b"
  by (metis api_type_roundtrip option.inject)

lemma dev_lines_fold: "dev_lines db = foldl keep_highest [] (map dev_line (list_all_spec_versions db))"
  by (simp add: dev_lines_def dev_line_def)

lemma dev_lines_ok: "lines_ok (dev_lines db)"
  unfolding dev_lines_fold by (rule lines_ok_folds) (simp add: lines_ok_def)

lemma dev_shown:
  fixes db
  defines "ls \<equiv> map dev_line (list_all_spec_versions db)"
  shows "l \<in> set (in_key_order (dev_lines db)) \<longleftrightarrow>
    l \<in> set ls \<and> (\<forall>l' \<in> set ls. line_key l' = line_key l \<longrightarrow> sl_version l' \<le> sl_version l)"
proof -
  have here: "l \<in> set (in_key_order (dev_lines db)) \<longleftrightarrow> map_of (dev_lines db) (line_key l) = Some l"
    using dev_lines_ok[of db] unfolding in_key_order(1)[OF dev_lines_ok] by (force simp: lines_ok_def image_iff)
  have best: "best_of ls (line_key l) (map_of (dev_lines db) (line_key l))"
    unfolding dev_lines_fold ls_def by (rule keep_highest_best)
  have "l' = l" if "l' \<in> set ls" "l \<in> set ls" "line_key l' = line_key l" "sl_version l' = sl_version l" for l'
    using that by (auto simp: ls_def dev_line_def line_key_def api_type_as_str_inj)
  with best show ?thesis unfolding here
    by (cases "map_of (dev_lines db) (line_key l)") (auto simp: best_of_def, metis order.antisym)
qed

lemma dev_scope_lines:
  "get_graph_scope db DevScope = Inr g \<Longrightarrow> gs_producers g = foldl (push_line db None) [] (in_key_order (dev_lines db))"
  by (auto simp: get_graph_scope_def scope_lines_def)

text \<open>
  C28: The dev view of the graph shows the newest of every line. Its producers
  are in order and listed once; a Producer and API type appear exactly when a
  version of them is stored, once, with the highest stored number of that line
  and the stability of that very entry, whatever order the versions were read
  in.
\<close>

theorem dev_scope_shows_newest:
  assumes "catalog_inv db" and "get_graph_scope db DevScope = Inr g"
  shows "sorted_wrt (<) (map sp_name (gs_producers g)) \<and>
    distinct (map (\<lambda>x. (fst x, sv_api_type (snd x))) (flat (gs_producers g))) \<and>
    (\<forall>nm t v. (\<exists>l. (nm, l) \<in> set (flat (gs_producers g)) \<and> sv_api_type l = t \<and> sv_version l = v) \<longleftrightarrow>
      (\<exists>sid. find_service db nm = Some sid \<and> find_version_row db sid t v \<noteq> None \<and>
         (\<forall>w. find_version_row db sid t w \<noteq> None \<longrightarrow> w \<le> v))) \<and>
    (\<forall>nm l sid row. (nm, l) \<in> set (flat (gs_producers g)) \<longrightarrow> find_service db nm = Some sid \<longrightarrow>
      find_version_row db sid (sv_api_type l) (sv_version l) = Some row \<longrightarrow> sv_stability l = Some (v_stability row))"
proof -
  let ?ls = "map dev_line (list_all_spec_versions db)" and ?xs = "dev_lines db"
  note g = dev_scope_lines[OF assms(2)] and ok = dev_lines_ok[of db] and shown = dev_shown[of _ db]
  have flat: "flat (gs_producers g) = map (\<lambda>l. (sl_service l, version_line_of db None l)) (in_key_order ?xs)"
    by (simp add: g flat_fold)
  have "map (\<lambda>x. (fst x, api_type_as_str (sv_api_type (snd x)))) (flat (gs_producers g)) = map line_key (in_key_order ?xs)"
    by (simp add: flat line_key_def version_line_of_def comp_def)
  then have "distinct (map (\<lambda>x. (fst x, api_type_as_str (sv_api_type (snd x)))) (flat (gs_producers g)))"
    using in_key_order(3)[OF ok] by simp
  then have one: "distinct (map (\<lambda>x. (fst x, sv_api_type (snd x))) (flat (gs_producers g)))"
    by (auto simp: distinct_map inj_on_def)
  have sorted: "sorted_wrt (<) (map sp_name (gs_producers g))"
    unfolding g by (rule names_fold) (use in_key_order(2)[OF ok] in auto)
  have entry: "(nm, l) \<in> set (flat (gs_producers g)) \<longleftrightarrow>
      (\<exists>x. x \<in> set (in_key_order ?xs) \<and> sl_service x = nm \<and> l = version_line_of db None x)" for nm l
    by (auto simp: flat)
  have newest: "(\<exists>l. (nm, l) \<in> set (flat (gs_producers g)) \<and> sv_api_type l = t \<and> sv_version l = v) \<longleftrightarrow>
      (\<exists>sid. find_service db nm = Some sid \<and> find_version_row db sid t v \<noteq> None \<and>
         (\<forall>w. find_version_row db sid t w \<noteq> None \<longrightarrow> w \<le> v))" for nm t v
  proof -
    let ?x = "\<lambda>w. \<lparr>sl_service = nm, sl_api_type = t, sl_version = w, sl_recorded_provide = None\<rparr>"
    have all: "sl_recorded_provide x = None" if "x \<in> set (in_key_order ?xs)" for x
      using that unfolding shown dev_offered[OF assms(1)] by blast
    have "(\<exists>l. (nm, l) \<in> set (flat (gs_producers g)) \<and> sv_api_type l = t \<and> sv_version l = v) \<longleftrightarrow>
        (\<exists>x. x \<in> set (in_key_order ?xs) \<and> sl_service x = nm \<and> sl_api_type x = t \<and> sl_version x = v)"
      unfolding entry by (auto simp: version_line_of_def)
    also have "\<dots> \<longleftrightarrow> ?x v \<in> set (in_key_order ?xs)"
    proof
      assume "\<exists>x. x \<in> set (in_key_order ?xs) \<and> sl_service x = nm \<and> sl_api_type x = t \<and> sl_version x = v"
      then obtain x where x: "x \<in> set (in_key_order ?xs)" "sl_service x = nm" "sl_api_type x = t" "sl_version x = v" by blast
      then have "x = ?x v" using all by (intro scoped_line.equality) simp_all
      with x(1) show "?x v \<in> set (in_key_order ?xs)" by simp
    qed fastforce
    also have "\<dots> \<longleftrightarrow> stored_line db nm t v \<and> (\<forall>w. stored_line db nm t w \<longrightarrow> w \<le> v)"
      unfolding shown Ball_def dev_offered[OF assms(1)]
      by (auto simp: line_key_def api_type_as_str_inj dest: spec[where x = "?x _"])
    finally show ?thesis by (auto simp: stored_line_def)
  qed
  have "sv_stability l = Some (v_stability row)"
    if "(nm, l) \<in> set (flat (gs_producers g))" "find_service db nm = Some sid" "find_version_row db sid (sv_api_type l) (sv_version l) = Some row" for nm l sid row
    using that line_entry_row[OF assms(1)] by (auto simp: entry version_line_of_def)
  with one sorted newest show ?thesis by blast
qed


section \<open>Past views\<close>

text \<open>The loop with its memo tables is a plain map.\<close>

definition found_stability :: "db \<Rightarrow> row_id \<Rightarrow> api_type \<Rightarrow> semver \<Rightarrow> stability" where
  "found_stability db i t v = (case find_spec_version db i t v of Some m \<Rightarrow> v_stability m | None \<Rightarrow> Ga)"

definition pin_edge :: "db \<Rightarrow> trunk_pin_info \<Rightarrow> dependency_info" where
  "pin_edge db pin =
     \<lparr>di_api_type = p_api_type pin, di_client = p_client pin, di_service = p_service pin, di_version = p_version pin,
      di_stability = (case find_service db (p_service pin) of
          None \<Rightarrow> Ga | Some i \<Rightarrow> found_stability db i (p_api_type pin) (p_version pin)),
      di_path = p_path pin, di_method = p_method pin, di_deprecated = False\<rparr>"

lemma pin_graph_loop_map:
  assumes "\<And>s x. ids s = Some x \<Longrightarrow> x = find_service db s"
    and "\<And>i t v x. stabs (i, t, v) = Some x \<Longrightarrow> x = found_stability db i t v"
  shows "pin_graph_loop db ids stabs pins = map (pin_edge db) pins"
  using assms
proof (induction pins arbitrary: ids stabs)
  case (Cons pin pins)
  let ?sid = "find_service db (p_service pin)"
  let ?ids = "case ids (p_service pin) of Some _ \<Rightarrow> ids | None \<Rightarrow> ids(p_service pin \<mapsto> ?sid)"
  let ?stabs = "case ?sid of None \<Rightarrow> stabs | Some i \<Rightarrow> (case stabs (i, p_api_type pin, p_version pin) of Some _ \<Rightarrow> stabs
     | None \<Rightarrow> stabs((i, p_api_type pin, p_version pin) \<mapsto> found_stability db i (p_api_type pin) (p_version pin)))"
  have sid: "(case ids (p_service pin) of Some cached \<Rightarrow> (cached, ids) | None \<Rightarrow> (?sid, ids(p_service pin \<mapsto> ?sid))) = (?sid, ?ids)"
    using Cons.prems(1)[of "p_service pin"] by (auto split: option.split)
  have "pin_graph_loop db ids stabs (pin # pins) = pin_edge db pin # pin_graph_loop db ?ids ?stabs pins"
    using Cons.prems(2)[of _ "p_api_type pin" "p_version pin"]
    by (simp only: pin_graph_loop.simps sid Let_def prod.case found_stability_def[symmetric])
      (cases ?sid; auto simp: pin_edge_def split: option.split)
  also have "pin_graph_loop db ?ids ?stabs pins = map (pin_edge db) pins"
  proof (rule Cons.IH)
    show "x = find_service db s" if "?ids s = Some x" for s x
      using that Cons.prems(1) by (auto split: option.splits if_splits)
    show "x = found_stability db i t v" if "?stabs (i, t, v) = Some x" for i t v x
      using that Cons.prems(2)[of i t v x] by (auto split: option.splits if_splits)
  qed
  finally show ?case by simp
qed simp

lemma pins_as_dependency_graph_map: "pins_as_dependency_graph db pins = map (pin_edge db) pins"
  unfolding pins_as_dependency_graph_def by (rule pin_graph_loop_map) simp_all

text \<open>Who requires what at which version: an edge without the present-day stability.\<close>

definition edge_of :: "dependency_info \<Rightarrow> string \<times> string \<times> api_type \<times> semver \<times> string \<times> string" where
  "edge_of d = (di_client d, di_service d, di_api_type d, di_version d, di_path d, di_method d)"

lemma past_edges:
  "map edge_of (pins_as_dependency_graph db' (list_trunk_pins_at db t)) =
   sort_key (\<lambda>(c, s, a, v, p, m). (c, s, p, m)) (map (\<lambda>(c, s, a, v, p, n, m, f). (c, s, a, v, p, m)) (seen_at pin_view t (trunk_deps db)))"
proof -
  let ?e = "\<lambda>p. (p_client p, p_service p, p_api_type p, p_version p, p_path p, p_method p)"
  have "map edge_of (pins_as_dependency_graph db' (list_trunk_pins_at db t)) = map ?e (list_trunk_pins_at db t)"
    by (simp add: pins_as_dependency_graph_map edge_of_def pin_edge_def comp_def)
  also have "\<dots> = sort_key (\<lambda>(c, s, a, v, p, m). (c, s, p, m)) (map ?e (map pin_row_to_info (filter (alive_at t) (trunk_deps db))))"
    unfolding list_trunk_pins_at_def order_pins_def map_sort_key[symmetric] by simp
  finally show ?thesis by (simp add: seen_at_def comp_def pin_row_to_info_def pin_view_def)
qed

lemma main_scope_report:
  assumes "generate_scoped_report C now (MainScope (Some t)) db = Inr r"
  shows "dr_dependency_graph r = pins_as_dependency_graph db (list_trunk_pins_at db t)"
    "dr_trunk_graph r = []" "dr_harvested_subscriptions r = []" "dr_missing_endpoints r = []" "dr_unused_endpoints r = []"
    "dr_trunk_stale_before r = None" "dr_scope_label r = Some (''main@'' @ t)"
  using assms
  by (auto simp: generate_scoped_report_def and_then_Inr_iff scope_pins_def scope_harvested_subscriptions_def trunk_pins_at_def instant_label_def)

text \<open>
  C29: A report of the past shows the past. The report of the main graph at an
  instant has the same edges (Consumer, Producer, endpoint and version, in the
  same order) whenever it is made, whatever requires, expiries, retirements
  and deletions ran after the instant; it says which instant it describes and
  carries none of today's trunk edges, subscriptions, unused or missing
  endpoints.
\<close>

theorem past_report_is_fixed:
  assumes "\<forall>(when, op) \<in> set ops. t < when" and "db' = foldl (\<lambda>db (when, op). run_trunk when op db) db ops"
    and "generate_scoped_report C now (MainScope (Some t)) db = Inr r" and "generate_scoped_report C now' (MainScope (Some t)) db' = Inr r'"
  shows "map edge_of (dr_dependency_graph r') = map edge_of (dr_dependency_graph r) \<and> dr_scope_label r' = Some (''main@'' @ t) \<and>
    dr_trunk_graph r' = [] \<and> dr_harvested_subscriptions r' = [] \<and> dr_missing_endpoints r' = [] \<and> dr_unused_endpoints r' = []"
proof -
  have "seen_at pin_view t (trunk_deps db') = seen_at pin_view t (trunk_deps db)"
    unfolding assms(2) by (rule run_trunks_past) (use assms(1) in auto)
  then show ?thesis using main_scope_report[OF assms(3)] main_scope_report[OF assms(4)] by (simp add: past_edges)
qed

section \<open>Examples\<close>

theorem dev_scope_shows_newest_witness:
  "\<exists>g. get_graph_scope sample_released DevScope = Inr g \<and>
    (\<exists>l. (''api'', l) \<in> set (flat (gs_producers g)) \<and> sv_api_type l = OpenApi \<and> sv_version l = SemVer 1 0 0)"
proof -
  obtain g where g: "get_graph_scope sample_released DevScope = Inr g"
    by (auto simp: get_graph_scope_def scope_lines_def)
  have inv: "catalog_inv sample_released" by code_simp
  have keys: "map version_key (spec_versions sample_released) = [(1, OpenApi, SemVer 1 0 0)]" by code_simp
  have "find_service sample_released ''api'' = Some 1" "find_version_row sample_released 1 OpenApi (SemVer 1 0 0) \<noteq> None"
    by code_simp+
  moreover have "w \<le> SemVer 1 0 0" if "find_version_row sample_released 1 OpenApi w \<noteq> None" for w
  proof -
    from that have "(1, OpenApi, w) \<in> set (map version_key (spec_versions sample_released))"
      by (auto simp: find_row_in[OF inv] intro: rev_image_eqI)
    then show ?thesis unfolding keys by simp
  qed
  ultimately show ?thesis using dev_scope_shows_newest[OF inv g] g by blast
qed

definition sample_later :: "(stamp \<times> trunk_op) list" where
  "sample_later = [(''2026-02-01'', RecordPins [sample_pin 3]), (''2026-02-02'', DeleteProducer ''nobody'')]"

theorem past_report_is_fixed_witness:
  "\<exists>r r'. generate_scoped_report tally_time 0 (MainScope (Some ''2026-01-15'')) sample_graph = Inr r \<and>
     generate_scoped_report tally_time 9 (MainScope (Some ''2026-01-15''))
       (foldl (\<lambda>db (when, op). run_trunk when op db) sample_graph sample_later) = Inr r' \<and>
     map edge_of (dr_dependency_graph r') = map edge_of (dr_dependency_graph r)"
proof -
  obtain r where r: "generate_scoped_report tally_time 0 (MainScope (Some ''2026-01-15'')) sample_graph = Inr r"
    by (auto simp: generate_scoped_report_def get_periphery_def scope_pins_def)
  obtain r' where r': "generate_scoped_report tally_time 9 (MainScope (Some ''2026-01-15''))
       (foldl (\<lambda>db (when, op). run_trunk when op db) sample_graph sample_later) = Inr r'"
    by (auto simp: generate_scoped_report_def get_periphery_def scope_pins_def)
  have "\<forall>(when, op) \<in> set sample_later. ''2026-01-15'' < when"
    by (simp add: sample_later_def)
  with r r' past_report_is_fixed[OF this refl r r'] show ?thesis by blast
qed


end
