(* ===== verification/Accounts.thy ===== *)
theory Accounts
  imports Admin
begin

text \<open>
  Accounts, sessions, API tokens and profiles: the tables and queries of
  \<open>src/src/infrastructure/sqlite_repository.rs\<close> that sign-in relies on. A token is
  kept as its SHA-256 only. Hashing, the password hash (Argon2), SQLite's
  \<open>julianday\<close>, the rendering of an instant and random draws are parameters.
\<close>

section \<open>Tables\<close>

record user =
  u_id :: row_id
  u_username :: string
  u_password_hash :: string
  u_approved :: bool

definition service_account_password_hash :: string where
  "service_account_password_hash = ''!service-account''"

definition is_service_account :: "user \<Rightarrow> bool" where
  "is_service_account u \<longleftrightarrow> u_password_hash u = service_account_password_hash"

record session_row =
  ss_token_hash :: string
  ss_user_id :: row_id
  ss_expires_at :: stamp
  ss_sign_in :: "string option"

record api_token_row =
  tk_id :: string
  tk_user_id :: row_id
  tk_name :: string
  tk_hash :: string
  tk_scope :: string
  tk_created_at :: stamp
  tk_expires_at :: stamp
  tk_last_used_at :: "stamp option"
  tk_issued_by :: "string option"

record profile_row =
  pr_user_id :: row_id
  pr_last_sign_in :: "string option"
  pr_display_name :: "string option"
  pr_avatar_hash :: "string option"
  pr_directory_id :: "string option"
  pr_own_avatar_hash :: "string option"

text \<open>
  The user rows are \<open>ac_users\<close>; roles, groups and maintainers are read and
  written through \<open>auth_view\<close>, settings, favourites and the audit log in \<open>ac_db\<close>.
\<close>

record accounts =
  ac_users :: "user list"
  ac_next_user :: row_id
  ac_sessions :: "session_row list"
  ac_tokens :: "api_token_row list"
  ac_profiles :: "profile_row list"
  ac_auth :: auth_db
  ac_db :: db

definition user_key :: "user \<Rightarrow> row_id \<times> string" where
  "user_key u = (u_id u, u_username u)"

definition auth_view :: "accounts \<Rightarrow> auth_db" where
  "auth_view a = (ac_auth a)\<lparr>users := map user_key (ac_users a)\<rparr>"

record auth_tools = admin_time +
  argon_hash :: "string \<Rightarrow> app_error + string"
  argon_verify :: "string \<Rightarrow> string \<Rightarrow> app_error + bool"
  sha256_hex :: "string \<Rightarrow> string"
  julianday :: "stamp \<Rightarrow> int option"

text \<open>\<open>julianday(s) > julianday('now')\<close> and \<open>julianday(s) < julianday(?)\<close>; \<open>NULL\<close> compares as false.\<close>

definition expires_after :: "auth_tools \<Rightarrow> int \<Rightarrow> stamp \<Rightarrow> bool" where
  "expires_after T now s = (case julianday T s of None \<Rightarrow> False | Some t \<Rightarrow> now < t)"

definition expired_before :: "auth_tools \<Rightarrow> stamp \<Rightarrow> stamp \<Rightarrow> bool" where
  "expired_before T cutoff s =
     (case (julianday T s, julianday T cutoff) of (Some t, Some c) \<Rightarrow> t < c | _ \<Rightarrow> False)"

section \<open>Users\<close>

definition find_user :: "accounts \<Rightarrow> string \<Rightarrow> user option" where
  "find_user a nm = find (\<lambda>u. u_username u = nm) (ac_users a)"

definition user_by_id :: "accounts \<Rightarrow> row_id \<Rightarrow> user option" where
  "user_by_id a uid = find (\<lambda>u. u_id u = uid) (ac_users a)"

definition list_users :: "accounts \<Rightarrow> user list" where
  "list_users a = sort_key u_username (ac_users a)"

definition create_user :: "string \<Rightarrow> string \<Rightarrow> bool \<Rightarrow> accounts \<Rightarrow> repository_error + user \<times> accounts" where
  "create_user nm hash approved a =
     (if find_user a nm \<noteq> None then Inl (RepoInternal ''UNIQUE constraint failed: users.username'')
      else let u = \<lparr>u_id = ac_next_user a, u_username = nm, u_password_hash = hash, u_approved = approved\<rparr>
           in Inr (u, a\<lparr>ac_users := ac_users a @ [u], ac_next_user := Suc (ac_next_user a)\<rparr>))"

definition repo_approve_user :: "row_id \<Rightarrow> accounts \<Rightarrow> bool \<times> accounts" where
  "repo_approve_user uid a =
     (exists_row (\<lambda>u. u_id u = uid \<and> \<not> u_approved u) (ac_users a),
      a\<lparr>ac_users := update_where (\<lambda>u. u_id u = uid \<and> \<not> u_approved u) (u_approved_update (\<lambda>_. True)) (ac_users a)\<rparr>)"

definition update_password :: "row_id \<Rightarrow> string \<Rightarrow> accounts \<Rightarrow> accounts" where
  "update_password uid hash a =
     a\<lparr>ac_users := update_where (\<lambda>u. u_id u = uid) (u_password_hash_update (\<lambda>_. hash)) (ac_users a)\<rparr>"

definition rename_user :: "row_id \<Rightarrow> string \<Rightarrow> accounts \<Rightarrow> repository_error + accounts" where
  "rename_user uid nm a =
     (if exists_row (\<lambda>u. u_username u = nm \<and> u_id u \<noteq> uid) (ac_users a)
      then Inl (RepoInternal ''UNIQUE constraint failed: users.username'')
      else Inr (a\<lparr>ac_users := update_where (\<lambda>u. u_id u = uid) (u_username_update (\<lambda>_. nm)) (ac_users a)\<rparr>))"

text \<open>Deleting users cascades to every table that references them.\<close>

definition drop_accounts :: "(user \<Rightarrow> bool) \<Rightarrow> accounts \<Rightarrow> accounts" where
  "drop_accounts p a =
     (let gone = set (map u_id (filter p (ac_users a))); auth = ac_auth a; db = ac_db a in
      a\<lparr>ac_users := delete_where p (ac_users a),
        ac_sessions := delete_where (\<lambda>s. ss_user_id s \<in> gone) (ac_sessions a),
        ac_tokens := delete_where (\<lambda>t. tk_user_id t \<in> gone) (ac_tokens a),
        ac_profiles := delete_where (\<lambda>r. pr_user_id r \<in> gone) (ac_profiles a),
        ac_auth := auth\<lparr>user_roles := delete_where (\<lambda>x. fst x \<in> gone) (user_roles auth),
          group_members := delete_where (\<lambda>x. snd x \<in> gone) (group_members auth),
          user_maintainers := delete_where (\<lambda>x. snd x \<in> gone) (user_maintainers auth)\<rparr>,
        ac_db := db\<lparr>user_favorites := delete_where (\<lambda>f. fst f \<in> gone) (user_favorites db)\<rparr>\<rparr>)"

definition delete_user :: "row_id \<Rightarrow> accounts \<Rightarrow> bool \<times> accounts" where
  "delete_user uid a = (exists_row (\<lambda>u. u_id u = uid) (ac_users a), drop_accounts (\<lambda>u. u_id u = uid) a)"

section \<open>Sessions\<close>

record session =
  se_token :: string
  se_user_id :: row_id
  se_expires_at :: stamp

definition create_session_with_token ::
    "auth_tools \<Rightarrow> row_id \<Rightarrow> string \<Rightarrow> stamp \<Rightarrow> accounts \<Rightarrow> repository_error + session \<times> accounts" where
  "create_session_with_token T uid token expires a =
     (let h = sha256_hex T token in
      if exists_row (\<lambda>s. ss_token_hash s = h) (ac_sessions a) then Inl (RepoInternal ''UNIQUE constraint failed: sessions.token'')
      else if user_by_id a uid = None then Inl foreign_key_failed
      else Inr (\<lparr>se_token = token, se_user_id = uid, se_expires_at = expires\<rparr>,
             a\<lparr>ac_sessions := ac_sessions a @ [\<lparr>ss_token_hash = h, ss_user_id = uid, ss_expires_at = expires, ss_sign_in = None\<rparr>]\<rparr>))"

definition session_of :: "auth_tools \<Rightarrow> string \<Rightarrow> accounts \<Rightarrow> session_row option" where
  "session_of T token a = find (\<lambda>s. ss_token_hash s = sha256_hex T token) (ac_sessions a)"

definition validate_session :: "auth_tools \<Rightarrow> int \<Rightarrow> string \<Rightarrow> accounts \<Rightarrow> (user \<times> session) option" where
  "validate_session T now token a =
     (case session_of T token a of
        Some s \<Rightarrow> if expires_after T now (ss_expires_at s)
          then map_option (\<lambda>u. (u, \<lparr>se_token = token, se_user_id = u_id u, se_expires_at = ss_expires_at s\<rparr>)) (user_by_id a (ss_user_id s))
          else None
      | None \<Rightarrow> None)"

definition delete_session :: "auth_tools \<Rightarrow> string \<Rightarrow> accounts \<Rightarrow> accounts" where
  "delete_session T token a = a\<lparr>ac_sessions := delete_where (\<lambda>s. ss_token_hash s = sha256_hex T token) (ac_sessions a)\<rparr>"

definition set_session_sign_in :: "auth_tools \<Rightarrow> string \<Rightarrow> sign_in_method \<Rightarrow> accounts \<Rightarrow> accounts" where
  "set_session_sign_in T token m a =
     a\<lparr>ac_sessions := update_where (\<lambda>s. ss_token_hash s = sha256_hex T token)
         (ss_sign_in_update (\<lambda>_. Some (sign_in_method_as_str m))) (ac_sessions a)\<rparr>"

definition session_sign_in :: "auth_tools \<Rightarrow> string \<Rightarrow> accounts \<Rightarrow> sign_in_method option" where
  "session_sign_in T token a =
     (case session_of T token a of None \<Rightarrow> None
      | Some s \<Rightarrow> (case ss_sign_in s of None \<Rightarrow> None | Some v \<Rightarrow> sign_in_method_parse v))"

definition delete_expired_credentials :: "auth_tools \<Rightarrow> stamp \<Rightarrow> accounts \<Rightarrow> nat \<times> accounts" where
  "delete_expired_credentials T now a =
     (let old = (\<lambda>s. expired_before T now s) in
      (length (filter (\<lambda>s. old (ss_expires_at s)) (ac_sessions a)) + length (filter (\<lambda>t. old (tk_expires_at t)) (ac_tokens a)),
       a\<lparr>ac_sessions := delete_where (\<lambda>s. old (ss_expires_at s)) (ac_sessions a),
         ac_tokens := delete_where (\<lambda>t. old (tk_expires_at t)) (ac_tokens a)\<rparr>))"

section \<open>Roles, groups and maintainers of the accounts\<close>

text \<open>The same operations on the tables the caches and the authorization rules read.\<close>

definition drop_users :: "(row_id \<times> string \<Rightarrow> bool) \<Rightarrow> auth_db \<Rightarrow> auth_db" where
  "drop_users p a =
     (let gone = set (map fst (filter p (users a))) in
      a\<lparr>users := delete_where p (users a), user_roles := delete_where (\<lambda>x. fst x \<in> gone) (user_roles a),
        group_members := delete_where (\<lambda>x. snd x \<in> gone) (group_members a),
        user_maintainers := delete_where (\<lambda>x. snd x \<in> gone) (user_maintainers a)\<rparr>)"

definition is_doomed :: "string list \<Rightarrow> auth_db \<Rightarrow> row_id \<times> string \<Rightarrow> bool" where
  "is_doomed spare a u \<longleftrightarrow> (fst u, ''admin'') \<notin> set (user_roles a) \<and>
     \<not> list_ex (\<lambda>m. snd m = fst u \<and> (fst m, ''admin'') \<in> set (group_roles a)) (group_members a) \<and> snd u \<notin> set spare"

definition delete_all_non_admin_users :: "string list \<Rightarrow> auth_db \<Rightarrow> nat \<times> auth_db" where
  "delete_all_non_admin_users spare a =
     (length (filter (is_doomed spare a) (users a)), drop_users (is_doomed spare a) a)"

definition move_rows :: "row_id \<Rightarrow> row_id \<Rightarrow> (row_id \<times> 'b) list \<Rightarrow> (row_id \<times> 'b) list" where
  "move_rows from into rs = map (\<lambda>r. if fst r = from \<and> (into, snd r) \<notin> set rs then (into, snd r) else r) rs"

definition move_members :: "row_id \<Rightarrow> row_id \<Rightarrow> ('b \<times> row_id) list \<Rightarrow> ('b \<times> row_id) list" where
  "move_members from into rs = map (\<lambda>r. if snd r = from \<and> (fst r, into) \<notin> set rs then (fst r, into) else r) rs"

definition merge_user_into :: "row_id \<Rightarrow> row_id \<Rightarrow> auth_db \<Rightarrow> auth_db" where
  "merge_user_into from into a =
     drop_users (\<lambda>u. fst u = from)
       (a\<lparr>user_roles := move_rows from into (user_roles a), group_members := move_members from into (group_members a),
          user_maintainers := move_members from into (user_maintainers a)\<rparr>)"

definition nuke_accounts :: "nat option \<Rightarrow> auth_db \<Rightarrow> auth_db" where
  "nuke_accounts keep a =
     (drop_users (\<lambda>u. case keep of Some uid \<Rightarrow> fst u \<noteq> uid | None \<Rightarrow> True) a)\<lparr>auth_services := [], user_maintainers := [], group_maintainers := []\<rparr>"


section \<open>Merging accounts\<close>

text \<open>
  The rows of \<open>from\<close> become those of \<open>into\<close>, except where \<open>into\<close> has the like, and
  \<open>from\<close> is deleted. A token keeps its name, so the unique index on owner and name
  can refuse the whole transaction.
\<close>

definition move_favorites :: "row_id \<Rightarrow> row_id \<Rightarrow> (nat \<times> string \<times> string) list \<Rightarrow> (nat \<times> string \<times> string) list" where
  "move_favorites from into fs = map (\<lambda>f. if fst f = from \<and> (into, snd f) \<notin> set fs then (into, snd f) else f) fs"

definition same_token_names :: "row_id \<Rightarrow> row_id \<Rightarrow> accounts \<Rightarrow> bool" where
  "same_token_names from into a \<longleftrightarrow>
     list_ex (\<lambda>t. tk_user_id t = from \<and> list_ex (\<lambda>t'. tk_user_id t' = into \<and> tk_name t' = tk_name t) (ac_tokens a)) (ac_tokens a)"

definition move_account_rows :: "row_id \<Rightarrow> row_id \<Rightarrow> accounts \<Rightarrow> accounts" where
  "move_account_rows from into a =
     (let auth = ac_auth a; db = ac_db a in
      a\<lparr>ac_auth := auth\<lparr>user_roles := move_rows from into (user_roles auth), group_members := move_members from into (group_members auth),
          user_maintainers := move_members from into (user_maintainers auth)\<rparr>,
        ac_db := db\<lparr>user_favorites := move_favorites from into (user_favorites db)\<rparr>,
        ac_tokens := update_where (\<lambda>t. tk_user_id t = from) (tk_user_id_update (\<lambda>_. into)) (ac_tokens a),
        ac_sessions := update_where (\<lambda>s. ss_user_id s = from) (ss_user_id_update (\<lambda>_. into)) (ac_sessions a)\<rparr>)"

definition merge_accounts :: "row_id \<Rightarrow> row_id \<Rightarrow> accounts \<Rightarrow> repository_error + accounts" where
  "merge_accounts from into a =
     (if from \<noteq> into \<and> same_token_names from into a
      then Inl (RepoInternal ''UNIQUE constraint failed: api_tokens.user_id, api_tokens.name'')
      else Inr (drop_accounts (\<lambda>u. u_id u = from) (move_account_rows from into a)))"

section \<open>Profiles\<close>

definition empty_profile :: "row_id \<Rightarrow> profile_row" where
  "empty_profile uid = \<lparr>pr_user_id = uid, pr_last_sign_in = None, pr_display_name = None, pr_avatar_hash = None,
     pr_directory_id = None, pr_own_avatar_hash = None\<rparr>"

definition get_user_profile :: "accounts \<Rightarrow> row_id \<Rightarrow> profile_row option" where
  "get_user_profile a uid = find (\<lambda>r. pr_user_id r = uid) (ac_profiles a)"

text \<open>\<open>INSERT \<dots> ON CONFLICT (user_id) DO UPDATE\<close> of one column.\<close>

definition upsert_profile :: "row_id \<Rightarrow> (profile_row \<Rightarrow> profile_row) \<Rightarrow> accounts \<Rightarrow> repository_error + accounts" where
  "upsert_profile uid f a =
     (if user_by_id a uid = None then Inl foreign_key_failed
      else Inr (case get_user_profile a uid of
          Some _ \<Rightarrow> a\<lparr>ac_profiles := update_where (\<lambda>r. pr_user_id r = uid) f (ac_profiles a)\<rparr>
        | None \<Rightarrow> a\<lparr>ac_profiles := ac_profiles a @ [f (empty_profile uid)]\<rparr>))"

definition record_user_sign_in :: "row_id \<Rightarrow> sign_in_method \<Rightarrow> accounts \<Rightarrow> repository_error + accounts" where
  "record_user_sign_in uid m = upsert_profile uid (pr_last_sign_in_update (\<lambda>_. Some (sign_in_method_as_str m)))"

definition set_display_name :: "row_id \<Rightarrow> string option \<Rightarrow> accounts \<Rightarrow> repository_error + accounts" where
  "set_display_name uid nm = upsert_profile uid (pr_display_name_update (\<lambda>_. nm))"

definition set_avatar_hash :: "row_id \<Rightarrow> string option \<Rightarrow> accounts \<Rightarrow> repository_error + accounts" where
  "set_avatar_hash uid h = upsert_profile uid (pr_avatar_hash_update (\<lambda>_. h))"

definition set_own_avatar_hash :: "row_id \<Rightarrow> string option \<Rightarrow> accounts \<Rightarrow> repository_error + accounts" where
  "set_own_avatar_hash uid h = upsert_profile uid (pr_own_avatar_hash_update (\<lambda>_. h))"

definition set_directory_id :: "row_id \<Rightarrow> string \<Rightarrow> accounts \<Rightarrow> repository_error + accounts" where
  "set_directory_id uid did a =
     (if exists_row (\<lambda>r. pr_directory_id r = Some did \<and> pr_user_id r \<noteq> uid) (ac_profiles a)
      then Inl (RepoInternal ''UNIQUE constraint failed: user_profiles.directory_id'')
      else upsert_profile uid (pr_directory_id_update (\<lambda>_. Some did)) a)"

definition find_user_by_directory_id :: "accounts \<Rightarrow> string \<Rightarrow> user option" where
  "find_user_by_directory_id a did =
     (case find (\<lambda>r. pr_directory_id r = Some did) (ac_profiles a) of
        None \<Rightarrow> None | Some r \<Rightarrow> user_by_id a (pr_user_id r))"

section \<open>API tokens\<close>

definition create_token_row :: "api_token_row \<Rightarrow> accounts \<Rightarrow> repository_error + accounts" where
  "create_token_row t a =
     (if exists_row (\<lambda>x. tk_id x = tk_id t \<or> tk_hash x = tk_hash t \<or> tk_user_id x = tk_user_id t \<and> tk_name x = tk_name t) (ac_tokens a)
      then Inl RepoConflict
      else if user_by_id a (tk_user_id t) = None then Inl foreign_key_failed
      else Inr (a\<lparr>ac_tokens := ac_tokens a @ [t]\<rparr>))"

definition list_api_tokens :: "accounts \<Rightarrow> row_id \<Rightarrow> api_token_row list" where
  "list_api_tokens a uid = sort_key (\<lambda>t. Desc (tk_created_at t)) (filter (\<lambda>t. tk_user_id t = uid) (ac_tokens a))"

definition delete_api_token :: "string \<Rightarrow> row_id \<Rightarrow> accounts \<Rightarrow> bool \<times> accounts" where
  "delete_api_token tid uid a =
     (exists_row (\<lambda>t. tk_id t = tid \<and> tk_user_id t = uid) (ac_tokens a),
      a\<lparr>ac_tokens := delete_where (\<lambda>t. tk_id t = tid \<and> tk_user_id t = uid) (ac_tokens a)\<rparr>)"

record token_identity =
  ti_token_id :: string
  ti_scope :: api_token_scope
  ti_last_used_at :: "stamp option"
  ti_user :: user

text \<open>A scope that cannot be read narrows to read-only.\<close>

definition stored_scope :: "api_token_row \<Rightarrow> api_token_scope" where
  "stored_scope t = (case api_token_scope_parse (tk_scope t) of Some s \<Rightarrow> s | None \<Rightarrow> ReadOnly)"

definition token_identity_of :: "auth_tools \<Rightarrow> int \<Rightarrow> string \<Rightarrow> accounts \<Rightarrow> token_identity option" where
  "token_identity_of T now h a =
     (case find (\<lambda>t. tk_hash t = h) (ac_tokens a) of
        None \<Rightarrow> None
      | Some t \<Rightarrow> if expires_after T now (tk_expires_at t)
          then map_option (\<lambda>u. \<lparr>ti_token_id = tk_id t, ti_scope = stored_scope t, ti_last_used_at = tk_last_used_at t, ti_user = u\<rparr>)
                 (user_by_id a (tk_user_id t))
          else None)"

definition touch_api_token :: "string \<Rightarrow> stamp \<Rightarrow> accounts \<Rightarrow> accounts" where
  "touch_api_token tid now a =
     a\<lparr>ac_tokens := update_where (\<lambda>t. tk_id t = tid) (tk_last_used_at_update (\<lambda>_. Some now)) (ac_tokens a)\<rparr>"

section \<open>Well-formed accounts\<close>

definition accounts_ok :: "accounts \<Rightarrow> bool" where
  "accounts_ok a \<longleftrightarrow>
     distinct (map u_id (ac_users a)) \<and> distinct (map u_username (ac_users a)) \<and> (\<forall>u \<in> set (ac_users a). u_id u < ac_next_user a) \<and>
     distinct (map ss_token_hash (ac_sessions a)) \<and> (\<forall>s \<in> set (ac_sessions a). ss_user_id s \<in> u_id ` set (ac_users a)) \<and>
     distinct (map tk_id (ac_tokens a)) \<and> distinct (map tk_hash (ac_tokens a)) \<and>
     (\<forall>t \<in> set (ac_tokens a). tk_user_id t \<in> u_id ` set (ac_users a)) \<and>
     distinct (map (\<lambda>t. (tk_user_id t, tk_name t)) (ac_tokens a))"

text \<open>What the operations on all tables do to the ones authorization reads.\<close>

lemma auth_view_drop: "auth_view (drop_accounts (\<lambda>u. p (user_key u)) a) = drop_users p (auth_view a)"
  by (simp add: auth_view_def drop_accounts_def drop_users_def Let_def delete_where_def filter_map o_def user_key_def image_image)

lemma auth_view_merge:
  assumes "merge_accounts from into a = Inr a'"
  shows "auth_view a' = merge_user_into from into (auth_view a)"
proof -
  have "a' = drop_accounts (\<lambda>u. fst (user_key u) = from) (move_account_rows from into a)"
    using assms by (simp add: merge_accounts_def user_key_def split: if_splits)
  moreover have "auth_view (move_account_rows from into a) = (auth_view a)\<lparr>user_roles := move_rows from into (user_roles (auth_view a)),
      group_members := move_members from into (group_members (auth_view a)), user_maintainers := move_members from into (user_maintainers (auth_view a))\<rparr>"
    by (rule auth_db.equality) (simp_all add: auth_view_def move_account_rows_def Let_def)
  ultimately show ?thesis
    using auth_view_drop[of "\<lambda>x. fst x = from" "move_account_rows from into a"] by (simp add: merge_user_into_def)
qed

lemma auth_view_delete:
  assumes "uid \<in> u_id ` set (ac_users a)"
  shows "auth_view (snd (delete_user uid a)) = snd (repo_delete_user uid (auth_view a))"
proof -
  have "set (map fst (filter (\<lambda>x. fst x = uid) (users (auth_view a)))) = {uid}"
    using assms by (auto simp: auth_view_def user_key_def)
  then have "drop_users (\<lambda>x. fst x = uid) (auth_view a) = snd (repo_delete_user uid (auth_view a))"
    unfolding drop_users_def repo_delete_user_def Let_def by simp
  then show ?thesis using auth_view_drop[of "\<lambda>x. fst x = uid" a] by (simp add: delete_user_def user_key_def)
qed

end
