(* ===== verification/Cache.thy ===== *)
theory Cache
  imports Report Accounts
begin

text \<open>
  The caching repository (\<open>src/src/infrastructure/cached_repository.rs\<close>): what the
  services talk to is the database behind thirteen caches. A read looks in its
  cache, asks the database on a miss and keeps the answer; a write goes to the
  database and drops what it may have made stale. A call the file only forwards
  is the repository operation itself and has no definition here. An entry may
  vanish at any moment (time to live, capacity); a limit of 0 switches the
  caches off.
\<close>

section \<open>State\<close>

record backend =
  bk_db :: db
  bk_auth :: auth_db

type_synonym endpoint_key = "row_id \<times> api_type \<times> string \<times> string"
type_synonym endpoint_details = "row_id option \<times> string \<times> bool"

record cached =
  inner :: backend
  endpoint_cache :: "endpoint_key \<rightharpoonup> endpoint_details"
  version_endpoints_cache :: "row_id \<rightharpoonup> endpoint_record list"
  spec_content_cache :: "row_id \<rightharpoonup> string"
  report_cache :: "string \<rightharpoonup> dependency_report"
  services_cache :: "string \<rightharpoonup> producer_summary list"
  service_id_cache :: "string \<rightharpoonup> row_id"
  spec_version_cache :: "row_id \<times> api_type \<times> string \<rightharpoonup> spec_version_meta"
  services_list_cache :: "string \<rightharpoonup> string list"
  clients_list_cache :: "string \<rightharpoonup> string list"
  effective_roles_cache :: "row_id \<rightharpoonup> string list"
  settings_cache :: "string \<rightharpoonup> string option"
  groups_list_cache :: "unit \<rightharpoonup> group list"
  group_roles_cache :: "row_id \<rightharpoonup> string list"
  hits :: "64 word"
  misses :: "64 word"
  memory_limit_mb :: "64 word"

definition with_data_ttl :: "backend \<Rightarrow> 64 word \<Rightarrow> cached" where
  "with_data_ttl b limit =
     \<lparr>inner = b, endpoint_cache = Map.empty, version_endpoints_cache = Map.empty, spec_content_cache = Map.empty,
      report_cache = Map.empty, services_cache = Map.empty, service_id_cache = Map.empty, spec_version_cache = Map.empty,
      services_list_cache = Map.empty, clients_list_cache = Map.empty, effective_roles_cache = Map.empty,
      settings_cache = Map.empty, groups_list_cache = Map.empty, group_roles_cache = Map.empty,
      hits = 0, misses = 0, memory_limit_mb = limit\<rparr>"

definition is_disabled :: "cached \<Rightarrow> bool" where "is_disabled c \<longleftrightarrow> memory_limit_mb c = 0"

definition record_hit :: "cached \<Rightarrow> cached" where "record_hit c = c\<lparr>hits := hits c + 1\<rparr>"

definition record_miss :: "cached \<Rightarrow> cached" where "record_miss c = c\<lparr>misses := misses c + 1\<rparr>"

definition rebuild_caches :: "64 word \<Rightarrow> cached \<Rightarrow> cached" where
  "rebuild_caches limit c =
     c\<lparr>memory_limit_mb := limit, endpoint_cache := Map.empty, version_endpoints_cache := Map.empty,
       spec_content_cache := Map.empty, report_cache := Map.empty, services_cache := Map.empty, service_id_cache := Map.empty,
       spec_version_cache := Map.empty, services_list_cache := Map.empty, clients_list_cache := Map.empty,
       settings_cache := Map.empty, groups_list_cache := Map.empty, group_roles_cache := Map.empty, hits := 0, misses := 0\<rparr>"

definition invalidate_spec_caches :: "cached \<Rightarrow> cached" where
  "invalidate_spec_caches c =
     c\<lparr>spec_version_cache := Map.empty, version_endpoints_cache := Map.empty, endpoint_cache := Map.empty,
       spec_content_cache := Map.empty, report_cache := Map.empty\<rparr>"

definition invalidate_all_caches :: "cached \<Rightarrow> cached" where
  "invalidate_all_caches c =
     (invalidate_spec_caches c)\<lparr>service_id_cache := Map.empty, services_list_cache := Map.empty, services_cache := Map.empty,
       clients_list_cache := Map.empty, effective_roles_cache := Map.empty, settings_cache := Map.empty,
       groups_list_cache := Map.empty, group_roles_cache := Map.empty\<rparr>"

abbreviation db_of :: "cached \<Rightarrow> db" where "db_of c \<equiv> bk_db (inner c)"
abbreviation auth_of :: "cached \<Rightarrow> auth_db" where "auth_of c \<equiv> bk_auth (inner c)"

definition with_db :: "db \<Rightarrow> cached \<Rightarrow> cached" where
  "with_db d c = c\<lparr>inner := (inner c)\<lparr>bk_db := d\<rparr>\<rparr>"

definition with_auth :: "auth_db \<Rightarrow> cached \<Rightarrow> cached" where
  "with_auth a c = c\<lparr>inner := (inner c)\<lparr>bk_auth := a\<rparr>\<rparr>"

definition unless_disabled :: "(cached \<Rightarrow> cached) \<Rightarrow> cached \<Rightarrow> cached" where
  "unless_disabled f c = (if is_disabled c then c else f c)"

section \<open>Cached reads\<close>

text \<open>
  The shape every cached read has: \<open>get\<close> and \<open>put\<close> are its cache. An answer
  \<open>None\<close> of the database is not kept.
\<close>

definition read_through ::
    "(cached \<Rightarrow> 'k \<rightharpoonup> 'v) \<Rightarrow> ('k \<Rightarrow> 'v \<Rightarrow> cached \<Rightarrow> cached) \<Rightarrow> 'k \<Rightarrow> (backend \<Rightarrow> 'v option) \<Rightarrow> cached \<Rightarrow> 'v option \<times> cached" where
  "read_through get put k ask c =
     (case (if is_disabled c then None else get c k) of
        Some v \<Rightarrow> (Some v, record_hit c)
      | None \<Rightarrow>
          (let answer = ask (inner c); c1 = record_miss c in
           (answer, case answer of Some v \<Rightarrow> unless_disabled (put k v) c1 | None \<Rightarrow> c1)))"

definition sentinel :: string where "sentinel = ''_all_''"

definition cached_find_spec_version :: "row_id \<Rightarrow> api_type \<Rightarrow> semver \<Rightarrow> cached \<Rightarrow> spec_version_meta option \<times> cached" where
  "cached_find_spec_version sid t v =
     read_through spec_version_cache (\<lambda>k m c. c\<lparr>spec_version_cache := (spec_version_cache c)(k \<mapsto> m)\<rparr>)
       (sid, t, semver_to_string v) (\<lambda>b. find_spec_version (bk_db b) sid t v)"

definition cached_get_spec_content :: "row_id \<Rightarrow> cached \<Rightarrow> string option \<times> cached" where
  "cached_get_spec_content vid =
     read_through spec_content_cache (\<lambda>k m c. c\<lparr>spec_content_cache := (spec_content_cache c)(k \<mapsto> m)\<rparr>)
       vid (\<lambda>b. get_spec_content (bk_db b) vid)"

definition cached_find_service :: "string \<Rightarrow> cached \<Rightarrow> row_id option \<times> cached" where
  "cached_find_service nm =
     read_through service_id_cache (\<lambda>k m c. c\<lparr>service_id_cache := (service_id_cache c)(k \<mapsto> m)\<rparr>)
       nm (\<lambda>b. find_service (bk_db b) nm)"

definition cached_get_endpoints_for_version :: "row_id \<Rightarrow> cached \<Rightarrow> endpoint_record list option \<times> cached" where
  "cached_get_endpoints_for_version vid =
     read_through version_endpoints_cache (\<lambda>k m c. c\<lparr>version_endpoints_cache := (version_endpoints_cache c)(k \<mapsto> m)\<rparr>)
       vid (\<lambda>b. Some (get_endpoints_for_version (bk_db b) vid))"

definition details :: "endpoint_row \<Rightarrow> endpoint_details" where
  "details e = (e_id e, e_yaml_content e, e_deprecated e)"

definition cached_find_endpoint :: "row_id \<Rightarrow> api_type \<Rightarrow> string \<Rightarrow> string \<Rightarrow> cached \<Rightarrow> endpoint_details option \<times> cached" where
  "cached_find_endpoint vid t path meth =
     read_through endpoint_cache (\<lambda>k m c. c\<lparr>endpoint_cache := (endpoint_cache c)(k \<mapsto> m)\<rparr>)
       (vid, t, normalize_path path, meth) (\<lambda>b. map_option details (find_endpoint (bk_db b) vid t path meth))"

definition cached_get_report :: "cached \<Rightarrow> dependency_report option \<times> cached" where
  "cached_get_report =
     read_through report_cache (\<lambda>k m c. c\<lparr>report_cache := (report_cache c)(k \<mapsto> m)\<rparr>)
       sentinel (\<lambda>b. Some (get_report (bk_db b)))"

definition cached_list_producers :: "cached \<Rightarrow> string list option \<times> cached" where
  "cached_list_producers =
     read_through services_list_cache (\<lambda>k m c. c\<lparr>services_list_cache := (services_list_cache c)(k \<mapsto> m)\<rparr>)
       sentinel (\<lambda>b. Some (list_producers (bk_db b)))"

definition cached_list_producers_detailed :: "cached \<Rightarrow> producer_summary list option \<times> cached" where
  "cached_list_producers_detailed =
     read_through services_cache (\<lambda>k m c. c\<lparr>services_cache := (services_cache c)(k \<mapsto> m)\<rparr>)
       sentinel (\<lambda>b. Some (repo_list_producers_detailed (bk_db b)))"

definition cached_list_consumers :: "cached \<Rightarrow> string list option \<times> cached" where
  "cached_list_consumers =
     read_through clients_list_cache (\<lambda>k m c. c\<lparr>clients_list_cache := (clients_list_cache c)(k \<mapsto> m)\<rparr>)
       sentinel (\<lambda>b. Some (list_consumers (bk_db b)))"

definition cached_get_setting :: "string \<Rightarrow> cached \<Rightarrow> string option option \<times> cached" where
  "cached_get_setting key =
     read_through settings_cache (\<lambda>k m c. c\<lparr>settings_cache := (settings_cache c)(k \<mapsto> m)\<rparr>)
       key (\<lambda>b. Some (get_setting (bk_db b) key))"

definition cached_effective_stored_roles :: "row_id \<Rightarrow> cached \<Rightarrow> string list option \<times> cached" where
  "cached_effective_stored_roles uid =
     read_through effective_roles_cache (\<lambda>k m c. c\<lparr>effective_roles_cache := (effective_roles_cache c)(k \<mapsto> m)\<rparr>)
       uid (\<lambda>b. Some (effective_stored_roles (bk_auth b) uid))"

definition cached_list_groups :: "cached \<Rightarrow> group list option \<times> cached" where
  "cached_list_groups =
     read_through groups_list_cache (\<lambda>k m c. c\<lparr>groups_list_cache := (groups_list_cache c)(k \<mapsto> m)\<rparr>)
       () (\<lambda>b. Some (list_groups (bk_auth b)))"

definition cached_list_group_roles :: "row_id \<Rightarrow> cached \<Rightarrow> string list option \<times> cached" where
  "cached_list_group_roles gid =
     read_through group_roles_cache (\<lambda>k m c. c\<lparr>group_roles_cache := (group_roles_cache c)(k \<mapsto> m)\<rparr>)
       gid (\<lambda>b. Some (list_group_roles (bk_auth b) gid))"

text \<open>The bulk lookup: cached ones first, then one question for the rest.\<close>

definition bulk_key :: "row_id \<Rightarrow> api_type \<Rightarrow> string \<times> string \<Rightarrow> endpoint_key" where
  "bulk_key vid t = (\<lambda>(path, meth). (vid, t, normalize_path path, meth))"

definition bulk_miss :: "row_id \<Rightarrow> api_type \<Rightarrow> (string \<times> string) list \<Rightarrow> cached \<Rightarrow> (string \<times> string) list" where
  "bulk_miss vid t wanted c = filter (\<lambda>w. endpoint_cache c (bulk_key vid t w) = None) wanted"

definition keep_found :: "row_id \<Rightarrow> api_type \<Rightarrow> (string \<times> string \<rightharpoonup> endpoint_details) \<Rightarrow> cached \<Rightarrow> string \<times> string \<Rightarrow> cached" where
  "keep_found vid t found c w =
     (case found w of None \<Rightarrow> c | Some d \<Rightarrow> c\<lparr>endpoint_cache := (endpoint_cache c)(bulk_key vid t w \<mapsto> d)\<rparr>)"

definition cached_find_endpoints_bulk ::
    "row_id \<Rightarrow> api_type \<Rightarrow> (string \<times> string) list \<Rightarrow> cached \<Rightarrow> (string \<times> string \<rightharpoonup> endpoint_details) \<times> cached" where
  "cached_find_endpoints_bulk vid t wanted c =
     (let ask = (\<lambda>ws. map_option details \<circ> find_endpoints_bulk (db_of c) vid t ws) in
      if is_disabled c then (ask wanted, c)
      else let hit = (\<lambda>w. if w \<in> set wanted then endpoint_cache c (bulk_key vid t w) else None);
               rest = bulk_miss vid t wanted c;
               c1 = c\<lparr>hits := hits c + of_nat (length wanted - length rest)\<rparr>
           in if rest = [] then (hit, c1)
              else (hit ++ ask rest, foldl (keep_found vid t (ask rest)) (record_miss c1) rest))"

section \<open>Writes\<close>

text \<open>Each write of the repository with what it drops.\<close>

definition cached_upsert_spec_version :: "upsert_params \<Rightarrow> cached \<Rightarrow> (repository_error + row_id) \<times> cached" where
  "cached_upsert_spec_version p c =
     (case upsert_spec_version p (db_of c) of
        Inl e \<Rightarrow> (Inl e, unless_disabled invalidate_spec_caches c)
      | Inr (vid, d) \<Rightarrow> (Inr vid, unless_disabled invalidate_spec_caches (with_db d c)))"

definition cached_rewrite_spec_text :: "row_id \<Rightarrow> string \<Rightarrow> string \<Rightarrow> (row_id \<times> string) list \<Rightarrow> cached \<Rightarrow> cached" where
  "cached_rewrite_spec_text vid content hash texts c =
     unless_disabled invalidate_spec_caches (with_db (rewrite_spec_text vid content hash texts (db_of c)) c)"

definition cached_delete_spec_version :: "row_id \<Rightarrow> stamp \<Rightarrow> cached \<Rightarrow> bool \<times> cached" where
  "cached_delete_spec_version vid now c =
     (let (existed, d) = delete_spec_version vid now (db_of c); c1 = with_db d c in
      (existed, if existed then unless_disabled invalidate_spec_caches c1 else c1))"

definition drop_metas :: "cached \<Rightarrow> cached" where "drop_metas c = c\<lparr>spec_version_cache := Map.empty\<rparr>"

definition drop_report :: "cached \<Rightarrow> cached" where "drop_report c = c\<lparr>report_cache := Map.empty\<rparr>"

definition cached_touch_spec_version_required :: "row_id \<Rightarrow> stamp \<Rightarrow> cached \<Rightarrow> cached" where
  "cached_touch_spec_version_required vid now c = unless_disabled drop_metas (with_db (touch_spec_version_required vid now (db_of c)) c)"

definition cached_touch_spec_version_provided :: "row_id \<Rightarrow> stamp \<Rightarrow> cached \<Rightarrow> cached" where
  "cached_touch_spec_version_provided vid now c = unless_disabled drop_metas (with_db (touch_spec_version_provided vid now (db_of c)) c)"

definition cached_touch_spec_version_trunk :: "row_id \<Rightarrow> stamp \<Rightarrow> cached \<Rightarrow> cached" where
  "cached_touch_spec_version_trunk vid now c = unless_disabled drop_metas (with_db (touch_spec_version_trunk vid now (db_of c)) c)"

definition cached_delete_expired_snapshots :: "stamp \<Rightarrow> cached \<Rightarrow> nat \<times> cached" where
  "cached_delete_expired_snapshots cutoff c =
     (let (n, d) = delete_expired_snapshots cutoff (db_of c); c1 = with_db d c in
      (n, if n > 0 then unless_disabled invalidate_spec_caches c1 else c1))"

definition cached_ensure_service :: "string \<Rightarrow> cached \<Rightarrow> row_id \<times> cached" where
  "cached_ensure_service nm c =
     (let (sid, d) = ensure_service nm (db_of c) in
      (sid, unless_disabled (\<lambda>c. c\<lparr>service_id_cache := (service_id_cache c)(nm \<mapsto> sid), services_list_cache := Map.empty,
              services_cache := Map.empty\<rparr>) (with_db d c)))"

definition cached_ensure_client :: "string \<Rightarrow> cached \<Rightarrow> row_id \<times> cached" where
  "cached_ensure_client nm c =
     (let (cid, d) = ensure_client nm (db_of c) in
      (cid, unless_disabled (\<lambda>c. c\<lparr>clients_list_cache := Map.empty\<rparr>) (with_db d c)))"

definition cached_record_dependencies_bulk :: "dependency_row list \<Rightarrow> new_webhook_event list \<Rightarrow> stamp \<Rightarrow> cached \<Rightarrow> cached" where
  "cached_record_dependencies_bulk ds evs now c =
     unless_disabled drop_report (with_db (record_dependencies_bulk ds evs now (db_of c)) c)"

definition cached_close_expired_trunk_data :: "stamp \<Rightarrow> stamp \<Rightarrow> cached \<Rightarrow> nat \<times> cached" where
  "cached_close_expired_trunk_data cutoff now c =
     (let (n, d) = close_expired_trunk_data cutoff now (db_of c) in
      (n, unless_disabled (\<lambda>c. c\<lparr>report_cache := Map.empty, spec_version_cache := Map.empty, services_cache := Map.empty\<rparr>) (with_db d c)))"

definition cached_record_trunk_pins :: "pin_params list \<Rightarrow> stamp \<Rightarrow> cached \<Rightarrow> cached" where
  "cached_record_trunk_pins ps now c = unless_disabled drop_report (with_db (record_trunk_pins ps now (db_of c)) c)"

definition cached_delete_all_services :: "cached \<Rightarrow> nat \<times> cached" where
  "cached_delete_all_services c =
     (let (n, d) = repo_delete_all_services (db_of c) in (n, unless_disabled invalidate_all_caches (with_db d c)))"

definition drop_consumers :: "cached \<Rightarrow> cached" where
  "drop_consumers c = c\<lparr>clients_list_cache := Map.empty, report_cache := Map.empty\<rparr>"

definition cached_delete_all_clients :: "cached \<Rightarrow> nat \<times> cached" where
  "cached_delete_all_clients c =
     (let (n, d) = repo_delete_all_clients (db_of c) in (n, unless_disabled drop_consumers (with_db d c)))"

definition cached_nuke_database :: "nat option \<Rightarrow> cached \<Rightarrow> cached" where
  "cached_nuke_database keep c =
     unless_disabled invalidate_all_caches (with_auth (nuke_accounts keep (auth_of c)) (with_db (nuke_database keep (db_of c)) c))"

definition cached_delete_producer :: "string \<Rightarrow> stamp \<Rightarrow> cached \<Rightarrow> bool \<times> cached" where
  "cached_delete_producer nm now c =
     (let (existed, d) = delete_producer nm now (db_of c) in
      (existed, unless_disabled (\<lambda>c. (invalidate_spec_caches (c\<lparr>service_id_cache := (service_id_cache c)(nm := None)\<rparr>))
         \<lparr>services_list_cache := Map.empty, services_cache := Map.empty\<rparr>) (with_db d c)))"

definition cached_delete_consumer :: "string \<Rightarrow> stamp \<Rightarrow> cached \<Rightarrow> bool \<times> cached" where
  "cached_delete_consumer nm now c =
     (let (existed, d) = delete_consumer nm now (db_of c) in (existed, unless_disabled drop_consumers (with_db d c)))"

definition drop_summaries :: "cached \<Rightarrow> cached" where "drop_summaries c = c\<lparr>services_cache := Map.empty\<rparr>"

definition cached_update_producer_metadata :: "string \<Rightarrow> string option \<Rightarrow> string option \<Rightarrow> cached \<Rightarrow> cached" where
  "cached_update_producer_metadata nm icon domain c =
     unless_disabled drop_summaries (with_db (update_producer_metadata nm icon domain (db_of c)) c)"

definition cached_set_producer_external :: "string \<Rightarrow> bool \<Rightarrow> cached \<Rightarrow> bool \<times> cached" where
  "cached_set_producer_external nm external c =
     (let (found, d) = repo_set_producer_external nm external (db_of c) in (found, unless_disabled drop_summaries (with_db d c)))"

definition cached_set_setting :: "string \<Rightarrow> string \<Rightarrow> cached \<Rightarrow> cached" where
  "cached_set_setting key v c =
     (let c1 = with_db (set_setting key v (db_of c)) c in c1\<lparr>settings_cache := (settings_cache c1)(key := None)\<rparr>)"

definition cached_delete_stale_dependencies :: "stamp \<Rightarrow> cached \<Rightarrow> nat \<times> cached" where
  "cached_delete_stale_dependencies cutoff c =
     (let (n, d) = delete_stale_dependencies cutoff (db_of c); c1 = with_db d c in
      (n, if n > 0 then unless_disabled drop_report c1 else c1))"

definition cached_add_service_tags :: "row_id \<Rightarrow> string list \<Rightarrow> cached \<Rightarrow> cached" where
  "cached_add_service_tags sid ts c = unless_disabled drop_report (with_db (add_service_tags sid ts (db_of c)) c)"

definition cached_remove_service_tag :: "row_id \<Rightarrow> string \<Rightarrow> cached \<Rightarrow> cached" where
  "cached_remove_service_tag sid tag c = unless_disabled drop_report (with_db (remove_service_tag sid tag (db_of c)) c)"

definition cached_close_trunk_pins :: "row_id \<Rightarrow> api_type \<Rightarrow> stamp \<Rightarrow> cached \<Rightarrow> nat \<times> cached" where
  "cached_close_trunk_pins sid t now c =
     (let (n, d) = close_trunk_pins_for_service_api sid t now (db_of c) in (n, unless_disabled drop_report (with_db d c)))"

definition cached_reconcile_harvested :: "row_id \<Rightarrow> string \<Rightarrow> bool \<Rightarrow> harvested_sub_input list \<Rightarrow> stamp \<Rightarrow> cached \<Rightarrow> cached" where
  "cached_reconcile_harvested cid cname trunk subs now c =
     unless_disabled drop_report (with_db (reconcile_harvested_subscriptions cid cname trunk subs now (db_of c)) c)"

definition cached_reconcile_periphery ::
    "string \<Rightarrow> bool \<Rightarrow> string list \<Rightarrow> stamp \<Rightarrow> new_webhook_event list \<Rightarrow> cached \<Rightarrow> bool \<times> cached" where
  "cached_reconcile_periphery sys trunk resources now evs c =
     (let (changed, d) = reconcile_periphery sys trunk resources now evs (db_of c) in (changed, unless_disabled drop_report (with_db d c)))"

definition cached_upsert_system_context :: "string \<Rightarrow> system_context \<Rightarrow> cached \<Rightarrow> bool \<times> cached" where
  "cached_upsert_system_context sys ctx c =
     (let (changed, d) = upsert_system_context sys ctx (db_of c); c1 = with_db d c in
      (changed, if changed then unless_disabled drop_report c1 else c1))"

definition cached_delete_system_context :: "string \<Rightarrow> cached \<Rightarrow> cached" where
  "cached_delete_system_context sys c = unless_disabled drop_report (with_db (delete_system_context sys (db_of c)) c)"

text \<open>Roles and groups: these drop their entries whether or not the caches are on.\<close>

definition forget_roles :: "row_id \<Rightarrow> cached \<Rightarrow> cached" where
  "forget_roles uid c = c\<lparr>effective_roles_cache := (effective_roles_cache c)(uid := None)\<rparr>"

definition forget_group :: "row_id \<Rightarrow> cached \<Rightarrow> cached" where
  "forget_group gid c = c\<lparr>effective_roles_cache := Map.empty, group_roles_cache := (group_roles_cache c)(gid := None)\<rparr>"

definition forget_group_list :: "cached \<Rightarrow> cached" where
  "forget_group_list c = c\<lparr>groups_list_cache := (groups_list_cache c)(() := None)\<rparr>"

text \<open>A failed write leaves the caches as they are.\<close>

definition if_written :: "(auth_db \<Rightarrow> repository_error + 'a \<times> auth_db) \<Rightarrow> (cached \<Rightarrow> cached) \<Rightarrow> cached \<Rightarrow> (repository_error + 'a) \<times> cached" where
  "if_written write forget c =
     (case write (auth_of c) of Inl e \<Rightarrow> (Inl e, c) | Inr (x, a) \<Rightarrow> (Inr x, forget (with_auth a c)))"

definition cached_grant_user_role :: "row_id \<Rightarrow> string \<Rightarrow> cached \<Rightarrow> (repository_error + unit) \<times> cached" where
  "cached_grant_user_role uid r = if_written (repo_grant_user_role uid r) (forget_roles uid)"

definition cached_revoke_user_role :: "row_id \<Rightarrow> string \<Rightarrow> cached \<Rightarrow> (repository_error + bool) \<times> cached" where
  "cached_revoke_user_role uid r = if_written (\<lambda>a. Inr (repo_revoke_user_role uid r a)) (forget_roles uid)"

definition cached_create_group :: "string \<Rightarrow> group_source \<Rightarrow> cached \<Rightarrow> (repository_error + group) \<times> cached" where
  "cached_create_group nm src = if_written (\<lambda>a. Inr (repo_create_group nm src a)) forget_group_list"

definition cached_rename_group :: "row_id \<Rightarrow> string \<Rightarrow> cached \<Rightarrow> (repository_error + bool) \<times> cached" where
  "cached_rename_group gid nm = if_written (repo_rename_group gid nm) forget_group_list"

definition cached_delete_group :: "row_id \<Rightarrow> cached \<Rightarrow> (repository_error + bool) \<times> cached" where
  "cached_delete_group gid = if_written (\<lambda>a. Inr (repo_delete_group gid a)) (\<lambda>c. forget_group gid (forget_group_list c))"

definition cached_set_group_roles :: "row_id \<Rightarrow> string list \<Rightarrow> cached \<Rightarrow> (repository_error + unit) \<times> cached" where
  "cached_set_group_roles gid rs = if_written (repo_set_group_roles gid rs) (forget_group gid)"

definition cached_add_group_member :: "row_id \<Rightarrow> row_id \<Rightarrow> cached \<Rightarrow> (repository_error + unit) \<times> cached" where
  "cached_add_group_member gid uid = if_written (repo_add_group_member gid uid) (forget_roles uid)"

definition cached_remove_group_member :: "row_id \<Rightarrow> row_id \<Rightarrow> cached \<Rightarrow> (repository_error + bool) \<times> cached" where
  "cached_remove_group_member gid uid = if_written (\<lambda>a. Inr (repo_remove_group_member gid uid a)) (forget_roles uid)"

definition cached_merge_user_into :: "row_id \<Rightarrow> row_id \<Rightarrow> cached \<Rightarrow> cached" where
  "cached_merge_user_into from into c =
     unless_disabled (\<lambda>c. c\<lparr>effective_roles_cache := Map.empty\<rparr>) (with_auth (merge_user_into from into (auth_of c)) c)"

text \<open>Forwarded as they are.\<close>

definition cached_delete_user :: "row_id \<Rightarrow> cached \<Rightarrow> bool \<times> cached" where
  "cached_delete_user uid c = (let (existed, a) = repo_delete_user uid (auth_of c) in (existed, with_auth a c))"

definition cached_delete_all_non_admin_users :: "string list \<Rightarrow> cached \<Rightarrow> nat \<times> cached" where
  "cached_delete_all_non_admin_users spare c =
     (let (n, a) = delete_all_non_admin_users spare (auth_of c) in (n, with_auth a c))"


section \<open>Coherence\<close>

text \<open>What a cache holds is what the database would answer.\<close>

definition within :: "('k \<rightharpoonup> 'v) \<Rightarrow> ('k \<rightharpoonup> 'v) \<Rightarrow> bool" where
  "within m f \<longleftrightarrow> (\<forall>k v. m k = Some v \<longrightarrow> f k = Some v)"

lemma within_empty [simp]: "within Map.empty f"
  by (simp add: within_def)

lemma within_put: "within m f \<Longrightarrow> f k = Some v \<Longrightarrow> within (m(k \<mapsto> v)) f"
  by (simp add: within_def)

lemma within_drop: "within m f \<Longrightarrow> within (m(k := None)) f"
  by (simp add: within_def)

lemma within_drop_other: "within m f \<Longrightarrow> (\<And>k'. k' \<noteq> k \<Longrightarrow> g k' = f k') \<Longrightarrow> within (m(k := None)) g"
  by (simp add: within_def)

lemma withinD: "within m f \<Longrightarrow> m k = Some v \<Longrightarrow> f k = Some v"
  by (simp add: within_def)

text \<open>The views, by cache key. A version is keyed by its printed number.\<close>

definition view_meta :: "db \<Rightarrow> row_id \<times> api_type \<times> string \<rightharpoonup> spec_version_meta" where
  "view_meta d = (\<lambda>(sid, t, s). map_option spec_version_meta.truncate
     (find (\<lambda>r. v_service_id r = sid \<and> v_api_type r = t \<and> semver_to_string (v_version r) = s) (spec_versions d)))"

definition view_endpoint :: "db \<Rightarrow> endpoint_key \<rightharpoonup> endpoint_details" where
  "view_endpoint d = (\<lambda>(vid, t, n, meth). map_option details
     (find (\<lambda>e. e_spec_version_id e = vid \<and> e_api_type e = t \<and> e_normalized_path e = n \<and> e_method e = meth) (endpoints d)))"

text \<open>The endpoint cache is true for OpenAPI, whose stored key is the cache key.\<close>

definition openapi_entries :: "(endpoint_key \<rightharpoonup> endpoint_details) \<Rightarrow> endpoint_key \<rightharpoonup> endpoint_details" where
  "openapi_entries m = (\<lambda>k. if fst (snd k) = OpenApi then m k else None)"

definition all_empty :: "cached \<Rightarrow> bool" where
  "all_empty c \<longleftrightarrow> endpoint_cache c = Map.empty \<and> version_endpoints_cache c = Map.empty \<and> spec_content_cache c = Map.empty \<and>
     report_cache c = Map.empty \<and> services_cache c = Map.empty \<and> service_id_cache c = Map.empty \<and>
     spec_version_cache c = Map.empty \<and> services_list_cache c = Map.empty \<and> clients_list_cache c = Map.empty \<and>
     settings_cache c = Map.empty \<and> groups_list_cache c = Map.empty \<and> group_roles_cache c = Map.empty"

definition true_entries :: "cached \<Rightarrow> bool" where
  "true_entries c \<longleftrightarrow>
     within (openapi_entries (endpoint_cache c)) (view_endpoint (db_of c)) \<and>
     within (version_endpoints_cache c) (\<lambda>vid. Some (get_endpoints_for_version (db_of c) vid)) \<and>
     within (spec_content_cache c) (get_spec_content (db_of c)) \<and>
     within (report_cache c) (\<lambda>_. Some (get_report (db_of c))) \<and>
     within (services_cache c) (\<lambda>_. Some (repo_list_producers_detailed (db_of c))) \<and>
     within (service_id_cache c) (find_service (db_of c)) \<and>
     within (spec_version_cache c) (view_meta (db_of c)) \<and>
     within (services_list_cache c) (\<lambda>_. Some (list_producers (db_of c))) \<and>
     within (settings_cache c) (\<lambda>k. Some (get_setting (db_of c) k)) \<and>
     within (groups_list_cache c) (\<lambda>_. Some (list_groups (auth_of c))) \<and>
     within (group_roles_cache c) (\<lambda>gid. Some (list_group_roles (auth_of c) gid))"

definition coherent :: "cached \<Rightarrow> bool" where
  "coherent c \<longleftrightarrow> (is_disabled c \<longrightarrow> all_empty c) \<and> true_entries c"

lemmas cache_defs = coherent_def all_empty_def true_entries_def is_disabled_def

lemma fresh_cache_coherent: "coherent (with_data_ttl b limit)"
  by (simp add: cache_defs with_data_ttl_def openapi_entries_def within_def)

lemma coherent_counters [simp]:
  "coherent (record_hit c) = coherent c" "coherent (record_miss c) = coherent c" "coherent (c\<lparr>hits := n\<rparr>) = coherent c"
  by (simp_all add: cache_defs record_hit_def record_miss_def)

lemma counters_frame [simp]:
  "inner (record_hit c) = inner c" "inner (record_miss c) = inner c" "is_disabled (record_miss c) = is_disabled c"
  "endpoint_cache (record_miss c) = endpoint_cache c"
  by (simp_all add: is_disabled_def record_hit_def record_miss_def)

lemma rebuild_coherent: "coherent c \<Longrightarrow> coherent (rebuild_caches limit c)"
  by (simp add: cache_defs rebuild_caches_def openapi_entries_def within_def)

section \<open>Reading\<close>

lemma read_through_state:
  assumes "read_through get put k ask c = (answer, c')" and "coherent c"
    and "\<And>v c. coherent c \<Longrightarrow> \<not> is_disabled c \<Longrightarrow> ask (inner c) = Some v \<Longrightarrow> coherent (put k v c) \<and> inner (put k v c) = inner c"
  shows "coherent c' \<and> inner c' = inner c"
  using assms(1)
proof -
  have "coherent (unless_disabled (put k v) (record_miss c)) \<and> inner (unless_disabled (put k v) (record_miss c)) = inner c"
    if "ask (inner c) = Some v" for v
    using assms(3)[of "record_miss c" v] assms(2) that by (auto simp: unless_disabled_def)
  then show ?thesis using assms(1,2) by (auto simp: read_through_def Let_def split: if_splits option.splits)
qed


lemma semver_string_inj: "semver_to_string a = semver_to_string b \<longleftrightarrow> a = b"
  by (metis semver_from_to_string option.inject)

lemma view_meta_find: "view_meta d (sid, t, semver_to_string v) = find_spec_version d sid t v"
  by (simp add: view_meta_def find_spec_version_def find_version_row_def version_key_def semver_string_inj conj_assoc)

lemma view_endpoint_find:
  "view_endpoint d (vid, OpenApi, normalize_path path, m) = map_option details (find_endpoint d vid OpenApi path m)"
  by (simp add: view_endpoint_def find_endpoint_def lookup_path_def)

lemma openapi_put:
  "openapi_entries (m((vid, OpenApi, n, meth) \<mapsto> d)) = (openapi_entries m)((vid, OpenApi, n, meth) \<mapsto> d)"
  by (auto simp: openapi_entries_def)

locale cache_slot =
  fixes get :: "cached \<Rightarrow> 'k \<rightharpoonup> 'v" and put :: "'k \<Rightarrow> 'v \<Rightarrow> cached \<Rightarrow> cached" and view :: "backend \<Rightarrow> 'k \<rightharpoonup> 'v" and key :: 'k
  assumes slot_true: "coherent c \<Longrightarrow> get c key = Some v \<Longrightarrow> view (inner c) key = Some v"
    and slot_put: "coherent c \<Longrightarrow> \<not> is_disabled c \<Longrightarrow> view (inner c) key = Some v \<Longrightarrow> coherent (put key v c) \<and> inner (put key v c) = inner c"
begin

lemma read:
  assumes "coherent c" and "read_through get put key ask c = (answer, c')" and "\<And>b. ask b = view b key"
  shows "answer = view (inner c) key" "coherent c'" "inner c' = inner c"
proof -
  have put: "coherent (unless_disabled (put key v) (record_miss c)) \<and> inner (unless_disabled (put key v) (record_miss c)) = inner c"
    if "view (inner c) key = Some v" for v
    using slot_put[of "record_miss c" v] assms(1) that by (simp add: unless_disabled_def)
  have "answer = view (inner c) key \<and> coherent c' \<and> inner c' = inner c"
  proof (cases "if is_disabled c then None else get c key")
    case (Some v)
    then have "view (inner c) key = Some v" using slot_true[OF assms(1)] by (simp split: if_splits)
    moreover have "answer = Some v" "c' = record_hit c" using Some assms(2) by (simp_all add: read_through_def)
    ultimately show ?thesis using assms(1) by simp
  next
    case None
    then show ?thesis using assms put by (cases "view (inner c) key") (auto simp: read_through_def Let_def)
  qed
  then show "answer = view (inner c) key" "coherent c'" "inner c' = inner c" by blast+
qed

end

lemma within_coherent:
  "coherent c \<Longrightarrow> within (openapi_entries (endpoint_cache c)) (view_endpoint (db_of c))"
  "coherent c \<Longrightarrow> within (spec_version_cache c) (view_meta (db_of c))"
  "coherent c \<Longrightarrow> within (spec_content_cache c) (get_spec_content (db_of c))"
  "coherent c \<Longrightarrow> within (service_id_cache c) (find_service (db_of c))"
  "coherent c \<Longrightarrow> within (version_endpoints_cache c) ((\<lambda>vid. Some (get_endpoints_for_version (db_of c) vid)))"
  "coherent c \<Longrightarrow> within (report_cache c) ((\<lambda>_. Some (get_report (db_of c))))"
  "coherent c \<Longrightarrow> within (services_list_cache c) ((\<lambda>_. Some (list_producers (db_of c))))"
  "coherent c \<Longrightarrow> within (services_cache c) ((\<lambda>_. Some (repo_list_producers_detailed (db_of c))))"
  "coherent c \<Longrightarrow> within (settings_cache c) ((\<lambda>k. Some (get_setting (db_of c) k)))"
  "coherent c \<Longrightarrow> within (groups_list_cache c) ((\<lambda>_. Some (list_groups (auth_of c))))"
  "coherent c \<Longrightarrow> within (group_roles_cache c) ((\<lambda>gid. Some (list_group_roles (auth_of c) gid)))"
  by (simp_all add: coherent_def true_entries_def)

interpretation meta_slot: cache_slot spec_version_cache "\<lambda>k m c. c\<lparr>spec_version_cache := (spec_version_cache c)(k \<mapsto> m)\<rparr>" "\<lambda>b. view_meta (bk_db b)" k for k
  by unfold_locales (simp add: withinD[OF within_coherent(2)], simp add: cache_defs within_put)

interpretation content_slot: cache_slot spec_content_cache "\<lambda>k m c. c\<lparr>spec_content_cache := (spec_content_cache c)(k \<mapsto> m)\<rparr>" "\<lambda>b. get_spec_content (bk_db b)" k for k
  by unfold_locales (simp add: withinD[OF within_coherent(3)], simp add: cache_defs within_put)

interpretation service_slot: cache_slot service_id_cache "\<lambda>k m c. c\<lparr>service_id_cache := (service_id_cache c)(k \<mapsto> m)\<rparr>" "\<lambda>b. find_service (bk_db b)" k for k
  by unfold_locales (simp add: withinD[OF within_coherent(4)], simp add: cache_defs within_put)

interpretation endpoints_slot: cache_slot version_endpoints_cache "\<lambda>k m c. c\<lparr>version_endpoints_cache := (version_endpoints_cache c)(k \<mapsto> m)\<rparr>" "\<lambda>b. (\<lambda>vid. Some (get_endpoints_for_version (bk_db b) vid))" k for k
  by unfold_locales (simp add: withinD[OF within_coherent(5)], simp add: cache_defs within_put)

interpretation report_slot: cache_slot report_cache "\<lambda>k m c. c\<lparr>report_cache := (report_cache c)(k \<mapsto> m)\<rparr>" "\<lambda>b. (\<lambda>_. Some (get_report (bk_db b)))" k for k
  by unfold_locales (simp add: withinD[OF within_coherent(6)], simp add: cache_defs within_put)

interpretation producers_slot: cache_slot services_list_cache "\<lambda>k m c. c\<lparr>services_list_cache := (services_list_cache c)(k \<mapsto> m)\<rparr>" "\<lambda>b. (\<lambda>_. Some (list_producers (bk_db b)))" k for k
  by unfold_locales (simp add: withinD[OF within_coherent(7)], simp add: cache_defs within_put)

interpretation summaries_slot: cache_slot services_cache "\<lambda>k m c. c\<lparr>services_cache := (services_cache c)(k \<mapsto> m)\<rparr>" "\<lambda>b. (\<lambda>_. Some (repo_list_producers_detailed (bk_db b)))" k for k
  by unfold_locales (simp add: withinD[OF within_coherent(8)], simp add: cache_defs within_put)

interpretation settings_slot: cache_slot settings_cache "\<lambda>k m c. c\<lparr>settings_cache := (settings_cache c)(k \<mapsto> m)\<rparr>" "\<lambda>b. (\<lambda>k. Some (get_setting (bk_db b) k))" k for k
  by unfold_locales (simp add: withinD[OF within_coherent(9)], simp add: cache_defs within_put)

interpretation groups_slot: cache_slot groups_list_cache "\<lambda>k m c. c\<lparr>groups_list_cache := (groups_list_cache c)(k \<mapsto> m)\<rparr>" "\<lambda>b. (\<lambda>_. Some (list_groups (bk_auth b)))" k for k
  by unfold_locales (simp add: withinD[OF within_coherent(10)], simp add: cache_defs within_put)

interpretation group_roles_slot: cache_slot group_roles_cache "\<lambda>k m c. c\<lparr>group_roles_cache := (group_roles_cache c)(k \<mapsto> m)\<rparr>" "\<lambda>b. (\<lambda>gid. Some (list_group_roles (bk_auth b) gid))" k for k
  by unfold_locales (simp add: withinD[OF within_coherent(11)], simp add: cache_defs within_put)

interpretation endpoint_slot: cache_slot endpoint_cache "\<lambda>k m c. c\<lparr>endpoint_cache := (endpoint_cache c)(k \<mapsto> m)\<rparr>"
  "\<lambda>b. view_endpoint (bk_db b)" "(vid, OpenApi, n, meth)" for vid n meth
proof unfold_locales
  fix c v
  show "view_endpoint (db_of c) (vid, OpenApi, n, meth) = Some v" if "coherent c" "endpoint_cache c (vid, OpenApi, n, meth) = Some v"
    using withinD[OF within_coherent(1)[OF that(1)], of "(vid, OpenApi, n, meth)" v] that(2) by (simp add: openapi_entries_def)
  show "coherent (c\<lparr>endpoint_cache := (endpoint_cache c)((vid, OpenApi, n, meth) \<mapsto> v)\<rparr>) \<and>
      inner (c\<lparr>endpoint_cache := (endpoint_cache c)((vid, OpenApi, n, meth) \<mapsto> v)\<rparr>) = inner c"
    if "coherent c" "\<not> is_disabled c" "view_endpoint (db_of c) (vid, OpenApi, n, meth) = Some v"
    using that by (simp add: cache_defs within_put openapi_put)
qed

lemma read_find_spec_version:
  assumes "coherent c" and "cached_find_spec_version sid t v c = (answer, c')"
  shows "answer = find_spec_version (db_of c) sid t v \<and> coherent c' \<and> inner c' = inner c"
  using meta_slot.read[OF assms(1) assms(2)[unfolded cached_find_spec_version_def]] by (simp add: view_meta_find)

lemma read_get_spec_content:
  assumes "coherent c" and "cached_get_spec_content vid c = (answer, c')"
  shows "answer = get_spec_content (db_of c) vid \<and> coherent c' \<and> inner c' = inner c"
  using content_slot.read[OF assms(1) assms(2)[unfolded cached_get_spec_content_def]] by (simp)

lemma read_find_service:
  assumes "coherent c" and "cached_find_service nm c = (answer, c')"
  shows "answer = find_service (db_of c) nm \<and> coherent c' \<and> inner c' = inner c"
  using service_slot.read[OF assms(1) assms(2)[unfolded cached_find_service_def]] by (simp)

lemma read_get_endpoints_for_version:
  assumes "coherent c" and "cached_get_endpoints_for_version vid c = (answer, c')"
  shows "answer = Some (get_endpoints_for_version (db_of c) vid) \<and> coherent c' \<and> inner c' = inner c"
  using endpoints_slot.read[OF assms(1) assms(2)[unfolded cached_get_endpoints_for_version_def]] by (simp)

lemma read_find_endpoint:
  assumes "coherent c" and "cached_find_endpoint vid OpenApi path m c = (answer, c')"
  shows "answer = map_option details (find_endpoint (db_of c) vid OpenApi path m) \<and> coherent c' \<and> inner c' = inner c"
  using endpoint_slot.read[OF assms(1) assms(2)[unfolded cached_find_endpoint_def]] by (simp add: view_endpoint_find)

lemma read_get_report:
  assumes "coherent c" and "cached_get_report c = (answer, c')"
  shows "answer = Some (get_report (db_of c)) \<and> coherent c' \<and> inner c' = inner c"
  using report_slot.read[OF assms(1) assms(2)[unfolded cached_get_report_def]] by (simp)

lemma read_list_producers:
  assumes "coherent c" and "cached_list_producers c = (answer, c')"
  shows "answer = Some (list_producers (db_of c)) \<and> coherent c' \<and> inner c' = inner c"
  using producers_slot.read[OF assms(1) assms(2)[unfolded cached_list_producers_def]] by (simp)

lemma read_list_producers_detailed:
  assumes "coherent c" and "cached_list_producers_detailed c = (answer, c')"
  shows "answer = Some (repo_list_producers_detailed (db_of c)) \<and> coherent c' \<and> inner c' = inner c"
  using summaries_slot.read[OF assms(1) assms(2)[unfolded cached_list_producers_detailed_def]] by (simp)

lemma read_get_setting:
  assumes "coherent c" and "cached_get_setting k c = (answer, c')"
  shows "answer = Some (get_setting (db_of c) k) \<and> coherent c' \<and> inner c' = inner c"
  using settings_slot.read[OF assms(1) assms(2)[unfolded cached_get_setting_def]] by (simp)

lemma read_list_groups:
  assumes "coherent c" and "cached_list_groups c = (answer, c')"
  shows "answer = Some (list_groups (auth_of c)) \<and> coherent c' \<and> inner c' = inner c"
  using groups_slot.read[OF assms(1) assms(2)[unfolded cached_list_groups_def]] by (simp)

lemma read_list_group_roles:
  assumes "coherent c" and "cached_list_group_roles gid c = (answer, c')"
  shows "answer = Some (list_group_roles (auth_of c) gid) \<and> coherent c' \<and> inner c' = inner c"
  using group_roles_slot.read[OF assms(1) assms(2)[unfolded cached_list_group_roles_def]] by (simp)

text \<open>The two reads whose cache is not part of the coherence leave the rest alone.\<close>

lemma read_list_consumers:
  assumes "coherent c" and "cached_list_consumers c = (answer, c')"
  shows "coherent c' \<and> inner c' = inner c"
  using read_through_state[OF assms(2)[unfolded cached_list_consumers_def] assms(1)] by (auto simp: cache_defs)

lemma read_effective_roles:
  assumes "coherent c" and "cached_effective_stored_roles uid c = (answer, c')"
  shows "coherent c' \<and> inner c' = inner c"
  using read_through_state[OF assms(2)[unfolded cached_effective_stored_roles_def] assms(1)] by (auto simp: cache_defs)


section \<open>The bulk lookup\<close>

definition row_key :: "endpoint_row \<Rightarrow> endpoint_key" where
  "row_key e = (e_spec_version_id e, e_api_type e, e_normalized_path e, e_method e)"

definition unambiguous :: "db \<Rightarrow> bool" where
  "unambiguous d \<longleftrightarrow> distinct (map row_key (endpoints d))"

lemma view_endpoint_key: "view_endpoint d k = map_option details (find (\<lambda>e. row_key e = k) (endpoints d))"
  by (cases k) (simp add: view_endpoint_def row_key_def)

lemma bulk_is_view:
  assumes "unambiguous d"
  shows "map_option details (find_endpoints_bulk d vid OpenApi ws w) = (if w \<in> set ws then view_endpoint d (bulk_key vid OpenApi w) else None)"
proof (cases w)
  case (Pair path meth)
  have "find_endpoints_bulk d vid OpenApi ws w =
      (if w \<in> set ws then find (\<lambda>e. row_key e = bulk_key vid OpenApi w) (rev (endpoints d)) else None)"
    by (simp add: Pair find_endpoints_bulk_def row_key_def bulk_key_def lookup_path_def)
  moreover have "find (\<lambda>e. row_key e = k) (rev (endpoints d)) = find (\<lambda>e. row_key e = k) (endpoints d)" for k
  proof (cases "find (\<lambda>e. row_key e = k) (endpoints d)")
    case None
    moreover from this have "find (\<lambda>e. row_key e = k) (rev (endpoints d)) = None" unfolding find_None_not by simp
    ultimately show ?thesis by simp
  next
    case (Some e)
    then have "e \<in> set (rev (endpoints d))" "row_key e = k" by (auto dest: find_Some_in)
    moreover have "distinct (map row_key (rev (endpoints d)))" using assms by (simp add: unambiguous_def rev_map[symmetric])
    ultimately show ?thesis using Some find_unique[of row_key "rev (endpoints d)" e] by simp
  qed
  ultimately show ?thesis by (simp add: view_endpoint_key)
qed

lemma keep_found_ok:
  assumes "\<And>w. found w = (if w \<in> set ws then view_endpoint d (bulk_key vid OpenApi w) else None)"
    and "coherent c" "\<not> is_disabled c" "db_of c = d"
  shows "coherent (foldl (keep_found vid OpenApi found) c us) \<and> inner (foldl (keep_found vid OpenApi found) c us) = inner c"
  using assms(2-4)
proof (induction us arbitrary: c)
  case (Cons w us)
  obtain path meth where w: "w = (path, meth)" by (cases w)
  have "coherent (keep_found vid OpenApi found c w) \<and> inner (keep_found vid OpenApi found c w) = inner c \<and>
      \<not> is_disabled (keep_found vid OpenApi found c w)"
  proof (cases "found w")
    case None
    with Cons.prems show ?thesis by (simp add: keep_found_def)
  next
    case (Some x)
    then have "view_endpoint d (bulk_key vid OpenApi w) = Some x" using assms(1)[of w] by (simp split: if_splits)
    with Some endpoint_slot.slot_put[OF Cons.prems(1,2), of vid "normalize_path path" meth x] Cons.prems show ?thesis
      by (simp add: keep_found_def w bulk_key_def is_disabled_def)
  qed
  with Cons.IH[of "keep_found vid OpenApi found c w"] Cons.prems show ?case by simp
qed simp

lemma read_find_endpoints_bulk:
  assumes "coherent c" and "unambiguous (db_of c)" and "cached_find_endpoints_bulk vid OpenApi wanted c = (answer, c')"
  shows "answer = map_option details \<circ> find_endpoints_bulk (db_of c) vid OpenApi wanted \<and> coherent c' \<and> inner c' = inner c"
proof -
  let ?v = "\<lambda>w. view_endpoint (db_of c) (bulk_key vid OpenApi w)"
  have ask: "(map_option details \<circ> find_endpoints_bulk (db_of c) vid OpenApi ws) = (\<lambda>w. if w \<in> set ws then ?v w else None)" for ws
    by (rule ext) (simp add: bulk_is_view[OF assms(2)])
  have hit: "?v w = Some x" if "endpoint_cache c (bulk_key vid OpenApi w) = Some x" for w x
    using endpoint_slot.slot_true[OF assms(1)] that by (cases w) (simp add: bulk_key_def)
  show ?thesis
  proof (cases "is_disabled c")
    case True
    with assms(1,3) show ?thesis by (auto simp: cached_find_endpoints_bulk_def)
  next
    case False
    let ?rest = "bulk_miss vid OpenApi wanted c"
    let ?c1 = "c\<lparr>hits := hits c + of_nat (length wanted - length ?rest)\<rparr>"
    let ?hit = "\<lambda>w. if w \<in> set wanted then endpoint_cache c (bulk_key vid OpenApi w) else None"
    have known: "?hit w = (if w \<in> set wanted \<and> w \<notin> set ?rest then ?v w else None)" for w
      using hit[of w] by (cases "endpoint_cache c (bulk_key vid OpenApi w)") (auto simp: bulk_miss_def)
    have all: "?hit ++ (\<lambda>w. if w \<in> set ?rest then ?v w else None) = (\<lambda>w. if w \<in> set wanted then ?v w else None)"
    proof
      fix w
      have "w \<in> set ?rest \<Longrightarrow> w \<in> set wanted" by (simp add: bulk_miss_def)
      then show "(?hit ++ (\<lambda>w. if w \<in> set ?rest then ?v w else None)) w = (if w \<in> set wanted then ?v w else None)"
        using known[of w] by (auto simp: map_add_def split: option.splits)
    qed
    show ?thesis
    proof (cases "?rest = []")
      case True
      with False assms(3) have "answer = ?hit" "c' = ?c1" by (simp_all add: cached_find_endpoints_bulk_def Let_def)
      moreover have "?hit = (\<lambda>w. if w \<in> set wanted then ?v w else None)" using known True by auto
      ultimately show ?thesis using assms(1) ask[of wanted] by simp
    next
      case more: False
      let ?found = "map_option details \<circ> find_endpoints_bulk (db_of c) vid OpenApi ?rest"
      from False more assms(3) have "answer = ?hit ++ ?found"
        and c': "c' = foldl (keep_found vid OpenApi ?found) (record_miss ?c1) ?rest"
        by (auto simp: cached_find_endpoints_bulk_def Let_def)
      moreover have "coherent c' \<and> inner c' = inner (record_miss ?c1)"
      proof (unfold c', rule keep_found_ok[where d = "db_of c" and ws = ?rest])
        show "?found w = (if w \<in> set ?rest then ?v w else None)" for w using fun_cong[OF ask, of ?rest w] .
        show "coherent (record_miss ?c1)" using assms(1) by simp
        show "\<not> is_disabled (record_miss ?c1)" using False by (simp add: is_disabled_def record_miss_def)
      qed simp
      ultimately show ?thesis using all unfolding ask by simp
    qed
  qed
qed


section \<open>Writing\<close>

text \<open>While the caches are off nothing in them can go stale.\<close>

lemma coherent_off: "coherent c \<Longrightarrow> is_disabled c \<Longrightarrow> coherent (with_db d c)" "coherent c \<Longrightarrow> is_disabled c \<Longrightarrow> coherent (with_auth a c)"
  by (simp_all add: cache_defs with_db_def with_auth_def openapi_entries_def within_def)

lemma coherent_unless:
  assumes "coherent c" and "\<not> is_disabled c \<Longrightarrow> coherent (f (with_db d c))"
  shows "coherent (unless_disabled f (with_db d c))"
proof -
  have "is_disabled (with_db d c) = is_disabled c" by (simp add: with_db_def is_disabled_def)
  with assms coherent_off(1)[of c d] show ?thesis by (auto simp: unless_disabled_def)
qed

text \<open>The tables each cache was filled from.\<close>

definition same_lines :: "db \<Rightarrow> db \<Rightarrow> bool" where
  "same_lines d d' \<longleftrightarrow> endpoints d' = endpoints d \<and> spec_versions d' = spec_versions d"

definition same_producers :: "db \<Rightarrow> db \<Rightarrow> bool" where
  "same_producers d d' \<longleftrightarrow> services d' = services d \<and> service_metas d' = service_metas d \<and> settings d' = settings d"

definition same_edges :: "db \<Rightarrow> db \<Rightarrow> bool" where
  "same_edges d d' \<longleftrightarrow> dependencies d' = dependencies d \<and> clients d' = clients d"

lemma views_of_lines:
  "same_lines d d' \<Longrightarrow> view_endpoint d' = view_endpoint d" "same_lines d d' \<Longrightarrow> view_meta d' = view_meta d"
  "same_lines d d' \<Longrightarrow> get_spec_content d' = get_spec_content d"
  "same_lines d d' \<Longrightarrow> get_endpoints_for_version d' = get_endpoints_for_version d"
  by (auto simp: same_lines_def view_endpoint_def view_meta_def get_spec_content_def get_endpoints_for_version_def fun_eq_iff)

lemma views_of_producers:
  "same_producers d d' \<Longrightarrow> repo_list_producers_detailed d' = repo_list_producers_detailed d"
  "same_producers d d' \<Longrightarrow> find_service d' = find_service d" "same_producers d d' \<Longrightarrow> list_producers d' = list_producers d"
  "same_producers d d' \<Longrightarrow> get_setting d' = get_setting d"
  by (auto simp: same_producers_def repo_list_producers_detailed_def service_meta_of_def find_service_def list_producers_def get_setting_def fun_eq_iff)

text \<open>A report reads of a version only its Producer, number and stability.\<close>

definition version_face :: "db \<Rightarrow> row_id \<Rightarrow> (row_id \<times> semver \<times> stability) option" where
  "version_face d i = map_option (\<lambda>v. (v_service_id v, v_version v, v_stability v)) (find_version_by_id d i)"

lemma report_of_tables:
  assumes edges: "dependencies d' = dependencies d" and eps: "endpoints d' = endpoints d" and faces: "version_face d' = version_face d"
    and clients: "\<And>x. x \<in> set (dependencies d) \<Longrightarrow> get_client_name d' (dep_client_id x) = get_client_name d (dep_client_id x)"
    and names: "\<And>i f. version_face d i = Some f \<Longrightarrow> get_service_name_by_id d' (fst f) = get_service_name_by_id d (fst f)"
  shows "get_report d' = get_report d"
proof -
  have pinned: "pinned_endpoints d' = pinned_endpoints d" "is_pinned d' = is_pinned d"
    by (auto simp: fun_eq_iff pinned_endpoints_def is_pinned_def eps edges)
  have face: "version_face d' i = version_face d i" for i using faces by simp
  have service: "get_service_name_by_id d' (v_service_id v) = get_service_name_by_id d (v_service_id v)" if "find_version_by_id d i = Some v" for i v
    using names[of i "(v_service_id v, v_version v, v_stability v)"] that by (simp add: version_face_def)
  have rows: "dependency_rows d' x = dependency_rows d x" if "x \<in> set (dependencies d)" for x
    using face[of "dep_spec_version_id x"] service[of "dep_spec_version_id x"]
    by (cases "find_version_by_id d' (dep_spec_version_id x)"; cases "find_version_by_id d (dep_spec_version_id x)")
      (unfold dependency_rows_def clients[OF that] pinned, auto simp: version_face_def split: option.split)
  have unused: "unused_row d' = unused_row d"
  proof
    fix e
    show "unused_row d' e = unused_row d e"
      using face[of "e_spec_version_id e"] service[of "e_spec_version_id e"]
      by (cases "find_version_by_id d' (e_spec_version_id e)"; cases "find_version_by_id d (e_spec_version_id e)")
        (unfold unused_row_def pinned, auto simp: version_face_def)
  qed
  have "map (dependency_rows d') (dependencies d) = map (dependency_rows d) (dependencies d)" using rows by simp
  then show ?thesis by (simp only: get_report_def eps edges unused)
qed

lemma report_of_same_names:
  assumes "same_edges d d'" and "services d' = services d" and "endpoints d' = endpoints d" and "version_face d' = version_face d"
  shows "get_report d' = get_report d"
  using assms by (intro report_of_tables) (simp_all add: same_edges_def get_client_name_def get_service_name_by_id_def)

lemma face_of_lines: "same_lines d d' \<Longrightarrow> version_face d' = version_face d"
  by (simp add: same_lines_def version_face_def find_version_by_id_def fun_eq_iff)

lemma report_same:
  "same_edges d d' \<Longrightarrow> same_lines d d' \<Longrightarrow> services d' = services d \<Longrightarrow> get_report d' = get_report d"
  by (rule report_of_same_names) (auto simp: same_lines_def intro!: face_of_lines)

text \<open>The shapes of a write.\<close>

lemma write_elsewhere:
  assumes "coherent c" and "same_lines (db_of c) d" "same_producers (db_of c) d" "same_edges (db_of c) d"
  shows "coherent (with_db d c)"
  using assms views_of_lines[OF assms(2)] views_of_producers[OF assms(3)] report_same[OF assms(4,2)]
  by (simp add: cache_defs with_db_def same_producers_def)

lemma write_edges:
  assumes "coherent c" and "same_lines (db_of c) d" "same_producers (db_of c) d"
  shows "coherent (drop_report (with_db d c))" "coherent (drop_consumers (with_db d c))"
  using assms views_of_lines[OF assms(2)] views_of_producers[OF assms(3)]
  by (simp_all add: cache_defs with_db_def drop_report_def drop_consumers_def)

lemma write_lines:
  assumes "coherent c" and "same_producers (db_of c) d"
  shows "coherent (invalidate_spec_caches (with_db d c))"
  using assms views_of_producers[OF assms(2)]
  by (simp add: cache_defs with_db_def invalidate_spec_caches_def openapi_entries_def within_def)

lemma write_metas:
  assumes "coherent c" and "same_producers (db_of c) d" "same_edges (db_of c) d" "endpoints d = endpoints (db_of c)"
    and "get_spec_content d = get_spec_content (db_of c)" and "version_face d = version_face (db_of c)"
  shows "coherent (drop_metas (with_db d c))"
proof -
  have "get_report d = get_report (db_of c)"
    by (rule report_of_same_names) (use assms in \<open>simp_all add: same_producers_def\<close>)
  moreover have "view_endpoint d = view_endpoint (db_of c)" "get_endpoints_for_version d = get_endpoints_for_version (db_of c)"
    using assms(4) by (simp_all add: view_endpoint_def get_endpoints_for_version_def fun_eq_iff)
  ultimately show ?thesis using assms(1,5) views_of_producers[OF assms(2)] by (simp add: cache_defs with_db_def drop_metas_def)
qed

lemma write_summaries:
  assumes "coherent c" and "same_lines (db_of c) d" "same_edges (db_of c) d" "services d = services (db_of c)" "settings d = settings (db_of c)"
  shows "coherent (drop_summaries (with_db d c))"
proof -
  have "find_service d = find_service (db_of c)" "list_producers d = list_producers (db_of c)" "get_setting d = get_setting (db_of c)"
    using assms(4,5) by (auto simp: find_service_def list_producers_def get_setting_def)
  with assms(1) views_of_lines[OF assms(2)] report_same[OF assms(3,2,4)] show ?thesis
    by (simp add: cache_defs with_db_def drop_summaries_def)
qed

lemma write_all: "coherent (invalidate_all_caches c)" if "\<not> is_disabled c"
  using that by (simp add: cache_defs invalidate_all_caches_def invalidate_spec_caches_def openapi_entries_def within_def)


text \<open>The schema: unique ids and names, references that resolve, and one endpoint per lookup key.\<close>

definition schema_ok :: "db \<Rightarrow> bool" where
  "schema_ok d \<longleftrightarrow> catalog_inv d \<and> unambiguous d \<and> (\<forall>x \<in> set (dependencies d). dep_client_id x \<in> fst ` set (clients d)) \<and>
     (\<forall>e \<in> set (endpoints d). e_spec_version_id e \<in> v_id ` set (spec_versions d))"

lemmas same_defs = same_lines_def same_producers_def same_edges_def

lemma outbox_same: "same_producers d (write_outbox evs d)"
  using write_outbox_shape[of evs d] by (auto simp: same_producers_def)

lemma upsert_same:
  assumes "upsert_spec_version p d = Inr (vid, d')"
  shows "same_producers d d'"
proof -
  from assms obtain d1 where row: "upsert_row p d = Inr (vid, d1)"
    and d': "d' = write_outbox (up_outbox p) (replace_endpoints vid (up_endpoints p) d1)" by (rule upsert_Inr)
  have "same_producers d (replace_endpoints vid (up_endpoints p) d1)"
    using upsert_row_Inr[OF row] by (auto simp: same_producers_def replace_endpoints_def)
  then show ?thesis using outbox_same[of "replace_endpoints vid (up_endpoints p) d1" "up_outbox p"]
    by (simp add: d' same_producers_def)
qed

lemma w_upsert:
  assumes "coherent c" and "cached_upsert_spec_version p c = (answer, c')"
  shows "coherent c'"
proof (cases "upsert_spec_version p (db_of c)")
  case (Inl e)
  have "with_db (db_of c) c = c" by (simp add: with_db_def)
  moreover have "coherent (invalidate_spec_caches (with_db (db_of c) c))" by (rule write_lines[OF assms(1)]) (simp add: same_defs)
  ultimately show ?thesis using assms Inl by (auto simp: cached_upsert_spec_version_def unless_disabled_def)
next
  case (Inr x)
  obtain vid d where x: "x = (vid, d)" by (cases x)
  have "coherent (unless_disabled invalidate_spec_caches (with_db d c))"
    by (rule coherent_unless[OF assms(1)], rule write_lines[OF assms(1)], rule upsert_same) (use Inr x in simp)
  with assms(2) Inr x show ?thesis by (auto simp: cached_upsert_spec_version_def)
qed

lemma w_rewrite: "coherent c \<Longrightarrow> coherent (cached_rewrite_spec_text vid content hash texts c)"
proof -
  assume ok: "coherent c"
  have "same_producers d (foldl (\<lambda>d (eid, text). d\<lparr>endpoints := update_where (\<lambda>e. e_id e = Some eid \<and> e_spec_version_id e = vid)
      (e_yaml_content_update (\<lambda>_. text)) (endpoints d)\<rparr>) d texts)" for d
    by (induction texts arbitrary: d) (simp_all add: same_producers_def case_prod_beta)
  then have "same_producers d (rewrite_spec_text vid content hash texts d)" for d
    by (auto simp: rewrite_spec_text_def Let_def same_producers_def)
  then show ?thesis unfolding cached_rewrite_spec_text_def by (intro coherent_unless write_lines ok)
qed

text \<open>Removing no version changes nothing.\<close>

lemma remove_none:
  assumes "\<And>v. v \<in> set (spec_versions d) \<Longrightarrow> \<not> gone v"
  shows "remove_versions gone d = d"
proof -
  have "filter gone (spec_versions d) = []" using assms by (simp add: filter_empty_conv)
  then show ?thesis using delete_where_id[of "spec_versions d" gone, OF assms]
    by (simp add: remove_versions_def Let_def delete_where_def)
qed

lemma remove_same: "same_producers d (remove_versions gone d)"
  by (simp add: same_producers_def remove_versions_def Let_def)

lemma w_delete_version:
  assumes "coherent c" and "cached_delete_spec_version vid now c = (answer, c')"
  shows "coherent c'"
proof -
  obtain existed d where run: "delete_spec_version vid now (db_of c) = (existed, d)" by (cases "delete_spec_version vid now (db_of c)")
  have "same_producers (db_of c) d"
    using run remove_same by (auto simp: delete_spec_version_def same_producers_def remove_versions_def Let_def)
  then have hit: "coherent (unless_disabled invalidate_spec_caches (with_db d c))"
    by (intro coherent_unless write_lines assms(1))
  have "coherent (with_db d c)" if "\<not> existed"
  proof -
    have "\<not> (v_id v = vid)" if "v \<in> set (spec_versions (db_of c))" for v
      using run \<open>\<not> existed\<close> that by (auto simp: delete_spec_version_def exists_row_iff)
    then have "same_lines (db_of c) d" "same_edges (db_of c) d" "same_producers (db_of c) d"
      using run remove_none[of "db_of c" "\<lambda>v. v_id v = vid"]
      by (auto simp: delete_spec_version_def same_defs remove_versions_def Let_def delete_where_id)
    with assms(1) show ?thesis by (intro write_elsewhere)
  qed
  with hit run assms(2) show ?thesis by (auto simp: cached_delete_spec_version_def Let_def split: if_splits)
qed

lemma w_expire:
  assumes "coherent c" and "cached_delete_expired_snapshots cutoff c = (answer, c')"
  shows "coherent c'"
proof -
  obtain n d where run: "delete_expired_snapshots cutoff (db_of c) = (n, d)" by (cases "delete_expired_snapshots cutoff (db_of c)")
  have "same_producers (db_of c) d"
    using run by (auto simp: delete_expired_snapshots_def same_producers_def remove_versions_def Let_def)
  then have hit: "coherent (unless_disabled invalidate_spec_caches (with_db d c))"
    by (intro coherent_unless write_lines assms(1))
  have "coherent (with_db d c)" if "n = 0"
  proof -
    have "\<not> expired_snapshot cutoff v" if "v \<in> set (spec_versions (db_of c))" for v
      using run \<open>n = 0\<close> that by (auto simp: delete_expired_snapshots_def Let_def filter_empty_conv)
    then have "remove_versions (expired_snapshot cutoff) (db_of c) = db_of c" by (rule remove_none)
    then have "same_lines (db_of c) d" "same_edges (db_of c) d" "same_producers (db_of c) d"
      using run by (auto simp: delete_expired_snapshots_def same_defs Let_def)
    with assms(1) show ?thesis by (intro write_elsewhere)
  qed
  with hit run assms(2) show ?thesis by (auto simp: cached_delete_expired_snapshots_def Let_def split: if_splits)
qed

lemma column_write:
  assumes "\<And>r. v_id (f r) = v_id r" "\<And>r. v_content (f r) = v_content r" "\<And>r. v_service_id (f r) = v_service_id r"
    "\<And>r. v_version (f r) = v_version r" "\<And>r. v_stability (f r) = v_stability r"
    and "spec_versions d' = update_where p f (spec_versions d)"
  shows "get_spec_content d' = get_spec_content d" "version_face d' = version_face d"
proof -
  have find: "find (\<lambda>v. v_id v = i) (update_where p f rs) = map_option (\<lambda>r. if p r then f r else r) (find (\<lambda>v. v_id v = i) rs)" for i rs
    by (rule find_update_where) (simp add: assms(1))
  have "map_option v_content (map_option (\<lambda>r. if p r then f r else r) x) = map_option v_content x"
    "map_option (\<lambda>v. (v_service_id v, v_version v, v_stability v)) (map_option (\<lambda>r. if p r then f r else r) x) =
     map_option (\<lambda>v. (v_service_id v, v_version v, v_stability v)) x" for x
    using assms(1-5) by (cases x; simp)+
  then show "get_spec_content d' = get_spec_content d" "version_face d' = version_face d"
    by (simp_all add: fun_eq_iff get_spec_content_def version_face_def find_version_by_id_def assms(6) find)
qed

lemma w_touches:
  assumes "coherent c"
  shows "coherent (cached_touch_spec_version_required vid now c)" "coherent (cached_touch_spec_version_provided vid now c)"
    "coherent (cached_touch_spec_version_trunk vid now c)"
proof -
  let ?r = "touch_spec_version_required vid now (db_of c)" and ?p = "touch_spec_version_provided vid now (db_of c)"
    and ?t = "touch_spec_version_trunk vid now (db_of c)"
  have r: "get_spec_content ?r = get_spec_content (db_of c)" "version_face ?r = version_face (db_of c)"
    by (rule column_write; simp add: touch_spec_version_required_def)+
  have p: "get_spec_content ?p = get_spec_content (db_of c)" "version_face ?p = version_face (db_of c)"
    by (rule column_write; simp add: touch_spec_version_provided_def)+
  have shape: "spec_versions ?t = update_where (\<lambda>r. v_id r = vid) (v_trunk_provided_at_update (\<lambda>_. Some now)) (spec_versions (db_of c))"
    by (simp add: touch_spec_version_trunk_def Let_def split: option.split)
  have t: "get_spec_content ?t = get_spec_content (db_of c)" "version_face ?t = version_face (db_of c)"
    by (rule column_write[OF _ _ _ _ _ shape]; simp)+
  show "coherent (cached_touch_spec_version_required vid now c)"
    unfolding cached_touch_spec_version_required_def
    by (intro coherent_unless write_metas assms r) (simp_all add: same_defs touch_spec_version_required_def)
  show "coherent (cached_touch_spec_version_provided vid now c)"
    unfolding cached_touch_spec_version_provided_def
    by (intro coherent_unless write_metas assms p) (simp_all add: same_defs touch_spec_version_provided_def)
  show "coherent (cached_touch_spec_version_trunk vid now c)"
    unfolding cached_touch_spec_version_trunk_def
    by (intro coherent_unless write_metas assms t) (simp_all add: same_defs touch_spec_version_trunk_def Let_def split: option.split)
qed

lemma w_close_trunk:
  assumes "coherent c" and "cached_close_expired_trunk_data cutoff now c = (answer, c')"
  shows "coherent c'"
proof -
  let ?d = "snd (close_expired_trunk_data cutoff now (db_of c))"
  have same: "get_spec_content ?d = get_spec_content (db_of c)" "version_face ?d = version_face (db_of c)"
    by (rule column_write; simp add: close_expired_trunk_data_def)+
  have "coherent (drop_metas (with_db ?d c))"
    by (intro write_metas assms(1) same) (simp_all add: same_defs close_expired_trunk_data_def)
  then have "coherent ((with_db ?d c)\<lparr>report_cache := Map.empty, spec_version_cache := Map.empty, services_cache := Map.empty\<rparr>)"
    by (simp add: cache_defs drop_metas_def)
  then have "coherent (unless_disabled (\<lambda>c. c\<lparr>report_cache := Map.empty, spec_version_cache := Map.empty, services_cache := Map.empty\<rparr>) (with_db ?d c))"
    by (intro coherent_unless assms(1))
  with assms(2) show ?thesis by (auto simp: cached_close_expired_trunk_data_def case_prod_beta)
qed


lemma w_ensure_service:
  assumes "coherent c" and "schema_ok (db_of c)" and "cached_ensure_service nm c = (answer, c')"
  shows "coherent c'"
proof -
  obtain sid d where run: "ensure_service nm (db_of c) = (sid, d)" by (cases "ensure_service nm (db_of c)")
  have inv: "catalog_inv (db_of c)" using assms(2) by (simp add: schema_ok_def)
  obtain more where d: "services d = services (db_of c) @ more"
    using run by (auto simp: ensure_service_def split: option.splits)
  have same: "same_lines (db_of c) d" "same_edges (db_of c) d" "settings d = settings (db_of c)"
    using run by (auto simp: ensure_service_def same_defs split: option.splits)
  have ids: "find_service d n = Some s" if "find_service (db_of c) n = Some s" for n s
    using that by (auto simp: find_service_def d find_append)
  have "get_report d = get_report (db_of c)"
  proof (rule report_of_tables)
    show "version_face d = version_face (db_of c)" using same(1) by (rule face_of_lines)
    show "get_service_name_by_id d (fst f) = get_service_name_by_id (db_of c) (fst f)" if "version_face (db_of c) i = Some f" for i f
    proof -
      note face = that
      obtain v where find: "find (\<lambda>v. v_id v = i) (spec_versions (db_of c)) = Some v" and v: "fst f = v_service_id v"
        using face by (cases "find (\<lambda>v. v_id v = i) (spec_versions (db_of c))") (auto simp: version_face_def find_version_by_id_def)
      have "v \<in> set (spec_versions (db_of c))" using find_Some_in[OF find] by blast
      then have "fst f \<in> fst ` set (services (db_of c))" using inv v by (simp add: catalog_inv_def versions_ok_def)
      then obtain x where "find (\<lambda>x. fst x = fst f) (services (db_of c)) = Some x"
        by (cases "find (\<lambda>x. fst x = fst f) (services (db_of c))") (auto simp: find_None_not)
      then show ?thesis by (simp add: get_service_name_by_id_def d find_append)
    qed
  qed (use same in \<open>simp_all add: same_defs get_client_name_def\<close>)
  with assms(1) views_of_lines[OF same(1)] same(3) ids ensure_service_known(1)[OF run inv]
  have "coherent ((with_db d c)\<lparr>service_id_cache := (service_id_cache c)(nm \<mapsto> sid), services_list_cache := Map.empty, services_cache := Map.empty\<rparr>)"
    if "\<not> is_disabled c"
    using that by (simp add: cache_defs with_db_def get_setting_def within_def)
  then have "coherent (unless_disabled (\<lambda>c. c\<lparr>service_id_cache := (service_id_cache c)(nm \<mapsto> sid), services_list_cache := Map.empty,
              services_cache := Map.empty\<rparr>) (with_db d c))"
    by (intro coherent_unless assms(1)) (simp add: with_db_def)
  with run assms(3) show ?thesis by (auto simp: cached_ensure_service_def)
qed

lemma w_ensure_client:
  assumes "coherent c" and "schema_ok (db_of c)" and "cached_ensure_client nm c = (answer, c')"
  shows "coherent c'"
proof -
  obtain cid d where run: "ensure_client nm (db_of c) = (cid, d)" by (cases "ensure_client nm (db_of c)")
  obtain more where d: "clients d = clients (db_of c) @ more"
    using run by (auto simp: ensure_client_def split: option.splits)
  have same: "same_lines (db_of c) d" "same_producers (db_of c) d" "dependencies d = dependencies (db_of c)"
    using run by (auto simp: ensure_client_def same_defs split: option.splits)
  have "get_report d = get_report (db_of c)"
  proof (rule report_of_tables)
    show "version_face d = version_face (db_of c)" using same(1) by (rule face_of_lines)
    show "get_client_name d (dep_client_id x) = get_client_name (db_of c) (dep_client_id x)" if "x \<in> set (dependencies (db_of c))" for x
    proof -
      have "dep_client_id x \<in> fst ` set (clients (db_of c))" using assms(2) that by (simp add: schema_ok_def)
      then obtain y where "find (\<lambda>y. fst y = dep_client_id x) (clients (db_of c)) = Some y"
        by (cases "find (\<lambda>y. fst y = dep_client_id x) (clients (db_of c))") (auto simp: find_None_not)
      then show ?thesis by (simp add: get_client_name_def d find_append)
    qed
  qed (use same in \<open>simp_all add: same_defs get_service_name_by_id_def\<close>)
  with assms(1) views_of_lines[OF same(1)] views_of_producers[OF same(2)]
  have "coherent ((with_db d c)\<lparr>clients_list_cache := Map.empty\<rparr>)" by (simp add: cache_defs with_db_def)
  then have "coherent (unless_disabled (\<lambda>c. c\<lparr>clients_list_cache := Map.empty\<rparr>) (with_db d c))" by (intro coherent_unless assms(1))
  with run assms(3) show ?thesis by (auto simp: cached_ensure_client_def)
qed

text \<open>Writes to the edges of the graph and what rides on a report.\<close>

lemma coherent_unless_edges:
  assumes "coherent c" and "same_lines (db_of c) d" "same_producers (db_of c) d"
  shows "coherent (unless_disabled drop_report (with_db d c))" "coherent (unless_disabled drop_consumers (with_db d c))"
  by (rule coherent_unless[OF assms(1)], rule write_edges[OF assms])+

lemma find_filter_kept: "find p xs = Some x \<Longrightarrow> q x \<Longrightarrow> find p (filter q xs) = Some x"
  by (induction xs) (auto split: if_splits)

lemma w_edges:
  assumes "coherent c"
  shows "coherent (cached_record_dependencies_bulk ds evs now c)" "coherent (cached_record_trunk_pins ps now c)"
    "coherent (cached_add_service_tags sid ts c)" "coherent (cached_remove_service_tag sid tag c)"
    "coherent (snd (cached_close_trunk_pins sid t now c))" "coherent (cached_reconcile_harvested cid cname trunk subs now c)"
    "coherent (snd (cached_reconcile_periphery sys trunk resources now evs c))" "coherent (cached_delete_system_context sys c)"
    "coherent (snd (cached_delete_all_clients c))" "coherent (snd (cached_delete_consumer nm now c))"
  unfolding cached_record_dependencies_bulk_def cached_record_trunk_pins_def cached_add_service_tags_def cached_remove_service_tag_def
    cached_close_trunk_pins_def cached_reconcile_harvested_def cached_reconcile_periphery_def cached_delete_system_context_def
    cached_delete_all_clients_def cached_delete_consumer_def case_prod_beta Let_def snd_conv
  by (rule coherent_unless_edges[OF assms];
      simp add: same_defs record_dependencies_bulk_def insert_webhook_events_def record_trunk_pins_def add_service_tags_def
        remove_service_tag_def close_trunk_pins_for_service_api_def reconcile_harvested_subscriptions_def reconcile_periphery_def
        delete_system_context_def repo_delete_all_clients_def delete_consumer_def Let_def split: option.split)+

lemma w_context:
  assumes "coherent c" and "cached_upsert_system_context sys ctx c = (answer, c')"
  shows "coherent c'"
proof -
  let ?d = "snd (upsert_system_context sys ctx (db_of c))"
  have same: "same_lines (db_of c) ?d" "same_producers (db_of c) ?d" "same_edges (db_of c) ?d"
    by (simp_all add: upsert_system_context_def same_defs)
  have "coherent (unless_disabled drop_report (with_db ?d c))" "coherent (with_db ?d c)"
    by (intro coherent_unless_edges[OF assms(1)] write_elsewhere[OF assms(1)] same)+
  with assms(2) show ?thesis by (auto simp: cached_upsert_system_context_def case_prod_beta Let_def split: if_splits)
qed

lemma w_stale:
  assumes "coherent c" and "cached_delete_stale_dependencies cutoff c = (answer, c')"
  shows "coherent c'"
proof -
  let ?d = "snd (delete_stale_dependencies cutoff (db_of c))"
  have same: "same_lines (db_of c) ?d" "same_producers (db_of c) ?d"
    by (simp_all add: delete_stale_dependencies_def same_defs)
  have "coherent (with_db ?d c)" if "filter (\<lambda>x. dep_last_seen_at x < cutoff) (dependencies (db_of c)) = []"
    using that by (intro write_elsewhere[OF assms(1)] same)
      (auto simp: delete_stale_dependencies_def same_edges_def filter_empty_conv intro: delete_where_id)
  with coherent_unless_edges(1)[OF assms(1) same] assms(2) show ?thesis
    by (auto simp: cached_delete_stale_dependencies_def delete_stale_dependencies_def Let_def split: if_splits)
qed

lemma w_producer_columns:
  assumes "coherent c"
  shows "coherent (cached_update_producer_metadata nm icon domain c)" "coherent (snd (cached_set_producer_external nm external c))"
  unfolding cached_update_producer_metadata_def cached_set_producer_external_def case_prod_beta Let_def snd_conv
  by (intro coherent_unless assms write_summaries;
      simp add: same_defs update_producer_metadata_def repo_set_producer_external_def set_service_meta_def split: option.split)+

lemma w_setting: "coherent c \<Longrightarrow> coherent (cached_set_setting key v c)"
proof -
  assume ok: "coherent c"
  let ?d = "set_setting key v (db_of c)"
  have lines: "same_lines (db_of c) ?d" and edges: "same_edges (db_of c) ?d" and services: "services ?d = services (db_of c)"
    "service_metas ?d = service_metas (db_of c)"
    by (simp_all add: set_setting_def same_defs)
  have "get_setting ?d k = get_setting (db_of c) k" if "k \<noteq> key" for k
    using that find_filter[of "settings (db_of c)" "\<lambda>s. fst s = k" "\<lambda>s. fst s \<noteq> key"]
    by (auto simp: get_setting_def set_setting_def delete_where_def find_append split: option.split)
  moreover have "find_service ?d = find_service (db_of c)" "list_producers ?d = list_producers (db_of c)"
    "repo_list_producers_detailed ?d = repo_list_producers_detailed (db_of c)"
    using services by (auto simp: find_service_def list_producers_def repo_list_producers_detailed_def service_meta_of_def fun_eq_iff)
  ultimately show ?thesis using ok views_of_lines[OF lines] report_same[OF edges lines services(1)]
    by (simp add: cache_defs cached_set_setting_def with_db_def Let_def within_def)
qed

lemma w_delete_producer:
  assumes "coherent c" and "schema_ok (db_of c)" and "cached_delete_producer nm now c = (answer, c')"
  shows "coherent c'"
proof -
  let ?d = "snd (delete_producer nm now (db_of c))"
  have inv: "catalog_inv (db_of c)" using assms(2) by (simp add: schema_ok_def)
  have other: "find_service ?d n = Some s" if "find_service (db_of c) n = Some s" "n \<noteq> nm" for n s
  proof (cases "find_service (db_of c) nm")
    case None
    then show ?thesis using that(1) by (simp add: delete_producer_def)
  next
    case (Some sid)
    have "(s, n) \<in> set (services (db_of c))" "(sid, nm) \<in> set (services (db_of c))"
      using inv that(1) Some by (simp_all add: catalog_inv_def find_service_Some)
    moreover have "inj_on fst (set (services (db_of c)))" using inv by (simp add: catalog_inv_def ids_ok_def distinct_map)
    ultimately have "s \<noteq> sid" using that(2) by (auto dest: inj_onD[of fst _ "(s, n)" "(sid, nm)"])
    moreover have "services ?d = delete_where (\<lambda>x. fst x = sid) (services (db_of c))"
      using Some by (simp add: delete_producer_def Let_def)
    moreover have "find (\<lambda>x. snd x = n) (services (db_of c)) = Some (s, n)"
      using that(1) find_Some_in[of "\<lambda>x. snd x = n" "services (db_of c)"] by (auto simp: find_service_def)
    ultimately show ?thesis by (simp add: find_service_def delete_where_def find_filter_kept)
  qed
  have "settings ?d = settings (db_of c)"
    by (simp add: delete_producer_def remove_versions_def Let_def split: option.split)
  then have "get_setting ?d = get_setting (db_of c)" by (simp add: get_setting_def fun_eq_iff)
  with assms(1) other
  have "coherent ((invalidate_spec_caches ((with_db ?d c)\<lparr>service_id_cache := (service_id_cache c)(nm := None)\<rparr>))
         \<lparr>services_list_cache := Map.empty, services_cache := Map.empty\<rparr>)"
    by (simp add: cache_defs with_db_def invalidate_spec_caches_def openapi_entries_def within_def)
  then have "coherent (unless_disabled (\<lambda>c. (invalidate_spec_caches (c\<lparr>service_id_cache := (service_id_cache c)(nm := None)\<rparr>))
         \<lparr>services_list_cache := Map.empty, services_cache := Map.empty\<rparr>) (with_db ?d c))"
    by (intro coherent_unless assms(1)) (simp add: with_db_def)
  with assms(3) show ?thesis by (auto simp: cached_delete_producer_def case_prod_beta)
qed

lemma w_clearances:
  assumes "coherent c"
  shows "coherent (snd (cached_delete_all_services c))" "coherent (cached_nuke_database keep c)"
proof -
  have all: "coherent (unless_disabled invalidate_all_caches (with_db d c))" for d
    by (intro coherent_unless assms write_all) (simp add: with_db_def is_disabled_def)
  then show "coherent (snd (cached_delete_all_services c))" by (simp add: cached_delete_all_services_def case_prod_beta)
  have off: "is_disabled (with_auth a (with_db d c)) = is_disabled c" for a d by (simp add: with_db_def with_auth_def is_disabled_def)
  have "coherent (unless_disabled invalidate_all_caches (with_auth a (with_db d c)))" for a d
  proof (cases "is_disabled c")
    case True
    have "coherent (with_db d c)" "is_disabled (with_db d c)" using True assms coherent_off(1) by (auto simp: with_db_def is_disabled_def)
    then have "coherent (with_auth a (with_db d c))" by (rule coherent_off(2))
    with True off show ?thesis by (simp add: unless_disabled_def)
  next
    case False
    with off write_all show ?thesis by (simp add: unless_disabled_def)
  qed
  then show "coherent (cached_nuke_database keep c)" by (simp add: cached_nuke_database_def)
qed


text \<open>Writes to roles, groups and accounts.\<close>

lemma write_auth:
  assumes "coherent c" and "groups a = groups (auth_of c)" "group_roles a = group_roles (auth_of c)"
  shows "coherent (with_auth a c)" "coherent (forget_roles uid (with_auth a c))"
    "coherent ((with_auth a c)\<lparr>effective_roles_cache := Map.empty\<rparr>)"
proof -
  have "list_groups a = list_groups (auth_of c)" "list_group_roles a = list_group_roles (auth_of c)"
    using assms(2,3) by (auto simp: list_groups_def list_group_roles_def)
  with assms(1) show "coherent (with_auth a c)" "coherent (forget_roles uid (with_auth a c))"
      "coherent ((with_auth a c)\<lparr>effective_roles_cache := Map.empty\<rparr>)"
    by (simp_all add: cache_defs with_auth_def forget_roles_def)
qed

lemma write_groups:
  assumes "coherent c" and "group_roles a = group_roles (auth_of c)"
  shows "coherent (forget_group_list (with_auth a c))"
proof -
  have "list_group_roles a = list_group_roles (auth_of c)" using assms(2) by (auto simp: list_group_roles_def)
  with assms(1) show ?thesis by (simp add: cache_defs with_auth_def forget_group_list_def within_def)
qed

lemma write_group_roles:
  assumes "coherent c" and "filter (\<lambda>x. fst x \<noteq> gid) (group_roles a) = filter (\<lambda>x. fst x \<noteq> gid) (group_roles (auth_of c))"
  shows "groups a = groups (auth_of c) \<Longrightarrow> coherent (forget_group gid (with_auth a c))"
    "coherent (forget_group gid (forget_group_list (with_auth a c)))"
proof -
  have one: "filter (\<lambda>x. fst x = g) rs = filter (\<lambda>x. fst x = g) (filter (\<lambda>x. fst x \<noteq> gid) rs)" if "g \<noteq> gid" for g and rs :: "(row_id \<times> string) list"
    using that by (induction rs) auto
  have other: "list_group_roles a g = list_group_roles (auth_of c) g" if "g \<noteq> gid" for g
    unfolding list_group_roles_def using one[OF that, of "group_roles a"] one[OF that, of "group_roles (auth_of c)"] assms(2) by simp
  then show "coherent (forget_group gid (forget_group_list (with_auth a c)))"
    using assms(1) by (simp add: cache_defs with_auth_def forget_group_def forget_group_list_def within_def)
  show "coherent (forget_group gid (with_auth a c))" if "groups a = groups (auth_of c)"
    using that assms(1) other by (simp add: cache_defs with_auth_def forget_group_def within_def list_groups_def)
qed

lemma other_group_roles: "filter (\<lambda>x. fst x \<noteq> gid) (foldl (\<lambda>t r. insert_or_ignore (gid, r) t) rs xs) = filter (\<lambda>x. fst x \<noteq> gid) rs"
  by (induction xs arbitrary: rs) (auto simp: insert_or_ignore_def)

lemma drop_users_groups [simp]: "groups (drop_users p a) = groups a" "group_roles (drop_users p a) = group_roles a"
  by (simp_all add: drop_users_def Let_def)

lemma w_roles:
  assumes "coherent c"
  shows "coherent (snd (cached_grant_user_role uid r c))" "coherent (snd (cached_revoke_user_role uid r c))"
    "coherent (snd (cached_add_group_member gid uid c))" "coherent (snd (cached_remove_group_member gid uid c))"
    "coherent (snd (cached_create_group nm src c))" "coherent (snd (cached_rename_group gid nm c))"
    "coherent (snd (cached_delete_user uid c))" "coherent (snd (cached_delete_all_non_admin_users spare c))"
  unfolding cached_grant_user_role_def cached_revoke_user_role_def cached_add_group_member_def cached_remove_group_member_def
    cached_create_group_def cached_rename_group_def cached_delete_user_def cached_delete_all_non_admin_users_def if_written_def
  using assms
  by (auto simp: repo_grant_user_role_def repo_revoke_user_role_def repo_add_group_member_def repo_remove_group_member_def
      repo_create_group_def repo_rename_group_def repo_delete_user_def delete_all_non_admin_users_def Let_def
      split: sum.splits option.splits if_splits intro!: write_auth write_groups)

lemma w_groups:
  assumes "coherent c"
  shows "coherent (snd (cached_delete_group gid c))" "coherent (snd (cached_set_group_roles gid rs c))" "coherent (cached_merge_user_into from into c)"
proof -
  show "coherent (snd (cached_delete_group gid c))"
    using write_group_roles(2)[OF assms, of gid "snd (repo_delete_group gid (auth_of c))"]
    by (simp add: cached_delete_group_def if_written_def repo_delete_group_def delete_where_def)
  show "coherent (snd (cached_set_group_roles gid rs c))"
    using write_group_roles(1)[OF assms, of gid "(auth_of c)\<lparr>group_roles := foldl (\<lambda>t r. insert_or_ignore (gid, r) t)
        (delete_where (\<lambda>x. fst x = gid) (group_roles (auth_of c))) rs\<rparr>"] assms
    by (simp add: cached_set_group_roles_def if_written_def repo_set_group_roles_def other_group_roles delete_where_def)
  let ?a = "merge_user_into from into (auth_of c)"
  have same: "groups ?a = groups (auth_of c)" "group_roles ?a = group_roles (auth_of c)"
    by (simp_all add: merge_user_into_def)
  show "coherent (cached_merge_user_into from into c)"
    using write_auth[OF assms same] by (auto simp: cached_merge_user_into_def unless_disabled_def)
qed

end
