(* ===== verification/Cache_Calls.thy ===== *)
theory Cache_Calls
  imports Cache
begin

text \<open>
  The caching repository as its callers use it: each call through the caches
  beside the same call on the database, and sequences of calls. Between two
  calls a cache may lose any entries (time to live, capacity).
\<close>

section \<open>Calls\<close>

text \<open>The cached reads.\<close>

datatype read_op =
  FindSpecVersion row_id api_type semver | GetSpecContent row_id | FindService string | GetEndpoints row_id
| FindEndpoint row_id api_type string string | FindBulk row_id api_type "(string \<times> string) list" | GetReport | ListProducers
| ListProducersDetailed | ListConsumers | GetSetting string | EffectiveRoles row_id | ListGroups | ListGroupRoles row_id

text \<open>Writes to lines, Producers and settings.\<close>

datatype catalog_op =
  Upsert upsert_params | Rewrite row_id string string "(row_id \<times> string) list" | DeleteSpecVersion row_id stamp
| TouchRequired row_id stamp | TouchProvided row_id stamp | TouchTrunk row_id stamp | Expire stamp | CloseTrunk stamp stamp
| EnsureService string | DropProducer string stamp | DeleteAllServices | Nuke "nat option"
| UpdateMetadata string "string option" "string option" | SetExternal string bool | SetSetting string string

text \<open>Writes to what the dependency report shows.\<close>

datatype graph_op =
  EnsureClient string | RecordDependencies "dependency_row list" "new_webhook_event list" stamp
| RecordTrunkPins "pin_params list" stamp | DeleteAllClients | DropConsumer string stamp | DeleteStale stamp
| AddTags row_id "string list" | RemoveTag row_id string | CloseTrunkPins row_id api_type stamp
| Harvest row_id string bool "harvested_sub_input list" stamp | Periphery string bool "string list" stamp "new_webhook_event list"
| UpsertContext string system_context | DeleteContext string

text \<open>Writes to accounts, groups and roles.\<close>

datatype account_op =
  GrantRole row_id string | RevokeRole row_id string | CreateGroup string group_source | RenameGroup row_id string | DeleteGroup row_id
| SetGroupRoles row_id "string list" | AddMember row_id row_id | RemoveMember row_id row_id | MergeUsers row_id row_id
| DeleteUser row_id | DeleteNonAdmins "string list"

text \<open>What a call returns, tagged by its kind.\<close>

datatype answer =
  AMeta "spec_version_meta option" | AText "string option" | AId "row_id option" | ARecords "endpoint_record list option"
| ADetails "endpoint_details option" | AFound "string \<times> string \<rightharpoonup> endpoint_details" | AReport "dependency_report option"
| ANames "string list option" | ASummaries "producer_summary list option" | ASetting "string option option" | AGroups "group list option"
| AWritten "repository_error + row_id" | AFlag bool | ACount nat | ARow row_id | AVoid "repository_error + unit" | AFlagged "repository_error + bool"
| AGroup "repository_error + group" | ADone

abbreviation tag_answer :: "('a \<Rightarrow> answer) \<Rightarrow> 'a \<times> 's \<Rightarrow> answer \<times> 's" where
  "tag_answer f x \<equiv> (f (fst x), snd x)"

primrec through_read :: "read_op \<Rightarrow> cached \<Rightarrow> answer \<times> cached" where
  "through_read (FindSpecVersion sid t v) c = tag_answer AMeta (cached_find_spec_version sid t v c)"
| "through_read (GetSpecContent vid) c = tag_answer AText (cached_get_spec_content vid c)"
| "through_read (FindService nm) c = tag_answer AId (cached_find_service nm c)"
| "through_read (GetEndpoints vid) c = tag_answer ARecords (cached_get_endpoints_for_version vid c)"
| "through_read (FindEndpoint vid t path m) c = tag_answer ADetails (cached_find_endpoint vid t path m c)"
| "through_read (FindBulk vid t ws) c = tag_answer AFound (cached_find_endpoints_bulk vid t ws c)"
| "through_read GetReport c = tag_answer AReport (cached_get_report c)"
| "through_read ListProducers c = tag_answer ANames (cached_list_producers c)"
| "through_read ListProducersDetailed c = tag_answer ASummaries (cached_list_producers_detailed c)"
| "through_read ListConsumers c = tag_answer ANames (cached_list_consumers c)"
| "through_read (GetSetting k) c = tag_answer ASetting (cached_get_setting k c)"
| "through_read (EffectiveRoles uid) c = tag_answer ANames (cached_effective_stored_roles uid c)"
| "through_read ListGroups c = tag_answer AGroups (cached_list_groups c)"
| "through_read (ListGroupRoles gid) c = tag_answer ANames (cached_list_group_roles gid c)"

primrec through_catalog :: "catalog_op \<Rightarrow> cached \<Rightarrow> answer \<times> cached" where
  "through_catalog (Upsert p) c = tag_answer AWritten (cached_upsert_spec_version p c)"
| "through_catalog (Rewrite vid content h texts) c = (ADone, cached_rewrite_spec_text vid content h texts c)"
| "through_catalog (DeleteSpecVersion vid now) c = tag_answer AFlag (cached_delete_spec_version vid now c)"
| "through_catalog (TouchRequired vid now) c = (ADone, cached_touch_spec_version_required vid now c)"
| "through_catalog (TouchProvided vid now) c = (ADone, cached_touch_spec_version_provided vid now c)"
| "through_catalog (TouchTrunk vid now) c = (ADone, cached_touch_spec_version_trunk vid now c)"
| "through_catalog (Expire cutoff) c = tag_answer ACount (cached_delete_expired_snapshots cutoff c)"
| "through_catalog (CloseTrunk cutoff now) c = tag_answer ACount (cached_close_expired_trunk_data cutoff now c)"
| "through_catalog (EnsureService nm) c = tag_answer ARow (cached_ensure_service nm c)"
| "through_catalog (DropProducer nm now) c = tag_answer AFlag (cached_delete_producer nm now c)"
| "through_catalog DeleteAllServices c = tag_answer ACount (cached_delete_all_services c)"
| "through_catalog (Nuke keep) c = (ADone, cached_nuke_database keep c)"
| "through_catalog (UpdateMetadata nm icon d) c = (ADone, cached_update_producer_metadata nm icon d c)"
| "through_catalog (SetExternal nm ext) c = tag_answer AFlag (cached_set_producer_external nm ext c)"
| "through_catalog (SetSetting k v) c = (ADone, cached_set_setting k v c)"

primrec through_graph :: "graph_op \<Rightarrow> cached \<Rightarrow> answer \<times> cached" where
  "through_graph (EnsureClient nm) c = tag_answer ARow (cached_ensure_client nm c)"
| "through_graph (RecordDependencies ds evs now) c = (ADone, cached_record_dependencies_bulk ds evs now c)"
| "through_graph (RecordTrunkPins ps now) c = (ADone, cached_record_trunk_pins ps now c)"
| "through_graph DeleteAllClients c = tag_answer ACount (cached_delete_all_clients c)"
| "through_graph (DropConsumer nm now) c = tag_answer AFlag (cached_delete_consumer nm now c)"
| "through_graph (DeleteStale cutoff) c = tag_answer ACount (cached_delete_stale_dependencies cutoff c)"
| "through_graph (AddTags sid ts) c = (ADone, cached_add_service_tags sid ts c)"
| "through_graph (RemoveTag sid tag) c = (ADone, cached_remove_service_tag sid tag c)"
| "through_graph (CloseTrunkPins sid t now) c = tag_answer ACount (cached_close_trunk_pins sid t now c)"
| "through_graph (Harvest cid cname trunk subs now) c = (ADone, cached_reconcile_harvested cid cname trunk subs now c)"
| "through_graph (Periphery sys trunk rs now evs) c = tag_answer AFlag (cached_reconcile_periphery sys trunk rs now evs c)"
| "through_graph (UpsertContext sys ctx) c = tag_answer AFlag (cached_upsert_system_context sys ctx c)"
| "through_graph (DeleteContext sys) c = (ADone, cached_delete_system_context sys c)"

primrec through_account :: "account_op \<Rightarrow> cached \<Rightarrow> answer \<times> cached" where
  "through_account (GrantRole uid r) c = tag_answer AVoid (cached_grant_user_role uid r c)"
| "through_account (RevokeRole uid r) c = tag_answer AFlagged (cached_revoke_user_role uid r c)"
| "through_account (CreateGroup nm src) c = tag_answer AGroup (cached_create_group nm src c)"
| "through_account (RenameGroup gid nm) c = tag_answer AFlagged (cached_rename_group gid nm c)"
| "through_account (DeleteGroup gid) c = tag_answer AFlagged (cached_delete_group gid c)"
| "through_account (SetGroupRoles gid rs) c = tag_answer AVoid (cached_set_group_roles gid rs c)"
| "through_account (AddMember gid uid) c = tag_answer AVoid (cached_add_group_member gid uid c)"
| "through_account (RemoveMember gid uid) c = tag_answer AFlagged (cached_remove_group_member gid uid c)"
| "through_account (MergeUsers from into) c = (ADone, cached_merge_user_into from into c)"
| "through_account (DeleteUser uid) c = tag_answer AFlag (cached_delete_user uid c)"
| "through_account (DeleteNonAdmins spare) c = tag_answer ACount (cached_delete_all_non_admin_users spare c)"

text \<open>
  A whole call. \<open>Forward\<close> stands for the writes the file passes on without
  touching a cache, \<open>Rebuild\<close> for a change of the memory limit.
\<close>

datatype repo_op = Read read_op | Catalog catalog_op | Graph graph_op | Account account_op | Rebuild "64 word" | Forward "db \<Rightarrow> db"

primrec through :: "repo_op \<Rightarrow> cached \<Rightarrow> answer \<times> cached" where
  "through (Read op) c = through_read op c"
| "through (Catalog op) c = through_catalog op c"
| "through (Graph op) c = through_graph op c"
| "through (Account op) c = through_account op c"
| "through (Rebuild limit) c = (ADone, rebuild_caches limit c)"
| "through (Forward f) c = (ADone, with_db (f (db_of c)) c)"

text \<open>The same calls on the database itself.\<close>

definition on_db :: "('a \<Rightarrow> answer) \<Rightarrow> (db \<Rightarrow> 'a \<times> db) \<Rightarrow> backend \<Rightarrow> answer \<times> backend" where
  "on_db f w b = (let (x, d) = w (bk_db b) in (f x, b\<lparr>bk_db := d\<rparr>))"

definition on_auth :: "('a \<Rightarrow> answer) \<Rightarrow> (auth_db \<Rightarrow> 'a \<times> auth_db) \<Rightarrow> backend \<Rightarrow> answer \<times> backend" where
  "on_auth f w b = (let (x, a) = w (bk_auth b) in (f x, b\<lparr>bk_auth := a\<rparr>))"

definition attempted :: "(auth_db \<Rightarrow> repository_error + 'a \<times> auth_db) \<Rightarrow> auth_db \<Rightarrow> (repository_error + 'a) \<times> auth_db" where
  "attempted w a = (case w a of Inl e \<Rightarrow> (Inl e, a) | Inr (x, a') \<Rightarrow> (Inr x, a'))"

definition quietly :: "('s \<Rightarrow> 's) \<Rightarrow> 's \<Rightarrow> unit \<times> 's" where "quietly f s = ((), f s)"

primrec direct_read :: "read_op \<Rightarrow> backend \<Rightarrow> answer \<times> backend" where
  "direct_read (FindSpecVersion sid t v) b = (AMeta (find_spec_version (bk_db b) sid t v), b)"
| "direct_read (GetSpecContent vid) b = (AText (get_spec_content (bk_db b) vid), b)"
| "direct_read (FindService nm) b = (AId (find_service (bk_db b) nm), b)"
| "direct_read (GetEndpoints vid) b = (ARecords (Some (get_endpoints_for_version (bk_db b) vid)), b)"
| "direct_read (FindEndpoint vid t path m) b = (ADetails (map_option details (find_endpoint (bk_db b) vid t path m)), b)"
| "direct_read (FindBulk vid t ws) b = (AFound (map_option details \<circ> find_endpoints_bulk (bk_db b) vid t ws), b)"
| "direct_read GetReport b = (AReport (Some (get_report (bk_db b))), b)"
| "direct_read ListProducers b = (ANames (Some (list_producers (bk_db b))), b)"
| "direct_read ListProducersDetailed b = (ASummaries (Some (repo_list_producers_detailed (bk_db b))), b)"
| "direct_read ListConsumers b = (ANames (Some (list_consumers (bk_db b))), b)"
| "direct_read (GetSetting k) b = (ASetting (Some (get_setting (bk_db b) k)), b)"
| "direct_read (EffectiveRoles uid) b = (ANames (Some (effective_stored_roles (bk_auth b) uid)), b)"
| "direct_read ListGroups b = (AGroups (Some (list_groups (bk_auth b))), b)"
| "direct_read (ListGroupRoles gid) b = (ANames (Some (list_group_roles (bk_auth b) gid)), b)"

primrec direct_catalog :: "catalog_op \<Rightarrow> backend \<Rightarrow> answer \<times> backend" where
  "direct_catalog (Upsert p) b = on_db AWritten (\<lambda>d. case upsert_spec_version p d of Inl e \<Rightarrow> (Inl e, d) | Inr (vid, d') \<Rightarrow> (Inr vid, d')) b"
| "direct_catalog (Rewrite vid content h texts) b = on_db (\<lambda>_. ADone) (quietly (rewrite_spec_text vid content h texts)) b"
| "direct_catalog (DeleteSpecVersion vid now) b = on_db AFlag (delete_spec_version vid now) b"
| "direct_catalog (TouchRequired vid now) b = on_db (\<lambda>_. ADone) (quietly (touch_spec_version_required vid now)) b"
| "direct_catalog (TouchProvided vid now) b = on_db (\<lambda>_. ADone) (quietly (touch_spec_version_provided vid now)) b"
| "direct_catalog (TouchTrunk vid now) b = on_db (\<lambda>_. ADone) (quietly (touch_spec_version_trunk vid now)) b"
| "direct_catalog (Expire cutoff) b = on_db ACount (delete_expired_snapshots cutoff) b"
| "direct_catalog (CloseTrunk cutoff now) b = on_db ACount (close_expired_trunk_data cutoff now) b"
| "direct_catalog (EnsureService nm) b = on_db ARow (ensure_service nm) b"
| "direct_catalog (DropProducer nm now) b = on_db AFlag (delete_producer nm now) b"
| "direct_catalog DeleteAllServices b = on_db ACount repo_delete_all_services b"
| "direct_catalog (Nuke keep) b = (ADone, b\<lparr>bk_db := nuke_database keep (bk_db b), bk_auth := nuke_accounts keep (bk_auth b)\<rparr>)"
| "direct_catalog (UpdateMetadata nm icon d) b = on_db (\<lambda>_. ADone) (quietly (update_producer_metadata nm icon d)) b"
| "direct_catalog (SetExternal nm ext) b = on_db AFlag (repo_set_producer_external nm ext) b"
| "direct_catalog (SetSetting k v) b = on_db (\<lambda>_. ADone) (quietly (set_setting k v)) b"

primrec direct_graph :: "graph_op \<Rightarrow> backend \<Rightarrow> answer \<times> backend" where
  "direct_graph (EnsureClient nm) b = on_db ARow (ensure_client nm) b"
| "direct_graph (RecordDependencies ds evs now) b = on_db (\<lambda>_. ADone) (quietly (record_dependencies_bulk ds evs now)) b"
| "direct_graph (RecordTrunkPins ps now) b = on_db (\<lambda>_. ADone) (quietly (record_trunk_pins ps now)) b"
| "direct_graph DeleteAllClients b = on_db ACount repo_delete_all_clients b"
| "direct_graph (DropConsumer nm now) b = on_db AFlag (delete_consumer nm now) b"
| "direct_graph (DeleteStale cutoff) b = on_db ACount (delete_stale_dependencies cutoff) b"
| "direct_graph (AddTags sid ts) b = on_db (\<lambda>_. ADone) (quietly (add_service_tags sid ts)) b"
| "direct_graph (RemoveTag sid tag) b = on_db (\<lambda>_. ADone) (quietly (remove_service_tag sid tag)) b"
| "direct_graph (CloseTrunkPins sid t now) b = on_db ACount (close_trunk_pins_for_service_api sid t now) b"
| "direct_graph (Harvest cid cname trunk subs now) b = on_db (\<lambda>_. ADone) (quietly (reconcile_harvested_subscriptions cid cname trunk subs now)) b"
| "direct_graph (Periphery sys trunk rs now evs) b = on_db AFlag (reconcile_periphery sys trunk rs now evs) b"
| "direct_graph (UpsertContext sys ctx) b = on_db AFlag (upsert_system_context sys ctx) b"
| "direct_graph (DeleteContext sys) b = on_db (\<lambda>_. ADone) (quietly (delete_system_context sys)) b"

primrec direct_account :: "account_op \<Rightarrow> backend \<Rightarrow> answer \<times> backend" where
  "direct_account (GrantRole uid r) b = on_auth AVoid (attempted (repo_grant_user_role uid r)) b"
| "direct_account (RevokeRole uid r) b = on_auth AFlagged (attempted (\<lambda>a. Inr (repo_revoke_user_role uid r a))) b"
| "direct_account (CreateGroup nm src) b = on_auth AGroup (attempted (\<lambda>a. Inr (repo_create_group nm src a))) b"
| "direct_account (RenameGroup gid nm) b = on_auth AFlagged (attempted (repo_rename_group gid nm)) b"
| "direct_account (DeleteGroup gid) b = on_auth AFlagged (attempted (\<lambda>a. Inr (repo_delete_group gid a))) b"
| "direct_account (SetGroupRoles gid rs) b = on_auth AVoid (attempted (repo_set_group_roles gid rs)) b"
| "direct_account (AddMember gid uid) b = on_auth AVoid (attempted (repo_add_group_member gid uid)) b"
| "direct_account (RemoveMember gid uid) b = on_auth AFlagged (attempted (\<lambda>a. Inr (repo_remove_group_member gid uid a))) b"
| "direct_account (MergeUsers from into) b = on_auth (\<lambda>_. ADone) (quietly (merge_user_into from into)) b"
| "direct_account (DeleteUser uid) b = on_auth AFlag (repo_delete_user uid) b"
| "direct_account (DeleteNonAdmins spare) b = on_auth ACount (delete_all_non_admin_users spare) b"

primrec direct :: "repo_op \<Rightarrow> backend \<Rightarrow> answer \<times> backend" where
  "direct (Read op) b = direct_read op b"
| "direct (Catalog op) b = direct_catalog op b"
| "direct (Graph op) b = direct_graph op b"
| "direct (Account op) b = direct_account op b"
| "direct (Rebuild limit) b = (ADone, b)"
| "direct (Forward f) b = on_db (\<lambda>_. ADone) (quietly f) b"

text \<open>
  The reads whose answer is that of the database. The endpoint cache is keyed
  by the blanked path for every API type, the Consumer list and the effective
  roles are not dropped by every write they depend on.
\<close>

fun dependable :: "repo_op \<Rightarrow> bool" where
  "dependable (Read (FindEndpoint vid t path m)) \<longleftrightarrow> t = OpenApi"
| "dependable (Read (FindBulk vid t ws)) \<longleftrightarrow> t = OpenApi"
| "dependable (Read ListConsumers) \<longleftrightarrow> False"
| "dependable (Read (EffectiveRoles uid)) \<longleftrightarrow> False"
| "dependable _ \<longleftrightarrow> True"

text \<open>A forwarded write touches none of the tables the caches were filled from.\<close>

fun allowed :: "repo_op \<Rightarrow> bool" where
  "allowed (Forward f) \<longleftrightarrow> (\<forall>d. same_lines d (f d) \<and> same_producers d (f d) \<and> same_edges d (f d))"
| "allowed _ \<longleftrightarrow> True"

lemmas inner_defs = unless_disabled_def with_db_def with_auth_def invalidate_spec_caches_def invalidate_all_caches_def drop_metas_def drop_report_def
  drop_consumers_def drop_summaries_def forget_roles_def forget_group_def forget_group_list_def if_written_def attempted_def
  on_db_def on_auth_def quietly_def

section \<open>Each call agrees with the database\<close>

definition agrees :: "bool \<Rightarrow> answer \<times> cached \<Rightarrow> answer \<times> backend \<Rightarrow> bool" where
  "agrees exact x y \<longleftrightarrow> coherent (snd x) \<and> inner (snd x) = snd y \<and> (exact \<longrightarrow> fst x = fst y)"

text \<open>An endpoint of another API type is kept under a key no coherent view reads.\<close>

lemma other_put:
  "t \<noteq> OpenApi \<Longrightarrow> openapi_entries (m((vid, t, n, meth) \<mapsto> d)) = openapi_entries m"
  by (auto simp: openapi_entries_def)

lemma other_endpoint_put:
  "t \<noteq> OpenApi \<Longrightarrow> coherent c \<Longrightarrow> \<not> is_disabled c \<Longrightarrow>
   coherent (c\<lparr>endpoint_cache := (endpoint_cache c)((vid, t, n, meth) \<mapsto> d)\<rparr>)"
  by (simp add: cache_defs other_put)

lemma read_other_endpoint:
  assumes "coherent c" and "t \<noteq> OpenApi" and "cached_find_endpoint vid t path m c = (answer, c')"
  shows "coherent c' \<and> inner c' = inner c"
  using read_through_state[OF assms(3)[unfolded cached_find_endpoint_def] assms(1)] other_endpoint_put[OF assms(2)] by simp

lemma keep_found_other:
  assumes "t \<noteq> OpenApi" "coherent c" "\<not> is_disabled c"
  shows "coherent (foldl (keep_found vid t found) c us) \<and> inner (foldl (keep_found vid t found) c us) = inner c"
  using assms(2,3)
proof (induction us arbitrary: c)
  case (Cons w us)
  obtain path meth where w: "w = (path, meth)" by (cases w)
  have "coherent (keep_found vid t found c w) \<and> inner (keep_found vid t found c w) = inner c \<and> \<not> is_disabled (keep_found vid t found c w)"
    using Cons.prems other_endpoint_put[OF assms(1), of c vid "normalize_path path" meth]
    by (simp add: keep_found_def w bulk_key_def is_disabled_def split: option.split)
  with Cons.IH[of "keep_found vid t found c w"] show ?case by simp
qed simp

lemma read_other_bulk:
  assumes "coherent c" and "t \<noteq> OpenApi" and "cached_find_endpoints_bulk vid t wanted c = (answer, c')"
  shows "coherent c' \<and> inner c' = inner c"
proof -
  let ?c1 = "\<lambda>n. record_miss (c\<lparr>hits := n\<rparr>)"
  have start: "coherent (?c1 n)" "is_disabled (?c1 n) = is_disabled c" "inner (?c1 n) = inner c" for n
    using assms(1) by (simp, simp_all add: is_disabled_def record_miss_def)
  have "coherent (foldl (keep_found vid t found) (?c1 n) us) \<and> inner (foldl (keep_found vid t found) (?c1 n) us) = inner c"
    if "\<not> is_disabled c" for found n us
    using keep_found_other[OF assms(2) start(1), of n vid found us] that start(2,3)[of n] by metis
  with assms(1,3) show ?thesis by (auto simp: cached_find_endpoints_bulk_def Let_def split: if_splits)
qed

lemma agrees_read:
  assumes "coherent c" and "schema_ok (db_of c)"
  shows "agrees (dependable (Read op)) (through_read op c) (direct_read op (inner c))"
proof -
  have clear: "unambiguous (db_of c)" using assms(2) by (simp add: schema_ok_def)
  note reads = read_find_spec_version read_get_spec_content read_find_service read_get_endpoints_for_version read_get_report
    read_list_producers read_list_producers_detailed read_get_setting read_list_groups read_list_group_roles
  show ?thesis
  proof (cases op)
    case (FindEndpoint vid t path m)
    then show ?thesis
      using read_find_endpoint[OF assms(1), of vid path m, OF prod.collapse[symmetric]]
        read_other_endpoint[OF assms(1), of t vid path m, OF _ prod.collapse[symmetric]]
      by (cases "t = OpenApi") (simp_all add: agrees_def)
  next
    case (FindBulk vid t ws)
    then show ?thesis
      using read_find_endpoints_bulk[OF assms(1) clear, of vid ws, OF prod.collapse[symmetric]]
        read_other_bulk[OF assms(1), of t vid ws, OF _ prod.collapse[symmetric]]
      by (cases "t = OpenApi") (simp_all add: agrees_def)
  next
    case ListConsumers
    with read_list_consumers[OF assms(1) prod.collapse[symmetric]] show ?thesis by (simp add: agrees_def)
  next
    case (EffectiveRoles uid)
    with read_effective_roles[OF assms(1) prod.collapse[symmetric]] show ?thesis by (simp add: agrees_def)
  qed (simp_all add: agrees_def reads[OF assms(1) prod.collapse[symmetric]])
qed

text \<open>What a write leaves in the database does not depend on the caches.\<close>

lemma catalog_inner: "through_catalog op c = (a, c') \<Longrightarrow> direct_catalog op (inner c) = (a, inner c')"
  by (cases op) (auto simp: inner_defs cached_upsert_spec_version_def cached_rewrite_spec_text_def cached_delete_spec_version_def
      cached_touch_spec_version_required_def cached_touch_spec_version_provided_def cached_touch_spec_version_trunk_def
      cached_delete_expired_snapshots_def cached_close_expired_trunk_data_def cached_ensure_service_def cached_delete_producer_def
      cached_delete_all_services_def cached_nuke_database_def cached_update_producer_metadata_def cached_set_producer_external_def
      cached_set_setting_def Let_def split: prod.splits sum.splits)

lemma graph_inner: "through_graph op c = (a, c') \<Longrightarrow> direct_graph op (inner c) = (a, inner c')"
  by (cases op) (auto simp: inner_defs cached_ensure_client_def cached_record_dependencies_bulk_def cached_record_trunk_pins_def
      cached_delete_all_clients_def cached_delete_consumer_def cached_delete_stale_dependencies_def cached_add_service_tags_def
      cached_remove_service_tag_def cached_close_trunk_pins_def cached_reconcile_harvested_def cached_reconcile_periphery_def
      cached_upsert_system_context_def cached_delete_system_context_def Let_def split: prod.splits)

lemma account_inner: "through_account op c = (a, c') \<Longrightarrow> direct_account op (inner c) = (a, inner c')"
  by (cases op) (auto simp: inner_defs cached_grant_user_role_def cached_revoke_user_role_def cached_create_group_def
      cached_rename_group_def cached_delete_group_def cached_set_group_roles_def cached_add_group_member_def cached_remove_group_member_def
      cached_merge_user_into_def cached_delete_user_def cached_delete_all_non_admin_users_def Let_def split: prod.splits sum.splits)

lemma catalog_coherent:
  assumes "coherent c" and "schema_ok (db_of c)"
  shows "coherent (snd (through_catalog op c))"
  by (cases op) (simp_all add: w_rewrite w_touches w_setting w_producer_columns w_clearances w_upsert[OF _ prod.collapse[symmetric]]
      w_delete_version[OF _ prod.collapse[symmetric]] w_expire[OF _ prod.collapse[symmetric]] w_close_trunk[OF _ prod.collapse[symmetric]]
      w_ensure_service[OF _ _ prod.collapse[symmetric]] w_delete_producer[OF _ _ prod.collapse[symmetric]] assms)

lemma graph_coherent:
  assumes "coherent c" and "schema_ok (db_of c)"
  shows "coherent (snd (through_graph op c))"
  by (cases op) (simp_all add: w_edges w_ensure_client[OF _ _ prod.collapse[symmetric]] w_context[OF _ prod.collapse[symmetric]]
      w_stale[OF _ prod.collapse[symmetric]] assms)

lemma account_coherent: "coherent c \<Longrightarrow> coherent (snd (through_account op c))"
  by (cases op) (simp_all add: w_roles w_groups)

lemma call_agrees:
  assumes "coherent c" and "schema_ok (db_of c)" and "allowed op"
  shows "agrees (dependable op) (through op c) (direct op (inner c))"
proof (cases op)
  case (Read r)
  with agrees_read[OF assms(1,2)] show ?thesis by simp
next
  case (Catalog w)
  with catalog_inner[OF prod.collapse[symmetric], of w c] catalog_coherent[OF assms(1,2)] show ?thesis by (simp add: agrees_def)
next
  case (Graph w)
  with graph_inner[OF prod.collapse[symmetric], of w c] graph_coherent[OF assms(1,2)] show ?thesis by (simp add: agrees_def)
next
  case (Account w)
  with account_inner[OF prod.collapse[symmetric], of w c] account_coherent[OF assms(1)] show ?thesis by (simp add: agrees_def)
next
  case (Rebuild limit)
  with rebuild_coherent[OF assms(1)] show ?thesis by (simp add: agrees_def rebuild_caches_def)
next
  case (Forward f)
  with write_elsewhere[OF assms(1)] assms(3) show ?thesis by (simp add: agrees_def inner_defs)
qed


text \<open>The writes the file forwards: branches, contracts, the audit log, origins and the webhook queue.\<close>

lemma forwarded_allowed:
  "allowed (Forward (record_branch_pins bid pins now))" "allowed (Forward (record_branch_member_version bid sid t v now))"
  "allowed (Forward (repo_delete_branch bid))" "allowed (Forward (set_version_origin vid origin))"
  "allowed (Forward (upsert_channel_message_contract contract))" "allowed (Forward (delete_channel_message_contract ch msg))"
  "allowed (Forward (insert_audit_log entry))" "allowed (Forward (insert_webhook_events evs))"
  "allowed (Forward (repo_delete_webhook wid))" "allowed (Forward (\<lambda>d. snd (reset_webhook_delivery wid now d)))"
  "allowed (Forward (\<lambda>d. snd (delete_old_webhook_data now d)))"
  by (simp_all add: same_defs record_branch_pins_def record_branch_member_version_def repo_delete_branch_def set_version_origin_def
      upsert_channel_message_contract_def delete_channel_message_contract_def insert_audit_log_def insert_webhook_events_def
      repo_delete_webhook_def reset_webhook_delivery_def delete_old_webhook_data_def Let_def)

section \<open>Sequences of calls\<close>

text \<open>Entries may vanish between two calls.\<close>

definition evicted :: "cached \<Rightarrow> cached \<Rightarrow> bool" where
  "evicted c c' \<longleftrightarrow> inner c' = inner c \<and> memory_limit_mb c' = memory_limit_mb c \<and>
     endpoint_cache c' \<subseteq>\<^sub>m endpoint_cache c \<and> version_endpoints_cache c' \<subseteq>\<^sub>m version_endpoints_cache c \<and>
     spec_content_cache c' \<subseteq>\<^sub>m spec_content_cache c \<and> report_cache c' \<subseteq>\<^sub>m report_cache c \<and> services_cache c' \<subseteq>\<^sub>m services_cache c \<and>
     service_id_cache c' \<subseteq>\<^sub>m service_id_cache c \<and> spec_version_cache c' \<subseteq>\<^sub>m spec_version_cache c \<and>
     services_list_cache c' \<subseteq>\<^sub>m services_list_cache c \<and> clients_list_cache c' \<subseteq>\<^sub>m clients_list_cache c \<and>
     effective_roles_cache c' \<subseteq>\<^sub>m effective_roles_cache c \<and> settings_cache c' \<subseteq>\<^sub>m settings_cache c \<and>
     groups_list_cache c' \<subseteq>\<^sub>m groups_list_cache c \<and> group_roles_cache c' \<subseteq>\<^sub>m group_roles_cache c"

lemma within_fewer: "m' \<subseteq>\<^sub>m m \<Longrightarrow> within m f \<Longrightarrow> within m' f"
  unfolding within_def by (metis domI map_le_def)

lemma openapi_fewer: "m' \<subseteq>\<^sub>m m \<Longrightarrow> openapi_entries m' \<subseteq>\<^sub>m openapi_entries m"
  by (auto simp: openapi_entries_def map_le_def dom_def)

lemma fewer_than_none: "m \<subseteq>\<^sub>m Map.empty \<longleftrightarrow> m = Map.empty"
  by (auto simp: map_le_def dom_def fun_eq_iff)

lemma evicted_coherent:
  assumes "coherent c" and "evicted c c'"
  shows "coherent c'"
proof -
  have "true_entries c'"
    using assms unfolding coherent_def true_entries_def evicted_def by (auto elim: within_fewer within_fewer[OF openapi_fewer])
  moreover have "is_disabled c' \<Longrightarrow> all_empty c'"
    using assms by (auto simp: coherent_def all_empty_def evicted_def is_disabled_def fewer_than_none)
  ultimately show ?thesis by (simp add: coherent_def)
qed

text \<open>
  A sequence of calls with the answers given, over a database that keeps its
  unique indexes and foreign keys.
\<close>

inductive served :: "cached \<Rightarrow> (repo_op \<times> answer) list \<Rightarrow> cached \<Rightarrow> bool" where
  idle: "served c [] c"
| evict: "served c tr c1 \<Longrightarrow> evicted c1 c2 \<Longrightarrow> served c tr c2"
| call: "served c tr c1 \<Longrightarrow> schema_ok (db_of c1) \<Longrightarrow> allowed op \<Longrightarrow> through op c1 = (a, c2) \<Longrightarrow> served c (tr @ [(op, a)]) c2"

fun direct_run :: "repo_op list \<Rightarrow> backend \<Rightarrow> answer list \<times> backend" where
  "direct_run [] b = ([], b)"
| "direct_run (op # ops) b = (let (a, b1) = direct op b; (as, b2) = direct_run ops b1 in (a # as, b2))"

definition answers_match :: "repo_op \<times> answer \<Rightarrow> answer \<Rightarrow> bool" where
  "answers_match call a \<longleftrightarrow> (dependable (fst call) \<longrightarrow> snd call = a)"

lemma direct_run_snoc:
  "direct_run (ops @ [op]) b =
     (let (as, b1) = direct_run ops b; (a, b2) = direct op b1 in (as @ [a], b2))"
  by (induction ops arbitrary: b) (simp_all add: case_prod_beta Let_def)

lemma served_agrees:
  assumes "served c tr c'" and "coherent c"
  shows "coherent c' \<and> inner c' = snd (direct_run (map fst tr) (inner c)) \<and>
     list_all2 answers_match tr (fst (direct_run (map fst tr) (inner c)))"
  using assms
proof (induction rule: served.induct)
  case (evict c tr c1 c2)
  then show ?case using evicted_coherent[of c1 c2] by (simp add: evicted_def)
next
  case (call c tr c1 op a c2)
  then have ok: "coherent c1" and past: "inner c1 = snd (direct_run (map fst tr) (inner c))"
    and same: "list_all2 answers_match tr (fst (direct_run (map fst tr) (inner c)))" by auto
  have "coherent c2 \<and> inner c2 = snd (direct op (inner c1)) \<and> answers_match (op, a) (fst (direct op (inner c1)))"
    using call_agrees[OF ok call.hyps(2,3)] call.hyps(4) by (simp add: agrees_def answers_match_def)
  with past same show ?case by (simp add: direct_run_snoc case_prod_beta Let_def list_all2_appendI)
qed simp

text \<open>
  C30: The caches are transparent. Whatever sequence of calls the caching
  repository serves, with any memory limit, with entries vanishing at any moment
  and the limit changed on the way, the database ends as the same calls on the
  database itself leave it, and every answer is the one the database would have
  given at that point; the exceptions are the endpoint lookups of AsyncAPI and
  Proto, the list of Consumers and the effective roles. The database keeps its
  unique indexes and foreign keys, and the calls the file only forwards change
  no table behind a cache.
\<close>

theorem cache_is_transparent:
  assumes "served (with_data_ttl b limit) calls c"
  shows "inner c = snd (direct_run (map fst calls) b) \<and> list_all2 answers_match calls (fst (direct_run (map fst calls) b))"
  using served_agrees[OF assms fresh_cache_coherent] by (simp add: with_data_ttl_def)

definition sample_cache :: cached where
  "sample_cache = with_data_ttl \<lparr>bk_db = empty_db, bk_auth = small_auth_db\<rparr> 100"

definition sample_calls :: "(repo_op \<times> answer) list" where
  "sample_calls = [(Catalog (EnsureService ''api''), ARow 1), (Read (FindService ''api''), AId (Some 1)),
     (Catalog (DropProducer ''api'' []), AFlag True), (Read (FindService ''api''), AId None)]"

lemmas sample_cache_defs = sample_cache_def with_data_ttl_def inner_defs is_disabled_def read_through_def record_hit_def record_miss_def
  cached_ensure_service_def ensure_service_def cached_find_service_def find_service_def cached_delete_producer_def delete_producer_def
  remove_versions_def empty_db_def delete_where_def

lemma sample_calls_served: "\<exists>c. served sample_cache sample_calls c"
proof -
  let ?run = "\<lambda>op c. snd (through op c)"
  let ?c1 = "?run (Catalog (EnsureService ''api'')) sample_cache"
  let ?c2 = "?run (Read (FindService ''api'')) ?c1"
  let ?c3 = "?run (Catalog (DropProducer ''api'' [])) ?c2"
  have ok: "schema_ok (db_of sample_cache)" "schema_ok (db_of ?c1)" "schema_ok (db_of ?c2)" "schema_ok (db_of ?c3)"
    by (simp_all add: sample_cache_defs schema_ok_def unambiguous_def catalog_inv_def ids_ok_def versions_ok_def Let_def)
  have answers: "fst (through (Catalog (EnsureService ''api'')) sample_cache) = ARow 1"
    "fst (through (Read (FindService ''api'')) ?c1) = AId (Some 1)"
    "fst (through (Catalog (DropProducer ''api'' [])) ?c2) = AFlag True"
    "fst (through (Read (FindService ''api'')) ?c3) = AId None"
    by (simp_all add: sample_cache_defs Let_def)
  have "served sample_cache ([] @ [(Catalog (EnsureService ''api''), ARow 1)]) ?c1"
    by (rule served.call[OF served.idle ok(1)]) (use answers(1) in \<open>simp_all add: prod_eq_iff\<close>)
  from served.call[OF this ok(2), of "Read (FindService ''api'')" "AId (Some 1)" ?c2]
  have "served sample_cache (([] @ [(Catalog (EnsureService ''api''), ARow 1)]) @ [(Read (FindService ''api''), AId (Some 1))]) ?c2"
    using answers(2) by (simp add: prod_eq_iff)
  from served.call[OF this ok(3), of "Catalog (DropProducer ''api'' [])" "AFlag True" ?c3]
  have three: "served sample_cache (take 3 sample_calls) ?c3"
    using answers(3) by (simp add: prod_eq_iff sample_calls_def)
  have "served sample_cache (take 3 sample_calls @ [(Read (FindService ''api''), AId None)]) (?run (Read (FindService ''api'')) ?c3)"
    by (rule served.call[OF three ok(4)]) (use answers(4) in \<open>simp_all add: prod_eq_iff\<close>)
  then show ?thesis by (auto simp: sample_calls_def)
qed

theorem cache_is_transparent_witness:
  "list_all2 answers_match sample_calls (fst (direct_run (map fst sample_calls) \<lparr>bk_db = empty_db, bk_auth = small_auth_db\<rparr>))"
  using sample_calls_served cache_is_transparent unfolding sample_cache_def by blast

section \<open>Where the answers differ\<close>

text \<open>
  The endpoint cache is keyed by the blanked path, while the channels of AsyncAPI
  are stored and looked up verbatim: after one channel was read, a channel that
  differs only in the name of a parameter is answered with the first one's text.
\<close>

definition channel_row :: "row_id \<Rightarrow> string \<Rightarrow> string \<Rightarrow> endpoint_row" where
  "channel_row i channel yaml = \<lparr>e_id = Some i, e_api_type = AsyncApi, e_path = channel, e_normalized_path = channel, e_method = ''pub'',
     e_yaml_content = yaml, e_deprecated = False, e_spec_version_id = 1\<rparr>"

lemma channels_share_an_entry:
  defines "db \<equiv> empty_db\<lparr>endpoints := [channel_row 1 ''/a/{x}'' ''first'', channel_row 2 ''/a/{y}'' ''second'']\<rparr>"
  defines "c \<equiv> snd (cached_find_endpoint 1 AsyncApi ''/a/{x}'' ''pub'' (with_data_ttl \<lparr>bk_db = db, bk_auth = small_auth_db\<rparr> 100))"
  shows "fst (cached_find_endpoint 1 AsyncApi ''/a/{y}'' ''pub'' c) = Some (Some 1, ''first'', False) \<and>
    map_option details (find_endpoint db 1 AsyncApi ''/a/{y}'' ''pub'') = Some (Some 2, ''second'', False)"
proof -
  have key: "normalize_path ''/a/{y}'' = normalize_path ''/a/{x}''" by code_simp
  show ?thesis unfolding c_def db_def cached_find_endpoint_def key
    by (simp add: read_through_def with_data_ttl_def is_disabled_def record_hit_def record_miss_def unless_disabled_def find_endpoint_def
        lookup_path_def channel_row_def details_def empty_db_def Let_def)
qed

text \<open>
  The Consumer list is computed from the dependencies, and the clean-up of stale
  dependencies does not drop it.
\<close>

lemma consumer_list_goes_stale:
  defines "db \<equiv> empty_db\<lparr>clients := [(1, ''shop'')], dependencies := [\<lparr>dep_client_id = 1, dep_spec_version_id = 1, dep_api_type = OpenApi,
     dep_path = ''/a'', dep_normalized_path = ''/a'', dep_method = ''get'', dep_last_seen_at = ''2024''\<rparr>]\<rparr>"
  defines "c \<equiv> snd (cached_delete_stale_dependencies ''2025'' (snd (cached_list_consumers (with_data_ttl \<lparr>bk_db = db, bk_auth = small_auth_db\<rparr> 100))))"
  shows "fst (cached_list_consumers c) = Some [''shop''] \<and> list_consumers (db_of c) = []"
  unfolding c_def db_def
  by (simp add: cached_list_consumers_def cached_delete_stale_dependencies_def delete_stale_dependencies_def read_through_def
      with_data_ttl_def is_disabled_def record_hit_def record_miss_def inner_defs list_consumers_def get_client_name_def empty_db_def delete_where_def
      Let_def List.map_filter_def)

text \<open>
  Switching the caches off keeps the effective roles, and a merge of accounts
  drops them only while the caches are on.
\<close>

lemma merged_roles_go_stale:
  defines "c \<equiv> rebuild_caches 100 (cached_merge_user_into 1 2 (rebuild_caches 0 (snd (cached_effective_stored_roles 2
     (with_data_ttl \<lparr>bk_db = empty_db, bk_auth = small_auth_db\<rparr> 100)))))"
  shows "fst (cached_effective_stored_roles 2 c) = Some [''releaser''] \<and>
    effective_stored_roles (auth_of c) 2 = [''releaser'', ''user_manager'']"
  unfolding c_def
  by (simp add: cached_effective_stored_roles_def cached_merge_user_into_def merge_user_into_def drop_users_def move_rows_def move_members_def
      read_through_def with_data_ttl_def rebuild_caches_def is_disabled_def record_hit_def record_miss_def inner_defs
      effective_stored_roles_def small_auth_db_def delete_where_def Let_def)


end
