(* ===== verification/Sign_In.thy ===== *)
theory Sign_In
  imports Accounts
begin

text \<open>
  Signing in: \<open>auth_service.rs\<close>, \<open>sign_in_service.rs\<close> and
  \<open>service_account_service.rs\<close> of \<open>src/src/application\<close>, and the login handler of
  \<open>src/src/presentation/handlers/auth.rs\<close> that puts them together. The directory
  (LDAP), the OpenID provider, hashing, the clock and random draws are parameters.
  A request that fails keeps what it had written.
\<close>

section \<open>Requests\<close>

type_synonym 'a request = "accounts \<Rightarrow> (app_error + 'a) \<times> accounts"

definition bind :: "'a request \<Rightarrow> ('a \<Rightarrow> 'b request) \<Rightarrow> 'b request" where
  "bind m f a = (case m a of (Inl e, a') \<Rightarrow> (Inl e, a') | (Inr x, a') \<Rightarrow> f x a')"

definition return :: "'a \<Rightarrow> 'a request" where "return x a = (Inr x, a)"

definition fail :: "app_error \<Rightarrow> 'a request" where "fail e a = (Inl e, a)"

definition asks :: "(accounts \<Rightarrow> 'a) \<Rightarrow> 'a request" where "asks f a = (Inr (f a), a)"

definition check :: "app_error + 'a \<Rightarrow> 'a request" where
  "check r a = (case r of Inl e \<Rightarrow> (Inl e, a) | Inr x \<Rightarrow> (Inr x, a))"

definition query :: "(accounts \<Rightarrow> repository_error + 'a \<times> accounts) \<Rightarrow> 'a request" where
  "query q a = (case q a of Inl e \<Rightarrow> (Inl (app_error_from e), a) | Inr (x, a') \<Rightarrow> (Inr x, a'))"

definition exec :: "(accounts \<Rightarrow> repository_error + accounts) \<Rightarrow> unit request" where
  "exec q a = (case q a of Inl e \<Rightarrow> (Inl (app_error_from e), a) | Inr a' \<Rightarrow> (Inr (), a'))"

definition modify :: "(accounts \<Rightarrow> accounts) \<Rightarrow> unit request" where "modify f a = (Inr (), f a)"

record auth_env =
  an_now :: "nat \<Rightarrow> int"
  an_sql_now :: int
  an_session_token :: string
  an_api_token :: string
  an_uuid :: string
  an_password :: "nat \<Rightarrow> string"
  an_dev_gate :: bool

section \<open>Settings\<close>

definition set_ac_setting :: "string \<Rightarrow> string \<Rightarrow> accounts \<Rightarrow> accounts" where
  "set_ac_setting k v a = a\<lparr>ac_db := set_setting k v (ac_db a)\<rparr>"

definition setting_on :: "string \<Rightarrow> accounts \<Rightarrow> bool" where
  "setting_on k a \<longleftrightarrow> get_setting (ac_db a) k = Some ''true''"

definition flag :: "bool \<Rightarrow> string" where "flag b = (if b then ''true'' else ''false'')"

definition get_auth_mode :: "accounts \<Rightarrow> auth_mode" where
  "get_auth_mode a =
     (let val = (case get_setting (ac_db a) ''auth_mode'' of Some v \<Rightarrow> v | None \<Rightarrow> ''disabled'')
      in case auth_mode_from_str val of Some m \<Rightarrow> m | None \<Rightarrow> Disabled)"

definition set_auth_mode :: "auth_mode \<Rightarrow> accounts \<Rightarrow> accounts" where
  "set_auth_mode m = set_ac_setting ''auth_mode'' (auth_mode_as_str m)"

definition get_dev_mode :: "auth_env \<Rightarrow> accounts \<Rightarrow> bool" where
  "get_dev_mode E a \<longleftrightarrow> get_auth_mode a = Dev \<and> an_dev_gate E"

definition get_auto_approve_users :: "accounts \<Rightarrow> bool" where
  "get_auto_approve_users a \<longleftrightarrow> (case get_setting (ac_db a) ''auto_approve_users'' of Some v \<Rightarrow> v | None \<Rightarrow> ''false'') = ''true''"

definition set_auto_approve_users :: "bool \<Rightarrow> accounts \<Rightarrow> accounts" where
  "set_auto_approve_users b = set_ac_setting ''auto_approve_users'' (flag b)"

definition get_registration_enabled :: "accounts \<Rightarrow> bool" where
  "get_registration_enabled = setting_on ''registration_enabled''"

definition set_registration_enabled :: "bool \<Rightarrow> accounts \<Rightarrow> accounts" where
  "set_registration_enabled b = set_ac_setting ''registration_enabled'' (flag b)"

definition registration_open :: "accounts \<Rightarrow> bool" where
  "registration_open a \<longleftrightarrow> get_auth_mode a = Local \<and> get_registration_enabled a"

definition get_gravatar_enabled :: "accounts \<Rightarrow> bool" where "get_gravatar_enabled = setting_on ''gravatar_enabled''"

definition set_gravatar_enabled :: "bool \<Rightarrow> accounts \<Rightarrow> accounts" where
  "set_gravatar_enabled b = set_ac_setting ''gravatar_enabled'' (flag b)"

definition admins_only :: "auth_mode \<Rightarrow> bool" where
  "admins_only m \<longleftrightarrow> m = Disabled \<or> m = Dev"

definition admins_only_refusal :: "auth_mode \<Rightarrow> app_error" where
  "admins_only_refusal m =
     ForbiddenWithReason (if m = Disabled then Text ''Sanshain is in maintenance; only administrators can sign in'' []
       else Text ''Sanshain is in dev mode; only administrators can sign in'' [])"

definition sign_in_source :: "accounts \<Rightarrow> auth_mode" where
  "sign_in_source a =
     (let mode = get_auth_mode a;
          source = (if mode = Disabled
            then (case get_setting (ac_db a) ''auth_mode_before_off'' of
                    None \<Rightarrow> Local
                  | Some v \<Rightarrow> (case auth_mode_from_str v of Some m \<Rightarrow> m | None \<Rightarrow> Local))
            else mode)
      in case source of Ldap \<Rightarrow> Ldap | Oidc \<Rightarrow> Oidc | _ \<Rightarrow> Local)"

definition switch_auth_mode :: "auth_env \<Rightarrow> auth_mode \<Rightarrow> unit request" where
  "switch_auth_mode E mode a =
     (let current = get_auth_mode a in
      if mode = Dev \<and> \<not> an_dev_gate E
      then (Inl (BadRequest (Text ''dev mode needs the server started with ALLOW_INSECURE_DEV_MODE=true'' [])), a)
      else let a1 = (if mode = Disabled \<and> current \<noteq> Disabled
                then set_ac_setting ''auth_mode_before_off'' (auth_mode_as_str current) a else a)
           in (Inr (), set_auth_mode mode a1))"

definition settle_ungated_dev_mode :: "auth_env \<Rightarrow> accounts \<Rightarrow> bool \<times> accounts" where
  "settle_ungated_dev_mode E a =
     (if get_auth_mode a \<noteq> Dev \<or> an_dev_gate E then (False, a) else (True, set_auth_mode Local a))"

record login_options =
  lo_admins_only :: bool
  lo_auth_mode :: auth_mode
  lo_registration :: bool
  lo_auto_approve :: bool
  lo_sso :: bool

definition get_login_options :: "app_error + bool \<Rightarrow> accounts \<Rightarrow> app_error + login_options" where
  "get_login_options oidc_configured a =
     (let options = (\<lambda>sso. \<lparr>lo_admins_only = admins_only (get_auth_mode a), lo_auth_mode = get_auth_mode a, lo_registration = registration_open a,
            lo_auto_approve = get_auto_approve_users a, lo_sso = sso\<rparr>)
      in if sign_in_source a = Oidc then and_then oidc_configured (\<lambda>c. Inr (options c)) else Inr (options False))"

section \<open>First start\<close>

definition initial_auth_mode :: "string option \<Rightarrow> bool \<Rightarrow> message + auth_mode" where
  "initial_auth_mode configured dev_gate_open =
     (case map_option trim configured of
        None \<Rightarrow> Inr Disabled
      | Some v \<Rightarrow>
          if v = [] then Inr Disabled
          else (case auth_mode_from_str v of
                  None \<Rightarrow> Inl (Text ''INITIAL_AUTH_MODE is not one of off, dev, local, ldap, oidc'' [S v])
                | Some m \<Rightarrow> if m = Dev \<and> \<not> dev_gate_open
                    then Inl (Text ''INITIAL_AUTH_MODE=dev needs ALLOW_INSECURE_DEV_MODE=true'' []) else Inr m))"

definition initial_admin_password :: "auth_env \<Rightarrow> string option \<Rightarrow> string" where
  "initial_admin_password E configured =
     (case configured of Some p \<Rightarrow> if trim p \<noteq> [] then p else an_password E 0 | None \<Rightarrow> an_password E 0)"

definition grant_role :: "row_id \<Rightarrow> string \<Rightarrow> unit request" where
  "grant_role uid r = exec (\<lambda>a. and_then (repo_grant_user_role uid r (auth_view a)) (\<lambda>(_, au). Inr (a\<lparr>ac_auth := au\<rparr>)))"

definition ensure_initial_admin ::
    "auth_tools \<Rightarrow> auth_env \<Rightarrow> string option \<Rightarrow> string option \<Rightarrow> string option \<Rightarrow> unit request" where
  "ensure_initial_admin T E username password mode =
     bind (asks (\<lambda>a. length (ac_users a))) (\<lambda>n.
     if n \<noteq> 0 then return ()
     else bind (check (argon_hash T (initial_admin_password E password))) (\<lambda>hash.
          bind (query (create_user (case username of Some u \<Rightarrow> u | None \<Rightarrow> ''root'') hash True)) (\<lambda>admin.
          bind (grant_role (u_id admin) ''admin'') (\<lambda>_.
          modify (set_auth_mode (case initial_auth_mode mode (an_dev_gate E) of Inr m \<Rightarrow> m | Inl _ \<Rightarrow> Disabled))))))"

text \<open>The root names in the order of the set.\<close>

fun claim_root_usernames :: "auth_tools \<Rightarrow> auth_env \<Rightarrow> string list \<Rightarrow> unit request" where
  "claim_root_usernames T E [] = return ()"
| "claim_root_usernames T E (nm # nms) =
     bind (asks (\<lambda>a. find_user a nm)) (\<lambda>found.
     case found of
       Some _ \<Rightarrow> claim_root_usernames T E nms
     | None \<Rightarrow> bind (check (argon_hash T (an_password E (length nms)))) (\<lambda>hash.
         bind (query (create_user nm hash True)) (\<lambda>_. claim_root_usernames T E nms)))"

definition dev_user :: string where "dev_user = ''dev_user''"

definition lock_dev_user :: "bool request" where
  "lock_dev_user a =
     (case find_user a dev_user of
        Some u \<Rightarrow> if \<not> is_service_account u then (Inr True, update_password (u_id u) service_account_password_hash a) else (Inr False, a)
      | None \<Rightarrow> (Inr False, a))"

definition ensure_dev_user :: "user request" where
  "ensure_dev_user =
     bind lock_dev_user (\<lambda>_.
     bind (asks (\<lambda>a. find_user a dev_user)) (\<lambda>found.
     case found of
       Some u \<Rightarrow> return u
     | None \<Rightarrow> bind (query (create_user dev_user service_account_password_hash True)) (\<lambda>u.
         bind (grant_role (u_id u) ''admin'') (\<lambda>_. return u))))"

section \<open>Local accounts\<close>

text \<open>A session lasts seven days.\<close>

definition session_expiry :: "auth_tools \<Rightarrow> auth_env \<Rightarrow> stamp" where
  "session_expiry T E = rfc3339 T (after (time_tools.truncate T) (an_now E 0) (days_span 7))"

definition new_session :: "auth_tools \<Rightarrow> auth_env \<Rightarrow> row_id \<Rightarrow> session request" where
  "new_session T E uid = query (create_session_with_token T uid (an_session_token E) (session_expiry T E))"

definition record_sign_in :: "auth_tools \<Rightarrow> session \<Rightarrow> sign_in_method \<Rightarrow> unit request" where
  "record_sign_in T s m =
     bind (modify (set_session_sign_in T (se_token s) m)) (\<lambda>_. exec (record_user_sign_in (se_user_id s) m))"

definition login :: "auth_tools \<Rightarrow> auth_env \<Rightarrow> string \<Rightarrow> string \<Rightarrow> (session \<times> user) request" where
  "login T E username password =
     (if password = [] then fail Unauthorized
      else bind (asks (\<lambda>a. find_user a username)) (\<lambda>found.
        case found of
          None \<Rightarrow> fail Unauthorized
        | Some u \<Rightarrow>
            if is_service_account u then fail Unauthorized
            else if \<not> u_approved u then fail Forbidden
            else bind (check (argon_verify T password (u_password_hash u))) (\<lambda>good.
              if \<not> good then fail Unauthorized
              else bind (new_session T E (u_id u)) (\<lambda>s. bind (record_sign_in T s SignLocal) (\<lambda>_. return (s, u))))))"

definition change_password ::
    "auth_tools \<Rightarrow> auth_env \<Rightarrow> user \<Rightarrow> string option \<Rightarrow> string \<Rightarrow> string \<Rightarrow> session option request" where
  "change_password T E u token old_password new_password =
     bind (check (argon_verify T old_password (u_password_hash u))) (\<lambda>good.
     if \<not> good then fail Unauthorized
     else bind (check (argon_hash T new_password)) (\<lambda>hash.
          bind (modify (update_password (u_id u) hash)) (\<lambda>_.
          case token of
            None \<Rightarrow> return None
          | Some t \<Rightarrow> bind (modify (delete_session T t)) (\<lambda>_.
              bind (new_session T E (u_id u)) (\<lambda>s. bind (record_sign_in T s SignLocal) (\<lambda>_. return (Some s)))))))"

definition register_user :: "auth_tools \<Rightarrow> string set \<Rightarrow> string \<Rightarrow> string \<Rightarrow> bool request" where
  "register_user T root_users username password =
     bind (asks registration_open) (\<lambda>is_open_now.
     if \<not> is_open_now then fail (ForbiddenWithReason (Text ''registration is closed on this instance'' []))
     else if username \<in> root_users then fail (Conflict (Text ''This username is reserved'' []))
     else bind (asks (\<lambda>a. find_user a username)) (\<lambda>found.
       if found \<noteq> None then fail (Conflict (Text ''User already exists'' []))
       else bind (check (argon_hash T password)) (\<lambda>hash.
            bind (asks get_auto_approve_users) (\<lambda>auto.
            bind (query (create_user username hash auto)) (\<lambda>_. return auto)))))"

definition logout :: "auth_tools \<Rightarrow> string \<Rightarrow> accounts \<Rightarrow> accounts" where
  "logout T token = delete_session T token"

section \<open>What the provider says\<close>

record authenticated_user =
  au_name :: string
  au_display_name :: "string option"
  au_email :: "string option"
  au_directory_id :: "string option"

definition gravatar_key :: "auth_tools \<Rightarrow> string \<Rightarrow> string" where
  "gravatar_key T email = sha256_hex T (to_lowercase (trim email))"

definition not_blank :: "string option \<Rightarrow> string option" where
  "not_blank v = (case map_option trim v of Some s \<Rightarrow> if s = [] then None else Some s | None \<Rightarrow> None)"

definition refresh_provider_identity :: "auth_tools \<Rightarrow> row_id \<Rightarrow> string option \<Rightarrow> string option \<Rightarrow> unit request" where
  "refresh_provider_identity T uid display_name email =
     bind (exec (set_display_name uid (not_blank display_name))) (\<lambda>_.
     exec (set_avatar_hash uid (map_option (gravatar_key T) (not_blank email))))"

datatype verified = VerifiedLocal user | VerifiedDirectory "user option" authenticated_user

type_synonym directory = "string \<Rightarrow> string \<Rightarrow> authenticated_user option"

definition verify_password_local_first ::
    "auth_tools \<Rightarrow> directory option \<Rightarrow> string \<Rightarrow> string \<Rightarrow> accounts \<Rightarrow> app_error + verified" where
  "verify_password_local_first T dir username password a =
     (if password = [] then Inl Unauthorized
      else let existing = find_user a username;
               ask = (\<lambda>refusal. case dir of
                   Some authenticate \<Rightarrow> (case authenticate username password of
                       Some identity \<Rightarrow> Inr (VerifiedDirectory existing identity) | None \<Rightarrow> Inl refusal)
                 | None \<Rightarrow> Inl refusal)
           in case existing of
                None \<Rightarrow> ask Unauthorized
              | Some u \<Rightarrow>
                  if is_service_account u then Inl Unauthorized
                  else and_then (argon_verify T password (u_password_hash u)) (\<lambda>good.
                    if \<not> good then ask Unauthorized
                    else if \<not> u_approved u then ask Forbidden
                    else Inr (VerifiedLocal u)))"

definition may_sign_in_as_admin :: "string set \<Rightarrow> string \<Rightarrow> user option \<Rightarrow> string list \<Rightarrow> accounts \<Rightarrow> bool" where
  "may_sign_in_as_admin root_users username existing directory_groups a =
     has_permission
       (case existing of
          Some u \<Rightarrow> resolve_actor (auth_view a) (user_key u) root_users directory_groups
        | None \<Rightarrow> \<lparr>a_user_id = 0, a_username = username, a_is_root = username \<in> root_users,
            a_roles = List.map_filter role_parse (roles_from_directory (auth_view a) directory_groups),
            a_directory_groups = directory_groups\<rparr>)
       ManageAuthConfig"

section \<open>The account of a directory entry\<close>

definition consider_user :: "user list \<Rightarrow> user option \<Rightarrow> user list" where
  "consider_user cs found =
     (case found of None \<Rightarrow> cs
      | Some u \<Rightarrow> if \<not> is_service_account u \<and> \<not> list_ex (\<lambda>c. u_id c = u_id u) cs then cs @ [u] else cs)"

definition candidates :: "user option \<Rightarrow> authenticated_user \<Rightarrow> accounts \<Rightarrow> user list" where
  "candidates typed identity a =
     (let c1 = (case au_directory_id identity of Some i \<Rightarrow> consider_user [] (find_user_by_directory_id a i) | None \<Rightarrow> []);
          c2 = consider_user c1 (find_user a (au_name identity));
          c3 = consider_user c2 typed
      in case au_email identity of Some e \<Rightarrow> consider_user c3 (find_user a (trim e)) | None \<Rightarrow> c3)"

definition target_of :: "authenticated_user \<Rightarrow> user list \<Rightarrow> user option" where
  "target_of identity cs =
     (case find (\<lambda>u. u_username u = au_name identity) cs of
        Some u \<Rightarrow> Some u | None \<Rightarrow> (case cs of [] \<Rightarrow> None | u # _ \<Rightarrow> Some u))"

definition account_audit :: "string \<Rightarrow> string \<Rightarrow> message \<Rightarrow> unit request" where
  "account_audit who action details =
     modify (\<lambda>a. a\<lparr>ac_db := insert_audit_log \<lparr>au_username = who, au_action = action, au_details = details, au_service = None,
       au_version = None, au_action_type = Some ''ADMIN''\<rparr> (ac_db a)\<rparr>)"

fun merge_candidates :: "string set \<Rightarrow> string \<Rightarrow> user \<Rightarrow> user list \<Rightarrow> unit request" where
  "merge_candidates root_users canonical target [] = return ()"
| "merge_candidates root_users canonical target (c # cs) =
     (if u_id c = u_id target \<or> u_username c \<in> root_users \<or> u_username target \<in> root_users
      then merge_candidates root_users canonical target cs
      else bind (exec (merge_accounts (u_id c) (u_id target))) (\<lambda>_.
           bind (account_audit (u_username target) ''MERGE_USER'' (Text ''Merged'' [S (u_username c), S (u_username target), S canonical])) (\<lambda>_.
           merge_candidates root_users canonical target cs)))"

definition first_sign_in :: "auth_tools \<Rightarrow> auth_env \<Rightarrow> authenticated_user \<Rightarrow> user request" where
  "first_sign_in T E identity =
     bind (check (argon_hash T (an_password E 0))) (\<lambda>hash.
     bind (query (create_user (au_name identity) hash True)) (\<lambda>u.
     case au_directory_id identity of
       Some i \<Rightarrow> bind (exec (set_directory_id (u_id u) i)) (\<lambda>_. return u)
     | None \<Rightarrow> return u))"

definition rename_target :: "string set \<Rightarrow> string \<Rightarrow> user \<Rightarrow> user request" where
  "rename_target root_users canonical target =
     bind (asks (\<lambda>a. case find_user a canonical of Some u \<Rightarrow> u_id u \<noteq> u_id target | None \<Rightarrow> False)) (\<lambda>name_taken.
     if u_username target \<noteq> canonical \<and> \<not> name_taken \<and> u_username target \<notin> root_users \<and> canonical \<notin> root_users
     then bind (exec (rename_user (u_id target) canonical)) (\<lambda>_.
          bind (account_audit canonical ''RENAME_USER'' (Text ''Renamed as the directory names them'' [S (u_username target), S canonical])) (\<lambda>_.
          return (target\<lparr>u_username := canonical\<rparr>)))
     else return target)"

definition claim_directory_id :: "authenticated_user \<Rightarrow> user \<Rightarrow> unit request" where
  "claim_directory_id identity target =
     (case au_directory_id identity of
        None \<Rightarrow> return ()
      | Some i \<Rightarrow> bind (asks (\<lambda>a. case find_user_by_directory_id a i of None \<Rightarrow> True | Some holder \<Rightarrow> u_id holder = u_id target)) (\<lambda>free.
          if free then exec (set_directory_id (u_id target) i) else return ()))"

definition directory_account ::
    "auth_tools \<Rightarrow> auth_env \<Rightarrow> string set \<Rightarrow> user option \<Rightarrow> authenticated_user \<Rightarrow> user request" where
  "directory_account T E root_users typed identity =
     bind (asks (candidates typed identity)) (\<lambda>cs.
     case target_of identity cs of
       None \<Rightarrow> first_sign_in T E identity
     | Some target \<Rightarrow>
         bind (merge_candidates root_users (au_name identity) target cs) (\<lambda>_.
         bind (rename_target root_users (au_name identity) target) (\<lambda>renamed.
         bind (claim_directory_id identity renamed) (\<lambda>_. return renamed))))"

definition start_session :: "auth_tools \<Rightarrow> auth_env \<Rightarrow> string set \<Rightarrow> verified \<Rightarrow> session request" where
  "start_session T E root_users v =
     (case v of
        VerifiedLocal u \<Rightarrow>
          bind (new_session T E (u_id u)) (\<lambda>s. bind (record_sign_in T s SignLocal) (\<lambda>_. return s))
      | VerifiedDirectory existing identity \<Rightarrow>
          bind (directory_account T E root_users existing identity) (\<lambda>u.
          bind (refresh_provider_identity T (u_id u) (au_display_name identity) (au_email identity)) (\<lambda>_.
          bind (new_session T E (u_id u)) (\<lambda>s. bind (record_sign_in T s SignLdap) (\<lambda>_. return s)))))"

text \<open>
  The login handler. \<open>ldap\<close> is the provider of the stored configuration,
  \<open>groups_for\<close> what the directory answers for a name.
\<close>

definition auth_login ::
    "auth_tools \<Rightarrow> auth_env \<Rightarrow> string set \<Rightarrow> app_error + directory option \<Rightarrow> (accounts \<Rightarrow> string \<Rightarrow> string list) \<Rightarrow> string \<Rightarrow> string \<Rightarrow> session request" where
  "auth_login T E root_users ldap groups_for username password =
     bind (asks get_auth_mode) (\<lambda>mode.
     bind (asks sign_in_source) (\<lambda>source.
     bind (if source = Ldap then check ldap else return None) (\<lambda>dir.
     bind (asks (verify_password_local_first T dir username password)) (\<lambda>result.
     bind (check result) (\<lambda>v.
     bind (asks (\<lambda>a. admins_only mode \<and> \<not> may_sign_in_as_admin root_users username
         (case v of VerifiedLocal u \<Rightarrow> Some u | VerifiedDirectory existing _ \<Rightarrow> existing) (groups_for a username) a)) (\<lambda>refused.
     if refused then fail (admins_only_refusal mode) else start_session T E root_users v))))))"


section \<open>OpenID Connect\<close>

record oidc_flow_state =
  of_state :: string
  of_nonce :: string
  of_pkce_verifier :: string

definition oidc_encode :: "oidc_flow_state \<Rightarrow> string" where
  "oidc_encode f = of_state f @ ''|'' @ of_nonce f @ ''|'' @ of_pkce_verifier f"

text \<open>\<open>splitn(3, '|')\<close>: the third part is the rest.\<close>

definition oidc_decode :: "string \<Rightarrow> oidc_flow_state option" where
  "oidc_decode raw =
     (case split_once (CHR ''|'') raw of
        None \<Rightarrow> None
      | Some (st, rest) \<Rightarrow> (case split_once (CHR ''|'') rest of
            None \<Rightarrow> None
          | Some (nonce, pkce) \<Rightarrow>
              if st \<noteq> [] \<and> nonce \<noteq> [] \<and> pkce \<noteq> []
              then Some \<lparr>of_state = st, of_nonce = nonce, of_pkce_verifier = pkce\<rparr> else None))"

record oidc_claims =
  cl_username :: string
  cl_name :: "string option"
  cl_email :: "string option"
  cl_groups :: "string list"

definition oidc_must_be_the_source :: "unit request" where
  "oidc_must_be_the_source =
     bind (asks sign_in_source) (\<lambda>s.
     if s \<noteq> Oidc then fail (ForbiddenWithReason (Text ''single sign-on is not the sign-in source of this instance'' [])) else return ())"

definition login_oidc ::
    "auth_tools \<Rightarrow> auth_env \<Rightarrow> string \<Rightarrow> string option \<Rightarrow> string option \<Rightarrow> string list \<Rightarrow> string \<Rightarrow> session request" where
  "login_oidc T E username nm email claimed admin_group =
     bind (asks (\<lambda>a. find_user a username)) (\<lambda>found.
     bind (case found of
             Some u \<Rightarrow> if is_service_account u then fail Unauthorized else return u
           | None \<Rightarrow> bind (check (argon_hash T (an_password E 0))) (\<lambda>hash. query (create_user username hash True))) (\<lambda>u.
     bind (if admin_group \<noteq> [] \<and> admin_group \<in> set claimed then grant_role (u_id u) ''admin'' else return ()) (\<lambda>_.
     bind (refresh_provider_identity T (u_id u) nm email) (\<lambda>_.
     bind (new_session T E (u_id u)) (\<lambda>s. bind (record_sign_in T s SignOidc) (\<lambda>_. return s))))))"

text \<open>
  \<open>config\<close> is the admin group of the stored configuration, \<open>exchange\<close> the
  provider's code exchange and ID-token verification.
\<close>

definition oidc_complete ::
    "auth_tools \<Rightarrow> auth_env \<Rightarrow> string set \<Rightarrow> app_error + string option \<Rightarrow> (string \<Rightarrow> string \<Rightarrow> string \<Rightarrow> app_error + oidc_claims) \<Rightarrow>
     string \<Rightarrow> string \<Rightarrow> oidc_flow_state \<Rightarrow> session request" where
  "oidc_complete T E root_users config exchange code callback_state flow =
     (if callback_state \<noteq> of_state flow then fail Unauthorized
      else bind oidc_must_be_the_source (\<lambda>_.
           bind (check config) (\<lambda>stored.
           case stored of
             None \<Rightarrow> fail (BadRequest (Text ''OIDC is not configured'' []))
           | Some admin_group \<Rightarrow>
               bind (check (exchange code (of_pkce_verifier flow) (of_nonce flow))) (\<lambda>c.
               bind (asks get_auth_mode) (\<lambda>mode.
               bind (asks (\<lambda>a. admins_only mode \<and> \<not> (admin_group \<noteq> [] \<and> admin_group \<in> set (cl_groups c)) \<and>
                   \<not> may_sign_in_as_admin root_users (cl_username c) (find_user a (cl_username c)) [] a)) (\<lambda>refused.
               if refused then fail (admins_only_refusal mode)
               else login_oidc T E (cl_username c) (cl_name c) (cl_email c) (cl_groups c) admin_group))))))"

section \<open>Display names and pictures\<close>

definition max_display_name_chars :: nat where "max_display_name_chars = 100"

definition clean_display_name :: "string \<Rightarrow> app_error + string option" where
  "clean_display_name nm =
     (let t = trim nm in
      if char_count t > max_display_name_chars then Inl (BadRequest (Text ''a display name has at most 100 characters'' []))
      else Inr (if t = [] then None else Some t))"

definition user_profile :: "accounts \<Rightarrow> row_id \<Rightarrow> profile_row" where
  "user_profile a uid = (case get_user_profile a uid of Some p \<Rightarrow> p | None \<Rightarrow> empty_profile uid)"

definition profile_sign_in :: "profile_row \<Rightarrow> sign_in_method option" where
  "profile_sign_in p = (case pr_last_sign_in p of None \<Rightarrow> None | Some v \<Rightarrow> sign_in_method_parse v)"

definition display_name_from_provider :: "profile_row \<Rightarrow> bool" where
  "display_name_from_provider p \<longleftrightarrow> profile_sign_in p = Some SignLdap \<or> profile_sign_in p = Some SignOidc"

definition set_own_display_name :: "user \<Rightarrow> string \<Rightarrow> string option request" where
  "set_own_display_name u nm =
     bind (asks (\<lambda>a. display_name_from_provider (user_profile a (u_id u)))) (\<lambda>provided.
     if provided then fail (BadRequest (Text ''your name comes from the directory or the identity provider'' []))
     else bind (check (clean_display_name nm)) (\<lambda>clean. bind (exec (set_display_name (u_id u) clean)) (\<lambda>_. return clean)))"

definition set_service_account_display_name :: "row_id \<Rightarrow> string \<Rightarrow> (string \<times> string option) request" where
  "set_service_account_display_name uid nm =
     bind (asks (\<lambda>a. find (\<lambda>u. u_id u = uid) (list_users a))) (\<lambda>found.
     case found of
       None \<Rightarrow> fail (NotFound (Text ''no such user'' []))
     | Some u \<Rightarrow>
         if \<not> is_service_account u then fail (BadRequest (Text ''only a service account's display name is set by an administrator'' []))
         else bind (check (clean_display_name nm)) (\<lambda>clean. bind (exec (set_display_name uid clean)) (\<lambda>_. return (u_username u, clean))))"

definition profile_gravatar_key :: "profile_row \<Rightarrow> string option" where
  "profile_gravatar_key p = (case pr_own_avatar_hash p of Some h \<Rightarrow> Some h | None \<Rightarrow> pr_avatar_hash p)"

definition contains_white_space :: "string \<Rightarrow> bool" where
  "contains_white_space s \<longleftrightarrow> list_ex (\<lambda>i. leading white_space (drop i s) \<noteq> 0) [0..<length s]"

definition set_own_gravatar_email :: "auth_tools \<Rightarrow> user \<Rightarrow> string \<Rightarrow> bool request" where
  "set_own_gravatar_email T u email =
     bind (asks get_gravatar_enabled) (\<lambda>enabled.
     if \<not> enabled then fail (BadRequest (Text ''Gravatar pictures are switched off'' []))
     else let e = trim email in
       if e = [] then bind (exec (set_own_avatar_hash (u_id u) None)) (\<lambda>_. return False)
       else if CHR ''@'' \<notin> set e \<or> contains_white_space e then fail (BadRequest (Text ''that is not an e-mail address'' []))
       else bind (exec (set_own_avatar_hash (u_id u) (Some (gravatar_key T e)))) (\<lambda>_. return True))"

record account_view =
  av_sign_in :: "sign_in_method option"
  av_gravatar_enabled :: bool
  av_display_name_editable :: bool
  av_own_gravatar :: bool
  av_display_name :: "string option"
  av_gravatar_hash :: "string option"

definition get_account_view :: "auth_tools \<Rightarrow> row_id \<Rightarrow> string option \<Rightarrow> accounts \<Rightarrow> account_view" where
  "get_account_view T uid token a =
     (let p = user_profile a uid in
      \<lparr>av_sign_in = (case token of Some t \<Rightarrow> session_sign_in T t a | None \<Rightarrow> None),
       av_gravatar_enabled = get_gravatar_enabled a, av_display_name_editable = (\<not> display_name_from_provider p),
       av_own_gravatar = (pr_own_avatar_hash p \<noteq> None), av_display_name = pr_display_name p,
       av_gravatar_hash = (if get_gravatar_enabled a then profile_gravatar_key p else None)\<rparr>)"

datatype account_kind = ServiceKind | LocalKind | LdapKind | OidcKind | UnknownKind

fun kind_of_method :: "sign_in_method \<Rightarrow> account_kind" where
  "kind_of_method SignLocal = LocalKind"
| "kind_of_method SignLdap = LdapKind"
| "kind_of_method SignOidc = OidcKind"

definition account_kind_of :: "accounts \<Rightarrow> user \<Rightarrow> account_kind" where
  "account_kind_of a u =
     (if is_service_account u then ServiceKind
      else case profile_sign_in (user_profile a (u_id u)) of Some m \<Rightarrow> kind_of_method m | None \<Rightarrow> UnknownKind)"

section \<open>API tokens\<close>

definition create_api_token_issued ::
    "auth_tools \<Rightarrow> auth_env \<Rightarrow> row_id \<Rightarrow> string \<Rightarrow> nat \<Rightarrow> api_token_scope \<Rightarrow> string option \<Rightarrow> (string \<times> string) request" where
  "create_api_token_issued T E uid nm days scope issued_by =
     (let raw = ''san_'' @ an_api_token E in
      bind (exec (create_token_row \<lparr>tk_id = an_uuid E, tk_user_id = uid, tk_name = nm, tk_hash = sha256_hex T raw,
        tk_scope = api_token_scope_as_str scope, tk_created_at = rfc3339 T (an_now E 0),
        tk_expires_at = rfc3339 T (after (time_tools.truncate T) (an_now E 1) (days_span days)),
        tk_last_used_at = None, tk_issued_by = issued_by\<rparr>)) (\<lambda>_. return (an_uuid E, raw)))"

definition revoke_api_token :: "string \<Rightarrow> row_id \<Rightarrow> bool request" where
  "revoke_api_token tid uid a = (let (gone, a') = delete_api_token tid uid a in (Inr gone, a'))"

text \<open>A minute between two stamps; an unreadable one is due. The bare form of older rows is read by \<open>naive_utc\<close>.\<close>

definition last_used_stamp_due :: "auth_tools \<Rightarrow> (stamp \<Rightarrow> int option) \<Rightarrow> stamp option \<Rightarrow> int \<Rightarrow> bool" where
  "last_used_stamp_due T naive_utc stamped_at now =
     (case stamped_at of
        None \<Rightarrow> True
      | Some s \<Rightarrow> (case (case parse_rfc3339 T s of Some t \<Rightarrow> Some t | None \<Rightarrow> naive_utc s) of
            Some stamped \<Rightarrow> now - stamped \<ge> 60
          | None \<Rightarrow> True))"

definition validate_api_token ::
    "auth_tools \<Rightarrow> auth_env \<Rightarrow> (stamp \<Rightarrow> int option) \<Rightarrow> string \<Rightarrow> accounts \<Rightarrow> token_identity option \<times> accounts" where
  "validate_api_token T E naive_utc raw a =
     (case token_identity_of T (an_sql_now E) (sha256_hex T raw) a of
        None \<Rightarrow> (None, a)
      | Some i \<Rightarrow> (Some i, if last_used_stamp_due T naive_utc (ti_last_used_at i) (an_now E 0)
                       then touch_api_token (ti_token_id i) (rfc3339 T (an_now E 0)) a else a))"

section \<open>Service accounts\<close>

definition create_service_account :: "string set \<Rightarrow> string \<Rightarrow> user request" where
  "create_service_account root_users username =
     (let nm = trim username in
      if nm = [] \<or> contains_white_space nm then fail (BadRequest (Text ''a service account needs a name without spaces'' []))
      else if nm \<in> root_users then fail (Conflict (Text ''This username is reserved'' []))
      else bind (asks (\<lambda>a. find_user a nm)) (\<lambda>found.
        if found \<noteq> None then fail (Conflict (Text ''User already exists'' []))
        else query (create_user nm service_account_password_hash True)))"

definition service_accounts :: "accounts \<Rightarrow> user list" where
  "service_accounts a = filter is_service_account (list_users a)"

definition list_tokens_for :: "actor \<Rightarrow> accounts \<Rightarrow> (api_token_row \<times> string option) list" where
  "list_tokens_for who a =
     map (\<lambda>t. (t, None)) (list_api_tokens a (a_user_id who)) @
     (if has_permission who ManageUsers
      then concat (map (\<lambda>u. map (\<lambda>t. (t, Some (u_username u))) (list_api_tokens a (u_id u))) (service_accounts a)) else [])"

record token_request =
  tr_name :: string
  tr_expires_in_days :: nat
  tr_scope :: api_token_scope
  tr_for_user :: "string option"

definition issue_token :: "auth_tools \<Rightarrow> auth_env \<Rightarrow> actor \<Rightarrow> token_request \<Rightarrow> (string \<times> string) request" where
  "issue_token T E who r =
     (case (case tr_for_user r of Some u \<Rightarrow> if u = [] then None else Some u | None \<Rightarrow> None) of
        None \<Rightarrow> create_api_token_issued T E (a_user_id who) (tr_name r) (tr_expires_in_days r) (tr_scope r) None
      | Some for_user \<Rightarrow>
          if \<not> has_permission who ManageUsers
          then fail (ForbiddenWithReason (Text ''issuing a token for a service account needs manage_users'' []))
          else bind (asks (\<lambda>a. find_user a for_user)) (\<lambda>found.
            case (case found of Some u \<Rightarrow> if is_service_account u then Some u else None | None \<Rightarrow> None) of
              None \<Rightarrow> fail (BadRequest (Text ''is not a service account; tokens are issued only for those'' [S for_user]))
            | Some u \<Rightarrow> create_api_token_issued T E (u_id u) (tr_name r) (tr_expires_in_days r) (tr_scope r) (Some (a_username who))))"

fun revoke_among :: "string \<Rightarrow> user list \<Rightarrow> bool request" where
  "revoke_among tid [] a = (Inr False, a)"
| "revoke_among tid (u # us) a =
     (case delete_api_token tid (u_id u) a of (True, a') \<Rightarrow> (Inr True, a') | (False, a') \<Rightarrow> revoke_among tid us a')"

definition revoke_token_as :: "actor \<Rightarrow> string \<Rightarrow> bool request" where
  "revoke_token_as who tid a =
     (case delete_api_token tid (a_user_id who) a of
        (True, a') \<Rightarrow> (Inr True, a')
      | (False, a') \<Rightarrow> if has_permission who ManageUsers then revoke_among tid (service_accounts a') a' else (Inr False, a'))"


end
