(* ===== verification/Sign_In_Rules.thy ===== *)
theory Sign_In_Rules
  imports Sign_In
begin

text \<open>
  What sign-in promises: who can be signed in, what a session and a token stand
  for, and what a directory sign-in does to the accounts of one person.
\<close>

section \<open>The invariant of the accounts\<close>

text \<open>
  Only people have sessions, for a service account never signs in; the dev user
  may keep those it had before it was locked.
\<close>

definition is_person :: "accounts \<Rightarrow> row_id \<Rightarrow> bool" where
  "is_person a uid \<longleftrightarrow> (\<exists>u \<in> set (ac_users a). u_id u = uid \<and> \<not> is_service_account u)"

definition holder :: "user \<Rightarrow> bool" where
  "holder u \<longleftrightarrow> \<not> is_service_account u \<or> u_username u = dev_user"

definition may_hold :: "accounts \<Rightarrow> row_id \<Rightarrow> bool" where
  "may_hold a uid \<longleftrightarrow> (\<exists>u \<in> set (ac_users a). u_id u = uid \<and> holder u)"

definition people_only :: "accounts \<Rightarrow> bool" where
  "people_only a \<longleftrightarrow> (\<forall>s \<in> set (ac_sessions a). may_hold a (ss_user_id s))"

definition accounts_inv :: "accounts \<Rightarrow> bool" where
  "accounts_inv a \<longleftrightarrow> accounts_ok a \<and> people_only a"

lemmas accounts_inv_defs = accounts_inv_def accounts_ok_def people_only_def may_hold_def holder_def

text \<open>The marker of a service account is no Argon2 hash: none is ever produced, and none matches it.\<close>

definition marker_locked :: "auth_tools \<Rightarrow> bool" where
  "marker_locked T \<longleftrightarrow> (\<forall>p. argon_verify T p service_account_password_hash \<noteq> Inr True \<and>
     argon_hash T p \<noteq> Inr service_account_password_hash)"

lemma user_by_id_in: "user_by_id a uid = Some u \<Longrightarrow> u \<in> set (ac_users a) \<and> u_id u = uid"
  unfolding user_by_id_def by (rule find_Some_in)

lemma find_user_in: "find_user a nm = Some u \<Longrightarrow> u \<in> set (ac_users a) \<and> u_username u = nm"
  unfolding find_user_def by (rule find_Some_in)

lemma user_by_id_unique:
  assumes "accounts_ok a" and "u \<in> set (ac_users a)"
  shows "user_by_id a (u_id u) = Some u"
  using assms find_unique[of u_id "ac_users a" u] by (simp add: user_by_id_def accounts_ok_def)

lemma find_user_unique:
  assumes "accounts_ok a" and "u \<in> set (ac_users a)"
  shows "find_user a (u_username u) = Some u"
  using assms find_unique[of u_username "ac_users a" u] by (simp add: find_user_def accounts_ok_def)

lemma user_by_id_None: "user_by_id a uid = None \<longleftrightarrow> uid \<notin> u_id ` set (ac_users a)"
  by (auto simp: user_by_id_def find_None_not)

lemma update_keeps [simp]:
  assumes "\<And>r. key (f r) = key r"
  shows "map key (update_where p f rs) = map key rs"
  by (induction rs) (simp_all add: assms update_where_def)

lemma person_holds: "is_person a uid \<Longrightarrow> may_hold a uid"
  by (auto simp: is_person_def may_hold_def holder_def)

lemma hold_update:
  assumes "\<And>u. u_id (f u) = u_id u" and "\<And>u. u \<in> set (ac_users a) \<Longrightarrow> p u \<Longrightarrow> holder u \<Longrightarrow> holder (f u)"
    and "ac_users a' = update_where p f (ac_users a)" and "may_hold a uid"
  shows "may_hold a' uid"
proof -
  obtain u where u: "u \<in> set (ac_users a)" "u_id u = uid" "holder u" using assms(4) by (auto simp: may_hold_def)
  let ?u = "if p u then f u else u"
  have "?u \<in> set (ac_users a')" using u(1) by (auto simp: assms(3) sql)
  moreover have "u_id ?u = uid" "holder ?u" using u assms(1,2) by auto
  ultimately show ?thesis unfolding may_hold_def by blast
qed

lemma person_update:
  assumes "\<And>u. u_id (f u) = u_id u" and "\<And>u. is_service_account (f u) \<Longrightarrow> is_service_account u"
    and "ac_users a' = update_where p f (ac_users a)"
  shows "is_person a uid \<Longrightarrow> is_person a' uid"
proof -
  assume "is_person a uid"
  then obtain u where u: "u \<in> set (ac_users a)" "u_id u = uid" "\<not> is_service_account u" by (auto simp: is_person_def)
  let ?u = "if p u then f u else u"
  have "?u \<in> set (ac_users a')" using u(1) by (auto simp: assms(3) sql)
  moreover have "u_id ?u = uid" "\<not> is_service_account ?u" using u(2,3) assms(1,2) by auto
  ultimately show ?thesis unfolding is_person_def by blast
qed

lemma person_update_marked:
  assumes "is_person a v" and "hash \<noteq> service_account_password_hash"
  shows "is_person (update_password uid hash a) v"
proof -
  obtain u where u: "u \<in> set (ac_users a)" "u_id u = v" "\<not> is_service_account u" using assms(1) by (auto simp: is_person_def)
  let ?u = "if u_id u = uid then u\<lparr>u_password_hash := hash\<rparr> else u"
  have "?u \<in> set (ac_users (update_password uid hash a))" using u(1) by (auto simp: update_password_def sql)
  moreover have "u_id ?u = v" "\<not> is_service_account ?u" using u(2,3) assms(2) by (auto simp: is_service_account_def)
  ultimately show ?thesis unfolding is_person_def by blast
qed

section \<open>Writes keep the invariant\<close>

lemma inv_frame:
  assumes "accounts_inv a" and "ac_users a' = ac_users a" "ac_next_user a' = ac_next_user a" "ac_sessions a' = ac_sessions a" "ac_tokens a' = ac_tokens a"
  shows "accounts_inv a'"
  using assms by (simp add: accounts_inv_defs)

lemma inv_create_user: "create_user nm hash approved a = Inr (u, a') \<Longrightarrow> accounts_inv a \<Longrightarrow> accounts_inv a'"
  unfolding accounts_inv_defs create_user_def
  by (auto simp: find_user_def find_None_not Let_def less_Suc_eq image_iff split: if_splits) (metis less_irrefl)+

lemma inv_users:
  assumes "accounts_inv a" and "ac_users a' = update_where p f (ac_users a)" and "\<And>u. u_id (f u) = u_id u"
    and "\<And>u. u \<in> set (ac_users a) \<Longrightarrow> p u \<Longrightarrow> holder u \<Longrightarrow> holder (f u)" and "distinct (map u_username (ac_users a'))"
    and "ac_next_user a' = ac_next_user a" "ac_sessions a' = ac_sessions a" "ac_tokens a' = ac_tokens a"
  shows "accounts_inv a'"
proof -
  have ids: "map u_id (ac_users a') = map u_id (ac_users a)" using assms(2,3) by simp
  then have "u_id ` set (ac_users a') = u_id ` set (ac_users a)" by (metis set_map)
  moreover have "may_hold a' uid" if "may_hold a uid" for uid
    by (rule hold_update[OF assms(3,4,2) that])
  moreover have "\<forall>u \<in> set (ac_users a'). u_id u < ac_next_user a'"
  proof
    fix u assume "u \<in> set (ac_users a')"
    then have "u_id u \<in> u_id ` set (ac_users a)" using calculation(1) by blast
    with assms(1,6) show "u_id u < ac_next_user a'" by (auto simp: accounts_inv_def accounts_ok_def)
  qed
  ultimately show ?thesis using assms ids by (simp add: accounts_inv_def accounts_ok_def people_only_def)
qed

lemma inv_update_password: "hash \<noteq> service_account_password_hash \<Longrightarrow> accounts_inv a \<Longrightarrow> accounts_inv (update_password uid hash a)"
  by (rule inv_users[of a _ "\<lambda>u. u_id u = uid" "u_password_hash_update (\<lambda>_. hash)"])
    (simp_all add: update_password_def is_service_account_def holder_def, simp add: accounts_inv_def accounts_ok_def)

lemma inv_approve: "accounts_inv a \<Longrightarrow> accounts_inv (snd (repo_approve_user uid a))"
  by (rule inv_users[of a _ "\<lambda>u. u_id u = uid \<and> \<not> u_approved u" "u_approved_update (\<lambda>_. True)"])
    (simp_all add: repo_approve_user_def is_service_account_def holder_def, simp add: accounts_inv_def accounts_ok_def)

lemma distinct_rename:
  assumes "distinct (map u_username us)" "distinct (map u_id us)" and "\<And>u. u \<in> set us \<Longrightarrow> u_username u = nm \<Longrightarrow> u_id u = uid"
  shows "distinct (map u_username (update_where (\<lambda>u. u_id u = uid) (u_username_update (\<lambda>_. nm)) us))"
  using assms
proof (induction us)
  case (Cons u us)
  then have IH: "distinct (map u_username (update_where (\<lambda>u. u_id u = uid) (u_username_update (\<lambda>_. nm)) us))" by simp
  let ?new = "\<lambda>v. if u_id v = uid then v\<lparr>u_username := nm\<rparr> else v"
  have "u_username (?new u) \<noteq> u_username (?new v)" if v: "v \<in> set us" for v
  proof -
    have ids: "u_id u \<noteq> u_id v" and names: "u_username u \<noteq> u_username v" using Cons.prems(1,2) v by (auto simp: image_iff)
    have "u_username u = nm \<Longrightarrow> u_id u = uid" "u_username v = nm \<Longrightarrow> u_id v = uid" using Cons.prems(3) v by auto
    with ids names show ?thesis by (cases "u_id u = uid"; cases "u_id v = uid") auto
  qed
  then have "u_username (?new u) \<notin> (\<lambda>v. u_username (?new v)) ` set us" by blast
  with IH show ?case unfolding update_where_def list.map distinct.simps set_map image_image by blast
qed (simp add: update_where_def)

lemma inv_rename:
  assumes "rename_user uid nm a = Inr a'" and "accounts_inv a" and "is_person a uid"
  shows "accounts_inv a'"
proof (rule inv_users[OF assms(2), of _ "\<lambda>u. u_id u = uid" "u_username_update (\<lambda>_. nm)"])
  show "ac_users a' = update_where (\<lambda>u. u_id u = uid) (u_username_update (\<lambda>_. nm)) (ac_users a)" 
    using assms(1) by (auto simp: rename_user_def split: if_splits)
  then show "distinct (map u_username (ac_users a'))"
    using assms by (auto simp: rename_user_def accounts_inv_def accounts_ok_def exists_row_iff intro!: distinct_rename split: if_splits)
next
  fix u assume u: "u \<in> set (ac_users a)" "u_id u = uid"
  have "\<not> is_service_account u"
    using assms(2,3) u by (auto simp: is_person_def accounts_inv_def accounts_ok_def distinct_map dest: inj_onD)
  then show "holder (u_username_update (\<lambda>_. nm) u)" by (simp add: holder_def is_service_account_def)
qed (use assms(1) in \<open>auto simp: rename_user_def split: if_splits\<close>)

lemma inv_drop: "accounts_inv a \<Longrightarrow> accounts_inv (drop_accounts p a)"
proof -
  assume inv: "accounts_inv a"
  have ids: "u \<in> set (ac_users a) \<Longrightarrow> v \<in> set (ac_users a) \<Longrightarrow> u_id u = u_id v \<Longrightarrow> u = v" for u v
    using inv by (auto simp: accounts_inv_def accounts_ok_def distinct_map dest: inj_onD)
  have kept: "\<not> p u" if "u \<in> set (ac_users a)" "u_id u \<notin> u_id ` {u \<in> set (ac_users a). p u}" for u
    using that by blast
  have "may_hold (drop_accounts p a) (ss_user_id s)" if "s \<in> set (ac_sessions (drop_accounts p a))" for s
  proof -
    have s: "s \<in> set (ac_sessions a)" "ss_user_id s \<notin> u_id ` {u \<in> set (ac_users a). p u}"
      using that by (auto simp: drop_accounts_def Let_def delete_where_def)
    then obtain u where "u \<in> set (ac_users a)" "u_id u = ss_user_id s" "holder u"
      using inv by (auto simp: accounts_inv_def people_only_def may_hold_def)
    with s(2) kept[of u] show ?thesis unfolding may_hold_def drop_accounts_def Let_def by (auto simp: delete_where_def)
  qed
  moreover have "tk_user_id t \<in> u_id ` set (ac_users (drop_accounts p a))" if "t \<in> set (ac_tokens (drop_accounts p a))" for t
  proof -
    have t: "t \<in> set (ac_tokens a)" "tk_user_id t \<notin> u_id ` {u \<in> set (ac_users a). p u}"
      using that by (auto simp: drop_accounts_def Let_def delete_where_def)
    then obtain u where "u \<in> set (ac_users a)" "u_id u = tk_user_id t" using inv by (auto simp: accounts_inv_def accounts_ok_def)
    with t(2) kept[of u] show ?thesis unfolding drop_accounts_def Let_def by (auto simp: delete_where_def image_iff)
  qed
  moreover have "ss_user_id s \<in> u_id ` set (ac_users (drop_accounts p a))" if "s \<in> set (ac_sessions (drop_accounts p a))" for s
    using calculation(1)[OF that] unfolding may_hold_def by (metis imageI)
  ultimately show ?thesis using inv unfolding accounts_inv_def accounts_ok_def people_only_def
    by (auto simp: drop_accounts_def Let_def delete_where_def intro!: distinct_map_filter)
qed

lemma inv_session:
  assumes "create_session_with_token T uid token expires a = Inr (s, a')" and "accounts_inv a" and "is_person a uid"
  shows "accounts_inv a'"
proof -
  have a': "ac_sessions a' = ac_sessions a @ [\<lparr>ss_token_hash = sha256_hex T token, ss_user_id = uid, ss_expires_at = expires, ss_sign_in = None\<rparr>]"
    "ac_users a' = ac_users a" "ac_next_user a' = ac_next_user a" "ac_tokens a' = ac_tokens a"
    and fresh: "sha256_hex T token \<notin> ss_token_hash ` set (ac_sessions a)" and owner: "uid \<in> u_id ` set (ac_users a)"
    using assms(1) by (auto simp: create_session_with_token_def exists_row_iff user_by_id_None Let_def split: if_splits)
  then show ?thesis using assms(2) person_holds[OF assms(3)] by (simp add: accounts_inv_def accounts_ok_def people_only_def may_hold_def)
qed

lemma inv_fewer_sessions:
  assumes "accounts_inv a" and "ac_sessions a' = filter p (ac_sessions a)" "ac_tokens a' = filter q (ac_tokens a)"
    "ac_users a' = ac_users a" "ac_next_user a' = ac_next_user a"
  shows "accounts_inv a'"
  using assms unfolding accounts_inv_defs by (auto simp: distinct_map_filter)

lemma inv_token:
  assumes "create_token_row t a = Inr a'" and "accounts_inv a"
  shows "accounts_inv a'"
proof -
  have a': "a' = a\<lparr>ac_tokens := ac_tokens a @ [t]\<rparr>" and owner: "tk_user_id t \<in> u_id ` set (ac_users a)"
    and fresh: "tk_id t \<notin> tk_id ` set (ac_tokens a)" "tk_hash t \<notin> tk_hash ` set (ac_tokens a)"
      "(tk_user_id t, tk_name t) \<notin> (\<lambda>t. (tk_user_id t, tk_name t)) ` set (ac_tokens a)"
    using assms(1) by (auto simp: create_token_row_def exists_row_iff user_by_id_None split: if_splits)
  then show ?thesis using assms(2) by (simp add: accounts_inv_def accounts_ok_def people_only_def may_hold_def)
qed

text \<open>Merging hands the sessions of one person to another.\<close>

lemma inv_merge:
  assumes "merge_accounts from into a = Inr a'" and "accounts_inv a" and "is_person a into"
  shows "accounts_inv a'"
proof -
  let ?m = "move_account_rows from into a"
  have tokens: "from = into \<or> \<not> (\<exists>t \<in> set (ac_tokens a). \<exists>t' \<in> set (ac_tokens a). tk_user_id t = from \<and> tk_user_id t' = into \<and> tk_name t' = tk_name t)"
    using assms(1) by (auto simp: merge_accounts_def same_token_names_def list_ex_iff split: if_splits)
  have into: "into \<in> u_id ` set (ac_users a)" using assms(3) by (auto simp: is_person_def)
  have ok: "accounts_ok a" "people_only a" using assms(2) by (simp_all add: accounts_inv_def)
  let ?f = "\<lambda>t. if tk_user_id t = from then t\<lparr>tk_user_id := into\<rparr> else t"
  have names: "inj_on (\<lambda>t. (tk_user_id t, tk_name t)) (set (ac_tokens a))" "distinct (ac_tokens a)"
    using ok(1) by (simp_all add: accounts_ok_def distinct_map)
  have "inj_on (\<lambda>t. (tk_user_id (?f t), tk_name (?f t))) (set (ac_tokens a))"
  proof (rule inj_onI)
    fix t t' assume t: "t \<in> set (ac_tokens a)" "t' \<in> set (ac_tokens a)"
      and same: "(tk_user_id (?f t), tk_name (?f t)) = (tk_user_id (?f t'), tk_name (?f t'))"
    then have "tk_name t = tk_name t'" by (simp split: if_splits)
    moreover have "tk_user_id t = tk_user_id t'"
    proof (rule ccontr)
      assume "tk_user_id t \<noteq> tk_user_id t'"
      with same have "tk_user_id t = from \<and> tk_user_id t' = into \<and> from \<noteq> into \<or> tk_user_id t' = from \<and> tk_user_id t = into \<and> from \<noteq> into"
        by (auto split: if_splits)
      with tokens t \<open>tk_name t = tk_name t'\<close> show False by metis
    qed
    ultimately show "t = t'" using names(1) t by (auto dest: inj_onD)
  qed
  then have pairs: "distinct (map (\<lambda>t. (tk_user_id t, tk_name t)) (ac_tokens ?m))"
    using names(2) by (simp add: move_account_rows_def update_where_def Let_def distinct_map o_def)
  have "accounts_ok ?m"
    unfolding accounts_ok_def
  proof (intro conjI)
    show "distinct (map (\<lambda>t. (tk_user_id t, tk_name t)) (ac_tokens ?m))" by (rule pairs)
  qed (use ok(1) into in \<open>simp_all add: move_account_rows_def Let_def accounts_ok_def, auto simp: sql\<close>)
  moreover have "people_only ?m"
    using ok(2) person_holds[OF assms(3)] unfolding people_only_def may_hold_def by (auto simp: move_account_rows_def Let_def sql)
  ultimately have "accounts_inv ?m" by (simp add: accounts_inv_def)
  with inv_drop assms(1) show ?thesis by (auto simp: merge_accounts_def split: if_splits)
qed

lemma merge_keeps_others:
  assumes "merge_accounts from into a = Inr a'"
  shows "ac_users a' = filter (\<lambda>u. u_id u \<noteq> from) (ac_users a)"
  using assms by (auto simp: merge_accounts_def drop_accounts_def move_account_rows_def Let_def delete_where_def split: if_splits)

section \<open>Requests keep the invariant\<close>

definition keeps :: "(accounts \<Rightarrow> bool) \<Rightarrow> 'a request \<Rightarrow> ('a \<Rightarrow> accounts \<Rightarrow> bool) \<Rightarrow> bool" where
  "keeps P m Q \<longleftrightarrow> (\<forall>a r a'. accounts_inv a \<longrightarrow> P a \<longrightarrow> m a = (r, a') \<longrightarrow> accounts_inv a' \<and> (\<forall>x. r = Inr x \<longrightarrow> Q x a'))"

named_theorems keep

lemma keepsI:
  "(\<And>a r a'. accounts_inv a \<Longrightarrow> P a \<Longrightarrow> m a = (r, a') \<Longrightarrow> accounts_inv a' \<and> (\<forall>x. r = Inr x \<longrightarrow> Q x a')) \<Longrightarrow> keeps P m Q"
  unfolding keeps_def by blast

lemma keepsD:
  assumes "keeps P m Q" and "m a = (r, a')" and "accounts_inv a" and "P a"
  shows "accounts_inv a'" "r = Inr x \<Longrightarrow> Q x a'"
  using assms unfolding keeps_def by blast+

lemma keeps_bind [keep]:
  assumes "keeps P m Q" and "\<And>x. keeps (Q x) (f x) R"
  shows "keeps P (bind m f) R"
proof (rule keepsI)
  fix a r a' assume a: "accounts_inv a" "P a" and run: "bind m f a = (r, a')"
  obtain r1 a1 where m: "m a = (r1, a1)" by (cases "m a")
  note first = keepsD[OF assms(1) m a]
  show "accounts_inv a' \<and> (\<forall>x. r = Inr x \<longrightarrow> R x a')"
  proof (cases r1)
    case (Inl e)
    with m run first(1) show ?thesis by (auto simp: bind_def)
  next
    case (Inr x)
    with m run have "f x a1 = (r, a')" by (simp add: bind_def)
    with keepsD[OF assms(2)] first Inr show ?thesis by blast
  qed
qed

lemma keeps_fail [keep]: "keeps P (fail e) Q"
  by (rule keepsI) (auto simp: fail_def)

lemma keeps_return [keep]: "(\<And>a. accounts_inv a \<Longrightarrow> P a \<Longrightarrow> Q x a) \<Longrightarrow> keeps P (return x) Q"
  by (rule keepsI) (auto simp: return_def)

lemma keeps_asks [keep]: "(\<And>a. accounts_inv a \<Longrightarrow> P a \<Longrightarrow> Q (f a) a) \<Longrightarrow> keeps P (asks f) Q"
  by (rule keepsI) (auto simp: asks_def)

lemma keeps_check [keep]: "(\<And>a x. accounts_inv a \<Longrightarrow> P a \<Longrightarrow> r = Inr x \<Longrightarrow> Q x a) \<Longrightarrow> keeps P (check r) Q"
  by (rule keepsI, cases r) (auto simp: check_def)

lemma keeps_modify [keep]: "(\<And>a. accounts_inv a \<Longrightarrow> P a \<Longrightarrow> accounts_inv (f a) \<and> Q () (f a)) \<Longrightarrow> keeps P (modify f) Q"
  by (rule keepsI) (auto simp: modify_def)

lemma keeps_query [keep]:
  assumes step: "\<And>a x a'. accounts_inv a \<Longrightarrow> P a \<Longrightarrow> q a = Inr (x, a') \<Longrightarrow> accounts_inv a' \<and> Q x a'"
  shows "keeps P (query q) Q"
proof (rule keepsI)
  fix a r a'
  assume a: "accounts_inv a" "P a" and run: "query q a = (r, a')"
  show "accounts_inv a' \<and> (\<forall>x. r = Inr x \<longrightarrow> Q x a')"
    using step[OF a] run a by (cases "q a") (auto simp: query_def split: prod.splits)
qed

lemma keeps_exec [keep]:
  assumes step: "\<And>a a'. accounts_inv a \<Longrightarrow> P a \<Longrightarrow> q a = Inr a' \<Longrightarrow> accounts_inv a' \<and> Q () a'"
  shows "keeps P (exec q) Q"
proof (rule keepsI)
  fix a r a'
  assume a: "accounts_inv a" "P a" and run: "exec q a = (r, a')"
  show "accounts_inv a' \<and> (\<forall>x. r = Inr x \<longrightarrow> Q x a')"
    using step[OF a] run a by (cases "q a") (auto simp: exec_def split: prod.splits)
qed

lemma keeps_pre: "keeps P' m Q \<Longrightarrow> (\<And>a. accounts_inv a \<Longrightarrow> P a \<Longrightarrow> P' a) \<Longrightarrow> keeps P m Q"
  unfolding keeps_def by blast

lemma keeps_when: "(c \<Longrightarrow> keeps P m Q) \<Longrightarrow> (\<not> c \<Longrightarrow> keeps P m' Q) \<Longrightarrow> keeps P (if c then m else m') Q"
  by simp

text \<open>What the steps of a sign-in write.\<close>

lemma person_frame: "ac_users a' = ac_users a \<Longrightarrow> is_person a' uid = is_person a uid"
  by (simp add: is_person_def)

lemma profile_frame:
  assumes "upsert_profile uid f a = Inr a'"
  shows "ac_users a' = ac_users a" "ac_next_user a' = ac_next_user a" "ac_sessions a' = ac_sessions a" "ac_tokens a' = ac_tokens a"
  using assms by (auto simp: upsert_profile_def split: if_splits option.splits)

lemma inv_profile: "upsert_profile uid f a = Inr a' \<Longrightarrow> accounts_inv a \<Longrightarrow> accounts_inv a' \<and> (is_person a' v \<longleftrightarrow> is_person a v)"
  using profile_frame[of uid f a a'] inv_frame[of a a'] person_frame[of a' a v] by blast

lemma keeps_profile: "keeps (\<lambda>a. is_person a v) (exec (upsert_profile uid f)) (\<lambda>_ a. is_person a v)"
  by (rule keeps_exec) (use inv_profile in blast)

lemma keeps_sign_in: "keeps (\<lambda>a. is_person a v) (record_sign_in T s m) (\<lambda>_ a. is_person a v)"
proof -
  have "keeps (\<lambda>a. is_person a v) (modify (set_session_sign_in T (se_token s) m)) (\<lambda>_ a. is_person a v)"
  proof (rule keeps_modify)
    fix a assume inv: "accounts_inv a" "is_person a v"
    let ?a = "set_session_sign_in T (se_token s) m a"
    have "map ss_token_hash (ac_sessions ?a) = map ss_token_hash (ac_sessions a)" "map ss_user_id (ac_sessions ?a) = map ss_user_id (ac_sessions a)"
      by (simp_all add: set_session_sign_in_def)
    then have users: "ss_user_id ` set (ac_sessions ?a) = ss_user_id ` set (ac_sessions a)"
      and hashes: "distinct (map ss_token_hash (ac_sessions ?a)) = distinct (map ss_token_hash (ac_sessions a))" by (metis set_map, simp)
    have each: "(\<forall>s \<in> set (ac_sessions ?a). R (ss_user_id s)) \<longleftrightarrow> (\<forall>s \<in> set (ac_sessions a). R (ss_user_id s))" for R
      using users by (metis (no_types, lifting) image_iff)
    have frame: "ac_users ?a = ac_users a" "ac_next_user ?a = ac_next_user a" "ac_tokens ?a = ac_tokens a"
      by (simp_all add: set_session_sign_in_def)
    have persons: "is_person ?a = is_person a" by (simp add: fun_eq_iff is_person_def frame)
    have holders: "may_hold ?a = may_hold a" by (simp add: fun_eq_iff may_hold_def frame)
    have "people_only ?a = people_only a" unfolding people_only_def holders by (rule each)
    moreover have "accounts_ok ?a = accounts_ok a"
      unfolding accounts_ok_def frame hashes each[of "\<lambda>i. i \<in> u_id ` set (ac_users a)"] by (rule refl)
    ultimately show "accounts_inv ?a \<and> is_person ?a v" using inv persons by (simp add: accounts_inv_def)
  qed
  then show ?thesis unfolding record_sign_in_def record_user_sign_in_def by (rule keeps_bind) (rule keeps_profile)
qed

lemma keeps_new_session: "keeps (\<lambda>a. is_person a uid) (new_session T E uid) (\<lambda>s a. is_person a uid \<and> se_user_id s = uid \<and> se_token s = an_session_token E)"
  unfolding new_session_def
proof (rule keeps_query)
  fix a s a' assume "accounts_inv a" "is_person a uid" and new: "create_session_with_token T uid (an_session_token E) (session_expiry T E) a = Inr (s, a')"
  moreover have "ac_users a' = ac_users a" "se_user_id s = uid" "se_token s = an_session_token E"
    using new by (auto simp: create_session_with_token_def Let_def split: if_splits)
  ultimately show "accounts_inv a' \<and> is_person a' uid \<and> se_user_id s = uid \<and> se_token s = an_session_token E"
    using inv_session person_frame[of a' a uid] by blast
qed

text \<open>Every sign-in ends this way.\<close>

lemma keeps_session_tail:
  "keeps (\<lambda>a. is_person a uid) (bind (new_session T E uid) (\<lambda>s. bind (record_sign_in T s m) (\<lambda>_. return (f s))))
     (\<lambda>_ a. is_person a uid)"
proof (rule keeps_bind[OF keeps_new_session])
  fix s
  have "keeps (\<lambda>a. is_person a uid) (bind (record_sign_in T s m) (\<lambda>_. return (f s))) (\<lambda>_ a. is_person a uid)"
    by (rule keeps_bind[OF keeps_sign_in keeps_return])
  then show "keeps (\<lambda>a. is_person a uid \<and> se_user_id s = uid \<and> se_token s = an_session_token E)
      (bind (record_sign_in T s m) (\<lambda>_. return (f s))) (\<lambda>_ a. is_person a uid)"
    by (rule keeps_pre) blast
qed

text \<open>The session is the person's.\<close>

lemma keeps_person_session:
  "keeps (\<lambda>a. is_person a uid) (bind (new_session T E uid) (\<lambda>s. bind (record_sign_in T s m) (\<lambda>_. return s))) (\<lambda>s a. is_person a (se_user_id s))"
proof (rule keeps_bind[OF keeps_new_session])
  fix s
  show "keeps (\<lambda>a. is_person a uid \<and> se_user_id s = uid \<and> se_token s = an_session_token E)
      (bind (record_sign_in T s m) (\<lambda>_. return s)) (\<lambda>s a. is_person a (se_user_id s))"
  proof (cases "se_user_id s = uid")
    case True
    then show ?thesis
      by (intro keeps_pre[where P' = "\<lambda>a. is_person a uid", OF keeps_bind[OF keeps_sign_in keeps_return]]) simp_all
  qed (simp add: keeps_def)
qed

lemma keeps_create_user:
  "keeps P (query (create_user nm hash approved)) (\<lambda>u a. u \<in> set (ac_users a) \<and> u_username u = nm \<and> u_password_hash u = hash)"
  by (rule keeps_query) (auto simp: inv_create_user create_user_def Let_def split: if_splits)


text \<open>The account of a directory entry.\<close>

lemma set_consider_user: "c \<in> set (consider_user cs found) \<Longrightarrow> c \<in> set cs \<or> found = Some c \<and> \<not> is_service_account c"
  by (auto simp: consider_user_def split: option.splits if_splits)

lemma candidate_is_person:
  assumes "c \<in> set (candidates typed identity a)" and "\<And>u. typed = Some u \<Longrightarrow> u \<in> set (ac_users a)"
  shows "c \<in> set (ac_users a) \<and> \<not> is_service_account c"
proof -
  have found: "u \<in> set (ac_users a)" if "find_user_by_directory_id a i = Some u \<or> find_user a nm = Some u" for u i nm
    using that user_by_id_in[of a _ u] find_user_in[of a nm u] by (auto simp: find_user_by_directory_id_def split: option.splits)
  show ?thesis
    using assms(1) found assms(2) by (auto simp: candidates_def Let_def dest!: set_consider_user split: option.splits)
qed

lemma keeps_audit: "keeps (\<lambda>a. is_person a v) (account_audit who action details) (\<lambda>_ a. is_person a v)"
  unfolding account_audit_def
proof (rule keeps_modify)
  fix a assume a: "accounts_inv a" "is_person a v"
  let ?a = "a\<lparr>ac_db := insert_audit_log \<lparr>au_username = who, au_action = action, au_details = details, au_service = None,
       au_version = None, au_action_type = Some ''ADMIN''\<rparr> (ac_db a)\<rparr>"
  show "accounts_inv ?a \<and> is_person ?a v" using inv_frame[OF a(1), of ?a] person_frame[of ?a a v] a(2) by simp
qed

lemma keeps_merge:
  assumes "u_id c \<noteq> u_id target"
  shows "keeps (\<lambda>a. is_person a (u_id target)) (exec (merge_accounts (u_id c) (u_id target))) (\<lambda>_ a. is_person a (u_id target))"
proof (rule keeps_exec)
  fix a a' assume a: "accounts_inv a" "is_person a (u_id target)" and merge: "merge_accounts (u_id c) (u_id target) a = Inr a'"
  then show "accounts_inv a' \<and> is_person a' (u_id target)"
    using inv_merge[OF merge a] assms by (auto simp: is_person_def merge_keeps_others[OF merge])
qed

lemma keeps_merge_candidates:
  "keeps (\<lambda>a. is_person a (u_id target)) (merge_candidates R canonical target cs) (\<lambda>_ a. is_person a (u_id target))"
proof (induction cs)
  case (Cons c cs)
  have "keeps (\<lambda>a. is_person a (u_id target))
      (bind (exec (merge_accounts (u_id c) (u_id target))) (\<lambda>_.
       bind (account_audit (u_username target) ''MERGE_USER'' (Text ''Merged'' [S (u_username c), S (u_username target), S canonical])) (\<lambda>_.
       merge_candidates R canonical target cs))) (\<lambda>_ a. is_person a (u_id target))" if "u_id c \<noteq> u_id target"
    by (rule keeps_bind[OF keeps_merge[OF that] keeps_bind[OF keeps_audit Cons]])
  with Cons show ?case by (auto intro: keeps_when)
qed (simp add: keeps_return)

lemma keeps_directory_id: "keeps (\<lambda>a. is_person a v) (exec (set_directory_id uid i)) (\<lambda>_ a. is_person a v)"
  by (rule keeps_exec) (use inv_profile in \<open>auto simp: set_directory_id_def split: if_splits\<close>)

lemma keeps_first_sign_in:
  assumes "marker_locked T"
  shows "keeps P (first_sign_in T E identity) (\<lambda>u a. is_person a (u_id u))"
  unfolding first_sign_in_def
proof (rule keeps_bind)
  show "keeps P (check (argon_hash T (an_password E 0))) (\<lambda>hash a. hash \<noteq> service_account_password_hash)"
    using assms by (auto simp: marker_locked_def intro: keeps_check)
next
  fix hash
  let ?more = "\<lambda>u. case au_directory_id identity of Some i \<Rightarrow> bind (exec (set_directory_id (u_id u) i)) (\<lambda>_. return u) | None \<Rightarrow> return u"
  have "keeps (\<lambda>a. is_person a (u_id u)) (?more u) (\<lambda>u a. is_person a (u_id u))" for u
    by (cases "au_directory_id identity") (auto intro: keeps_return keeps_bind[OF keeps_directory_id])
  then have more: "keeps (\<lambda>a. u \<in> set (ac_users a) \<and> u_username u = au_name identity \<and> u_password_hash u = hash \<and> hash \<noteq> service_account_password_hash)
      (?more u) (\<lambda>u a. is_person a (u_id u))" for u
    by (rule keeps_pre) (auto simp: is_person_def is_service_account_def)
  have "keeps (\<lambda>a. hash \<noteq> service_account_password_hash) (query (create_user (au_name identity) hash True))
      (\<lambda>u a. u \<in> set (ac_users a) \<and> u_username u = au_name identity \<and> u_password_hash u = hash \<and> hash \<noteq> service_account_password_hash)"
    using keeps_create_user[of "\<lambda>_. True" "au_name identity" hash True] unfolding keeps_def by blast
  then show "keeps (\<lambda>a. hash \<noteq> service_account_password_hash) (bind (query (create_user (au_name identity) hash True)) ?more) (\<lambda>u a. is_person a (u_id u))"
    by (rule keeps_bind) (rule more)
qed

lemma keeps_rename:
  "keeps (\<lambda>a. is_person a (u_id target)) (rename_target R canonical target) (\<lambda>u a. is_person a (u_id u) \<and> u_id u = u_id target)"
proof -
  have rename: "keeps (\<lambda>a. is_person a (u_id target)) (exec (rename_user (u_id target) canonical)) (\<lambda>_ a. is_person a (u_id target))"
  proof (rule keeps_exec)
    fix a a' assume a: "accounts_inv a" "is_person a (u_id target)" and run: "rename_user (u_id target) canonical a = Inr a'"
    have "ac_users a' = update_where (\<lambda>u. u_id u = u_id target) (u_username_update (\<lambda>_. canonical)) (ac_users a)"
      using run by (auto simp: rename_user_def split: if_splits)
    then have "is_person a' (u_id target)"
      using person_update[of "u_username_update (\<lambda>_. canonical)" a'] a(2) by (simp add: is_service_account_def)
    with inv_rename[OF run a] show "accounts_inv a' \<and> is_person a' (u_id target)" by blast
  qed
  have asked: "keeps (\<lambda>a. is_person a (u_id target)) (asks f) (\<lambda>_ a. is_person a (u_id target))" for f :: "accounts \<Rightarrow> bool"
    by (rule keeps_asks)
  show ?thesis
    unfolding rename_target_def
    by (rule keeps_bind[OF asked], rule keeps_when)
      (rule keeps_bind[OF rename keeps_bind[OF keeps_audit keeps_return]], simp, rule keeps_return, simp)
qed

lemma keeps_directory_account:
  assumes "marker_locked T"
  shows "keeps (\<lambda>a. \<forall>u. typed = Some u \<longrightarrow> u \<in> set (ac_users a)) (directory_account T E R typed identity) (\<lambda>u a. is_person a (u_id u))"
  unfolding directory_account_def
proof (rule keeps_bind)
  show "keeps (\<lambda>a. \<forall>u. typed = Some u \<longrightarrow> u \<in> set (ac_users a)) (asks (candidates typed identity))
      (\<lambda>cs a. \<forall>c \<in> set cs. is_person a (u_id c))"
    by (rule keeps_asks) (use candidate_is_person in \<open>fastforce simp: is_person_def\<close>)
next
  fix cs
  show "keeps (\<lambda>a. \<forall>c \<in> set cs. is_person a (u_id c))
      (case target_of identity cs of None \<Rightarrow> first_sign_in T E identity
       | Some target \<Rightarrow> bind (merge_candidates R (au_name identity) target cs) (\<lambda>_.
           bind (rename_target R (au_name identity) target) (\<lambda>renamed. bind (claim_directory_id identity renamed) (\<lambda>_. return renamed))))
      (\<lambda>u a. is_person a (u_id u))"
  proof (cases "target_of identity cs")
    case None
    then show ?thesis using keeps_first_sign_in[OF assms] by simp
  next
    case (Some target)
    then have "target \<in> set cs" by (auto simp: target_of_def split: option.splits list.splits dest: find_Some_in)
    have asked: "keeps (\<lambda>a. is_person a v) (asks f) (\<lambda>_ a. is_person a v)" for f :: "accounts \<Rightarrow> bool" and v
      by (rule keeps_asks)
    have claim: "keeps (\<lambda>a. is_person a (u_id renamed)) (claim_directory_id identity renamed) (\<lambda>_ a. is_person a (u_id renamed))" for renamed
      unfolding claim_directory_id_def
      by (cases "au_directory_id identity") (auto intro: keeps_return keeps_bind[OF asked] keeps_when keeps_directory_id)
    have "keeps (\<lambda>a. is_person a (u_id renamed) \<and> u_id renamed = u_id target) (bind (claim_directory_id identity renamed) (\<lambda>_. return renamed))
        (\<lambda>u a. is_person a (u_id u))" for renamed
    proof (rule keeps_pre)
      show "keeps (\<lambda>a. is_person a (u_id renamed)) (bind (claim_directory_id identity renamed) (\<lambda>_. return renamed)) (\<lambda>u a. is_person a (u_id u))"
        by (rule keeps_bind[OF claim keeps_return])
    qed blast
    then have "keeps (\<lambda>a. is_person a (u_id target)) (bind (merge_candidates R (au_name identity) target cs) (\<lambda>_.
           bind (rename_target R (au_name identity) target) (\<lambda>renamed. bind (claim_directory_id identity renamed) (\<lambda>_. return renamed))))
        (\<lambda>u a. is_person a (u_id u))"
      by (intro keeps_bind[OF keeps_merge_candidates] keeps_bind[OF keeps_rename])
    with Some \<open>target \<in> set cs\<close> show ?thesis by (auto intro: keeps_pre)
  qed
qed


section \<open>Sessions belong to people\<close>

lemma keeps_start_session:
  assumes "marker_locked T"
  shows "keeps (\<lambda>a. case v of VerifiedLocal u \<Rightarrow> is_person a (u_id u) | VerifiedDirectory typed identity \<Rightarrow> \<forall>u. typed = Some u \<longrightarrow> u \<in> set (ac_users a))
    (start_session T E R v) (\<lambda>s a. is_person a (se_user_id s))"
proof -
  have identity: "keeps (\<lambda>a. is_person a uid) (refresh_provider_identity T uid nm email) (\<lambda>_ a. is_person a uid)" for uid nm email
    unfolding refresh_provider_identity_def set_display_name_def set_avatar_hash_def by (rule keeps_bind[OF keeps_profile keeps_profile])
  show ?thesis
  proof (cases v)
    case (VerifiedLocal u)
    with keeps_person_session show ?thesis by (simp add: start_session_def)
  next
    case (VerifiedDirectory typed entry)
    have "keeps (\<lambda>a. \<forall>u. typed = Some u \<longrightarrow> u \<in> set (ac_users a))
        (bind (directory_account T E R typed entry) (\<lambda>u. bind (refresh_provider_identity T (u_id u) (au_display_name entry) (au_email entry)) (\<lambda>_.
          bind (new_session T E (u_id u)) (\<lambda>s. bind (record_sign_in T s SignLdap) (\<lambda>_. return s))))) (\<lambda>s a. is_person a (se_user_id s))"
      by (rule keeps_bind[OF keeps_directory_account[OF assms] keeps_bind[OF identity keeps_person_session]])
    with VerifiedDirectory show ?thesis by (simp add: start_session_def)
  qed
qed

lemma verified_who:
  assumes "verify_password_local_first T dir username password a = Inr v"
  shows "case v of VerifiedLocal u \<Rightarrow> find_user a username = Some u \<and> \<not> is_service_account u \<and> u_approved u \<and> argon_verify T password (u_password_hash u) = Inr True
    | VerifiedDirectory typed entry \<Rightarrow> typed = find_user a username \<and> (\<forall>u. typed = Some u \<longrightarrow> \<not> is_service_account u) \<and>
        (\<exists>authenticate. dir = Some authenticate \<and> authenticate username password = Some entry)"
    "password \<noteq> []"
  using assms unfolding verify_password_local_first_def Let_def
  by (auto simp: and_then_def split: if_splits option.splits sum.splits)

lemma keeps_auth_login:
  assumes "marker_locked T"
  shows "keeps P (auth_login T E R ldap groups_for username password) (\<lambda>s a. is_person a (se_user_id s))"
proof -
  let ?who = "\<lambda>v a. case v of VerifiedLocal u \<Rightarrow> is_person a (u_id u) | VerifiedDirectory typed identity \<Rightarrow> \<forall>u. typed = Some u \<longrightarrow> u \<in> set (ac_users a)"
  let ?refused = "\<lambda>mode v a. admins_only mode \<and> \<not> may_sign_in_as_admin R username
         (case v of VerifiedLocal u \<Rightarrow> Some u | VerifiedDirectory existing _ \<Rightarrow> existing) (groups_for a username) a"
  have start: "keeps (?who v) (bind (asks (?refused mode v)) (\<lambda>refused. if refused then fail (admins_only_refusal mode) else start_session T E R v))
      (\<lambda>s a. is_person a (se_user_id s))" for mode v
  proof (rule keeps_bind)
    show "keeps (?who v) (asks (?refused mode v)) (\<lambda>_. ?who v)" by (rule keeps_asks)
    show "keeps (?who v) (if x then fail (admins_only_refusal mode) else start_session T E R v) (\<lambda>s a. is_person a (se_user_id s))" for x
      by (rule keeps_when[OF keeps_fail keeps_start_session[OF assms]])
  qed
  have checked: "keeps (\<lambda>a. r = verify_password_local_first T dir username password a) (check r) (\<lambda>v a. ?who v a)" for r dir
  proof (rule keeps_check)
    fix a v assume "r = verify_password_local_first T dir username password a" "r = Inr v"
    then have "verify_password_local_first T dir username password a = Inr v" by simp
    from verified_who(1)[OF this] find_user_in[of a username] show "?who v a" by (auto simp: is_person_def split: verified.splits)
  qed
  have verify: "keeps P (bind (asks (verify_password_local_first T dir username password)) (\<lambda>result. bind (check result) (\<lambda>v.
      bind (asks (?refused mode v)) (\<lambda>refused. if refused then fail (admins_only_refusal mode) else start_session T E R v)))) (\<lambda>s a. is_person a (se_user_id s))" for P dir mode
    by (rule keeps_bind[OF keeps_asks keeps_bind[OF checked start]]) (rule refl)
  have provider: "keeps P (if source = Ldap then check ldap else return None) (\<lambda>_ _. True)" for P source
    by (rule keeps_when) (auto intro: keeps_check keeps_return)
  show ?thesis
    unfolding auth_login_def
    by (rule keeps_bind[OF keeps_asks], rule TrueI, rule keeps_bind[OF keeps_asks], rule TrueI, rule keeps_bind[OF provider verify])
qed

lemma keeps_login_oidc:
  assumes "marker_locked T"
  shows "keeps P (login_oidc T E username nm email claimed admin_group) (\<lambda>_ _. True)"
proof -
  have weaken: "keeps P m Q \<Longrightarrow> keeps P m (\<lambda>_ _. True)" for P and m :: "session request" and Q by (simp add: keeps_def)
  have tail: "keeps (\<lambda>a. is_person a uid) (bind (new_session T E uid) (\<lambda>s. bind (record_sign_in T s m) (\<lambda>_. return s))) (\<lambda>_ _. True)" for uid m
    using keeps_session_tail[of uid T E m "\<lambda>s. s"] by (rule weaken)
  have identity: "keeps (\<lambda>a. is_person a uid) (refresh_provider_identity T uid nm email) (\<lambda>_ a. is_person a uid)" for uid
    unfolding refresh_provider_identity_def set_display_name_def set_avatar_hash_def by (rule keeps_bind[OF keeps_profile keeps_profile])
  have granted: "keeps (\<lambda>a. is_person a uid) (if c then grant_role uid ''admin'' else return ()) (\<lambda>_ a. is_person a uid)" for c uid
  proof (rule keeps_when)
    show "keeps (\<lambda>a. is_person a uid) (grant_role uid ''admin'') (\<lambda>_ a. is_person a uid)"
      unfolding grant_role_def
    proof (rule keeps_exec)
      fix a a' assume a: "accounts_inv a" "is_person a uid"
        and run: "and_then (repo_grant_user_role uid ''admin'' (auth_view a)) (\<lambda>(_, au). Inr (a\<lparr>ac_auth := au\<rparr>)) = Inr a'"
      then obtain au where "a' = a\<lparr>ac_auth := au\<rparr>" by (auto simp: and_then_def split: sum.splits)
      with inv_frame[OF a(1), of a'] person_frame[of a' a uid] a(2) show "accounts_inv a' \<and> is_person a' uid" by simp
    qed
  qed (rule keeps_return)
  have create: "keeps P (bind (check (argon_hash T (an_password E 0))) (\<lambda>hash. query (create_user username hash True))) (\<lambda>u a. is_person a (u_id u))" for P
  proof (rule keeps_bind)
    show "keeps P (check (argon_hash T (an_password E 0))) (\<lambda>hash a. hash \<noteq> service_account_password_hash)"
      using assms by (auto simp: marker_locked_def intro: keeps_check)
    show "keeps (\<lambda>a. hash \<noteq> service_account_password_hash) (query (create_user username hash True)) (\<lambda>u a. is_person a (u_id u))" for hash
    proof (rule keeps_query)
      fix a u a' assume a: "accounts_inv a" "hash \<noteq> service_account_password_hash" and run: "create_user username hash True a = Inr (u, a')"
      then have "is_person a' (u_id u)" by (auto simp: create_user_def Let_def is_person_def is_service_account_def split: if_splits)
      with inv_create_user[OF run a(1)] show "accounts_inv a' \<and> is_person a' (u_id u)" by blast
    qed
  qed
  have account: "keeps (\<lambda>a. found = find_user a username)
      (case found of Some u \<Rightarrow> if is_service_account u then fail Unauthorized else return u
       | None \<Rightarrow> bind (check (argon_hash T (an_password E 0))) (\<lambda>hash. query (create_user username hash True))) (\<lambda>u a. is_person a (u_id u))" for found
  proof (cases found)
    case None
    with create show ?thesis by simp
  next
    case (Some u)
    have "keeps (\<lambda>a. Some u = find_user a username) (return u) (\<lambda>u a. is_person a (u_id u))" if "\<not> is_service_account u"
      by (rule keeps_return) (use that find_user_in in \<open>force simp: is_person_def\<close>)
    with Some show ?thesis by (simp add: keeps_fail)
  qed
  show ?thesis
    unfolding login_oidc_def
    by (rule keeps_bind[OF keeps_asks], rule refl, rule keeps_bind[OF account keeps_bind[OF granted keeps_bind[OF identity tail]]])
qed

lemma keeps_oidc_complete:
  assumes "marker_locked T"
  shows "keeps P (oidc_complete T E R config exchange code callback_state flow) (\<lambda>_ _. True)"
proof -
  have source: "keeps P oidc_must_be_the_source (\<lambda>_ _. True)" for P
    unfolding oidc_must_be_the_source_def
    by (rule keeps_bind[OF keeps_asks], rule TrueI, rule keeps_when[OF keeps_fail keeps_return], rule TrueI)
  show ?thesis
    unfolding oidc_complete_def
  proof (intro keeps_when keeps_fail keeps_bind[OF source] keeps_bind[OF keeps_check], rule TrueI)
    fix stored
    show "keeps (\<lambda>_. True) (case stored of None \<Rightarrow> fail (BadRequest (Text ''OIDC is not configured'' []))
       | Some admin_group \<Rightarrow> bind (check (exchange code (of_pkce_verifier flow) (of_nonce flow))) (\<lambda>c. bind (asks get_auth_mode) (\<lambda>mode.
           bind (asks (\<lambda>a. admins_only mode \<and> \<not> (admin_group \<noteq> [] \<and> admin_group \<in> set (cl_groups c)) \<and>
                   \<not> may_sign_in_as_admin R (cl_username c) (find_user a (cl_username c)) [] a)) (\<lambda>refused.
           if refused then fail (admins_only_refusal mode)
           else login_oidc T E (cl_username c) (cl_name c) (cl_email c) (cl_groups c) admin_group)))) (\<lambda>_ _. True)"
    proof (cases stored)
      case (Some admin_group)
      then show ?thesis
        by (simp only: option.case)
          (intro keeps_bind[OF keeps_check] keeps_bind[OF keeps_asks] keeps_when keeps_fail keeps_login_oidc[OF assms] TrueI)
    qed (simp add: keeps_fail)
  qed
qed


lemma keeps_change_password:
  assumes "marker_locked T"
  shows "keeps (\<lambda>a. u \<in> set (ac_users a)) (change_password T E u token old_password new_password) (\<lambda>_ _. True)"
proof -
  have weaken: "keeps P m Q \<Longrightarrow> keeps P m (\<lambda>_ _. True)" for P and m :: "session option request" and Q by (simp add: keeps_def)
  have tail: "keeps (\<lambda>a. is_person a (u_id u)) (bind (new_session T E (u_id u)) (\<lambda>s. bind (record_sign_in T s SignLocal) (\<lambda>_. return (Some s)))) (\<lambda>_ _. True)"
    using keeps_session_tail[of "u_id u" T E SignLocal Some] by (rule weaken)
  have drop: "keeps (\<lambda>a. is_person a v) (modify (delete_session T t)) (\<lambda>_ a. is_person a v)" for t v
  proof (rule keeps_modify)
    fix a assume a: "accounts_inv a" "is_person a v"
    show "accounts_inv (delete_session T t a) \<and> is_person (delete_session T t a) v"
      using inv_fewer_sessions[OF a(1), of "delete_session T t a" _ "\<lambda>_. True"] person_frame[of "delete_session T t a" a v] a(2)
      by (simp add: delete_session_def delete_where_def)
  qed
  have verified: "keeps (\<lambda>a. u \<in> set (ac_users a)) (check (argon_verify T old_password (u_password_hash u)))
      (\<lambda>good a. good \<longrightarrow> is_person a (u_id u))"
    by (rule keeps_check) (use assms in \<open>auto simp: marker_locked_def is_person_def is_service_account_def\<close>)
  have hashed: "keeps (\<lambda>a. is_person a (u_id u)) (check (argon_hash T new_password)) (\<lambda>hash a. is_person a (u_id u) \<and> hash \<noteq> service_account_password_hash)"
    by (rule keeps_check) (use assms in \<open>auto simp: marker_locked_def\<close>)
  have stored: "keeps (\<lambda>a. is_person a (u_id u) \<and> hash \<noteq> service_account_password_hash) (modify (update_password (u_id u) hash)) (\<lambda>_ a. is_person a (u_id u))" for hash
  proof (rule keeps_modify)
    fix a assume a: "accounts_inv a" "is_person a (u_id u) \<and> hash \<noteq> service_account_password_hash"
    then have "is_person (update_password (u_id u) hash a) (u_id u)"
      by (intro person_update_marked) auto
    with a inv_update_password show "accounts_inv (update_password (u_id u) hash a) \<and> is_person (update_password (u_id u) hash a) (u_id u)" by blast
  qed
  have rest: "keeps (\<lambda>a. is_person a (u_id u)) (case token of None \<Rightarrow> return None
      | Some t \<Rightarrow> bind (modify (delete_session T t)) (\<lambda>_. bind (new_session T E (u_id u)) (\<lambda>s. bind (record_sign_in T s SignLocal) (\<lambda>_. return (Some s)))))
      (\<lambda>_ _. True)"
    by (cases token) (auto intro: keeps_return keeps_bind[OF drop tail])
  have "keeps (\<lambda>a. good \<longrightarrow> is_person a (u_id u)) (if \<not> good then fail Unauthorized
      else bind (check (argon_hash T new_password)) (\<lambda>hash. bind (modify (update_password (u_id u) hash)) (\<lambda>_.
        case token of None \<Rightarrow> return None
      | Some t \<Rightarrow> bind (modify (delete_session T t)) (\<lambda>_. bind (new_session T E (u_id u)) (\<lambda>s. bind (record_sign_in T s SignLocal) (\<lambda>_. return (Some s))))))) 
      (\<lambda>_ _. True)" for good
    by (cases good) (simp_all add: keeps_fail keeps_bind[OF hashed keeps_bind[OF stored rest]])
  then show ?thesis unfolding change_password_def by (rule keeps_bind[OF verified])
qed

text \<open>Steps of which only the invariant matters.\<close>

abbreviation any :: "'a \<Rightarrow> accounts \<Rightarrow> bool" where "any \<equiv> \<lambda>_ _. True"

lemma keeps_any:
  "keeps P (asks f) any" "keeps P (check r) any" "keeps P (return x) any" "keeps P (query (create_user nm hash approved)) any"
  "keeps P (exec (create_token_row t)) any"
  by (rule keeps_asks keeps_check keeps_return keeps_query keeps_exec; (simp add: inv_create_user inv_token)?)+

lemma keeps_register: "keeps P (register_user T R username password) any"
  unfolding register_user_def by (intro keeps_bind[OF keeps_any(1)] keeps_bind[OF keeps_any(2)] keeps_bind[OF keeps_any(4)] keeps_when keeps_fail keeps_any(3))

lemma keeps_service_account: "keeps P (create_service_account R username) any"
  unfolding create_service_account_def Let_def by (intro keeps_bind[OF keeps_any(1)] keeps_when keeps_fail keeps_any(4))

lemma keeps_claim: "keeps (\<lambda>_. True) (claim_root_usernames T E nms) any"
proof (induction nms)
  case (Cons nm nms)
  have create: "keeps (\<lambda>_. True) (bind (check (argon_hash T (an_password E (length nms)))) (\<lambda>hash.
      bind (query (create_user nm hash True)) (\<lambda>_. claim_root_usernames T E nms))) any"
    by (intro keeps_bind[OF keeps_any(2)] keeps_bind[OF keeps_any(4)] Cons)
  show ?case
    unfolding claim_root_usernames.simps
  proof (rule keeps_bind[OF keeps_any(1)])
    show "keeps (\<lambda>_. True) (case found of None \<Rightarrow> bind (check (argon_hash T (an_password E (length nms)))) (\<lambda>hash.
         bind (query (create_user nm hash True)) (\<lambda>_. claim_root_usernames T E nms)) | Some _ \<Rightarrow> claim_root_usernames T E nms) any" for found
      using create Cons by (cases found) simp_all
  qed
qed (simp add: keeps_return)

lemma keeps_token: "keeps P (create_api_token_issued T E uid nm days scope issued_by) any"
  unfolding create_api_token_issued_def Let_def by (rule keeps_bind[OF keeps_any(5) keeps_any(3)])

lemma keeps_issue: "keeps (\<lambda>_. True) (issue_token T E who r) any"
proof (cases "case tr_for_user r of Some u \<Rightarrow> if u = [] then None else Some u | None \<Rightarrow> None")
  case (Some for_user)
  have "keeps (\<lambda>_. True) (case chosen of None \<Rightarrow> fail e | Some u \<Rightarrow> create_api_token_issued T E (u_id u) (tr_name r) (tr_expires_in_days r) (tr_scope r) (Some (a_username who))) any" for chosen e
    by (cases chosen) (simp_all add: keeps_fail keeps_token)
  then have "keeps (\<lambda>_. True) (if \<not> has_permission who ManageUsers then fail (ForbiddenWithReason (Text ''issuing a token for a service account needs manage_users'' []))
      else bind (asks (\<lambda>a. find_user a for_user)) (\<lambda>found.
        case (case found of Some u \<Rightarrow> if is_service_account u then Some u else None | None \<Rightarrow> None) of
          None \<Rightarrow> fail (BadRequest (Text ''is not a service account; tokens are issued only for those'' [S for_user]))
        | Some u \<Rightarrow> create_api_token_issued T E (u_id u) (tr_name r) (tr_expires_in_days r) (tr_scope r) (Some (a_username who)))) any"
    by (intro keeps_when keeps_fail keeps_bind[OF keeps_any(1)])
  with Some show ?thesis by (simp only: issue_token_def option.case)
qed (simp add: issue_token_def keeps_token)

lemma inv_delete_token: "accounts_inv a \<Longrightarrow> accounts_inv (snd (delete_api_token tid uid a))"
  by (rule inv_fewer_sessions[of a _ "\<lambda>_. True" "\<lambda>t. \<not> (tk_id t = tid \<and> tk_user_id t = uid)"])
    (simp_all add: delete_api_token_def delete_where_def)

lemma inv_revoke_among: "accounts_inv a \<Longrightarrow> accounts_inv (snd (revoke_among tid us a))"
proof (induction tid us a rule: revoke_among.induct)
  case (2 tid u us a)
  obtain gone a1 where run: "delete_api_token tid (u_id u) a = (gone, a1)" by (cases "delete_api_token tid (u_id u) a")
  with inv_delete_token[OF 2(2), of tid "u_id u"] have "accounts_inv a1" by simp
  with 2(1) run show ?case by (cases gone) simp_all
qed simp

lemma inv_revoke: "accounts_inv a \<Longrightarrow> accounts_inv (snd (revoke_token_as who tid a))"
  using inv_delete_token[of a tid "a_user_id who"] inv_revoke_among
  by (auto simp: revoke_token_as_def split: prod.splits bool.splits)


section \<open>Histories\<close>

text \<open>What the requests meet outside: the root names, the directory and the OpenID provider as configured.\<close>

record outside =
  ow_roots :: "string set"
  ow_root_list :: "string list"
  ow_ldap :: "app_error + directory option"
  ow_groups :: "accounts \<Rightarrow> string \<Rightarrow> string list"
  ow_oidc :: "app_error + string option"
  ow_exchange :: "string \<Rightarrow> string \<Rightarrow> string \<Rightarrow> app_error + oidc_claims"
  ow_naive_utc :: "stamp \<Rightarrow> int option"

datatype account_request =
  SignIn string string | SsoSignIn string string oidc_flow_state | SignOut string | ChangePassword string string string
| Register string string | Approve row_id | RemoveAccount row_id | ClaimRoots
| AddServiceAccount string | NameServiceAccount row_id string | NameOneself string string | PictureOfOneself string string
| IssueToken actor token_request | RevokeToken actor string | UseToken string | DropExpired stamp
| SwitchMode auth_mode | SettleDevMode | AllowRegistration bool | AutoApprove bool | ShowPictures bool | DevCall | LockDevUser

text \<open>A request of a signed-in person comes with the user of its session.\<close>

definition as_session_user :: "auth_tools \<Rightarrow> auth_env \<Rightarrow> string \<Rightarrow> (user \<Rightarrow> 'a request) \<Rightarrow> accounts \<Rightarrow> accounts" where
  "as_session_user T E token f a =
     (case validate_session T (an_sql_now E) token a of None \<Rightarrow> a | Some (u, _) \<Rightarrow> snd (f u a))"

primrec account_step :: "auth_tools \<Rightarrow> auth_env \<Rightarrow> outside \<Rightarrow> account_request \<Rightarrow> accounts \<Rightarrow> accounts" where
  "account_step T E W (SignIn nm pw) a = snd (auth_login T E (ow_roots W) (ow_ldap W) (ow_groups W) nm pw a)"
| "account_step T E W (SsoSignIn code st flow) a = snd (oidc_complete T E (ow_roots W) (ow_oidc W) (ow_exchange W) code st flow a)"
| "account_step T E W (SignOut token) a = logout T token a"
| "account_step T E W (ChangePassword token old new) a = as_session_user T E token (\<lambda>u. change_password T E u (Some token) old new) a"
| "account_step T E W (Register nm pw) a = snd (register_user T (ow_roots W) nm pw a)"
| "account_step T E W (Approve uid) a = snd (repo_approve_user uid a)"
| "account_step T E W (RemoveAccount uid) a = snd (delete_user uid a)"
| "account_step T E W ClaimRoots a = snd (claim_root_usernames T E (ow_root_list W) a)"
| "account_step T E W (AddServiceAccount nm) a = snd (create_service_account (ow_roots W) nm a)"
| "account_step T E W (NameServiceAccount uid nm) a = snd (set_service_account_display_name uid nm a)"
| "account_step T E W (NameOneself token nm) a = as_session_user T E token (\<lambda>u. set_own_display_name u nm) a"
| "account_step T E W (PictureOfOneself token email) a = as_session_user T E token (\<lambda>u. set_own_gravatar_email T u email) a"
| "account_step T E W (IssueToken who r) a = snd (issue_token T E who r a)"
| "account_step T E W (RevokeToken who tid) a = snd (revoke_token_as who tid a)"
| "account_step T E W (UseToken raw) a = snd (validate_api_token T E (ow_naive_utc W) raw a)"
| "account_step T E W (DropExpired now) a = snd (delete_expired_credentials T now a)"
| "account_step T E W (SwitchMode m) a = snd (switch_auth_mode E m a)"
| "account_step T E W SettleDevMode a = snd (settle_ungated_dev_mode E a)"
| "account_step T E W (AllowRegistration b) a = set_registration_enabled b a"
| "account_step T E W (AutoApprove b) a = set_auto_approve_users b a"
| "account_step T E W (ShowPictures b) a = set_gravatar_enabled b a"
| "account_step T E W DevCall a = snd (ensure_dev_user a)"
| "account_step T E W LockDevUser a = snd (lock_dev_user a)"

definition account_history :: "auth_tools \<Rightarrow> (auth_env \<times> outside \<times> account_request) list \<Rightarrow> accounts \<Rightarrow> accounts" where
  "account_history T reqs a = foldl (\<lambda>a (E, W, r). account_step T E W r a) a reqs"

lemma keeps_inv: "keeps P m Q \<Longrightarrow> accounts_inv a \<Longrightarrow> P a \<Longrightarrow> accounts_inv (snd (m a))"
  using keepsD(1)[of P m Q a "fst (m a)" "snd (m a)"] by simp

lemma keeps_any_profile: "keeps P (exec (upsert_profile uid f)) any"
  by (rule keeps_exec) (use inv_profile in blast)

lemma keeps_own_name: "keeps (\<lambda>_. True) (set_own_display_name u nm) any"
  unfolding set_own_display_name_def set_display_name_def
  by (intro keeps_bind[OF keeps_any(1)] keeps_when keeps_fail keeps_bind[OF keeps_any(2)] keeps_bind[OF keeps_any_profile] keeps_any(3))

lemma keeps_own_picture: "keeps (\<lambda>_. True) (set_own_gravatar_email T u email) any"
  unfolding set_own_gravatar_email_def set_own_avatar_hash_def Let_def
  by (intro keeps_bind[OF keeps_any(1)] keeps_when keeps_fail keeps_bind[OF keeps_any_profile] keeps_any(3))

lemma keeps_service_name: "keeps (\<lambda>_. True) (set_service_account_display_name uid nm) any"
  unfolding set_service_account_display_name_def set_display_name_def
proof (rule keeps_bind[OF keeps_any(1)])
  fix found
  have "keeps (\<lambda>_. True) (if \<not> is_service_account u then fail e
      else bind (check (clean_display_name nm)) (\<lambda>clean. bind (exec (upsert_profile uid (pr_display_name_update (\<lambda>_. clean)))) (\<lambda>_. return (u_username u, clean)))) any" for u e
    by (intro keeps_when keeps_fail keeps_bind[OF keeps_any(2)] keeps_bind[OF keeps_any_profile] keeps_any(3))
  then show "keeps (\<lambda>_. True) (case found of None \<Rightarrow> fail (NotFound (Text ''no such user'' []))
      | Some u \<Rightarrow> if \<not> is_service_account u then fail (BadRequest (Text ''only a service account's display name is set by an administrator'' []))
         else bind (check (clean_display_name nm)) (\<lambda>clean. bind (exec (upsert_profile uid (pr_display_name_update (\<lambda>_. clean)))) (\<lambda>_. return (u_username u, clean)))) any"
    by (cases found) (simp_all add: keeps_fail)
qed

lemma inv_setting: "accounts_inv a \<Longrightarrow> accounts_inv (set_ac_setting k v a)"
  by (rule inv_frame) (simp_all add: set_ac_setting_def)

lemma inv_settings:
  assumes "accounts_inv a"
  shows "accounts_inv (set_auth_mode m a)" "accounts_inv (set_registration_enabled b a)" "accounts_inv (set_auto_approve_users b a)"
    "accounts_inv (set_gravatar_enabled b a)" "accounts_inv (snd (switch_auth_mode E m a))" "accounts_inv (snd (settle_ungated_dev_mode E a))"
  using assms by (simp_all add: set_auth_mode_def set_registration_enabled_def set_auto_approve_users_def set_gravatar_enabled_def
      switch_auth_mode_def settle_ungated_dev_mode_def inv_setting Let_def)

lemma inv_use_token: "accounts_inv a \<Longrightarrow> accounts_inv (snd (validate_api_token T E naive_utc raw a))"
proof -
  assume inv: "accounts_inv a"
  have "accounts_inv (touch_api_token tid now a)" for tid now
  proof -
    let ?a = "touch_api_token tid now a"
    have same: "map tk_id (ac_tokens ?a) = map tk_id (ac_tokens a)" "map tk_hash (ac_tokens ?a) = map tk_hash (ac_tokens a)"
      "map tk_user_id (ac_tokens ?a) = map tk_user_id (ac_tokens a)"
      "map (\<lambda>t. (tk_user_id t, tk_name t)) (ac_tokens ?a) = map (\<lambda>t. (tk_user_id t, tk_name t)) (ac_tokens a)"
      by (simp_all add: touch_api_token_def)
    have "(\<forall>t \<in> set (ac_tokens ?a). tk_user_id t \<in> Y) \<longleftrightarrow> (\<forall>t \<in> set (ac_tokens a). tk_user_id t \<in> Y)" for Y
      using arg_cong[OF same(3), of set] by (metis (no_types, lifting) image_iff set_map)
    with inv show ?thesis unfolding accounts_inv_def accounts_ok_def people_only_def may_hold_def same
      by (simp add: touch_api_token_def)
  qed
  with inv show ?thesis by (simp add: validate_api_token_def split: option.split)
qed

lemma inv_fewer: "accounts_inv a \<Longrightarrow> accounts_inv (snd (delete_expired_credentials T now a))"
  "accounts_inv a \<Longrightarrow> accounts_inv (logout T token a)"
  by (rule inv_fewer_sessions[of a _ "\<lambda>s. \<not> expired_before T now (ss_expires_at s)" "\<lambda>t. \<not> expired_before T now (tk_expires_at t)"];
      simp add: delete_expired_credentials_def delete_where_def Let_def)
    (rule inv_fewer_sessions[of a _ "\<lambda>s. ss_token_hash s \<noteq> sha256_hex T token" "\<lambda>_. True"];
      simp add: logout_def delete_session_def delete_where_def)

lemma inv_session_user:
  assumes "accounts_inv a" and "\<And>u. keeps (\<lambda>a. u \<in> set (ac_users a)) (f u) any"
  shows "accounts_inv (as_session_user T E token f a)"
proof (cases "validate_session T (an_sql_now E) token a")
  case (Some us)
  obtain u s where us: "us = (u, s)" by (cases us)
  with Some have "u \<in> set (ac_users a)" by (auto simp: validate_session_def split: option.splits if_splits dest: user_by_id_in)
  with keeps_inv[OF assms(2) assms(1)] Some us show ?thesis by (simp add: as_session_user_def)
qed (simp add: as_session_user_def assms(1))

text \<open>Locking the dev user makes it a service account that may keep its sessions.\<close>

lemma inv_lock: "accounts_inv a \<Longrightarrow> accounts_inv (snd (lock_dev_user a))"
proof (cases "find_user a dev_user")
  case (Some u)
  assume inv: "accounts_inv a"
  have name: "v \<in> set (ac_users a) \<Longrightarrow> u_id v = u_id u \<Longrightarrow> u_username v = dev_user" for v
    using find_user_in[OF Some] inv by (auto simp: accounts_inv_def accounts_ok_def distinct_map dest: inj_onD)
  have "accounts_inv (update_password (u_id u) service_account_password_hash a)"
    by (rule inv_users[OF inv, of _ "\<lambda>v. u_id v = u_id u" "u_password_hash_update (\<lambda>_. service_account_password_hash)"])
      (use inv name in \<open>simp_all add: update_password_def holder_def accounts_inv_def accounts_ok_def\<close>)
  with inv Some show ?thesis by (simp add: lock_dev_user_def)
qed (simp add: lock_dev_user_def)

lemma keeps_dev_call: "keeps (\<lambda>_. True) ensure_dev_user any"
proof -
  have lock: "keeps (\<lambda>_. True) lock_dev_user any"
    by (rule keepsI) (metis inv_lock snd_conv)
  have grant: "keeps (\<lambda>_. True) (bind (grant_role uid r) (\<lambda>_. return u)) any" for uid r and u :: user
  proof (rule keeps_bind[OF _ keeps_any(3)])
    show "keeps (\<lambda>_. True) (grant_role uid r) any"
      unfolding grant_role_def by (rule keeps_exec) (auto simp: and_then_def split: sum.splits intro: inv_frame)
  qed
  have found: "keeps (\<lambda>_. True) (case found of Some u \<Rightarrow> return u | None \<Rightarrow>
      bind (query (create_user dev_user service_account_password_hash True)) (\<lambda>u. bind (grant_role (u_id u) ''admin'') (\<lambda>_. return u))) any" for found
    by (cases found) (simp_all add: keeps_any(3) keeps_bind[OF keeps_any(4) grant])
  show ?thesis unfolding ensure_dev_user_def by (rule keeps_bind[OF lock keeps_bind[OF keeps_any(1) found]])
qed

lemma account_step_inv:
  assumes "marker_locked T" and "accounts_inv a"
  shows "accounts_inv (account_step T E W r a)"
proof (cases r)
  case (SignIn nm pw)
  with keeps_inv[OF keeps_auth_login[OF assms(1), of "\<lambda>_. True"] assms(2)] show ?thesis by simp
next
  case (SsoSignIn code st flow)
  with keeps_inv[OF keeps_oidc_complete[OF assms(1), of "\<lambda>_. True"] assms(2)] show ?thesis by simp
next
  case (ChangePassword token old new)
  with inv_session_user[OF assms(2) keeps_change_password[OF assms(1)]] show ?thesis by simp
next
  case (NameOneself token nm)
  with inv_session_user[OF assms(2) keeps_pre[OF keeps_own_name]] show ?thesis by simp
next
  case (PictureOfOneself token email)
  with inv_session_user[OF assms(2) keeps_pre[OF keeps_own_picture]] show ?thesis by simp
next
  case (Register nm pw)
  with keeps_inv[OF keeps_register[of "\<lambda>_. True"] assms(2)] show ?thesis by simp
next
  case (RemoveAccount uid)
  with inv_drop[OF assms(2)] show ?thesis by (simp add: delete_user_def)
next
  case ClaimRoots
  with keeps_inv[OF keeps_claim assms(2)] show ?thesis by simp
next
  case (AddServiceAccount nm)
  with keeps_inv[OF keeps_service_account[of "\<lambda>_. True"] assms(2)] show ?thesis by simp
next
  case (NameServiceAccount uid nm)
  with keeps_inv[OF keeps_service_name assms(2)] show ?thesis by simp
next
  case (IssueToken who req)
  with keeps_inv[OF keeps_issue assms(2)] show ?thesis by simp
next
  case DevCall
  with keeps_inv[OF keeps_dev_call assms(2)] show ?thesis by simp
next
  case LockDevUser
  with inv_lock[OF assms(2)] show ?thesis by simp
qed (simp_all add: inv_approve inv_revoke inv_use_token inv_fewer inv_settings assms(2))

lemma account_history_inv:
  assumes "marker_locked T" and "accounts_inv a"
  shows "accounts_inv (account_history T reqs a)"
  using assms(2)
proof (induction reqs arbitrary: a)
  case (Cons x reqs)
  obtain E W r where x: "x = (E, W, r)" by (cases x)
  with Cons.prems account_step_inv[OF assms(1)] have "accounts_inv (account_step T E W r a)" by simp
  with Cons.IH x show ?case by (simp add: account_history_def)
qed (simp add: account_history_def)


section \<open>What a successful request did\<close>

named_theorems returns

lemma bind_returns [returns]: "bind m f a = (Inr y, a') \<longleftrightarrow> (\<exists>x a1. m a = (Inr x, a1) \<and> f x a1 = (Inr y, a'))"
  unfolding bind_def by (cases "m a"; cases "fst (m a)") auto

lemma return_returns [returns]: "return x a = (Inr y, a') \<longleftrightarrow> y = x \<and> a' = a"
  by (auto simp: return_def)

lemma fail_returns [returns]: "fail e a = (Inr y, a') \<longleftrightarrow> False"
  by (simp add: fail_def)

lemma asks_returns [returns]: "asks f a = (Inr y, a') \<longleftrightarrow> y = f a \<and> a' = a"
  by (auto simp: asks_def)

lemma check_returns [returns]: "check r a = (Inr y, a') \<longleftrightarrow> r = Inr y \<and> a' = a"
  by (auto simp: check_def split: sum.splits)

lemma query_returns [returns]: "query q a = (Inr y, a') \<longleftrightarrow> q a = Inr (y, a')"
  by (auto simp: query_def split: sum.splits)

lemma exec_returns [returns]: "exec q a = (Inr y, a') \<longleftrightarrow> q a = Inr a'"
  by (auto simp: exec_def split: sum.splits)

lemma modify_returns [returns]: "modify f a = (Inr y, a') \<longleftrightarrow> a' = f a"
  by (auto simp: modify_def)

text \<open>A new session is the answer to its token.\<close>

lemma new_session_row:
  assumes "bind (new_session T E uid) (\<lambda>s. bind (record_sign_in T s m) (\<lambda>_. return (f s))) a = (Inr y, a')"
  shows "\<exists>s. y = f s \<and> s = \<lparr>se_token = an_session_token E, se_user_id = uid, se_expires_at = session_expiry T E\<rparr> \<and> ac_users a' = ac_users a \<and>
    session_of T (an_session_token E) a' = Some \<lparr>ss_token_hash = sha256_hex T (an_session_token E), ss_user_id = uid,
      ss_expires_at = session_expiry T E, ss_sign_in = Some (sign_in_method_as_str m)\<rparr>"
proof -
  obtain s a1 where new: "create_session_with_token T uid (an_session_token E) (session_expiry T E) a = Inr (s, a1)"
    and noted: "upsert_profile (se_user_id s) (pr_last_sign_in_update (\<lambda>_. Some (sign_in_method_as_str m))) (set_session_sign_in T (se_token s) m a1) = Inr a'" and y: "y = f s"
    using assms by (auto simp: new_session_def record_sign_in_def record_user_sign_in_def returns)
  let ?h = "sha256_hex T (an_session_token E)"
  have s: "s = \<lparr>se_token = an_session_token E, se_user_id = uid, se_expires_at = session_expiry T E\<rparr>" and users: "ac_users a1 = ac_users a"
    and fresh: "?h \<notin> ss_token_hash ` set (ac_sessions a)"
    and rows: "ac_sessions a1 = ac_sessions a @ [\<lparr>ss_token_hash = ?h, ss_user_id = uid, ss_expires_at = session_expiry T E, ss_sign_in = None\<rparr>]"
    using new by (auto simp: create_session_with_token_def exists_row_iff Let_def split: if_splits)
  have "find (\<lambda>s. ss_token_hash s = ?h) (ac_sessions a) = None" unfolding find_None_not using fresh by (metis imageI)
  then have "find (\<lambda>s. ss_token_hash s = ?h) (update_where (\<lambda>s. ss_token_hash s = ?h) (ss_sign_in_update (\<lambda>_. Some (sign_in_method_as_str m))) (ac_sessions a1)) =
      Some \<lparr>ss_token_hash = ?h, ss_user_id = uid, ss_expires_at = session_expiry T E, ss_sign_in = Some (sign_in_method_as_str m)\<rparr>"
    by (simp add: rows find_append find_update_where)
  moreover have "ac_sessions a' = update_where (\<lambda>s. ss_token_hash s = ?h) (ss_sign_in_update (\<lambda>_. Some (sign_in_method_as_str m))) (ac_sessions a1)"
    "ac_users a' = ac_users a1"
    using profile_frame[OF noted] by (simp_all add: s set_session_sign_in_def)
  ultimately show ?thesis using y s users by (simp add: session_of_def)
qed

lemma new_session_validates:
  assumes "accounts_inv a'" and "session_of T token a' = Some row" and "ss_user_id row = uid" and "is_person a' uid"
    and "expires_after T now (ss_expires_at row)"
  shows "\<exists>u. validate_session T now token a' = Some (u, \<lparr>se_token = token, se_user_id = uid, se_expires_at = ss_expires_at row\<rparr>) \<and> u_id u = uid \<and>
    \<not> is_service_account u"
proof -
  obtain u where u: "u \<in> set (ac_users a')" "u_id u = uid" "\<not> is_service_account u" using assms(4) by (auto simp: is_person_def)
  have "user_by_id a' uid = Some u" using user_by_id_unique[of a' u] assms(1) u by (simp add: accounts_inv_def)
  with u assms(2,3,5) show ?thesis by (simp add: validate_session_def)
qed

text \<open>How roles move when accounts are folded.\<close>

definition roles_of :: "accounts \<Rightarrow> row_id \<Rightarrow> string set" where
  "roles_of a uid = {r. (uid, r) \<in> set (user_roles (ac_auth a))}"

lemma merge_roles:
  assumes "merge_accounts from into a = Inr a'" and "from \<in> u_id ` set (ac_users a)" and "from \<noteq> into"
  shows "roles_of a' into = roles_of a into \<union> roles_of a from" "roles_of a' from = {}" "v \<noteq> from \<Longrightarrow> v \<noteq> into \<Longrightarrow> roles_of a' v = roles_of a v"
proof -
  have "set (map u_id (filter (\<lambda>u. u_id u = from) (ac_users a))) = {from}" using assms(2) by auto
  moreover have "ac_users (move_account_rows from into a) = ac_users a" by (simp add: move_account_rows_def Let_def)
  ultimately have rows: "set (user_roles (ac_auth a')) = {x \<in> set (move_rows from into (user_roles (ac_auth a))). fst x \<noteq> from}"
    using assms(1) by (auto simp: merge_accounts_def drop_accounts_def move_account_rows_def Let_def delete_where_def split: if_splits)
  show "roles_of a' from = {}" by (simp add: roles_of_def rows)
  show "roles_of a' into = roles_of a into \<union> roles_of a from"
    using assms(3) by (auto simp: roles_of_def rows move_rows_def image_iff split: if_splits) force+
  show "v \<noteq> from \<Longrightarrow> v \<noteq> into \<Longrightarrow> roles_of a' v = roles_of a v"
    by (auto simp: roles_of_def rows move_rows_def image_iff split: if_splits)
qed


end
