(* ===== verification/Sign_In_Claims.thy ===== *)
theory Sign_In_Claims
  imports Sign_In_Rules
begin

text \<open>
  The promises of sign-in, over the operations of \<open>Sign_In\<close>: sessions belong to
  people, a sign-in proves who somebody is, a token is good until it expires or
  is revoked, and a directory sign-in leaves one account of one person.
\<close>

section \<open>Sessions belong to people\<close>


section \<open>A sign-in proves who it is\<close>

text \<open>How a name and a password were proven: by the stored hash, or by the directory while it is the source.\<close>

definition proven_locally :: "auth_tools \<Rightarrow> string \<Rightarrow> string \<Rightarrow> row_id \<Rightarrow> accounts \<Rightarrow> bool" where
  "proven_locally T username password uid a \<longleftrightarrow>
     (case find_user a username of None \<Rightarrow> False
      | Some u \<Rightarrow> u_id u = uid \<and> u_approved u \<and> argon_verify T password (u_password_hash u) = Inr True)"

definition proven_by_directory :: "app_error + directory option \<Rightarrow> string \<Rightarrow> string \<Rightarrow> accounts \<Rightarrow> bool" where
  "proven_by_directory ldap username password a \<longleftrightarrow>
     sign_in_source a = Ldap \<and> (case ldap of Inr (Some authenticate) \<Rightarrow> authenticate username password \<noteq> None | _ \<Rightarrow> False)"

lemma start_session_row:
  assumes "start_session T E R v a = (Inr s, a')"
  shows "se_token s = an_session_token E \<and> se_expires_at s = session_expiry T E \<and> (\<forall>u. v = VerifiedLocal u \<longrightarrow> se_user_id s = u_id u) \<and>
    (\<exists>m. session_of T (se_token s) a' = Some \<lparr>ss_token_hash = sha256_hex T (se_token s), ss_user_id = se_user_id s,
      ss_expires_at = se_expires_at s, ss_sign_in = Some m\<rparr>)"
proof (cases v)
  case (VerifiedLocal u)
  with assms new_session_row[of T E "u_id u" SignLocal "\<lambda>s. s" a s a'] show ?thesis by (auto simp: start_session_def)
next
  case (VerifiedDirectory typed entry)
  then obtain u :: user and b where "bind (new_session T E (u_id u)) (\<lambda>s. bind (record_sign_in T s SignLdap) (\<lambda>_. return s)) b = (Inr s, a')"
    using assms by (simp only: start_session_def verified.case bind_returns[of "directory_account T E R typed entry"]
      bind_returns[of "refresh_provider_identity T uid nm email" for uid nm email]) blast
  with new_session_row[of T E "u_id u" SignLdap "\<lambda>s. s" b s a'] VerifiedDirectory show ?thesis by auto
qed

text \<open>
  C17: Nobody is signed in without proof. A successful sign-in had a password and
  no service account's name; the approved account's own hash accepted it or, while
  the directory is the source, the directory did; where only administrators may
  sign in it was one; and the session it gives validates for a person until it
  expires.
\<close>

theorem sign_in_needs_proof:
  assumes "marker_locked T" and "accounts_inv a" and "auth_login T E R ldap groups_for username password a = (Inr s, a')"
    and "expires_after T now (session_expiry T E)"
  shows "password \<noteq> [] \<and> \<not> (\<exists>u. find_user a username = Some u \<and> is_service_account u) \<and>
    (proven_locally T username password (se_user_id s) a \<or> proven_by_directory ldap username password a) \<and>
    (\<not> admins_only (get_auth_mode a) \<or> may_sign_in_as_admin R username (find_user a username) (groups_for a username) a) \<and>
    (\<exists>u. validate_session T now (se_token s) a' = Some (u, s) \<and> u_id u = se_user_id s \<and> \<not> is_service_account u)"
proof -
  obtain dir v where dir: "(if sign_in_source a = Ldap then check ldap else return None) a = (Inr dir, a)"
    and verified: "verify_password_local_first T dir username password a = Inr v"
    and allowed: "\<not> (admins_only (get_auth_mode a) \<and> \<not> may_sign_in_as_admin R username
      (case v of VerifiedLocal u \<Rightarrow> Some u | VerifiedDirectory existing _ \<Rightarrow> existing) (groups_for a username) a)"
    and started: "start_session T E R v a = (Inr s, a')"
    using assms(3) unfolding auth_login_def by (auto simp: returns split: if_splits)
  note who = verified_who[OF verified] and row = start_session_row[OF started]
  have inv: "accounts_inv a'" and person: "is_person a' (se_user_id s)"
    using keepsD[OF keeps_auth_login[OF assms(1), of "\<lambda>_. True"] assms(3,2)] by simp_all
  obtain m where m: "session_of T (se_token s) a' = Some \<lparr>ss_token_hash = sha256_hex T (se_token s), ss_user_id = se_user_id s,
      ss_expires_at = se_expires_at s, ss_sign_in = Some m\<rparr>" using row by blast
  have "expires_after T now (se_expires_at s)" using assms(4) row by simp
  moreover have as_session: "\<lparr>se_token = se_token s, se_user_id = se_user_id s, se_expires_at = se_expires_at s\<rparr> = s" by (cases s) simp
  ultimately have valid: "\<exists>u. validate_session T now (se_token s) a' = Some (u, s) \<and> u_id u = se_user_id s \<and> \<not> is_service_account u"
    using new_session_validates[OF inv m, of "se_user_id s" now] person by (simp add: as_session)
  have proven: "proven_locally T username password (se_user_id s) a \<or> proven_by_directory ldap username password a"
    using who(1) row dir by (cases v) (auto simp: proven_locally_def proven_by_directory_def returns split: if_splits)
  have existing: "(case v of VerifiedLocal u \<Rightarrow> Some u | VerifiedDirectory existing _ \<Rightarrow> existing) = find_user a username"
    "\<not> (\<exists>u. find_user a username = Some u \<and> is_service_account u)"
    using who(1) by (cases v; simp)+
  from who(2) proven existing allowed valid show ?thesis by simp
qed

section \<open>Tokens\<close>

lemma revoke_among_removes:
  assumes "u \<in> set us" and "\<And>x. x \<in> set (ac_tokens a) \<Longrightarrow> tk_id x = tid \<Longrightarrow> tk_user_id x = u_id u"
  shows "tid \<notin> tk_id ` set (ac_tokens (snd (revoke_among tid us a)))"
  using assms
proof (induction us arbitrary: a)
  case (Cons v us)
  obtain gone a1 where run: "delete_api_token tid (u_id v) a = (gone, a1)" by (cases "delete_api_token tid (u_id v) a")
  then have a1: "ac_tokens a1 = filter (\<lambda>t. \<not> (tk_id t = tid \<and> tk_user_id t = u_id v)) (ac_tokens a)"
    and gone: "gone = exists_row (\<lambda>t. tk_id t = tid \<and> tk_user_id t = u_id v) (ac_tokens a)"
    by (auto simp: delete_api_token_def delete_where_def)
  show ?case
  proof (cases "u_id v = u_id u \<or> gone")
    case True
    then have "u_id v = u_id u \<or> (\<exists>t \<in> set (ac_tokens a). tk_id t = tid)" by (auto simp: gone exists_row_iff)
    have none: "tid \<notin> tk_id ` set (ac_tokens a1)"
    proof
      assume "tid \<in> tk_id ` set (ac_tokens a1)"
      then obtain t where t: "t \<in> set (ac_tokens a)" "tk_id t = tid" "tk_user_id t \<noteq> u_id v" by (auto simp: a1)
      with Cons.prems(2)[OF t(1,2)] True have gone by simp
      then obtain t' where "t' \<in> set (ac_tokens a)" "tk_id t' = tid" "tk_user_id t' = u_id v" by (auto simp: gone exists_row_iff)
      with Cons.prems(2)[of t'] Cons.prems(2)[OF t(1,2)] t(3) show False by simp
    qed
    have fewer: "set (ac_tokens (snd (revoke_among tid vs b))) \<subseteq> set (ac_tokens b)" for vs b
      by (induction tid vs b rule: revoke_among.induct) (auto simp: delete_api_token_def delete_where_def split: prod.splits bool.splits)
    with none run show ?thesis by (cases gone) auto
  next
    case False
    then have "u \<in> set us" using Cons.prems(1) by auto
    with Cons.IH[of a1] Cons.prems(2) False run show ?thesis by (auto simp: a1)
  qed
qed simp

lemma issued_row:
  assumes "create_api_token_issued T E uid nm days scope issued_by a = (Inr (tid, raw), a')" and "accounts_inv a"
  shows "\<exists>t u. ac_tokens a' = ac_tokens a @ [t] \<and> ac_users a' = ac_users a \<and> tk_id t = tid \<and> tk_hash t = sha256_hex T raw \<and> tk_user_id t = uid \<and>
    tk_scope t = api_token_scope_as_str scope \<and> tk_expires_at t = rfc3339 T (after (time_tools.truncate T) (an_now E 1) (days_span days)) \<and>
    tk_last_used_at t = None \<and> user_by_id a uid = Some u \<and> accounts_inv a' \<and> sha256_hex T raw \<notin> tk_hash ` set (ac_tokens a)"
proof -
  let ?t = "\<lparr>tk_id = an_uuid E, tk_user_id = uid, tk_name = nm, tk_hash = sha256_hex T (''san_'' @ an_api_token E),
        tk_scope = api_token_scope_as_str scope, tk_created_at = rfc3339 T (an_now E 0),
        tk_expires_at = rfc3339 T (after (time_tools.truncate T) (an_now E 1) (days_span days)),
        tk_last_used_at = None, tk_issued_by = issued_by\<rparr>"
  have row: "create_token_row ?t a = Inr a'" and raw: "tid = an_uuid E" "raw = ''san_'' @ an_api_token E"
    using assms(1) unfolding create_api_token_issued_def Let_def by (auto simp: returns)
  have "ac_tokens a' = ac_tokens a @ [?t]" "ac_users a' = ac_users a" "\<exists>u. user_by_id a uid = Some u" "tk_hash ?t \<notin> tk_hash ` set (ac_tokens a)"
    using row by (auto simp: create_token_row_def exists_row_iff split: if_splits)
  with inv_token[OF row assms(2)] raw show ?thesis by auto
qed

lemma token_owner:
  assumes "issue_token T E who r a = (Inr (tid, raw), a')"
  shows "\<exists>uid issued_by. create_api_token_issued T E uid (tr_name r) (tr_expires_in_days r) (tr_scope r) issued_by a = (Inr (tid, raw), a') \<and>
    (uid = a_user_id who \<or> has_permission who ManageUsers \<and> (\<exists>u \<in> set (ac_users a). u_id u = uid \<and> is_service_account u \<and> tr_for_user r = Some (u_username u)))"
proof (cases "case tr_for_user r of Some u \<Rightarrow> if u = [] then None else Some u | None \<Rightarrow> None")
  case (Some for_user)
  then have "tr_for_user r = Some for_user" by (auto split: option.splits if_splits)
  with assms Some show ?thesis unfolding issue_token_def
    by (fastforce simp: returns split: if_splits option.splits dest: find_user_in)
qed (use assms in \<open>auto simp: issue_token_def\<close>)

text \<open>A revocation only ever removes tokens.\<close>

lemma revoking_only_removes: "set (ac_tokens (snd (revoke_token_as who tid a))) \<subseteq> set (ac_tokens a)"
proof -
  have fewer: "set (ac_tokens (snd (revoke_among tid vs b))) \<subseteq> set (ac_tokens b)" for vs b
    by (induction tid vs b rule: revoke_among.induct) (auto simp: delete_api_token_def delete_where_def split: prod.splits bool.splits)
  from fewer[of "service_accounts _" "snd (delete_api_token tid (a_user_id who) a)"] show ?thesis
    by (auto simp: revoke_token_as_def delete_api_token_def delete_where_def split: bool.splits)
qed

text \<open>It removes the token when the caller owns it, or manages users and a service account owns it.\<close>

lemma revoked_token_is_gone:
  assumes "t \<in> set (ac_tokens a)" and only: "\<And>x. x \<in> set (ac_tokens a) \<Longrightarrow> tk_id x = tk_id t \<Longrightarrow> x = t"
    and owner: "tk_user_id t = a_user_id who \<or>
      has_permission who ManageUsers \<and> (\<exists>v \<in> set (ac_users a). u_id v = tk_user_id t \<and> is_service_account v)"
  shows "tk_id t \<notin> tk_id ` set (ac_tokens (snd (revoke_token_as who (tk_id t) a)))"
proof (cases "tk_user_id t = a_user_id who")
  case True
  then have "fst (delete_api_token (tk_id t) (a_user_id who) a)" using assms(1) by (auto simp: delete_api_token_def exists_row_iff)
  then have "snd (revoke_token_as who (tk_id t) a) = snd (delete_api_token (tk_id t) (a_user_id who) a)"
    by (cases "delete_api_token (tk_id t) (a_user_id who) a") (simp add: revoke_token_as_def)
  with only True show ?thesis by (auto simp: delete_api_token_def delete_where_def)
next
  case False
  let ?a = "snd (delete_api_token (tk_id t) (a_user_id who) a)"
  from False owner obtain v where v: "v \<in> set (ac_users a)" "u_id v = tk_user_id t" "is_service_account v" and may: "has_permission who ManageUsers" by blast
  have "\<not> fst (delete_api_token (tk_id t) (a_user_id who) a)" using only False by (auto simp: delete_api_token_def exists_row_iff)
  then have "snd (revoke_token_as who (tk_id t) a) = snd (revoke_among (tk_id t) (service_accounts ?a) ?a)"
    using may by (cases "delete_api_token (tk_id t) (a_user_id who) a") (simp add: revoke_token_as_def)
  moreover have "v \<in> set (service_accounts ?a)" using v by (simp add: service_accounts_def list_users_def delete_api_token_def)
  ultimately show ?thesis using revoke_among_removes[of v _ ?a "tk_id t"] only v(2) by (auto simp: delete_api_token_def delete_where_def)
qed

text \<open>
  C19: An issued token is good for what it was issued for. Until it expires it
  validates with its id, its scope and its owner: the caller, or the service
  account it was asked for by one who manages users; and after the caller has
  revoked it, it validates no more.
\<close>

theorem issued_token_round_trip:
  assumes "accounts_inv a" and "issue_token T E who r a = (Inr (tid, raw), a')"
    and "expires_after T (an_sql_now E') (rfc3339 T (after (time_tools.truncate T) (an_now E 1) (days_span (tr_expires_in_days r))))"
  shows "(\<exists>u \<in> set (ac_users a). fst (validate_api_token T E' naive_utc raw a') =
      Some \<lparr>ti_token_id = tid, ti_scope = tr_scope r, ti_last_used_at = None, ti_user = u\<rparr> \<and>
      (u_id u = a_user_id who \<or> has_permission who ManageUsers \<and> is_service_account u \<and> tr_for_user r = Some (u_username u))) \<and>
    fst (validate_api_token T E' naive_utc raw (snd (revoke_token_as who tid a'))) = None"
proof -
  obtain uid issued_by where made: "create_api_token_issued T E uid (tr_name r) (tr_expires_in_days r) (tr_scope r) issued_by a = (Inr (tid, raw), a')"
    and owner: "uid = a_user_id who \<or> has_permission who ManageUsers \<and> (\<exists>u \<in> set (ac_users a). u_id u = uid \<and> is_service_account u \<and> tr_for_user r = Some (u_username u))"
    using token_owner[OF assms(2)] by blast
  obtain t u where t: "ac_tokens a' = ac_tokens a @ [t]" "ac_users a' = ac_users a" "tk_id t = tid" "tk_hash t = sha256_hex T raw" "tk_user_id t = uid"
      "tk_scope t = api_token_scope_as_str (tr_scope r)" "tk_expires_at t = rfc3339 T (after (time_tools.truncate T) (an_now E 1) (days_span (tr_expires_in_days r)))"
      "tk_last_used_at t = None" and u: "user_by_id a uid = Some u" and inv: "accounts_inv a'" and fresh: "sha256_hex T raw \<notin> tk_hash ` set (ac_tokens a)"
    using issued_row[OF made assms(1)] by blast
  have ids: "distinct (map tk_id (ac_tokens a'))" and hashes: "distinct (map tk_hash (ac_tokens a'))"
    and users: "distinct (map u_id (ac_users a))" using inv t(2) by (simp_all add: accounts_inv_def accounts_ok_def)
  have "find (\<lambda>x. tk_hash x = sha256_hex T raw) (ac_tokens a') = Some t" using find_unique[OF hashes, of t] t(1,4) by simp
  then have valid: "fst (validate_api_token T E' naive_utc raw a') = Some \<lparr>ti_token_id = tid, ti_scope = tr_scope r, ti_last_used_at = None, ti_user = u\<rparr>"
    using u assms(3) t by (simp add: validate_api_token_def token_identity_of_def stored_scope_def user_by_id_def)
  have same: "v = u" if "v \<in> set (ac_users a)" "u_id v = uid" for v
    using that user_by_id_in[OF u] users by (auto simp: distinct_map dest: inj_onD)
  have only: "x = t" if "x \<in> set (ac_tokens a')" "tk_id x = tid" for x
    using that t(1,3) ids by (auto simp: distinct_map)
  have gone: "tid \<notin> tk_id ` set (ac_tokens (snd (revoke_token_as who tid a')))"
  proof -
    have "t \<in> set (ac_tokens a')" using t(1) by simp
    moreover have "x = t" if "x \<in> set (ac_tokens a')" "tk_id x = tk_id t" for x using only that t(3) by simp
    moreover have "tk_user_id t = a_user_id who \<or>
        has_permission who ManageUsers \<and> (\<exists>v \<in> set (ac_users a'). u_id v = tk_user_id t \<and> is_service_account v)"
      using owner unfolding t(2,5) by blast
    ultimately show ?thesis using revoked_token_is_gone[of t a' who] unfolding t(3) by blast
  qed
  have "find (\<lambda>x. tk_hash x = sha256_hex T raw) (ac_tokens (snd (revoke_token_as who tid a'))) = None"
    unfolding find_None_not using gone revoking_only_removes[of who tid a'] t(1,3) fresh by (fastforce simp: image_iff)
  then have "fst (validate_api_token T E' naive_utc raw (snd (revoke_token_as who tid a'))) = None"
    by (simp add: validate_api_token_def token_identity_of_def)
  with valid owner same user_by_id_in[OF u] show ?thesis by blast
qed

section \<open>One person, one account\<close>

lemma Union_absorbs:
  assumes "\<And>x. x \<in> C \<Longrightarrow> g x = f x \<or> g x = P \<union> Q \<and> f x = P"
  shows "P \<union> Q \<union> (\<Union>x \<in> C. g x) = P \<union> Q \<union> (\<Union>x \<in> C. f x)"
proof -
  have "x \<in> C \<Longrightarrow> g x \<subseteq> P \<union> Q \<union> f x" "x \<in> C \<Longrightarrow> f x \<subseteq> P \<union> Q \<union> g x" for x using assms[of x] by auto
  then show ?thesis by blast
qed

lemma merge_candidates_fold:
  assumes "merge_candidates R canonical target cs a = (Inr (), a')" and "distinct (map u_id cs)" and "u_id ` set cs \<subseteq> u_id ` set (ac_users a)"
    and "\<forall>c \<in> set (target # cs). u_username c \<notin> R"
  shows "roles_of a' (u_id target) = roles_of a (u_id target) \<union> (\<Union>c \<in> set cs. roles_of a (u_id c))"
    "v \<notin> u_id ` set (target # cs) \<Longrightarrow> roles_of a' v = roles_of a v"
    "u_id ` set (ac_users a') = u_id ` set (ac_users a) - (u_id ` set cs - {u_id target})"
  using assms
proof (induction cs arbitrary: a)
  case Nil
  { case 1 then show ?case by (simp add: return_def) next
    case 2 then show ?case by (simp add: return_def) next
    case 3 then show ?case by (simp add: return_def) }
next
  case (Cons c cs)
  define others where "others \<longleftrightarrow> u_id c \<noteq> u_id target"
  have step: "\<exists>b. merge_candidates R canonical target cs b = (Inr (), a') \<and>
      roles_of b (u_id target) = roles_of a (u_id target) \<union> roles_of a (u_id c) \<and>
      (\<forall>v. v \<noteq> u_id c \<longrightarrow> v \<noteq> u_id target \<longrightarrow> roles_of b v = roles_of a v) \<and>
      u_id ` set (ac_users b) = u_id ` set (ac_users a) - ({u_id c} - {u_id target})"
    if run: "merge_candidates R canonical target (c # cs) a = (Inr (), a')" and known: "u_id ` set (c # cs) \<subseteq> u_id ` set (ac_users a)"
      and names: "\<forall>x \<in> set (target # c # cs). u_username x \<notin> R" for a
  proof (cases others)
    case False
    with run show ?thesis by (auto simp: others_def)
  next
    case True
    then obtain m b where m: "merge_accounts (u_id c) (u_id target) a = Inr m"
      and b: "account_audit (u_username target) ''MERGE_USER'' (Text ''Merged'' [S (u_username c), S (u_username target), S canonical]) m = (Inr (), b)"
      and rest: "merge_candidates R canonical target cs b = (Inr (), a')"
      using run names by (auto simp: returns others_def)
    have same: "ac_auth b = ac_auth m" "ac_users b = ac_users m" using b by (auto simp: account_audit_def modify_def)
    have c: "u_id c \<in> u_id ` set (ac_users a)" "u_id c \<noteq> u_id target" using known True by (auto simp: others_def)
    note roles = merge_roles[OF m c]
    have "u_id ` set (ac_users m) = u_id ` set (ac_users a) - {u_id c}" using merge_keeps_others[OF m] by auto
    moreover have "roles_of b v = roles_of m v" for v using same(1) by (simp add: roles_of_def)
    ultimately show ?thesis using roles rest same(2) c(2) by (intro exI[of _ b]) simp
  qed
  have later: "u_id ` set cs \<subseteq> u_id ` set (ac_users b)"
    if "u_id ` set (ac_users b) = u_id ` set (ac_users a) - ({u_id c} - {u_id target})" and "distinct (map u_id (c # cs))"
      and "u_id ` set (c # cs) \<subseteq> u_id ` set (ac_users a)" for a b
  proof -
    have "u_id c \<notin> u_id ` set cs" "u_id ` set cs \<subseteq> u_id ` set (ac_users a)" using that(2,3) by simp_all
    then show ?thesis unfolding that(1) by blast
  qed
  { case 1
    obtain b where b: "merge_candidates R canonical target cs b = (Inr (), a')"
      "roles_of b (u_id target) = roles_of a (u_id target) \<union> roles_of a (u_id c)"
      "\<And>v. v \<noteq> u_id c \<Longrightarrow> v \<noteq> u_id target \<Longrightarrow> roles_of b v = roles_of a v"
      "u_id ` set (ac_users b) = u_id ` set (ac_users a) - ({u_id c} - {u_id target})"
      using step[OF 1(1,3,4)] by blast
    have "roles_of b (u_id x) = roles_of a (u_id x) \<or>
        roles_of b (u_id x) = roles_of a (u_id target) \<union> roles_of a (u_id c) \<and> roles_of a (u_id x) = roles_of a (u_id target)" if "x \<in> set cs" for x
      using b(2) b(3)[of "u_id x"] that 1(2) by (cases "u_id x = u_id target") (auto simp: image_iff)
    from Union_absorbs[of "set cs", OF this] have "roles_of b (u_id target) \<union> (\<Union>x \<in> set cs. roles_of b (u_id x)) =
        roles_of a (u_id target) \<union> roles_of a (u_id c) \<union> (\<Union>x \<in> set cs. roles_of a (u_id x))"
      unfolding b(2) .
    with Cons.IH(1)[OF b(1) _ later[OF b(4) 1(2,3)]] 1(2,4) show ?case by auto }
  { case 2
    obtain b where b: "merge_candidates R canonical target cs b = (Inr (), a')"
      "\<And>v. v \<noteq> u_id c \<Longrightarrow> v \<noteq> u_id target \<Longrightarrow> roles_of b v = roles_of a v"
      "u_id ` set (ac_users b) = u_id ` set (ac_users a) - ({u_id c} - {u_id target})"
      using step[OF 2(2,4,5)] by blast
    with Cons.IH(2)[OF _ b(1) _ later[OF b(3) 2(3,4)]] 2(1,3,5) show ?case by auto }
  { case 3
    obtain b where b: "merge_candidates R canonical target cs b = (Inr (), a')"
      "u_id ` set (ac_users b) = u_id ` set (ac_users a) - ({u_id c} - {u_id target})"
      using step[OF 3(1,3,4)] by blast
    with Cons.IH(3)[OF b(1) _ later[OF b(2) 3(2,3)]] 3(2,4) show ?case by auto }
qed

text \<open>
  What the tables hold of one account, and what a fold does to them: the rows of an
  account outside it stay as they are, and every session and token stays, under the
  account that is left when it was of one of those folded.
\<close>

definition rows_of :: "accounts \<Rightarrow> row_id \<Rightarrow> accounts" where
  "rows_of a v = a\<lparr>ac_users := filter (\<lambda>u. u_id u = v) (ac_users a),
     ac_sessions := filter (\<lambda>s. ss_user_id s = v) (ac_sessions a), ac_tokens := filter (\<lambda>t. tk_user_id t = v) (ac_tokens a),
     ac_profiles := filter (\<lambda>r. pr_user_id r = v) (ac_profiles a),
     ac_auth := (ac_auth a)\<lparr>user_roles := filter (\<lambda>x. fst x = v) (user_roles (ac_auth a)),
       group_members := filter (\<lambda>x. snd x = v) (group_members (ac_auth a)),
       user_maintainers := filter (\<lambda>x. snd x = v) (user_maintainers (ac_auth a))\<rparr>,
     ac_db := (ac_db a)\<lparr>audit_log := [], user_favorites := filter (\<lambda>f. fst f = v) (user_favorites (ac_db a))\<rparr>\<rparr>"

definition hand_over_sessions :: "row_id set \<Rightarrow> row_id \<Rightarrow> session_row list \<Rightarrow> session_row list" where
  "hand_over_sessions from into = update_where (\<lambda>s. ss_user_id s \<in> from) (ss_user_id_update (\<lambda>_. into))"

definition hand_over_tokens :: "row_id set \<Rightarrow> row_id \<Rightarrow> api_token_row list \<Rightarrow> api_token_row list" where
  "hand_over_tokens from into = update_where (\<lambda>t. tk_user_id t \<in> from) (tk_user_id_update (\<lambda>_. into))"

lemma filter_map_elsewhere:
  assumes "\<And>x. x \<in> set xs \<Longrightarrow> p x \<Longrightarrow> g x = x" and "\<And>x. x \<in> set xs \<Longrightarrow> \<not> p x \<Longrightarrow> \<not> p (g x)" and "\<And>x. p x \<Longrightarrow> q x"
  shows "filter p (filter q (map g xs)) = filter p xs"
  using assms by (induction xs) auto

lemma filter_elsewhere: "(\<And>x. p x \<Longrightarrow> q x) \<Longrightarrow> filter p (filter q xs) = filter p xs"
  by (induction xs) auto

lemma merge_rows_of_others:
  assumes "merge_accounts from into a = Inr b" and "v \<noteq> from" "v \<noteq> into"
  shows "rows_of b v = rows_of a v"
proof -
  define gone where "gone = set (map u_id (filter (\<lambda>u. u_id u = from) (ac_users a)))"
  have g: "v \<notin> gone" using assms(2) by (auto simp: gone_def)
  have b: "b = drop_accounts (\<lambda>u. u_id u = from) (move_account_rows from into a)"
    using assms(1) by (auto simp: merge_accounts_def split: if_splits)
  have moved: "ac_users (move_account_rows from into a) = ac_users a" by (simp add: move_account_rows_def Let_def)
  have "filter (\<lambda>u. u_id u = v) (filter (\<lambda>u. \<not> u_id u = from) (ac_users a)) = filter (\<lambda>u. u_id u = v) (ac_users a)"
    using assms(2) by (intro filter_elsewhere) auto
  moreover have "filter (\<lambda>r. pr_user_id r = v) (filter (\<lambda>r. pr_user_id r \<notin> gone) (ac_profiles a)) = filter (\<lambda>r. pr_user_id r = v) (ac_profiles a)"
    using g by (intro filter_elsewhere) auto
  moreover have "filter (\<lambda>s. ss_user_id s = v) (filter (\<lambda>s. ss_user_id s \<notin> gone)
      (update_where (\<lambda>s. ss_user_id s = from) (ss_user_id_update (\<lambda>_. into)) (ac_sessions a))) = filter (\<lambda>s. ss_user_id s = v) (ac_sessions a)"
    unfolding update_where_def using g assms(2,3) by (intro filter_map_elsewhere) auto
  moreover have "filter (\<lambda>t. tk_user_id t = v) (filter (\<lambda>t. tk_user_id t \<notin> gone)
      (update_where (\<lambda>t. tk_user_id t = from) (tk_user_id_update (\<lambda>_. into)) (ac_tokens a))) = filter (\<lambda>t. tk_user_id t = v) (ac_tokens a)"
    unfolding update_where_def using g assms(2,3) by (intro filter_map_elsewhere) auto
  moreover have "filter (\<lambda>x. fst x = v) (filter (\<lambda>x. fst x \<notin> gone) (move_rows from into rs)) = filter (\<lambda>x. fst x = v) rs"
    for rs :: "(row_id \<times> string) list"
    unfolding move_rows_def using g assms(2,3) by (intro filter_map_elsewhere) auto
  moreover have "filter (\<lambda>x. snd x = v) (filter (\<lambda>x. snd x \<notin> gone) (move_members from into rs)) = filter (\<lambda>x. snd x = v) rs"
    for rs :: "(row_id \<times> row_id) list"
    unfolding move_members_def using g assms(2,3) by (intro filter_map_elsewhere) auto
  moreover have "filter (\<lambda>f. fst f = v) (filter (\<lambda>f. fst f \<notin> gone) (move_favorites from into fs)) = filter (\<lambda>f. fst f = v) fs" for fs
    unfolding move_favorites_def using g assms(2,3) by (intro filter_map_elsewhere) auto
  ultimately show ?thesis
    unfolding b rows_of_def drop_accounts_def Let_def delete_where_def moved gone_def[symmetric]
    by (simp add: move_account_rows_def Let_def)
qed

lemma merge_hands_over:
  assumes "merge_accounts from into a = Inr b" and "from \<noteq> into"
  shows "ac_sessions b = hand_over_sessions {from} into (ac_sessions a)" "ac_tokens b = hand_over_tokens {from} into (ac_tokens a)"
proof -
  define gone where "gone = set (map u_id (filter (\<lambda>u. u_id u = from) (ac_users a)))"
  have g: "gone \<subseteq> {from}" by (auto simp: gone_def)
  have b: "b = drop_accounts (\<lambda>u. u_id u = from) (move_account_rows from into a)"
    using assms(1) by (auto simp: merge_accounts_def split: if_splits)
  have moved: "ac_users (move_account_rows from into a) = ac_users a" by (simp add: move_account_rows_def Let_def)
  have "filter (\<lambda>s. ss_user_id s \<notin> gone) (update_where (\<lambda>s. ss_user_id s = from) (ss_user_id_update (\<lambda>_. into)) ss) =
      hand_over_sessions {from} into ss" for ss
    unfolding hand_over_sessions_def update_where_def using g assms(2) by (auto simp: filter_id_conv split: if_splits)
  then show "ac_sessions b = hand_over_sessions {from} into (ac_sessions a)"
    unfolding b drop_accounts_def Let_def delete_where_def moved gone_def[symmetric] by (simp add: move_account_rows_def Let_def)
  have "filter (\<lambda>t. tk_user_id t \<notin> gone) (update_where (\<lambda>t. tk_user_id t = from) (tk_user_id_update (\<lambda>_. into)) ts) =
      hand_over_tokens {from} into ts" for ts
    unfolding hand_over_tokens_def update_where_def using g assms(2) by (auto simp: filter_id_conv split: if_splits)
  then show "ac_tokens b = hand_over_tokens {from} into (ac_tokens a)"
    unfolding b drop_accounts_def Let_def delete_where_def moved gone_def[symmetric] by (simp add: move_account_rows_def Let_def)
qed

lemma hand_over_twice:
  "hand_over_sessions F into (hand_over_sessions G into ss) = hand_over_sessions (F \<union> G) into ss"
  "hand_over_tokens F into (hand_over_tokens G into ts) = hand_over_tokens (F \<union> G) into ts"
  by (auto simp: hand_over_sessions_def hand_over_tokens_def update_where_def)

lemma hand_over_to_itself:
  "hand_over_sessions {into} into ss = ss" "hand_over_tokens {into} into ts = ts" "hand_over_sessions {} into ss = ss" "hand_over_tokens {} into ts = ts"
  by (auto simp: hand_over_sessions_def hand_over_tokens_def update_where_def intro!: map_idI)

lemma rows_of_audit: "account_audit who action details a = (Inr (), b) \<Longrightarrow> rows_of b v = rows_of a v \<and> ac_sessions b = ac_sessions a \<and> ac_tokens b = ac_tokens a"
  by (auto simp: account_audit_def modify_def rows_of_def insert_audit_log_def)

lemma merge_candidates_rest:
  assumes "merge_candidates R canonical target cs a = (Inr (), a')" and "\<forall>c \<in> set (target # cs). u_username c \<notin> R"
  shows "v \<notin> u_id ` set (target # cs) \<Longrightarrow> rows_of a' v = rows_of a v"
    "ac_sessions a' = hand_over_sessions (u_id ` set cs) (u_id target) (ac_sessions a)"
    "ac_tokens a' = hand_over_tokens (u_id ` set cs) (u_id target) (ac_tokens a)"
proof -
  have "(v \<notin> u_id ` set (target # cs) \<longrightarrow> rows_of a' v = rows_of a v) \<and>
      ac_sessions a' = hand_over_sessions (u_id ` set cs) (u_id target) (ac_sessions a) \<and>
      ac_tokens a' = hand_over_tokens (u_id ` set cs) (u_id target) (ac_tokens a)"
    using assms
  proof (induction cs arbitrary: a)
    case (Cons c cs)
    show ?case
    proof (cases "u_id c = u_id target")
      case True
      then have "merge_candidates R canonical target cs a = (Inr (), a')" using Cons.prems(1) by simp
      with Cons.IH[of a] Cons.prems(2) True hand_over_twice[of "u_id ` set cs" "u_id target" "{u_id target}"] show ?thesis
        by (auto simp: hand_over_to_itself)
    next
      case False
      then obtain m b where m: "merge_accounts (u_id c) (u_id target) a = Inr m"
        and b: "account_audit (u_username target) ''MERGE_USER'' (Text ''Merged'' [S (u_username c), S (u_username target), S canonical]) m = (Inr (), b)"
        and rest: "merge_candidates R canonical target cs b = (Inr (), a')"
        using Cons.prems by (auto simp: returns)
      have over: "ac_sessions b = hand_over_sessions {u_id c} (u_id target) (ac_sessions a)" "ac_tokens b = hand_over_tokens {u_id c} (u_id target) (ac_tokens a)"
        using merge_hands_over[OF m False] rows_of_audit[OF b] by simp_all
      have "rows_of b v = rows_of a v" if "v \<noteq> u_id c" "v \<noteq> u_id target"
        using merge_rows_of_others[OF m that] rows_of_audit[OF b] by simp
      with Cons.IH[OF rest] Cons.prems(2) over hand_over_twice[of "u_id ` set cs" "u_id target" "{u_id c}"] show ?thesis by auto
    qed
  qed (simp add: return_def hand_over_to_itself)
  then show "v \<notin> u_id ` set (target # cs) \<Longrightarrow> rows_of a' v = rows_of a v"
    "ac_sessions a' = hand_over_sessions (u_id ` set cs) (u_id target) (ac_sessions a)"
    "ac_tokens a' = hand_over_tokens (u_id ` set cs) (u_id target) (ac_tokens a)" by simp_all
qed

lemma distinct_consider_user: "distinct (map u_id cs) \<Longrightarrow> distinct (map u_id (consider_user cs found))"
  by (auto simp: consider_user_def list_ex_iff split: option.splits)

lemma distinct_candidates: "distinct (map u_id (candidates typed identity a))"
  unfolding candidates_def Let_def
  by (auto intro!: distinct_consider_user split: option.splits)

lemma target_in: "target_of identity cs = Some target \<Longrightarrow> target \<in> set cs"
  by (auto simp: target_of_def split: option.splits list.splits dest: find_Some_in)

lemma renamed_roles:
  assumes "rename_target R canonical target a = (Inr u, a')"
  shows "u_id u = u_id target \<and> ac_auth a' = ac_auth a \<and> u_id ` set (ac_users a') = u_id ` set (ac_users a)"
proof -
  have ids: "u_id ` set (update_where p (u_username_update f) us) = u_id ` set us" for p f us
    using update_keeps[of u_id "u_username_update f" p us] unfolding set_map[symmetric] by simp
  show ?thesis
  proof (cases "u = target \<and> a' = a")
    case False
    then have "u = target\<lparr>u_username := canonical\<rparr> \<and> ac_auth a' = ac_auth a \<and>
        ac_users a' = update_where (\<lambda>u. u_id u = u_id target) (u_username_update (\<lambda>_. canonical)) (ac_users a)"
      using assms by (auto simp: rename_target_def returns rename_user_def account_audit_def split: if_splits)
    with ids show ?thesis by simp
  qed simp
qed

lemma claimed_roles:
  assumes "claim_directory_id identity u a = (Inr (), a')"
  shows "ac_auth a' = ac_auth a \<and> ac_users a' = ac_users a"
  using assms by (auto simp: claim_directory_id_def returns set_directory_id_def upsert_profile_def split: option.splits if_splits)

lemma renamed_rest:
  assumes "rename_target R canonical target a = (Inr u, a')"
  shows "(v \<noteq> u_id target \<longrightarrow> rows_of a' v = rows_of a v) \<and> ac_sessions a' = ac_sessions a \<and> ac_tokens a' = ac_tokens a"
proof (cases "u = target \<and> a' = a")
  case False
  then obtain b who action details where b: "rename_user (u_id target) canonical a = Inr b" and said: "account_audit who action details b = (Inr (), a')"
    using assms by (auto simp: rename_target_def returns split: if_splits)
  have "filter (\<lambda>u. u_id u = v) (update_where (\<lambda>u. u_id u = u_id target) (u_username_update (\<lambda>_. canonical)) us) = filter (\<lambda>u. u_id u = v) us"
    if "v \<noteq> u_id target" for us :: "user list"
    using that by (induction us) (auto simp: update_where_def)
  then have "(v \<noteq> u_id target \<longrightarrow> rows_of b v = rows_of a v) \<and> ac_sessions b = ac_sessions a \<and> ac_tokens b = ac_tokens a"
    using b by (auto simp: rename_user_def rows_of_def split: if_splits)
  with rows_of_audit[OF said] show ?thesis by simp
qed simp

lemma claimed_rest:
  assumes "claim_directory_id identity u a = (Inr (), a')"
  shows "(v \<noteq> u_id u \<longrightarrow> rows_of a' v = rows_of a v) \<and> ac_sessions a' = ac_sessions a \<and> ac_tokens a' = ac_tokens a"
proof -
  have "filter (\<lambda>r. pr_user_id r = v) (update_where (\<lambda>r. pr_user_id r = u_id u) (pr_directory_id_update f) rs) = filter (\<lambda>r. pr_user_id r = v) rs"
    if "v \<noteq> u_id u" for f and rs :: "profile_row list"
    using that by (induction rs) (auto simp: update_where_def)
  with assms show ?thesis
    by (auto simp: claim_directory_id_def returns set_directory_id_def upsert_profile_def rows_of_def empty_profile_def
        split: option.splits if_splits)
qed

text \<open>
  C20: A directory sign-in leaves one account of one person. Take a sign-in for which
  there is an account that may be theirs (a first sign-in makes one and is not meant
  here) and of which none is a root user's (those are never folded). The account the
  session is for is one of them: it holds all their roles, and all their sessions and
  tokens are its own; the others are gone. Every other account stays, and so do its
  user row, roles, sessions, tokens, profile, group memberships, Producers to maintain
  and favourites (\<open>rows_of\<close>, which also keeps the rest of the database, the audit log aside).
\<close>

theorem directory_sign_in_folds:
  assumes "accounts_inv a" and "directory_account T E R typed identity a = (Inr u, a')"
    and "candidates typed identity a = c # cs" and "\<forall>x \<in> set (c # cs). u_username x \<notin> R" and "typed = None \<or> typed = find_user a nm"
  shows "u_id u \<in> u_id ` set (c # cs) \<and> roles_of a' (u_id u) = (\<Union>x \<in> set (c # cs). roles_of a (u_id x)) \<and>
    ac_sessions a' = hand_over_sessions (u_id ` set (c # cs)) (u_id u) (ac_sessions a) \<and>
    ac_tokens a' = hand_over_tokens (u_id ` set (c # cs)) (u_id u) (ac_tokens a) \<and>
    u_id ` set (ac_users a') = u_id ` set (ac_users a) - (u_id ` set (c # cs) - {u_id u}) \<and>
    (\<forall>v. v \<notin> u_id ` set (c # cs) \<longrightarrow> roles_of a' v = roles_of a v \<and> rows_of a' v = rows_of a v)"
proof -
  have "target_of identity (c # cs) \<noteq> None" by (simp add: target_of_def split: option.split)
  then obtain target where target: "target_of identity (c # cs) = Some target" by blast
  then obtain m b where m: "merge_candidates R (au_name identity) target (c # cs) a = (Inr (), m)"
    and b: "rename_target R (au_name identity) target m = (Inr u, b)" and claimed: "claim_directory_id identity u b = (Inr (), a')"
    using assms(2,3) by (auto simp: directory_account_def returns)
  note at = target_in[OF target]
  have typed: "x \<in> set (ac_users a)" if "typed = Some x" for x using assms(5) that find_user_in by auto
  have known: "u_id ` set (c # cs) \<subseteq> u_id ` set (ac_users a)"
    using candidate_is_person[of _ typed identity a, OF _ typed] by (simp only: assms(3)) blast
  have ids: "distinct (map u_id (c # cs))" using distinct_candidates[of typed identity a] assms(3) by simp
  have names: "\<forall>x \<in> set (target # c # cs). u_username x \<notin> R" using assms(4) at by auto
  note folded = merge_candidates_fold[OF m ids known names]
  have same: "roles_of a' v = roles_of m v" for v using renamed_roles[OF b] claimed_roles[OF claimed] by (simp add: roles_of_def)
  have folded': "v \<notin> u_id ` set (target # c # cs) \<Longrightarrow> roles_of m v = roles_of a v" for v
    by (rule merge_candidates_fold(2)[OF m ids known names])
  have all: "roles_of a (u_id target) \<subseteq> (\<Union>x \<in> set (c # cs). roles_of a (u_id x))" using at by blast
  have who: "u_id u = u_id target" "u_id ` set (ac_users a') = u_id ` set (ac_users m)"
    using renamed_roles[OF b] claimed_roles[OF claimed] by simp_all
  have "roles_of a' (u_id u) = (\<Union>x \<in> set (c # cs). roles_of a (u_id x))" unfolding same who(1) folded(1) using all by blast
  moreover have "u_id ` set (ac_users a') = u_id ` set (ac_users a) - (u_id ` set (c # cs) - {u_id u})" unfolding who folded(3) ..
  moreover have "u_id u \<in> u_id ` set (c # cs)" unfolding who(1) using at by (rule imageI)
  moreover have "roles_of a' v = roles_of a v \<and> rows_of a' v = rows_of a v" if out: "v \<notin> u_id ` set (c # cs)" for v
  proof -
    have v: "v \<noteq> u_id target" "v \<notin> u_id ` set (target # c # cs)" using out at by auto
    have "rows_of m v = rows_of a v" by (rule merge_candidates_rest(1)[OF m names v(2)])
    moreover have "rows_of b v = rows_of m v" using renamed_rest[OF b, of v] v(1) by simp
    moreover have "rows_of a' v = rows_of b v" using claimed_rest[OF claimed, of v] v(1) by (simp add: who(1))
    ultimately show ?thesis using folded'[OF v(2)] by (simp add: same)
  qed
  moreover have "ac_sessions a' = hand_over_sessions (u_id ` set (c # cs)) (u_id u) (ac_sessions a)"
    "ac_tokens a' = hand_over_tokens (u_id ` set (c # cs)) (u_id u) (ac_tokens a)"
    using merge_candidates_rest(2,3)[OF m names] renamed_rest[OF b] claimed_rest[OF claimed] by (simp_all add: who(1))
  ultimately show ?thesis by blast
qed

section \<open>Further facts of sign-in\<close>

text \<open>The flow cookie: neither the state nor the nonce holds the separator.\<close>

lemma oidc_round_trip:
  assumes "CHR ''|'' \<notin> set (of_state f)" "CHR ''|'' \<notin> set (of_nonce f)" and "of_state f \<noteq> []" "of_nonce f \<noteq> []" "of_pkce_verifier f \<noteq> []"
  shows "oidc_decode (oidc_encode f) = Some f"
proof -
  from split_once_first[OF assms(1), of "of_nonce f @ ''|'' @ of_pkce_verifier f"] split_once_first[OF assms(2), of "of_pkce_verifier f"] assms(3-5)
  show ?thesis by (cases f) (simp add: oidc_decode_def oidc_encode_def)
qed

text \<open>A stamp is renewed a minute later at the earliest, unless it cannot be read.\<close>

lemma last_used_throttle:
  assumes "parse_rfc3339 T s = Some t"
  shows "last_used_stamp_due T naive_utc (Some s) now \<longleftrightarrow> t + 60 \<le> now"
  using assms by (auto simp: last_used_stamp_due_def)

text \<open>
  Two accounts of one person that both have a token of the same name are never
  folded: the sign-in fails and leaves both.
\<close>

lemma same_named_tokens_block:
  assumes "same_token_names (u_id c) (u_id target) a" and "u_id c \<noteq> u_id target" and "u_username c \<notin> R" "u_username target \<notin> R"
  shows "fst (merge_candidates R canonical target (c # cs) a) = Inl (app_error_from (RepoInternal ''UNIQUE constraint failed: api_tokens.user_id, api_tokens.name''))"
  using assms by (simp add: merge_accounts_def bind_def exec_def)

text \<open>Locking the dev user ends no session of it.\<close>

lemma dev_sessions_stay:
  assumes "find_user a dev_user = Some u" and "\<not> is_service_account u"
  shows "ac_sessions (snd (lock_dev_user a)) = ac_sessions a"
  using assms by (simp add: lock_dev_user_def update_password_def)

section \<open>A small instance\<close>

definition sample_auth :: auth_tools where
  "sample_auth = \<lparr>iso = tally, parse_rfc3339 = (\<lambda>s. Some (int (length s))), max_utc = 10, min_utc = 0, rfc3339 = tally,
     argon_hash = (\<lambda>p. Inr (''$'' @ p)), argon_verify = (\<lambda>p h. Inr (h = ''$'' @ p)), sha256_hex = (\<lambda>x. x), julianday = (\<lambda>s. Some (int (length s)))\<rparr>"

definition sample_entropy :: auth_env where
  "sample_entropy = \<lparr>an_now = (\<lambda>_. 0), an_sql_now = 0, an_session_token = ''token'', an_api_token = ''key'', an_uuid = ''id'',
     an_password = (\<lambda>_. ''random''), an_dev_gate = False\<rparr>"

definition sample_ann :: user where
  "sample_ann = \<lparr>u_id = 1, u_username = ''ann'', u_password_hash = ''$pw'', u_approved = True\<rparr>"

definition sample_bot :: user where
  "sample_bot = \<lparr>u_id = 2, u_username = ''bot'', u_password_hash = ''!service-account'', u_approved = True\<rparr>"

definition sample_mail :: user where
  "sample_mail = \<lparr>u_id = 3, u_username = ''ann@corp'', u_password_hash = ''$x'', u_approved = True\<rparr>"

definition sample_roles :: auth_db where
  "sample_roles = \<lparr>users = [], user_roles = [(1, ''viewer''), (2, ''developer''), (3, ''releaser'')], groups = [], next_group = 1, group_members = [],
     group_roles = [], user_maintainers = [], group_maintainers = [], auth_services = []\<rparr>"

definition sample_accounts :: accounts where
  "sample_accounts = \<lparr>ac_users = [sample_ann, sample_bot, sample_mail], ac_next_user = 4, ac_sessions = [], ac_tokens = [], ac_profiles = [],
     ac_auth = sample_roles, ac_db = set_setting ''auth_mode'' ''local'' empty_db\<rparr>"

lemmas sample_defs = sample_auth_def sample_entropy_def sample_ann_def sample_bot_def sample_mail_def sample_roles_def sample_accounts_def

lemma sample_locked: "marker_locked sample_auth"
  by (simp add: marker_locked_def sample_auth_def service_account_password_hash_def)

lemma sample_inv: "accounts_inv sample_accounts"
  by (simp add: accounts_inv_defs sample_defs)

definition sample_outside :: outside where
  "sample_outside = \<lparr>ow_roots = {}, ow_root_list = [], ow_ldap = Inr None, ow_groups = (\<lambda>_ _. []), ow_oidc = Inr None,
     ow_exchange = (\<lambda>_ _ _. Inl Unauthorized), ow_naive_utc = (\<lambda>_. None)\<rparr>"

definition sample_session :: session where
  "sample_session = \<lparr>se_token = ''token'', se_user_id = 1, se_expires_at = tally 10\<rparr>"

lemma sample_sign_in:
  "\<exists>a'. auth_login sample_auth sample_entropy {} (Inr None) (\<lambda>_ _. []) ''ann'' ''pw'' sample_accounts = (Inr sample_session, a') \<and>
     validate_session sample_auth 5 ''token'' a' = Some (sample_ann, sample_session)"
proof -
  have "(case auth_login sample_auth sample_entropy {} (Inr None) (\<lambda>_ _. []) ''ann'' ''pw'' sample_accounts of
      (Inr s, a') \<Rightarrow> s = sample_session \<and> validate_session sample_auth 5 ''token'' a' = Some (sample_ann, sample_session) | _ \<Rightarrow> False)"
    by code_simp
  then show ?thesis by (auto split: prod.splits sum.splits)
qed


theorem sign_in_needs_proof_witness:
  "\<exists>s a'. auth_login sample_auth sample_entropy {} (Inr None) (\<lambda>_ _. []) ''ann'' ''pw'' sample_accounts = (Inr s, a') \<and>
     proven_locally sample_auth ''ann'' ''pw'' (se_user_id s) sample_accounts"
proof -
  obtain a' where run: "auth_login sample_auth sample_entropy {} (Inr None) (\<lambda>_ _. []) ''ann'' ''pw'' sample_accounts = (Inr sample_session, a')"
    using sample_sign_in by blast
  have "expires_after sample_auth 5 (session_expiry sample_auth sample_entropy)" by code_simp
  moreover have "\<not> proven_by_directory (Inr None) ''ann'' ''pw'' sample_accounts" by (simp add: proven_by_directory_def)
  ultimately show ?thesis using sign_in_needs_proof[OF sample_locked sample_inv run] run by blast
qed

definition sample_token_request :: token_request where
  "sample_token_request = \<lparr>tr_name = ''ci'', tr_expires_in_days = 30, tr_scope = ReadOnly, tr_for_user = Some ''bot''\<rparr>"

theorem issued_token_round_trip_witness:
  "\<exists>tid raw a' u. issue_token sample_auth sample_entropy (plain_actor ''ann'' [Admin]) sample_token_request sample_accounts = (Inr (tid, raw), a') \<and>
     fst (validate_api_token sample_auth sample_entropy (\<lambda>_. None) raw a') = Some \<lparr>ti_token_id = tid, ti_scope = ReadOnly, ti_last_used_at = None, ti_user = u\<rparr> \<and>
     fst (validate_api_token sample_auth sample_entropy (\<lambda>_. None) raw (snd (revoke_token_as (plain_actor ''ann'' [Admin]) tid a'))) = None"
proof -
  have "(case issue_token sample_auth sample_entropy (plain_actor ''ann'' [Admin]) sample_token_request sample_accounts of (Inr _, _) \<Rightarrow> True | _ \<Rightarrow> False)"
    by code_simp
  then obtain tid raw a' where run: "issue_token sample_auth sample_entropy (plain_actor ''ann'' [Admin]) sample_token_request sample_accounts = (Inr (tid, raw), a')"
    by (auto split: prod.splits sum.splits)
  have expiry: "expires_after sample_auth (an_sql_now sample_entropy)
      (rfc3339 sample_auth (after (time_tools.truncate sample_auth) (an_now sample_entropy 1) (days_span (tr_expires_in_days sample_token_request))))"
    by code_simp
  have "tr_scope sample_token_request = ReadOnly" by (simp add: sample_token_request_def)
  with issued_token_round_trip[OF sample_inv run expiry, of "\<lambda>_. None"] run show ?thesis by auto
qed

definition sample_entry :: authenticated_user where
  "sample_entry = \<lparr>au_name = ''ann'', au_display_name = None, au_email = Some ''ann@corp'', au_directory_id = None\<rparr>"

theorem directory_sign_in_folds_witness:
  "\<exists>u a'. directory_account sample_auth sample_entropy {} (Some sample_mail) sample_entry sample_accounts = (Inr u, a') \<and>
     roles_of a' (u_id u) = {''viewer'', ''releaser''} \<and> roles_of a' 2 = {''developer''}"
proof -
  have "(case directory_account sample_auth sample_entropy {} (Some sample_mail) sample_entry sample_accounts of (Inr _, _) \<Rightarrow> True | _ \<Rightarrow> False)"
    by code_simp
  then obtain u a' where run: "directory_account sample_auth sample_entropy {} (Some sample_mail) sample_entry sample_accounts = (Inr u, a')"
    by (auto split: prod.splits sum.splits)
  have who: "candidates (Some sample_mail) sample_entry sample_accounts = [sample_ann, sample_mail]" by code_simp
  have typed: "Some sample_mail = None \<or> Some sample_mail = find_user sample_accounts ''ann@corp''" by code_simp
  have roles: "(\<Union>x \<in> set [sample_ann, sample_mail]. roles_of sample_accounts (u_id x)) = {''viewer'', ''releaser''}"
    "roles_of sample_accounts 2 = {''developer''}" "2 \<notin> u_id ` set [sample_ann, sample_mail]"
    by (auto simp: roles_of_def sample_defs)
  from directory_sign_in_folds[OF sample_inv run who _ typed] roles run show ?thesis by auto
qed

end
