(* ===== verification/Account_Config.thy ===== *)
theory Account_Config
  imports Sign_In_Rules
begin

text \<open>
  The configuration of the directory and of OpenID Connect (\<open>auth_service.rs\<close>,
  \<open>models.rs\<close>), the lookup of directory groups and the carried-over admin group
  (\<open>directory_roles.rs\<close>), and the listings of the administration pages
  (\<open>auth_service.rs\<close>, \<open>authz.rs\<close>). JSON and the directory are parameters.
\<close>

section \<open>Configurations\<close>

record oidc_config =
  oc_issuer_url :: string
  oc_client_id :: string
  oc_client_secret :: "string option"
  oc_redirect_url :: string
  oc_scopes :: "string list"
  oc_username_claim :: string
  oc_groups_claim :: string
  oc_admin_group :: string

definition validate_oidc_config :: "oidc_config \<Rightarrow> message + unit" where
  "validate_oidc_config c =
     (if \<not> starts_with ''https://'' (oc_issuer_url c) \<and> \<not> starts_with ''http://'' (oc_issuer_url c)
      then Inl (Text ''Issuer URL must start with http:// or https://'' [])
      else if oc_client_id c = [] then Inl (Text ''Client ID must not be empty'' [])
      else if \<not> contains_str ''/auth/oidc/callback'' (oc_redirect_url c)
      then Inl (Text ''Redirect URL must point at /auth/oidc/callback'' [])
      else Inr ())"

record ldap_config =
  lc_server_url :: string
  lc_bind_dn :: string
  lc_bind_password :: "string option"
  lc_base_dn :: string
  lc_user_filter :: string
  lc_group_filter :: string
  lc_admin_group :: string
  lc_use_tls :: bool
  lc_username_attribute :: string

definition url_scheme_stripped :: "string \<Rightarrow> string \<Rightarrow> string \<Rightarrow> string option" where
  "url_scheme_stripped first second url =
     (case strip_prefix first url of Some r \<Rightarrow> Some r | None \<Rightarrow> strip_prefix second url)"

text \<open>\<open>u16::from_str\<close>\<close>

definition parse_u16 :: "string \<Rightarrow> nat option" where
  "parse_u16 s =
     (case parse_digits (case s of c # r \<Rightarrow> if c = CHR ''+'' then r else s | [] \<Rightarrow> []) of
        None \<Rightarrow> None | Some n \<Rightarrow> if n < 2 ^ 16 then Some n else None)"

definition host_and_port :: "string \<Rightarrow> string \<times> string option" where
  "host_and_port authority =
     (case strip_prefix ''['' authority of
        Some bracketed \<Rightarrow> (case split_once (CHR '']'') bracketed of
            Some (host, tail) \<Rightarrow> (host, strip_prefix '':'' tail)
          | None \<Rightarrow> ([], None))
      | None \<Rightarrow> (case rsplit_once (CHR '':'') authority of
            Some (host, port) \<Rightarrow> (host, Some port)
          | None \<Rightarrow> (authority, None)))"

definition validate_server_url :: "ldap_config \<Rightarrow> message + unit" where
  "validate_server_url c =
     (let url = trim (lc_server_url c) in
      case url_scheme_stripped ''ldaps://'' ''ldap://'' url of
        None \<Rightarrow> Inl (Text ''LDAP server URL has no ldap:// or ldaps:// scheme'' [S url])
      | Some rest \<Rightarrow>
          (let (host, port) = host_and_port (hd (split_char (CHR ''/'') rest)) in
           if host = [] then Inl (Text ''LDAP server URL names no host'' [S url])
           else if (case port of None \<Rightarrow> False | Some p \<Rightarrow> (case parse_u16 p of Some n \<Rightarrow> n = 0 | None \<Rightarrow> True))
           then Inl (Text ''LDAP server URL has no valid port'' [S url])
           else Inr ()))"

definition validate_ldap_config :: "ldap_config \<Rightarrow> message + unit" where
  "validate_ldap_config c =
     (if lc_server_url c = [] then Inl (Text ''Server URL must not be empty'' [])
      else if \<not> starts_with ''ldap://'' (lc_server_url c) \<and> \<not> starts_with ''ldaps://'' (lc_server_url c)
      then Inl (Text ''Server URL must start with ldap:// or ldaps://'' [])
      else let host_part = (case url_scheme_stripped ''ldap://'' ''ldaps://'' (lc_server_url c) of Some h \<Rightarrow> h | None \<Rightarrow> []) in
        if host_part = [] \<or> CHR '' '' \<in> set host_part \<or> starts_with ''/'' host_part then Inl (Text ''Invalid LDAP server host'' [])
        else if lc_bind_dn c = [] then Inl (Text ''Bind DN must not be empty'' [])
        else if lc_base_dn c = [] then Inl (Text ''Base DN must not be empty'' [])
        else Inr ())"

text \<open>Stored as JSON under one key each.\<close>

record config_json =
  cj_ldap :: "ldap_config \<Rightarrow> app_error + string"
  cj_parse_ldap :: "string \<Rightarrow> app_error + ldap_config"
  cj_oidc :: "oidc_config \<Rightarrow> app_error + string"
  cj_parse_oidc :: "string \<Rightarrow> app_error + oidc_config"

definition get_ldap_config :: "config_json \<Rightarrow> accounts \<Rightarrow> app_error + ldap_config option" where
  "get_ldap_config J a =
     (case get_setting (ac_db a) ''ldap_config'' of None \<Rightarrow> Inr None | Some s \<Rightarrow> and_then (cj_parse_ldap J s) (\<lambda>c. Inr (Some c)))"

definition get_oidc_config :: "config_json \<Rightarrow> accounts \<Rightarrow> app_error + oidc_config option" where
  "get_oidc_config J a =
     (case get_setting (ac_db a) ''oidc_config'' of None \<Rightarrow> Inr None | Some s \<Rightarrow> and_then (cj_parse_oidc J s) (\<lambda>c. Inr (Some c)))"

definition set_oidc_config :: "config_json \<Rightarrow> oidc_config \<Rightarrow> unit request" where
  "set_oidc_config J c =
     bind (check (map_err BadRequest (validate_oidc_config c))) (\<lambda>_.
     bind (check (cj_oidc J c)) (\<lambda>json. modify (set_ac_setting ''oidc_config'' json)))"

text \<open>The carried-over admin group: once mapped, it is never granted again.\<close>

definition migrate_admin_group :: "string \<Rightarrow> unit request" where
  "migrate_admin_group raw =
     (let admin_group = trim raw in
      if admin_group = [] then return ()
      else bind (asks (\<lambda>a. list_ex (\<lambda>g. g_source g = LdapGroup \<and> g_name g = admin_group) (list_groups (auth_view a)))) (\<lambda>mapped.
        if mapped then return ()
        else exec (\<lambda>a. let (g, au) = repo_create_group admin_group LdapGroup (auth_view a)
                        in and_then (repo_set_group_roles (g_id g) [''admin''] au) (\<lambda>(_, au'). Inr (a\<lparr>ac_auth := au'\<rparr>)))))"

definition set_ldap_config :: "config_json \<Rightarrow> ldap_config \<Rightarrow> unit request" where
  "set_ldap_config J c =
     bind (check (cj_ldap J c)) (\<lambda>json.
     bind (modify (set_ac_setting ''ldap_config'' json)) (\<lambda>_. migrate_admin_group (lc_admin_group c)))"

definition migrate_stored_admin_group :: "config_json \<Rightarrow> unit request" where
  "migrate_stored_admin_group J =
     bind (asks (get_ldap_config J)) (\<lambda>stored. bind (check stored) (\<lambda>config.
     case config of None \<Rightarrow> return () | Some c \<Rightarrow> migrate_admin_group (lc_admin_group c)))"

definition initial_admin_url :: "string option \<Rightarrow> string \<Rightarrow> string" where
  "initial_admin_url public_base_url bind_address =
     (case public_base_url of
        Some base \<Rightarrow> rev (dropWhile (\<lambda>c. c = CHR ''/'') (rev base)) @ ''/admin.html''
      | None \<Rightarrow> ''http://'' @ bind_address @ ''/admin.html'')"

section \<open>Signing in through a provider\<close>

text \<open>\<open>authenticate\<close> is the provider's verdict.\<close>

definition login_with_provider :: "auth_tools \<Rightarrow> auth_env \<Rightarrow> (string \<Rightarrow> string \<Rightarrow> bool) \<Rightarrow> string \<Rightarrow> string \<Rightarrow> session request" where
  "login_with_provider T E authenticate username password =
     (if password = [] \<or> \<not> authenticate username password then fail Unauthorized
      else bind (asks (\<lambda>a. find_user a username)) (\<lambda>found.
        bind (case found of
                Some u \<Rightarrow> return u
              | None \<Rightarrow> bind (check (argon_hash T (an_password E 0))) (\<lambda>hash. query (create_user username hash True))) (\<lambda>u.
        bind (new_session T E (u_id u)) (\<lambda>s. bind (record_sign_in T s SignLdap) (\<lambda>_. return s)))))"

definition oidc_begin :: "config_json \<Rightarrow> (oidc_config \<Rightarrow> app_error + string \<times> oidc_flow_state) \<Rightarrow> (string \<times> oidc_flow_state) request" where
  "oidc_begin J authorize =
     bind oidc_must_be_the_source (\<lambda>_.
     bind (asks (get_oidc_config J)) (\<lambda>stored. bind (check stored) (\<lambda>config.
     case config of
       None \<Rightarrow> fail (BadRequest (Text ''OIDC is not configured'' []))
     | Some c \<Rightarrow> check (authorize c))))"

section \<open>Directory groups, kept for a while\<close>

text \<open>An entry of the lookup table may vanish at any moment (its time to live).\<close>

type_synonym group_cache = "string \<rightharpoonup> string list"

definition cached_groups :: "group_cache \<Rightarrow> string \<Rightarrow> string list option" where "cached_groups c nm = c nm"

definition forget_groups :: "string \<Rightarrow> group_cache \<Rightarrow> group_cache" where "forget_groups nm c = c(nm := None)"

definition groups_for :: "(string \<Rightarrow> string list option) \<Rightarrow> string \<Rightarrow> group_cache \<Rightarrow> string list \<times> group_cache" where
  "groups_for directory nm c =
     (case c nm of
        Some gs \<Rightarrow> (gs, c)
      | None \<Rightarrow> (let gs = (case directory nm of Some gs \<Rightarrow> gs | None \<Rightarrow> []) in (gs, c(nm \<mapsto> gs))))"

section \<open>Listings\<close>

text \<open>Maps that are only looked up in or shown as a whole, as lists of pairs.\<close>

definition account_kinds :: "accounts \<Rightarrow> user list \<Rightarrow> (row_id \<times> account_kind) list" where
  "account_kinds a us = map (\<lambda>u. (u_id u, account_kind_of a u)) us"

definition gravatar_keys :: "accounts \<Rightarrow> row_id \<rightharpoonup> string" where
  "gravatar_keys a =
     (if get_gravatar_enabled a
      then map_of (List.map_filter (\<lambda>p. map_option (\<lambda>k. (pr_user_id p, k)) (profile_gravatar_key p)) (ac_profiles a)) else Map.empty)"

definition display_names :: "accounts \<Rightarrow> row_id \<rightharpoonup> string" where
  "display_names a = map_of (List.map_filter (\<lambda>p. map_option (\<lambda>nm. (pr_user_id p, nm)) (pr_display_name p)) (ac_profiles a))"

definition display_names_by_username :: "accounts \<Rightarrow> string \<rightharpoonup> string" where
  "display_names_by_username a =
     map_of (List.map_filter (\<lambda>u. map_option (\<lambda>nm. (u_username u, nm)) (display_names a (u_id u))) (list_users a))"

definition with_display_names :: "accounts \<Rightarrow> audit_row list \<Rightarrow> (audit_row \<times> string option) list" where
  "with_display_names a entries = map (\<lambda>e. (e, display_names_by_username a (au_username e))) entries"

record group_detail =
  gd_id :: row_id
  gd_name :: string
  gd_source :: group_source
  gd_roles :: "string list"
  gd_member_ids :: "row_id list"

definition detail_for :: "auth_db \<Rightarrow> group \<Rightarrow> group_detail" where
  "detail_for db g =
     \<lparr>gd_id = g_id g, gd_name = g_name g, gd_source = g_source g, gd_roles = list_group_roles db (g_id g),
      gd_member_ids = list_group_member_ids db (g_id g)\<rparr>"

definition list_group_details :: "auth_db \<Rightarrow> group_detail list" where
  "list_group_details db = map (detail_for db) (list_groups db)"

definition directory_group_search_limit :: nat where "directory_group_search_limit = 20"

text \<open>\<open>find_groups\<close> searches the directory of a configuration: DN and name of each hit.\<close>

definition search_directory_groups ::
    "config_json \<Rightarrow> (ldap_config \<Rightarrow> string \<Rightarrow> nat \<Rightarrow> message + (string \<times> string) list) \<Rightarrow> string \<Rightarrow> accounts \<Rightarrow> app_error + (string \<times> string \<times> row_id option) list" where
  "search_directory_groups J find_groups needle a =
     and_then (get_ldap_config J a) (\<lambda>config.
     case config of
       None \<Rightarrow> Inl (BadRequest (Text ''LDAP is not configured'' []))
     | Some c \<Rightarrow> and_then (map_err BadRequest (find_groups c needle directory_group_search_limit)) (\<lambda>hits.
         Inr (map (\<lambda>(dn, nm). (dn, nm, map_option g_id (find (\<lambda>g. g_source g = LdapGroup \<and> to_lowercase (g_name g) = to_lowercase dn)
                (list_groups (auth_view a))))) hits)))"

record producer_maintainers =
  pm_producer :: string
  pm_user_ids :: "row_id list"
  pm_group_ids :: "row_id list"

definition all_maintainers :: "auth_db \<Rightarrow> producer_maintainers list" where
  "all_maintainers db =
     map (\<lambda>(sid, nm). \<lparr>pm_producer = nm, pm_user_ids = list_user_maintainer_ids db sid, pm_group_ids = list_group_maintainer_ids db sid\<rparr>)
       (sort_key snd (auth_services db))"

definition list_maintainers :: "auth_db \<Rightarrow> string \<Rightarrow> app_error + row_id list \<times> row_id list" where
  "list_maintainers db producer =
     and_then (require_producer db producer) (\<lambda>sid. Inr (list_user_maintainer_ids db sid, list_group_maintainer_ids db sid))"

section \<open>What holds of them\<close>

text \<open>What was stored is read back.\<close>

lemma oidc_config_round_trip:
  assumes "set_oidc_config J c a = (Inr (), a')" and "\<And>json. cj_oidc J c = Inr json \<Longrightarrow> cj_parse_oidc J json = Inr c"
  shows "get_oidc_config J a' = Inr (Some c)" "validate_oidc_config c = Inr ()"
proof -
  obtain json where "cj_oidc J c = Inr json" "a' = set_ac_setting ''oidc_config'' json a" "map_err BadRequest (validate_oidc_config c) = Inr ()"
    using assms(1) by (auto simp: set_oidc_config_def returns)
  with assms(2)[of json] show "get_oidc_config J a' = Inr (Some c)" "validate_oidc_config c = Inr ()"
    by (auto simp: get_oidc_config_def set_ac_setting_def get_set_setting map_err_def and_then_def split: sum.splits)
qed

text \<open>
  An operator who took \<open>admin\<close> from the carried-over group is not overruled by a
  later start: a mapped group is left as it is.
\<close>

lemma migrated_once:
  assumes "\<lparr>g_id = i, g_name = trim raw, g_source = LdapGroup\<rparr> \<in> set (groups (ac_auth a))"
  shows "migrate_admin_group raw a = (Inr (), a)"
proof -
  have "list_ex (\<lambda>g. g_source g = LdapGroup \<and> g_name g = trim raw) (list_groups (auth_view a))"
    using assms by (auto simp: list_ex_iff list_groups_def auth_view_def intro!: bexI)
  then show ?thesis by (simp add: migrate_admin_group_def Let_def return_def bind_def asks_def)
qed

text \<open>While the directory is silent nobody gains a group, and the answer is kept.\<close>

lemma silent_directory_gives_nothing:
  assumes "c nm = None" and "directory nm = None"
  shows "fst (groups_for directory nm c) = []" "snd (groups_for directory' nm (snd (groups_for directory nm c))) nm = Some []"
  using assms by (simp_all add: groups_for_def Let_def)

lemma forgotten_is_asked_again: "fst (groups_for directory nm (forget_groups nm c)) = (case directory nm of Some gs \<Rightarrow> gs | None \<Rightarrow> [])"
  by (simp add: groups_for_def forget_groups_def Let_def)

text \<open>
  The older provider login has no service-account check: whoever the directory
  accepts under such a name gets a session of the service account.
\<close>

lemma provider_login_takes_service_accounts:
  assumes "find_user a nm = Some u" and "authenticate nm password" "password \<noteq> []"
    and "login_with_provider T E authenticate nm password a = (Inr s, a')"
  shows "se_user_id s = u_id u"
proof -
  have "bind (new_session T E (u_id u)) (\<lambda>s. bind (record_sign_in T s SignLdap) (\<lambda>_. return s)) a = (Inr s, a')"
    using assms by (simp add: login_with_provider_def bind_def asks_def return_def)
  from new_session_row[OF this] show ?thesis by auto
qed

text \<open>An LDAP server URL is accepted with a host and, if any, a port from 1 to 65535.\<close>

lemma server_url_has_host:
  assumes "validate_server_url c = Inr ()"
  shows "\<exists>rest host port. url_scheme_stripped ''ldaps://'' ''ldap://'' (trim (lc_server_url c)) = Some rest \<and>
    host_and_port (hd (split_char (CHR ''/'') rest)) = (host, port) \<and> host \<noteq> [] \<and>
    (port = None \<or> (\<exists>p n. port = Some p \<and> parse_u16 p = Some n \<and> 0 < n \<and> n < 65536))"
proof -
  obtain rest where rest: "url_scheme_stripped ''ldaps://'' ''ldap://'' (trim (lc_server_url c)) = Some rest"
    using assms by (auto simp: validate_server_url_def Let_def split: option.splits)
  obtain host port where hp: "host_and_port (hd (split_char (CHR ''/'') rest)) = (host, port)" by (metis surj_pair)
  have below: "parse_u16 p = Some n \<Longrightarrow> n < 65536" for p n by (auto simp: parse_u16_def split: option.splits if_splits)
  show ?thesis
    using assms rest hp below by (auto simp: validate_server_url_def Let_def split: option.splits if_splits)
qed

end
