(* ===== verification/Dashboard.thy ===== *)
theory Dashboard
  imports Account_Config
begin

text \<open>
  The reads of the audit log (\<open>src/src/infrastructure/sqlite_repository.rs\<close>) and the
  start page's numbers over them (\<open>src/src/application/dashboard_service.rs\<close>). SQLite's
  \<open>LIKE\<close> and the calendar are parameters; a day is a number.
\<close>

section \<open>Reading the audit log\<close>

record audit_entry =
  al_id :: nat
  al_timestamp :: stamp
  al_username :: string
  al_action :: string
  al_details :: string
  al_service :: "string option"
  al_version :: "string option"
  al_action_type :: "string option"
  al_diff :: "string option"
  al_stream :: "string option"

record audit_table_row = audit_entry +
  al_branch_id :: "row_id option"

record audit_filter =
  af_from_date :: "stamp option"
  af_to_date :: "stamp option"
  af_action_type :: "string option"
  af_service_wildcard :: "string option"
  af_version_wildcard :: "string option"
  af_stream :: "string option"
  af_branch_id :: "row_id option"
  af_limit :: nat

text \<open>An absent filter matches every row; \<open>NULL\<close> matches no filter that is there.\<close>

definition wanted :: "'f option \<Rightarrow> ('f \<Rightarrow> bool) \<Rightarrow> bool" where
  "wanted f p = (case f of None \<Rightarrow> True | Some x \<Rightarrow> p x)"

definition column :: "'c option \<Rightarrow> ('c \<Rightarrow> bool) \<Rightarrow> bool" where
  "column c p = (case c of None \<Rightarrow> False | Some x \<Rightarrow> p x)"

definition audit_matches :: "(string \<Rightarrow> string \<Rightarrow> bool) \<Rightarrow> audit_filter \<Rightarrow> audit_table_row \<Rightarrow> bool" where
  "audit_matches like f r \<longleftrightarrow>
     wanted (af_from_date f) (\<lambda>d. d \<le> al_timestamp r) \<and> wanted (af_to_date f) (\<lambda>d. al_timestamp r \<le> d) \<and>
     wanted (af_action_type f) (\<lambda>t. column (al_action_type r) (\<lambda>c. c = t)) \<and>
     wanted (af_service_wildcard f) (\<lambda>w. column (al_service r) (\<lambda>c. like c w)) \<and>
     wanted (af_version_wildcard f) (\<lambda>w. column (al_version r) (\<lambda>c. like c w)) \<and>
     (case af_branch_id f of Some b \<Rightarrow> al_branch_id r = Some b
      | None \<Rightarrow> wanted (af_stream f) (\<lambda>s. column (al_stream r) (\<lambda>c. c = s)))"

definition get_audit_logs :: "(string \<Rightarrow> string \<Rightarrow> bool) \<Rightarrow> audit_table_row list \<Rightarrow> audit_filter \<Rightarrow> audit_entry list" where
  "get_audit_logs like log f =
     map audit_entry.truncate (take (af_limit f) (sort_key (\<lambda>r. Desc (al_id r)) (filter (audit_matches like f) log)))"

definition get_recent_audit_logs :: "audit_table_row list \<Rightarrow> nat \<Rightarrow> audit_entry list" where
  "get_recent_audit_logs log n = map audit_entry.truncate (take n (sort_key (\<lambda>r. Desc (al_id r)) log))"

section \<open>The dashboard\<close>

definition activity_days :: nat where "activity_days = 30"

definition recent_provides_limit :: nat where "recent_provides_limit = 10"

definition provide_action :: string where "provide_action = ''PROVIDE_SPEC''"

definition activity_scan_limit :: nat where "activity_scan_limit = 20000"

record day_count =
  dc_day :: string
  dc_provides :: nat

record dashboard_numbers =
  ds_producers :: nat
  ds_consumers :: nat
  ds_versions :: nat
  ds_provides_last_7_days :: nat
  ds_provides_per_day :: "day_count list"

record recent_provide =
  rp_timestamp :: stamp
  rp_producer :: "string option"
  rp_external :: bool
  rp_version :: "string option"
  rp_username :: string
  rp_display_name :: "string option"

text \<open>The UTC day of an RFC 3339 stamp, the rendering of a day, the range of the calendar.\<close>

record calendar =
  ca_day_of :: "stamp \<Rightarrow> int option"
  ca_show :: "int \<Rightarrow> string"
  ca_min :: int
  ca_max :: int

definition is_provide :: "audit_entry \<Rightarrow> bool" where
  "is_provide e \<longleftrightarrow> al_action e = provide_action"

definition count_entry :: "calendar \<Rightarrow> int \<Rightarrow> audit_entry \<Rightarrow> nat list \<Rightarrow> nat list" where
  "count_entry C first e counts =
     (case ca_day_of C (al_timestamp e) of
        None \<Rightarrow> counts
      | Some d \<Rightarrow>
          (if 0 \<le> d - first \<and> nat (d - first) < length counts
           then counts[nat (d - first) := min (counts ! nat (d - first) + 1) (2 ^ 32 - 1)] else counts))"

definition per_day :: "calendar \<Rightarrow> audit_entry list \<Rightarrow> int \<Rightarrow> nat \<Rightarrow> day_count list" where
  "per_day C entries first days =
     map (\<lambda>(i, n). \<lparr>dc_day = (if first + int i \<le> ca_max C then ca_show C (first + int i) else []), dc_provides = n\<rparr>)
       (enumerate 0 (fold (count_entry C first) (filter is_provide entries) (replicate days 0)))"

definition first_day :: "calendar \<Rightarrow> int \<Rightarrow> int" where
  "first_day C today = (if ca_min C \<le> today - int (activity_days - 1) then today - int (activity_days - 1) else ca_min C)"

definition no_audit_filter :: "nat \<Rightarrow> audit_filter" where
  "no_audit_filter n = \<lparr>af_from_date = None, af_to_date = None, af_action_type = None, af_service_wildcard = None, af_version_wildcard = None,
     af_stream = None, af_branch_id = None, af_limit = n\<rparr>"

definition dashboard_stats :: "calendar \<Rightarrow> (string \<Rightarrow> string \<Rightarrow> bool) \<Rightarrow> audit_table_row list \<Rightarrow> db \<Rightarrow> int \<Rightarrow> dashboard_numbers" where
  "dashboard_stats C like log db today =
     (let first = first_day C today;
          entries = get_audit_logs like log ((no_audit_filter activity_scan_limit)\<lparr>af_from_date := Some (ca_show C first)\<rparr>);
          bars = per_day C entries first activity_days
      in \<lparr>ds_producers = length (list_producers db), ds_consumers = length (list_consumers db),
          ds_versions = length (list_all_spec_versions db),
          ds_provides_last_7_days = sum_list (map dc_provides (take 7 (rev bars))), ds_provides_per_day = bars\<rparr>)"

definition recent_provides ::
    "(string \<Rightarrow> string \<Rightarrow> bool) \<Rightarrow> audit_table_row list \<Rightarrow> db \<Rightarrow> accounts \<Rightarrow> recent_provide list" where
  "recent_provides like log db a =
     (let entries = get_audit_logs like log ((no_audit_filter 500)\<lparr>af_action_type := Some ''WRITE''\<rparr>);
          external = set (map su_name (filter su_external (repo_list_producers_detailed db)));
          names = display_names_by_username a
      in map (\<lambda>e. \<lparr>rp_timestamp = al_timestamp e, rp_producer = al_service e,
             rp_external = (case al_service e of Some s \<Rightarrow> s \<in> external | None \<Rightarrow> False), rp_version = al_version e,
             rp_username = al_username e, rp_display_name = names (al_username e)\<rparr>)
           (take recent_provides_limit (filter is_provide entries)))"

section \<open>The bars count the provides of their day\<close>

lemma length_counted: "length (fold (count_entry C first) es counts) = length counts"
  by (induction es arbitrary: counts) (auto simp: count_entry_def split: option.splits)

lemma counted:
  assumes "i < length counts" and "counts ! i + length (filter (\<lambda>e. ca_day_of C (al_timestamp e) = Some (first + int i)) es) < 2 ^ 32"
  shows "fold (count_entry C first) es counts ! i = counts ! i + length (filter (\<lambda>e. ca_day_of C (al_timestamp e) = Some (first + int i)) es)"
  using assms
proof (induction es arbitrary: counts)
  case (Cons e es)
  let ?n = "\<lambda>es. length (filter (\<lambda>e. ca_day_of C (al_timestamp e) = Some (first + int i)) es)"
  let ?c = "count_entry C first e counts"
  have step: "?c ! i = (if ca_day_of C (al_timestamp e) = Some (first + int i) then counts ! i + 1 else counts ! i)"
  proof (cases "ca_day_of C (al_timestamp e) = Some (first + int i)")
    case True
    then have "counts ! i + 1 < 2 ^ 32" using Cons.prems(2) by simp
    with True Cons.prems(1) show ?thesis by (simp add: count_entry_def)
  next
    case False
    then have "nat (d - first) \<noteq> i" if "ca_day_of C (al_timestamp e) = Some d" "0 \<le> d - first" for d using that by auto
    with False show ?thesis by (auto simp: count_entry_def nth_list_update split: option.splits)
  qed
  have "length ?c = length counts" using length_counted[of C first "[e]" counts] by simp
  then have "fold (count_entry C first) es ?c ! i = ?c ! i + ?n es"
    by (intro Cons.IH) (use Cons.prems step in auto)
  with step show ?case by simp
qed simp

text \<open>Every bar is its day's number of provides among the entries read, and there is one bar for each day.\<close>

lemma bars_count_provides:
  assumes "length entries < 2 ^ 32"
  shows "length (per_day C entries first days) = days"
    "i < days \<Longrightarrow> dc_provides (per_day C entries first days ! i) =
       length (filter (\<lambda>e. is_provide e \<and> ca_day_of C (al_timestamp e) = Some (first + int i)) entries)"
proof -
  show len: "length (per_day C entries first days) = days" by (simp add: per_day_def length_counted)
  assume i: "i < days"
  let ?es = "filter is_provide entries"
  have fewer: "length (filter (\<lambda>e. ca_day_of C (al_timestamp e) = Some (first + int i)) ?es) \<le> length entries"
    by (metis le_trans length_filter_le)
  then have "fold (count_entry C first) ?es (replicate days 0) ! i =
      length (filter (\<lambda>e. ca_day_of C (al_timestamp e) = Some (first + int i)) ?es)"
    using counted[of i "replicate days 0" C first ?es] i assms le_less_trans[OF fewer assms] by (simp del: filter_filter)
  then show "dc_provides (per_day C entries first days ! i) =
       length (filter (\<lambda>e. is_provide e \<and> ca_day_of C (al_timestamp e) = Some (first + int i)) entries)"
    using i by (simp add: per_day_def length_counted nth_enumerate_eq)
qed

text \<open>No more entries are read than the query's bound, newest first.\<close>

lemma audit_read_is_bounded: "length (get_audit_logs like log f) \<le> af_limit f"
  by (simp add: get_audit_logs_def)

lemma chart_reads_few_rows: "length (get_audit_logs like log ((no_audit_filter activity_scan_limit)\<lparr>af_from_date := d\<rparr>)) < 2 ^ 32"
  by (rule le_less_trans[OF audit_read_is_bounded]) (simp add: no_audit_filter_def activity_scan_limit_def)

text \<open>So the scan's bound keeps every counter of the chart away from its saturation.\<close>

lemma dashboard_bars:
  assumes "i < activity_days"
  shows "dc_provides (ds_provides_per_day (dashboard_stats C like log db today) ! i) =
    length (filter (\<lambda>e. is_provide e \<and> ca_day_of C (al_timestamp e) = Some (first_day C today + int i))
      (get_audit_logs like log ((no_audit_filter activity_scan_limit)\<lparr>af_from_date := Some (ca_show C (first_day C today))\<rparr>)))"
  by (simp add: dashboard_stats_def Let_def bars_count_provides(2)[OF chart_reads_few_rows assms])

text \<open>At most ten of the provides are shown.\<close>

lemma recent_provides_are_few: "length (recent_provides like log db a) \<le> recent_provides_limit"
  by (simp add: recent_provides_def Let_def)

end
