(* ===== verification/Text_Diff.thy ===== *)
theory Text_Diff
  imports Prelude
begin

text \<open>
  Line diffs and blame: \<open>src/src/application/text_diff.rs\<close>. The diff itself (the
  \<open>similar\<close> crate) is a parameter: a list of operations on line indices, and the
  same grouped with some context. What it promises is \<open>spans\<close> and \<open>grouped_ok\<close>:
  the operations walk both sides without a gap, and what they call equal is equal.
\<close>

section \<open>Lines\<close>

text \<open>\<open>str::lines\<close>: a line ends at LF or CRLF, and no line follows the last line end.\<close>

definition strip_cr :: "string \<Rightarrow> string" where
  "strip_cr s = (if s \<noteq> [] \<and> last s = CHR 0x0D then butlast s else s)"

definition text_lines :: "string \<Rightarrow> string list" where
  "text_lines s =
     (let parts = split_char (CHR 0x0A) s
      in map strip_cr (butlast parts) @ (if last parts = [] then [] else [last parts]))"

section \<open>Operations of the diff\<close>

datatype diff_op =
  EqualOp nat nat nat
| DeleteOp nat nat nat
| InsertOp nat nat nat
| ReplaceOp nat nat nat nat

text \<open>\<open>EqualOp old new len\<close>, \<open>DeleteOp old len new\<close>, \<open>InsertOp old new len\<close>, \<open>ReplaceOp old len new len\<close>.\<close>

fun old_range :: "diff_op \<Rightarrow> nat \<times> nat" where
  "old_range (EqualOp i j n) = (i, i + n)"
| "old_range (DeleteOp i n j) = (i, i + n)"
| "old_range (InsertOp i j n) = (i, i)"
| "old_range (ReplaceOp i n j m) = (i, i + n)"

fun new_range :: "diff_op \<Rightarrow> nat \<times> nat" where
  "new_range (EqualOp i j n) = (j, j + n)"
| "new_range (DeleteOp i n j) = (j, j)"
| "new_range (InsertOp i j n) = (j, j + n)"
| "new_range (ReplaceOp i n j m) = (j, j + m)"

record diff_tools =
  diff_ops :: "string list \<Rightarrow> string list \<Rightarrow> diff_op list"
  grouped_ops :: "nat \<Rightarrow> string list \<Rightarrow> string list \<Rightarrow> diff_op list list"

section \<open>Hunks\<close>

datatype diff_line_op = CtxLine | AddLine | DelLine

record diff_line =
  dl_op :: diff_line_op
  dl_old_no :: "nat option"
  dl_new_no :: "nat option"
  dl_text :: string
  dl_old_text :: "string option"

record diff_hunk =
  dh_old_start :: nat
  dh_old_len :: nat
  dh_new_start :: nat
  dh_new_len :: nat
  dh_lines :: "diff_line list"

record diff_options =
  do_ignore_whitespace :: bool
  do_context :: "nat option"

definition default_diff_options :: diff_options where
  "default_diff_options = \<lparr>do_ignore_whitespace = False, do_context = Some 3\<rparr>"

text \<open>\<open>get(i).unwrap_or_default()\<close>\<close>

definition line_at :: "string list \<Rightarrow> nat \<Rightarrow> string" where
  "line_at ls i = (if i < length ls then ls ! i else [])"

definition context_line :: "string list \<Rightarrow> string list \<Rightarrow> nat \<Rightarrow> nat \<Rightarrow> diff_line" where
  "context_line old new i j =
     \<lparr>dl_op = CtxLine, dl_old_no = Some (i + 1), dl_new_no = Some (j + 1), dl_text = line_at new j,
      dl_old_text = (if line_at old i \<noteq> line_at new j then Some (line_at old i) else None)\<rparr>"

definition deleted_lines :: "string list \<Rightarrow> nat \<Rightarrow> nat \<Rightarrow> diff_line list" where
  "deleted_lines old i n =
     map (\<lambda>k. \<lparr>dl_op = DelLine, dl_old_no = Some (k + 1), dl_new_no = None, dl_text = line_at old k, dl_old_text = None\<rparr>) [i..<i + n]"

definition inserted_lines :: "string list \<Rightarrow> nat \<Rightarrow> nat \<Rightarrow> diff_line list" where
  "inserted_lines new j n =
     map (\<lambda>k. \<lparr>dl_op = AddLine, dl_old_no = None, dl_new_no = Some (k + 1), dl_text = line_at new k, dl_old_text = None\<rparr>) [j..<j + n]"

fun op_lines :: "string list \<Rightarrow> string list \<Rightarrow> diff_op \<Rightarrow> diff_line list" where
  "op_lines old new (EqualOp i j n) = map (\<lambda>k. context_line old new (i + k) (j + k)) [0..<n]"
| "op_lines old new (DeleteOp i n j) = deleted_lines old i n"
| "op_lines old new (InsertOp i j n) = inserted_lines new j n"
| "op_lines old new (ReplaceOp i n j m) = deleted_lines old i n @ inserted_lines new j m"

definition side_range :: "(nat \<times> nat) list \<Rightarrow> nat \<times> nat" where
  "side_range ranges =
     (let (start, stop) = foldl (\<lambda>(start, stop) (lo, hi).
              (Some (case start of None \<Rightarrow> lo | Some s \<Rightarrow> min s lo), max stop hi)) (None, 0) ranges;
          first = (case start of None \<Rightarrow> 0 | Some s \<Rightarrow> s);
          len = stop - first
      in if len = 0 then (first, 0) else (first + 1, len))"

definition hunk :: "diff_op list \<Rightarrow> string list \<Rightarrow> string list \<Rightarrow> diff_hunk" where
  "hunk ops old new =
     (let (old_start, old_len) = side_range (map old_range ops);
          (new_start, new_len) = side_range (map new_range ops)
      in \<lparr>dh_old_start = old_start, dh_old_len = old_len, dh_new_start = new_start, dh_new_len = new_len,
          dh_lines = concat (map (op_lines old new) ops)\<rparr>)"

definition line_key_of :: "diff_options \<Rightarrow> string \<Rightarrow> string" where
  "line_key_of opts l = (if do_ignore_whitespace opts then trim l else l)"

definition diff_lines :: "diff_tools \<Rightarrow> string \<Rightarrow> string \<Rightarrow> diff_options \<Rightarrow> diff_hunk list" where
  "diff_lines D old new opts =
     (let old_lines = text_lines old; new_lines = text_lines new;
          radius = (case do_context opts of Some n \<Rightarrow> n | None \<Rightarrow> length old_lines + length new_lines + 1)
      in map (\<lambda>ops. hunk ops old_lines new_lines)
           (grouped_ops D radius (map (line_key_of opts) old_lines) (map (line_key_of opts) new_lines)))"

fun line_sign :: "diff_line_op \<Rightarrow> string" where
  "line_sign CtxLine = '' ''"
| "line_sign AddLine = ''+''"
| "line_sign DelLine = ''-''"

definition line_end :: string where "line_end = [CHR 0x0A]"

definition render_hunk :: "diff_hunk \<Rightarrow> string" where
  "render_hunk h =
     ''@@ -'' @ show_nat (dh_old_start h) @ '','' @ show_nat (dh_old_len h) @ '' +'' @ show_nat (dh_new_start h) @ '','' @ show_nat (dh_new_len h) @
     '' @@'' @ line_end @ concat (map (\<lambda>l. line_sign (dl_op l) @ dl_text l @ line_end) (dh_lines h))"

definition render_unified :: "diff_hunk list \<Rightarrow> string \<Rightarrow> string \<Rightarrow> string" where
  "render_unified hunks from_label to_label =
     (if hunks = [] then []
      else ''--- '' @ from_label @ line_end @ ''+++ '' @ to_label @ line_end @ concat (map render_hunk hunks))"

section \<open>Blame\<close>

definition carry_owners :: "nat list \<Rightarrow> nat list \<Rightarrow> diff_op \<Rightarrow> nat list" where
  "carry_owners owners next_owners d =
     (case d of
        EqualOp i j n \<Rightarrow>
          foldl (\<lambda>acc k. acc[j + k := owners ! (i + k)]) next_owners
            [0..<min n (min (length next_owners - j) (length owners - i))]
      | _ \<Rightarrow> next_owners)"

definition blame_step :: "diff_tools \<Rightarrow> string \<times> nat list \<Rightarrow> nat \<times> string \<Rightarrow> string \<times> nat list" where
  "blame_step D before step_text =
     (let (previous, owners) = before; (step, txt') = step_text;
          new_lines = text_lines txt'
      in (txt', foldl (carry_owners owners) (replicate (length new_lines) step) (diff_ops D (text_lines previous) new_lines)))"

definition blame_lines :: "diff_tools \<Rightarrow> string list \<Rightarrow> nat list" where
  "blame_lines D texts =
     (case texts of [] \<Rightarrow> []
      | first # rest \<Rightarrow> snd (foldl (blame_step D) (first, replicate (length (text_lines first)) 0) (enumerate 1 rest)))"

record blame_run =
  br_owner :: nat
  br_start :: nat
  br_len :: nat

definition push_owner :: "blame_run list \<Rightarrow> nat \<times> nat \<Rightarrow> blame_run list" where
  "push_owner runs x =
     (let (i, owner) = x in
      if runs \<noteq> [] \<and> br_owner (last runs) = owner
      then butlast runs @ [(last runs)\<lparr>br_len := br_len (last runs) + 1\<rparr>]
      else runs @ [\<lparr>br_owner = owner, br_start = i, br_len = 1\<rparr>])"

definition group_blame :: "nat list \<Rightarrow> blame_run list" where
  "group_blame owners = foldl push_owner [] (enumerate 0 owners)"

section \<open>What the diff promises\<close>

text \<open>The operations walk from one pair of positions to another, and equal stretches are equal by key.\<close>

fun spans :: "string list \<Rightarrow> string list \<Rightarrow> nat \<times> nat \<Rightarrow> diff_op list \<Rightarrow> nat \<times> nat \<Rightarrow> bool" where
  "spans old new at [] to \<longleftrightarrow> at = to \<and> fst at \<le> length old \<and> snd at \<le> length new"
| "spans old new at (d # ds) to \<longleftrightarrow>
     at = (fst (old_range d), fst (new_range d)) \<and>
     (case d of EqualOp i j n \<Rightarrow> take n (drop i old) = take n (drop j new) \<and> i + n \<le> length old \<and> j + n \<le> length new | _ \<Rightarrow> True) \<and>
     spans old new (snd (old_range d), snd (new_range d)) ds to"

fun start_of :: "diff_op list \<Rightarrow> nat \<times> nat" where
  "start_of [] = (0, 0)"
| "start_of (d # ds) = (fst (old_range d), fst (new_range d))"

fun end_of :: "diff_op list \<Rightarrow> nat \<times> nat" where
  "end_of [] = (0, 0)"
| "end_of [d] = (snd (old_range d), snd (new_range d))"
| "end_of (d # ds) = end_of ds"

text \<open>The groups leave out equal stretches only.\<close>

fun grouped_ok :: "string list \<Rightarrow> string list \<Rightarrow> nat \<times> nat \<Rightarrow> diff_op list list \<Rightarrow> bool" where
  "grouped_ok old new (i, j) [] \<longleftrightarrow> drop i old = drop j new"
| "grouped_ok old new (i, j) (g # gs) \<longleftrightarrow>
     (let (a, b) = start_of g; (a', b') = end_of g
      in g \<noteq> [] \<and> i \<le> a \<and> j \<le> b \<and> a - i = b - j \<and> take (a - i) (drop i old) = take (b - j) (drop j new) \<and>
         spans old new (a, b) g (a', b') \<and> grouped_ok old new (a', b') gs)"

text \<open>A patch applied by its header and its context and added lines only.\<close>

fun apply_patch :: "string list \<Rightarrow> nat \<Rightarrow> diff_hunk list \<Rightarrow> string list" where
  "apply_patch old i [] = drop i old"
| "apply_patch old i (h # hs) =
     (let a = (if dh_old_len h = 0 then dh_old_start h else dh_old_start h - 1)
      in take (a - i) (drop i old) @ map dl_text (filter (\<lambda>l. dl_op l \<noteq> DelLine) (dh_lines h)) @
         apply_patch old (a + dh_old_len h) hs)"

section \<open>Hunks show both sides\<close>

lemma spans_bounds:
  assumes "spans old new p ds q"
  shows "fst p \<le> fst q \<and> snd p \<le> snd q \<and> fst q \<le> length old \<and> snd q \<le> length new"
  using assms
proof (induction ds arbitrary: p)
  case (Cons d ds)
  from Cons.IH[of "(snd (old_range d), snd (new_range d))"] Cons.prems show ?case by (cases d) auto
qed simp

lemma end_of_spans: "spans old new p ds q \<Longrightarrow> ds \<noteq> [] \<Longrightarrow> start_of ds = p \<and> end_of ds = q"
proof (induction ds arbitrary: p)
  case (Cons d ds)
  then show ?case by (cases ds) auto
qed simp

lemma slice_append:
  assumes "i \<le> j" and "j \<le> k"
  shows "take (j - i) (drop i xs) @ take (k - j) (drop j xs) = take (k - i) (drop i xs)"
proof -
  have "take (j - i + (k - j)) (drop i xs) = take (j - i) (drop i xs) @ take (k - j) (drop (j - i) (drop i xs))" by (rule take_add)
  with assms show ?thesis by simp
qed

lemma slice_map: "i + n \<le> length xs \<Longrightarrow> map (\<lambda>k. xs ! (i + k)) [0..<n] = take n (drop i xs)"
  by (auto intro!: nth_equalityI)

lemma slice_upt: "i + n \<le> length xs \<Longrightarrow> map (\<lambda>k. xs ! k) [i..<i + n] = take n (drop i xs)"
  by (auto intro!: nth_equalityI)

definition old_text_of :: "diff_line \<Rightarrow> string" where
  "old_text_of l = (case dl_old_text l of Some t \<Rightarrow> t | None \<Rightarrow> dl_text l)"

definition old_side :: "diff_line list \<Rightarrow> string list" where
  "old_side ls = map old_text_of (filter (\<lambda>l. dl_op l \<noteq> AddLine) ls)"

definition new_side :: "diff_line list \<Rightarrow> string list" where
  "new_side ls = map dl_text (filter (\<lambda>l. dl_op l \<noteq> DelLine) ls)"

lemma side_append: "old_side (a @ b) = old_side a @ old_side b" "new_side (a @ b) = new_side a @ new_side b"
  by (simp_all add: old_side_def new_side_def)

lemma deleted_sides:
  assumes "i + n \<le> length old"
  shows "old_side (deleted_lines old i n) = take n (drop i old)" "new_side (deleted_lines old i n) = []"
proof -
  have "line_at old k = old ! k" if "k \<in> set [i..<i + n]" for k using that assms by (simp add: line_at_def)
  then have "old_side (deleted_lines old i n) = map (\<lambda>k. old ! k) [i..<i + n]"
    by (auto simp: old_side_def deleted_lines_def old_text_of_def o_def filter_map)
  with slice_upt[OF assms] show "old_side (deleted_lines old i n) = take n (drop i old)" by simp
  show "new_side (deleted_lines old i n) = []" by (simp add: new_side_def deleted_lines_def filter_map o_def)
qed

lemma inserted_sides:
  assumes "j + n \<le> length new"
  shows "new_side (inserted_lines new j n) = take n (drop j new)" "old_side (inserted_lines new j n) = []"
proof -
  have "line_at new k = new ! k" if "k \<in> set [j..<j + n]" for k using that assms by (simp add: line_at_def)
  then have "new_side (inserted_lines new j n) = map (\<lambda>k. new ! k) [j..<j + n]"
    by (auto simp: new_side_def inserted_lines_def o_def filter_map)
  with slice_upt[OF assms] show "new_side (inserted_lines new j n) = take n (drop j new)" by simp
  show "old_side (inserted_lines new j n) = []" by (simp add: old_side_def inserted_lines_def filter_map o_def)
qed

lemma context_sides:
  assumes "i + n \<le> length old" "j + n \<le> length new"
  shows "old_side (map (\<lambda>k. context_line old new (i + k) (j + k)) [0..<n]) = take n (drop i old)"
    "new_side (map (\<lambda>k. context_line old new (i + k) (j + k)) [0..<n]) = take n (drop j new)"
proof -
  have "old_text_of (context_line old new (i + k) (j + k)) = old ! (i + k)" "dl_text (context_line old new (i + k) (j + k)) = new ! (j + k)"
    if "k < n" for k using that assms by (simp_all add: context_line_def old_text_of_def line_at_def)
  then show "old_side (map (\<lambda>k. context_line old new (i + k) (j + k)) [0..<n]) = take n (drop i old)"
    "new_side (map (\<lambda>k. context_line old new (i + k) (j + k)) [0..<n]) = take n (drop j new)"
    unfolding slice_map[OF assms(1), symmetric] slice_map[OF assms(2), symmetric]
    by (auto simp: old_side_def new_side_def filter_map o_def context_line_def)
qed

lemma op_sides:
  assumes "spans ko kn p (d # ds) q" and "length ko = length old" "length kn = length new"
  shows "old_side (op_lines old new d) = take (snd (old_range d) - fst (old_range d)) (drop (fst (old_range d)) old)"
    "new_side (op_lines old new d) = take (snd (new_range d) - fst (new_range d)) (drop (fst (new_range d)) new)"
proof -
  have rest: "spans ko kn (snd (old_range d), snd (new_range d)) ds q" using assms(1) by simp
  with spans_bounds[OF rest] assms(2,3) have "snd (old_range d) \<le> length old" "snd (new_range d) \<le> length new" by auto
  then show "old_side (op_lines old new d) = take (snd (old_range d) - fst (old_range d)) (drop (fst (old_range d)) old)"
    "new_side (op_lines old new d) = take (snd (new_range d) - fst (new_range d)) (drop (fst (new_range d)) new)"
    by (cases d; simp add: deleted_sides inserted_sides context_sides side_append)+
qed

lemma range_ordered: "fst (old_range d) \<le> snd (old_range d)" "fst (new_range d) \<le> snd (new_range d)"
  by (cases d; simp)+

lemma ops_sides:
  assumes "spans ko kn p ds q" and "length ko = length old" "length kn = length new"
  shows "old_side (concat (map (op_lines old new) ds)) = take (fst q - fst p) (drop (fst p) old) \<and>
    new_side (concat (map (op_lines old new) ds)) = take (snd q - snd p) (drop (snd p) new)"
  using assms(1)
proof (induction ds arbitrary: p)
  case Nil
  then show ?case by (simp add: old_side_def new_side_def)
next
  case (Cons d ds)
  let ?p = "(snd (old_range d), snd (new_range d))"
  have p: "p = (fst (old_range d), fst (new_range d))" and rest: "spans ko kn ?p ds q" using Cons.prems by auto
  note IH = Cons.IH[OF rest] and sides = op_sides[OF Cons.prems assms(2,3)]
  have "snd (old_range d) \<le> fst q" "snd (new_range d) \<le> snd q" using spans_bounds[OF rest] by auto
  with IH sides range_ordered[of d] show ?case by (simp add: side_append p slice_append)
qed

lemma side_range_foldl:
  assumes "spans old new p ds q"
  shows "s \<le> fst p \<Longrightarrow> foldl (\<lambda>(start, stop) (lo, hi). (Some (case start of None \<Rightarrow> lo | Some s \<Rightarrow> min s lo), max stop hi)) (Some s, fst p) (map old_range ds) =
      (Some s, fst q)"
    "s \<le> snd p \<Longrightarrow> foldl (\<lambda>(start, stop) (lo, hi). (Some (case start of None \<Rightarrow> lo | Some s \<Rightarrow> min s lo), max stop hi)) (Some s, snd p) (map new_range ds) =
      (Some s, snd q)"
  using assms
proof (induction ds arbitrary: p)
  case (Cons d ds)
  have p: "p = (fst (old_range d), fst (new_range d))" and rest: "spans old new (snd (old_range d), snd (new_range d)) ds q"
    if "spans old new p (d # ds) q" for p using that by auto
  { case 1
    from Cons.IH(1)[OF _ rest[OF 1(2)]] p[OF 1(2)] range_ordered[of d] 1(1) show ?case
      by (cases "old_range d") (simp add: max_def min_def) next
    case 2
    from Cons.IH(2)[OF _ rest[OF 2(2)]] p[OF 2(2)] range_ordered[of d] 2(1) show ?case
      by (cases "new_range d") (simp add: max_def min_def) }
qed simp_all

lemma hunk_header:
  assumes "spans old new p ds q" and "ds \<noteq> []"
  shows "side_range (map old_range ds) = (if fst q = fst p then (fst p, 0) else (fst p + 1, fst q - fst p))"
    "side_range (map new_range ds) = (if snd q = snd p then (snd p, 0) else (snd p + 1, snd q - snd p))"
proof -
  obtain d ds' where ds: "ds = d # ds'" using assms(2) by (cases ds) auto
  have p: "p = (fst (old_range d), fst (new_range d))" and rest: "spans old new (snd (old_range d), snd (new_range d)) ds' q"
    using assms(1) by (auto simp: ds)
  note bounds = spans_bounds[OF rest]
  from side_range_foldl(1)[OF rest, of "fst p"] range_ordered[of d] bounds
  show "side_range (map old_range ds) = (if fst q = fst p then (fst p, 0) else (fst p + 1, fst q - fst p))"
    by (cases "old_range d") (auto simp: ds p side_range_def Let_def min_def split: prod.splits if_splits)
  from side_range_foldl(2)[OF rest, of "snd p"] range_ordered[of d] bounds
  show "side_range (map new_range ds) = (if snd q = snd p then (snd p, 0) else (snd p + 1, snd q - snd p))"
    by (cases "new_range d") (auto simp: ds p side_range_def Let_def min_def split: prod.splits if_splits)
qed

section \<open>Patches\<close>

text \<open>
  The comparison sees a key of each line, its text or the text without the white
  space around it. A patch made from the comparison of keys gives the keys.
\<close>

lemma patch_keys_from:
  assumes "grouped_ok (map key old) (map key new) (i, j) gs" and "i \<le> length old" "j \<le> length new"
  shows "map key (apply_patch old i (map (\<lambda>ops. hunk ops old new) gs)) = map key (drop j new)"
  using assms
proof (induction gs arbitrary: i j)
  case Nil
  then show ?case by (simp add: drop_map)
next
  case (Cons g gs)
  obtain a b a' b' where at: "start_of g = (a, b)" "end_of g = (a', b')" by (metis surj_pair)
  with Cons.prems(1) have g: "g \<noteq> []" "i \<le> a" "j \<le> b" "a - i = b - j"
    "map key (take (a - i) (drop i old)) = map key (take (b - j) (drop j new))"
    and walk: "spans (map key old) (map key new) (a, b) g (a', b')" and rest: "grouped_ok (map key old) (map key new) (a', b') gs"
    by (auto simp: Let_def take_map drop_map)
  have bounds: "a \<le> a'" "b \<le> b'" "a' \<le> length old" "b' \<le> length new" using spans_bounds[OF walk] by auto
  let ?h = "hunk g old new"
  have header: "dh_old_start ?h = (if a' = a then a else a + 1)" "dh_old_len ?h = a' - a"
    using hunk_header(1)[OF walk g(1)] by (auto simp: hunk_def split: prod.splits if_splits)
  have body: "map dl_text (filter (\<lambda>l. dl_op l \<noteq> DelLine) (dh_lines ?h)) = take (b' - b) (drop b new)"
    using ops_sides[OF walk, of old new] by (simp add: hunk_def new_side_def split: prod.splits)
  have "(if dh_old_len ?h = 0 then dh_old_start ?h else dh_old_start ?h - 1) = a" using header bounds by auto
  moreover have "a + dh_old_len ?h = a'" using header(2) bounds by simp
  ultimately have "map key (apply_patch old i (map (\<lambda>ops. hunk ops old new) (g # gs))) =
      map key (take (b - j) (drop j new)) @ map key (take (b' - b) (drop b new)) @ map key (drop b' new)"
    using Cons.IH[OF rest bounds(3,4)] body g(5) by simp
  also have "\<dots> = map key (drop j new)"
  proof -
    have "take (b - j) (drop j new) @ drop b new = drop j new"
      using append_take_drop_id[of "b - j" "drop j new"] g(3) by simp
    moreover have "take (b' - b) (drop b new) @ drop b' new = drop b new"
      using append_take_drop_id[of "b' - b" "drop b new"] bounds(2) by simp
    ultimately show ?thesis by (metis map_append)
  qed
  finally show ?case .
qed

text \<open>
  A diff is a patch. Applying the hunks to the old text, by their headers and their
  context and added lines alone, gives the lines of the new text, whatever context
  was asked for: up to the white space around a line where the request ignores it.
\<close>

lemma diff_is_a_patch:
  fixes old new :: string and opts :: diff_options
  assumes "\<And>n xs ys. grouped_ok xs ys (0, 0) (grouped_ops D n xs ys)"
  defines "patched \<equiv> apply_patch (text_lines old) 0 (diff_lines D old new opts)"
  shows "map (line_key_of opts) patched = map (line_key_of opts) (text_lines new)"
    and "\<not> do_ignore_whitespace opts \<Longrightarrow> patched = text_lines new"
proof -
  show keys: "map (line_key_of opts) patched = map (line_key_of opts) (text_lines new)"
    using patch_keys_from[OF assms(1), of "text_lines old" "text_lines new" "line_key_of opts"] by (simp add: patched_def diff_lines_def Let_def)
  assume "\<not> do_ignore_whitespace opts"
  then have "line_key_of opts = (\<lambda>l. l)" by (auto simp: line_key_of_def)
  with keys show "patched = text_lines new" by simp
qed

text \<open>
  A hunk shows the stretch of each text that its header numbers, also where
  white space is ignored and a context line differs.
\<close>

lemma hunk_shows_both:
  assumes "spans (map (line_key_of opts) old) (map (line_key_of opts) new) (i, j) ops (i', j')" and "ops \<noteq> []"
  shows "old_side (dh_lines (hunk ops old new)) = take (i' - i) (drop i old) \<and> new_side (dh_lines (hunk ops old new)) = take (j' - j) (drop j new) \<and>
    dh_old_len (hunk ops old new) = i' - i \<and> dh_new_len (hunk ops old new) = j' - j \<and>
    (i < i' \<longrightarrow> dh_old_start (hunk ops old new) = i + 1) \<and> (j < j' \<longrightarrow> dh_new_start (hunk ops old new) = j + 1)"
  using ops_sides[OF assms(1), of old new] hunk_header[OF assms] spans_bounds[OF assms(1)]
  by (auto simp: hunk_def split: prod.splits if_splits)

section \<open>Blame is sound\<close>

definition op_fits :: "string list \<Rightarrow> string list \<Rightarrow> diff_op \<Rightarrow> bool" where
  "op_fits old new d \<longleftrightarrow> (case d of EqualOp i j n \<Rightarrow> take n (drop i old) = take n (drop j new) | _ \<Rightarrow> True)"

definition owned :: "nat \<Rightarrow> nat list \<Rightarrow> string list \<Rightarrow> string list \<Rightarrow> nat list \<Rightarrow> bool" where
  "owned step owners old new next_owners \<longleftrightarrow> length next_owners = length new \<and>
     (\<forall>p < length new. next_owners ! p = step \<or> (\<exists>q < length owners. next_owners ! p = owners ! q \<and> old ! q = new ! p))"

lemma owned_update:
  assumes "owned step owners old new acc" and "q < length owners" "p < length new" "old ! q = new ! p"
  shows "owned step owners old new (acc[p := owners ! q])"
  using assms unfolding owned_def by (auto simp: nth_list_update)

lemma owned_foldl:
  assumes "owned step owners old new acc" and "\<And>k. k \<in> set ks \<Longrightarrow> i + k < length owners \<and> j + k < length new \<and> old ! (i + k) = new ! (j + k)"
  shows "owned step owners old new (foldl (\<lambda>acc k. acc[j + k := owners ! (i + k)]) acc ks)"
  using assms
proof (induction ks arbitrary: acc)
  case (Cons k ks)
  then have "owned step owners old new (acc[j + k := owners ! (i + k)])" by (intro owned_update) auto
  with Cons.IH[OF this] Cons.prems(2) show ?case by simp
qed simp

lemma owned_carry:
  assumes "owned step owners old new acc" and "op_fits old new d" and "length owners = length old"
  shows "owned step owners old new (carry_owners owners acc d)"
proof (cases d)
  case (EqualOp i j n)
  let ?m = "min n (min (length acc - j) (length owners - i))"
  have len: "length acc = length new" using assms(1) by (simp add: owned_def)
  have "i + k < length owners \<and> j + k < length new \<and> old ! (i + k) = new ! (j + k)" if "k \<in> set [0..<?m]" for k
  proof -
    have k: "k < n" "j + k < length new" "i + k < length owners" using that len by auto
    have "take n (drop i old) ! k = take n (drop j new) ! k" using assms(2) EqualOp by (simp add: op_fits_def)
    with k assms(3) show ?thesis by simp
  qed
  then have "owned step owners old new (foldl (\<lambda>acc k. acc[j + k := owners ! (i + k)]) acc [0..<?m])"
    by (rule owned_foldl[OF assms(1)])
  then show ?thesis by (simp add: EqualOp carry_owners_def)
qed (use assms(1) in \<open>simp_all add: carry_owners_def\<close>)

lemma owned_all:
  assumes "owned step owners old new acc" and "\<forall>d \<in> set ds. op_fits old new d" and "length owners = length old"
  shows "owned step owners old new (foldl (carry_owners owners) acc ds)"
  using assms by (induction ds arbitrary: acc) (auto intro: owned_carry)

text \<open>A line with an owner is a line of every text from the owner on.\<close>

definition blame_inv :: "string list \<Rightarrow> nat \<Rightarrow> nat list \<Rightarrow> bool" where
  "blame_inv texts n owners \<longleftrightarrow> length owners = length (text_lines (texts ! n)) \<and>
     (\<forall>p < length owners. owners ! p \<le> n \<and> (\<forall>m. owners ! p \<le> m \<longrightarrow> m \<le> n \<longrightarrow> text_lines (texts ! n) ! p \<in> set (text_lines (texts ! m))))"

lemma blame_inv_step:
  assumes "blame_inv texts n owners" and "\<forall>d \<in> set (diff_ops D (text_lines (texts ! n)) (text_lines (texts ! Suc n))). op_fits (text_lines (texts ! n)) (text_lines (texts ! Suc n)) d"
  shows "blame_inv texts (Suc n) (snd (blame_step D (texts ! n, owners) (Suc n, texts ! Suc n)))"
proof -
  let ?old = "text_lines (texts ! n)" and ?new = "text_lines (texts ! Suc n)"
  let ?next = "foldl (carry_owners owners) (replicate (length ?new) (Suc n)) (diff_ops D ?old ?new)"
  have start: "owned (Suc n) owners ?old ?new (replicate (length ?new) (Suc n))" by (simp add: owned_def)
  have step: "owned (Suc n) owners ?old ?new ?next"
    by (rule owned_all[OF start assms(2)]) (use assms(1) in \<open>simp add: blame_inv_def\<close>)
  have "?next ! p \<le> Suc n \<and> (\<forall>m. ?next ! p \<le> m \<longrightarrow> m \<le> Suc n \<longrightarrow> ?new ! p \<in> set (text_lines (texts ! m)))" if p: "p < length ?next" for p
  proof -
    have len: "length ?next = length ?new" using step by (simp add: owned_def)
    then have here: "?new ! p \<in> set ?new" using p by simp
    from step p len consider "?next ! p = Suc n" | q where "q < length owners" "?next ! p = owners ! q" "?old ! q = ?new ! p"
      unfolding owned_def by metis
    then show ?thesis
    proof cases
      case 1
      with here show ?thesis by (auto simp: le_antisym)
    next
      case 2
      with assms(1) have "owners ! q \<le> n" "\<And>m. owners ! q \<le> m \<Longrightarrow> m \<le> n \<Longrightarrow> ?new ! p \<in> set (text_lines (texts ! m))"
        by (auto simp: blame_inv_def)
      with 2 here show ?thesis by (auto simp: le_Suc_eq)
    qed
  qed
  then show ?thesis using step by (simp add: blame_inv_def blame_step_def owned_def Let_def)
qed

lemma blame_inv_all:
  assumes "blame_inv texts n owners" and "n + length rest < length texts" and "rest = take (length rest) (drop (Suc n) texts)"
    and "\<And>k. \<forall>d \<in> set (diff_ops D (text_lines (texts ! k)) (text_lines (texts ! Suc k))). op_fits (text_lines (texts ! k)) (text_lines (texts ! Suc k)) d"
  shows "blame_inv texts (n + length rest) (snd (foldl (blame_step D) (texts ! n, owners) (enumerate (Suc n) rest)))"
  using assms(1-3)
proof (induction rest arbitrary: n owners)
  case (Cons t rest)
  have "(t # rest) ! 0 = take (length (t # rest)) (drop (Suc n) texts) ! 0" using Cons.prems(3) by metis
  then have t: "t = texts ! Suc n" using Cons.prems(2) by simp
  have rest: "rest = take (length rest) (drop (Suc (Suc n)) texts)"
    using arg_cong[OF Cons.prems(3), of tl] Cons.prems(2) by (simp add: tl_take tl_drop drop_Suc)
  have run: "blame_step D (texts ! n, owners) (Suc n, t) = (texts ! Suc n, snd (blame_step D (texts ! n, owners) (Suc n, texts ! Suc n)))"
    by (simp add: blame_step_def t Let_def)
  have "blame_inv texts (Suc n + length rest) (snd (foldl (blame_step D) (texts ! Suc n, snd (blame_step D (texts ! n, owners) (Suc n, texts ! Suc n))) (enumerate (Suc (Suc n)) rest)))"
    by (rule Cons.IH[OF blame_inv_step[OF Cons.prems(1) assms(4)] _ rest]) (use Cons.prems(2) in simp)
  then show ?case by (simp add: run)
qed simp

lemma blame_inv_last:
  assumes "\<And>old new d. d \<in> set (diff_ops D old new) \<Longrightarrow> op_fits old new d" and "texts \<noteq> []"
  shows "blame_inv texts (length texts - 1) (blame_lines D texts) \<and> texts ! (length texts - 1) = last texts"
proof -
  obtain first rest where texts: "texts = first # rest" using assms(2) by (cases texts) auto
  have "blame_inv texts 0 (replicate (length (text_lines first)) 0)" by (simp add: blame_inv_def texts)
  then have "blame_inv texts (0 + length rest) (snd (foldl (blame_step D) (texts ! 0, replicate (length (text_lines first)) 0) (enumerate (Suc 0) rest)))"
    by (rule blame_inv_all) (use assms(1) texts in \<open>simp_all add: texts\<close>)
  then show ?thesis by (simp add: blame_lines_def texts last_conv_nth)
qed

lemma blame_lines_length:
  assumes "\<And>old new d. d \<in> set (diff_ops D old new) \<Longrightarrow> op_fits old new d" and "texts \<noteq> []"
  shows "length (blame_lines D texts) = length (text_lines (last texts))"
  using blame_inv_last[OF assms] by (simp add: blame_inv_def)

text \<open>
  Blame names a version that had the line: for every line of the last text
  the owner is one of the texts, and the line is a line of the owner and of
  every later text.
\<close>

lemma blame_is_sound:
  assumes "\<And>old new d. d \<in> set (diff_ops D old new) \<Longrightarrow> op_fits old new d" and "texts \<noteq> []" and "p < length (text_lines (last texts))"
  shows "blame_lines D texts ! p < length texts"
    "blame_lines D texts ! p \<le> m \<Longrightarrow> m < length texts \<Longrightarrow> text_lines (last texts) ! p \<in> set (text_lines (texts ! m))"
proof -
  have inv: "blame_inv texts (length texts - 1) (blame_lines D texts)" "texts ! (length texts - 1) = last texts"
    using blame_inv_last[OF assms(1,2)] by auto
  have p: "p < length (blame_lines D texts)" using assms(3) inv by (simp add: blame_inv_def)
  then have "blame_lines D texts ! p \<le> length texts - 1" using inv(1) by (simp add: blame_inv_def)
  then show "blame_lines D texts ! p < length texts" using assms(2) by (cases texts) auto
  show "blame_lines D texts ! p \<le> m \<Longrightarrow> m < length texts \<Longrightarrow> text_lines (last texts) ! p \<in> set (text_lines (texts ! m))"
    using inv p by (auto simp: blame_inv_def)
qed

lemma blame_is_sound_at:
  assumes "\<And>old new d. d \<in> set (diff_ops D old new) \<Longrightarrow> op_fits old new d" and "texts \<noteq> []" and "p < length (text_lines (last texts))"
  shows "blame_lines D texts ! p < length texts \<and> text_lines (last texts) ! p \<in> set (text_lines (texts ! (blame_lines D texts ! p)))"
  using blame_is_sound[OF assms] by blast

text \<open>Runs are the owners again, one after the other, and neighbours have different owners.\<close>

definition owners_of :: "blame_run list \<Rightarrow> nat list" where
  "owners_of runs = concat (map (\<lambda>r. replicate (br_len r) (br_owner r)) runs)"

definition run_chain :: "blame_run list \<Rightarrow> bool" where
  "run_chain runs \<longleftrightarrow> (\<forall>r \<in> set runs. 0 < br_len r) \<and>
     (\<forall>k. Suc k < length runs \<longrightarrow> br_owner (runs ! Suc k) \<noteq> br_owner (runs ! k) \<and> br_start (runs ! Suc k) = br_start (runs ! k) + br_len (runs ! k))"

lemma owners_of_snoc: "owners_of (runs @ [r]) = owners_of runs @ replicate (br_len r) (br_owner r)"
  by (simp add: owners_of_def)

lemma group_blame_snoc: "group_blame (owners @ [x]) = push_owner (group_blame owners) (length owners, x)"
  by (simp add: group_blame_def enumerate_append_eq)

lemma group_blame_inv:
  "owners_of (group_blame owners) = owners \<and> run_chain (group_blame owners) \<and>
    (group_blame owners \<noteq> [] \<longrightarrow> br_start (last (group_blame owners)) + br_len (last (group_blame owners)) = length owners)"
proof (induction owners rule: rev_induct)
  case Nil
  then show ?case by (simp add: group_blame_def owners_of_def run_chain_def)
next
  case (snoc x owners)
  let ?runs = "group_blame owners"
  show ?case
  proof (cases "?runs \<noteq> [] \<and> br_owner (last ?runs) = x")
    case True
    then obtain before r where runs: "?runs = before @ [r]" and r: "br_owner r = x" by (metis append_butlast_last_id)
    let ?new = "before @ [r\<lparr>br_len := br_len r + 1\<rparr>]"
    have new: "group_blame (owners @ [x]) = ?new" using True runs by (simp add: group_blame_snoc push_owner_def)
    have "owners_of ?new = owners @ [x]"
    proof -
      have "replicate (br_len r + 1) x = replicate (br_len r) x @ [x]" by (simp add: replicate_append_same)
      moreover have "owners = owners_of before @ replicate (br_len r) x" using snoc.IH runs r by (simp add: owners_of_snoc)
      ultimately show ?thesis using r by (simp add: owners_of_snoc)
    qed
    moreover have "run_chain ?new"
      using snoc.IH unfolding runs run_chain_def by (auto simp: nth_append split: if_splits)
    ultimately show ?thesis using snoc.IH runs by (simp add: new)
  next
    case False
    let ?r = "\<lparr>br_owner = x, br_start = length owners, br_len = 1\<rparr>"
    have new: "group_blame (owners @ [x]) = ?runs @ [?r]" using False by (auto simp: group_blame_snoc push_owner_def)
    have "br_owner ((?runs @ [?r]) ! Suc k) \<noteq> br_owner ((?runs @ [?r]) ! k) \<and>
        br_start ((?runs @ [?r]) ! Suc k) = br_start ((?runs @ [?r]) ! k) + br_len ((?runs @ [?r]) ! k)" if "Suc k < length (?runs @ [?r])" for k
    proof (cases "Suc k < length ?runs")
      case True
      with snoc.IH show ?thesis by (simp add: run_chain_def nth_append)
    next
      case other: False
      with that have k: "Suc k = length ?runs" by simp
      then have ne: "?runs \<noteq> []" by auto
      then have "?runs ! k = last ?runs" using k by (metis diff_Suc_1 last_conv_nth)
      with ne False k snoc.IH show ?thesis by (simp add: nth_append flip: k)
    qed
    with snoc.IH show ?thesis by (simp add: new owners_of_snoc run_chain_def)
  qed
qed

lemma group_blame_round_trip: "owners_of (group_blame owners) = owners \<and> run_chain (group_blame owners)"
  using group_blame_inv by blast

text \<open>A small diff: the common beginning, then everything else replaced.\<close>

fun common :: "string list \<Rightarrow> string list \<Rightarrow> nat" where
  "common (x # xs) (y # ys) = (if x = y then Suc (common xs ys) else 0)"
| "common _ _ = 0"

definition prefix_ops :: "string list \<Rightarrow> string list \<Rightarrow> diff_op list" where
  "prefix_ops old new =
     (let n = common old new in [EqualOp 0 0 n, ReplaceOp n (length old - n) n (length new - n)])"

definition prefix_diff :: diff_tools where
  "prefix_diff = \<lparr>diff_ops = prefix_ops, grouped_ops = (\<lambda>_ old new. if old = new then [] else [prefix_ops old new])\<rparr>"

lemma take_common: "take (common old new) old = take (common old new) new"
  by (induction old new rule: common.induct) auto

lemma prefix_op_fits: "d \<in> set (diff_ops prefix_diff old new) \<Longrightarrow> op_fits old new d"
  using take_common by (auto simp: prefix_diff_def prefix_ops_def op_fits_def Let_def)

lemma common_le: "common old new \<le> length old \<and> common old new \<le> length new"
  by (induction old new rule: common.induct) auto

lemma prefix_groups: "grouped_ok old new (0, 0) (grouped_ops prefix_diff n old new)"
  using common_le[of old new] take_common[of old new] by (simp add: prefix_diff_def prefix_ops_def Let_def)

end
