(* ===== verification/Reading.thy ===== *)
theory Reading
  imports Require Admin Text_Diff
begin

text \<open>
  What \<open>src/src/application/spec_service.rs\<close> answers about the version lines:
  endpoints, documents, diffs, blame, the history of an endpoint and the timeline;
  and the one-time rewrite of stored texts.
\<close>

section \<open>Endpoints and documents\<close>

record shown_endpoint =
  ev_state :: resolution_state
  ev_version :: "semver option"
  ev_stability :: "stability option"
  ev_yaml :: "string option"
  ev_deprecated :: bool

definition get_endpoint_yaml :: "db \<Rightarrow> string \<Rightarrow> semver \<Rightarrow> api_type \<Rightarrow> string \<Rightarrow> string \<Rightarrow> shown_endpoint" where
  "get_endpoint_yaml db producer v t path meth =
     (let unknown = \<lparr>ev_state = Unknown, ev_version = None, ev_stability = None, ev_yaml = None, ev_deprecated = False\<rparr> in
      case find_service db producer of
        None \<Rightarrow> unknown
      | Some sid \<Rightarrow> (case find_spec_version db sid t v of
            None \<Rightarrow> unknown
          | Some entry \<Rightarrow> (case find_endpoint db (v_id entry) t path (method_for t meth) of
                Some e \<Rightarrow> \<lparr>ev_state = Served, ev_version = Some v, ev_stability = Some (v_stability entry),
                  ev_yaml = Some (e_yaml_content e), ev_deprecated = e_deprecated e\<rparr>
              | None \<Rightarrow> \<lparr>ev_state = Absent, ev_version = Some v, ev_stability = Some (v_stability entry),
                  ev_yaml = None, ev_deprecated = False\<rparr>)))"

definition list_producer_endpoints :: "db \<Rightarrow> string \<Rightarrow> api_type \<Rightarrow> semver \<Rightarrow> endpoint_record list" where
  "list_producer_endpoints db producer t v =
     (case find_service db producer of
        None \<Rightarrow> []
      | Some sid \<Rightarrow> (case find_spec_version db sid t v of
            None \<Rightarrow> []
          | Some entry \<Rightarrow> sort_key (\<lambda>e. (e_path e, e_method e)) (get_endpoints_for_version db (v_id entry))))"

text \<open>The one line of a snippet (\<open>descriptions::endpoint_summary\<close>, over the YAML library) is a parameter.\<close>

definition list_producer_endpoints_described ::
    "(api_type \<Rightarrow> string \<Rightarrow> string option) \<Rightarrow> db \<Rightarrow> string \<Rightarrow> api_type \<Rightarrow> semver \<Rightarrow> (endpoint_record \<times> string option) list" where
  "list_producer_endpoints_described endpoint_summary db producer t v =
     map (\<lambda>e. (e, endpoint_summary (e_api_type e) (e_yaml_content e))) (list_producer_endpoints db producer t v)"

definition get_full_spec :: "db \<Rightarrow> string \<Rightarrow> api_type \<Rightarrow> semver \<Rightarrow> app_error + string" where
  "get_full_spec db producer t v =
     and_then (resolve_pin db producer t v) (\<lambda>(_, entry).
     case get_spec_content db (v_id entry) of
       Some c \<Rightarrow> Inr c
     | None \<Rightarrow> Inl (NotFound (Text ''No stored document for this version'' [A t, V v, S producer])))"

definition list_versions :: "db \<Rightarrow> string \<Rightarrow> spec_version_meta list" where
  "list_versions db producer =
     (case find_service db producer of
        None \<Rightarrow> []
      | Some sid \<Rightarrow> sort_key (\<lambda>v. (api_type_as_str (v_api_type v), Desc (v_version v))) (list_spec_versions db sid))"

section \<open>Diffs\<close>

record diff_request =
  dr_api_type :: api_type
  dr_from :: semver
  dr_to :: semver
  dr_endpoint :: "(string \<times> string) option"
  dr_options :: diff_options

record version_diff =
  vd_from :: semver
  vd_to :: semver
  vd_hunks :: "diff_hunk list"
  vd_from_origin :: version_origin
  vd_to_origin :: version_origin

definition endpoint_text :: "db \<Rightarrow> row_id \<Rightarrow> string \<Rightarrow> string \<Rightarrow> string option" where
  "endpoint_text db vid normalized meth =
     map_option e_yaml_content (find (\<lambda>e. e_normalized_path e = normalized \<and> e_method e = meth) (get_endpoints_for_version db vid))"

definition version_text :: "db \<Rightarrow> row_id \<Rightarrow> api_type \<Rightarrow> (string \<times> string) option \<Rightarrow> string" where
  "version_text db vid t ep =
     (case ep of
        None \<Rightarrow> (case get_spec_content db vid of Some c \<Rightarrow> c | None \<Rightarrow> [])
      | Some (path, meth) \<Rightarrow> (case endpoint_text db vid (lookup_path t path) (method_for t meth) of Some y \<Rightarrow> y | None \<Rightarrow> []))"

definition diff_side :: "db \<Rightarrow> string \<Rightarrow> diff_request \<Rightarrow> semver \<Rightarrow> app_error + string" where
  "diff_side db producer r v =
     and_then (resolve_pin db producer (dr_api_type r) v) (\<lambda>(_, entry).
     Inr (version_text db (v_id entry) (dr_api_type r) (dr_endpoint r)))"

definition diff_origin :: "db \<Rightarrow> string \<Rightarrow> api_type \<Rightarrow> semver \<Rightarrow> version_origin" where
  "diff_origin db producer t v =
     (case find_service db producer of
        None \<Rightarrow> empty_origin
      | Some sid \<Rightarrow> (case find_spec_version db sid t v of
            None \<Rightarrow> empty_origin
          | Some entry \<Rightarrow> (case get_version_origin db (v_id entry) of Some o' \<Rightarrow> o' | None \<Rightarrow> empty_origin)))"

definition diff_versions :: "diff_tools \<Rightarrow> db \<Rightarrow> string \<Rightarrow> diff_request \<Rightarrow> app_error + version_diff" where
  "diff_versions D db producer r =
     and_then (diff_side db producer r (dr_from r)) (\<lambda>old.
     and_then (diff_side db producer r (dr_to r)) (\<lambda>new.
     Inr \<lparr>vd_from = dr_from r, vd_to = dr_to r, vd_hunks = diff_lines D old new (dr_options r),
          vd_from_origin = diff_origin db producer (dr_api_type r) (dr_from r),
          vd_to_origin = diff_origin db producer (dr_api_type r) (dr_to r)\<rparr>))"

section \<open>Blame and history\<close>

record blame_block =
  bb_version :: semver
  bb_stability :: stability
  bb_provided_by :: string
  bb_updated_at :: stamp
  bb_origin :: version_origin
  bb_start_line :: nat
  bb_lines :: "string list"

definition line_up_to :: "db \<Rightarrow> string \<Rightarrow> api_type \<Rightarrow> semver \<Rightarrow> app_error + spec_version_meta list" where
  "line_up_to db producer t v =
     and_then (resolve_pin db producer t v) (\<lambda>(sid, _).
     Inr (sort_key v_version (filter (\<lambda>x. v_api_type x = t \<and> v_version x \<le> v) (list_spec_versions db sid))))"

definition block_of :: "db \<Rightarrow> spec_version_meta list \<Rightarrow> string list \<Rightarrow> blame_run \<Rightarrow> blame_block option" where
  "block_of db line last_lines run =
     (if br_owner run < length line
      then let meta = line ! br_owner run in
        Some \<lparr>bb_version = v_version meta, bb_stability = v_stability meta, bb_provided_by = v_provided_by meta,
          bb_updated_at = v_updated_at meta,
          bb_origin = (case map_of (origins db) (v_id meta) of Some o' \<Rightarrow> o' | None \<Rightarrow> empty_origin),
          bb_start_line = br_start run + 1, bb_lines = take (br_len run) (drop (br_start run) last_lines)\<rparr>
      else None)"

definition blame_version ::
    "diff_tools \<Rightarrow> db \<Rightarrow> string \<Rightarrow> api_type \<Rightarrow> semver \<Rightarrow> (string \<times> string) option \<Rightarrow> app_error + blame_block list" where
  "blame_version D db producer t v ep =
     and_then (line_up_to db producer t v) (\<lambda>line.
     let texts = map (\<lambda>meta. version_text db (v_id meta) t ep) line;
         last_lines = (if texts = [] then [] else text_lines (last texts))
     in Inr (List.map_filter (block_of db line last_lines) (group_blame (blame_lines D texts))))"

record endpoint_history_entry =
  eh_version :: semver
  eh_stability :: stability
  eh_provided_by :: string
  eh_updated_at :: stamp
  eh_yaml_content :: "string option"
  eh_changed :: bool

fun history_entries :: "db \<Rightarrow> string \<Rightarrow> string \<Rightarrow> string option \<Rightarrow> spec_version_meta list \<Rightarrow> endpoint_history_entry list" where
  "history_entries db normalized meth previous [] = []"
| "history_entries db normalized meth previous (m # ms) =
     (let yaml = endpoint_text db (v_id m) normalized meth
      in \<lparr>eh_version = v_version m, eh_stability = v_stability m, eh_provided_by = v_provided_by m, eh_updated_at = v_updated_at m,
          eh_yaml_content = yaml, eh_changed = (yaml \<noteq> previous)\<rparr> # history_entries db normalized meth yaml ms)"

definition get_endpoint_history :: "db \<Rightarrow> string \<Rightarrow> api_type \<Rightarrow> string \<Rightarrow> string \<Rightarrow> app_error + endpoint_history_entry list" where
  "get_endpoint_history db producer t path meth =
     (case find_service db producer of
        None \<Rightarrow> Inl (NotFound (Text ''Producer not found'' []))
      | Some sid \<Rightarrow>
          (let line = filter (\<lambda>x. v_api_type x = t) (list_spec_versions db sid) in
           if line = [] then Inl (NotFound (Text ''No versions'' []))
           else Inr (history_entries db (lookup_path t path) (method_for t meth) None (sort_key v_version line))))"

record timeline_entry =
  tl_service :: string
  tl_api_type :: api_type
  tl_version :: semver
  tl_stability :: stability
  tl_provided_by :: string
  tl_updated_at :: stamp
  tl_endpoint_count :: nat

definition get_provide_timeline :: "db \<Rightarrow> nat \<Rightarrow> timeline_entry list" where
  "get_provide_timeline db limit =
     map (\<lambda>(nm, m, n). \<lparr>tl_service = nm, tl_api_type = v_api_type m, tl_version = v_version m, tl_stability = v_stability m,
            tl_provided_by = v_provided_by m, tl_updated_at = v_updated_at m, tl_endpoint_count = n\<rparr>)
       (take limit (sort_key (\<lambda>(nm, m, n). Desc (v_updated_at m)) (list_all_spec_versions db)))"

section \<open>The one-time rewrite of stored texts\<close>

definition spec_text_normalized_setting :: string where
  "spec_text_normalized_setting = ''spec_text_normalized_at''"

record text_normalization =
  tn_already_done :: bool
  tn_versions :: nat
  tn_endpoints :: nat
  tn_contracts :: nat

definition endpoint_rewrites :: "db \<Rightarrow> row_id \<Rightarrow> (row_id \<times> string) list" where
  "endpoint_rewrites db vid =
     List.map_filter (\<lambda>e. case e_id e of
         None \<Rightarrow> None
       | Some i \<Rightarrow> (let y = normalize_spec_text (e_yaml_content e) in if y \<noteq> e_yaml_content e then Some (i, y) else None))
       (get_endpoints_for_version db vid)"

definition normalize_version :: "spec_tools \<Rightarrow> spec_version_meta \<Rightarrow> text_normalization \<times> db \<Rightarrow> text_normalization \<times> db" where
  "normalize_version T m x =
     (let (n, db) = x in
      case get_spec_content db (v_id m) of
        None \<Rightarrow> x
      | Some content \<Rightarrow>
          (let normalized = normalize_spec_text content;
               hash = content_hash T normalized;
               texts = endpoint_rewrites db (v_id m)
           in if normalized = content \<and> hash = v_content_hash m \<and> texts = [] then x
              else (n\<lparr>tn_versions := tn_versions n + 1, tn_endpoints := tn_endpoints n + length texts\<rparr>,
                    rewrite_spec_text (v_id m) normalized hash texts db)))"

definition normalize_contract :: "channel_message_contract \<Rightarrow> text_normalization \<times> db \<Rightarrow> text_normalization \<times> db" where
  "normalize_contract c x =
     (let (n, db) = x; payload = normalize_spec_text (c_payload_yaml c) in
      if payload \<noteq> c_payload_yaml c
      then (n\<lparr>tn_contracts := tn_contracts n + 1\<rparr>, upsert_channel_message_contract (c\<lparr>c_payload_yaml := payload\<rparr>) db)
      else x)"

definition normalize_stored_spec_text :: "spec_tools \<Rightarrow> stamp \<Rightarrow> db \<Rightarrow> text_normalization \<times> db" where
  "normalize_stored_spec_text T now db =
     (if get_setting db spec_text_normalized_setting \<noteq> None
      then (\<lparr>tn_already_done = True, tn_versions = 0, tn_endpoints = 0, tn_contracts = 0\<rparr>, db)
      else let x1 = fold (normalize_version T) (map (\<lambda>(_, m, _). m) (list_all_spec_versions db))
                      (\<lparr>tn_already_done = False, tn_versions = 0, tn_endpoints = 0, tn_contracts = 0\<rparr>, db);
               (n, db2) = fold normalize_contract (list_channel_message_contracts (snd x1)) x1
           in (n, set_setting spec_text_normalized_setting now db2))"

end
