(* ===== verification/Reading_Rules.thy ===== *)
theory Reading_Rules
  imports Reading Provide_Rules
begin

text \<open>
  What the read side promises: a diff of two versions is a patch between their
  texts, blame splits a text into blocks of versions that had those lines, an
  endpoint's history marks exactly the changes, and the one-time rewrite leaves
  every text normalised and nothing else touched.
\<close>

section \<open>Diffs of versions\<close>

text \<open>
  C31: The diff of two versions is a patch from the older text to the newer: applied
  to the lines of what the first version stores (its document, or one endpoint's
  snippet), the hunks give the lines of what the second stores; where the request
  ignores white space, they give them up to the white space around each line. It is
  a statement of lines: how a line ends, and whether the last one is ended, is not
  compared.
\<close>

theorem version_diff_is_a_patch:
  assumes "\<And>n old new. grouped_ok old new (0, 0) (grouped_ops D n old new)" and "diff_versions D db producer r = Inr d"
  shows "\<exists>sid m sid' m'. resolve_pin db producer (dr_api_type r) (dr_from r) = Inr (sid, m) \<and>
    resolve_pin db producer (dr_api_type r) (dr_to r) = Inr (sid', m') \<and>
    (let patched = apply_patch (text_lines (version_text db (v_id m) (dr_api_type r) (dr_endpoint r))) 0 (vd_hunks d);
         given = text_lines (version_text db (v_id m') (dr_api_type r) (dr_endpoint r)) in
     if do_ignore_whitespace (dr_options r) then map trim patched = map trim given else patched = given)"
proof -
  obtain old new where sides: "diff_side db producer r (dr_from r) = Inr old" "diff_side db producer r (dr_to r) = Inr new"
    and d: "vd_hunks d = diff_lines D old new (dr_options r)"
    using assms(2) by (auto simp: diff_versions_def and_then_def split: sum.splits)
  note keys = diff_is_a_patch[where D = D and old = old and new = new and opts = "dr_options r", OF assms(1)]
  have trims: "line_key_of (dr_options r) = trim" if "do_ignore_whitespace (dr_options r)" using that by (auto simp: line_key_of_def)
  have "map trim (apply_patch (text_lines old) 0 (vd_hunks d)) = map trim (text_lines new)" if "do_ignore_whitespace (dr_options r)"
    using keys(1) unfolding trims[OF that] d .
  with keys(2) have "if do_ignore_whitespace (dr_options r)
      then map trim (apply_patch (text_lines old) 0 (vd_hunks d)) = map trim (text_lines new)
      else apply_patch (text_lines old) 0 (vd_hunks d) = text_lines new" by (simp add: d)
  moreover obtain sid m where "resolve_pin db producer (dr_api_type r) (dr_from r) = Inr (sid, m)" "old = version_text db (v_id m) (dr_api_type r) (dr_endpoint r)"
    using sides(1) by (auto simp: diff_side_def and_then_def split: sum.splits)
  moreover obtain sid' m' where "resolve_pin db producer (dr_api_type r) (dr_to r) = Inr (sid', m')" "new = version_text db (v_id m') (dr_api_type r) (dr_endpoint r)"
    using sides(2) by (auto simp: diff_side_def and_then_def split: sum.splits)
  ultimately show ?thesis by (intro exI conjI) (assumption | simp only: Let_def)+
qed

section \<open>Runs cut the text\<close>

fun chained :: "nat \<Rightarrow> blame_run list \<Rightarrow> nat \<Rightarrow> bool" where
  "chained s [] e \<longleftrightarrow> s = e"
| "chained s (r # rs) e \<longleftrightarrow> br_start r = s \<and> chained (s + br_len r) rs e"

lemma chained_snoc: "chained s (rs @ [r]) e \<longleftrightarrow> chained s rs (br_start r) \<and> br_start r + br_len r = e"
  by (induction rs arbitrary: s) auto

lemma chained_le: "chained s rs e \<Longrightarrow> s \<le> e"
  by (induction rs arbitrary: s) fastforce+

lemma group_blame_chained: "chained 0 (group_blame owners) (length owners)"
proof (induction owners rule: rev_induct)
  case Nil
  then show ?case by (simp add: group_blame_def)
next
  case (snoc x owners)
  show ?case
  proof (cases "group_blame owners \<noteq> [] \<and> br_owner (last (group_blame owners)) = x")
    case True
    then obtain pre r where "group_blame owners = pre @ [r]" by (metis append_butlast_last_id)
    with snoc True show ?thesis by (simp add: group_blame_snoc push_owner_def chained_snoc)
  next
    case False
    with snoc show ?thesis by (auto simp: group_blame_snoc push_owner_def chained_snoc)
  qed
qed

lemma chained_slices:
  assumes "chained s rs e"
  shows "concat (map (\<lambda>r. take (br_len r) (drop (br_start r) xs)) rs) = take (e - s) (drop s xs)"
  using assms
proof (induction rs arbitrary: s)
  case (Cons r rs)
  then have s: "br_start r = s" and rest: "chained (s + br_len r) rs e" by auto
  have "take (e - s) (drop s xs) = take (br_len r) (drop s xs) @ take (e - (s + br_len r)) (drop (s + br_len r) xs)"
    using slice_append[of s "s + br_len r" e xs] chained_le[OF rest] by simp
  with Cons.IH[OF rest] s show ?case by simp
qed simp

lemma chained_owner:
  assumes "chained (length pre) rs e" and "r \<in> set rs" and "br_start r \<le> p" "p < br_start r + br_len r"
  shows "(pre @ owners_of rs) ! p = br_owner r"
  using assms
proof (induction rs arbitrary: pre)
  case (Cons x rs)
  show ?case
  proof (cases "r = x \<and> p < length pre + br_len x")
    case True
    then have "p - length pre < br_len x" using Cons.prems by auto
    with True Cons.prems show ?thesis by (simp add: owners_of_def nth_append)
  next
    case False
    let ?b = "pre @ replicate (br_len x) (br_owner x)"
    have "chained (length ?b) rs e" "r \<in> set rs \<or> r = x" using Cons.prems by auto
    moreover have "r \<noteq> x" using False Cons.prems by auto
    ultimately have "(?b @ owners_of rs) ! p = br_owner r" using Cons.IH[of ?b] Cons.prems(3,4) by blast
    then show ?thesis by (simp add: owners_of_def)
  qed
qed simp

lemma run_in_text:
  assumes "r \<in> set (group_blame owners)" and "br_start r \<le> p" "p < br_start r + br_len r"
  shows "owners ! p = br_owner r \<and> p < length owners"
proof -
  have chain: "chained (length []) (group_blame owners) (length owners)" using group_blame_chained by simp
  have "([] @ owners_of (group_blame owners)) ! p = br_owner r"
    by (rule chained_owner[OF chain assms])
  moreover have "chained s rs e \<Longrightarrow> r \<in> set rs \<Longrightarrow> br_start r + br_len r \<le> e" for s rs e
    by (induction rs arbitrary: s) (auto dest: chained_le)
  from this[OF chain assms(1)] assms(3) have "p < length owners" by simp
  ultimately show ?thesis by (simp add: group_blame_round_trip)
qed

section \<open>Blame of a version\<close>

lemma sorted_last:
  assumes "x \<in> set xs"
  shows "f x \<le> f (last (sort_key f xs))"
proof -
  have ne: "sort_key f xs \<noteq> []" using assms by (metis length_greater_0_conv length_pos_if_in_set length_sort)
  have "sorted (map f (butlast (sort_key f xs) @ [last (sort_key f xs)]))" using ne sorted_sort_key[of f xs] by simp
  moreover have "x \<in> set (butlast (sort_key f xs) @ [last (sort_key f xs)])" using ne assms by simp
  ultimately show ?thesis unfolding map_append sorted_append by auto
qed

lemma line_of_version:
  assumes "catalog_inv db" and "line_up_to db producer t v = Inr line"
  shows "\<exists>sid entry. resolve_pin db producer t v = Inr (sid, entry) \<and> line \<noteq> [] \<and> last line = entry \<and>
    (\<forall>m \<in> set line. v_version m \<le> v \<and> find_spec_version db sid t (v_version m) = Some m)"
proof -
  obtain sid entry where pin: "resolve_pin db producer t v = Inr (sid, entry)"
    and line: "line = sort_key v_version (filter (\<lambda>x. v_api_type x = t \<and> v_version x \<le> v) (list_spec_versions db sid))"
    using assms(2) by (auto simp: line_up_to_def and_then_def split: sum.splits)
  let ?xs = "filter (\<lambda>x. v_api_type x = t \<and> v_version x \<le> v) (list_spec_versions db sid)"
  have entry: "find_spec_version db sid t v = Some entry" using pin by (auto simp: resolve_pin_def split: option.splits)
  have here: "find_spec_version db sid t (v_version m) = Some m" if m: "m \<in> set ?xs" for m
  proof -
    obtain r where r: "r \<in> set (spec_versions db)" "v_service_id r = sid" "m = spec_version_meta.truncate r"
      using m by (auto simp: in_list_spec_versions)
    moreover have "v_api_type r = t" using m r(3) by (simp add: spec_version_meta.truncate_def)
    ultimately have "find_version_row db sid t (v_version m) = Some r"
      using find_row_in[OF assms(1)] by (simp add: version_key_def spec_version_meta.truncate_def)
    with r(3) show ?thesis by (simp add: find_spec_version_def)
  qed
  obtain r where r: "find_version_row db sid t v = Some r" "entry = spec_version_meta.truncate r"
    using entry by (auto simp: find_spec_version_def)
  then have row: "r \<in> set (spec_versions db)" "v_service_id r = sid" "v_api_type r = t" "v_version r = v"
    using find_row_in[OF assms(1)] by (auto simp: version_key_def)
  have e: "v_version entry = v" "v_api_type entry = t" using r(2) row(3,4) by (simp_all add: spec_version_meta.truncate_def)
  have mem: "entry \<in> set ?xs" using row r(2) e by (auto simp: in_list_spec_versions)
  then have ne: "line \<noteq> []" unfolding line by (metis length_greater_0_conv length_pos_if_in_set length_sort)
  then have last: "last line \<in> set ?xs" using last_in_set[of line] unfolding line by simp
  have "v \<le> v_version (last line)" using sorted_last[OF mem, of v_version] e unfolding line by simp
  with last have "v_version (last line) = v" by auto
  with here[OF last] entry have "last line = entry" by simp
  moreover have "v_version m \<le> v \<and> find_spec_version db sid t (v_version m) = Some m" if "m \<in> set line" for m
    using that here unfolding line by auto
  ultimately show ?thesis using pin ne by blast
qed

text \<open>One block of a blame: it is a slice of the text, and the version it names holds it.\<close>

lemma block_has_a_holder:
  fixes texts :: "string list"
  assumes "texts = map (\<lambda>m. version_text db (v_id m) t ep) line" and "text = text_lines (last texts)" and "texts \<noteq> []"
    and fits: "\<And>old new d. d \<in> set (diff_ops D old new) \<Longrightarrow> op_fits old new d"
    and known: "\<And>m. m \<in> set line \<Longrightarrow> P m"
    and r: "r \<in> set (group_blame (blame_lines D texts))"
  shows "\<exists>b m. block_of db line text r = Some b \<and> bb_lines b = take (br_len r) (drop (br_start r) text) \<and> P m \<and>
    bb_version b = v_version m \<and> bb_provided_by b = v_provided_by m \<and> set (bb_lines b) \<subseteq> set (text_lines (version_text db (v_id m) t ep))"
proof -
  let ?owners = "blame_lines D texts"
  have len: "length ?owners = length text" using blame_lines_length[of D texts, OF fits] assms(2,3) by simp
  have sound: "?owners ! p < length line" "text ! p \<in> set (text_lines (texts ! (?owners ! p)))" if "p < length text" for p
    using blame_is_sound_at[of D texts p, OF fits] that assms(1-3) by auto
  have "0 < br_len r" using r group_blame_round_trip[of ?owners] by (simp add: run_chain_def)
  then have first: "?owners ! br_start r = br_owner r" "br_start r < length text" using run_in_text[OF r, of "br_start r"] len by auto
  then have own: "br_owner r < length line" using sound(1)[of "br_start r"] by simp
  have "x \<in> set (text_lines (version_text db (v_id (line ! br_owner r)) t ep))" if x: "x \<in> set (take (br_len r) (drop (br_start r) text))" for x
  proof -
    obtain k where k: "k < br_len r" "br_start r + k < length text" "x = text ! (br_start r + k)"
      using x by (auto simp: in_set_conv_nth)
    then have "?owners ! (br_start r + k) = br_owner r" using run_in_text[OF r, of "br_start r + k"] by simp
    with sound(2)[OF k(2)] own k(3) assms(1) show ?thesis by simp
  qed
  with own known[of "line ! br_owner r"] show ?thesis by (auto simp: block_of_def Let_def)
qed

text \<open>
  C32: Blame accounts for the whole text and names versions that had it. The blocks
  of a version, one after the other, are the lines of its text; each block is
  attributed to a stored version of the same line, not above the asked one, whose
  own text holds every line of the block.
\<close>

theorem blame_names_a_holder:
  assumes "catalog_inv db" and "\<And>old new d. d \<in> set (diff_ops D old new) \<Longrightarrow> op_fits old new d"
    and "blame_version D db producer t v ep = Inr blocks"
  shows "\<exists>sid entry. resolve_pin db producer t v = Inr (sid, entry) \<and>
    concat (map bb_lines blocks) = text_lines (version_text db (v_id entry) t ep) \<and>
    (\<forall>b \<in> set blocks. bb_version b \<le> v \<and> (\<exists>m. find_spec_version db sid t (bb_version b) = Some m \<and>
       bb_provided_by b = v_provided_by m \<and> set (bb_lines b) \<subseteq> set (text_lines (version_text db (v_id m) t ep))))"
proof -
  obtain line where line: "line_up_to db producer t v = Inr line"
    and run: "blocks = List.map_filter (block_of db line (if line = [] then [] else text_lines (last (map (\<lambda>m. version_text db (v_id m) t ep) line))))
        (group_blame (blame_lines D (map (\<lambda>m. version_text db (v_id m) t ep) line)))"
    using assms(3) by (auto simp: blame_version_def and_then_def Let_def split: sum.splits)
  obtain sid entry where pin: "resolve_pin db producer t v = Inr (sid, entry)" and ne: "line \<noteq> []" and last: "last line = entry"
    and known: "\<And>m. m \<in> set line \<Longrightarrow> v_version m \<le> v \<and> find_spec_version db sid t (v_version m) = Some m"
    using line_of_version[OF assms(1) line] by blast
  let ?texts = "map (\<lambda>m. version_text db (v_id m) t ep) line"
  let ?lines = "text_lines (version_text db (v_id entry) t ep)" and ?owners = "blame_lines D ?texts"
  have whole: "text_lines (last ?texts) = ?lines" using ne last by (simp add: last_map)
  have len: "length ?owners = length ?lines"
    using blame_lines_length[of D ?texts, OF assms(2)] ne whole by simp
  have block: "\<exists>b m. block_of db line ?lines r = Some b \<and> bb_lines b = take (br_len r) (drop (br_start r) ?lines) \<and>
      (v_version m \<le> v \<and> find_spec_version db sid t (v_version m) = Some m) \<and> bb_version b = v_version m \<and>
      bb_provided_by b = v_provided_by m \<and> set (bb_lines b) \<subseteq> set (text_lines (version_text db (v_id m) t ep))"
    if "r \<in> set (group_blame ?owners)" for r
    by (rule block_has_a_holder[OF refl whole[symmetric] _ assms(2) known that]) (use ne in auto)
  define f where "f r = the (block_of db line ?lines r)" for r
  have "block_of db line ?lines r = Some (f r)" if "r \<in> set (group_blame ?owners)" for r using block[OF that] by (auto simp: f_def)
  note some = this
  have each: "bb_lines (f r) = take (br_len r) (drop (br_start r) ?lines)" "bb_version (f r) \<le> v \<and> (\<exists>m. find_spec_version db sid t (bb_version (f r)) = Some m \<and>
      bb_provided_by (f r) = v_provided_by m \<and> set (bb_lines (f r)) \<subseteq> set (text_lines (version_text db (v_id m) t ep)))"
    if "r \<in> set (group_blame ?owners)" for r
    using block[OF that] by (fastforce simp: f_def)+
  from some have "List.map_filter (block_of db line ?lines) rs = map f rs" if "set rs \<subseteq> set (group_blame ?owners)" for rs
    using that by (induction rs) (auto simp: List.map_filter_def)
  then have blocks: "blocks = map f (group_blame ?owners)" using run whole ne by simp
  have "map bb_lines blocks = map (\<lambda>r. take (br_len r) (drop (br_start r) ?lines)) (group_blame ?owners)"
    by (simp add: blocks each(1))
  then have "concat (map bb_lines blocks) = ?lines"
    using chained_slices[OF group_blame_chained[of ?owners], of ?lines] len by simp
  moreover have "bb_version b \<le> v \<and> (\<exists>m. find_spec_version db sid t (bb_version b) = Some m \<and>
       bb_provided_by b = v_provided_by m \<and> set (bb_lines b) \<subseteq> set (text_lines (version_text db (v_id m) t ep)))" if "b \<in> set blocks" for b
    using that each(2) by (auto simp: blocks)
  ultimately show ?thesis using pin by blast
qed

section \<open>The history of an endpoint\<close>

lemma history_marks_changes:
  assumes "k < length (history_entries db path meth previous ms)"
  shows "eh_changed (history_entries db path meth previous ms ! k) \<longleftrightarrow>
    eh_yaml_content (history_entries db path meth previous ms ! k) \<noteq>
      (if k = 0 then previous else eh_yaml_content (history_entries db path meth previous ms ! (k - 1)))"
  using assms
proof (induction ms arbitrary: previous k)
  case (Cons m ms)
  show ?case
  proof (cases k)
    case (Suc j)
    with Cons.IH[of j "endpoint_text db (v_id m) path meth"] Cons.prems show ?thesis by (cases j) (simp_all add: Let_def)
  qed (simp add: Let_def)
qed simp

text \<open>A history from nothing ends at what the last changed entry stored.\<close>

lemma history_last_change:
  assumes "\<forall>k < length hs. \<not> eh_changed (hs ! k) \<longrightarrow> k \<noteq> 0 \<and> eh_yaml_content (hs ! k) = eh_yaml_content (hs ! (k - 1))"
    and "j \<le> k" "k < length hs" and "\<forall>i. j < i \<and> i \<le> k \<longrightarrow> \<not> eh_changed (hs ! i)"
  shows "eh_yaml_content (hs ! k) = eh_yaml_content (hs ! j)"
  using assms(2-4)
proof (induction k)
  case (Suc k)
  show ?case
  proof (cases "j = Suc k")
    case False
    with Suc.prems assms(1) have "eh_yaml_content (hs ! Suc k) = eh_yaml_content (hs ! k)" by (metis diff_Suc_1 le_antisym le_refl not_less)
    with Suc False show ?thesis by simp
  qed simp
qed simp

section \<open>The rewrite of stored texts\<close>

definition norm_row :: "spec_tools \<Rightarrow> spec_version_row \<Rightarrow> spec_version_row" where
  "norm_row T r = r\<lparr>v_content := normalize_spec_text (v_content r), v_content_hash := content_hash T (normalize_spec_text (v_content r))\<rparr>"

definition norm_endpoint :: "endpoint_row \<Rightarrow> endpoint_row" where
  "norm_endpoint e = e\<lparr>e_yaml_content := normalize_spec_text (e_yaml_content e)\<rparr>"

definition norm_contract :: "channel_message_contract \<Rightarrow> channel_message_contract" where
  "norm_contract c = c\<lparr>c_payload_yaml := normalize_spec_text (c_payload_yaml c)\<rparr>"

definition endpoints_known :: "db \<Rightarrow> bool" where
  "endpoints_known db \<longleftrightarrow> distinct (map e_id (endpoints db)) \<and>
     (\<forall>e \<in> set (endpoints db). e_id e \<noteq> None \<and> e_spec_version_id e \<in> v_id ` set (spec_versions db))"

text \<open>The snippets of one version written back.\<close>

definition rewritten :: "row_id \<Rightarrow> (row_id \<times> string) list \<Rightarrow> endpoint_row \<Rightarrow> endpoint_row" where
  "rewritten vid texts e =
     (if e_spec_version_id e = vid
      then (case e_id e of None \<Rightarrow> e | Some i \<Rightarrow> (case map_of texts i of None \<Rightarrow> e | Some y \<Rightarrow> e\<lparr>e_yaml_content := y\<rparr>)) else e)"

lemma rewrite_endpoints:
  assumes "distinct (map fst texts)"
  shows "foldl (\<lambda>d (eid, text'). d\<lparr>endpoints := update_where (\<lambda>e. e_id e = Some eid \<and> e_spec_version_id e = vid)
      (e_yaml_content_update (\<lambda>_. text')) (endpoints d)\<rparr>) d texts = d\<lparr>endpoints := map (rewritten vid texts) (endpoints d)\<rparr>"
  using assms
proof (induction texts arbitrary: d)
  case Nil
  have "rewritten vid [] = (\<lambda>e. e)" by (auto simp: rewritten_def fun_eq_iff split: option.split)
  then show ?case by simp
next
  case (Cons x texts)
  obtain i y where x: "x = (i, y)" by (cases x)
  have "rewritten vid texts (if e_id e = Some i \<and> e_spec_version_id e = vid then e\<lparr>e_yaml_content := y\<rparr> else e) = rewritten vid (x # texts) e" for e
    using Cons.prems by (auto simp: rewritten_def x split: option.split) (metis imageI fst_conv map_of_SomeD)+
  then show ?case using Cons by (simp add: x update_where_def o_def)
qed

lemma endpoint_rewrites_map:
  "List.map_filter (\<lambda>e. case e_id e of None \<Rightarrow> None
      | Some i \<Rightarrow> (let y = normalize_spec_text (e_yaml_content e) in if y \<noteq> e_yaml_content e then Some (i, y) else None)) (map endpoint_record.truncate es) =
   map (\<lambda>e. (the (e_id e), normalize_spec_text (e_yaml_content e)))
     (filter (\<lambda>e. e_id e \<noteq> None \<and> normalize_spec_text (e_yaml_content e) \<noteq> e_yaml_content e) es)" for es :: "endpoint_row list"
  by (induction es) (auto simp: List.map_filter_def Let_def endpoint_record.truncate_def split: option.split)

lemma rewritten_normal:
  assumes "distinct (map e_id es)" and "e \<in> set es" and "e_id e \<noteq> None"
    and "texts = map (\<lambda>e. (the (e_id e), normalize_spec_text (e_yaml_content e)))
      (filter (\<lambda>e. e_id e \<noteq> None \<and> normalize_spec_text (e_yaml_content e) \<noteq> e_yaml_content e) (filter (\<lambda>e. e_spec_version_id e = vid) es))"
  shows "distinct (map fst texts)" "rewritten vid texts e = (if e_spec_version_id e = vid then norm_endpoint e else e)"
proof -
  let ?P = "\<lambda>e. e_id e \<noteq> None \<and> normalize_spec_text (e_yaml_content e) \<noteq> e_yaml_content e"
  have same: "x = x'" if "x \<in> set es" "x' \<in> set es" "e_id x = e_id x'" for x x'
    using that assms(1) by (auto simp: distinct_map dest: inj_onD)
  have "inj_on (\<lambda>e. the (e_id e)) (set (filter ?P (filter (\<lambda>e. e_spec_version_id e = vid) es)))"
    by (rule inj_onI) (use same in auto)
  moreover have "distinct es" using assms(1) by (simp add: distinct_map)
  ultimately show d: "distinct (map fst texts)" by (simp add: assms(4) distinct_map o_def)
  obtain i where i: "e_id e = Some i" using assms(3) by auto
  show "rewritten vid texts e = (if e_spec_version_id e = vid then norm_endpoint e else e)"
  proof (cases "e_spec_version_id e = vid \<and> normalize_spec_text (e_yaml_content e) \<noteq> e_yaml_content e")
    case True
    then have "(i, normalize_spec_text (e_yaml_content e)) \<in> set texts" using assms(2) i by (force simp: assms(4))
    with d have "map_of texts i = Some (normalize_spec_text (e_yaml_content e))" by simp
    with True i show ?thesis by (simp add: rewritten_def norm_endpoint_def)
  next
    case False
    have "map_of texts i = None" if "e_spec_version_id e = vid"
    proof -
      have "i \<notin> fst ` set texts"
      proof
        assume "i \<in> fst ` set texts"
        then obtain x where x: "x \<in> set es" "e_id x = Some i" "?P x" by (auto simp: assms(4))
        with same[OF x(1) assms(2)] i have "x = e" by simp
        with x(3) False that show False by simp
      qed
      then show ?thesis by (simp add: map_of_eq_None_iff)
    qed
    with False i show ?thesis by (auto simp: rewritten_def norm_endpoint_def)
  qed
qed

text \<open>The store with the versions of \<open>P\<close> rewritten.\<close>

definition partly_normal :: "spec_tools \<Rightarrow> db \<Rightarrow> row_id set \<Rightarrow> db" where
  "partly_normal T db P =
     db\<lparr>spec_versions := map (\<lambda>r. if v_id r \<in> P then norm_row T r else r) (spec_versions db),
        endpoints := map (\<lambda>e. if e_spec_version_id e \<in> P then norm_endpoint e else e) (endpoints db)\<rparr>"

lemma normalize_version_step:
  assumes "catalog_inv db" and "endpoints_known db" and "r \<in> set (spec_versions db)" and "v_id r \<notin> P"
  shows "snd (normalize_version T (spec_version_meta.truncate r) (n, partly_normal T db P)) = partly_normal T db (insert (v_id r) P)"
proof -
  let ?d = "partly_normal T db P" and ?m = "spec_version_meta.truncate r" and ?vid = "v_id r"
  have m: "v_id ?m = ?vid" "v_content_hash ?m = v_content_hash r" by (simp_all add: spec_version_meta.truncate_def)
  have ids: "distinct (map v_id (spec_versions db))" using assms(1) by (simp add: catalog_inv_def versions_ok_def)
  have only: "x = r" if "x \<in> set (spec_versions db)" "v_id x = ?vid" for x
    using that assms(3) ids by (auto simp: distinct_map dest: inj_onD)
  have nid: "v_id (norm_row T x) = v_id x" for x by (simp add: norm_row_def)
  have "find (\<lambda>v. v_id v = ?vid) (spec_versions ?d) = Some r"
  proof (rule find_unique[of v_id])
    have "map v_id (spec_versions ?d) = map v_id (spec_versions db)" by (simp add: partly_normal_def nid)
    then show "distinct (map v_id (spec_versions ?d))" using ids by simp
    show "r \<in> set (spec_versions ?d)" using assms(3,4) by (force simp: partly_normal_def)
  qed auto
  then have content: "get_spec_content ?d ?vid = Some (v_content r)" by (simp add: get_spec_content_def)
  let ?es = "filter (\<lambda>e. e_spec_version_id e = ?vid) (endpoints db)"
  have nsv: "e_spec_version_id (norm_endpoint e) = e_spec_version_id e" for e by (simp add: norm_endpoint_def)
  have "filter (\<lambda>e. e_spec_version_id e = ?vid) (endpoints ?d) = ?es"
  proof -
    have "filter (\<lambda>e. e_spec_version_id e = ?vid) (map (\<lambda>e. if e_spec_version_id e \<in> P then norm_endpoint e else e) es) =
        filter (\<lambda>e. e_spec_version_id e = ?vid) es" for es
      using assms(4) by (induction es) (auto simp: nsv)
    then show ?thesis by (simp add: partly_normal_def)
  qed
  then have texts: "endpoint_rewrites ?d ?vid = map (\<lambda>e. (the (e_id e), normalize_spec_text (e_yaml_content e)))
      (filter (\<lambda>e. e_id e \<noteq> None \<and> normalize_spec_text (e_yaml_content e) \<noteq> e_yaml_content e) ?es)"
    by (simp add: endpoint_rewrites_def get_endpoints_for_version_def endpoint_rewrites_map)
  have eids: "distinct (map e_id (endpoints db))" and known: "\<And>e. e \<in> set (endpoints db) \<Longrightarrow> e_id e \<noteq> None"
    using assms(2) by (auto simp: endpoints_known_def)
  note normal = rewritten_normal[OF eids _ known texts]
  let ?texts = "endpoint_rewrites ?d ?vid" and ?c = "normalize_spec_text (v_content r)"
  have e': "(if e_spec_version_id e \<in> insert ?vid P then norm_endpoint e else e) = rewritten ?vid ?texts (if e_spec_version_id e \<in> P then norm_endpoint e else e)"
    if e: "e \<in> set (endpoints db)" for e
  proof (cases "e_spec_version_id e = ?vid")
    case True
    with normal(2)[OF e e] assms(4) show ?thesis by simp
  next
    case False
    then show ?thesis by (simp add: rewritten_def nsv)
  qed
  have r': "(if v_id x \<in> insert ?vid P then norm_row T x else x) =
      (let y = if v_id x \<in> P then norm_row T x else x in if v_id y = ?vid then y\<lparr>v_content := ?c, v_content_hash := content_hash T ?c\<rparr> else y)"
    if x: "x \<in> set (spec_versions db)" for x
    using only[OF x] assms(4) by (auto simp: Let_def nid norm_row_def)
  show ?thesis
  proof (cases "?c = v_content r \<and> content_hash T ?c = v_content_hash r \<and> ?texts = []")
    case True
    have c: "?c = v_content r" "content_hash T ?c = v_content_hash r" using True by auto
    have same: "norm_row T r = r" by (rule spec_version_row.equality) (simp_all add: norm_row_def c c(2)[unfolded c(1)])
    have "(if v_id x \<in> insert ?vid P then norm_row T x else x) = (if v_id x \<in> P then norm_row T x else x)" if "x \<in> set (spec_versions db)" for x
      using only[OF that] same by auto
    moreover have "(if e_spec_version_id e \<in> insert ?vid P then norm_endpoint e else e) = (if e_spec_version_id e \<in> P then norm_endpoint e else e)"
      if "e \<in> set (endpoints db)" for e
      unfolding e'[OF that] using True by (auto simp: rewritten_def split: option.split)
    ultimately have "partly_normal T db (insert ?vid P) = ?d" unfolding partly_normal_def by (intro arg_cong2[of _ _ _ _ "\<lambda>a b. db\<lparr>spec_versions := a, endpoints := b\<rparr>"] map_cong refl)
    with True content m c c(2)[unfolded c(1)] show ?thesis by (simp add: normalize_version_def Let_def)
  next
    case False
    have dist: "distinct (map fst ?texts)"
    proof (cases "endpoints db")
      case Nil
      with texts show ?thesis by simp
    next
      case (Cons e es)
      then show ?thesis using normal(1)[of e] by simp
    qed
    have "rewrite_spec_text ?vid ?c (content_hash T ?c) ?texts ?d =
        ?d\<lparr>spec_versions := update_where (\<lambda>x. v_id x = ?vid) (\<lambda>x. x\<lparr>v_content := ?c, v_content_hash := content_hash T ?c\<rparr>) (spec_versions ?d),
           endpoints := map (rewritten ?vid ?texts) (endpoints ?d)\<rparr>"
      unfolding rewrite_spec_text_def Let_def by (subst rewrite_endpoints[OF dist]) simp
    also have "update_where (\<lambda>x. v_id x = ?vid) (\<lambda>x. x\<lparr>v_content := ?c, v_content_hash := content_hash T ?c\<rparr>) (spec_versions ?d) =
        map (\<lambda>x. if v_id x \<in> insert ?vid P then norm_row T x else x) (spec_versions db)"
      using r' by (simp add: partly_normal_def update_where_def Let_def o_def cong: map_cong)
    also have "map (rewritten ?vid ?texts) (endpoints ?d) = map (\<lambda>e. if e_spec_version_id e \<in> insert ?vid P then norm_endpoint e else e) (endpoints db)"
    proof -
      have "map (rewritten ?vid tx) (endpoints ?d) = map (\<lambda>e. if e_spec_version_id e \<in> insert ?vid P then norm_endpoint e else e) (endpoints db)"
        if "tx = ?texts" for tx
        using e'[folded that] by (simp add: partly_normal_def o_def cong: map_cong)
      then show ?thesis by simp
    qed
    also have "?d\<lparr>spec_versions := map (\<lambda>x. if v_id x \<in> insert ?vid P then norm_row T x else x) (spec_versions db),
        endpoints := map (\<lambda>e. if e_spec_version_id e \<in> insert ?vid P then norm_endpoint e else e) (endpoints db)\<rparr> = partly_normal T db (insert ?vid P)"
      by (simp add: partly_normal_def)
    finally show ?thesis using False content m by (auto simp: normalize_version_def Let_def)
  qed
qed

lemma normalize_versions:
  assumes "catalog_inv db" and "endpoints_known db" and "set rs \<subseteq> set (spec_versions db)" and "distinct (map v_id rs)" and "P \<inter> v_id ` set rs = {}"
  shows "\<exists>n'. fold (normalize_version T) (map spec_version_meta.truncate rs) (n, partly_normal T db P) = (n', partly_normal T db (P \<union> v_id ` set rs))"
  using assms(3-5)
proof (induction rs arbitrary: n P)
  case (Cons r rs)
  obtain n1 where n1: "normalize_version T (spec_version_meta.truncate r) (n, partly_normal T db P) = (n1, partly_normal T db (insert (v_id r) P))"
    using normalize_version_step[OF assms(1,2), of r P T n] Cons.prems
    by (cases "normalize_version T (spec_version_meta.truncate r) (n, partly_normal T db P)") auto
  from Cons.IH[of "insert (v_id r) P" n1] Cons.prems show ?case by (auto simp: n1)
qed simp

lemma listed_versions:
  assumes "catalog_inv db"
  shows "\<exists>rs. map (\<lambda>(_, m, _). m) (list_all_spec_versions db) = map spec_version_meta.truncate rs \<and>
    set rs = set (spec_versions db) \<and> distinct (map v_id rs)"
proof -
  let ?row = "\<lambda>v. (the (get_service_name_by_id db (v_service_id v)), spec_version_meta.truncate v, endpoint_count db (v_id v))"
  have named: "get_service_name_by_id db (v_service_id v) \<noteq> None" if "v \<in> set (spec_versions db)" for v
  proof -
    have "v_service_id v \<in> fst ` set (services db)" using assms that by (simp add: catalog_inv_def versions_ok_def)
    then obtain x where "x \<in> set (services db)" "fst x = v_service_id v" by (metis imageE)
    then have "find (\<lambda>x. fst x = v_service_id v) (services db) \<noteq> None" unfolding find_None_not by blast
    then show ?thesis by (auto simp: get_service_name_by_id_def)
  qed
  have "List.map_filter (\<lambda>v. map_option (\<lambda>nm. (nm, spec_version_meta.truncate v, endpoint_count db (v_id v)))
            (get_service_name_by_id db (v_service_id v))) rs = map ?row rs" if "set rs \<subseteq> set (spec_versions db)" for rs
    using that named by (induction rs) (fastforce simp: List.map_filter_def)+
  then have all: "list_all_spec_versions db = sort_key (\<lambda>(nm, v, n). (nm, api_type_as_str (v_api_type v), v_version v)) (map ?row (spec_versions db))"
    by (simp add: list_all_spec_versions_def)
  let ?f = "(\<lambda>(nm, v, n). (nm, api_type_as_str (v_api_type v), v_version v)) \<circ> ?row"
  have sorted_map: "sort_key g (map h xs) = map h (sort_key (g \<circ> h) xs)" for g :: "'b \<Rightarrow> 'c :: linorder" and h :: "'a \<Rightarrow> 'b" and xs
    using map_sort_key[of h g xs] by (simp add: o_def)
  let ?rs = "sort_key ?f (spec_versions db)"
  have "map (\<lambda>(_, m, _). m) (list_all_spec_versions db) = map spec_version_meta.truncate ?rs"
    unfolding all sorted_map by (simp add: o_def)
  moreover have "distinct (map v_id ?rs)"
    using assms by (simp add: distinct_map catalog_inv_def versions_ok_def)
  ultimately show ?thesis by (intro exI[of _ ?rs]) simp
qed

text \<open>The contracts, one after the other.\<close>

lemma normalize_contracts:
  assumes "distinct (map contract_key (contracts db0))" and "set cs \<subseteq> set (contracts db0)" and "distinct cs"
    and "contracts d = map (\<lambda>c. if c \<in> K then norm_contract c else c) (contracts db0)" and "K \<inter> set cs = {}" and "K \<subseteq> set (contracts db0)"
  shows "\<exists>n'. fold normalize_contract cs (n, d) = (n', d\<lparr>contracts := map (\<lambda>c. if c \<in> K \<union> set cs then norm_contract c else c) (contracts db0)\<rparr>)"
  using assms(2-6)
proof (induction cs arbitrary: n d K)
  case Nil
  then show ?case by simp
next
  case (Cons c cs)
  have key: "contract_key (norm_contract x) = contract_key x" for x by (simp add: norm_contract_def contract_key_def)
  have only: "x = c" if "x \<in> set (contracts db0)" "contract_key x = contract_key c" for x
    using that Cons.prems(1) assms(1) by (auto simp: distinct_map dest: inj_onD)
  have c: "c \<in> set (contracts db0)" "c \<notin> K" using Cons.prems(1,4) by auto
  let ?d = "d\<lparr>contracts := map (\<lambda>x. if x \<in> insert c K then norm_contract x else x) (contracts db0)\<rparr>"
  have "snd (normalize_contract c (n, d)) = ?d"
  proof (cases "normalize_spec_text (c_payload_yaml c) = c_payload_yaml c")
    case True
    then have "norm_contract c = c" by (simp add: norm_contract_def)
    then have "map (\<lambda>x. if x \<in> insert c K then norm_contract x else x) (contracts db0) = contracts d"
      unfolding Cons.prems(3) by (auto simp: c(2))
    with True show ?thesis by (simp add: normalize_contract_def Let_def)
  next
    case False
    let ?c = "c\<lparr>c_payload_yaml := normalize_spec_text (c_payload_yaml c)\<rparr>"
    have ck: "contract_key ?c = contract_key c" by (simp add: contract_key_def)
    have "exists_row (\<lambda>x. contract_key x = contract_key ?c) (contracts d)"
      using c by (force simp: exists_row_iff ck Cons.prems(3))
    then have "contracts (upsert_channel_message_contract ?c d) = update_where (\<lambda>x. contract_key x = contract_key ?c)
             (\<lambda>x. x\<lparr>c_owner_service_id := c_owner_service_id ?c, c_payload_yaml := c_payload_yaml ?c\<rparr>) (contracts d)"
      "upsert_channel_message_contract ?c d = d\<lparr>contracts := contracts (upsert_channel_message_contract ?c d)\<rparr>"
      by (simp_all add: upsert_channel_message_contract_def)
    moreover have "update_where (\<lambda>x. contract_key x = contract_key ?c)
             (\<lambda>x. x\<lparr>c_owner_service_id := c_owner_service_id ?c, c_payload_yaml := c_payload_yaml ?c\<rparr>) (contracts d) =
        map (\<lambda>x. if x \<in> insert c K then norm_contract x else x) (contracts db0)"
    proof -
      have "(let y = if x \<in> K then norm_contract x else x in if contract_key y = contract_key ?c
            then y\<lparr>c_owner_service_id := c_owner_service_id ?c, c_payload_yaml := c_payload_yaml ?c\<rparr> else y) =
          (if x \<in> insert c K then norm_contract x else x)" if "x \<in> set (contracts db0)" for x
      proof -
        have "x \<in> K \<Longrightarrow> contract_key x \<noteq> contract_key c" using only[OF that] c(2) by auto
        moreover have "contract_key (x\<lparr>c_payload_yaml := y\<rparr>) = contract_key x" for y by (simp add: contract_key_def)
        ultimately show ?thesis using only[OF that] by (auto simp: Let_def ck norm_contract_def)
      qed
      from this[unfolded Let_def] show ?thesis unfolding Cons.prems(3) update_where_def map_map o_def by (intro map_cong refl)
    qed
    ultimately show ?thesis using False by (simp add: normalize_contract_def Let_def)
  qed
  then obtain n1 where n1: "normalize_contract c (n, d) = (n1, ?d)" by (cases "normalize_contract c (n, d)") auto
  have "\<exists>n'. fold normalize_contract cs (n1, ?d) = (n', ?d\<lparr>contracts := map (\<lambda>x. if x \<in> insert c K \<union> set cs then norm_contract x else x) (contracts db0)\<rparr>)"
    by (rule Cons.IH) (use Cons.prems c in auto)
  then show ?case by (simp add: n1)
qed

text \<open>
  C33: The one-time rewrite leaves every stored text normalised, with the fingerprint
  of the normalised text, and changes nothing else: no number, stability, time,
  author or order of any row; and a second run does nothing.
\<close>

theorem stored_texts_are_normalised:
  assumes "catalog_inv db" and "endpoints_known db" and "distinct (map contract_key (contracts db))"
    and "get_setting db spec_text_normalized_setting = None"
  shows "snd (normalize_stored_spec_text T now db) = set_setting spec_text_normalized_setting now
      (db\<lparr>spec_versions := map (norm_row T) (spec_versions db), endpoints := map norm_endpoint (endpoints db),
          contracts := map norm_contract (contracts db)\<rparr>) \<and>
    snd (normalize_stored_spec_text T later (snd (normalize_stored_spec_text T now db))) = snd (normalize_stored_spec_text T now db)"
proof -
  let ?n = "\<lparr>tn_already_done = False, tn_versions = 0, tn_endpoints = 0, tn_contracts = 0\<rparr>"
  obtain rs where rs: "map (\<lambda>(_, m, _). m) (list_all_spec_versions db) = map spec_version_meta.truncate rs"
    "set rs = set (spec_versions db)" "distinct (map v_id rs)" using listed_versions[OF assms(1)] by blast
  have start: "partly_normal T db {} = db" by (simp add: partly_normal_def)
  obtain n1 where n1: "fold (normalize_version T) (map (\<lambda>(_, m, _). m) (list_all_spec_versions db)) (?n, db) =
      (n1, partly_normal T db ({} \<union> v_id ` set rs))"
    using normalize_versions[OF assms(1,2) _ rs(3), of "{}" T ?n] rs(2) by (auto simp: rs(1) start)
  have "partly_normal T db ({} \<union> v_id ` set rs) = db\<lparr>spec_versions := map (norm_row T) (spec_versions db), endpoints := map norm_endpoint (endpoints db)\<rparr>"
    using assms(2) unfolding partly_normal_def rs(2) endpoints_known_def
    by (intro arg_cong2[of _ _ _ _ "\<lambda>a b. db\<lparr>spec_versions := a, endpoints := b\<rparr>"] map_cong refl) auto
  then have versions: "fold (normalize_version T) (map (\<lambda>(_, m, _). m) (list_all_spec_versions db)) (?n, db) =
      (n1, db\<lparr>spec_versions := map (norm_row T) (spec_versions db), endpoints := map norm_endpoint (endpoints db)\<rparr>)" (is "_ = (_, ?db1)")
    using n1 by simp
  have cs: "set (list_channel_message_contracts ?db1) = set (contracts db)" "distinct (list_channel_message_contracts ?db1)"
    using assms(3) by (simp_all add: list_channel_message_contracts_def distinct_map)
  obtain n2 where n2: "fold normalize_contract (list_channel_message_contracts ?db1) (n1, ?db1) =
      (n2, ?db1\<lparr>contracts := map (\<lambda>c. if c \<in> {} \<union> set (list_channel_message_contracts ?db1) then norm_contract c else c) (contracts db)\<rparr>)"
    using normalize_contracts[OF assms(3) _ cs(2), of ?db1 "{}" n1] cs(1) by auto
  have all: "map (\<lambda>c. if c \<in> {} \<union> set (list_channel_message_contracts ?db1) then norm_contract c else c) (contracts db) = map norm_contract (contracts db)"
    unfolding cs(1) by (rule map_cong) auto
  have contracts: "fold normalize_contract (list_channel_message_contracts ?db1) (n1, ?db1) = (n2, ?db1\<lparr>contracts := map norm_contract (contracts db)\<rparr>)"
    using n2 unfolding all .
  then have first: "snd (normalize_stored_spec_text T now db) = set_setting spec_text_normalized_setting now
      (db\<lparr>spec_versions := map (norm_row T) (spec_versions db), endpoints := map norm_endpoint (endpoints db),
          contracts := map norm_contract (contracts db)\<rparr>)"
    using assms(4) versions by (simp add: normalize_stored_spec_text_def Let_def)
  have "get_setting (snd (normalize_stored_spec_text T now db)) spec_text_normalized_setting = Some now"
    unfolding first by (simp add: get_set_setting)
  then show ?thesis using first by (simp add: normalize_stored_spec_text_def)
qed

section \<open>A small instance\<close>

definition sample_line :: db where
  "sample_line = snd (sample_run (sample_provide Ga ''1.1.0 /a /b'' ''ann'') sample_released)"

definition sample_diff_request :: diff_request where
  "sample_diff_request = \<lparr>dr_api_type = OpenApi, dr_from = SemVer 1 0 0, dr_to = SemVer 1 1 0, dr_endpoint = None, dr_options = default_diff_options\<rparr>"

lemma sample_line_inv: "catalog_inv sample_line"
  by code_simp

theorem version_diff_is_a_patch_witness:
  "\<exists>d sid m sid' m'. diff_versions prefix_diff sample_line ''api'' sample_diff_request = Inr d \<and> vd_hunks d \<noteq> [] \<and>
     resolve_pin sample_line ''api'' OpenApi (SemVer 1 0 0) = Inr (sid, m) \<and> resolve_pin sample_line ''api'' OpenApi (SemVer 1 1 0) = Inr (sid', m') \<and>
     apply_patch (text_lines (version_text sample_line (v_id m) OpenApi None)) 0 (vd_hunks d) =
       text_lines (version_text sample_line (v_id m') OpenApi None)"
proof -
  have "(case diff_versions prefix_diff sample_line ''api'' sample_diff_request of Inr d \<Rightarrow> vd_hunks d \<noteq> [] | _ \<Rightarrow> False)" by code_simp
  then obtain d where d: "diff_versions prefix_diff sample_line ''api'' sample_diff_request = Inr d" "vd_hunks d \<noteq> []"
    by (auto split: sum.splits)
  have r: "\<not> do_ignore_whitespace (dr_options sample_diff_request)" "dr_api_type sample_diff_request = OpenApi" "dr_endpoint sample_diff_request = None"
    "dr_from sample_diff_request = SemVer 1 0 0" "dr_to sample_diff_request = SemVer 1 1 0"
    by (simp_all add: sample_diff_request_def default_diff_options_def)
  from version_diff_is_a_patch[OF prefix_groups d(1)] d(2) r show ?thesis by (auto intro!: exI[of _ d] d(1))
qed

theorem blame_names_a_holder_witness:
  "\<exists>sid entry blocks. blame_version prefix_diff sample_line ''api'' OpenApi (SemVer 1 1 0) None = Inr blocks \<and>
     resolve_pin sample_line ''api'' OpenApi (SemVer 1 1 0) = Inr (sid, entry) \<and>
     concat (map bb_lines blocks) = text_lines (version_text sample_line (v_id entry) OpenApi None)"
proof -
  have "(case blame_version prefix_diff sample_line ''api'' OpenApi (SemVer 1 1 0) None of Inr _ \<Rightarrow> True | _ \<Rightarrow> False)" by code_simp
  then obtain blocks where b: "blame_version prefix_diff sample_line ''api'' OpenApi (SemVer 1 1 0) None = Inr blocks"
    by (auto split: sum.splits)
  from blame_names_a_holder[OF sample_line_inv prefix_op_fits b] b show ?thesis by blast
qed

definition sample_crlf :: db where
  "sample_crlf = sample_released\<lparr>spec_versions := map (\<lambda>r. r\<lparr>v_content := ''a'' @ [cr, lf] @ ''b''\<rparr>) (spec_versions sample_released)\<rparr>"

theorem stored_texts_are_normalised_witness:
  "map v_content (spec_versions (snd (normalize_stored_spec_text sample_spec ''2026-02-01'' sample_crlf))) = [''a'' @ [lf] @ ''b'']"
proof -
  have ok: "catalog_inv sample_crlf" "endpoints_known sample_crlf" "distinct (map contract_key (contracts sample_crlf))"
    "get_setting sample_crlf spec_text_normalized_setting = None" by code_simp+
  have rows: "map v_content (map (norm_row sample_spec) (spec_versions sample_crlf)) = [''a'' @ [lf] @ ''b'']" by code_simp
  have kept: "spec_versions (set_setting k v db) = spec_versions db" for k v db by (simp add: set_setting_def)
  from stored_texts_are_normalised[OF ok, of sample_spec "''2026-02-01''"] rows show ?thesis by (simp add: kept)
qed

end
