(* ===== verification/Json.thy ===== *)
theory Json
  imports Prelude "HOL-Library.AList"
begin

text \<open>
  A document read without a target type (\<open>Value\<close> and \<open>Mapping\<close> of
  \<open>src/src/yaml.rs\<close>): the values of \<open>serde_json\<close> whose objects keep the order of
  the document. Reading and writing YAML are parameters; what the analyses do with
  a value is defined here.
\<close>

section \<open>Values\<close>

text \<open>A number is its canonical text; nothing computes with it.\<close>

datatype json =
    JNull
  | JBool bool
  | JNumber string
  | JString string
  | JArray "json list"
  | JObject "(string \<times> json) list"

type_synonym fields = "(string \<times> json) list"

definition json_get :: "string \<Rightarrow> json \<Rightarrow> json option" where
  "json_get k v = (case v of JObject fs \<Rightarrow> map_of fs k | _ \<Rightarrow> None)"

definition as_str :: "json \<Rightarrow> string option" where
  "as_str v = (case v of JString s \<Rightarrow> Some s | _ \<Rightarrow> None)"

definition as_bool :: "json \<Rightarrow> bool option" where
  "as_bool v = (case v of JBool b \<Rightarrow> Some b | _ \<Rightarrow> None)"

definition as_array :: "json \<Rightarrow> json list option" where
  "as_array v = (case v of JArray vs \<Rightarrow> Some vs | _ \<Rightarrow> None)"

definition as_object :: "json \<Rightarrow> fields option" where
  "as_object v = (case v of JObject fs \<Rightarrow> Some fs | _ \<Rightarrow> None)"

definition str_at :: "string \<Rightarrow> json \<Rightarrow> string option" where
  "str_at k v = Option.bind (json_get k v) as_str"

definition array_at :: "string \<Rightarrow> json \<Rightarrow> json list option" where
  "array_at k v = Option.bind (json_get k v) as_array"

definition object_at :: "string \<Rightarrow> json \<Rightarrow> fields option" where
  "object_at k v = Option.bind (json_get k v) as_object"

text \<open>
  \<open>Map::insert\<close> replaces in place or appends. \<open>Map::remove\<close> of an order-keeping map
  puts the last entry into the gap.
\<close>

definition insert_field :: "string \<Rightarrow> json \<Rightarrow> fields \<Rightarrow> fields" where
  "insert_field k v fs = AList.update k v fs"

fun swap_remove :: "string \<Rightarrow> fields \<Rightarrow> fields" where
  "swap_remove k [] = []"
| "swap_remove k ((k', v) # fs) =
     (if k' = k then (if fs = [] then [] else List.last fs # butlast fs) else (k', v) # swap_remove k fs)"

text \<open>Two values are equal when their objects have equal values at the same keys, in any order.\<close>

function json_eq :: "json \<Rightarrow> json \<Rightarrow> bool"
  and items_eq :: "json list \<Rightarrow> json list \<Rightarrow> bool"
  and fields_eq :: "fields \<Rightarrow> fields \<Rightarrow> bool" where
  "json_eq v w =
     (case (v, w) of
        (JNull, JNull) \<Rightarrow> True
      | (JBool a, JBool b) \<Rightarrow> a = b
      | (JNumber a, JNumber b) \<Rightarrow> a = b
      | (JString a, JString b) \<Rightarrow> a = b
      | (JArray a, JArray b) \<Rightarrow> items_eq a b
      | (JObject a, JObject b) \<Rightarrow> length a = length b \<and> fields_eq a b
      | _ \<Rightarrow> False)"
| "items_eq [] ws = (ws = [])"
| "items_eq (v # vs) ws = (case ws of [] \<Rightarrow> False | w # ws \<Rightarrow> json_eq v w \<and> items_eq vs ws)"
| "fields_eq [] gs = True"
| "fields_eq ((k, v) # fs) gs = ((case map_of gs k of None \<Rightarrow> False | Some w \<Rightarrow> json_eq v w) \<and> fields_eq fs gs)"
  by pat_completeness auto
termination
  by (relation "measure (case_sum (\<lambda>(v, w). size v) (case_sum (\<lambda>(vs, ws). size_list size vs) (\<lambda>(fs, gs). size_list (size_prod (\<lambda>_. 0) size) fs)))") auto

text \<open>No key twice: the parser refuses such a document.\<close>

fun json_ok :: "json \<Rightarrow> bool" where
  "json_ok (JArray vs) = list_all json_ok vs"
| "json_ok (JObject fs) = (distinct (map fst fs) \<and> list_all (\<lambda>(k, v). json_ok v) fs)"
| "json_ok _ = True"

section \<open>What is inside a value\<close>

lemma size_field: "(k, v) \<in> set fs \<Longrightarrow> size v < size_list (size_prod (\<lambda>_. 0) size) fs"
  by (induction fs) auto

lemma size_get: "json_get k v = Some w \<Longrightarrow> size w < size v"
  by (auto simp: json_get_def split: json.splits dest!: map_of_SomeD size_field)

lemma as_simps [simp]:
  "as_object v = Some fs \<longleftrightarrow> v = JObject fs" "as_str v = Some t \<longleftrightarrow> v = JString t" "as_array v = Some vs \<longleftrightarrow> v = JArray vs"
  "as_bool v = Some b \<longleftrightarrow> v = JBool b"
  by (cases v; auto simp: as_object_def as_str_def as_array_def as_bool_def)+

lemma at_simps:
  "object_at k v = Some fs \<longleftrightarrow> json_get k v = Some (JObject fs)" "str_at k v = Some t \<longleftrightarrow> json_get k v = Some (JString t)"
  "array_at k v = Some vs \<longleftrightarrow> json_get k v = Some (JArray vs)"
  by (simp_all add: object_at_def str_at_def array_at_def bind_eq_Some_conv)

lemma size_object_at: "object_at k v = Some fs \<Longrightarrow> size_list (size_prod (\<lambda>_. 0) size) fs < size v"
  by (auto simp: at_simps dest: size_get)

lemma json_ok_get: "json_ok v \<Longrightarrow> json_get k v = Some w \<Longrightarrow> json_ok w"
  by (auto simp: json_get_def list_all_iff split: json.splits dest!: map_of_SomeD)

lemma json_ok_object_at:
  assumes "json_ok v" "object_at k v = Some fs"
  shows "distinct (map fst fs)" "(n, w) \<in> set fs \<Longrightarrow> json_ok w"
  using json_ok_get[OF assms(1) assms(2)[unfolded at_simps]] by (auto simp: list_all_iff)

text \<open>Equality of values is an equivalence on documents.\<close>

lemma fields_eq_iff: "fields_eq fs gs \<longleftrightarrow> (\<forall>(k, v) \<in> set fs. \<exists>w. map_of gs k = Some w \<and> json_eq v w)"
  by (induction fs) (auto split: option.splits)

lemma items_eq_iff: "items_eq vs ws \<longleftrightarrow> list_all2 json_eq vs ws"
  by (induction vs arbitrary: ws) (auto simp: list_all2_Cons1 split: list.splits)

declare json_eq.simps [simp del]

lemma json_eq_object: "json_eq (JObject fs) w \<longleftrightarrow>
    (\<exists>gs. w = JObject gs \<and> length fs = length gs \<and> (\<forall>(k, v) \<in> set fs. \<exists>w. map_of gs k = Some w \<and> json_eq v w))"
  by (cases w) (auto simp: json_eq.simps fields_eq_iff)

lemma json_eq_array: "json_eq (JArray vs) w \<longleftrightarrow> (\<exists>ws. w = JArray ws \<and> list_all2 json_eq vs ws)"
  by (cases w) (auto simp: json_eq.simps items_eq_iff)

lemma json_eq_leaf: "json_eq JNull w \<longleftrightarrow> w = JNull" "json_eq (JBool b) w \<longleftrightarrow> w = JBool b"
  "json_eq (JNumber t) w \<longleftrightarrow> w = JNumber t" "json_eq (JString t) w \<longleftrightarrow> w = JString t"
  by (cases w; auto simp: json_eq.simps)+

lemmas json_eq_cases = json_eq_object json_eq_array json_eq_leaf

lemma json_eq_refl: "json_ok v \<Longrightarrow> json_eq v v"
  by (induction v rule: json_ok.induct)
    (fastforce simp: json_eq_cases list_all_iff intro: list.rel_refl_strong)+

lemma json_eq_sym: "json_ok v \<Longrightarrow> json_ok w \<Longrightarrow> json_eq v w \<Longrightarrow> json_eq w v"
proof (induction v arbitrary: w rule: json_ok.induct)
  case (1 vs)
  then show ?case
    by (auto simp: json_eq_cases list_all2_conv_all_nth list_all_iff)
next
  case (2 fs)
  from "2.prems"(3) obtain gs where w: "w = JObject gs" "length fs = length gs"
    and each: "\<forall>(k, v) \<in> set fs. \<exists>x. map_of gs k = Some x \<and> json_eq v x" unfolding json_eq_object by blast
  have all: "\<exists>x. map_of gs k = Some x \<and> json_eq v x" if "(k, v) \<in> set fs" for k v using each that by blast
  have d: "distinct (map fst fs)" "distinct (map fst gs)" using "2.prems"(1,2) w by auto
  have "fst ` set fs \<subseteq> fst ` set gs"
  proof
    fix k assume "k \<in> fst ` set fs"
    then obtain v where "(k, v) \<in> set fs" by auto
    from all[OF this] obtain x where "(k, x) \<in> set gs" by (auto dest: map_of_SomeD)
    then show "k \<in> fst ` set gs" by force
  qed
  then have keys: "fst ` set fs = fst ` set gs"
    using d w(2) by (metis List.finite_set card_subset_eq distinct_card finite_imageI length_map list.set_map)
  have "\<exists>v. map_of fs k = Some v \<and> json_eq x v" if x: "(k, x) \<in> set gs" for k x
  proof -
    from x keys obtain v where v: "(k, v) \<in> set fs" by (metis fst_conv imageE image_eqI prod.collapse)
    with all[OF v] x d(2) have "json_eq v x" by auto
    moreover have "json_ok v" "json_ok x" using v x "2.prems"(1,2) w by (auto simp: list_all_iff)
    ultimately show ?thesis using "2.IH"[OF v refl] v d(1) by auto
  qed
  then show ?case using w by (auto simp: json_eq_object)
qed (auto simp: json_eq_cases)

section \<open>Changing an object\<close>

lemma map_of_insert_field: "map_of (insert_field k v fs) k' = (if k' = k then Some v else map_of fs k')"
  by (simp add: insert_field_def update_conv')

lemma map_of_filter_keys: "map_of (filter (\<lambda>(k, v). P k) fs) k = (if P k then map_of fs k else None)"
  by (induction fs) auto

lemma swap_remove_set:
  "distinct (map fst fs) \<Longrightarrow> set (swap_remove k fs) = {(k', v) \<in> set fs. k' \<noteq> k} \<and> distinct (map fst (swap_remove k fs))"
proof (induction fs)
  case (Cons f fs)
  obtain k' v where f: "f = (k', v)" by fastforce
  show ?case
  proof (cases "k' = k \<and> fs \<noteq> []")
    case True
    then have perm: "set (List.last fs # butlast fs) = set fs"
      by (metis append_butlast_last_id insert_is_Un list.simps(15) set_append sup_commute list.set(1))
    moreover have "length (List.last fs # butlast fs) = length fs" using True by simp
    moreover have "distinct fs" using Cons.prems by (simp add: distinct_map)
    ultimately have "distinct (List.last fs # butlast fs)" by (metis card_distinct distinct_card)
    moreover have "inj_on fst (set fs)" using Cons.prems by (simp add: distinct_map)
    ultimately have "distinct (map fst (List.last fs # butlast fs))" using perm by (simp only: distinct_map)
    moreover have "swap_remove k (f # fs) = List.last fs # butlast fs" using True f by simp
    moreover have "(k, w) \<notin> set fs" for w using Cons.prems f True by force
    ultimately show ?thesis using perm f True by auto
  next
    case False
    with Cons f show ?thesis by force
  qed
qed simp

lemma map_of_swap_remove: "distinct (map fst fs) \<Longrightarrow> map_of (swap_remove k fs) k' = (if k' = k then None else map_of fs k')"
proof -
  assume d: "distinct (map fst fs)"
  note s = swap_remove_set[OF d, of k]
  have "map_of (swap_remove k fs) k' = Some v \<longleftrightarrow> k' \<noteq> k \<and> map_of fs k' = Some v" for v
    using s d by (auto simp: map_of_eq_Some_iff)
  then show ?thesis by (metis not_None_eq)
qed

section \<open>Pointers\<close>

text \<open>A segment of a JSON pointer; a pointer into a document. Only objects have members.\<close>

definition unescape :: "string \<Rightarrow> string" where
  "unescape raw = replace_str ''~0'' ''~'' (replace_str ''~1'' ''/'' raw)"

fun json_at :: "string list \<Rightarrow> json \<Rightarrow> json option" where
  "json_at [] v = Some v"
| "json_at (k # ks) v = (case json_get k v of None \<Rightarrow> None | Some w \<Rightarrow> json_at ks w)"

definition resolve_json_pointer :: "json \<Rightarrow> string \<Rightarrow> json option" where
  "resolve_json_pointer root pointer =
     (case strip_prefix ''#/'' pointer of None \<Rightarrow> None
      | Some path \<Rightarrow> json_at (map unescape (split_char (CHR ''/'') path)) root)"

lemma json_ok_at: "json_ok v \<Longrightarrow> json_at ks v = Some w \<Longrightarrow> json_ok w"
  by (induction ks arbitrary: v) (auto split: option.splits dest: json_ok_get)

lemma json_at_append: "json_at (ks @ ks') v = Option.bind (json_at ks v) (json_at ks')"
  by (induction ks arbitrary: v) (auto split: option.splits)

lemma json_ok_pointer: "json_ok root \<Longrightarrow> resolve_json_pointer root p = Some w \<Longrightarrow> json_ok w"
  by (auto simp: resolve_json_pointer_def split: option.splits dest: json_ok_at)

end
