(* ===== verification/Asyncapi.thy ===== *)
theory Asyncapi
  imports Spec_Text Json
begin

text \<open>
  Reading AsyncAPI documents: \<open>src/src/asyncapi.rs\<close>. Splitting into one snippet per
  operation, comparing two documents or payloads, the messages a document
  publishes or subscribes to, and the payload schemas as an OpenAPI document. A
  YAML text and its value are related by the two functions of \<open>yaml_tools\<close>; the
  order in which a \<open>HashMap\<close> is walked is its third.
\<close>

record yaml_tools =
  yaml_read :: "string \<Rightarrow> string + json"
  yaml_write :: "json \<Rightarrow> string + string"
  hash_order :: "fields \<Rightarrow> fields"

text \<open>A loop that stops at the first error; one that also collects.\<close>

fun each :: "('a \<Rightarrow> 'e + unit) \<Rightarrow> 'a list \<Rightarrow> 'e + unit" where
  "each f [] = Inr ()"
| "each f (x # xs) = and_then (f x) (\<lambda>_. each f xs)"

fun collect :: "('a \<Rightarrow> 'e + 'b list) \<Rightarrow> 'a list \<Rightarrow> 'e + 'b list" where
  "collect f [] = Inr []"
| "collect f (x # xs) = and_then (f x) (\<lambda>ys. and_then (collect f xs) (\<lambda>zs. Inr (ys @ zs)))"

lemma collect_Inr: "collect f xs = Inr ys \<Longrightarrow> x \<in> set xs \<Longrightarrow> \<exists>zs. f x = Inr zs \<and> set zs \<subseteq> set ys"
  by (induction xs arbitrary: ys) (fastforce simp: and_then_Inr_iff)+

lemma collect_Inr_only: "collect f xs = Inr ys \<Longrightarrow> y \<in> set ys \<Longrightarrow> \<exists>x \<in> set xs. \<exists>zs. f x = Inr zs \<and> y \<in> set zs"
  by (induction xs arbitrary: ys) (fastforce simp: and_then_Inr_iff)+

definition parsed :: "yaml_tools \<Rightarrow> string \<Rightarrow> string \<Rightarrow> message + json" where
  "parsed Y what doc = map_err (\<lambda>e. Text what [S e]) (yaml_read Y doc)"

definition asyncapi_version :: "json \<Rightarrow> string" where
  "asyncapi_version root = (case str_at ''asyncapi'' root of None \<Rightarrow> [] | Some v \<Rightarrow> v)"

definition is_marked_deprecated :: "json \<Rightarrow> bool" where
  "is_marked_deprecated node \<longleftrightarrow>
     list_ex (\<lambda>key. Option.bind (json_get key node) as_bool = Some True) [''deprecated'', ''x-deprecated'']"

section \<open>Snippets\<close>

definition snippet_text :: "yaml_tools \<Rightarrow> fields \<Rightarrow> message + string" where
  "snippet_text Y snippet = map_err (\<lambda>e. Text ''Failed to serialize AsyncAPI snippet'' [S e]) (yaml_write Y (JObject snippet))"

definition fields_but :: "string list \<Rightarrow> json \<Rightarrow> fields" where
  "fields_but ks root = (case as_object root of None \<Rightarrow> [] | Some fs \<Rightarrow> filter (\<lambda>(k, v). k \<notin> set ks) fs)"

definition snippet_v2 :: "json \<Rightarrow> string \<Rightarrow> json \<Rightarrow> string \<Rightarrow> fields" where
  "snippet_v2 root channel_name channel_value op_key =
     (let other_op = (if op_key = ''publish'' then ''subscribe'' else ''publish'');
          channel_map = swap_remove other_op (case as_object channel_value of None \<Rightarrow> [] | Some fs \<Rightarrow> fs)
      in insert_field ''channels'' (JObject [(channel_name, JObject channel_map)]) (fields_but [''channels''] root))"

definition create_spec_v2 :: "yaml_tools \<Rightarrow> json \<Rightarrow> string \<Rightarrow> string \<Rightarrow> json \<Rightarrow> string \<Rightarrow> message + asyncapi_spec" where
  "create_spec_v2 Y root channel_name operation channel_value op_key =
     and_then (snippet_text Y (snippet_v2 root channel_name channel_value op_key)) (\<lambda>yaml_content.
       Inr \<lparr>as_channel = channel_name, as_operation = operation, as_yaml_content = yaml_content,
            as_deprecated = (case json_get op_key channel_value of None \<Rightarrow> False | Some op \<Rightarrow> is_marked_deprecated op)\<rparr>)"

definition spec_v2_of :: "yaml_tools \<Rightarrow> json \<Rightarrow> string \<Rightarrow> string \<Rightarrow> json \<Rightarrow> string \<Rightarrow> message + asyncapi_spec list" where
  "spec_v2_of Y root channel_name operation channel_value op_key =
     (if json_get op_key channel_value = None then Inr []
      else and_then (create_spec_v2 Y root channel_name operation channel_value op_key) (\<lambda>s. Inr [s]))"

definition split_asyncapi_v2 :: "yaml_tools \<Rightarrow> json \<Rightarrow> message + asyncapi_spec list" where
  "split_asyncapi_v2 Y root =
     (case object_at ''channels'' root of None \<Rightarrow> Inr []
      | Some channels \<Rightarrow> collect (\<lambda>(channel_name, channel_value).
          and_then (spec_v2_of Y root channel_name ''PUB'' channel_value ''publish'') (\<lambda>pubs.
          and_then (spec_v2_of Y root channel_name ''SUB'' channel_value ''subscribe'') (\<lambda>subs. Inr (pubs @ subs)))) channels)"

definition snippet_v3 :: "json \<Rightarrow> string \<Rightarrow> string \<Rightarrow> json \<Rightarrow> fields option \<Rightarrow> fields" where
  "snippet_v3 root channel_key operation op_value channels =
     (let top = fields_but [''channels'', ''operations''] root;
          with_channel = (case Option.bind channels (\<lambda>chs. map_of chs channel_key) of
            None \<Rightarrow> top | Some ch \<Rightarrow> insert_field ''channels'' (JObject [(channel_key, ch)]) top)
      in insert_field ''operations'' (JObject [(to_lowercase operation @ ''_'' @ channel_key, op_value)]) with_channel)"

definition create_spec_v3 ::
    "yaml_tools \<Rightarrow> json \<Rightarrow> string \<Rightarrow> string \<Rightarrow> string \<Rightarrow> json \<Rightarrow> fields option \<Rightarrow> message + asyncapi_spec" where
  "create_spec_v3 Y root channel_key channel_address operation op_value channels =
     and_then (snippet_text Y (snippet_v3 root channel_key operation op_value channels)) (\<lambda>yaml_content.
       Inr \<lparr>as_channel = channel_address, as_operation = operation, as_yaml_content = yaml_content,
            as_deprecated = is_marked_deprecated op_value\<rparr>)"

definition action_operation :: "json \<Rightarrow> message + string" where
  "action_operation op =
     (case str_at ''action'' op of None \<Rightarrow> Inl (Text ''Operation missing the action field'' [])
      | Some action \<Rightarrow>
          if action = ''send'' then Inr ''PUB'' else if action = ''receive'' then Inr ''SUB''
          else Inl (Text ''Unknown operation action'' [S action]))"

definition channel_ref :: "json \<Rightarrow> string option" where
  "channel_ref op = Option.bind (json_get ''channel'' op) (str_at ''$ref'')"

definition channel_key_of :: "json \<Rightarrow> message + string" where
  "channel_key_of op =
     (case channel_ref op of None \<Rightarrow> Inl (Text ''Operation missing channel.$ref'' [])
      | Some r \<Rightarrow> (case strip_prefix ''#/channels/'' r of None \<Rightarrow> Inl (Text ''Unsupported channel $ref'' [S r]) | Some key \<Rightarrow> Inr key))"

definition address_of :: "json option \<Rightarrow> string \<Rightarrow> string" where
  "address_of channel key = (case Option.bind channel (str_at ''address'') of None \<Rightarrow> key | Some a \<Rightarrow> a)"

definition split_asyncapi_v3 :: "yaml_tools \<Rightarrow> json \<Rightarrow> message + asyncapi_spec list" where
  "split_asyncapi_v3 Y root =
     (case object_at ''operations'' root of None \<Rightarrow> Inl (Text ''AsyncAPI 3.x document has no operations section'' [])
      | Some operations \<Rightarrow>
          let channels = object_at ''channels'' root in
          collect (\<lambda>(_, op).
            and_then (action_operation op) (\<lambda>operation.
            and_then (channel_key_of op) (\<lambda>key.
            and_then (create_spec_v3 Y root key (address_of (Option.bind channels (\<lambda>chs. map_of chs key)) key) operation op channels)
              (\<lambda>s. Inr [s])))) operations)"

definition split_asyncapi_doc :: "yaml_tools \<Rightarrow> string \<Rightarrow> message + asyncapi_spec list" where
  "split_asyncapi_doc Y doc =
     and_then (parsed Y ''Failed to parse AsyncAPI YAML'' doc) (\<lambda>root.
       if starts_with ''3.'' (asyncapi_version root) then split_asyncapi_v3 Y root else split_asyncapi_v2 Y root)"

section \<open>Comparing schemas\<close>

datatype schema_mismatch =
    RefChanged string string string
  | TypeChanged string string string
  | PropertyMissing string

definition changed :: "string \<Rightarrow> json \<Rightarrow> json \<Rightarrow> (string \<times> string) option" where
  "changed key old new =
     (case (str_at key old, str_at key new) of (Some a, Some b) \<Rightarrow> if a = b then None else Some (a, b) | _ \<Rightarrow> None)"

function find_schema_mismatch :: "string \<Rightarrow> json \<Rightarrow> json \<Rightarrow> schema_mismatch + unit"
  and properties_mismatch :: "string \<Rightarrow> fields \<Rightarrow> fields option \<Rightarrow> schema_mismatch + unit" where
  "find_schema_mismatch path old new =
     (case changed ''$ref'' old new of Some (a, b) \<Rightarrow> Inl (RefChanged path a b)
      | None \<Rightarrow>
     (case changed ''type'' old new of Some (a, b) \<Rightarrow> Inl (TypeChanged path a b)
      | None \<Rightarrow>
     (case (case object_at ''properties'' old of None \<Rightarrow> Inr ()
            | Some old_props \<Rightarrow> properties_mismatch path old_props (object_at ''properties'' new)) of
        Inl m \<Rightarrow> Inl m
      | Inr _ \<Rightarrow>
     (case json_get ''items'' old of None \<Rightarrow> Inr ()
      | Some old_items \<Rightarrow>
     (case json_get ''items'' new of None \<Rightarrow> Inr ()
      | Some new_items \<Rightarrow> find_schema_mismatch (path @ ''[]'') old_items new_items)))))"
| "properties_mismatch path [] new_props = Inr ()"
| "properties_mismatch path ((prop_name, old_prop) # props) new_props =
     (case (case Option.bind new_props (\<lambda>ps. map_of ps prop_name) of
              None \<Rightarrow> if is_marked_deprecated old_prop then Inr () else Inl (PropertyMissing (path @ ''.'' @ prop_name))
            | Some new_prop \<Rightarrow> find_schema_mismatch (path @ ''.'' @ prop_name) old_prop new_prop) of
        Inl m \<Rightarrow> Inl m
      | Inr _ \<Rightarrow> properties_mismatch path props new_props)"
  by pat_completeness auto
termination
  by (relation "measure (case_sum (\<lambda>(p, v, w). size v) (\<lambda>(p, fs, gs). size_list (size_prod (\<lambda>_. 0) size) fs))")
    (auto dest: size_get size_object_at)

declare find_schema_mismatch.simps [simp del]

definition compatibility_text :: "schema_mismatch \<Rightarrow> message" where
  "compatibility_text m =
     (case m of RefChanged p a b \<Rightarrow> Text ''changed $ref'' [S p, S a, S b]
      | TypeChanged p a b \<Rightarrow> Text ''changed type'' [S p, S a, S b]
      | PropertyMissing p \<Rightarrow> Text ''Property was removed'' [S p])"

definition check_schema_compatible :: "string \<Rightarrow> json \<Rightarrow> json \<Rightarrow> message + unit" where
  "check_schema_compatible path old new = map_err compatibility_text (find_schema_mismatch path old new)"

text \<open>
  The messages of a document by a stable key. \<open>HashMap::insert\<close> overrides: a later
  message with the same key is the one compared.
\<close>

definition message_label :: "string \<Rightarrow> string \<Rightarrow> json \<Rightarrow> string option" where
  "message_label key other message = Option.bind (case json_get key message of None \<Rightarrow> json_get other message | Some v \<Rightarrow> Some v) as_str"

definition message_key :: "string \<Rightarrow> string \<Rightarrow> json \<Rightarrow> nat \<Rightarrow> string" where
  "message_key channel op_key message index =
     (case message_label ''name'' ''title'' message of
        Some nm \<Rightarrow> channel @ ''/'' @ op_key @ ''/'' @ nm
      | None \<Rightarrow> channel @ ''/'' @ op_key @ ''/#'' @ show_nat index)"

definition variants_of :: "json \<Rightarrow> json list" where
  "variants_of message = (case array_at ''oneOf'' message of None \<Rightarrow> [message] | Some vs \<Rightarrow> vs)"

definition message_at :: "string \<Rightarrow> json \<Rightarrow> json option" where
  "message_at op_key channel = Option.bind (json_get op_key channel) (json_get ''message'')"

definition channel_messages :: "string \<times> json \<Rightarrow> fields" where
  "channel_messages = (\<lambda>(channel_name, channel).
     (case object_at ''messages'' channel of None \<Rightarrow> []
      | Some ms \<Rightarrow> map (\<lambda>(message_name, message). (channel_name @ ''/'' @ message_name, message)) ms) @
     concat (map (\<lambda>op_key.
       case message_at op_key channel of None \<Rightarrow> []
       | Some message \<Rightarrow> map (\<lambda>(index, v). (message_key channel_name op_key v index, v)) (enumerate 0 (variants_of message)))
       [''publish'', ''subscribe'']))"

definition collect_messages :: "json \<Rightarrow> fields" where
  "collect_messages root =
     (case object_at ''channels'' root of None \<Rightarrow> []
      | Some channels \<Rightarrow> fold (\<lambda>(k, m). AList.update k m) (concat (map channel_messages channels)) [])"

definition message_compatible :: "fields \<Rightarrow> string \<times> json \<Rightarrow> message + unit" where
  "message_compatible new_messages = (\<lambda>(name, old_message).
     (case map_of new_messages name of
        None \<Rightarrow> if is_marked_deprecated old_message then Inr () else Inl (Text ''Message was removed'' [S name])
      | Some new_message \<Rightarrow>
          (case (json_get ''payload'' old_message, json_get ''payload'' new_message) of
             (Some old_payload, Some new_payload) \<Rightarrow> check_schema_compatible (name @ ''.payload'') old_payload new_payload
           | (Some _, None) \<Rightarrow> Inl (Text ''Payload of message was removed'' [S name])
           | _ \<Rightarrow> Inr ())))"

definition documents_compatible :: "yaml_tools \<Rightarrow> json \<Rightarrow> json \<Rightarrow> message + unit" where
  "documents_compatible Y old new = each (message_compatible (collect_messages new)) (hash_order Y (collect_messages old))"

definition check_backward_compatibility :: "yaml_tools \<Rightarrow> string \<Rightarrow> string \<Rightarrow> message + unit" where
  "check_backward_compatibility Y old_yaml new_yaml =
     and_then (parsed Y ''Failed to parse old AsyncAPI YAML'' old_yaml) (\<lambda>old.
     and_then (parsed Y ''Failed to parse new AsyncAPI YAML'' new_yaml) (\<lambda>new. documents_compatible Y old new))"

definition asyncapi_analyze_impact :: "yaml_tools \<Rightarrow> string \<Rightarrow> string \<Rightarrow> impact" where
  "asyncapi_analyze_impact Y old_yaml new_yaml =
     (if check_backward_compatibility Y old_yaml new_yaml \<noteq> Inr () then Major
      else if check_backward_compatibility Y new_yaml old_yaml \<noteq> Inr () then Minor
      else if old_yaml \<noteq> new_yaml then Patch else ImpactNone)"

section \<open>Payloads\<close>

definition check_payload_compatible_yaml :: "yaml_tools \<Rightarrow> string \<Rightarrow> string \<Rightarrow> message + unit" where
  "check_payload_compatible_yaml Y old_payload_yaml new_payload_yaml =
     and_then (parsed Y ''Failed to parse stored payload'' old_payload_yaml) (\<lambda>old.
     and_then (parsed Y ''Failed to parse submitted payload'' new_payload_yaml) (\<lambda>new.
       check_schema_compatible ''payload'' old new))"

definition expectation_text :: "schema_mismatch \<Rightarrow> message" where
  "expectation_text m =
     (case m of PropertyMissing p \<Rightarrow> Text ''Consumer expects property, which the contract does not provide'' [S p]
      | TypeChanged p a b \<Rightarrow> Text ''Consumer expects type, but the contract provides'' [S p, S a, S b]
      | RefChanged p a b \<Rightarrow> Text ''Consumer expects $ref, but the contract provides'' [S p, S a, S b])"

definition check_expectation :: "yaml_tools \<Rightarrow> string \<Rightarrow> string \<Rightarrow> message + unit" where
  "check_expectation Y contract_yaml expectation_yaml =
     and_then (parsed Y ''Failed to parse contract payload'' contract_yaml) (\<lambda>contract.
     and_then (parsed Y ''Failed to parse expectation payload'' expectation_yaml) (\<lambda>expectation.
       map_err expectation_text (find_schema_mismatch ''payload'' expectation contract)))"

definition payloads_equal_yaml :: "yaml_tools \<Rightarrow> string \<Rightarrow> string \<Rightarrow> bool" where
  "payloads_equal_yaml Y a_yaml b_yaml =
     (case (yaml_read Y a_yaml, yaml_read Y b_yaml) of (Inr a, Inr b) \<Rightarrow> json_eq a b | _ \<Rightarrow> False)"

section \<open>What a document publishes and subscribes to\<close>

datatype direction = Pub | Sub

definition v2_keyword :: "direction \<Rightarrow> string" where
  "v2_keyword dir = (case dir of Pub \<Rightarrow> ''publish'' | Sub \<Rightarrow> ''subscribe'')"

definition v3_action :: "direction \<Rightarrow> string" where
  "v3_action dir = (case dir of Pub \<Rightarrow> ''send'' | Sub \<Rightarrow> ''receive'')"

definition pub_message_from_node :: "yaml_tools \<Rightarrow> string \<Rightarrow> bool \<Rightarrow> json \<Rightarrow> pub_message option" where
  "pub_message_from_node Y channel op_deprecated message =
     (case message_label ''name'' ''title'' message of None \<Rightarrow> None
      | Some nm \<Rightarrow>
          (case yaml_write Y (case json_get ''payload'' message of None \<Rightarrow> JNull | Some p \<Rightarrow> p) of Inl _ \<Rightarrow> None
           | Inr payload_yaml \<Rightarrow> Some \<lparr>m_channel = channel, m_message_name = nm, m_payload_yaml = payload_yaml,
               m_deprecated = op_deprecated \<or> is_marked_deprecated message\<rparr>))"

definition messages_of_channel_v2 :: "yaml_tools \<Rightarrow> direction \<Rightarrow> string \<times> json \<Rightarrow> pub_message list" where
  "messages_of_channel_v2 Y dir = (\<lambda>(channel, channel_value).
     (case json_get (v2_keyword dir) channel_value of None \<Rightarrow> []
      | Some operation \<Rightarrow>
          (case json_get ''message'' operation of None \<Rightarrow> []
           | Some message \<Rightarrow>
               List.map_filter (pub_message_from_node Y channel (is_marked_deprecated operation)) (variants_of message))))"

definition extract_messages_v2 :: "yaml_tools \<Rightarrow> json \<Rightarrow> direction \<Rightarrow> pub_message list" where
  "extract_messages_v2 Y root dir =
     (case object_at ''channels'' root of None \<Rightarrow> []
      | Some channels \<Rightarrow> concat (map (messages_of_channel_v2 Y dir) channels))"

definition message_nodes_v3 :: "json \<Rightarrow> json \<Rightarrow> json option \<Rightarrow> json list" where
  "message_nodes_v3 root op channel_node =
     (case array_at ''messages'' op of
        Some refs \<Rightarrow> List.map_filter (\<lambda>m. Option.bind (str_at ''$ref'' m) (resolve_json_pointer root)) refs
      | None \<Rightarrow> (case Option.bind channel_node (object_at ''messages'') of None \<Rightarrow> [] | Some ms \<Rightarrow> map snd ms))"

definition messages_of_operation_v3 :: "yaml_tools \<Rightarrow> json \<Rightarrow> direction \<Rightarrow> string \<times> json \<Rightarrow> pub_message list" where
  "messages_of_operation_v3 Y root dir = (\<lambda>(_, op).
     if str_at ''action'' op \<noteq> Some (v3_action dir) then []
     else (case Option.bind (channel_ref op) (strip_prefix ''#/channels/'') of None \<Rightarrow> []
       | Some key \<Rightarrow>
           let channel_node = Option.bind (json_get ''channels'' root) (json_get key) in
           List.map_filter (pub_message_from_node Y (address_of channel_node key) (is_marked_deprecated op))
             (message_nodes_v3 root op channel_node)))"

definition extract_messages_v3 :: "yaml_tools \<Rightarrow> json \<Rightarrow> direction \<Rightarrow> pub_message list" where
  "extract_messages_v3 Y root dir =
     (case object_at ''operations'' root of None \<Rightarrow> []
      | Some operations \<Rightarrow> concat (map (messages_of_operation_v3 Y root dir) operations))"

definition extract_messages :: "yaml_tools \<Rightarrow> direction \<Rightarrow> string \<Rightarrow> message + pub_message list" where
  "extract_messages Y dir doc =
     and_then (parsed Y ''Failed to parse AsyncAPI YAML'' doc) (\<lambda>root.
       Inr (if starts_with ''3.'' (asyncapi_version root) then extract_messages_v3 Y root dir else extract_messages_v2 Y root dir))"

section \<open>Payload schemas as an OpenAPI document\<close>

record kept_message =
  km_key :: "string option"
  km_node :: json
  km_location :: string

definition ref_of :: "json \<Rightarrow> string option" where
  "ref_of node = str_at ''$ref'' node"

definition last_pointer_segment :: "string \<Rightarrow> string" where
  "last_pointer_segment pointer = unescape (List.last (split_char (CHR ''/'') pointer))"

definition resolve_local_ref :: "json \<Rightarrow> string \<Rightarrow> string \<Rightarrow> message + json" where
  "resolve_local_ref root reference location =
     (if \<not> starts_with ''#/'' reference then Inl (Text ''external $ref is not supported by format=openapi'' [S location, S reference])
      else (case resolve_json_pointer root reference of
              None \<Rightarrow> Inl (Text ''$ref does not resolve'' [S location, S reference]) | Some v \<Rightarrow> Inr v))"

text \<open>The bounded walk of \<open>deref\<close>: as many steps as are left.\<close>

fun deref_steps :: "nat \<Rightarrow> json \<Rightarrow> json \<Rightarrow> string \<Rightarrow> message + json" where
  "deref_steps 0 root node location = Inl (Text ''$ref chain is too long or cyclic'' [S location])"
| "deref_steps (Suc n) root node location =
     (case ref_of node of None \<Rightarrow> Inr node
      | Some reference \<Rightarrow> and_then (resolve_local_ref root reference location) (\<lambda>next_node. deref_steps n root next_node location))"

definition deref :: "json \<Rightarrow> json \<Rightarrow> string \<Rightarrow> message + json" where
  "deref root node location = deref_steps 32 root node location"

definition kept_at :: "json \<Rightarrow> string \<Rightarrow> (json \<Rightarrow> string option) \<Rightarrow> json \<Rightarrow> message + kept_message list" where
  "kept_at root location key_of m =
     and_then (deref root m location) (\<lambda>node. Inr [\<lparr>km_key = key_of node, km_node = node, km_location = location\<rparr>])"

definition kept_variant :: "json \<Rightarrow> string \<Rightarrow> json \<Rightarrow> message + kept_message list" where
  "kept_variant root location variant =
     kept_at root location (\<lambda>node. case ref_of variant of Some r \<Rightarrow> Some (last_pointer_segment r)
       | None \<Rightarrow> message_label ''messageId'' ''name'' node) variant"

definition kept_of_op_key :: "json \<Rightarrow> string \<Rightarrow> json \<Rightarrow> string \<Rightarrow> message + kept_message list" where
  "kept_of_op_key root channel_name channel op_key =
     (case message_at op_key channel of None \<Rightarrow> Inr []
      | Some message \<Rightarrow> collect (kept_variant root (channel_name @ '' '' @ op_key)) (variants_of message))"

definition kept_messages_v2 :: "json \<Rightarrow> message + kept_message list" where
  "kept_messages_v2 root =
     (case object_at ''channels'' root of None \<Rightarrow> Inr []
      | Some channels \<Rightarrow> collect (\<lambda>(channel_name, channel).
          collect (kept_of_op_key root channel_name channel) [''publish'', ''subscribe'']) channels)"

definition kept_of_operation :: "json \<Rightarrow> string \<Rightarrow> json \<Rightarrow> message + kept_message list" where
  "kept_of_operation root location op =
     (case array_at ''messages'' op of
        Some refs \<Rightarrow> collect (\<lambda>m. kept_at root location (\<lambda>_. map_option last_pointer_segment (ref_of m)) m) refs
      | None \<Rightarrow>
          (case json_get ''channel'' op of None \<Rightarrow> Inr []
           | Some channel \<Rightarrow> and_then (deref root channel location) (\<lambda>channel.
               case object_at ''messages'' channel of None \<Rightarrow> Inr []
               | Some ms \<Rightarrow> collect (\<lambda>(key, m). kept_at root (location @ '' message '' @ key) (\<lambda>_. Some key) m) ms)))"

definition kept_messages_v3 :: "json \<Rightarrow> message + kept_message list" where
  "kept_messages_v3 root =
     (case object_at ''operations'' root of None \<Rightarrow> Inr []
      | Some operations \<Rightarrow> collect (\<lambda>(op_name, op). kept_of_operation root (''operation '' @ op_name) op) operations)"

definition kept_messages :: "json \<Rightarrow> message + kept_message list" where
  "kept_messages root = (if starts_with ''3.'' (asyncapi_version root) then kept_messages_v3 root else kept_messages_v2 root)"

definition is_asyncapi_schema_format :: "string \<Rightarrow> bool" where
  "is_asyncapi_schema_format format = starts_with ''application/vnd.aai.asyncapi'' format"

definition check_schema_format :: "json \<Rightarrow> string \<Rightarrow> message + unit" where
  "check_schema_format node location =
     (case str_at ''schemaFormat'' node of
        Some format \<Rightarrow> if is_asyncapi_schema_format format then Inr ()
                       else Inl (Text ''payload schemaFormat cannot be converted'' [S location, S format])
      | None \<Rightarrow> Inr ())"

definition component_name :: "string \<Rightarrow> string" where
  "component_name key =
     map (\<lambda>w. case w of [c] \<Rightarrow> (if is_ascii_alphanumeric c \<or> c \<in> {CHR ''.'', CHR ''_'', CHR ''-''} then c else CHR ''_'') | _ \<Rightarrow> CHR ''_'')
       (chars key)"

definition schemas_prefix :: string where "schemas_prefix = ''#/components/schemas/''"

text \<open>
  What a reference of a schema pulls in: the name and node to carry over, and the
  new text of the reference when it pointed elsewhere.
\<close>

definition pull_reference :: "json \<Rightarrow> string \<Rightarrow> string \<Rightarrow> message + (string option \<times> (string \<times> json))" where
  "pull_reference root location reference =
     and_then (resolve_local_ref root reference location) (\<lambda>target.
       case strip_prefix schemas_prefix reference of
         Some rest \<Rightarrow>
           (let segment = hd (split_char (CHR ''/'') rest) in
            and_then (resolve_local_ref root (schemas_prefix @ segment) location) (\<lambda>whole. Inr (None, (unescape segment, whole))))
       | None \<Rightarrow>
           (let name = component_name (last_pointer_segment reference) in Inr (Some (schemas_prefix @ name), (name, target))))"

definition own_reference :: "json \<Rightarrow> string \<Rightarrow> fields \<Rightarrow> message + (string option \<times> (string \<times> json) list)" where
  "own_reference root location fs =
     (case str_at ''$ref'' (JObject fs) of None \<Rightarrow> Inr (None, [])
      | Some reference \<Rightarrow> and_then (pull_reference root location reference) (\<lambda>(text', pulled). Inr (text', [pulled])))"

function rewrite_refs :: "json \<Rightarrow> string \<Rightarrow> json \<Rightarrow> message + (json \<times> (string \<times> json) list)"
  and rewrite_fields :: "json \<Rightarrow> string \<Rightarrow> string option \<Rightarrow> fields \<Rightarrow> message + (fields \<times> (string \<times> json) list)"
  and rewrite_items :: "json \<Rightarrow> string \<Rightarrow> json list \<Rightarrow> message + (json list \<times> (string \<times> json) list)" where
  "rewrite_refs root location node =
     (case node of
        JObject fs \<Rightarrow>
          (case own_reference root location fs of Inl e \<Rightarrow> Inl e
           | Inr (new_ref, pulled) \<Rightarrow>
               (case rewrite_fields root location new_ref fs of Inl e \<Rightarrow> Inl e
                | Inr (fs', pending) \<Rightarrow> Inr (JObject fs', pulled @ pending)))
      | JArray vs \<Rightarrow>
          (case rewrite_items root location vs of Inl e \<Rightarrow> Inl e | Inr (vs', pending) \<Rightarrow> Inr (JArray vs', pending))
      | _ \<Rightarrow> Inr (node, []))"
| "rewrite_fields root location new_ref [] = Inr ([], [])"
| "rewrite_fields root location new_ref ((k, v) # fs) =
     (case (if k = ''$ref'' then Inr (case new_ref of None \<Rightarrow> v | Some r \<Rightarrow> JString r, []) else rewrite_refs root location v) of
        Inl e \<Rightarrow> Inl e
      | Inr (v', pending) \<Rightarrow>
          (case rewrite_fields root location new_ref fs of Inl e \<Rightarrow> Inl e
           | Inr (fs', further) \<Rightarrow> Inr ((k, v') # fs', pending @ further)))"
| "rewrite_items root location [] = Inr ([], [])"
| "rewrite_items root location (v # vs) =
     (case rewrite_refs root location v of Inl e \<Rightarrow> Inl e
      | Inr (v', pending) \<Rightarrow>
          (case rewrite_items root location vs of Inl e \<Rightarrow> Inl e
           | Inr (vs', further) \<Rightarrow> Inr (v' # vs', pending @ further)))"
  by pat_completeness auto
termination
  by (relation "measure (case_sum (\<lambda>(r, l, v). size v)
        (case_sum (\<lambda>(r, l, n, fs). size_list (size_prod (\<lambda>_. 0) size) fs) (\<lambda>(r, l, vs). size_list size vs)))") auto

declare rewrite_refs.simps [simp del]

text \<open>
  The names a document can pull in: every string in it, read as a reference. They
  bound the worklist of \<open>insert_schema\<close>.
\<close>

fun strings_of :: "json \<Rightarrow> string set" where
  "strings_of (JString t) = {t}"
| "strings_of (JArray vs) = \<Union> (set (map strings_of vs))"
| "strings_of (JObject fs) = \<Union> (set (map (\<lambda>(k, v). strings_of v) fs))"
| "strings_of _ = {}"

definition pulled_name :: "string \<Rightarrow> string" where
  "pulled_name reference =
     (case strip_prefix schemas_prefix reference of
        Some rest \<Rightarrow> unescape (hd (split_char (CHR ''/'') rest))
      | None \<Rightarrow> component_name (last_pointer_segment reference))"

definition names_of :: "json \<Rightarrow> string set" where
  "names_of v = pulled_name ` strings_of v"

lemma finite_strings_of [simp]: "finite (strings_of v)"
  by (induction v rule: strings_of.induct) auto

lemma finite_names_of [simp]: "finite (names_of v)"
  by (simp add: names_of_def)

lemma strings_of_get: "json_get k v = Some w \<Longrightarrow> strings_of w \<subseteq> strings_of v"
  by (auto simp: json_get_def split: json.splits dest!: map_of_SomeD) 

lemma strings_of_at: "json_at ks v = Some w \<Longrightarrow> strings_of w \<subseteq> strings_of v"
  by (induction ks arbitrary: v) (auto split: option.splits dest!: strings_of_get)

lemma strings_of_ref: "resolve_local_ref root r l = Inr v \<Longrightarrow> strings_of v \<subseteq> strings_of root"
  by (auto simp: resolve_local_ref_def resolve_json_pointer_def split: if_splits option.splits dest: strings_of_at)

lemma pull_reference_name:
  "pull_reference root l r = Inr (t, (n, v)) \<Longrightarrow> n = pulled_name r \<and> strings_of v \<subseteq> strings_of root"
  by (auto simp: pull_reference_def pulled_name_def Let_def and_then_Inr_iff split: option.splits dest: strings_of_ref)

lemma own_reference_names:
  assumes "own_reference root l fs = Inr (t, ps)" "(n, v) \<in> set ps"
  shows "n \<in> names_of (JObject fs) \<and> strings_of v \<subseteq> strings_of root"
proof -
  from assms obtain r where r: "str_at ''$ref'' (JObject fs) = Some r" and pull: "pull_reference root l r = Inr (t, (n, v))"
    by (auto simp: own_reference_def and_then_Inr_iff split: option.splits)
  from r have "r \<in> strings_of (JObject fs)" by (auto simp: at_simps dest!: strings_of_get)
  with pull_reference_name[OF pull] show ?thesis by (auto simp: names_of_def)
qed

lemma rewrite_names:
  "rewrite_refs root l node = Inr (node', ps) \<Longrightarrow> (n, v) \<in> set ps \<Longrightarrow> n \<in> names_of node \<and> strings_of v \<subseteq> strings_of root"
  "rewrite_fields root l t fs = Inr (fs', ps) \<Longrightarrow> (n, v) \<in> set ps \<Longrightarrow> n \<in> names_of (JObject fs) \<and> strings_of v \<subseteq> strings_of root"
  "rewrite_items root l vs = Inr (vs', ps) \<Longrightarrow> (n, v) \<in> set ps \<Longrightarrow> n \<in> names_of (JArray vs) \<and> strings_of v \<subseteq> strings_of root"
proof (induction root l node and root l t fs and root l vs arbitrary: node' ps and fs' ps and vs' ps
    rule: rewrite_refs_rewrite_fields_rewrite_items.induct)
  case (1 root l node)
  then show ?case
    by (subst (asm) rewrite_refs.simps)
      (fastforce split: json.splits sum.splits dest: own_reference_names)
next
  case (3 root l t k v fs)
  then show ?case by (fastforce simp: names_of_def split: sum.splits if_splits)
next
  case (5 root l v vs)
  then show ?case by (fastforce simp: names_of_def split: sum.splits)
qed auto

text \<open>The names still to come while a worklist is left.\<close>

definition work_names :: "(string \<times> json) list \<Rightarrow> string set" where
  "work_names work = (\<Union>(n, v) \<in> set work. insert n (names_of v))"

definition names_left :: "json \<Rightarrow> (string \<times> json) list \<Rightarrow> fields \<Rightarrow> string set" where
  "names_left root work schemas = (names_of root \<union> work_names work) - fst ` set schemas"

lemma work_names_simps [simp]:
  "work_names [] = {}" "work_names ((n, v) # work) = insert n (names_of v) \<union> work_names work"
  "work_names (work @ work') = work_names work \<union> work_names work'"
  by (auto simp: work_names_def)

lemma finite_names_left: "finite (names_left root work schemas)"
  by (auto simp: names_left_def work_names_def)

lemma fewer_names_left:
  assumes "rewrite_refs root l schema = Inr (schema', pending)" "map_of schemas name = None"
  shows "names_left root (pending @ work) ((name, schema') # schemas) \<subset> names_left root ((name, schema) # work) schemas"
proof -
  have "names_of v \<subseteq> names_of root \<and> n \<in> names_of schema" if "(n, v) \<in> set pending" for n v
    using rewrite_names(1)[OF assms(1) that] by (auto simp: names_of_def)
  then have "work_names pending \<subseteq> names_of schema \<union> names_of root" unfolding work_names_def by blast
  moreover have "name \<notin> fst ` set schemas" using assms(2) by (simp add: map_of_eq_None_iff)
  ultimately show ?thesis unfolding names_left_def work_names_simps by auto
qed

lemma names_left_work: "card (names_left root work schemas) \<le> card (names_left root ((name, schema) # work) schemas)"
  by (rule card_mono[OF finite_names_left]) (auto simp: names_left_def)

text \<open>
  \<open>insert_schema\<close>: the schemas still to be added, the first one first; what one
  pulls in comes before the rest. A schema goes in under its name with its
  references rewritten; an equal one there already ends that branch, a different
  one is a clash. The map is kept as its entries.
\<close>

function insert_schemas :: "json \<Rightarrow> string \<Rightarrow> (string \<times> json) list \<Rightarrow> fields \<Rightarrow> message + fields" where
  "insert_schemas root location [] schemas = Inr schemas"
| "insert_schemas root location ((name, schema) # work) schemas =
     (case rewrite_refs root location schema of Inl e \<Rightarrow> Inl e
      | Inr (schema', pending) \<Rightarrow>
          (case map_of schemas name of
             Some existing \<Rightarrow>
               if json_eq existing schema' then insert_schemas root location work schemas
               else Inl (Text ''two different schemas would both be named'' [S location, S name])
           | None \<Rightarrow> insert_schemas root location (pending @ work) ((name, schema') # schemas)))"
  by pat_completeness auto
termination
  by (relation "measures [\<lambda>(root, l, work, schemas). card (names_left root work schemas), \<lambda>(root, l, work, schemas). length work]")
    (auto simp: le_less[symmetric] names_left_work intro: psubset_card_mono[OF finite_names_left fewer_names_left])

text \<open>The payload of a message; in the Multi Format form it is inside \<open>schema\<close>.\<close>

definition plain_payload :: "json \<Rightarrow> string \<Rightarrow> message + json" where
  "plain_payload payload location =
     (case (json_get ''schemaFormat'' payload, json_get ''schema'' payload) of
        (Some _, Some schema) \<Rightarrow> and_then (check_schema_format payload location) (\<lambda>_. Inr schema)
      | _ \<Rightarrow> Inr payload)"

definition shared_schema :: "json \<Rightarrow> (string \<times> string) option" where
  "shared_schema payload =
     (case ref_of payload of None \<Rightarrow> None
      | Some reference \<Rightarrow>
          (case strip_prefix schemas_prefix reference of None \<Rightarrow> None
           | Some name \<Rightarrow> if CHR ''/'' \<in> set name then None else Some (reference, name)))"

text \<open>The name and the schema a payload goes in under: its own name when it is shared, the message's otherwise.\<close>

definition named_payload :: "json \<Rightarrow> kept_message \<Rightarrow> json \<Rightarrow> message + (string \<times> json)" where
  "named_payload root message payload =
     (case shared_schema payload of
        Some (reference, name) \<Rightarrow>
          and_then (resolve_local_ref root reference (km_location message)) (\<lambda>target. Inr (unescape name, target))
      | None \<Rightarrow>
          (case km_key message of
             None \<Rightarrow> Inl (Text ''an inline payload needs a message key to be named'' [S (km_location message)])
           | Some key \<Rightarrow> Inr (component_name key @ ''Payload'', payload)))"

definition add_message_payload :: "json \<Rightarrow> kept_message \<Rightarrow> fields \<Rightarrow> message + fields" where
  "add_message_payload root message schemas =
     and_then (check_schema_format (km_node message) (km_location message)) (\<lambda>_.
       case json_get ''payload'' (km_node message) of None \<Rightarrow> Inr schemas
       | Some declared \<Rightarrow>
           and_then (plain_payload declared (km_location message)) (\<lambda>payload.
           and_then (named_payload root message payload) (\<lambda>named.
             insert_schemas root (km_location message) [named] schemas)))"

fun add_messages :: "json \<Rightarrow> kept_message list \<Rightarrow> fields \<Rightarrow> message + fields" where
  "add_messages root [] schemas = Inr schemas"
| "add_messages root (m # ms) schemas = and_then (add_message_payload root m schemas) (add_messages root ms)"

fun add_snippets :: "yaml_tools \<Rightarrow> string list \<Rightarrow> fields \<Rightarrow> message + fields" where
  "add_snippets Y [] schemas = Inr schemas"
| "add_snippets Y (snippet # snippets) schemas =
     and_then (parsed Y ''Failed to parse AsyncAPI YAML'' snippet) (\<lambda>root.
     and_then (kept_messages root) (\<lambda>ms.
     and_then (add_messages root ms schemas) (add_snippets Y snippets)))"

definition schemas_document :: "fields \<Rightarrow> string \<Rightarrow> string \<Rightarrow> json" where
  "schemas_document schemas service version = JObject
     [(''openapi'', JString ''3.0.3''),
      (''info'', JObject [(''title'', JString (service @ '' message schemas'')), (''version'', JString version)]),
      (''paths'', JObject []),
      (''components'', JObject [(''schemas'', JObject (sort_key fst schemas))])]"

definition openapi_schemas :: "yaml_tools \<Rightarrow> string list \<Rightarrow> string \<Rightarrow> string \<Rightarrow> message + string" where
  "openapi_schemas Y snippets service version =
     and_then (add_snippets Y snippets []) (\<lambda>schemas.
       map_err (\<lambda>e. Text ''Failed to serialize OpenAPI document'' [S e]) (yaml_write Y (schemas_document schemas service version)))"

section \<open>The analyses the services call\<close>

definition asyncapi_analyses :: "yaml_tools \<Rightarrow> spec_tools \<Rightarrow> spec_tools" where
  "asyncapi_analyses Y T = T\<lparr>split_asyncapi := split_asyncapi_doc Y,
     asyncapi_compatibility := check_backward_compatibility Y,
     extract_pub_messages := extract_messages Y Pub, extract_sub_messages := extract_messages Y Sub,
     check_payload_compatible := check_payload_compatible_yaml Y, check_expectation_satisfied := check_expectation Y,
     payloads_equal := payloads_equal_yaml Y, to_openapi_schemas := openapi_schemas Y\<rparr>"

section \<open>Samples\<close>

text \<open>A YAML library of finitely many texts, each with its value.\<close>

definition table_yaml :: "(string \<times> json) list \<Rightarrow> yaml_tools" where
  "table_yaml table =
     \<lparr>yaml_read = (\<lambda>t. case map_of table t of None \<Rightarrow> Inl ''unknown'' | Some v \<Rightarrow> Inr v),
      yaml_write = (\<lambda>v. case find (\<lambda>(t, w). w = v) table of None \<Rightarrow> Inl ''unknown'' | Some (t, _) \<Rightarrow> Inr t),
      hash_order = rev\<rparr>"

lemma table_round_trip:
  assumes "distinct (map fst table)" "yaml_write (table_yaml table) v = Inr t"
  shows "yaml_read (table_yaml table) t = Inr v"
proof -
  have "(t, v) \<in> set table"
    using assms(2) find_Some_in[of "\<lambda>(t, w). w = v" table]
    by (cases "find (\<lambda>(t, w). w = v) table") (auto simp: table_yaml_def)
  then show ?thesis using assms(1) by (simp add: table_yaml_def)
qed

lemma table_reads_ok:
  assumes "list_all (\<lambda>(t, v). json_ok v) table" "yaml_read (table_yaml table) doc = Inr v"
  shows "json_ok v"
  using assms by (auto simp: table_yaml_def list_all_iff split: option.splits dest!: map_of_SomeD)

abbreviation typed :: "string \<Rightarrow> fields \<Rightarrow> json" where
  "typed t fs \<equiv> JObject ((''type'', JString t) # fs)"

definition sample_payload :: "fields \<Rightarrow> json" where
  "sample_payload props = typed ''object'' [(''properties'', JObject props)]"

definition sample_asyncapi :: "fields \<Rightarrow> json" where
  "sample_asyncapi props = JObject [(''asyncapi'', JString ''2.6.0''),
     (''components'', JObject [(''schemas'', JObject [(''item'', typed ''object'' [(''properties'', JObject
        [(''part'', JObject [(''$ref'', JString ''#/components/schemas/item'')])])])])]),
     (''channels'', JObject [(''orders'', JObject [(''publish'', JObject [(''message'', JObject
        [(''name'', JString ''placed''), (''payload'', sample_payload props)])])])])]"

definition old_props :: fields where
  "old_props = [(''id'', typed ''string'' []), (''memo'', typed ''string'' [(''deprecated'', JBool True)])]"

definition new_props :: fields where
  "new_props = [(''item'', JObject [(''$ref'', JString ''#/components/schemas/item'')]), (''id'', typed ''string'' [])]"

definition sample_table :: "(string \<times> json) list" where
  "sample_table = [(''old'', sample_asyncapi old_props), (''new'', sample_asyncapi new_props), (''payload'', sample_payload new_props)]"

lemma sample_table_ok: "distinct (map fst sample_table)" "list_all (\<lambda>(t, v). json_ok v) sample_table"
  by code_simp+

end
