(* ===== verification/Asyncapi_Rules.thy ===== *)
theory Asyncapi_Rules
  imports Asyncapi
begin

text \<open>
  What the AsyncAPI analyses promise: a compatible document keeps every message
  and every property a reader may rely on, the verdict does not depend on how a
  \<open>HashMap\<close> is walked, a document's messages belong to the endpoints it is split
  into, and every reference of the OpenAPI answer resolves inside it.
\<close>

section \<open>Loops\<close>

lemma each_Inr [rust]: "each f xs = Inr () \<longleftrightarrow> (\<forall>x \<in> set xs. f x = Inr ())"
  by (induction xs) (auto simp: and_then_Inr_iff)

lemma parsed_Inr [rust]: "parsed Y what doc = Inr v \<longleftrightarrow> yaml_read Y doc = Inr v"
  by (auto simp: parsed_def map_err_Inr_iff)

section \<open>Schemas\<close>

lemma properties_mismatch_Inr:
  "properties_mismatch path fs gs = Inr () \<longleftrightarrow>
     (\<forall>(p, v) \<in> set fs. case Option.bind gs (\<lambda>g. map_of g p) of None \<Rightarrow> is_marked_deprecated v
        | Some w \<Rightarrow> find_schema_mismatch (path @ ''.'' @ p) v w = Inr ())"
  by (induction fs) (auto split: option.splits sum.splits if_splits)

lemma find_schema_mismatch_Inr:
  "find_schema_mismatch path old new = Inr () \<longleftrightarrow>
     changed ''$ref'' old new = None \<and> changed ''type'' old new = None \<and>
     (\<forall>fs. object_at ''properties'' old = Some fs \<longrightarrow> properties_mismatch path fs (object_at ''properties'' new) = Inr ()) \<and>
     (\<forall>v w. json_get ''items'' old = Some v \<longrightarrow> json_get ''items'' new = Some w \<longrightarrow> find_schema_mismatch (path @ ''[]'') v w = Inr ())"
  by (subst find_schema_mismatch.simps) (auto split: option.splits sum.splits)

lemma mismatch_InrD:
  assumes "find_schema_mismatch path old new = Inr ()"
  shows "changed ''$ref'' old new = None" "changed ''type'' old new = None"
    "object_at ''properties'' old = Some fs \<Longrightarrow> properties_mismatch path fs (object_at ''properties'' new) = Inr ()"
    "json_get ''items'' old = Some v \<Longrightarrow> json_get ''items'' new = Some w \<Longrightarrow> find_schema_mismatch (path @ ''[]'') v w = Inr ()"
  using iffD1[OF find_schema_mismatch_Inr assms] by blast+

lemma mismatch_InrI:
  assumes "changed ''$ref'' old new = None" "changed ''type'' old new = None"
    "\<And>fs. object_at ''properties'' old = Some fs \<Longrightarrow> properties_mismatch path fs (object_at ''properties'' new) = Inr ()"
    "\<And>v w. json_get ''items'' old = Some v \<Longrightarrow> json_get ''items'' new = Some w \<Longrightarrow> find_schema_mismatch (path @ ''[]'') v w = Inr ()"
  shows "find_schema_mismatch path old new = Inr ()"
  by (rule iffD2[OF find_schema_mismatch_Inr]) (use assms in blast)

text \<open>The path only names the place: it decides nothing.\<close>

lemma path_is_only_a_name:
  "find_schema_mismatch path old new = Inr () \<Longrightarrow> find_schema_mismatch path' old new = Inr ()"
  "properties_mismatch path fs gs = Inr () \<Longrightarrow> properties_mismatch path' fs gs = Inr ()"
proof (induction path old new and path fs gs arbitrary: path' and path' rule: find_schema_mismatch_properties_mismatch.induct)
  case (1 path old new)
  note prems = mismatch_InrD[OF "1.prems"]
  have props: "properties_mismatch path' fs (object_at ''properties'' new) = Inr ()" if "object_at ''properties'' old = Some fs" for fs
    by (rule "1.IH"(1)[OF prems(1,2) that prems(3)[OF that]])
  have ok: "(case object_at ''properties'' old of None \<Rightarrow> Inr () | Some fs \<Rightarrow> properties_mismatch path fs (object_at ''properties'' new)) = Inr ()"
    using prems(3) by (simp split: option.splits)
  have items: "find_schema_mismatch (path' @ ''[]'') v w = Inr ()" if "json_get ''items'' old = Some v" "json_get ''items'' new = Some w" for v w
    by (rule "1.IH"(2)[OF prems(1,2) ok that prems(4)[OF that]])
  show ?case by (rule mismatch_InrI[OF prems(1,2) props items])
next
  case (3 path prop_name old_prop props new_props)
  note each = "3.prems"[unfolded properties_mismatch_Inr]
  let ?found = "Option.bind new_props (\<lambda>ps. map_of ps prop_name)"
  have verdict: "case ?found of None \<Rightarrow> is_marked_deprecated old_prop | Some w \<Rightarrow> find_schema_mismatch (path @ ''.'' @ prop_name) old_prop w = Inr ()"
    using each by simp
  have now: "(case ?found of None \<Rightarrow> if is_marked_deprecated old_prop then Inr () else Inl (PropertyMissing (path @ ''.'' @ prop_name))
      | Some w \<Rightarrow> find_schema_mismatch (path @ ''.'' @ prop_name) old_prop w) = Inr ()"
    using verdict by (cases ?found) simp_all
  have here: "find_schema_mismatch (path' @ ''.'' @ prop_name) old_prop w = Inr ()" if "?found = Some w" for w
    by (rule "3.IH"(1)[OF that]) (use verdict that in simp)
  have "properties_mismatch path props new_props = Inr ()" unfolding properties_mismatch_Inr using each by simp
  then have "properties_mismatch path' props new_props = Inr ()" by (rule "3.IH"(2)[OF now])
  with here verdict show ?case unfolding properties_mismatch_Inr by (cases ?found) simp_all
qed simp

text \<open>A document is compatible with itself.\<close>

lemma compatible_with_itself:
  "json_ok v \<Longrightarrow> find_schema_mismatch path v v = Inr ()"
proof (induction "size v" arbitrary: v path rule: less_induct)
  case less
  have same: "changed k v v = None" for k by (auto simp: changed_def split: option.splits)
  have inner: "map_of fs p = Some w \<and> find_schema_mismatch (path @ ''.'' @ p) w w = Inr ()"
    if fs: "object_at ''properties'' v = Some fs" and pw: "(p, w) \<in> set fs" for fs p w
  proof -
    have "size w < size v" using size_field[OF pw] size_object_at[OF fs] by simp
    then show ?thesis using less.hyps json_ok_object_at[OF less.prems fs] pw by simp
  qed
  show ?case
  proof (rule mismatch_InrI[OF same same])
    fix fs assume fs: "object_at ''properties'' v = Some fs"
    show "properties_mismatch path fs (object_at ''properties'' v) = Inr ()"
      unfolding properties_mismatch_Inr fs by (auto simp: inner[OF fs] simp del: append.simps append_Cons)
  next
    fix a b assume a: "json_get ''items'' v = Some a" and b: "json_get ''items'' v = Some b"
    have "find_schema_mismatch (path @ ''[]'') a a = Inr ()" by (rule less.hyps[OF size_get[OF a] json_ok_get[OF less.prems a]])
    with a b show "find_schema_mismatch (path @ ''[]'') a b = Inr ()" by simp
  qed
qed

text \<open>
  The node a reader reaches by property names, and that no property on the way is
  marked deprecated.
\<close>

fun schema_at :: "string list \<Rightarrow> json \<Rightarrow> json option" where
  "schema_at [] v = Some v"
| "schema_at (p # ps) v = Option.bind (Option.bind (object_at ''properties'' v) (\<lambda>fs. map_of fs p)) (schema_at ps)"

fun lasting :: "string list \<Rightarrow> json \<Rightarrow> bool" where
  "lasting [] v = True"
| "lasting (p # ps) v =
     (case Option.bind (object_at ''properties'' v) (\<lambda>fs. map_of fs p) of None \<Rightarrow> True
      | Some w \<Rightarrow> \<not> is_marked_deprecated w \<and> lasting ps w)"

lemma reachable_stays:
  assumes "find_schema_mismatch path old new = Inr ()" "schema_at ps old = Some s" "lasting ps old"
  shows "\<exists>s'. schema_at ps new = Some s' \<and> changed ''type'' s s' = None \<and> changed ''$ref'' s s' = None"
  using assms
proof (induction ps arbitrary: path old new)
  case Nil
  then show ?case by (auto dest: mismatch_InrD(1,2))
next
  case (Cons p ps)
  from Cons.prems(2) obtain fs v where fs: "object_at ''properties'' old = Some fs" "map_of fs p = Some v" and s: "schema_at ps v = Some s"
    by (auto simp: bind_eq_Some_conv)
  with Cons.prems(3) have keeps: "\<not> is_marked_deprecated v" "lasting ps v" by simp_all
  have "properties_mismatch path fs (object_at ''properties'' new) = Inr ()"
    by (rule mismatch_InrD(3)[OF Cons.prems(1) fs(1)])
  with map_of_SomeD[OF fs(2)] keeps(1) obtain w where
    w: "Option.bind (object_at ''properties'' new) (\<lambda>g. map_of g p) = Some w" "find_schema_mismatch (path @ ''.'' @ p) v w = Inr ()"
    unfolding properties_mismatch_Inr by (fastforce split: option.splits)
  from Cons.IH[OF w(2) s keeps(2)] w(1) show ?case by simp
qed

section \<open>Comparing two documents\<close>

lemma documents_compatible_Inr:
  assumes "set (hash_order Y (collect_messages old)) = set (collect_messages old)"
  shows "documents_compatible Y old new = Inr () \<longleftrightarrow> (\<forall>x \<in> set (collect_messages old). message_compatible (collect_messages new) x = Inr ())"
  by (simp add: documents_compatible_def each_Inr assms)

text \<open>How the map is walked decides which reason is given, never the verdict.\<close>

lemma walk_decides_nothing:
  assumes "set (hash_order Y (collect_messages old)) = set (collect_messages old)"
    and "set (hash_order Y' (collect_messages old)) = set (collect_messages old)"
  shows "(documents_compatible Y old new = Inr ()) = (documents_compatible Y' old new = Inr ())"
  by (simp add: documents_compatible_Inr assms)

lemma message_compatible_Inr:
  assumes "message_compatible news (name, m) = Inr ()"
  shows "\<not> is_marked_deprecated m \<Longrightarrow> \<exists>m'. map_of news name = Some m'"
    and "map_of news name = Some m' \<Longrightarrow> json_get ''payload'' m = Some p \<Longrightarrow>
      \<exists>p'. json_get ''payload'' m' = Some p' \<and> find_schema_mismatch (name @ ''.payload'') p p' = Inr ()"
  using assms by (auto simp: message_compatible_def check_schema_compatible_def map_err_Inr_iff split: option.splits if_splits)

text \<open>
  What stays of a message: of every lasting node of its payload, the type and the
  reference, where both texts declare one. A declaration that is only dropped or only
  added is not compared.
\<close>

definition agree_on :: "string \<Rightarrow> json \<Rightarrow> json \<Rightarrow> bool" where
  "agree_on key s s' \<longleftrightarrow> (\<forall>a b. str_at key s = Some a \<longrightarrow> str_at key s' = Some b \<longrightarrow> a = b)"

lemma changed_None: "changed key s s' = None \<longleftrightarrow> agree_on key s s'"
  by (auto simp: changed_def agree_on_def split: option.splits)

definition message_kept :: "json \<Rightarrow> json \<Rightarrow> bool" where
  "message_kept m m' \<longleftrightarrow>
     (\<forall>p. json_get ''payload'' m = Some p \<longrightarrow>
        (\<exists>p'. json_get ''payload'' m' = Some p' \<and>
           (\<forall>ps s. schema_at ps p = Some s \<longrightarrow> lasting ps p \<longrightarrow>
              (\<exists>s'. schema_at ps p' = Some s' \<and> agree_on ''type'' s s' \<and> agree_on ''$ref'' s s'))))"

text \<open>The check, message by message and node by node.\<close>

lemma check_keeps_reads:
  assumes "\<And>fs. set (hash_order Y fs) = set fs" and "check_backward_compatibility Y old_yaml new_yaml = Inr ()"
    and "yaml_read Y old_yaml = Inr old" and "yaml_read Y new_yaml = Inr new"
    and "map_of (collect_messages old) name = Some m"
  shows "\<not> is_marked_deprecated m \<Longrightarrow> \<exists>m'. map_of (collect_messages new) name = Some m'"
    and "map_of (collect_messages new) name = Some m' \<Longrightarrow> message_kept m m'"
proof -
  have "message_compatible (collect_messages new) (name, m) = Inr ()"
    using assms(2-4) map_of_SomeD[OF assms(5)]
    by (simp add: check_backward_compatibility_def and_then_Inr_iff parsed_Inr documents_compatible_Inr assms(1))
  note kept = message_compatible_Inr[OF this]
  show "\<exists>m'. map_of (collect_messages new) name = Some m'" if "\<not> is_marked_deprecated m" using kept(1)[OF that] .
  show "message_kept m m'" if m': "map_of (collect_messages new) name = Some m'"
    unfolding message_kept_def
  proof (intro allI impI)
    fix p assume "json_get ''payload'' m = Some p"
    with kept(2)[OF m'] obtain p' where p': "json_get ''payload'' m' = Some p'" "find_schema_mismatch (name @ ''.payload'') p p' = Inr ()" by blast
    then show "\<exists>p'. json_get ''payload'' m' = Some p' \<and> (\<forall>ps s. schema_at ps p = Some s \<longrightarrow> lasting ps p \<longrightarrow>
        (\<exists>s'. schema_at ps p' = Some s' \<and> agree_on ''type'' s s' \<and> agree_on ''$ref'' s s'))"
      using reachable_stays[OF p'(2)] by (auto simp: changed_None intro!: exI[of _ p'])
  qed
qed

text \<open>
  C9: A compatible AsyncAPI document keeps what a reader relies on. When the check
  accepts the new text, every message of the old one that is not marked deprecated is
  there under its key, whether it has a payload or not. A message that is still there
  and had a payload has one, and every node a reader reaches in the old payload by
  property names, none marked deprecated, is reached in the new one by the same names;
  where the old node and the new one both declare a type it is the same, and so with
  their \<open>$ref\<close>. A type or reference that only one of them declares is not compared.
\<close>

theorem compatible_document_keeps_reads:
  assumes "\<And>fs. set (hash_order Y fs) = set fs" and "check_backward_compatibility Y old_yaml new_yaml = Inr ()"
    and "yaml_read Y old_yaml = Inr old" and "yaml_read Y new_yaml = Inr new"
    and "map_of (collect_messages old) name = Some m"
  shows "(\<not> is_marked_deprecated m \<longrightarrow> (\<exists>m'. map_of (collect_messages new) name = Some m')) \<and>
    (\<forall>m'. map_of (collect_messages new) name = Some m' \<longrightarrow> message_kept m m')"
  using check_keeps_reads[OF assms] by blast

text \<open>The expectation of a Consumer against a contract is the payload check with the roles swapped.\<close>

lemma expectation_is_swapped_check:
  "check_expectation Y contract expectation = Inr () \<longleftrightarrow> check_payload_compatible_yaml Y expectation contract = Inr ()"
  by (auto simp: check_expectation_def check_payload_compatible_yaml_def check_schema_compatible_def and_then_Inr_iff parsed_Inr map_err_Inr_iff)

text \<open>Equal payloads are compatible.\<close>

lemma identical_payload_is_compatible:
  "yaml_read Y a = Inr v \<Longrightarrow> json_ok v \<Longrightarrow> check_payload_compatible_yaml Y a a = Inr ()"
  by (simp add: check_payload_compatible_yaml_def check_schema_compatible_def and_then_Inr_iff parsed_Inr map_err_Inr_iff compatible_with_itself)

section \<open>Splitting and extracting\<close>

definition operation_of :: "direction \<Rightarrow> string" where
  "operation_of dir = (case dir of Pub \<Rightarrow> ''PUB'' | Sub \<Rightarrow> ''SUB'')"

lemma pub_message_channel: "pub_message_from_node Y ch d node = Some m \<Longrightarrow> m_channel m = ch"
  by (auto simp: pub_message_from_node_def split: option.splits sum.splits)

lemma mem_map_filter: "y \<in> set (List.map_filter f xs) \<longleftrightarrow> (\<exists>x \<in> set xs. f x = Some y)"
  by (force simp: List.map_filter_def)

lemma created_v2:
  "spec_v2_of Y root ch op v key = Inr ss \<Longrightarrow> json_get key v \<noteq> None \<Longrightarrow> \<exists>e. ss = [e] \<and> as_channel e = ch \<and> as_operation e = op"
  by (auto simp: spec_v2_of_def create_spec_v2_def and_then_Inr_iff)

lemma message_has_endpoint_v2:
  assumes "split_asyncapi_v2 Y root = Inr specs" "m \<in> set (extract_messages_v2 Y root dir)"
  shows "\<exists>e \<in> set specs. as_channel e = m_channel m \<and> as_operation e = operation_of dir"
proof -
  from assms(2) obtain chs ch v where chs: "object_at ''channels'' root = Some chs" "(ch, v) \<in> set chs"
    and m: "m \<in> set (messages_of_channel_v2 Y dir (ch, v))"
    by (cases "object_at ''channels'' root") (auto simp: extract_messages_v2_def)
  from m have op: "json_get (v2_keyword dir) v \<noteq> None" and channel: "m_channel m = ch"
    by (cases "json_get (v2_keyword dir) v"; auto simp: messages_of_channel_v2_def mem_map_filter split: option.splits dest: pub_message_channel)+
  from assms(1) chs obtain pubs subs where parts: "spec_v2_of Y root ch ''PUB'' v ''publish'' = Inr pubs"
    "spec_v2_of Y root ch ''SUB'' v ''subscribe'' = Inr subs" "set (pubs @ subs) \<subseteq> set specs"
    using collect_Inr[of _ chs specs "(ch, v)"] by (fastforce simp: split_asyncapi_v2_def and_then_Inr_iff)
  show ?thesis
    using created_v2[OF parts(1)] created_v2[OF parts(2)] parts(3) op channel
    by (cases dir) (auto simp: v2_keyword_def operation_of_def)
qed

lemma channel_node: "Option.bind (object_at k root) (\<lambda>chs. map_of chs key) = Option.bind (json_get k root) (json_get key)"
  unfolding object_at_def by (cases "json_get k root"; cases "the (json_get k root)") (auto simp: json_get_def as_object_def)

lemma message_has_endpoint_v3:
  assumes "split_asyncapi_v3 Y root = Inr specs" "m \<in> set (extract_messages_v3 Y root dir)"
  shows "\<exists>e \<in> set specs. as_channel e = m_channel m \<and> as_operation e = operation_of dir"
proof -
  from assms(2) obtain ops nm op where ops: "object_at ''operations'' root = Some ops" "(nm, op) \<in> set ops"
    and m: "m \<in> set (messages_of_operation_v3 Y root dir (nm, op))"
    by (cases "object_at ''operations'' root") (auto simp: extract_messages_v3_def)
  from m obtain key where action: "str_at ''action'' op = Some (v3_action dir)"
    and key: "Option.bind (channel_ref op) (strip_prefix ''#/channels/'') = Some key"
    and channel: "m_channel m = address_of (Option.bind (json_get ''channels'' root) (json_get key)) key"
    by (cases "Option.bind (channel_ref op) (strip_prefix ''#/channels/'')")
      (auto simp: messages_of_operation_v3_def Let_def mem_map_filter split: if_splits dest: pub_message_channel)
  from key have key': "channel_key_of op = Inr key" by (auto simp: channel_key_of_def bind_eq_Some_conv)
  from action have op': "action_operation op = Inr (operation_of dir)"
    by (cases dir) (simp_all add: action_operation_def v3_action_def operation_of_def)
  let ?chs = "object_at ''channels'' root"
  let ?f = "\<lambda>(_ :: string, op). and_then (action_operation op) (\<lambda>operation. and_then (channel_key_of op) (\<lambda>key.
      and_then (create_spec_v3 Y root key (address_of (Option.bind ?chs (\<lambda>chs. map_of chs key)) key) operation op ?chs) (\<lambda>s. Inr [s])))"
  have "collect ?f ops = Inr specs" using assms(1) ops(1) by (simp add: split_asyncapi_v3_def Let_def)
  from collect_Inr[OF this ops(2)] obtain zs where "?f (nm, op) = Inr zs" "set zs \<subseteq> set specs" by blast
  then obtain e where "e \<in> set specs"
    "create_spec_v3 Y root key (address_of (Option.bind ?chs (\<lambda>chs. map_of chs key)) key) (operation_of dir) op ?chs = Inr e"
    by (auto simp: and_then_Inr_iff key' op')
  then show ?thesis using channel
    by (intro bexI[of _ e]) (auto simp: create_spec_v3_def and_then_Inr_iff channel_node)
qed

text \<open>
  C12: A document's messages are those of its endpoints. Whatever message is read from
  a document that can be split, as published or as subscribed to, in the 2.x and in
  the 3.x form, its channel with that direction is one of the endpoints the document
  is split into; so the contracts and subscriptions recorded for a version name
  channels the version offers.
\<close>

theorem messages_are_of_endpoints:
  assumes "split_asyncapi_doc Y doc = Inr specs" and "extract_messages Y dir doc = Inr msgs" and "m \<in> set msgs"
  shows "\<exists>e \<in> set specs. as_channel e = m_channel m \<and> as_operation e = operation_of dir"
  using assms message_has_endpoint_v2 message_has_endpoint_v3
  by (auto simp: split_asyncapi_doc_def extract_messages_def and_then_Inr_iff parsed_Inr split: if_splits)

text \<open>A snippet of the 2.x form holds its operation, and is read in the same form.\<close>

lemma snippet_v2_get:
  assumes "json_ok root"
  shows "json_get ''channels'' (JObject (snippet_v2 root ch v key)) =
      Some (JObject [(ch, JObject (swap_remove (if key = ''publish'' then ''subscribe'' else ''publish'') (case as_object v of None \<Rightarrow> [] | Some fs \<Rightarrow> fs)))])"
    and "k \<noteq> ''channels'' \<Longrightarrow> json_get k (JObject (snippet_v2 root ch v key)) = json_get k root"
  by (auto simp: json_get_def snippet_v2_def Let_def map_of_insert_field fields_but_def as_object_def map_of_filter_keys split: json.splits)

lemma snippet_v2_messages:
  assumes "json_ok root" "json_ok v" "json_get (v2_keyword dir) v \<noteq> None"
  shows "extract_messages_v2 Y (JObject (snippet_v2 root ch v (v2_keyword dir))) dir = messages_of_channel_v2 Y dir (ch, v)"
proof -
  from assms(3) obtain fs where v: "v = JObject fs" by (auto simp: json_get_def split: json.splits)
  let ?other = "if v2_keyword dir = ''publish'' then ''subscribe'' else ''publish''"
  have "v2_keyword dir \<noteq> ?other" by (cases dir) (simp_all add: v2_keyword_def)
  then have "json_get (v2_keyword dir) (JObject (swap_remove ?other fs)) = json_get (v2_keyword dir) v"
    using assms(2) v by (simp add: json_get_def map_of_swap_remove)
  then show ?thesis
    using v snippet_v2_get(1)[OF assms(1)] by (simp add: extract_messages_v2_def at_simps object_at_def messages_of_channel_v2_def as_object_def)
qed

definition snippet_messages :: "yaml_tools \<Rightarrow> direction \<Rightarrow> asyncapi_spec list \<Rightarrow> pub_message list" where
  "snippet_messages Y dir specs =
     concat (map (\<lambda>e. case extract_messages Y dir (as_yaml_content e) of Inl _ \<Rightarrow> [] | Inr ms \<Rightarrow> ms)
       (filter (\<lambda>e. as_operation e = operation_of dir) specs))"

lemma snippet_messages_append: "snippet_messages Y dir (es @ es') = snippet_messages Y dir es @ snippet_messages Y dir es'"
  by (simp add: snippet_messages_def)

lemma spec_v2_messages:
  assumes "\<And>v t. yaml_write Y v = Inr t \<Longrightarrow> yaml_read Y t = Inr v" and "json_ok root" "json_ok v" "\<not> starts_with ''3.'' (asyncapi_version root)"
    and "spec_v2_of Y root ch (operation_of d) v (v2_keyword d) = Inr es"
  shows "snippet_messages Y dir es = (if d = dir then messages_of_channel_v2 Y dir (ch, v) else [])"
proof (cases "json_get (v2_keyword d) v")
  case None
  then show ?thesis using assms(5) by (auto simp: spec_v2_of_def snippet_messages_def messages_of_channel_v2_def)
next
  case (Some op)
  then obtain e where e: "es = [e]" "yaml_write Y (JObject (snippet_v2 root ch v (v2_keyword d))) = Inr (as_yaml_content e)"
      "as_operation e = operation_of d"
    using assms(5) by (fastforce simp: spec_v2_of_def create_spec_v2_def snippet_text_def and_then_Inr_iff map_err_Inr_iff)
  have "asyncapi_version (JObject (snippet_v2 root ch v (v2_keyword d))) = asyncapi_version root"
    using snippet_v2_get(2)[OF assms(2), of "''asyncapi''"] by (simp add: asyncapi_version_def str_at_def)
  then have "extract_messages Y d (as_yaml_content e) = Inr (messages_of_channel_v2 Y d (ch, v))"
    using assms(1)[OF e(2)] assms(4) snippet_v2_messages[OF assms(2,3), of d Y ch] Some
    by (simp add: extract_messages_def parsed_def)
  moreover have "operation_of d = operation_of dir \<longleftrightarrow> d = dir" by (cases d; cases dir) (simp_all add: operation_of_def)
  ultimately show ?thesis using e by (cases "d = dir") (simp_all add: snippet_messages_def)
qed

lemma collect_homomorphic:
  assumes "\<And>ys zs. g (ys @ zs) = g ys @ g zs" and "g [] = []" and "collect f xs = Inr ys"
    and "\<And>x zs. x \<in> set xs \<Longrightarrow> f x = Inr zs \<Longrightarrow> g zs = h x"
  shows "g ys = concat (map h xs)"
  using assms(3,4) by (induction xs arbitrary: ys) (auto simp: and_then_Inr_iff assms(1,2))

text \<open>
  C11: Splitting an AsyncAPI 2.x document loses no message and invents none. The
  snippets of one direction, each read on its own, hold together exactly the messages
  of the document in that direction, in the document's order, payloads and marks
  included; so a Consumer that was handed the snippets it asked for has the messages
  the Producer declared.
\<close>

theorem snippets_carry_the_messages:
  assumes "\<And>v t. yaml_write Y v = Inr t \<Longrightarrow> yaml_read Y t = Inr v" and "yaml_read Y doc = Inr root" and "json_ok root"
    and "\<not> starts_with ''3.'' (asyncapi_version root)" and "split_asyncapi_doc Y doc = Inr specs"
  shows "extract_messages Y dir doc = Inr (snippet_messages Y dir specs)"
proof (cases "object_at ''channels'' root")
  case None
  then show ?thesis using assms(2,4,5)
    by (simp add: split_asyncapi_doc_def split_asyncapi_v2_def parsed_def extract_messages_def extract_messages_v2_def snippet_messages_def)
next
  case (Some chs)
  let ?f = "\<lambda>(ch, v). and_then (spec_v2_of Y root ch ''PUB'' v ''publish'') (\<lambda>pubs.
      and_then (spec_v2_of Y root ch ''SUB'' v ''subscribe'') (\<lambda>subs. Inr (pubs @ subs)))"
  have run: "collect ?f chs = Inr specs"
    using assms(2,4,5) Some by (simp add: split_asyncapi_doc_def split_asyncapi_v2_def parsed_def)
  have each: "snippet_messages Y dir es = messages_of_channel_v2 Y dir x" if x: "x \<in> set chs" and es: "?f x = Inr es" for x es
  proof -
    obtain ch v where [simp]: "x = (ch, v)" by fastforce
    have v: "json_ok v" using json_ok_object_at(2)[OF assms(3) Some] x by auto
    obtain pubs subs where parts: "spec_v2_of Y root ch ''PUB'' v ''publish'' = Inr pubs"
      "spec_v2_of Y root ch ''SUB'' v ''subscribe'' = Inr subs" "es = pubs @ subs"
      using es by (auto simp: and_then_Inr_iff)
    note part = spec_v2_messages[OF assms(1,3) v assms(4), where ch = ch]
    show ?thesis
      using part[where d = Pub and es = pubs and dir = dir] part[where d = Sub and es = subs and dir = dir] parts
      by (cases dir) (simp_all add: operation_of_def v2_keyword_def snippet_messages_append)
  qed
  have "snippet_messages Y dir specs = concat (map (messages_of_channel_v2 Y dir) chs)"
    by (rule collect_homomorphic[OF snippet_messages_append _ run each]) (simp_all add: snippet_messages_def)
  then show ?thesis using assms(2,4) Some by (simp add: extract_messages_def parsed_def extract_messages_v2_def)
qed

section \<open>Witnesses\<close>

lemma sample_reads:
  "yaml_read (table_yaml sample_table) ''old'' = Inr (sample_asyncapi old_props)"
  "yaml_read (table_yaml sample_table) ''new'' = Inr (sample_asyncapi new_props)"
  by (simp_all add: table_yaml_def sample_table_def)

theorem compatible_document_keeps_reads_witness:
  "\<exists>m' p' s'. map_of (collect_messages (sample_asyncapi new_props)) ''orders/publish/placed'' = Some m' \<and>
     json_get ''payload'' m' = Some p' \<and> schema_at [''id''] p' = Some s' \<and> agree_on ''type'' (typed ''string'' []) s'"
proof -
  have order: "set (hash_order (table_yaml sample_table) fs) = set fs" for fs by (simp add: table_yaml_def)
  have ok: "check_backward_compatibility (table_yaml sample_table) ''old'' ''new'' = Inr ()" by code_simp
  have m: "map_of (collect_messages (sample_asyncapi old_props)) ''orders/publish/placed'' =
      Some (JObject [(''name'', JString ''placed''), (''payload'', sample_payload old_props)])" by code_simp
  have facts: "\<not> is_marked_deprecated (JObject [(''name'', JString ''placed''), (''payload'', sample_payload old_props)])"
    "json_get ''payload'' (JObject [(''name'', JString ''placed''), (''payload'', sample_payload old_props)]) = Some (sample_payload old_props)"
    "schema_at [''id''] (sample_payload old_props) = Some (typed ''string'' [])" "lasting [''id''] (sample_payload old_props)"
    by code_simp+
  note kept = compatible_document_keeps_reads[OF order ok sample_reads m]
  then obtain m' where m': "map_of (collect_messages (sample_asyncapi new_props)) ''orders/publish/placed'' = Some m'" using facts(1) by blast
  with kept have "message_kept (JObject [(''name'', JString ''placed''), (''payload'', sample_payload old_props)]) m'" by blast
  with m' facts(2-4) show ?thesis unfolding message_kept_def by blast
qed

theorem messages_are_of_endpoints_witness:
  "\<exists>specs. split_asyncapi_doc (table_yaml sample_table) ''new'' = Inr specs \<and>
     (\<exists>e. e \<in> set specs \<and> as_channel e = ''orders'' \<and> as_operation e = ''PUB'')"
proof -
  have specs: "split_asyncapi_doc (table_yaml sample_table) ''new'' =
      Inr [\<lparr>as_channel = ''orders'', as_operation = ''PUB'', as_yaml_content = ''new'', as_deprecated = False\<rparr>]" by code_simp
  have msgs: "extract_messages (table_yaml sample_table) Pub ''new'' =
      Inr [\<lparr>m_channel = ''orders'', m_message_name = ''placed'', m_payload_yaml = ''payload'', m_deprecated = False\<rparr>]" by code_simp
  from messages_are_of_endpoints[OF specs msgs] specs show ?thesis by (auto simp: operation_of_def)
qed

theorem snippets_carry_the_messages_witness:
  "extract_messages (table_yaml sample_table) Pub ''new'' = Inr (snippet_messages (table_yaml sample_table) Pub
     [\<lparr>as_channel = ''orders'', as_operation = ''PUB'', as_yaml_content = ''new'', as_deprecated = False\<rparr>])"
proof -
  have specs: "split_asyncapi_doc (table_yaml sample_table) ''new'' =
      Inr [\<lparr>as_channel = ''orders'', as_operation = ''PUB'', as_yaml_content = ''new'', as_deprecated = False\<rparr>]" by code_simp
  have form: "json_ok (sample_asyncapi new_props)" "\<not> starts_with ''3.'' (asyncapi_version (sample_asyncapi new_props))" by code_simp+
  show ?thesis by (rule snippets_carry_the_messages[OF table_round_trip[OF sample_table_ok(1)] sample_reads(2) form specs])
qed

end
