(* ===== verification/Asyncapi_Schemas.thy ===== *)
theory Asyncapi_Schemas
  imports Asyncapi
begin

text \<open>
  The OpenAPI answer to an AsyncAPI requirement (\<open>to_openapi_schemas\<close> of
  \<open>src/src/asyncapi.rs\<close>): every reference the conversion looks at resolves inside
  the document it writes.
\<close>

section \<open>References\<close>

text \<open>
  The references the rewriting looks at. A member named \<open>$ref\<close> that is not a
  string is not looked into.
\<close>

fun refs_in :: "json \<Rightarrow> string set" where
  "refs_in (JObject fs) =
     set_option (str_at ''$ref'' (JObject fs)) \<union> \<Union> (set (map (\<lambda>(k, v). if k = ''$ref'' then {} else refs_in v) fs))"
| "refs_in (JArray vs) = \<Union> (set (map refs_in vs))"
| "refs_in _ = {}"

text \<open>A reference below \<open>#/components/schemas\<close>: the schema, and the way inside it.\<close>

definition points :: "string \<Rightarrow> string \<Rightarrow> string list \<Rightarrow> bool" where
  "points reference name segments \<longleftrightarrow>
     (\<exists>rest. strip_prefix schemas_prefix reference = Some rest \<and> map unescape (split_char (CHR ''/'') rest) = name # segments)"

lemma strip_prefix_append [simp]: "strip_prefix p (p @ s) = Some s"
  by (simp add: strip_prefix_def)

lemma strip_prefix_Some: "strip_prefix p s = Some r \<Longrightarrow> s = p @ r"
  by (auto simp: strip_prefix_def split: if_splits) (metis append_take_drop_id)

lemma replace_str_absent: "c \<notin> set s \<Longrightarrow> replace_str (c # p) r s = s"
  by (induction s) (auto simp: starts_with_def)

lemma component_name_plain: "c \<in> set (component_name key) \<Longrightarrow> c \<noteq> CHR ''/'' \<and> c \<noteq> CHR ''~''"
  by (auto simp: component_name_def is_ascii_alphanumeric_def is_ascii_digit_def is_ascii_upper_def is_ascii_lower_def
      split: list.splits if_splits)

lemma unescape_plain: "CHR ''~'' \<notin> set s \<Longrightarrow> unescape s = s"
  by (simp add: unescape_def replace_str_absent)

lemma points_component: "points (schemas_prefix @ component_name key) (component_name key) []"
proof -
  have "CHR ''/'' \<notin> set (component_name key)" "CHR ''~'' \<notin> set (component_name key)"
    using component_name_plain[of _ key] by blast+
  then show ?thesis by (simp add: points_def split_char_free unescape_plain)
qed

text \<open>A pointer into the schemas of a document.\<close>

lemma resolve_schema_pointer:
  "resolve_json_pointer root (schemas_prefix @ rest) =
     json_at (''components'' # ''schemas'' # map unescape (split_char (CHR ''/'') rest)) root"
proof -
  have "split_char (CHR ''/'') (''components'' @ CHR ''/'' # ''schemas'' @ CHR ''/'' # rest) = ''components'' # ''schemas'' # split_char (CHR ''/'') rest"
    by (subst split_char_sep, simp, subst split_char_sep) simp_all
  moreover have "schemas_prefix @ rest = ''#/'' @ (''components'' @ CHR ''/'' # ''schemas'' @ CHR ''/'' # rest)" by (simp add: schemas_prefix_def)
  moreover have "unescape ''components'' = ''components''" "unescape ''schemas'' = ''schemas''" by (simp_all add: unescape_plain)
  ultimately show ?thesis by (simp only: resolve_json_pointer_def strip_prefix_append option.case list.map)
qed

lemma local_ref_Inr: "resolve_local_ref root r l = Inr v \<Longrightarrow> resolve_json_pointer root r = Some v"
  by (auto simp: resolve_local_ref_def split: if_splits option.splits)

lemma pulled_reference:
  assumes "pull_reference root l r = Inr (t, (n, w))"
  shows "\<exists>segs. points (case t of None \<Rightarrow> r | Some r' \<Rightarrow> r') n segs \<and> json_at segs w \<noteq> None"
proof (cases "strip_prefix schemas_prefix r")
  case None
  with assms show ?thesis
    by (intro exI[of _ "[]"]) (auto simp: pull_reference_def Let_def and_then_Inr_iff points_component)
next
  case (Some rest)
  note r = strip_prefix_Some[OF Some]
  obtain seg segs where split: "split_char (CHR ''/'') rest = seg # segs" by (cases "split_char (CHR ''/'') rest") simp_all
  have free: "CHR ''/'' \<notin> set seg"
    using split by (induction rest arbitrary: seg segs) (auto split: if_splits list.splits)
  from assms Some split obtain target where target: "resolve_local_ref root r l = Inr target"
    and whole: "resolve_local_ref root (schemas_prefix @ seg) l = Inr w" and tn: "t = None" "n = unescape seg"
    by (auto simp: pull_reference_def Let_def and_then_Inr_iff)
  have "json_at (''components'' # ''schemas'' # unescape seg # map unescape segs) root \<noteq> None"
    using local_ref_Inr[OF target] r split by (simp add: resolve_schema_pointer)
  moreover have "json_at [''components'', ''schemas'', unescape seg] root = Some w"
    using local_ref_Inr[OF whole] free by (simp add: resolve_schema_pointer split_char_free)
  ultimately have "json_at (map unescape segs) w \<noteq> None"
    using json_at_append[of "[''components'', ''schemas'', unescape seg]" "map unescape segs" root] by simp
  moreover have "points r n (map unescape segs)" using Some split tn by (simp add: points_def)
  ultimately show ?thesis using tn by auto
qed

section \<open>The rewriting keeps the shape of a schema\<close>

lemma rewrite_fields_get:
  assumes "rewrite_fields root l t fs = Inr (fs', ps)"
  shows "map_of fs' ''$ref'' = (case map_of fs ''$ref'' of None \<Rightarrow> None | Some v \<Rightarrow> Some (case t of None \<Rightarrow> v | Some r \<Rightarrow> JString r))"
    and "k \<noteq> ''$ref'' \<Longrightarrow> map_of fs k = Some v \<Longrightarrow> \<exists>v' qs. map_of fs' k = Some v' \<and> rewrite_refs root l v = Inr (v', qs)"
  using assms
proof (induction fs arbitrary: fs' ps)
  case (Cons f fs)
  obtain k' w where f: "f = (k', w)" by fastforce
  { case 1 then show ?case using Cons.IH(1) f by (auto split: sum.splits if_splits option.splits) }
  { case 2 then show ?case using Cons.IH(2) f by (fastforce split: sum.splits if_splits) }
qed auto

lemma rewrite_object:
  assumes "rewrite_refs root l (JObject fs) = Inr (v', ps)"
  obtains t pulled fs' pending where "own_reference root l fs = Inr (t, pulled)" "rewrite_fields root l t fs = Inr (fs', pending)"
    "v' = JObject fs'" "ps = pulled @ pending"
  using assms by (subst (asm) rewrite_refs.simps) (auto split: sum.splits)

lemma own_reference_cases:
  assumes "own_reference root l fs = Inr (t, ps)"
  obtains "str_at ''$ref'' (JObject fs) = None" "t = None" "ps = []"
  | r n w where "map_of fs ''$ref'' = Some (JString r)" "pull_reference root l r = Inr (t, (n, w))" "ps = [(n, w)]"
  using assms by (auto simp: own_reference_def and_then_Inr_iff at_simps json_get_def split: option.splits)

lemma rewrite_leaf:
  "rewrite_refs root l JNull = Inr (JNull, [])" "rewrite_refs root l (JBool b) = Inr (JBool b, [])"
  "rewrite_refs root l (JNumber t) = Inr (JNumber t, [])" "rewrite_refs root l (JString t) = Inr (JString t, [])"
  by (simp_all add: rewrite_refs.simps)

lemma rewrite_keeps_places:
  assumes "rewrite_refs root l v = Inr (v', ps)" "json_at ks v \<noteq> None"
  shows "json_at ks v' \<noteq> None"
  using assms
proof (induction ks arbitrary: v v' ps)
  case (Cons k ks)
  from Cons.prems(2) obtain fs w where v: "v = JObject fs" "map_of fs k = Some w" "json_at ks w \<noteq> None"
    by (auto simp: json_get_def split: option.splits json.splits)
  obtain t pulled fs' pending where own: "own_reference root l fs = Inr (t, pulled)" and fields: "rewrite_fields root l t fs = Inr (fs', pending)"
    and v': "v' = JObject fs'" using rewrite_object Cons.prems(1) v(1) by metis
  show ?case
  proof (cases "k = ''$ref''")
    case False
    from rewrite_fields_get(2)[OF fields False v(2)] Cons.IH v(3) v' show ?thesis by (auto simp: json_get_def)
  next
    case True
    have "\<exists>w'. map_of fs' k = Some w' \<and> json_at ks w' \<noteq> None"
      using own
    proof (cases rule: own_reference_cases)
      case 1
      then show ?thesis using rewrite_fields_get(1)[OF fields] v True by simp
    next
      case (2 r n w1)
      then have "ks = []" using v True by (cases ks) (auto simp: json_get_def)
      then show ?thesis using rewrite_fields_get(1)[OF fields] v True by simp
    qed
    then show ?thesis using v' by (auto simp: json_get_def)
  qed
qed simp

lemma rewrite_keys: "rewrite_fields root l t fs = Inr (fs', ps) \<Longrightarrow> map fst fs' = map fst fs"
  by (induction fs arbitrary: fs' ps) (auto split: sum.splits if_splits)

lemma rewrite_ok:
  "rewrite_refs root l v = Inr (v', ps) \<Longrightarrow> json_ok v \<Longrightarrow> json_ok v'"
  "rewrite_fields root l t fs = Inr (fs', ps) \<Longrightarrow> list_all (\<lambda>(k, v). json_ok v) fs \<Longrightarrow> list_all (\<lambda>(k, v). json_ok v) fs'"
  "rewrite_items root l vs = Inr (vs', ps) \<Longrightarrow> list_all json_ok vs \<Longrightarrow> list_all json_ok vs'"
proof (induction root l v and root l t fs and root l vs arbitrary: v' ps and fs' ps and vs' ps
    rule: rewrite_refs_rewrite_fields_rewrite_items.induct)
  case (1 root l node)
  then show ?case
  proof (cases node)
    case (JObject fs)
    from "1.prems"(1)[unfolded JObject] obtain t pulled fs' pending where own: "own_reference root l fs = Inr (t, pulled)"
      and fields: "rewrite_fields root l t fs = Inr (fs', pending)" and v': "v' = JObject fs'"
      by (rule rewrite_object)
    have "list_all (\<lambda>(k, v). json_ok v) fs'"
      using "1.IH"(2)[OF JObject own refl fields] "1.prems"(2) JObject by simp
    with rewrite_keys[OF fields] "1.prems"(2) JObject v' show ?thesis by simp
  next
    case (JArray vs)
    with "1.prems" "1.IH"(1)[OF JArray] show ?thesis by (auto simp: rewrite_refs.simps[of root l "JArray vs"] split: sum.splits)
  qed (use "1.prems" in \<open>auto simp: rewrite_leaf\<close>)
next
  case (3 root l t k v fs)
  then show ?case by (auto split: sum.splits if_splits option.splits)
next
  case (5 root l v vs)
  then show ?case by (auto split: sum.splits)
qed auto

section \<open>What is still to be carried over\<close>

text \<open>A reference a list of schemas serves.\<close>

definition served :: "string \<Rightarrow> (string \<times> json) set \<Rightarrow> bool" where
  "served reference there \<longleftrightarrow> (\<exists>name segments v. points reference name segments \<and> (name, v) \<in> there \<and> json_at segments v \<noteq> None)"

lemma served_mono: "served r here \<Longrightarrow> here \<subseteq> there \<Longrightarrow> served r there"
  by (auto simp: served_def)

text \<open>Every reference of a rewritten schema is served by what the rewriting pulled in.\<close>

lemma rewritten_refs_served:
  "rewrite_refs root l v = Inr (v', ps) \<Longrightarrow> r \<in> refs_in v' \<Longrightarrow> served r (set ps)"
  "rewrite_fields root l t fs = Inr (fs', ps) \<Longrightarrow> (k, w) \<in> set fs' \<Longrightarrow> k \<noteq> ''$ref'' \<Longrightarrow> r \<in> refs_in w \<Longrightarrow> served r (set ps)"
  "rewrite_items root l vs = Inr (vs', ps) \<Longrightarrow> w \<in> set vs' \<Longrightarrow> r \<in> refs_in w \<Longrightarrow> served r (set ps)"
proof (induction root l v and root l t fs and root l vs arbitrary: v' ps and fs' ps k w and vs' ps w
    rule: rewrite_refs_rewrite_fields_rewrite_items.induct)
  case (1 root l node)
  then show ?case
  proof (cases node)
    case (JObject fs)
    from "1.prems"(1)[unfolded JObject] obtain t pulled fs' pending where own: "own_reference root l fs = Inr (t, pulled)"
      and fields: "rewrite_fields root l t fs = Inr (fs', pending)" and v': "v' = JObject fs'" and ps: "ps = pulled @ pending"
      by (rule rewrite_object)
    note fields' = "1.IH"(2)[OF JObject own refl fields]
    show ?thesis
    proof (cases "str_at ''$ref'' (JObject fs') = Some r")
      case True
      from own show ?thesis
      proof (cases rule: own_reference_cases)
        case 1
        with True rewrite_fields_get(1)[OF fields] show ?thesis by (auto simp: at_simps str_at_def json_get_def split: option.splits)
      next
        case (2 r0 n w)
        then have "r = (case t of None \<Rightarrow> r0 | Some r' \<Rightarrow> r')"
          using True rewrite_fields_get(1)[OF fields] by (auto simp: at_simps json_get_def split: option.splits)
        with pulled_reference[OF 2(2)] 2(3) ps show ?thesis by (auto simp: served_def)
      qed
    next
      case False
      with "1.prems"(2) v' obtain k w where "(k, w) \<in> set fs'" "k \<noteq> ''$ref''" "r \<in> refs_in w"
        by (auto split: if_splits)
      from fields'[OF this] ps show ?thesis by (auto intro: served_mono)
    qed
  next
    case (JArray vs)
    with "1.prems" "1.IH"(1)[OF JArray] show ?thesis by (auto simp: rewrite_refs.simps[of root l "JArray vs"] split: sum.splits)
  qed (use "1.prems" in \<open>auto simp: rewrite_leaf\<close>)
next
  case (3 root l t k v fs)
  then show ?case by (fastforce split: sum.splits if_splits intro: served_mono)
next
  case (5 root l v vs)
  then show ?case by (fastforce split: sum.splits intro: served_mono)
qed auto

text \<open>What a list of schemas owes while a worklist is left.\<close>

definition closed_but :: "fields \<Rightarrow> (string \<times> json) list \<Rightarrow> bool" where
  "closed_but schemas work \<longleftrightarrow> distinct (map fst schemas) \<and> (\<forall>(n, v) \<in> set (schemas @ work). json_ok v) \<and>
     (\<forall>(n, v) \<in> set schemas. \<forall>r \<in> refs_in v. served r (set schemas \<union> set work))"

lemma json_eq_place: "json_eq v w \<Longrightarrow> json_at ks v \<noteq> None \<Longrightarrow> json_at ks w \<noteq> None"
proof (induction ks arbitrary: v w)
  case (Cons k ks)
  then obtain fs x where v: "v = JObject fs" "map_of fs k = Some x" "json_at ks x \<noteq> None"
    by (auto simp: json_get_def split: option.splits json.splits)
  with Cons.prems(1) obtain gs y where "w = JObject gs" "map_of gs k = Some y" "json_eq x y"
    by (fastforce simp: json_eq_object dest: map_of_SomeD)
  with Cons.IH v(3) show ?case by (auto simp: json_get_def)
qed simp

lemma pulled_ok:
  assumes "json_ok root" "pull_reference root l r = Inr (t, (n, w))"
  shows "json_ok w"
  using assms by (auto simp: pull_reference_def Let_def and_then_Inr_iff split: option.splits dest!: local_ref_Inr dest: json_ok_pointer)

lemma pending_ok:
  assumes "json_ok root"
  shows "rewrite_refs root l v = Inr (v', ps) \<Longrightarrow> (n, w) \<in> set ps \<Longrightarrow> json_ok w"
    and "rewrite_fields root l t fs = Inr (fs', ps) \<Longrightarrow> (n, w) \<in> set ps \<Longrightarrow> json_ok w"
    and "rewrite_items root l vs = Inr (vs', ps) \<Longrightarrow> (n, w) \<in> set ps \<Longrightarrow> json_ok w"
  using assms
proof (induction root l v and root l t fs and root l vs arbitrary: v' ps and fs' ps and vs' ps
    rule: rewrite_refs_rewrite_fields_rewrite_items.induct)
  case (1 root l node)
  then show ?case
    by (subst (asm) rewrite_refs.simps)
      (fastforce split: json.splits sum.splits elim!: own_reference_cases dest: pulled_ok)
qed (fastforce split: sum.splits if_splits)+

lemma insert_schemas_closed:
  "insert_schemas root l work schemas = Inr out \<Longrightarrow> json_ok root \<Longrightarrow> closed_but schemas work \<Longrightarrow> closed_but out []"
proof (induction root l work schemas rule: insert_schemas.induct)
  case (2 root l name schema work schemas)
  from "2.prems"(1) obtain schema' pending where rw: "rewrite_refs root l schema = Inr (schema', pending)" by (auto split: sum.splits)
  have ok: "json_ok schema" "json_ok schema'" "\<And>n w. (n, w) \<in> set pending \<Longrightarrow> json_ok w"
    using "2.prems"(3) rewrite_ok(1)[OF rw] pending_ok(1)[OF "2.prems"(2) rw] by (auto simp: closed_but_def)
  have moved: "served r (insert (name, x) (set schemas \<union> set work))"
    if "served r (set schemas \<union> set ((name, schema) # work))" and "\<And>ks. json_at ks schema \<noteq> None \<Longrightarrow> json_at ks x \<noteq> None" for r x
  proof -
    from that(1) obtain m segs v where p: "points r m segs" "(m, v) \<in> set schemas \<union> set ((name, schema) # work)" "json_at segs v \<noteq> None"
      unfolding served_def by blast
    show ?thesis
    proof (cases "(m, v) = (name, schema)")
      case True
      with p that(2)[of segs] show ?thesis unfolding served_def by (intro exI[of _ name] exI[of _ segs] exI[of _ x]) auto
    next
      case False
      with p show ?thesis unfolding served_def by (intro exI[of _ m] exI[of _ segs] exI[of _ v]) auto
    qed
  qed
  show ?case
  proof (cases "map_of schemas name")
    case None
    have "closed_but ((name, schema') # schemas) (pending @ work)"
      unfolding closed_but_def
    proof (intro conjI)
      show "distinct (map fst ((name, schema') # schemas))" using "2.prems"(3) None by (simp add: closed_but_def map_of_eq_None_iff)
      show "\<forall>(n, v) \<in> set (((name, schema') # schemas) @ pending @ work). json_ok v" using "2.prems"(3) ok by (fastforce simp: closed_but_def)
      show "\<forall>(n, v) \<in> set ((name, schema') # schemas). \<forall>r \<in> refs_in v. served r (set ((name, schema') # schemas) \<union> set (pending @ work))"
      proof clarify
        fix n v r assume nv: "(n, v) \<in> set ((name, schema') # schemas)" and r: "r \<in> refs_in v"
        show "served r (set ((name, schema') # schemas) \<union> set (pending @ work))"
        proof (cases "(n, v) \<in> set schemas")
          case True
          then have "served r (set schemas \<union> set ((name, schema) # work))" using "2.prems"(3) r by (auto simp: closed_but_def)
          from moved[OF this rewrite_keeps_places[OF rw]] show ?thesis by (rule served_mono) auto
        next
          case False
          with nv r have "served r (set pending)" using rewritten_refs_served(1)[OF rw] by auto
          then show ?thesis by (rule served_mono) auto
        qed
      qed
    qed
    then show ?thesis using "2.IH"(1)[OF rw refl None] "2.prems"(1,2) rw None by simp
  next
    case (Some existing)
    with "2.prems"(1) rw have eq: "json_eq existing schema'" and rest: "insert_schemas root l work schemas = Inr out"
      by (auto split: if_splits)
    have here: "(name, existing) \<in> set schemas" by (rule map_of_SomeD[OF Some])
    then have "json_ok existing" using "2.prems"(3) by (auto simp: closed_but_def)
    then have mirrored: "json_eq schema' existing" using json_eq_sym eq ok(2) by blast
    have "served r (set schemas \<union> set work)" if "(n, v) \<in> set schemas" "r \<in> refs_in v" for n v r
    proof -
      have "served r (set schemas \<union> set ((name, schema) # work))" using "2.prems"(3) that by (auto simp: closed_but_def)
      from moved[OF this json_eq_place[OF mirrored rewrite_keeps_places[OF rw]]] here show ?thesis by (simp add: insert_absorb)
    qed
    then have "closed_but schemas work" using "2.prems"(3) by (auto simp: closed_but_def)
    then show ?thesis using "2.IH"(2)[OF rw refl Some eq rest] "2.prems"(2) by simp
  qed
qed simp

section \<open>The document\<close>

lemma closed_but_add: "closed_but schemas [] \<Longrightarrow> json_ok v \<Longrightarrow> closed_but schemas [(n, v)]"
  unfolding closed_but_def by (fastforce intro: served_mono)

lemma deref_ok:
  "deref_steps n root node l = Inr v \<Longrightarrow> json_ok root \<Longrightarrow> json_ok node \<Longrightarrow> json_ok v"
  by (induction n arbitrary: node)
    (auto simp: and_then_Inr_iff split: option.splits dest!: local_ref_Inr dest: json_ok_pointer)

lemma array_ok: "json_ok v \<Longrightarrow> array_at k v = Some vs \<Longrightarrow> x \<in> set vs \<Longrightarrow> json_ok x"
  using json_ok_get[of v k "JArray vs"] by (simp add: at_simps list_all_iff)

lemma variants_ok: "json_ok message \<Longrightarrow> x \<in> set (variants_of message) \<Longrightarrow> json_ok x"
  by (auto simp: variants_of_def split: option.splits dest: array_ok)

lemma message_at_ok: "json_ok channel \<Longrightarrow> message_at k channel = Some m \<Longrightarrow> json_ok m"
  by (auto simp: message_at_def bind_eq_Some_conv dest: json_ok_get)

lemma kept_at_ok:
  assumes "json_ok root" "json_ok m" "kept_at root location key_of m = Inr ks" "k \<in> set ks"
  shows "json_ok (km_node k)"
  using assms deref_ok[of 32 root m location] by (auto simp: kept_at_def deref_def and_then_Inr_iff)

lemma kept_of_op_key_ok:
  assumes "json_ok root" "json_ok ch" "kept_of_op_key root nm ch k = Inr ks" "x \<in> set ks"
  shows "json_ok (km_node x)"
proof (cases "message_at k ch")
  case (Some message)
  with assms(3) have "collect (kept_variant root (nm @ '' '' @ k)) (variants_of message) = Inr ks" by (simp add: kept_of_op_key_def)
  from collect_Inr_only[OF this assms(4)] show ?thesis
    using kept_at_ok[OF assms(1) variants_ok[OF message_at_ok[OF assms(2) Some]]] unfolding kept_variant_def by blast
qed (use assms in \<open>simp add: kept_of_op_key_def\<close>)

lemma kept_messages_v2_ok:
  assumes "json_ok root" "kept_messages_v2 root = Inr ks" "x \<in> set ks"
  shows "json_ok (km_node x)"
proof (cases "object_at ''channels'' root")
  case (Some chs)
  from collect_Inr_only[OF assms(2)[unfolded kept_messages_v2_def Some option.case] assms(3)] obtain nm ch zs where
    ch: "(nm, ch) \<in> set chs" and run: "collect (kept_of_op_key root nm ch) [''publish'', ''subscribe''] = Inr zs" "x \<in> set zs"
    by (auto simp del: collect.simps)
  from collect_Inr_only[OF run] show ?thesis
    using kept_of_op_key_ok[OF assms(1) json_ok_object_at(2)[OF assms(1) Some ch]] by blast
qed (use assms in \<open>simp add: kept_messages_v2_def\<close>)

lemma kept_of_operation_ok:
  assumes "json_ok root" "json_ok op" "kept_of_operation root at op = Inr ks" "x \<in> set ks"
  shows "json_ok (km_node x)"
proof (cases "array_at ''messages'' op")
  case (Some refs)
  from collect_Inr_only[OF assms(3)[unfolded kept_of_operation_def Some option.case] assms(4)]
  show ?thesis using kept_at_ok[OF assms(1) array_ok[OF assms(2) Some]] by blast
next
  case None
  note run = assms(3)[unfolded kept_of_operation_def None option.case]
  show ?thesis
  proof (cases "json_get ''channel'' op")
    case (Some ch0)
    from run[unfolded Some option.case] obtain ch where ch: "deref root ch0 at = Inr ch"
      and rest: "(case object_at ''messages'' ch of None \<Rightarrow> Inr [] | Some ms \<Rightarrow>
        collect (\<lambda>(key, m). kept_at root (at @ '' message '' @ key) (\<lambda>_. Some key) m) ms) = Inr ks"
      unfolding and_then_Inr_iff by blast
    have ok: "json_ok ch" using deref_ok[OF ch[unfolded deref_def] assms(1) json_ok_get[OF assms(2) Some]] .
    show ?thesis
    proof (cases "object_at ''messages'' ch")
      case (Some fs)
      from collect_Inr_only[OF rest[unfolded Some option.case] assms(4)] obtain key m zs where
        m: "(key, m) \<in> set fs" and at: "kept_at root (at @ '' message '' @ key) (\<lambda>_. Some key) m = Inr zs" "x \<in> set zs" by auto
      show ?thesis by (rule kept_at_ok[OF assms(1) json_ok_object_at(2)[OF ok Some m] at])
    qed (use rest assms(4) in simp)
  qed (use run assms(4) in simp)
qed

lemma kept_messages_ok:
  assumes "json_ok root" "kept_messages root = Inr ks" "x \<in> set ks"
  shows "json_ok (km_node x)"
proof (cases "starts_with ''3.'' (asyncapi_version root)")
  case False
  then show ?thesis using kept_messages_v2_ok[OF assms(1) _ assms(3)] assms(2) by (simp add: kept_messages_def)
next
  case True
  then have run: "kept_messages_v3 root = Inr ks" using assms(2) by (simp add: kept_messages_def)
  show ?thesis
  proof (cases "object_at ''operations'' root")
    case (Some ops)
    from collect_Inr_only[OF run[unfolded kept_messages_v3_def Some option.case] assms(3)] obtain nm op zs where
      op: "(nm, op) \<in> set ops" and kept: "kept_of_operation root (''operation '' @ nm) op = Inr zs" "x \<in> set zs" by auto
    show ?thesis by (rule kept_of_operation_ok[OF assms(1) json_ok_object_at(2)[OF assms(1) Some op] kept])
  qed (use run assms(3) in \<open>simp add: kept_messages_v3_def\<close>)
qed

section \<open>The answer is closed\<close>

lemma plain_payload_ok: "plain_payload v l = Inr w \<Longrightarrow> json_ok v \<Longrightarrow> json_ok w"
  by (auto simp: plain_payload_def and_then_Inr_iff split: option.splits dest: json_ok_get)

lemma named_payload_ok: "named_payload root m payload = Inr (n, v) \<Longrightarrow> json_ok root \<Longrightarrow> json_ok payload \<Longrightarrow> json_ok v"
  by (auto simp: named_payload_def and_then_Inr_iff split: option.splits dest!: local_ref_Inr dest: json_ok_pointer)

lemma add_message_payload_closed:
  assumes "json_ok root" "json_ok (km_node m)" "closed_but schemas []" "add_message_payload root m schemas = Inr out"
  shows "closed_but out []"
proof (cases "json_get ''payload'' (km_node m)")
  case None
  with assms(3,4) show ?thesis by (auto simp: add_message_payload_def and_then_Inr_iff)
next
  case (Some declared)
  with assms(4) obtain payload n v where payload: "plain_payload declared (km_location m) = Inr payload"
    and named: "named_payload root m payload = Inr (n, v)" and run: "insert_schemas root (km_location m) [(n, v)] schemas = Inr out"
    by (auto simp: add_message_payload_def and_then_Inr_iff simp del: insert_schemas.simps)
  have "json_ok v" by (rule named_payload_ok[OF named assms(1) plain_payload_ok[OF payload json_ok_get[OF assms(2) Some]]])
  then show ?thesis by (rule insert_schemas_closed[OF run assms(1) closed_but_add[OF assms(3)]])
qed

lemma add_messages_closed:
  assumes "json_ok root"
  shows "(\<And>m. m \<in> set ms \<Longrightarrow> json_ok (km_node m)) \<Longrightarrow> closed_but schemas [] \<Longrightarrow> add_messages root ms schemas = Inr out \<Longrightarrow> closed_but out []"
proof (induction ms arbitrary: schemas)
  case (Cons m ms)
  then obtain mid where mid: "add_message_payload root m schemas = Inr mid" and rest: "add_messages root ms mid = Inr out"
    by (auto simp: and_then_Inr_iff)
  have "closed_but mid []" by (rule add_message_payload_closed[OF assms _ Cons.prems(2) mid]) (simp add: Cons.prems(1))
  from Cons.IH[OF _ this rest] Cons.prems(1) show ?case by simp
qed simp

lemma add_snippets_closed:
  assumes "\<And>doc v. yaml_read Y doc = Inr v \<Longrightarrow> json_ok v"
  shows "closed_but schemas [] \<Longrightarrow> add_snippets Y snippets schemas = Inr out \<Longrightarrow> closed_but out []"
proof (induction snippets arbitrary: schemas)
  case (Cons snippet snippets)
  then obtain root ms mid where root: "yaml_read Y snippet = Inr root" and kept: "kept_messages root = Inr ms"
    and mid: "add_messages root ms schemas = Inr mid" and rest: "add_snippets Y snippets mid = Inr out"
    by (auto simp: and_then_Inr_iff parsed_def map_err_Inr_iff)
  note ok = assms[OF root]
  have "closed_but mid []" by (rule add_messages_closed[OF ok kept_messages_ok[OF ok kept] Cons.prems(1) mid])
  then show ?case by (rule Cons.IH[OF _ rest])
qed simp

lemma served_resolves:
  assumes "distinct (map fst schemas)" "served r (set schemas)"
  shows "resolve_json_pointer (schemas_document schemas service version) r \<noteq> None"
proof -
  from assms(2) obtain name segs v where p: "points r name segs" and at: "json_at segs v \<noteq> None" "(name, v) \<in> set schemas"
    unfolding served_def by auto
  from p obtain rest where r: "strip_prefix schemas_prefix r = Some rest" "map unescape (split_char (CHR ''/'') rest) = name # segs"
    unfolding points_def by auto
  have "distinct (map fst (sort_key fst schemas))" using assms(1)
    by (metis distinct_map distinct_sort set_sort)
  then have "map_of (sort_key fst schemas) name = Some v" using at(2) by simp
  then show ?thesis
    using at(1) strip_prefix_Some[OF r(1)] r(2) by (simp add: resolve_schema_pointer schemas_document_def json_get_def)
qed

text \<open>
  Every reference of a schema, wherever it stands, and the schemas in which a member
  named \<open>$ref\<close> holds no further one, as where it is the plain string of a reference.
\<close>

fun all_refs :: "json \<Rightarrow> string set" where
  "all_refs (JObject fs) = set_option (str_at ''$ref'' (JObject fs)) \<union> \<Union> (set (map (\<lambda>(k, v). all_refs v) fs))"
| "all_refs (JArray vs) = \<Union> (set (map all_refs vs))"
| "all_refs _ = {}"

fun plain_refs :: "json \<Rightarrow> bool" where
  "plain_refs (JObject fs) = list_all (\<lambda>(k, v). if k = ''$ref'' then all_refs v = {} else plain_refs v) fs"
| "plain_refs (JArray vs) = list_all plain_refs vs"
| "plain_refs _ = True"

lemma plain_refs_all_visited: "plain_refs v \<Longrightarrow> all_refs v = refs_in v"
proof (induction v rule: plain_refs.induct)
  case (1 fs)
  have each: "all_refs w = (if k = ''$ref'' then {} else refs_in w)" if "(k, w) \<in> set fs" for k w
    using 1 that by (auto simp: list_all_iff split: if_splits)
  have "map (\<lambda>(k, v). all_refs v) fs = map (\<lambda>(k, v). if k = ''$ref'' then {} else refs_in v) fs"
    by (rule map_cong) (use each in auto)
  then show ?case by (simp only: all_refs.simps refs_in.simps)
next
  case (2 vs)
  then have "map all_refs vs = map refs_in vs" by (auto simp: list_all_iff)
  then show ?case by (simp only: all_refs.simps refs_in.simps)
qed simp_all

text \<open>
  C10: The OpenAPI answer to an AsyncAPI requirement is closed, with one exception. The
  conversion always returns, and when it answers a document, every reference of the
  schemas it wrote that the rewriting visits resolves inside that document: those into
  the Producer's schemas together with the schema they point into, and all others
  moved into a schema of their own. The rewriting visits every reference but those
  below a member that is itself named \<open>$ref\<close>; so in a schema where such a member holds
  no further reference every reference resolves.
\<close>

theorem openapi_answer_is_closed:
  assumes "\<And>doc v. yaml_read Y doc = Inr v \<Longrightarrow> json_ok v" and "openapi_schemas Y snippets service version = Inr answer"
  shows "\<exists>schemas. add_snippets Y snippets [] = Inr schemas \<and> yaml_write Y (schemas_document schemas service version) = Inr answer \<and>
    (\<forall>(name, schema) \<in> set schemas.
       (\<forall>r \<in> refs_in schema. resolve_json_pointer (schemas_document schemas service version) r \<noteq> None) \<and>
       (plain_refs schema \<longrightarrow> (\<forall>r \<in> all_refs schema. resolve_json_pointer (schemas_document schemas service version) r \<noteq> None)))"
proof -
  from assms(2) obtain schemas where run: "add_snippets Y snippets [] = Inr schemas"
    and written: "yaml_write Y (schemas_document schemas service version) = Inr answer"
    by (auto simp: openapi_schemas_def and_then_Inr_iff map_err_Inr_iff)
  have "closed_but schemas []" using add_snippets_closed[OF assms(1) _ run] by (simp add: closed_but_def)
  then have "resolve_json_pointer (schemas_document schemas service version) r \<noteq> None"
    if "(name, schema) \<in> set schemas" "r \<in> refs_in schema" for name schema r
    using that served_resolves[of schemas] by (fastforce simp: closed_but_def)
  then show ?thesis using run written plain_refs_all_visited by (intro exI[of _ schemas]) auto
qed

text \<open>
  The reach of that promise: a schema member that is itself named \<open>$ref\<close> is skipped,
  so a reference below it stays as it was.
\<close>

lemma member_named_ref_is_skipped:
  "rewrite_refs root l (JObject [(''$ref'', JObject [(''$ref'', JString ''#/components/messages/m'')])]) =
     Inr (JObject [(''$ref'', JObject [(''$ref'', JString ''#/components/messages/m'')])], [])"
  by (simp add: rewrite_refs.simps own_reference_def at_simps str_at_def json_get_def as_str_def)

definition answering_yaml :: yaml_tools where
  "answering_yaml = (table_yaml sample_table)\<lparr>yaml_write := (\<lambda>_. Inr ''answer'')\<rparr>"

theorem openapi_answer_is_closed_witness:
  "\<exists>schemas. add_snippets answering_yaml [''new''] [] = Inr schemas \<and> map fst schemas = [''item'', ''placedPayload''] \<and>
     (\<Union>(name, schema) \<in> set schemas. all_refs schema) \<noteq> {} \<and>
     (\<Union>(name, schema) \<in> set schemas. all_refs schema) \<subseteq>
       {r. resolve_json_pointer (schemas_document schemas ''api'' ''1.0.0'') r \<noteq> None}"
proof -
  have run: "openapi_schemas answering_yaml [''new''] ''api'' ''1.0.0'' = Inr ''answer''" by code_simp
  have names: "(case add_snippets answering_yaml [''new''] [] of
      Inr schemas \<Rightarrow> map fst schemas = [''item'', ''placedPayload''] \<and> list_all (plain_refs \<circ> snd) schemas \<and> list_ex (\<lambda>x. all_refs (snd x) \<noteq> {}) schemas
    | _ \<Rightarrow> False)"
    by code_simp
  have ok: "json_ok v" if "yaml_read answering_yaml doc = Inr v" for doc v
    using table_reads_ok[OF sample_table_ok(2), of doc v] that by (simp add: answering_yaml_def)
  have "\<exists>schemas. add_snippets answering_yaml [''new''] [] = Inr schemas \<and> yaml_write answering_yaml (schemas_document schemas ''api'' ''1.0.0'') = Inr ''answer'' \<and>
    (\<forall>(nm, schema) \<in> set schemas.
       (\<forall>r \<in> refs_in schema. resolve_json_pointer (schemas_document schemas ''api'' ''1.0.0'') r \<noteq> None) \<and>
       (plain_refs schema \<longrightarrow> (\<forall>r \<in> all_refs schema. resolve_json_pointer (schemas_document schemas ''api'' ''1.0.0'') r \<noteq> None)))"
    by (rule openapi_answer_is_closed[OF _ run]) (rule ok)
  then obtain schemas where schemas: "add_snippets answering_yaml [''new''] [] = Inr schemas"
    and closed: "\<And>nm schema r. (nm, schema) \<in> set schemas \<Longrightarrow> plain_refs schema \<Longrightarrow> r \<in> all_refs schema \<Longrightarrow>
      resolve_json_pointer (schemas_document schemas ''api'' ''1.0.0'') r \<noteq> None" by blast
  from names schemas have plain: "map fst schemas = [''item'', ''placedPayload'']" "\<And>nm schema. (nm, schema) \<in> set schemas \<Longrightarrow> plain_refs schema"
    "\<exists>x \<in> set schemas. all_refs (snd x) \<noteq> {}" by (auto simp: list_all_iff list_ex_iff)
  then show ?thesis using schemas closed by (intro exI[of _ schemas] conjI) fastforce+
qed

end
