(* ===== verification/Spec2Isabelle.thy ===== *)
theory Spec2Isabelle
  imports System Provide_Preview Contracts Cache_Calls Sign_In_Claims Dashboard Reading_Rules Asyncapi_Rules Asyncapi_Schemas
begin

text \<open>
  A verification library of the sanshain service (\<open>src/src\<close>), a registry of API
  documents. Producers \<open>provide\<close> OpenAPI, AsyncAPI and Protobuf documents, each
  with the number it declares and a stability (snapshot or GA); Consumers
  \<open>require\<close> endpoints of one pinned version. The library states the rules of the
  version lines, of the dependency graphs and of the people, and proves that the
  code's operations keep them.

  \<^bold>\<open>How the program is put together.\<close> An HTTP handler
  (\<open>presentation/handlers\<close>) calls one service function
  (\<open>application/*_service.rs\<close>), which checks the caller
  (\<open>domain/permissions.rs\<close>, \<open>application/authz.rs\<close>), applies the pure rules
  (\<open>version_rules.rs\<close>, \<open>text_diff.rs\<close>, \<open>openapi.rs\<close>, \<open>backstage.rs\<close>) and reads and
  writes the repository (\<open>infrastructure/sqlite_repository.rs\<close>), usually through
  the caches (\<open>cached_repository.rs\<close>). Changes put webhook deliveries into an
  outbox that a worker empties (\<open>webhook_service.rs\<close>, \<open>webhook_delivery.rs\<close>).

  \<^bold>\<open>How it is modelled.\<close> The repository is one record \<open>db\<close>, a field per table; a
  table is the list of its rows in insertion order, so \<open>ORDER BY\<close>, \<open>LIMIT\<close> and the
  first row of a query mean what SQLite does, and an AUTOINCREMENT key has its
  counter. People live in a second record, \<open>accounts\<close>. A query is a function of
  the state; a statement that writes gives the new state, and an error when it
  violates a unique index or a foreign key. A service function takes its request,
  its caller, the state and the clock readings it makes, and gives
  \<open>app_error + response\<close> with the state it leaves: what was written before a
  refusal stays written unless the code rolls it back. Version components are
  \<open>32 word\<close>, as \<open>u32\<close> is, with the saturating operations written out; other
  counters are \<open>nat\<close> or \<open>int\<close> with the code's saturation and clamps. A text is the
  list of the bytes of its UTF-8 form.

  \<^bold>\<open>The theories.\<close>
  \<^item> \<open>Prelude\<close>: the parts of Rust's library and of SQL every component uses, the
    collections \<open>rust\<close> and \<open>sql\<close>, and the lemmas on them.
  \<^item> \<open>Models\<close>, \<open>Permissions\<close>, \<open>Authz\<close>: \<open>domain/models.rs\<close>, \<open>domain/permissions.rs\<close>,
    \<open>authz.rs\<close> and \<open>directory_roles.rs\<close>. Roles in a linear order, what a caller may
    do, and that no sequence of calls gives a guarded role without an admin.
  \<^item> \<open>Spec_Text\<close>, \<open>Version_Rules\<close>: the normal form and fingerprint of a text, path
    keys, the numbers read from a document; the search for a free number and the
    compatibility a release owes. The search is a \<open>partial_function (option)\<close>,
    because with the range exhausted it does not return.
  \<^item> \<open>Json\<close>, \<open>Asyncapi\<close>, \<open>Asyncapi_Rules\<close>, \<open>Asyncapi_Schemas\<close>: \<open>yaml.rs\<close> and \<open>asyncapi.rs\<close>.
    Values of untyped documents; splitting, comparing and extracting messages, and
    the OpenAPI answer. \<open>asyncapi_analyses\<close> puts them in the place of the
    parameters the rules are stated over.
  \<^item> \<open>Store\<close>, \<open>History\<close>, \<open>Pins\<close>: the tables of versions and endpoints with their
    queries; append-only tables, where a past instant reads the same for ever but
    for the columns refreshed in place, as the stamp of the last require (locale
    \<open>history_table\<close>, interpreted for the six tables of that kind); the dependency
    graphs on them.
  \<^item> \<open>Branches\<close>, \<open>Provide\<close>, \<open>Require\<close>: \<open>branch_service.rs\<close>, \<open>provide_service.rs\<close> and
    \<open>require_service.rs\<close>. \<open>Catalog_Frame\<close> says what each write leaves alone;
    \<open>Provide_Rules\<close>, \<open>Release_Rules\<close>, \<open>Provide_Preview\<close> and \<open>Contracts\<close> hold the
    promises of a Provide: gate, compatibility, ownership, previews, messages.
  \<^item> \<open>Backstage\<close>, \<open>Catalog\<close>: the pushed component descriptor (\<open>backstage.rs\<close>) and
    \<open>catalog_service.rs\<close>.
  \<^item> \<open>Webhook_Events\<close>, \<open>Webhook_Bodies\<close>, \<open>Webhook_Delivery\<close>: hooks and their filters,
    the bodies of deliveries, and the worker with its leases, attempts and back-off.
    A glob match is a loop and a \<open>partial_function (option)\<close>, shown to return.
  \<^item> \<open>Admin\<close>, \<open>Report\<close>, \<open>Dashboard\<close>: \<open>admin_service.rs\<close>, \<open>report_service.rs\<close> and
    \<open>dashboard_service.rs\<close>: removals and clean-ups, graphs as Markdown, numbers of
    the start page.
  \<^item> \<open>Text_Diff\<close>, \<open>Reading\<close>, \<open>Reading_Rules\<close>: \<open>text_diff.rs\<close> and the reads of
    \<open>spec_service.rs\<close>: diffs as patches, blame, endpoint histories, and the one-time
    rewrite of the stored texts.
  \<^item> \<open>Accounts\<close>, \<open>Sign_In\<close>, \<open>Sign_In_Rules\<close>, \<open>Sign_In_Claims\<close>, \<open>Account_Config\<close>:
    \<open>auth_service.rs\<close>, \<open>sign_in_service.rs\<close>, \<open>service_account_service.rs\<close> and the login
    handler of \<open>handlers/auth.rs\<close>. A request on accounts is a state and error monad
    (\<open>request\<close>) in which a failure keeps what was written.
  \<^item> \<open>Cache\<close>, \<open>Cache_Calls\<close>: \<open>cached_repository.rs\<close>. Locale \<open>cache_slot\<close> is one cache
    with its read; it is interpreted for eleven of them. Calls through the caches are
    compared with the same calls on the database.
  \<^item> \<open>System\<close>: every operation that writes the repository as one transition system
    (\<open>step\<close>), and an abstract machine on Producer, API type and number
    (\<open>abs_step\<close>). Locale \<open>refines\<close> carries an invariant and a simulation along runs;
    it is interpreted on the model, and this theory reads the promises of whole runs
    off it. The sample runs that show the hypotheses to hold are there too.

  Locale \<open>version_store\<close> states what the services rely on of the table of versions;
  \<open>Store\<close> interprets it on the queries of the repository.

  \<^bold>\<open>What the lemmas show.\<close> For each component: a well-formedness invariant and
  that every operation keeps it (\<open>catalog_inv\<close>, \<open>docs_ok\<close>, \<open>accounts_inv\<close>,
  \<open>coherent\<close>, the histories); the result of the operations on every branch, refusals
  included; equivalence of optimised or delegated routines with a plain reference
  (dry run and Provide, caches and database, line ends); refinement of the abstract
  catalogue; the behaviour of the loops, one of which can run for ever.

  \<^bold>\<open>Bounds.\<close> No definition uses fuel; the walk along references stops after the
  code's own 32 steps. The recursions that are not structural have measures on the
  text or the value left to read, and the worklist of pulled-in schemas has one on
  the names a document can still pull in. Where the code saturates, so does the model,
  and a bound under which it does not is a hypothesis or follows from a limit of
  the code (the rows one query reads, the digits of a number).

  \<^bold>\<open>Parameters.\<close> What is not code of this repository is an argument: SHA-256,
  HMAC, password hashing and random draws; the YAML, JSON, OpenAPI and regular
  expression libraries (\<open>spec_tools\<close> and \<open>yaml_tools\<close>; the compatibility check and
  the splitter of OpenAPI and Protobuf documents are fields of \<open>spec_tools\<close> too); the line diff of the \<open>similar\<close> crate
  (\<open>diff_tools\<close>, with the documented shape of its operations as a hypothesis); the
  rendering of stamps and the calendar; the directory and the OpenID provider; the
  HTTP client. A clock reading is an argument at each place the code makes one.

  \<^bold>\<open>Not modelled.\<close> Failures of the driver and the disk; log lines and metrics;
  the trees of \<open>structure.rs\<close> and the answers of \<open>mcp_service.rs\<close>, which render for
  display what the modelled reads return; the HTTP handlers other than the login,
  which extract a request, call one service function and render the answer;
  \<open>postgres_repository.rs\<close>, the same operations in another dialect, and
  \<open>mock_repo.rs\<close>, a double for tests; the identity providers and the
  infrastructure (connections, certificates, telemetry, process start-up). Two
  requests at once are two operations one after the other; where the code makes a
  write conditional on what it read (a promotion's fingerprint, a delivery's
  lease) the model has that condition and the theorems rest on it.
\<close>

section \<open>Runs of the whole service\<close>

text \<open>
  C4: Whatever the service is asked, in any order, its store stays well formed:
  ids and names are unique, every entry belongs to a Producer and no number of
  a line is taken twice, and every entry is what its own text says (the stored
  fingerprint is that of the text, the number is the one it declares, the
  stored endpoints are the ones it contains).
\<close>

theorem every_run_is_well_formed:
  assumes "run (step T) empty_db acts db"
  shows "catalog_inv db \<and> docs_ok T db"
  using cat.inv_run[OF assms empty_store(1)] by (simp add: store_ok_def)

theorem every_run_is_well_formed_witness:
  "catalog_inv sample_promoted \<and> docs_ok sample_spec sample_promoted"
  by (rule every_run_is_well_formed[OF sample_history_runs])

text \<open>
  C3: The service implements the abstract catalogue. Every run of the detailed
  operations from an empty database is, request by request, a run of the
  machine on Producer name, API type and number: a Provide writes the declared
  number unless it is GA, a release only for a caller who may release and
  compatible with the release below it in its major, a promotion only over a
  snapshot with the fingerprint of the text it read, expiry takes snapshots
  only, and nothing but a deletion or a clearance takes anything else.
\<close>

theorem runs_refine_the_catalogue:
  assumes "run (step T) empty_db acts db"
  shows "run (abs_step T) Map.empty acts (catalogue db)"
  using cat.sim_run[OF assms empty_store(1)] by (simp add: empty_store)

theorem runs_refine_the_catalogue_witness:
  "run (abs_step sample_spec) Map.empty sample_history (catalogue sample_promoted) \<and>
   catalogue sample_promoted (''api'', OpenApi, SemVer 1 0 0) = Some (Ga, ''1.0.0 /a'')"
  using runs_refine_the_catalogue[OF sample_history_runs] sample_run_entries(2) by blast

text \<open>
  C1: A release is for good. Once a number is GA its text and stability stay as
  they are through every later request of every caller, until that version or
  its Producer is deleted or the catalogue is cleared.
\<close>

theorem a_release_is_for_good:
  assumes "run (step T) empty_db earlier db" and "catalogue db k = Some (Ga, c)" and "run (step T) db later db'"
    and "\<forall>a \<in> set later. \<not> removes a k"
  shows "catalogue db' k = Some (Ga, c)"
  by (rule cat.lasting[where P = "\<lambda>K. K k = Some (Ga, c)" and ok = "\<lambda>a. \<not> removes a k"])
    (use assms cat.inv_run[OF assms(1) empty_store(1)] in \<open>auto intro: abs_ga_kept\<close>)

theorem a_release_is_for_good_witness:
  "catalogue sample_late (''api'', OpenApi, SemVer 1 0 0) = Some (Ga, ''1.0.0 /a'')"
  by (rule a_release_is_for_good[OF sample_history_runs sample_run_entries(2) sample_late_runs]) simp

text \<open>
  C2: Only a releaser releases. When a number is GA with a text it did not have
  before a run, some request of that run was for its Producer and API type,
  asked for a release (a GA Provide that is no dry run, or a promotion) and
  came from a caller who may release.
\<close>

theorem only_releasers_release:
  assumes "run (step T) empty_db earlier db" and "run (step T) db later db'"
    and "catalogue db k \<noteq> Some (Ga, c)" and "catalogue db' k = Some (Ga, c)"
  shows "\<exists>a \<in> set later. releases a k"
  by (rule cat.cause[where P = "\<lambda>K. K k = Some (Ga, c)"])
    (use assms cat.inv_run[OF assms(1) empty_store(1)] in \<open>auto dest: abs_ga_new\<close>)

theorem only_releasers_release_witness:
  "\<exists>a \<in> set sample_history. releases a (''api'', OpenApi, SemVer 1 0 0)"
  by (rule only_releasers_release[OF run.Stop sample_history_runs _ sample_run_entries(2)]) (simp add: empty_store)

section \<open>The analyses under the rules\<close>

text \<open>
  With the AsyncAPI analyses of the code in place of the parameter, the release rule
  reads: a released document keeps every message of the release below it in its
  major that is not marked deprecated, and of a message that stays every node of the
  payload that a reader of that release reaches by lasting property names.
\<close>

theorem asyncapi_release_keeps_reads:
  assumes "catalog_inv db" and "provide_spec_with_origin (asyncapi_analyses Y T) E p origin db = (Some (Inr r), db')"
    and "pv_stability p = Ga" and "pv_api_type p = AsyncApi" and "line_abs db' \<noteq> line_abs db" and "find_service db (pv_producer p) = Some sid"
    and "line_abs db (sid, AsyncApi, b) = Some (Ga, old_text)" and "b < pr_version r" and "major b = major (pr_version r)"
    and "\<forall>b' c. line_abs db (sid, AsyncApi, b') = Some (Ga, c) \<longrightarrow> b' < pr_version r \<longrightarrow> b' \<le> b"
    and "\<And>fs. set (hash_order Y fs) = set fs"
    and "yaml_read Y old_text = Inr old" and "yaml_read Y (normalize_spec_text (pv_content p)) = Inr new"
    and "map_of (collect_messages old) name = Some m"
  shows "(\<not> is_marked_deprecated m \<longrightarrow> (\<exists>m'. map_of (collect_messages new) name = Some m')) \<and>
    (\<forall>m'. map_of (collect_messages new) name = Some m' \<longrightarrow> message_kept m m')"
proof -
  have "check_compatibility (asyncapi_analyses Y T) AsyncApi old_text (normalize_spec_text (pv_content p)) = Inr ()"
    using release_passed_check[OF assms(1-3,5,6), of b old_text] assms(4,7-10) by simp
  then have "check_backward_compatibility Y old_text (normalize_spec_text (pv_content p)) = Inr ()"
    by (simp add: check_compatibility_def asyncapi_analyses_def)
  from check_keeps_reads[OF assms(11) this assms(12-14)] show ?thesis by blast
qed

end
